(* ===== verification/Prelude.thy ===== *)
theory Prelude
  imports Complex_Main "HOL-Library.Word" "HOL-Library.Multiset" "HOL-Library.Sublist"
begin

text \<open>
  What the components share: the names of the model's basic types, the parts of Go's
  \<open>strings\<close> package the program uses, and generic lemmas on lists.

  Go strings are byte strings, so they are HOL's \<open>string\<close> (a list of 8-bit characters).
  Text that the code converts to \<open>[]rune\<close> is a list of \<open>rune\<close>s instead (see Chunk).
  Times and durations are integers in nanoseconds, as \<open>time.Duration\<close> is.
\<close>

named_theorems go_simps "equations of the Go string and slice operations"
named_theorems inv_intros "introduction rules for the components' invariants"

type_synonym bytes = string
type_synonym time = int
type_synonym duration = int
type_synonym rune = nat

abbreviation millisecond :: duration where "millisecond \<equiv> 1000000"
abbreviation second :: duration where "second \<equiv> 1000 * millisecond"
abbreviation minute :: duration where "minute \<equiv> 60 * second"
abbreviation hour :: duration where "hour \<equiv> 60 * minute"
abbreviation maxInt64 :: int where "maxInt64 \<equiv> 9223372036854775807"

section \<open>Go's strings package\<close>

definition has_prefix :: "'a list \<Rightarrow> 'a list \<Rightarrow> bool" where
  "has_prefix s p \<longleftrightarrow> take (length p) s = p"

definition has_suffix :: "'a list \<Rightarrow> 'a list \<Rightarrow> bool" where
  "has_suffix s t \<longleftrightarrow> length t \<le> length s \<and> drop (length s - length t) s = t"

text \<open>\<open>strings.Index\<close>: the position of the first occurrence.\<close>

fun index_of :: "'a list \<Rightarrow> 'a list \<Rightarrow> nat option" where
  "index_of [] sub = (if sub = [] then Some 0 else None)"
| "index_of (x # xs) sub =
     (if has_prefix (x # xs) sub then Some 0 else map_option Suc (index_of xs sub))"

text \<open>\<open>strings.Split\<close> with a one-character separator; never the empty list.\<close>

fun split_char :: "'a \<Rightarrow> 'a list \<Rightarrow> 'a list list" where
  "split_char c [] = [[]]"
| "split_char c (x # xs) =
     (if x = c then [] # split_char c xs
      else (case split_char c xs of [] \<Rightarrow> [[x]] | p # ps \<Rightarrow> (x # p) # ps))"

text \<open>\<open>strings.Join\<close>.\<close>

fun join :: "'a list \<Rightarrow> 'a list list \<Rightarrow> 'a list" where
  "join sep [] = []"
| "join sep [p] = p"
| "join sep (p # q # ps) = p @ sep @ join sep (q # ps)"

lemma has_prefix_iff [go_simps]: "has_prefix s p \<longleftrightarrow> (\<exists>v. s = p @ v)"
  unfolding has_prefix_def by (metis append_eq_conv_conj append_take_drop_id)

lemma has_suffix_iff [go_simps]: "has_suffix s t \<longleftrightarrow> (\<exists>u. s = u @ t)"
  unfolding has_suffix_def
proof
  assume "length t \<le> length s \<and> drop (length s - length t) s = t"
  then show "\<exists>u. s = u @ t" by (metis append_take_drop_id)
qed auto

lemma has_prefix_nil [simp]: "has_prefix s []"
  by (simp add: has_prefix_def)

lemma has_prefix_append [simp]: "has_prefix (p @ v) p"
  by (simp add: has_prefix_def)

lemma index_of_Some:
  "index_of s sub = Some i \<Longrightarrow> \<exists>v. s = take i s @ sub @ v \<and> i + length sub \<le> length s"
proof (induction s arbitrary: i)
  case Nil
  then show ?case by (simp split: if_splits)
next
  case (Cons x xs)
  show ?case
  proof (cases "has_prefix (x # xs) sub")
    case True
    then obtain v where "x # xs = sub @ v" by (auto simp: has_prefix_iff)
    with True Cons.prems show ?thesis by (metis append_Nil add_0 index_of.simps(2) le_add1
        length_append option.inject take0)
  next
    case False
    with Cons.prems obtain j where j: "index_of xs sub = Some j" "i = Suc j" by auto
    from Cons.IH [OF j(1)] show ?thesis using j(2) by auto
  qed
qed

lemma index_of_least:
  assumes "s = u @ sub @ v"
  shows "\<exists>i. index_of s sub = Some i \<and> i \<le> length u"
  using assms
proof (induction s arbitrary: u)
  case Nil
  then show ?case by simp
next
  case (Cons x xs)
  show ?case
  proof (cases "has_prefix (x # xs) sub")
    case True
    then show ?thesis by simp
  next
    case False
    with Cons.prems obtain u' where u: "u = x # u'" "xs = u' @ sub @ v"
      by (cases u) (auto simp: has_prefix_iff)
    from Cons.IH [OF u(2)] show ?thesis using u(1) False by auto
  qed
qed

lemma index_of_None_iff: "index_of s sub = None \<longleftrightarrow> \<not> (\<exists>u v. s = u @ sub @ v)"
  using index_of_Some [of s sub] index_of_least [of s _ sub] by fastforce

lemma split_char_nonempty [simp]: "split_char c s \<noteq> []"
  by (induction s) (auto split: list.splits)

lemma join_split_char: "join [c] (split_char c s) = s"
proof (induction s)
  case (Cons x xs)
  then show ?case
    by (cases "split_char c xs"; cases "tl (split_char c xs)") (auto split: list.splits)
qed simp

lemma split_char_no_sep: "p \<in> set (split_char c s) \<Longrightarrow> c \<notin> set p"
proof (induction s arbitrary: p)
  case (Cons x xs)
  then show ?case by (cases "split_char c xs") (auto split: if_splits)
qed simp

lemma split_char_single: "c \<notin> set s \<Longrightarrow> split_char c s = [s]"
  by (induction s) auto

lemma split_char_length1: "length (split_char c s) = 1 \<longleftrightarrow> c \<notin> set s"
proof (induction s)
  case (Cons x xs)
  then show ?case by (cases "split_char c xs") auto
qed simp

section \<open>Numbers\<close>

text \<open>Go's conversion of a float to an integer truncates toward zero.\<close>

definition go_trunc :: "rat \<Rightarrow> int" where
  "go_trunc x = (if x \<ge> 0 then \<lfloor>x\<rfloor> else \<lceil>x\<rceil>)"

lemma go_trunc_scaled:
  fixes r :: rat and c :: int
  assumes "0 \<le> r" "r < 1" "0 \<le> c"
  shows "0 \<le> go_trunc (r * of_int c)"
    and "0 < c \<Longrightarrow> go_trunc (r * of_int c) < c"
    and "go_trunc (r * of_int c) \<le> c"
proof -
  from assms have nn: "0 \<le> r * of_int c" by simp
  then show "0 \<le> go_trunc (r * of_int c)" by (simp add: go_trunc_def)
  show lt: "go_trunc (r * of_int c) < c" if "0 < c"
  proof -
    have "r * of_int c < 1 * of_int c" using assms that by (intro mult_strict_right_mono) auto
    with nn show ?thesis by (simp add: go_trunc_def floor_less_iff)
  qed
  show "go_trunc (r * of_int c) \<le> c"
    using lt assms(3) by (cases "c = 0") (auto simp: go_trunc_def)
qed

section \<open>Lists\<close>

lemma count_list_zero_iff: "count_list xs x = 0 \<longleftrightarrow> x \<notin> set xs"
  by (simp add: count_list_0_iff)

lemma sorted_wrt_append_iff:
  "sorted_wrt P (xs @ ys) \<longleftrightarrow>
     sorted_wrt P xs \<and> sorted_wrt P ys \<and> (\<forall>x\<in>set xs. \<forall>y\<in>set ys. P x y)"
  by (simp add: sorted_wrt_append)

lemma find_SomeD: "find P xs = Some x \<Longrightarrow> x \<in> set xs \<and> P x"
  by (auto simp: find_Some_iff)

lemma find_sorted_first:
  assumes "find P xs = Some x" "sorted_wrt R xs" "y \<in> set xs" "P y"
  shows "y = x \<or> R x y"
  using assms by (induction xs) (auto split: if_splits)

section \<open>Stable sorting\<close>

text \<open>\<open>sort.SliceStable\<close>: the stable insertion sort by a strict weak order.\<close>

fun insert_by :: "('a \<Rightarrow> 'a \<Rightarrow> bool) \<Rightarrow> 'a \<Rightarrow> 'a list \<Rightarrow> 'a list" where
  "insert_by lt x [] = [x]"
| "insert_by lt x (y # ys) = (if lt y x then y # insert_by lt x ys else x # y # ys)"

definition stable_sort :: "('a \<Rightarrow> 'a \<Rightarrow> bool) \<Rightarrow> 'a list \<Rightarrow> 'a list" where
  "stable_sort lt xs = foldr (insert_by lt) xs []"

lemma mset_insert_by: "mset (insert_by lt x xs) = add_mset x (mset xs)"
  by (induction xs) auto

lemma set_insert_by: "set (insert_by lt x xs) = insert x (set xs)"
  by (metis mset_insert_by set_mset_add_mset_insert set_mset_mset)

lemma mset_stable_sort: "mset (stable_sort lt xs) = mset xs"
  unfolding stable_sort_def by (induction xs) (simp_all add: mset_insert_by)

lemma set_stable_sort: "set (stable_sort lt xs) = set xs"
  by (metis mset_stable_sort set_mset_mset)

lemma sorted_insert_by:
  assumes "\<And>x y. lt x y \<Longrightarrow> \<not> lt y x"
    and "\<And>x y z. \<not> lt y x \<Longrightarrow> \<not> lt z y \<Longrightarrow> \<not> lt z x"
  shows "sorted_wrt (\<lambda>x y. \<not> lt y x) xs \<Longrightarrow> sorted_wrt (\<lambda>x y. \<not> lt y x) (insert_by lt x xs)"
proof (induction xs)
  case (Cons y ys)
  show ?case
  proof (cases "lt y x")
    case True
    with Cons show ?thesis by (auto simp: set_insert_by dest: assms(1))
  next
    case False
    have "\<not> lt z x" if "z \<in> set ys" for z
      using assms(2) [of y x z] False Cons.prems that by simp
    with False Cons.prems show ?thesis by simp
  qed
qed simp

lemma sorted_stable_sort:
  assumes "\<And>x y. lt x y \<Longrightarrow> \<not> lt y x"
    and "\<And>x y z. \<not> lt y x \<Longrightarrow> \<not> lt z y \<Longrightarrow> \<not> lt z x"
  shows "sorted_wrt (\<lambda>x y. \<not> lt y x) (stable_sort lt xs)"
  unfolding stable_sort_def
proof (induction xs)
  case (Cons x xs)
  then show ?case by (simp add: sorted_insert_by [of lt, OF assms])
qed simp

section \<open>Machine integers\<close>

text \<open>A Go \<open>int\<close> or \<open>int64\<close> result wraps around.\<close>

definition wrap64 :: "int \<Rightarrow> int" where
  "wrap64 n = (n + 2 ^ 63) mod 2 ^ 64 - 2 ^ 63"

definition int64 :: "int \<Rightarrow> bool" where
  "int64 n \<longleftrightarrow> - (2 ^ 63) \<le> n \<and> n < 2 ^ 63"

lemma wrap64_id: "int64 n \<Longrightarrow> wrap64 n = n"
  by (simp add: wrap64_def int64_def)

lemma wrap64_int64: "int64 (wrap64 n)"
  by (simp add: wrap64_def int64_def)

lemma wrap64_mod: "wrap64 n = n + 2 ^ 64 * (- ((n + 2 ^ 63) div 2 ^ 64))"
  using mult_div_mod_eq [of "2 ^ 64" "n + 2 ^ 63"] by (simp add: wrap64_def algebra_simps)

lemma wrap64_shift: "wrap64 (n + 2 ^ 64 * k) = wrap64 n"
proof -
  have "(n + 2 ^ 64 * k + 2 ^ 63) mod 2 ^ 64 = (n + 2 ^ 63 + 2 ^ 64 * k) mod (2 ^ 64 :: int)"
    by (simp only: ac_simps)
  then show ?thesis by (simp only: wrap64_def mod_mult_self2)
qed

lemma wrap64_add_left: "wrap64 (wrap64 a + b) = wrap64 (a + b)"
  using wrap64_shift [of "a + b" "- ((a + 2 ^ 63) div 2 ^ 64)"]
  by (subst wrap64_mod [of a]) (simp only: ac_simps)

lemma wrap64_add_right: "wrap64 (a + wrap64 b) = wrap64 (a + b)"
  using wrap64_add_left [of b a] by (simp only: add.commute)

end
