(* ===== verification/Glob.thy ===== *)
theory Glob
  imports Prelude
begin

text \<open>
  The pattern matcher of \<open>internal/glob/glob.go\<close>, shared by the price table, the
  capability table and the tool lists: \<open>HasWildcard\<close>, \<open>LiteralPrefix\<close>,
  \<open>Compare\<close> and \<open>Match\<close>, with a declarative reading of patterns (\<open>wild\<close>) that
  \<open>Match\<close>'s left-to-right scan is proved to decide.
\<close>

section \<open>The operations\<close>

abbreviation star :: char where "star \<equiv> CHR ''*''"

definition has_wildcard :: "bytes \<Rightarrow> bool" where
  "has_wildcard pat \<longleftrightarrow> star \<in> set pat"

definition literal_prefix :: "bytes \<Rightarrow> bytes" where
  "literal_prefix pat = takeWhile (\<lambda>c. c \<noteq> star) pat"

definition compare_patterns :: "bytes \<Rightarrow> bytes \<Rightarrow> int" where
  "compare_patterns a b =
     (let ea = \<not> has_wildcard a; eb = \<not> has_wildcard b in
      if ea \<noteq> eb then (if ea then -1 else 1)
      else (let la = length (literal_prefix a); lb = length (literal_prefix b) in
            if la > lb then -1 else if la < lb then 1 else 0))"

text \<open>The middle loop of \<open>Match\<close>: each literal part is taken at its first occurrence.\<close>

fun match_middle :: "bytes list \<Rightarrow> bytes \<Rightarrow> bytes option" where
  "match_middle [] s = Some s"
| "match_middle (mid # mids) s =
     (case index_of s mid of
        None \<Rightarrow> None
      | Some i \<Rightarrow> match_middle mids (drop (i + length mid) s))"

definition glob_match :: "bytes \<Rightarrow> bytes \<Rightarrow> bool" where
  "glob_match pat s =
     (let parts = split_char star pat in
      if length parts = 1 then pat = s
      else
        (let head = hd parts; tail = last parts in
         if \<not> has_prefix s head then False
         else
           (case match_middle (butlast (tl parts)) (drop (length head) s) of
              None \<Rightarrow> False
            | Some s' \<Rightarrow> length s' \<ge> length tail \<and> has_suffix s' tail)))"

section \<open>The declarative reading\<close>

text \<open>
  A pattern matches when the text can be cut so that every literal character matches
  itself and every star takes some run of characters, the empty one included.
\<close>

fun wild :: "bytes \<Rightarrow> bytes \<Rightarrow> bool" where
  "wild [] s \<longleftrightarrow> s = []"
| "wild (c # p) s \<longleftrightarrow>
     (if c = star then (\<exists>k \<le> length s. wild p (drop k s))
      else (case s of [] \<Rightarrow> False | x # xs \<Rightarrow> x = c \<and> wild p xs))"

text \<open>The same language over the parts between the stars.\<close>

fun parts_lang :: "bytes list \<Rightarrow> bytes \<Rightarrow> bool" where
  "parts_lang [] s \<longleftrightarrow> True"
| "parts_lang [t] s \<longleftrightarrow> (\<exists>u. s = u @ t)"
| "parts_lang (m # n # ms) s \<longleftrightarrow> (\<exists>u v. s = u @ m @ v \<and> parts_lang (n # ms) v)"

lemma parts_lang_prepend: "parts_lang ms s \<Longrightarrow> parts_lang ms (u @ s)"
proof (induction ms s rule: parts_lang.induct)
  case (3 m n ms s)
  then obtain w v where "s = w @ m @ v" "parts_lang (n # ms) v" by auto
  then have "u @ s = (u @ w) @ m @ v" by simp
  with \<open>parts_lang (n # ms) v\<close> show ?case unfolding parts_lang.simps(3) by blast
qed auto

text \<open>Taking the first occurrence never loses a match: what is left only gets longer.\<close>

lemma match_middle_lang:
  "(case match_middle ms s of None \<Rightarrow> False | Some s' \<Rightarrow> has_suffix s' t) \<longleftrightarrow>
     parts_lang (ms @ [t]) s"
proof (induction ms arbitrary: s)
  case Nil
  then show ?case by (simp add: has_suffix_iff)
next
  case (Cons m ms)
  obtain n ns where ns: "ms @ [t] = n # ns" by (cases ms) auto
  show ?case
  proof (cases "index_of s m")
    case None
    then have "\<not> (\<exists>u v. s = u @ m @ v)" by (simp add: index_of_None_iff)
    with None ns show ?thesis by auto
  next
    case (Some i)
    let ?r = "drop (i + length m) s"
    from index_of_Some [OF Some] obtain v0 where v0: "s = take i s @ m @ v0" by blast
    from index_of_Some [OF Some] have "i \<le> length s" by auto
    then have li: "length (take i s) = i" by simp
    have r: "?r = v0" using arg_cong [OF v0, of "drop (i + length m)"] li
      by (simp del: length_take)
    have "parts_lang (ms @ [t]) ?r \<longleftrightarrow> parts_lang ((m # ms) @ [t]) s"
    proof
      assume "parts_lang (ms @ [t]) ?r"
      with v0 r ns show "parts_lang ((m # ms) @ [t]) s" by auto
    next
      assume "parts_lang ((m # ms) @ [t]) s"
      with ns obtain u v where uv: "s = u @ m @ v" "parts_lang (ms @ [t]) v" by auto
      from index_of_least [OF uv(1)] Some have "i \<le> length u" by auto
      with uv(1) have "?r = drop (i + length m) (u @ m) @ v" by simp
      then show "parts_lang (ms @ [t]) ?r" using parts_lang_prepend [OF uv(2)] by metis
    qed
    with Some Cons.IH show ?thesis by simp
  qed
qed

text \<open>\<open>wild\<close> in terms of the parts.\<close>

lemma wild_literal: "star \<notin> set p \<Longrightarrow> wild (p @ q) s \<longleftrightarrow> (\<exists>v. s = p @ v \<and> wild q v)"
  by (induction p arbitrary: s) (auto split: list.splits)

lemma wild_star: "wild (star # q) s \<longleftrightarrow> (\<exists>u v. s = u @ v \<and> wild q v)"
proof
  assume "wild (star # q) s"
  then obtain k where "wild q (drop k s)" by auto
  then show "\<exists>u v. s = u @ v \<and> wild q v" by (metis append_take_drop_id)
next
  assume "\<exists>u v. s = u @ v \<and> wild q v"
  then obtain u v where "s = u @ v" "wild q v" by blast
  then show "wild (star # q) s" by (auto intro!: exI [of _ "length u"])
qed

lemma wild_parts:
  assumes "\<forall>p\<in>set ps. star \<notin> set p" and "ps \<noteq> []"
  shows "wild (star # join [star] ps) s \<longleftrightarrow> parts_lang ps s"
  using assms
proof (induction ps s rule: parts_lang.induct)
  case (2 t s)
  then have "wild t v \<longleftrightarrow> v = t" for v
    using wild_literal [of t "[]" v] by auto
  then show ?case by (subst join.simps, subst wild_star) auto
next
  case (3 m n ms s)
  then have m: "star \<notin> set m" by simp
  have "wild (star # join [star] (m # n # ms)) s \<longleftrightarrow>
      (\<exists>u v. s = u @ v \<and> wild (m @ star # join [star] (n # ms)) v)"
    by (subst wild_star) simp
  also have "\<dots> \<longleftrightarrow> (\<exists>u w. s = u @ m @ w \<and> wild (star # join [star] (n # ms)) w)"
    by (subst wild_literal [OF m]) auto
  finally show ?case using 3 by simp
qed simp

lemma wild_no_star: "star \<notin> set p \<Longrightarrow> wild p s \<longleftrightarrow> s = p"
  using wild_literal [of p "[]" s] by auto

section \<open>Match decides the declarative reading\<close>

lemma glob_match_wild: "glob_match pat s \<longleftrightarrow> wild pat s"
proof (cases "length (split_char star pat) = 1")
  case True
  then have "star \<notin> set pat" using split_char_length1 by metis
  then show ?thesis by (auto simp: glob_match_def Let_def wild_no_star split_char_single)
next
  case False
  define ps where "ps = split_char star pat"
  have "ps \<noteq> []" by (simp add: ps_def)
  with False obtain h p qs where hp: "ps = h # p # qs"
    unfolding ps_def by (metis One_nat_def length_Cons list.exhaust list.size(3))
  have nostar: "\<forall>q\<in>set ps. star \<notin> set q"
    unfolding ps_def by (auto dest: split_char_no_sep)
  have pat: "pat = h @ star # join [star] (p # qs)"
    using join_split_char [of star pat] hp unfolding ps_def by simp
  have parts: "butlast (tl ps) @ [last ps] = p # qs"
    using hp by simp
  have suf: "length t \<le> length s' \<and> has_suffix s' t \<longleftrightarrow> has_suffix s' t" for s' t :: bytes
    by (auto simp: has_suffix_def)
  have "glob_match pat s \<longleftrightarrow> has_prefix s h \<and>
      (case match_middle (butlast (tl ps)) (drop (length h) s) of
         None \<Rightarrow> False | Some s' \<Rightarrow> has_suffix s' (last ps))"
    using False hp unfolding glob_match_def Let_def ps_def [symmetric] suf by simp
  also have "\<dots> \<longleftrightarrow> has_prefix s h \<and> parts_lang (p # qs) (drop (length h) s)"
    unfolding match_middle_lang parts ..
  also have "\<dots> \<longleftrightarrow> (\<exists>v. s = h @ v \<and> wild (star # join [star] (p # qs)) v)"
    using nostar hp wild_parts [of "p # qs"]
    by (auto simp: has_prefix_iff simp del: wild.simps parts_lang.simps)
  also have "\<dots> \<longleftrightarrow> wild pat s"
    using nostar hp pat wild_literal [of h "star # join [star] (p # qs)" s] by simp
  finally show ?thesis .
qed

lemma glob_match_exact: "\<not> has_wildcard pat \<Longrightarrow> glob_match pat s \<longleftrightarrow> s = pat"
  by (simp add: glob_match_wild wild_no_star has_wildcard_def)

lemma literal_prefix_wild: "wild pat s \<Longrightarrow> has_prefix s (literal_prefix pat)"
proof (induction pat arbitrary: s)
  case Nil
  then show ?case by (simp add: literal_prefix_def)
next
  case (Cons c p)
  then show ?case
    by (cases s) (fastforce simp: literal_prefix_def has_prefix_def split: if_splits)+
qed

lemma glob_match_literal_prefix: "glob_match pat s \<Longrightarrow> has_prefix s (literal_prefix pat)"
  by (simp add: glob_match_wild literal_prefix_wild)

section \<open>Specificity\<close>

text \<open>\<open>Compare\<close> orders patterns by a rank: exact ones first, then by prefix length.\<close>

definition specificity :: "bytes \<Rightarrow> nat \<times> nat" where
  "specificity p = (if has_wildcard p then 1 else 0, length (literal_prefix p))"

definition more_specific :: "bytes \<Rightarrow> bytes \<Rightarrow> bool" where
  "more_specific a b \<longleftrightarrow> compare_patterns a b < 0"

lemma compare_patterns_cases:
  "compare_patterns a b \<in> {-1, 0, 1}"
  by (simp add: compare_patterns_def Let_def)

lemma compare_patterns_less:
  "compare_patterns a b < 0 \<longleftrightarrow>
     fst (specificity a) < fst (specificity b) \<or>
     fst (specificity a) = fst (specificity b) \<and> snd (specificity b) < snd (specificity a)"
  by (auto simp: compare_patterns_def specificity_def Let_def)

lemma compare_patterns_swap: "compare_patterns b a = - compare_patterns a b"
  by (auto simp: compare_patterns_def Let_def)

lemma compare_patterns_zero:
  "compare_patterns a b = 0 \<longleftrightarrow> specificity a = specificity b"
  by (auto simp: compare_patterns_def specificity_def Let_def)

lemma compare_patterns_trans:
  "compare_patterns a b \<le> 0 \<Longrightarrow> compare_patterns b c \<le> 0 \<Longrightarrow> compare_patterns a c \<le> 0"
  by (auto simp: compare_patterns_def Let_def split: if_splits)

section \<open>The contract the callers rely on\<close>

text \<open>
  The tool policy and the price table use a matcher only through these laws: a pattern
  without a star matches itself alone, a lone star matches everything, and a match
  starts with the pattern's literal prefix.
\<close>

locale name_matcher =
  fixes matches :: "bytes \<Rightarrow> bytes \<Rightarrow> bool"
  assumes exact: "\<not> has_wildcard p \<Longrightarrow> matches p s \<longleftrightarrow> s = p"
    and catch_all: "matches [star] s"
    and starts: "matches p s \<Longrightarrow> has_prefix s (literal_prefix p)"
begin

lemma self: "\<not> has_wildcard s \<Longrightarrow> matches s s"
  by (simp add: exact)

text \<open>Two exact patterns never compete for one name.\<close>

lemma exact_unique:
  "\<lbrakk>\<not> has_wildcard p; \<not> has_wildcard q; matches p s; matches q s\<rbrakk> \<Longrightarrow> p = q"
  by (simp add: exact)

text \<open>Of two patterns that match one name, one literal prefix extends the other.\<close>

lemma prefixes_nested:
  assumes "matches p s" "matches q s" "length (literal_prefix p) \<le> length (literal_prefix q)"
  shows "has_prefix (literal_prefix q) (literal_prefix p)"
proof -
  have "take (length (literal_prefix p)) s = literal_prefix p"
    and "take (length (literal_prefix q)) s = literal_prefix q"
    using starts [OF assms(1)] starts [OF assms(2)] by (auto simp: has_prefix_def)
  then show ?thesis using assms(3) by (metis has_prefix_def min.absorb1 take_take)
qed

end

interpretation globs: name_matcher glob_match
proof
  show "glob_match [star] s" for s
    by (auto simp: glob_match_wild)
qed (auto simp: glob_match_exact glob_match_literal_prefix)

section \<open>Properties\<close>

text \<open>\<open>Match\<close> is the declarative reading of the pattern: the text can be cut so that every literal
  character matches itself and every star takes some run of characters.\<close>

theorem glob_match_spec: "glob_match pat s \<longleftrightarrow> wild pat s"
  by (rule glob_match_wild)

end
