(* ===== verification/Types.thy ===== *)
theory Types
  imports Prelude
begin

text \<open>
  The control-plane data the request path reads, as the store declares it: connections
  (\<open>internal/store/connections.go\<close>), projects (\<open>projects.go\<close>), routes and their
  targets (\<open>routes.go\<close>), api keys (\<open>apikeys.go\<close>) and users (\<open>users.go\<close>). A Go
  pointer that may be nil is an \<open>option\<close>. Display-only timestamps are left out.
\<close>

record model_connection =
  c_id :: int
  c_name :: bytes
  c_provider_type :: bytes
  c_base_url :: bytes
  c_api_key :: bytes
  c_api_key_masked :: bytes
  c_model_name :: bytes
  c_private_upstream :: bool
  c_upstream_private :: "bool option"

record project =
  p_id :: int
  p_name :: bytes
  p_model_connection_id :: int
  p_rag_store_id :: "int option"
  p_api_key_prefix :: bytes
  p_system_prompt :: bytes
  p_rate_limit_rpm :: int
  p_rate_limit_tpm :: int
  p_budget_daily_tokens :: int
  p_budget_monthly_tokens :: int
  p_context_placement :: bytes
  p_retrieval_policy :: bytes
  p_query_strategy :: bytes
  p_history_turns_for_query :: int
  p_query_model_connection_id :: "int option"
  p_tool_allow :: "bytes list"
  p_tool_deny :: "bytes list"
  p_session_token_cap :: int
  p_member_ids :: "int list"

record route_target =
  t_id :: int
  t_connection_id :: int
  t_model :: "bytes option"
  t_weight :: int
  t_priority :: int
  t_connection :: model_connection

record route =
  r_id :: int
  r_project_id :: int
  r_name :: bytes
  r_kind :: bytes
  r_strategy :: bytes
  r_targets :: "route_target list"

record api_key =
  k_id :: int
  k_kind :: bytes
  k_name :: bytes
  k_key_prefix :: bytes
  k_user_id :: int
  k_created_by :: "int option"
  k_scopes :: "bytes list"
  k_default_project_id :: "int option"
  k_rate_limit_rpm :: int
  k_rate_limit_tpm :: int
  k_budget_daily_tokens :: int
  k_budget_monthly_tokens :: int
  k_expires_at :: "time option"
  k_revoked_at :: "time option"
  k_last_used_at :: "time option"
  k_project_ids :: "int list"

record user =
  u_id :: int
  u_username :: bytes
  u_password_hash :: bytes
  u_role :: bytes
  u_is_active :: bool
  u_last_login_at :: "time option"

text \<open>Values of the settings columns.\<close>

definition ContextPlacementSystem where "ContextPlacementSystem = ''system''"
definition ContextPlacementBeforeLastUser where "ContextPlacementBeforeLastUser = ''before_last_user''"
definition RetrievalPolicyAlways where "RetrievalPolicyAlways = ''always''"
definition RetrievalPolicyAuto where "RetrievalPolicyAuto = ''auto''"
definition RetrievalPolicyOff where "RetrievalPolicyOff = ''off''"
definition QueryStrategyLastUser where "QueryStrategyLastUser = ''last_user''"
definition QueryStrategyCondense where "QueryStrategyCondense = ''condense''"
definition DefaultHistoryTurnsForQuery :: int where "DefaultHistoryTurnsForQuery = 3"

lemmas settings_values =
  ContextPlacementSystem_def ContextPlacementBeforeLastUser_def
  RetrievalPolicyAlways_def RetrievalPolicyAuto_def RetrievalPolicyOff_def
  QueryStrategyLastUser_def QueryStrategyCondense_def DefaultHistoryTurnsForQuery_def

definition valid_context_placement :: "bytes \<Rightarrow> bool" where
  "valid_context_placement v \<longleftrightarrow>
     v = ContextPlacementSystem \<or> v = ContextPlacementBeforeLastUser"

definition valid_retrieval_policy :: "bytes \<Rightarrow> bool" where
  "valid_retrieval_policy v \<longleftrightarrow>
     v = RetrievalPolicyAlways \<or> v = RetrievalPolicyAuto \<or> v = RetrievalPolicyOff"

definition valid_query_strategy :: "bytes \<Rightarrow> bool" where
  "valid_query_strategy v \<longleftrightarrow>
     v = QueryStrategyLastUser \<or> v = QueryStrategyCondense"

text \<open>\<open>withRAGDefaults\<close>: an empty setting takes its default.\<close>

definition or_default :: "'a \<Rightarrow> 'a \<Rightarrow> 'a \<Rightarrow> 'a" where
  "or_default zero d v = (if v = zero then d else v)"

definition with_rag_defaults :: "project \<Rightarrow> project" where
  "with_rag_defaults p = p\<lparr>
     p_context_placement := or_default [] ContextPlacementSystem (p_context_placement p),
     p_retrieval_policy := or_default [] RetrievalPolicyAlways (p_retrieval_policy p),
     p_query_strategy := or_default [] QueryStrategyLastUser (p_query_strategy p),
     p_history_turns_for_query :=
       or_default 0 DefaultHistoryTurnsForQuery (p_history_turns_for_query p)\<rparr>"

lemma or_default_idem: "d \<noteq> zero \<Longrightarrow> or_default zero d (or_default zero d v) = or_default zero d v"
  by (simp add: or_default_def)

lemma with_rag_defaults_idem: "with_rag_defaults (with_rag_defaults p) = with_rag_defaults p"
  by (cases p) (simp add: with_rag_defaults_def or_default_idem settings_values)

text \<open>\<open>normalizeRAGSettings\<close>: a value this build does not know reads as the default.\<close>

definition read_setting :: "bytes \<Rightarrow> bytes \<Rightarrow> (bytes \<Rightarrow> bool) \<Rightarrow> bytes" where
  "read_setting v d known = (if known v then v else d)"

definition normalize_rag_settings :: "project \<Rightarrow> project" where
  "normalize_rag_settings p = p\<lparr>
     p_context_placement := read_setting (p_context_placement p) ContextPlacementSystem valid_context_placement,
     p_retrieval_policy := read_setting (p_retrieval_policy p) RetrievalPolicyAlways valid_retrieval_policy,
     p_query_strategy := read_setting (p_query_strategy p) QueryStrategyLastUser valid_query_strategy\<rparr>"

lemma normalized_settings:
  "valid_context_placement (p_context_placement (normalize_rag_settings p))"
  "valid_retrieval_policy (p_retrieval_policy (normalize_rag_settings p))"
  "valid_query_strategy (p_query_strategy (normalize_rag_settings p))"
  "p_id (normalize_rag_settings p) = p_id p"
  by (simp_all add: normalize_rag_settings_def read_setting_def valid_context_placement_def
      valid_retrieval_policy_def valid_query_strategy_def)

text \<open>\<open>APIKey.Retired\<close> and \<open>APIKey.HasScope\<close>.\<close>

definition key_retired :: "api_key \<Rightarrow> time \<Rightarrow> bool" where
  "key_retired k t \<longleftrightarrow>
     k_revoked_at k \<noteq> None \<or>
     (case k_expires_at k of None \<Rightarrow> False | Some e \<Rightarrow> \<not> e > t)"

fun has_scope :: "bytes list \<Rightarrow> bytes \<Rightarrow> bool" where
  "has_scope [] want = False"
| "has_scope (s # ss) want = (if s = want then True else has_scope ss want)"

lemma has_scope_iff [simp]: "has_scope ss want \<longleftrightarrow> want \<in> set ss"
  by (induction ss) auto

lemma key_retired_mono: "key_retired k t \<Longrightarrow> t \<le> t' \<Longrightarrow> key_retired k t'"
  by (auto simp: key_retired_def split: option.splits)

end
