(* ===== verification/Retry.thy ===== *)
theory Retry
  imports Types
begin

text \<open>
  The retry and fallback policy of \<open>internal/gateway/retry.go\<close>: how a failed upstream
  attempt is classified, the full-jitter backoff, and the upstream time budget. The
  adapters' error type is \<open>provider.Error\<close> of \<open>internal/provider/types.go\<close>.
\<close>

section \<open>Errors\<close>

text \<open>
  A Go error is its \<open>Unwrap\<close> chain, outermost first: \<open>errors.As\<close> takes the first node
  of the wanted type and \<open>errors.Is\<close> looks for a node that is the sentinel.
\<close>

record provider_error =
  pe_status :: int
  pe_type :: bytes
  pe_code :: bytes
  pe_message :: bytes
  pe_retry_after :: int
  pe_upstream_retry_after :: bytes
  pe_upstream_status :: int
  pe_not_sent :: bool
  pe_retryable :: bool
  pe_upstream_retry_delay :: duration
  pe_client_input :: bool
  pe_upstream_body :: bytes

datatype err_node =
    TargetConfigNode
  | ProviderNode provider_error
  | DeadlineExceeded
  | Canceled
  | OtherNode bytes

type_synonym go_error = "err_node list"

definition as_target_config :: "go_error \<Rightarrow> bool" where
  "as_target_config err \<longleftrightarrow> TargetConfigNode \<in> set err"

fun as_provider :: "go_error \<Rightarrow> provider_error option" where
  "as_provider [] = None"
| "as_provider (ProviderNode pe # ns) = Some pe"
| "as_provider (_ # ns) = as_provider ns"

section \<open>Classification\<close>

datatype upstream_reason = Dial | RateLimited | Unavailable | ServerError | UpTimeout | TargetConfig

record attempt_class =
  ac_reason :: "upstream_reason option"
  ac_retry :: bool
  ac_fallback :: bool
  ac_retry_after :: duration

definition retryBaseDelay :: duration where "retryBaseDelay = 250 * millisecond"
definition retryMaxDelay :: duration where "retryMaxDelay = 2 * second"

definition terminal_class :: attempt_class where
  "terminal_class = \<lparr>ac_reason = None, ac_retry = False, ac_fallback = False, ac_retry_after = 0\<rparr>"

definition fallback_class :: "upstream_reason \<Rightarrow> attempt_class" where
  "fallback_class r = \<lparr>ac_reason = Some r, ac_retry = False, ac_fallback = True, ac_retry_after = 0\<rparr>"

definition with_retry_after :: "upstream_reason \<Rightarrow> provider_error \<Rightarrow> attempt_class" where
  "with_retry_after r pe =
     (let cl = fallback_class r in
      if pe_retryable pe \<and> pe_upstream_retry_delay pe \<le> retryMaxDelay
      then cl\<lparr>ac_retry := True, ac_retry_after := pe_upstream_retry_delay pe\<rparr>
      else cl)"

definition classify_attempt :: "go_error \<Rightarrow> attempt_class" where
  "classify_attempt err =
     (if as_target_config err then fallback_class TargetConfig
      else case as_provider err of
        None \<Rightarrow>
          (if DeadlineExceeded \<in> set err then fallback_class UpTimeout
           else if Canceled \<in> set err then terminal_class
           else fallback_class ServerError)
      | Some pe \<Rightarrow>
          (if pe_client_input pe then terminal_class
           else if pe_not_sent pe then (fallback_class Dial)\<lparr>ac_retry := pe_retryable pe\<rparr>
           else
             (let (status, answered) =
                (if pe_upstream_status pe = 0 then (pe_status pe, False)
                 else (pe_upstream_status pe, True)) in
              if answered \<and> status = 429 then with_retry_after RateLimited pe
              else if status = 503 \<or> answered \<and> status = 529 then with_retry_after Unavailable pe
              else if status = 504 \<or> pe_type pe = ''timeout'' then fallback_class UpTimeout
              else if status \<ge> 500 then fallback_class ServerError
              else if answered \<and> (status = 401 \<or> status = 403 \<or> status = 404)
              then fallback_class TargetConfig
              else terminal_class)))"

section \<open>Backoff and budget\<close>

text \<open>
  \<open>time.Duration(f)\<close> truncates; the draw \<open>rnd\<close> is a fraction of \<open>[0, 1)\<close>, kept exact.
\<close>

definition backoff_delay :: "int \<Rightarrow> rat \<Rightarrow> duration" where
  "backoff_delay n rnd =
     (let ceiling = (if n < 3 then min (retryBaseDelay * 2 ^ nat n) retryMaxDelay
                     else retryMaxDelay)
      in go_trunc (rnd * of_int ceiling))"

definition retry_wait :: "int \<Rightarrow> rat \<Rightarrow> duration \<Rightarrow> duration" where
  "retry_wait n rnd retry_after = max (backoff_delay n rnd) retry_after"

text \<open>The budget: \<open>deadline\<close> is \<open>None\<close> for Go's zero time (no limit).\<close>

definition budget_left :: "time option \<Rightarrow> time \<Rightarrow> duration" where
  "budget_left deadline now =
     (case deadline of None \<Rightarrow> 0 | Some d \<Rightarrow> max (d - now) 1)"

definition budget_spent :: "time option \<Rightarrow> time \<Rightarrow> bool" where
  "budget_spent deadline now =
     (case deadline of None \<Rightarrow> False | Some d \<Rightarrow> \<not> now < d)"

section \<open>Facts\<close>

lemmas class_defs = terminal_class_def fallback_class_def with_retry_after_def

lemma class_sel [simp]:
  "ac_reason terminal_class = None" "\<not> ac_retry terminal_class" "\<not> ac_fallback terminal_class"
  "ac_reason (fallback_class r) = Some r" "\<not> ac_retry (fallback_class r)"
  "ac_fallback (fallback_class r)" "ac_retry_after (fallback_class r) = 0"
  "ac_retry_after terminal_class = 0"
  "ac_reason (with_retry_after r pe) = Some r" "ac_fallback (with_retry_after r pe)"
  by (simp_all add: class_defs Let_def)

lemma with_retry_after_retry:
  "ac_retry (with_retry_after r pe) \<longleftrightarrow>
     pe_retryable pe \<and> pe_upstream_retry_delay pe \<le> retryMaxDelay"
  "ac_retry_after (with_retry_after r pe) =
     (if ac_retry (with_retry_after r pe) then pe_upstream_retry_delay pe else 0)"
  by (auto simp: class_defs Let_def)

text \<open>Every classification is terminal, a plain fallback, or one of three retryable kinds.\<close>

definition retryable_class :: "go_error \<Rightarrow> attempt_class \<Rightarrow> bool" where
  "retryable_class err cl \<longleftrightarrow>
     (\<exists>pe. as_provider err = Some pe \<and> \<not> pe_client_input pe \<and> \<not> as_target_config err \<and>
        (cl = with_retry_after RateLimited pe \<or> cl = with_retry_after Unavailable pe \<or>
         cl = (fallback_class Dial)\<lparr>ac_retry := pe_retryable pe\<rparr>))"

lemma classify_cases:
  "classify_attempt err = cl \<Longrightarrow>
     cl = terminal_class \<or> (\<exists>r. cl = fallback_class r) \<or> retryable_class err cl"
  unfolding classify_attempt_def retryable_class_def Let_def
  by (cases "as_target_config err"; cases "as_provider err") (simp split: if_splits; blast)+

text \<open>A failure has a reason exactly when another target may be tried.\<close>

lemma classify_fallback_iff:
  "ac_fallback (classify_attempt err) \<longleftrightarrow> ac_reason (classify_attempt err) \<noteq> None"
  using classify_cases [OF refl, of err] by (auto simp: retryable_class_def)

lemma classify_retry_reason:
  assumes "ac_retry (classify_attempt err)"
  shows "\<exists>pe. as_provider err = Some pe \<and> pe_retryable pe \<and> \<not> pe_client_input pe \<and>
     \<not> as_target_config err \<and>
     ac_reason (classify_attempt err) \<in> {Some Dial, Some RateLimited, Some Unavailable} \<and>
     ac_retry_after (classify_attempt err) \<le> retryMaxDelay"
proof -
  have "retryable_class err (classify_attempt err)"
    using classify_cases [OF refl, of err] assms by auto
  then obtain pe where pe: "as_provider err = Some pe" "\<not> pe_client_input pe"
      "\<not> as_target_config err"
    and cl: "classify_attempt err = with_retry_after RateLimited pe \<or>
         classify_attempt err = with_retry_after Unavailable pe \<or>
         classify_attempt err = (fallback_class Dial)\<lparr>ac_retry := pe_retryable pe\<rparr>"
    unfolding retryable_class_def by blast
  from cl assms have "pe_retryable pe" by (auto simp: with_retry_after_retry)
  moreover from cl have
    "ac_reason (classify_attempt err) \<in> {Some Dial, Some RateLimited, Some Unavailable}" by auto
  moreover from cl have "ac_retry_after (classify_attempt err) \<le> retryMaxDelay"
    by (auto simp: class_defs Let_def retryMaxDelay_def)
  ultimately show ?thesis using pe by blast
qed

lemma classify_retry_fallback: "ac_retry (classify_attempt err) \<Longrightarrow> ac_fallback (classify_attempt err)"
  using classify_retry_reason classify_fallback_iff by fastforce

lemma classify_client_input:
  "\<not> as_target_config err \<Longrightarrow> as_provider err = Some pe \<Longrightarrow> pe_client_input pe \<Longrightarrow>
   classify_attempt err = terminal_class"
  by (simp add: classify_attempt_def)

lemma backoff_delay_bounds:
  assumes "0 \<le> rnd" "rnd < 1"
  shows "0 \<le> backoff_delay n rnd"
    and "backoff_delay n rnd < retryMaxDelay"
    and "backoff_delay n rnd < retryBaseDelay * 2 ^ nat n"
proof -
  let ?c = "if n < 3 then min (retryBaseDelay * 2 ^ nat n) retryMaxDelay else retryMaxDelay"
  have c: "0 < ?c" "?c \<le> retryMaxDelay"
    by (auto simp: retryBaseDelay_def retryMaxDelay_def)
  have b: "backoff_delay n rnd = go_trunc (rnd * of_int ?c)"
    by (simp add: backoff_delay_def Let_def)
  from c(1) have "0 \<le> ?c" by linarith
  note fl = go_trunc_scaled(1) [OF assms this] go_trunc_scaled(2) [OF assms this c(1)]
  from fl b c(2) show "0 \<le> backoff_delay n rnd" "backoff_delay n rnd < retryMaxDelay" by linarith+
  have "?c \<le> retryBaseDelay * 2 ^ nat n"
  proof (cases "n < 3")
    case False
    then have "(2::int) ^ 3 \<le> 2 ^ nat n" by (intro power_increasing) auto
    then show ?thesis using False by (simp add: retryBaseDelay_def retryMaxDelay_def)
  qed simp
  with fl b show "backoff_delay n rnd < retryBaseDelay * 2 ^ nat n" by linarith
qed

lemma budget_left_zero: "budget_left d now = 0 \<longleftrightarrow> d = None"
  by (auto simp: budget_left_def split: option.splits)

lemma budget_left_spent: "d \<noteq> None \<Longrightarrow> budget_spent d now \<Longrightarrow> budget_left d now = 1"
  by (auto simp: budget_left_def budget_spent_def split: option.splits)

section \<open>Properties\<close>

text \<open>Only an attempt that failed with a provider error marked retryable, never a client-input or target
  configuration error, is repeated; its reason is dial, rate-limited or unavailable, the upstream's own hint is
  at most the longest backoff, and whatever is repeated may also fall back to another target.\<close>

theorem classify_retryable:
  assumes "ac_retry (classify_attempt err)"
  shows "ac_fallback (classify_attempt err) \<and> ac_retry_after (classify_attempt err) \<le> retryMaxDelay
    \<and> ac_reason (classify_attempt err) \<in> {Some Dial, Some RateLimited, Some Unavailable}
    \<and> (\<exists>pe. as_provider err = Some pe \<and> pe_retryable pe \<and> \<not> pe_client_input pe \<and> \<not> as_target_config err)"
  using classify_retry_reason [OF assms] classify_retry_fallback [OF assms] by blast+

text \<open>A rate-limited upstream that asks for two hundred milliseconds is retried.\<close>

definition busy_upstream :: go_error where
  "busy_upstream =
     [ProviderNode \<lparr>pe_status = 429, pe_type = ''rate_limit'', pe_code = [], pe_message = [], pe_retry_after = 0,
        pe_upstream_retry_after = [], pe_upstream_status = 429, pe_not_sent = False, pe_retryable = True,
        pe_upstream_retry_delay = 200 * millisecond, pe_client_input = False, pe_upstream_body = []\<rparr>]"

lemma busy_upstream_retry: "ac_retry (classify_attempt busy_upstream)"
  by (simp add: busy_upstream_def classify_attempt_def as_target_config_def with_retry_after_def
      fallback_class_def retryMaxDelay_def Let_def)

theorem classify_retryable_witness:
  "ac_fallback (classify_attempt busy_upstream) \<and> ac_retry_after (classify_attempt busy_upstream) \<le> retryMaxDelay"
  using classify_retryable [OF busy_upstream_retry] by blast

text \<open>The backoff before retry \<open>n\<close> is a non-negative duration below the cap and below
  \<open>retryBaseDelay * 2 ^ n\<close>, whatever the draw.\<close>

theorem backoff_bounded:
  assumes "0 \<le> rnd" "rnd < 1"
  shows "0 \<le> backoff_delay n rnd \<and> backoff_delay n rnd < retryMaxDelay
    \<and> backoff_delay n rnd < retryBaseDelay * 2 ^ nat n"
  using backoff_delay_bounds [OF assms] by blast

theorem backoff_bounded_witness:
  "0 \<le> backoff_delay 2 (1/2) \<and> backoff_delay 2 (1/2) < retryMaxDelay
    \<and> backoff_delay 2 (1/2) < retryBaseDelay * 2 ^ nat 2"
  by (rule backoff_bounded) simp_all

end
