(* ===== verification/Breaker.thy ===== *)
theory Breaker
  imports Retry
begin

text \<open>
  The circuit breaker of a model connection (\<open>internal/gateway/breaker.go\<close>): the state of
  one connection, the set of them a replica keeps, and \<open>allow\<close>, \<open>isOpen\<close>, \<open>report\<close>
  and \<open>Snapshot\<close>. Each operation runs under the set's mutex, so an execution is a
  sequence of them; the clock reading an operation makes under the lock is its argument.
\<close>

section \<open>Outcomes\<close>

datatype attempt_outcome = Neutral | Success | Failure

text \<open>
  \<open>outcomeOf\<close>: \<open>ctx_err\<close> says the client's context has ended, \<open>rec_status\<close> is the
  status the request row carries.
\<close>

definition outcome_of :: "bool \<Rightarrow> int \<Rightarrow> go_error option \<Rightarrow> attempt_outcome" where
  "outcome_of ctx_err rec_status err =
     (if ctx_err then Neutral
      else case err of
        None \<Rightarrow> (if rec_status = 499 \<or> rec_status = 502 then Neutral else Success)
      | Some e \<Rightarrow>
          (case ac_reason (classify_attempt e) of
             None \<Rightarrow> Neutral
           | Some TargetConfig \<Rightarrow> Neutral
           | Some _ \<Rightarrow> Failure))"

section \<open>State\<close>

type_synonym probe_token = "64 word"

record breaker =
  br_name :: bytes
  br_failures :: int
  br_open :: bool
  br_opened_at :: time
  br_probing :: bool
  br_probe_at :: time
  br_probe_id :: probe_token
  br_next_id :: probe_token
  br_last_seen :: time

record breakers =
  bs_threshold :: int
  bs_open_for :: duration
  bs_m :: "int \<rightharpoonup> breaker"

datatype breaker_state = BreakerClosed | BreakerOpen | BreakerHalfOpen

definition breakerIdleTTL :: duration where "breakerIdleTTL = hour"

definition zero_breaker :: breaker where
  "zero_breaker = \<lparr>br_name = [], br_failures = 0, br_open = False, br_opened_at = 0,
     br_probing = False, br_probe_at = 0, br_probe_id = 0, br_next_id = 0, br_last_seen = 0\<rparr>"

definition new_breakers :: "int \<Rightarrow> duration \<Rightarrow> breakers" where
  "new_breakers threshold open_for =
     \<lparr>bs_threshold = threshold, bs_open_for = open_for, bs_m = Map.empty\<rparr>"

section \<open>Operations\<close>

text \<open>A nil set is \<open>None\<close>; it and a threshold of zero or less disable breaking.\<close>

definition enabled :: "breakers option \<Rightarrow> bool" where
  "enabled bo = (case bo of None \<Rightarrow> False | Some b \<Rightarrow> bs_threshold b > 0)"

definition get_breaker :: "breakers \<Rightarrow> model_connection \<Rightarrow> time \<Rightarrow> breaker" where
  "get_breaker b conn now =
     (let br = (case bs_m b (c_id conn) of None \<Rightarrow> zero_breaker | Some br \<Rightarrow> br)
      in br\<lparr>br_name := c_name conn, br_last_seen := now\<rparr>)"

definition put_breaker :: "breakers \<Rightarrow> model_connection \<Rightarrow> breaker \<Rightarrow> breakers" where
  "put_breaker b conn br = b\<lparr>bs_m := (bs_m b)(c_id conn \<mapsto> br)\<rparr>"

definition breaker_phase :: "breakers \<Rightarrow> breaker \<Rightarrow> time \<Rightarrow> breaker_state" where
  "breaker_phase b br now =
     (if \<not> br_open br then BreakerClosed
      else if now - br_opened_at br < bs_open_for b then BreakerOpen
      else BreakerHalfOpen)"

definition allow_one :: "breakers \<Rightarrow> breaker \<Rightarrow> time \<Rightarrow> (bool \<times> probe_token) \<times> breaker" where
  "allow_one b br now =
     (case breaker_phase b br now of
        BreakerClosed \<Rightarrow> ((True, 0), br)
      | BreakerHalfOpen \<Rightarrow>
          (if \<not> br_probing br \<or> now - br_probe_at br \<ge> bs_open_for b
           then (let br = br\<lparr>br_next_id := br_next_id br + 1\<rparr>;
                     br = br\<lparr>br_probing := True, br_probe_at := now, br_probe_id := br_next_id br\<rparr>
                 in ((True, br_probe_id br), br))
           else ((False, 0), br))
      | BreakerOpen \<Rightarrow> ((False, 0), br))"

definition allow ::
  "breakers option \<Rightarrow> model_connection \<Rightarrow> time \<Rightarrow> (bool \<times> probe_token) \<times> breakers option" where
  "allow bo conn now =
     (case bo of
        None \<Rightarrow> ((True, 0), None)
      | Some b \<Rightarrow>
          (if \<not> enabled bo then ((True, 0), bo)
           else (let (res, br) = allow_one b (get_breaker b conn now) now
                 in (res, Some (put_breaker b conn br)))))"

definition is_open :: "breakers option \<Rightarrow> int \<Rightarrow> time \<Rightarrow> bool" where
  "is_open bo i now =
     (case bo of
        None \<Rightarrow> False
      | Some b \<Rightarrow>
          (if \<not> enabled bo then False
           else case bs_m b i of None \<Rightarrow> False | Some br \<Rightarrow> breaker_phase b br now = BreakerOpen))"

definition report_one ::
  "breakers \<Rightarrow> breaker \<Rightarrow> time \<Rightarrow> probe_token \<Rightarrow> attempt_outcome \<Rightarrow> breaker" where
  "report_one b br now probe out =
     (let br = (if probe \<noteq> 0 \<and> probe = br_probe_id br then br\<lparr>br_probing := False\<rparr> else br) in
      case out of
        Success \<Rightarrow> br\<lparr>br_failures := 0, br_open := False\<rparr>
      | Failure \<Rightarrow>
          (let br = br\<lparr>br_failures := br_failures br + 1\<rparr> in
           case breaker_phase b br now of
             BreakerClosed \<Rightarrow>
               (if br_failures br \<ge> bs_threshold b
                then br\<lparr>br_open := True, br_opened_at := now\<rparr> else br)
           | BreakerHalfOpen \<Rightarrow> br\<lparr>br_opened_at := now\<rparr>
           | BreakerOpen \<Rightarrow> br)
      | Neutral \<Rightarrow> br)"

definition report ::
  "breakers option \<Rightarrow> model_connection \<Rightarrow> time \<Rightarrow> probe_token \<Rightarrow> attempt_outcome \<Rightarrow>
   breakers option" where
  "report bo conn now probe out =
     (case bo of
        None \<Rightarrow> None
      | Some b \<Rightarrow>
          (if \<not> enabled bo then bo
           else Some (put_breaker b conn (report_one b (get_breaker b conn now) now probe out))))"

text \<open>
  \<open>Snapshot\<close> ranges over the map in an order Go does not fix: it is an argument, a list
  of the connection ids.
\<close>

fun snapshot_loop ::
  "time \<Rightarrow> int list \<Rightarrow> breakers \<Rightarrow> (bytes \<rightharpoonup> breaker_state) \<Rightarrow> breakers \<times> (bytes \<rightharpoonup> breaker_state)" where
  "snapshot_loop now [] b out = (b, out)"
| "snapshot_loop now (i # is) b out =
     (case bs_m b i of
        None \<Rightarrow> snapshot_loop now is b out
      | Some br \<Rightarrow>
          (if now - br_last_seen br > breakerIdleTTL
           then snapshot_loop now is (b\<lparr>bs_m := (bs_m b)(i := None)\<rparr>) out
           else snapshot_loop now is b (out(br_name br \<mapsto> breaker_phase b br now))))"

definition snapshot ::
  "breakers option \<Rightarrow> time \<Rightarrow> int list \<Rightarrow> breakers option \<times> (bytes \<rightharpoonup> breaker_state)" where
  "snapshot bo now order =
     (case bo of
        None \<Rightarrow> (None, Map.empty)
      | Some b \<Rightarrow>
          (if \<not> enabled bo then (bo, Map.empty)
           else (let (b', out) = snapshot_loop now order b Map.empty in (Some b', out))))"

section \<open>Executions\<close>

datatype breaker_event =
    Allow model_connection time
  | Report model_connection time probe_token attempt_outcome
  | Scrape time "int list"

fun breaker_step :: "breakers option \<Rightarrow> breaker_event \<Rightarrow> breakers option" where
  "breaker_step bo (Allow conn now) = snd (allow bo conn now)"
| "breaker_step bo (Report conn now probe out) = report bo conn now probe out"
| "breaker_step bo (Scrape now order) = fst (snapshot bo now order)"

fun breaker_run :: "breakers option \<Rightarrow> breaker_event list \<Rightarrow> breakers option" where
  "breaker_run bo [] = bo"
| "breaker_run bo (e # es) = breaker_run (breaker_step bo e) es"

section \<open>Reading the operations on an enabled set\<close>

lemmas breaker_defs = allow_one_def report_one_def breaker_phase_def get_breaker_def zero_breaker_def

lemma enabled_Some: "enabled bo \<Longrightarrow> \<exists>b. bo = Some b \<and> bs_threshold b > 0"
  by (auto simp: enabled_def split: option.splits)

lemma put_breaker_sel [simp]:
  "bs_threshold (put_breaker b conn br) = bs_threshold b"
  "bs_open_for (put_breaker b conn br) = bs_open_for b"
  "bs_m (put_breaker b conn br) = (bs_m b)(c_id conn \<mapsto> br)"
  by (simp_all add: put_breaker_def)

lemma breaker_phase_put [simp]: "breaker_phase (put_breaker b conn br') br now = breaker_phase b br now"
  by (simp add: breaker_phase_def)

lemma breaker_phase_seen [simp]:
  "breaker_phase b (br\<lparr>br_name := nm, br_last_seen := t\<rparr>) now = breaker_phase b br now"
  by (simp add: breaker_phase_def)

lemma allow_enabled:
  "bs_threshold b > 0 \<Longrightarrow>
   allow (Some b) conn now =
     (fst (allow_one b (get_breaker b conn now) now),
      Some (put_breaker b conn (snd (allow_one b (get_breaker b conn now) now))))"
  by (simp add: allow_def enabled_def split: prod.splits)

lemma report_enabled:
  "bs_threshold b > 0 \<Longrightarrow>
   report (Some b) conn now probe out =
     Some (put_breaker b conn (report_one b (get_breaker b conn now) now probe out))"
  by (simp add: report_def enabled_def)

lemma snapshot_loop_m:
  "bs_m (fst (snapshot_loop now order b out)) i =
     (case bs_m b i of
        None \<Rightarrow> None
      | Some br \<Rightarrow>
          if i \<in> set order \<and> now - br_last_seen br > breakerIdleTTL then None else Some br)"
  by (induction order arbitrary: b out) (auto split: option.splits)

lemma snapshot_loop_params [simp]:
  "bs_threshold (fst (snapshot_loop now order b out)) = bs_threshold b"
  "bs_open_for (fst (snapshot_loop now order b out)) = bs_open_for b"
  by (induction order arbitrary: b out) (auto split: option.splits)

lemma snapshot_enabled:
  "bs_threshold b > 0 \<Longrightarrow>
   snapshot (Some b) now order =
     (Some (fst (snapshot_loop now order b Map.empty)), snd (snapshot_loop now order b Map.empty))"
  by (simp add: snapshot_def enabled_def split: prod.splits)

lemmas breaker_ops_enabled = allow_enabled report_enabled snapshot_enabled

section \<open>The counter agrees with the state\<close>

text \<open>
  A breaker is open exactly while its consecutive-failure count has reached the
  threshold; the count is never negative.
\<close>

definition breaker_ok :: "int \<Rightarrow> breaker \<Rightarrow> bool" where
  "breaker_ok threshold br \<longleftrightarrow>
     0 \<le> br_failures br \<and> (br_open br \<longleftrightarrow> threshold \<le> br_failures br)"

definition breakers_ok :: "breakers option \<Rightarrow> bool" where
  "breakers_ok bo \<longleftrightarrow>
     (case bo of
        None \<Rightarrow> True
      | Some b \<Rightarrow> (\<forall>br \<in> ran (bs_m b). breaker_ok (bs_threshold b) br))"

lemma breakers_ok_new [inv_intros]: "breakers_ok (Some (new_breakers threshold open_for))"
  by (simp add: breakers_ok_def new_breakers_def)

lemma get_breaker_ok:
  assumes "breakers_ok (Some b)" "bs_threshold b > 0"
  shows "breaker_ok (bs_threshold b) (get_breaker b conn now)"
  using assms
  by (auto simp: breakers_ok_def breaker_ok_def get_breaker_def Let_def zero_breaker_def
      ran_def split: option.splits)

lemma allow_one_fields:
  "br_failures (snd (allow_one b br now)) = br_failures br"
  "br_open (snd (allow_one b br now)) = br_open br"
  "br_opened_at (snd (allow_one b br now)) = br_opened_at br"
  "br_last_seen (snd (allow_one b br now)) = br_last_seen br"
  by (simp_all add: allow_one_def Let_def split: breaker_state.splits)

lemma report_one_ok:
  "breaker_ok (bs_threshold b) br \<Longrightarrow> bs_threshold b > 0 \<Longrightarrow>
   breaker_ok (bs_threshold b) (report_one b br now probe out)"
  by (cases out) (auto simp: breaker_ok_def report_one_def breaker_phase_def Let_def)

lemma put_breaker_ok [inv_intros]:
  "breakers_ok (Some b) \<Longrightarrow> breaker_ok (bs_threshold b) br \<Longrightarrow>
   breakers_ok (Some (put_breaker b conn br))"
  by (auto simp: breakers_ok_def ran_def)

lemma breaker_step_ok [inv_intros]:
  assumes "breakers_ok bo"
  shows "breakers_ok (breaker_step bo e)"
proof (cases "enabled bo")
  case False
  then show ?thesis using assms
    by (cases e) (auto simp: allow_def report_def snapshot_def split: option.splits)
next
  case True
  then obtain b where b: "bo = Some b" "bs_threshold b > 0" using enabled_Some by blast
  show ?thesis
  proof (cases e)
    case (Allow conn now)
    have "breaker_ok (bs_threshold b) (snd (allow_one b (get_breaker b conn now) now))"
      using get_breaker_ok [of b conn now] assms b by (simp add: breaker_ok_def allow_one_fields)
    then show ?thesis using assms b Allow by (simp add: allow_enabled put_breaker_ok)
  next
    case (Report conn now probe out)
    then show ?thesis using assms b
      by (simp add: report_enabled put_breaker_ok report_one_ok get_breaker_ok)
  next
    case (Scrape now order)
    then show ?thesis using assms b
      by (auto simp: snapshot_enabled breakers_ok_def ran_def snapshot_loop_m
          split: option.splits if_splits)
  qed
qed

lemma breaker_run_ok: "breakers_ok bo \<Longrightarrow> breakers_ok (breaker_run bo es)"
  by (induction es arbitrary: bo) (auto intro: inv_intros)

section \<open>The transitions the file documents\<close>

text \<open>
  What a report does to the state, read through \<open>state\<close> at the time of the report:
  success closes; a counted failure opens a closed breaker at the threshold, reopens a
  half-open one and leaves an open one's window alone; a neutral outcome changes nothing.
\<close>

fun documented_phase ::
  "breaker_state \<Rightarrow> attempt_outcome \<Rightarrow> bool \<Rightarrow> breaker_state" where
  "documented_phase st Success at_threshold = BreakerClosed"
| "documented_phase BreakerClosed Failure at_threshold =
     (if at_threshold then BreakerOpen else BreakerClosed)"
| "documented_phase BreakerHalfOpen Failure at_threshold = BreakerOpen"
| "documented_phase BreakerOpen Failure at_threshold = BreakerOpen"
| "documented_phase st Neutral at_threshold = st"

lemma report_one_phase:
  assumes "bs_open_for b > 0"
  shows "breaker_phase b (report_one b br now probe out) now =
    documented_phase (breaker_phase b br now) out (br_failures br + 1 \<ge> bs_threshold b)"
  using assms by (cases out) (auto simp: report_one_def breaker_phase_def Let_def)

lemma report_one_window:
  "breaker_phase b br now = BreakerOpen \<Longrightarrow> out \<noteq> Success \<Longrightarrow>
   br_opened_at (report_one b br now probe out) = br_opened_at br"
  by (cases out) (auto simp: report_one_def breaker_phase_def Let_def)

section \<open>One probe at a time\<close>

text \<open>
  The situation between a granted probe and its report: the breaker of connection \<open>i\<close>
  is open and its slot belongs to token \<open>p\<close>, taken at time \<open>t\<close>.
\<close>

definition probe_held :: "breakers \<Rightarrow> int \<Rightarrow> probe_token \<Rightarrow> time \<Rightarrow> bool" where
  "probe_held b i p t \<longleftrightarrow>
     (case bs_m b i of
        None \<Rightarrow> False
      | Some br \<Rightarrow> br_open br \<and> br_probing br \<and> br_probe_at br = t \<and> br_probe_id br = p \<and>
          t \<le> br_last_seen br)"

text \<open>
  An event that neither reports the probe nor a success of the connection, at a time
  from the probe's start to one open duration later.
\<close>

fun quiet_event :: "int \<Rightarrow> probe_token \<Rightarrow> time \<Rightarrow> time \<Rightarrow> breaker_event \<Rightarrow> bool" where
  "quiet_event i p from until (Allow conn now) \<longleftrightarrow> from \<le> now \<and> now < until"
| "quiet_event i p from until (Report conn now probe out) \<longleftrightarrow>
     from \<le> now \<and> now < until \<and> (c_id conn = i \<longrightarrow> probe \<noteq> p \<and> out \<noteq> Success)"
| "quiet_event i p from until (Scrape now order) \<longleftrightarrow> from \<le> now \<and> now < until"

lemma get_breaker_held:
  "probe_held b (c_id conn) p t \<Longrightarrow> t \<le> now \<Longrightarrow>
   br_open (get_breaker b conn now) \<and> br_probing (get_breaker b conn now) \<and>
   br_probe_at (get_breaker b conn now) = t \<and> br_probe_id (get_breaker b conn now) = p \<and>
   br_last_seen (get_breaker b conn now) = now"
  by (auto simp: probe_held_def get_breaker_def split: option.splits)

lemma allow_one_held:
  assumes "br_open br" "br_probing br" "now - br_probe_at br < bs_open_for b"
  shows "allow_one b br now = ((False, 0), br)"
  using assms by (simp add: allow_one_def breaker_phase_def)

lemma report_one_held:
  assumes "br_open br" "br_probing br" "probe \<noteq> br_probe_id br" "out \<noteq> Success"
  shows "br_open (report_one b br now probe out) \<and> br_probing (report_one b br now probe out) \<and>
    br_probe_at (report_one b br now probe out) = br_probe_at br \<and>
    br_probe_id (report_one b br now probe out) = br_probe_id br \<and>
    br_last_seen (report_one b br now probe out) = br_last_seen br"
  using assms by (cases out) (auto simp: report_one_def breaker_phase_def Let_def)

lemma probe_held_put_other:
  "c_id conn \<noteq> i \<Longrightarrow> probe_held (put_breaker b conn br) i p t \<longleftrightarrow> probe_held b i p t"
  by (simp add: probe_held_def)

lemma quiet_step_held:
  assumes held: "probe_held b i p t" and th: "bs_threshold b > 0"
    and q: "quiet_event i p t (t + bs_open_for b) e"
    and ttl: "bs_open_for b \<le> breakerIdleTTL"
  shows "\<exists>b'. breaker_step (Some b) e = Some b' \<and> probe_held b' i p t \<and>
    bs_threshold b' = bs_threshold b \<and> bs_open_for b' = bs_open_for b"
proof (cases e)
  case (Allow conn now)
  show ?thesis
  proof (cases "c_id conn = i")
    case True
    let ?br = "get_breaker b conn now"
    have h: "br_open ?br" "br_probing ?br" "br_probe_at ?br = t" "br_probe_id ?br = p"
        "br_last_seen ?br = now"
      using get_breaker_held [of b conn p t now] held True q Allow by auto
    then have "allow_one b ?br now = ((False, 0), ?br)"
      using q Allow by (intro allow_one_held) auto
    then show ?thesis using h True th q Allow
      by (auto simp: allow_enabled probe_held_def)
  qed (use held th Allow in \<open>simp add: allow_enabled probe_held_put_other\<close>)
next
  case (Report conn now probe out)
  show ?thesis
  proof (cases "c_id conn = i")
    case True
    let ?br = "get_breaker b conn now"
    have h: "br_open ?br" "br_probing ?br" "br_probe_at ?br = t" "br_probe_id ?br = p"
        "br_last_seen ?br = now"
      using get_breaker_held [of b conn p t now] held True q Report by auto
    then show ?thesis using report_one_held [of ?br probe out b now] True th q Report
      by (auto simp: report_enabled probe_held_def)
  qed (use held th Report in \<open>simp add: report_enabled probe_held_put_other\<close>)
next
  case (Scrape now order)
  then show ?thesis using held th q ttl
    by (auto simp: snapshot_enabled probe_held_def snapshot_loop_m split: option.splits)
qed

lemma quiet_run_held:
  assumes "probe_held b i p t" "bs_threshold b > 0" "bs_open_for b \<le> breakerIdleTTL"
    "\<forall>e \<in> set es. quiet_event i p t (t + bs_open_for b) e"
  shows "\<exists>b'. breaker_run (Some b) es = Some b' \<and> probe_held b' i p t \<and>
    bs_threshold b' = bs_threshold b \<and> bs_open_for b' = bs_open_for b"
  using assms
proof (induction es arbitrary: b)
  case (Cons e es)
  from quiet_step_held [of b i p t e] Cons.prems obtain b1 where
    "breaker_step (Some b) e = Some b1" "probe_held b1 i p t"
    "bs_threshold b1 = bs_threshold b" "bs_open_for b1 = bs_open_for b" by auto
  with Cons.IH [of b1] Cons.prems show ?case by auto
qed simp

lemma held_refuses:
  assumes "probe_held b (c_id conn) p t" "bs_threshold b > 0" "t \<le> now" "now < t + bs_open_for b"
  shows "fst (allow (Some b) conn now) = (False, 0)"
proof -
  let ?br = "get_breaker b conn now"
  have "br_open ?br" "br_probing ?br" "br_probe_at ?br = t"
    using get_breaker_held assms(1,3) by blast+
  then have "allow_one b ?br now = ((False, 0), ?br)" using assms(4) by (intro allow_one_held) auto
  then show ?thesis using assms(2) by (simp add: allow_enabled)
qed

lemma allow_grants_probe:
  assumes "allow (Some b) conn t = ((True, p), bo')" "p \<noteq> 0" "bs_threshold b > 0"
  shows "\<exists>b'. bo' = Some b' \<and> probe_held b' (c_id conn) p t \<and>
    bs_threshold b' = bs_threshold b \<and> bs_open_for b' = bs_open_for b"
  using assms
  by (auto simp: allow_enabled allow_one_def breaker_phase_def probe_held_def Let_def
      get_breaker_def split: if_splits)

section \<open>Properties\<close>

text \<open>C17: In every reachable set of breakers a breaker is open exactly while its count of consecutive
  failures has reached the threshold, and no count is negative.\<close>

theorem breakers_open_iff_threshold:
  assumes "breaker_run (Some (new_breakers threshold open_for)) es = Some b" "bs_m b i = Some br"
  shows "0 \<le> br_failures br \<and> (br_open br \<longleftrightarrow> bs_threshold b \<le> br_failures br)"
  using breaker_run_ok [OF breakers_ok_new, of threshold open_for es] assms
  by (auto simp: breakers_ok_def breaker_ok_def ran_def)

definition primary :: model_connection where
  "primary = \<lparr>c_id = 7, c_name = ''primary'', c_provider_type = ''openai'', c_base_url = [], c_api_key = [],
     c_api_key_masked = [], c_model_name = ''gpt-4o'', c_private_upstream = False, c_upstream_private = None\<rparr>"

definition tripped :: breakers where
  "tripped = \<lparr>bs_threshold = 2, bs_open_for = 30 * second,
     bs_m = [7 \<mapsto> \<lparr>br_name = ''primary'', br_failures = 2, br_open = True, br_opened_at = 5,
       br_probing = False, br_probe_at = 0, br_probe_id = 0, br_next_id = 0, br_last_seen = 5\<rparr>]\<rparr>"

lemma tripped_run:
  "breaker_run (Some (new_breakers 2 (30 * second))) [Report primary 4 0 Failure, Report primary 5 0 Failure]
     = Some tripped"
  by (simp add: new_breakers_def report_def enabled_def put_breaker_def get_breaker_def report_one_def
      breaker_phase_def zero_breaker_def primary_def tripped_def Let_def)

theorem breakers_open_iff_threshold_witness:
  "br_open (the (bs_m tripped 7)) \<longleftrightarrow> 2 \<le> br_failures (the (bs_m tripped 7))"
proof -
  have "bs_m tripped 7 = Some (the (bs_m tripped 7))" by (simp add: tripped_def)
  from breakers_open_iff_threshold [OF tripped_run this] show ?thesis by (simp add: tripped_def)
qed

text \<open>A report moves the state as the package comment says: success closes, a failure opens a closed
  breaker at the threshold and reopens a half-open one, a neutral outcome changes nothing.\<close>

theorem report_follows_documentation:
  assumes "bs_open_for b > 0"
  shows "breaker_phase b (report_one b br now probe out) now =
    documented_phase (breaker_phase b br now) out (br_failures br + 1 \<ge> bs_threshold b)"
  by (rule report_one_phase [OF assms])

theorem report_follows_documentation_witness:
  "breaker_phase tripped (report_one tripped (the (bs_m tripped 7)) 9 0 Success) 9 = BreakerClosed"
  using report_follows_documentation [of tripped "the (bs_m tripped 7)" 9 0 Success]
  by (simp add: tripped_def breaker_phase_def)

text \<open>While a half-open probe is outstanding and less than the open duration old, every other call on the
  connection is refused, whatever calls, failures and scrapes come between, as long as no success is reported.\<close>

theorem one_probe_at_a_time:
  assumes "allow (Some b) conn t = ((True, p), bo)" "p \<noteq> 0" "bs_threshold b > 0"
    and "bs_open_for b \<le> breakerIdleTTL"
    and "\<forall>e \<in> set es. quiet_event (c_id conn) p t (t + bs_open_for b) e"
    and "t \<le> now" "now < t + bs_open_for b"
  shows "fst (allow (breaker_run bo es) conn now) = (False, 0)"
proof -
  obtain b1 where b1: "bo = Some b1" "probe_held b1 (c_id conn) p t"
    "bs_threshold b1 = bs_threshold b" "bs_open_for b1 = bs_open_for b"
    using allow_grants_probe [OF assms(1-3)] by blast
  obtain b2 where "breaker_run (Some b1) es = Some b2" "probe_held b2 (c_id conn) p t"
    "bs_threshold b2 = bs_threshold b1" "bs_open_for b2 = bs_open_for b1"
    using quiet_run_held [of b1 "c_id conn" p t es] b1 assms(3-5) by auto
  with b1 assms(3,6,7) held_refuses show ?thesis by simp
qed

definition probing :: breakers where
  "probing = tripped\<lparr>bs_m := [7 \<mapsto> (the (bs_m tripped 7))\<lparr>br_probing := True,
     br_probe_at := 31 * second, br_probe_id := 1, br_next_id := 1, br_last_seen := 31 * second\<rparr>]\<rparr>"

theorem one_probe_at_a_time_witness:
  "fst (allow (breaker_run (Some probing) [Scrape (32 * second) [7], Report primary (33 * second) 0 Failure])
     primary (34 * second)) = (False, 0)"
proof (rule one_probe_at_a_time [of tripped primary "31 * second" 1])
  show "allow (Some tripped) primary (31 * second) = ((True, 1), Some probing)"
    by (simp add: allow_def enabled_def allow_one_def breaker_phase_def get_breaker_def put_breaker_def
        tripped_def probing_def primary_def Let_def)
qed (simp_all add: tripped_def primary_def breakerIdleTTL_def)

text \<open>A scrape forgets an open breaker: with an open duration above the one-hour idle limit, a connection
  whose breaker has another hour to stay open is called again as if nothing had failed.\<close>

theorem scrape_forgets_open_breaker:
  "let b = tripped\<lparr>bs_open_for := 3 * hour\<rparr> in
   fst (allow (Some b) primary (2 * hour)) = (False, 0) \<and>
   fst (allow (fst (snapshot (Some b) (2 * hour) [7])) primary (2 * hour)) = (True, 0)"
  by (simp add: allow_def enabled_def allow_one_def breaker_phase_def get_breaker_def put_breaker_def
      snapshot_def zero_breaker_def tripped_def primary_def breakerIdleTTL_def Let_def)

end
