(* ===== verification/Store.thy ===== *)
theory Store
  imports Types
begin

text \<open>
  The control-plane reads of \<open>internal/store\<close> the request path makes, over the tables
  they select from: a connection by id, the route lookup, a project's routes, a RAG
  store, and the resolution of a gateway credential. A table is the list of its rows;
  a statement the database fails is \<open>st_fault\<close> of its name, so every error branch of the
  callers is reachable. The token hash is a parameter of the table contents
  (\<open>st_hash\<close>, the code's \<open>HashToken\<close>, which is SHA-256).
\<close>

datatype store_error = NotFound | StoreFailure

datatype query =
    QGetConnection | QResolveRoute | QListRoutes | QGetRAGStore
  | QProjectByKey | QUserKey | QKeyState | QProjectsByIDs

record rag_store =
  rs_id :: int
  rs_name :: bytes
  rs_embedding_connection_id :: int
  rs_rerank_connection_id :: "int option"
  rs_top_k :: int
  rs_language :: bytes

record store =
  st_connections :: "model_connection list"
  st_projects :: "(bytes \<times> project) list"
  st_routes :: "route list"
  st_rag_stores :: "rag_store list"
  st_keys :: "(bytes \<times> api_key) list"
  st_users :: "user list"
  st_hash :: "bytes \<Rightarrow> bytes"
  st_now :: time
  st_fault :: "query \<Rightarrow> bool"

section \<open>Connections and RAG stores\<close>

definition get_connection :: "store \<Rightarrow> int \<Rightarrow> store_error + model_connection" where
  "get_connection s i =
     (if st_fault s QGetConnection then Inl StoreFailure
      else case find (\<lambda>c. c_id c = i) (st_connections s) of
        None \<Rightarrow> Inl NotFound
      | Some c \<Rightarrow> Inr c)"

definition get_rag_store :: "store \<Rightarrow> int \<Rightarrow> store_error + rag_store" where
  "get_rag_store s i =
     (if st_fault s QGetRAGStore then Inl StoreFailure
      else case find (\<lambda>r. rs_id r = i) (st_rag_stores s) of
        None \<Rightarrow> Inl NotFound
      | Some r \<Rightarrow> Inr r)"

section \<open>Routes\<close>

text \<open>
  The join of a target row with its connection; a target whose connection is missing
  fails the scan of its row. \<open>ORDER BY t.priority, t.id\<close> is two stable sorts.
\<close>

fun join_targets :: "model_connection list \<Rightarrow> route_target list \<Rightarrow> route_target list option" where
  "join_targets cs [] = Some []"
| "join_targets cs (t # ts) =
     (case find (\<lambda>c. c_id c = t_connection_id t) cs of
        None \<Rightarrow> None
      | Some c \<Rightarrow> map_option ((#) (t\<lparr>t_connection := c\<rparr>)) (join_targets cs ts))"

definition order_by_priority_id :: "route_target list \<Rightarrow> route_target list" where
  "order_by_priority_id ts = sort_key t_priority (sort_key t_id ts)"

definition resolve_project_route ::
  "store \<Rightarrow> int \<Rightarrow> bytes \<Rightarrow> bytes \<Rightarrow> store_error + (bool \<times> route option)" where
  "resolve_project_route s project_id kind name =
     (let name = (if CHR 0x00 \<in> set name then [] else name);
          mine = filter (\<lambda>r. r_project_id r = project_id \<and> r_kind r = kind) (st_routes s) in
      if st_fault s QResolveRoute then Inl StoreFailure
      else case find (\<lambda>r. r_name r = name) mine of
        None \<Rightarrow> Inr (mine \<noteq> [], None)
      | Some r \<Rightarrow>
          (case join_targets (st_connections s) (order_by_priority_id (r_targets r)) of
             None \<Rightarrow> Inl StoreFailure
           | Some ts \<Rightarrow> Inr (mine \<noteq> [], Some (r\<lparr>r_targets := ts\<rparr>))))"

text \<open>
  \<open>ListRoutes\<close> (\<open>loadRoutes\<close> with no kind and no id): an inner join of the routes with
  their targets and the targets' connections, so a target without its connection and a
  route left without targets are not listed. The routes table is kept in name, id order.
\<close>

definition load_targets :: "model_connection list \<Rightarrow> route \<Rightarrow> route" where
  "load_targets cs r = r\<lparr>r_targets := order_by_priority_id
     (filter (\<lambda>t. list_ex (\<lambda>c. c_id c = t_connection_id t) cs) (r_targets r))\<rparr>"

definition list_routes :: "store \<Rightarrow> int \<Rightarrow> store_error + route list" where
  "list_routes s project_id =
     (if st_fault s QListRoutes then Inl StoreFailure
      else Inr (filter (\<lambda>r. r_targets r \<noteq> [])
                  (map (load_targets (st_connections s))
                     (filter (\<lambda>r. r_project_id r = project_id) (st_routes s)))))"

section \<open>Credentials\<close>

definition ProjectKeyPrefix where "ProjectKeyPrefix = ''sk-proj-''"
definition GatewayKeyPrefix where "GatewayKeyPrefix = ''sk-user-''"
definition ManagementKeyPrefix where "ManagementKeyPrefix = ''sk-mgmt-''"

record gateway_key =
  gk_project :: "project option"
  gk_key :: "api_key option"
  gk_owner :: "user option"

text \<open>
  A project as \<open>scanProject\<close> reads it off its row: the settings normalised. \<open>projects_read\<close>
  is the table as the code sees it.
\<close>

definition scan_project :: "project \<Rightarrow> project" where
  "scan_project p = normalize_rag_settings p"

definition projects_read :: "store \<Rightarrow> (bytes \<times> project) list" where
  "projects_read s = map (\<lambda>(h, p). (h, scan_project p)) (st_projects s)"

definition get_project_by_key :: "store \<Rightarrow> bytes \<Rightarrow> store_error + project" where
  "get_project_by_key s key =
     (if st_fault s QProjectByKey then Inl StoreFailure
      else case find (\<lambda>(h, p). h = st_hash s key) (st_projects s) of
        None \<Rightarrow> Inl NotFound
      | Some (h, p) \<Rightarrow> Inr (scan_project p))"

definition user_by_id :: "store \<Rightarrow> int \<Rightarrow> user option" where
  "user_by_id s i = find (\<lambda>u. u_id u = i) (st_users s)"

text \<open>The join \<open>api_keys k JOIN users u\<close>: the row of a key whose owner exists.\<close>

definition key_row :: "store \<Rightarrow> bytes \<Rightarrow> (api_key \<times> user) option" where
  "key_row s key =
     (case find (\<lambda>(h, k). h = st_hash s key) (st_keys s) of
        None \<Rightarrow> None
      | Some (h, k) \<Rightarrow>
          (case user_by_id s (k_user_id k) of None \<Rightarrow> None | Some u \<Rightarrow> Some (k, u)))"

definition live_key_row :: "store \<Rightarrow> bytes \<Rightarrow> bytes \<Rightarrow> (api_key \<times> user) option" where
  "live_key_row s kind key =
     (case key_row s key of
        None \<Rightarrow> None
      | Some (k, u) \<Rightarrow>
          (if k_kind k = kind \<and> k_revoked_at k = None \<and>
              (case k_expires_at k of None \<Rightarrow> True | Some e \<Rightarrow> e > st_now s) \<and> u_is_active u
           then Some (k, u) else None))"

definition resolve_gateway_key :: "store \<Rightarrow> bytes \<Rightarrow> store_error + gateway_key" where
  "resolve_gateway_key s key =
     (if has_prefix key ProjectKeyPrefix then
        (case get_project_by_key s key of
           Inl e \<Rightarrow> Inl e
         | Inr p \<Rightarrow> Inr \<lparr>gk_project = Some p, gk_key = None, gk_owner = None\<rparr>)
      else if has_prefix key GatewayKeyPrefix then
        (if st_fault s QUserKey then Inl StoreFailure
         else case live_key_row s ''gateway'' key of
           None \<Rightarrow> Inl NotFound
         | Some (k, u) \<Rightarrow> Inr \<lparr>gk_project = None, gk_key = Some k, gk_owner = Some u\<rparr>)
      else Inl NotFound)"

definition resolve_management_key :: "store \<Rightarrow> bytes \<Rightarrow> store_error + (api_key \<times> user)" where
  "resolve_management_key s key =
     (if st_fault s QUserKey then Inl StoreFailure
      else case live_key_row s ''management'' key of
        None \<Rightarrow> Inl NotFound
      | Some ku \<Rightarrow> Inr ku)"

datatype key_state = KeyStateUnknown | KeyStateRevoked | KeyStateExpired | KeyStateOwnerInactive

definition get_api_key_state :: "store \<Rightarrow> bytes \<Rightarrow> store_error + key_state" where
  "get_api_key_state s key =
     (if st_fault s QKeyState then Inl StoreFailure
      else case key_row s key of
        None \<Rightarrow> Inr KeyStateUnknown
      | Some (k, u) \<Rightarrow>
          (if k_revoked_at k \<noteq> None then Inr KeyStateRevoked
           else if (case k_expires_at k of None \<Rightarrow> False | Some e \<Rightarrow> e \<le> st_now s)
           then Inr KeyStateExpired
           else if \<not> u_is_active u then Inr KeyStateOwnerInactive
           else Inr KeyStateUnknown))"

text \<open>\<open>ListProjectsByIDs\<close>; the projects table is kept in name order.\<close>

definition list_projects_by_ids :: "store \<Rightarrow> int list \<Rightarrow> store_error + project list" where
  "list_projects_by_ids s ids =
     (if ids = [] then Inr []
      else if st_fault s QProjectsByIDs then Inl StoreFailure
      else Inr (map scan_project (filter (\<lambda>p. p_id p \<in> set ids) (map snd (st_projects s)))))"

section \<open>Facts\<close>

lemma in_projects_read:
  "(h, p) \<in> set (st_projects s) \<Longrightarrow> (h, scan_project p) \<in> set (projects_read s)"
  by (auto simp: projects_read_def)

lemma scan_project_id [simp]: "p_id (scan_project p) = p_id p"
  by (simp add: scan_project_def normalized_settings)

lemma get_project_by_key_Inr:
  "get_project_by_key s key = Inr p \<Longrightarrow> (st_hash s key, p) \<in> set (projects_read s)"
  by (auto simp: get_project_by_key_def split: if_splits option.splits dest!: find_SomeD intro: in_projects_read)

lemma list_projects_by_ids_Inr:
  "list_projects_by_ids s ids = Inr ps \<Longrightarrow> \<forall>p \<in> set ps. p_id p \<in> set ids \<and> p \<in> snd ` set (projects_read s)"
  by (force simp: list_projects_by_ids_def projects_read_def split: if_splits)

lemma join_targets_Some:
  "join_targets cs ts = Some us \<Longrightarrow>
     map t_priority us = map t_priority ts \<and> map t_weight us = map t_weight ts \<and>
     map t_id us = map t_id ts \<and> (\<forall>u\<in>set us. t_connection u \<in> set cs)"
  by (induction ts arbitrary: us) (auto split: option.splits dest!: find_SomeD)

lemma order_by_priority_id_props:
  "mset (order_by_priority_id ts) = mset ts"
  "sorted (map t_priority (order_by_priority_id ts))"
  by (simp_all add: order_by_priority_id_def)

text \<open>The route lookup returns the route's targets sorted by priority, ready to order.\<close>

lemma resolve_project_route_sorted:
  assumes "resolve_project_route s pid kind name = Inr (has, Some r)"
  shows "sorted (map t_priority (r_targets r))" and "has"
    and "\<forall>t\<in>set (r_targets r). t_connection t \<in> set (st_connections s)"
proof -
  let ?mine = "filter (\<lambda>r. r_project_id r = pid \<and> r_kind r = kind) (st_routes s)"
  from assms obtain r0 ts nm where
    r0: "join_targets (st_connections s) (order_by_priority_id (r_targets r0)) = Some ts"
    and r: "r_targets r = ts" and has: "has \<longleftrightarrow> ?mine \<noteq> []"
    and fnd: "find (\<lambda>r. r_name r = nm) ?mine = Some r0"
    unfolding resolve_project_route_def Let_def
    by (fastforce split: if_splits option.splits)
  from join_targets_Some [OF r0] order_by_priority_id_props(2) [of "r_targets r0"] r
  show "sorted (map t_priority (r_targets r))" by simp
  from join_targets_Some [OF r0] r
  show "\<forall>t\<in>set (r_targets r). t_connection t \<in> set (st_connections s)" by simp
  from fnd has show has by (metis find_SomeD list.set_cases list.distinct(1))
qed

text \<open>
  A gateway credential that resolves to a user key belongs to an active owner and is
  neither revoked nor expired: the one lookup enforces all three.
\<close>

lemma live_key_row_Some:
  "live_key_row s kind key = Some (k, u) \<Longrightarrow>
     k_kind k = kind \<and> \<not> key_retired k (st_now s) \<and> u_is_active u \<and> u_id u = k_user_id k \<and>
     key_row s key = Some (k, u)"
  unfolding live_key_row_def key_retired_def
  by (auto simp: key_row_def user_by_id_def split: option.splits if_splits dest: find_SomeD)

lemma resolve_gateway_key_user:
  "resolve_gateway_key s key = Inr gk \<Longrightarrow> gk_key gk = Some k \<Longrightarrow>
     \<exists>u. gk_owner gk = Some u \<and> gk_project gk = None \<and> \<not> has_prefix key ProjectKeyPrefix \<and>
       live_key_row s ''gateway'' key = Some (k, u)"
  by (auto simp: resolve_gateway_key_def split: if_splits option.splits sum.splits)

lemma resolve_gateway_key_project:
  "resolve_gateway_key s key = Inr gk \<Longrightarrow> gk_key gk = None \<Longrightarrow>
     \<exists>p. gk_project gk = Some p \<and> has_prefix key ProjectKeyPrefix \<and>
       get_project_by_key s key = Inr p"
  by (auto simp: resolve_gateway_key_def split: if_splits option.splits sum.splits)

section \<open>A small installation\<close>

text \<open>Two connections, one project with a chat route over both, one user with one key: the inputs of the examples.\<close>

definition demo_connection :: "int \<Rightarrow> bytes \<Rightarrow> bytes \<Rightarrow> model_connection" where
  "demo_connection i name model = \<lparr>c_id = i, c_name = name, c_provider_type = ''openai'', c_base_url = [],
     c_api_key = [], c_api_key_masked = [], c_model_name = model, c_private_upstream = False,
     c_upstream_private = None\<rparr>"

definition demo_project :: "int \<Rightarrow> bytes \<Rightarrow> project" where
  "demo_project i name = \<lparr>p_id = i, p_name = name, p_model_connection_id = 1, p_rag_store_id = None,
     p_api_key_prefix = [], p_system_prompt = [], p_rate_limit_rpm = 2, p_rate_limit_tpm = 0,
     p_budget_daily_tokens = 1000, p_budget_monthly_tokens = 0, p_context_placement = ''system'',
     p_retrieval_policy = ''always'', p_query_strategy = ''last_user'', p_history_turns_for_query = 3,
     p_query_model_connection_id = None, p_tool_allow = [], p_tool_deny = [], p_session_token_cap = 0,
     p_member_ids = []\<rparr>"

lemma scan_demo_project [simp]: "scan_project (demo_project i name) = demo_project i name"
  by (simp add: scan_project_def normalize_rag_settings_def read_setting_def demo_project_def settings_values
      valid_context_placement_def valid_retrieval_policy_def valid_query_strategy_def)

definition demo_target :: "int \<Rightarrow> int \<Rightarrow> int \<Rightarrow> int \<Rightarrow> route_target" where
  "demo_target i conn weight priority = \<lparr>t_id = i, t_connection_id = conn, t_model = None, t_weight = weight,
     t_priority = priority, t_connection = demo_connection conn [] []\<rparr>"

definition demo_route :: route where
  "demo_route = \<lparr>r_id = 1, r_project_id = 12, r_name = ''fast'', r_kind = ''chat'', r_strategy = ''weighted'',
     r_targets = [demo_target 1 2 1 1, demo_target 2 1 1 0]\<rparr>"

definition demo_key :: api_key where
  "demo_key = \<lparr>k_id = 5, k_kind = ''gateway'', k_name = ''ci'', k_key_prefix = [], k_user_id = 3,
     k_created_by = None, k_scopes = [''chat''], k_default_project_id = None, k_rate_limit_rpm = 0,
     k_rate_limit_tpm = 0, k_budget_daily_tokens = 0, k_budget_monthly_tokens = 0, k_expires_at = Some 100,
     k_revoked_at = None, k_last_used_at = None, k_project_ids = [12, 3]\<rparr>"

definition demo_user :: user where
  "demo_user = \<lparr>u_id = 3, u_username = ''ada'', u_password_hash = [], u_role = ''viewer'', u_is_active = True,
     u_last_login_at = None\<rparr>"

definition demo_store :: store where
  "demo_store = \<lparr>st_connections = [demo_connection 1 ''a'' ''gpt-4o'', demo_connection 2 ''b'' ''claude''],
     st_projects = [(''sk-proj-one'', demo_project 12 ''1''), (''sk-proj-two'', demo_project 3 ''12'')],
     st_routes = [demo_route], st_rag_stores = [], st_keys = [(''sk-user-k'', demo_key)],
     st_users = [demo_user], st_hash = (\<lambda>k. k), st_now = 50, st_fault = (\<lambda>_. False)\<rparr>"

lemmas demo_defs = demo_connection_def demo_project_def demo_target_def demo_route_def demo_key_def
  demo_user_def demo_store_def

end
