(* ===== verification/Route.thy ===== *)
theory Route
  imports Store
begin

text \<open>
  Target selection of \<open>internal/gateway/route.go\<close> and the route steps of
  \<open>pipeline.go\<close>: the weighted random order of a route's targets, the effective
  connection of a target, and the resolution of a client's model string for chat
  (\<open>resolveChatTargets\<close>, \<open>resolveRoute\<close>) and for embeddings and rerank
  (\<open>resolveKindRoute\<close>).

  The random source is the sequence \<open>rnd\<close> of its draws; \<open>k\<close> counts the draws made.
  A draw is a fraction, multiplied exactly; Go's float product can only differ by
  rounding.
\<close>

section \<open>Weighted order\<close>

fun pick_loop :: "int \<Rightarrow> route_target list \<Rightarrow> nat option" where
  "pick_loop pick [] = None"
| "pick_loop pick (t # ts) =
     (if pick < t_weight t then Some 0
      else map_option Suc (pick_loop (pick - t_weight t) ts))"

definition pick_index :: "int \<Rightarrow> route_target list \<Rightarrow> nat" where
  "pick_index pick grp =
     (case pick_loop pick grp of None \<Rightarrow> length grp - 1 | Some i \<Rightarrow> i)"

definition total_weight :: "route_target list \<Rightarrow> int" where
  "total_weight grp = sum_list (map t_weight grp)"

lemma pick_loop_bound: "pick_loop pick ts = Some i \<Longrightarrow> i < length ts"
  by (induction ts arbitrary: pick i) (auto split: if_splits)

lemma pick_index_bound [simp]: "grp \<noteq> [] \<Longrightarrow> pick_index pick grp < length grp"
  by (auto simp: pick_index_def dest: pick_loop_bound split: option.splits)

definition remove_at :: "nat \<Rightarrow> 'a list \<Rightarrow> 'a list" where
  "remove_at i xs = take i xs @ drop (Suc i) xs"

lemma remove_at_props:
  assumes "i < length xs"
  shows "length (remove_at i xs) = length xs - 1"
    and "mset (remove_at i xs) = mset xs - {#xs ! i#}"
    and "add_mset (xs ! i) (mset (remove_at i xs)) = mset xs"
proof -
  show "length (remove_at i xs) = length xs - 1" using assms by (simp add: remove_at_def)
  have "mset xs = mset (take i xs @ xs ! i # drop (Suc i) xs)"
    using id_take_nth_drop [OF assms] by simp
  then show "add_mset (xs ! i) (mset (remove_at i xs)) = mset xs"
    by (simp add: remove_at_def)
  then show "mset (remove_at i xs) = mset xs - {#xs ! i#}"
    by (metis add_mset_remove_trivial)
qed

function order_group :: "(nat \<Rightarrow> rat) \<Rightarrow> nat \<Rightarrow> route_target list \<Rightarrow> route_target list \<times> nat" where
  "order_group rnd k grp =
     (if grp = [] then ([], k)
      else (let pick = go_trunc (rnd k * of_int (total_weight grp));
                idx = pick_index pick grp;
                (rest, k') = order_group rnd (Suc k) (remove_at idx grp)
            in (grp ! idx # rest, k')))"
  by pat_completeness auto
termination
  by (relation "measure (\<lambda>(rnd, k, grp). length grp)")
     (auto simp: remove_at_props(1))

declare order_group.simps [simp del]

definition same_priority :: "route_target \<Rightarrow> route_target \<Rightarrow> bool" where
  "same_priority t u \<longleftrightarrow> t_priority u = t_priority t"

function order_targets_from ::
  "(nat \<Rightarrow> rat) \<Rightarrow> nat \<Rightarrow> route_target list \<Rightarrow> route_target list \<times> nat" where
  "order_targets_from rnd k [] = ([], k)"
| "order_targets_from rnd k (t # ts) =
     (let (ordered, k') = order_group rnd k (t # takeWhile (same_priority t) ts);
          (rest, k'') = order_targets_from rnd k' (dropWhile (same_priority t) ts)
      in (ordered @ rest, k''))"
  by pat_completeness auto
termination
  by (relation "measure (\<lambda>(rnd, k, ts). length ts)") (auto simp: less_Suc_eq_le length_dropWhile_le)

definition order_targets :: "(nat \<Rightarrow> rat) \<Rightarrow> route_target list \<Rightarrow> route_target list" where
  "order_targets rnd ts = fst (order_targets_from rnd 0 ts)"

section \<open>Every target once, priorities ascending\<close>

lemma mset_order_group: "mset (fst (order_group rnd k grp)) = mset grp"
proof (induction rnd k grp rule: order_group.induct)
  case (1 rnd k grp)
  show ?case
  proof (cases "grp = []")
    case False
    with 1 show ?thesis
      by (subst order_group.simps) (simp add: Let_def split_def remove_at_props(3))
  qed (simp add: order_group.simps)
qed

lemma mset_takeWhile_dropWhile: "mset (takeWhile P xs) + mset (dropWhile P xs) = mset xs"
  by (metis mset_append takeWhile_dropWhile_id)

text \<open>One round: a priority group, then the rest from the next draw on.\<close>

lemma order_targets_from_Cons:
  "fst (order_targets_from rnd k (t # ts)) =
     fst (order_group rnd k (t # takeWhile (same_priority t) ts)) @
     fst (order_targets_from rnd (snd (order_group rnd k (t # takeWhile (same_priority t) ts)))
            (dropWhile (same_priority t) ts))"
  by (simp add: split_def Let_def)

lemma order_targets_induct [case_names Nil Cons]:
  assumes "\<And>k. P k []"
    and "\<And>k t ts. (\<And>k'. P k' (dropWhile (same_priority t) ts)) \<Longrightarrow> P k (t # ts)"
  shows "P k ts"
proof (induction ts arbitrary: k rule: length_induct)
  case (1 ts)
  then show ?case using assms
    by (cases ts) (auto simp: less_Suc_eq_le length_dropWhile_le)
qed

lemma mset_order_targets_from: "mset (fst (order_targets_from rnd k ts)) = mset ts"
proof (induction k ts rule: order_targets_induct)
  case (Cons k t ts)
  then show ?case
    by (simp add: order_targets_from_Cons mset_order_group mset_takeWhile_dropWhile
        del: order_targets_from.simps)
qed simp

lemma set_order_group: "set (fst (order_group rnd k grp)) = set grp"
  by (metis mset_order_group set_mset_mset)

lemma set_order_targets_from: "set (fst (order_targets_from rnd k ts)) = set ts"
  by (metis mset_order_targets_from set_mset_mset)

lemma sorted_constant: "(\<And>x. x \<in> set xs \<Longrightarrow> f x = c) \<Longrightarrow> sorted (map f xs)"
  by (induction xs) auto

lemma sorted_order_targets_from:
  "sorted (map t_priority ts) \<Longrightarrow>
   sorted (map t_priority (fst (order_targets_from rnd k ts)))"
proof (induction k ts rule: order_targets_induct)
  case (Cons k t ts)
  let ?g = "fst (order_group rnd k (t # takeWhile (same_priority t) ts))"
  let ?d = "dropWhile (same_priority t) ts"
  have "sorted (map t_priority (takeWhile (same_priority t) ts @ ?d))"
    using Cons.prems by simp
  then have tail: "sorted (map t_priority ?d)"
    unfolding map_append sorted_append by blast
  have g: "t_priority x = t_priority t" if "x \<in> set ?g" for x
    using that by (auto simp: set_order_group same_priority_def dest: set_takeWhileD)
  have "t_priority t \<le> t_priority x" if "x \<in> set ?d" for x
    using Cons.prems set_dropWhileD [OF that] by auto
  with Cons.IH [OF tail] g sorted_constant [of ?g t_priority "t_priority t"] show ?case
    by (simp add: order_targets_from_Cons sorted_append set_order_targets_from
        del: order_targets_from.simps)
qed simp

section \<open>Which draw picks which target\<close>

definition weights_ok :: "route_target list \<Rightarrow> bool" where
  "weights_ok ts \<longleftrightarrow> (\<forall>t\<in>set ts. 0 < t_weight t)"

lemma total_weight_simps [simp]:
  "total_weight [] = 0" "total_weight (t # ts) = t_weight t + total_weight ts"
  by (simp_all add: total_weight_def)

lemma total_weight_nonneg: "weights_ok ts \<Longrightarrow> 0 \<le> total_weight ts"
  by (induction ts) (auto simp: weights_ok_def)

lemma pick_loop_interval:
  assumes "weights_ok ts" "0 \<le> pick"
  shows "pick_loop pick ts = Some i \<longleftrightarrow>
    i < length ts \<and> total_weight (take i ts) \<le> pick \<and> pick < total_weight (take (Suc i) ts)"
  using assms
proof (induction ts arbitrary: pick i)
  case (Cons t ts)
  then have w: "weights_ok ts" "0 < t_weight t" by (auto simp: weights_ok_def)
  show ?case
  proof (cases "pick < t_weight t")
    case True
    have "\<not> t_weight t + total_weight (take j ts) \<le> pick" for j
    proof -
      have "weights_ok (take j ts)" using w by (auto simp: weights_ok_def dest: in_set_takeD)
      then show ?thesis using total_weight_nonneg [of "take j ts"] True by linarith
    qed
    with True Cons.prems show ?thesis by (cases i) auto
  next
    case False
    with Cons.IH [OF w(1), of "pick - t_weight t"] Cons.prems show ?thesis
      by (cases i) (auto simp: algebra_simps)
  qed
qed simp

lemma pick_loop_found:
  "weights_ok ts \<Longrightarrow> 0 \<le> pick \<Longrightarrow> pick < total_weight ts \<Longrightarrow> pick_loop pick ts \<noteq> None"
  by (induction ts arbitrary: pick) (auto simp: weights_ok_def)

lemma pick_index_interval:
  assumes "weights_ok ts" "0 \<le> pick" "pick < total_weight ts"
  shows "pick_index pick ts = i \<longleftrightarrow>
    i < length ts \<and> total_weight (take i ts) \<le> pick \<and> pick < total_weight (take (Suc i) ts)"
  using pick_loop_interval [OF assms(1,2), of i] pick_loop_found [OF assms]
  by (auto simp: pick_index_def split: option.splits)

lemma total_weight_take_Suc:
  "i < length ts \<Longrightarrow> total_weight (take (Suc i) ts) = total_weight (take i ts) + t_weight (ts ! i)"
  by (simp add: take_Suc_conv_app_nth total_weight_def)

lemma total_weight_take_le:
  "weights_ok ts \<Longrightarrow> total_weight (take i ts) \<le> total_weight ts"
proof (induction ts arbitrary: i)
  case (Cons t ts)
  then have "0 < t_weight t" "weights_ok ts" by (auto simp: weights_ok_def)
  with Cons.IH total_weight_nonneg [of ts] show ?case by (cases i) auto
qed simp

text \<open>The number of integer draws that pick a target is its weight.\<close>

lemma pick_index_share:
  assumes "weights_ok ts" "i < length ts"
  shows "card {pick \<in> {0..<total_weight ts}. pick_index pick ts = i} = nat (t_weight (ts ! i))"
proof -
  let ?lo = "total_weight (take i ts)" and ?hi = "total_weight (take (Suc i) ts)"
  have "0 \<le> ?lo"
    by (rule total_weight_nonneg) (use assms in \<open>auto simp: weights_ok_def dest: in_set_takeD\<close>)
  moreover have "?hi \<le> total_weight ts" by (rule total_weight_take_le [OF assms(1)])
  ultimately have "pick \<in> {0..<total_weight ts} \<and> pick_index pick ts = i \<longleftrightarrow> pick \<in> {?lo..<?hi}" for pick
    using pick_index_interval [OF assms(1), of pick i] assms(2) by auto
  then have "{pick \<in> {0..<total_weight ts}. pick_index pick ts = i} = {?lo..<?hi}" by blast
  then show ?thesis using total_weight_take_Suc [OF assms(2)] by simp
qed

section \<open>Resolution\<close>

text \<open>\<open>effectiveConnection\<close>: a copy with the target's model override applied.\<close>

definition effective_connection :: "route_target \<Rightarrow> model_connection" where
  "effective_connection t =
     (case t_model t of
        None \<Rightarrow> t_connection t
      | Some m \<Rightarrow> (if m \<noteq> [] then (t_connection t)\<lparr>c_model_name := m\<rparr> else t_connection t))"

text \<open>
  What a client may rely on of the connection used for a target: it is the target's own,
  under the target's model name when that is set and not empty.
\<close>

definition overridden :: "route_target \<Rightarrow> model_connection \<Rightarrow> bool" where
  "overridden t c \<longleftrightarrow> c\<lparr>c_model_name := []\<rparr> = (t_connection t)\<lparr>c_model_name := []\<rparr> \<and>
     c_model_name c = (case t_model t of Some (m # ms) \<Rightarrow> m # ms | _ \<Rightarrow> c_model_name (t_connection t))"

lemma effective_connection_overridden: "list_all2 overridden ts (map effective_connection ts)"
  by (simp add: list_all2_map2 overridden_def effective_connection_def list.rel_refl
      split: option.split list.split)

text \<open>What a route step answers: the targets and the route's name, or a refusal.\<close>

datatype route_answer =
    Accepted "model_connection list" bytes
  | NoRoute
  | ModelNotFound bytes

definition accept_targets :: "model_connection list \<Rightarrow> bytes \<Rightarrow> route_answer" where
  "accept_targets targets name = (if targets = [] then NoRoute else Accepted targets name)"

text \<open>The result tuple is \<open>(targets, routeName, routed, matched)\<close>.\<close>

definition resolve_chat_targets ::
  "store \<Rightarrow> (nat \<Rightarrow> rat) \<Rightarrow> project \<Rightarrow> bytes \<Rightarrow>
   store_error + (model_connection list \<times> bytes \<times> bool \<times> bool)" where
  "resolve_chat_targets s rnd p model =
     (case resolve_project_route s (p_id p) ''chat'' model of
        Inl e \<Rightarrow> Inl e
      | Inr (has, rt) \<Rightarrow>
          (if \<not> has then Inr ([], [], False, False)
           else case rt of
             Some r \<Rightarrow> Inr (map effective_connection (order_targets rnd (r_targets r)), r_name r, True, True)
           | None \<Rightarrow>
               (case get_connection s (p_model_connection_id p) of
                  Inl e \<Rightarrow> Inl e
                | Inr conn \<Rightarrow>
                    (if model = [] \<or> model = c_model_name conn then Inr ([conn], [], True, True)
                     else Inr ([], [], True, False)))))"

definition resolve_route :: "store \<Rightarrow> (nat \<Rightarrow> rat) \<Rightarrow> project \<Rightarrow> bytes \<Rightarrow> route_answer" where
  "resolve_route s rnd p model =
     (case resolve_chat_targets s rnd p model of
        Inl e \<Rightarrow> NoRoute
      | Inr (targets, name, routed, matched) \<Rightarrow>
          (if routed \<and> \<not> matched then ModelNotFound model
           else if routed then accept_targets targets name
           else case get_connection s (p_model_connection_id p) of
             Inl e \<Rightarrow> NoRoute
           | Inr conn \<Rightarrow> accept_targets [conn] []))"

definition resolve_kind_route ::
  "store \<Rightarrow> (nat \<Rightarrow> rat) \<Rightarrow> project \<Rightarrow> bytes \<Rightarrow> (rag_store \<Rightarrow> int option) \<Rightarrow> bytes \<Rightarrow> route_answer" where
  "resolve_kind_route s rnd p kind pick model =
     (case resolve_project_route s (p_id p) kind model of
        Inl e \<Rightarrow> NoRoute
      | Inr (has, rt) \<Rightarrow>
          (case (if has then rt else None) of
             Some r \<Rightarrow> accept_targets (map effective_connection (order_targets rnd (r_targets r))) (r_name r)
           | None \<Rightarrow>
               (case p_rag_store_id p of
                  None \<Rightarrow> ModelNotFound model
                | Some rid \<Rightarrow>
                    (case get_rag_store s rid of
                       Inl e \<Rightarrow> NoRoute
                     | Inr rs \<Rightarrow>
                         (case pick rs of
                            None \<Rightarrow> ModelNotFound model
                          | Some i \<Rightarrow>
                              (case get_connection s i of
                                 Inl e \<Rightarrow> NoRoute
                               | Inr conn \<Rightarrow>
                                   (if model \<noteq> [] \<and> model \<noteq> c_model_name conn
                                    then ModelNotFound model
                                    else accept_targets [conn] [])))))))"

definition resolve_embeddings_route ::
  "store \<Rightarrow> (nat \<Rightarrow> rat) \<Rightarrow> project \<Rightarrow> bytes \<Rightarrow> route_answer" where
  "resolve_embeddings_route s rnd p model =
     resolve_kind_route s rnd p ''embeddings'' (\<lambda>rs. Some (rs_embedding_connection_id rs)) model"

definition resolve_rerank_route ::
  "store \<Rightarrow> (nat \<Rightarrow> rat) \<Rightarrow> project \<Rightarrow> bytes \<Rightarrow> route_answer" where
  "resolve_rerank_route s rnd p model =
     resolve_kind_route s rnd p ''rerank'' rs_rerank_connection_id model"

text \<open>
  The echo of a model string in the model_not_found message, on its runes: at most 128
  of them, control characters dropped, in quotes.
\<close>

definition maxModelEchoLen :: nat where "maxModelEchoLen = 128"

definition quote_model :: "rune list \<Rightarrow> rune list" where
  "quote_model s = [39] @ filter (\<lambda>r. \<not> (r < 32 \<or> r = 127)) s @ [39]"

definition echoed_model :: "rune list \<Rightarrow> rune list" where
  "echoed_model model =
     quote_model (if length model > maxModelEchoLen then take maxModelEchoLen model else model)"

text \<open>\<open>routedModels\<close> lists (id, owned_by) pairs; the flag is false for an unrouted project.\<close>

definition model_object :: "model_connection \<Rightarrow> bytes \<times> bytes" where
  "model_object conn = (c_model_name conn, c_provider_type conn)"

definition routed_models :: "store \<Rightarrow> project \<Rightarrow> store_error + ((bytes \<times> bytes) list \<times> bool)" where
  "routed_models s p =
     (case list_routes s (p_id p) of
        Inl e \<Rightarrow> Inl e
      | Inr routes \<Rightarrow>
          (let chat = filter (\<lambda>r. r_kind r = ''chat'') routes;
               out = map (\<lambda>r. (r_name r, ''ragmux'')) chat in
           if out = [] then Inr ([], False)
           else case get_connection s (p_model_connection_id p) of
             Inl e \<Rightarrow> Inl e
           | Inr conn \<Rightarrow>
               Inr (if c_model_name conn \<in> r_name ` set chat then out
                    else out @ [model_object conn], True)))"

section \<open>Facts about resolution\<close>

lemma accepted_nonempty:
  "accept_targets targets name = Accepted ts nm \<Longrightarrow> ts \<noteq> [] \<and> ts = targets \<and> nm = name"
  by (auto simp: accept_targets_def split: if_splits)

lemma resolve_route_accepted:
  "resolve_route s rnd p model = Accepted ts nm \<Longrightarrow> ts \<noteq> []"
  unfolding resolve_route_def
  by (auto split: sum.splits prod.splits if_splits dest: accepted_nonempty)

lemma resolve_kind_route_accepted:
  "resolve_kind_route s rnd p kind pick model = Accepted ts nm \<Longrightarrow> ts \<noteq> []"
  unfolding resolve_kind_route_def
  by (auto split: sum.splits prod.splits if_splits option.splits dest!: accepted_nonempty)

lemma effective_connection_id [simp]: "c_id (effective_connection t) = c_id (t_connection t)"
  by (auto simp: effective_connection_def split: option.splits)

lemma order_targets_props:
  "mset (order_targets rnd ts) = mset ts"
  "sorted (map t_priority ts) \<Longrightarrow> sorted (map t_priority (order_targets rnd ts))"
  "set (order_targets rnd ts) = set ts"
  by (simp_all add: order_targets_def mset_order_targets_from sorted_order_targets_from
      set_order_targets_from)

lemma echoed_model_props:
  "length (echoed_model m) \<le> maxModelEchoLen + 2"
  "r \<in> set (echoed_model m) \<Longrightarrow> 32 \<le> r \<and> r \<noteq> 127"
proof -
  have "length (filter P xs) \<le> n" if "length xs \<le> n" for P and xs :: "rune list" and n
    using that length_filter_le [of P xs] by linarith
  then show "length (echoed_model m) \<le> maxModelEchoLen + 2"
    by (auto simp: echoed_model_def quote_model_def)
  show "32 \<le> r \<and> r \<noteq> 127" if "r \<in> set (echoed_model m)"
    using that by (auto simp: echoed_model_def quote_model_def split: if_splits)
qed

section \<open>Properties\<close>

text \<open>A route's targets are tried each exactly once, in ascending priority, whatever the random draws.\<close>

theorem order_targets_spec:
  assumes "sorted (map t_priority ts)"
  shows "mset (order_targets rnd ts) = mset ts \<and> sorted (map t_priority (order_targets rnd ts))"
  using assms order_targets_props(1,2) by blast

theorem order_targets_spec_witness:
  "mset (order_targets (\<lambda>_. 1/2) [demo_target 1 2 1 0, demo_target 2 1 3 0]) =
     mset [demo_target 1 2 1 0, demo_target 2 1 3 0]"
  using order_targets_spec [of "[demo_target 1 2 1 0, demo_target 2 1 3 0]" "\<lambda>_. 1/2"]
  by (simp add: demo_target_def)

text \<open>The weighted choice gives every target its share: of the total weight of equally likely picks, exactly
  as many choose a target as its weight says.\<close>

theorem weighted_choice_share:
  assumes "weights_ok ts" "i < length ts"
  shows "card {pick \<in> {0..<total_weight ts}. pick_index pick ts = i} = nat (t_weight (ts ! i))"
  by (rule pick_index_share [OF assms])

theorem weighted_choice_share_witness:
  "card {pick \<in> {0..<total_weight [demo_target 1 2 1 0, demo_target 2 1 3 0]}.
     pick_index pick [demo_target 1 2 1 0, demo_target 2 1 3 0] = 1} = 3"
  using weighted_choice_share [of "[demo_target 1 2 1 0, demo_target 2 1 3 0]" 1]
  by (simp add: demo_target_def weights_ok_def)

text \<open>A chat request whose model string names a route is answered with that route's targets, never
  none, all of them, in ascending priority, each with its model override applied.\<close>

theorem routed_request_targets:
  assumes "resolve_project_route s (p_id p) ''chat'' model = Inr (has, Some r)"
    and "resolve_route s rnd p model = Accepted conns name"
  shows "name = r_name r \<and> conns \<noteq> [] \<and>
    (\<exists>ts. list_all2 overridden ts conns \<and> mset ts = mset (r_targets r) \<and> sorted (map t_priority ts))"
proof -
  have has: "has" and sorted: "sorted (map t_priority (r_targets r))"
    using resolve_project_route_sorted [OF assms(1)] by blast+
  have "accept_targets (map effective_connection (order_targets rnd (r_targets r))) (r_name r) = Accepted conns name"
    using assms has by (simp add: resolve_route_def resolve_chat_targets_def)
  from accepted_nonempty [OF this] order_targets_props(1,2) [where rnd = rnd and ts = "r_targets r"] sorted
  show ?thesis using effective_connection_overridden by blast
qed

theorem routed_request_targets_witness:
  "\<exists>ts. list_all2 overridden ts [demo_connection 1 ''a'' ''gpt-4o'', demo_connection 2 ''b'' ''claude'']
     \<and> sorted (map t_priority ts)"
proof -
  let ?r = "demo_route\<lparr>r_targets := [(demo_target 2 1 1 0)\<lparr>t_connection := demo_connection 1 ''a'' ''gpt-4o''\<rparr>,
     (demo_target 1 2 1 1)\<lparr>t_connection := demo_connection 2 ''b'' ''claude''\<rparr>]\<rparr>"
  have 1: "resolve_project_route demo_store (p_id (demo_project 12 ''1'')) ''chat'' ''fast'' = Inr (True, Some ?r)"
    by (simp add: resolve_project_route_def order_by_priority_id_def demo_defs)
  have 2: "resolve_route demo_store (\<lambda>_. 0) (demo_project 12 ''1'') ''fast'' =
      Accepted [demo_connection 1 ''a'' ''gpt-4o'', demo_connection 2 ''b'' ''claude''] ''fast''"
    using 1 by (simp add: resolve_route_def resolve_chat_targets_def order_targets_def order_group.simps
        same_priority_def pick_index_def total_weight_def remove_at_def go_trunc_def accept_targets_def
        effective_connection_def Let_def demo_defs)
  from routed_request_targets [OF 1 2] show ?thesis by (elim conjE exE) (intro exI conjI)
qed

end
