(* ===== verification/Redact.thy ===== *)
theory Redact
  imports Prelude
begin

text \<open>
  The credential filter of \<open>internal/provider/redact.go\<close>. Its regular expressions are
  sequences of literals, greedy ASCII character classes with a minimum count and one
  optional tail; in each of them a class excludes the character that has to follow it,
  so matching needs no backtracking and a sequence is matched by a single scan.
\<close>

section \<open>Patterns\<close>

datatype piece =
    Lit bytes
  | One "char \<Rightarrow> bool"
  | Many "char \<Rightarrow> bool" nat
  | Opt "piece list"

text \<open>The number of bytes a sequence of pieces takes at the start of a text.\<close>

fun match_seq :: "piece list \<Rightarrow> bytes \<Rightarrow> nat option" where
  "match_seq [] s = Some 0"
| "match_seq (Lit l # ps) s =
     (if has_prefix s l then map_option ((+) (length l)) (match_seq ps (drop (length l) s)) else None)"
| "match_seq (One P # ps) s =
     (case s of
        [] \<Rightarrow> None
      | c # cs \<Rightarrow> if P c then map_option Suc (match_seq ps cs) else None)"
| "match_seq (Many P m # ps) s =
     (let n = length (takeWhile P s) in
      if n \<ge> m then map_option ((+) n) (match_seq ps (drop n s)) else None)"
| "match_seq (Opt qs # ps) s =
     (case match_seq qs s of
        Some n \<Rightarrow> map_option ((+) n) (match_seq ps (drop n s))
      | None \<Rightarrow> match_seq ps s)"

fun match_any :: "piece list list \<Rightarrow> bytes \<Rightarrow> nat option" where
  "match_any [] s = None"
| "match_any (alt # alts) s =
     (case match_seq alt s of Some n \<Rightarrow> Some n | None \<Rightarrow> match_any alts s)"

text \<open>\<open>ReplaceAllString\<close>: leftmost matches, left to right; no pattern here matches empty.\<close>

function replace_all :: "(bytes \<Rightarrow> nat option) \<Rightarrow> bytes \<Rightarrow> bytes \<Rightarrow> bytes" where
  "replace_all m repl s =
     (case m s of
        Some (Suc n) \<Rightarrow> (if s = [] then repl else repl @ replace_all m repl (drop (Suc n) s))
      | _ \<Rightarrow> (case s of [] \<Rightarrow> [] | c # cs \<Rightarrow> c # replace_all m repl cs))"
  by pat_completeness auto
termination
  by (relation "measure (\<lambda>(m, repl, s). length s)") auto

declare replace_all.simps [simp del]

section \<open>The filter\<close>

definition in_range :: "char \<Rightarrow> char \<Rightarrow> char \<Rightarrow> bool" where
  "in_range lo hi c \<longleftrightarrow>
     (of_char lo :: nat) \<le> of_char c \<and> (of_char c :: nat) \<le> of_char hi"

definition alnum :: "char \<Rightarrow> bool" where
  "alnum c \<longleftrightarrow> in_range CHR ''A'' CHR ''Z'' c \<or> in_range CHR ''a'' CHR ''z'' c
     \<or> in_range CHR ''0'' CHR ''9'' c"

definition key_char :: "char \<Rightarrow> bool" where
  "key_char c \<longleftrightarrow> alnum c \<or> c = CHR ''_'' \<or> c = CHR ''-''"

definition space_char :: "char \<Rightarrow> bool" where
  "space_char c \<longleftrightarrow> c \<in> {CHR '' '', CHR 0x09, CHR 0x0A, CHR 0x0C, CHR 0x0D}"

definition Redacted :: bytes where "Redacted = ''[redacted]''"

abbreviation sep_char :: "char \<Rightarrow> bool" where
  "sep_char c \<equiv> c = CHR ''_'' \<or> c = CHR ''-''"

definition credential_patterns :: "piece list list list" where
  "credential_patterns =
     [[[Lit ''Bearer '', Many (\<lambda>c. alnum c \<or> c \<in> set ''._-'') 8]],
      [[Lit ''Basic '', Many (\<lambda>c. alnum c \<or> c \<in> set ''+/='') 8]],
      [[Lit ''eyJ'', Many key_char 10, Lit ''.'', Many key_char 10,
        Opt [Lit ''.'', Many key_char 1]]],
      [[Lit ''sk-ant-'', Many key_char 8]],
      [[Lit ''sk-'', Many key_char 8]],
      [[Lit ''AIza'', Many key_char 20]],
      [[Lit ''ya29.'', Many key_char 10]],
      [[Lit ''gsk'', One sep_char, Many alnum 8],
       [Lit ''hf'', One sep_char, Many alnum 8],
       [Lit ''xai'', One sep_char, Many alnum 8]]]"

definition userinfo_pattern :: "piece list list" where
  "userinfo_pattern =
     [[Lit ''://'', Many (\<lambda>c. c \<notin> set ''/:@'' \<and> \<not> space_char c) 1, Lit '':'',
       Many (\<lambda>c. c \<notin> set ''@/'' \<and> \<not> space_char c) 1, Lit ''@'']]"

fun redact_all :: "piece list list list \<Rightarrow> bytes \<Rightarrow> bytes" where
  "redact_all [] s = s"
| "redact_all (re # res) s = redact_all res (replace_all (match_any re) Redacted s)"

definition redact :: "bytes \<Rightarrow> bytes" where
  "redact s =
     redact_all credential_patterns
       (replace_all (match_any userinfo_pattern) (''://'' @ Redacted @ ''@'') s)"

fun redact_secrets :: "bytes list \<Rightarrow> bytes \<Rightarrow> bytes" where
  "redact_secrets [] msg = msg"
| "redact_secrets (sec # secs) msg =
     redact_secrets secs
       (if sec \<noteq> [] then replace_all (match_seq [Lit sec]) Redacted msg else msg)"

definition redact_with :: "bytes \<Rightarrow> bytes list \<Rightarrow> bytes" where
  "redact_with msg secrets = redact (redact_secrets secrets msg)"

section \<open>No credential shape survives\<close>

definition occurs :: "piece list \<Rightarrow> bytes \<Rightarrow> bool" where
  "occurs p s \<longleftrightarrow> (\<exists>u v. s = u @ v \<and> match_seq p v \<noteq> None)"

lemma occurs_Cons: "occurs p (c # s) \<longleftrightarrow> match_seq p (c # s) \<noteq> None \<or> occurs p s"
  unfolding occurs_def by (metis append_Cons append_Nil list.exhaust list.sel(3))

lemma occurs_append_right: "occurs p v \<Longrightarrow> occurs p (u @ v)"
  unfolding occurs_def by (metis append.assoc)

lemma occurs_Nil: "occurs p [] \<longleftrightarrow> match_seq p [] \<noteq> None"
  by (auto simp: occurs_def)

text \<open>
  A sequence whose matches hold no \<open>r\<close>, and which matches whatever is put behind one of its
  matches: a run stops where the next literal begins, or it is the end.
\<close>

definition robust :: "char \<Rightarrow> piece list \<Rightarrow> bool" where
  "robust r ps \<longleftrightarrow>
     (\<forall>s n. match_seq ps s = Some n \<longrightarrow>
        n \<le> length s \<and> r \<notin> set (take n s) \<and> (\<forall>v. match_seq ps (take n s @ v) \<noteq> None))"

lemma robustD:
  assumes "robust r ps" "match_seq ps s = Some n"
  shows "n \<le> length s" "r \<notin> set (take n s)" "match_seq ps (take n s @ v) \<noteq> None"
  using assms unfolding robust_def by blast+

lemma robust_extends:
  assumes "robust r ps" "match_seq ps s \<noteq> None"
  shows "match_seq ps (s @ v) \<noteq> None"
proof -
  from assms(2) obtain n where n: "match_seq ps s = Some n" by blast
  from robustD(3) [OF assms(1) n, of "drop n s @ v"] show ?thesis by (metis append.assoc append_take_drop_id)
qed

lemma robust_Nil: "robust r []"
  by (simp add: robust_def)

lemma robust_Lit:
  assumes "r \<notin> set l" "robust r ps"
  shows "robust r (Lit l # ps)"
  unfolding robust_def
proof (intro allI impI)
  fix s n assume "match_seq (Lit l # ps) s = Some n"
  then obtain t m where s: "s = l @ t" "match_seq ps t = Some m" "n = length l + m"
    by (auto simp: has_prefix_iff split: if_splits)
  then show "n \<le> length s \<and> r \<notin> set (take n s) \<and> (\<forall>v. match_seq (Lit l # ps) (take n s @ v) \<noteq> None)"
    using assms(1) robustD [OF assms(2) s(2)] by simp
qed

lemma robust_One:
  assumes "\<not> P r" "robust r ps"
  shows "robust r (One P # ps)"
  unfolding robust_def
proof (intro allI impI)
  fix s n assume "match_seq (One P # ps) s = Some n"
  then obtain c t m where s: "s = c # t" "P c" "match_seq ps t = Some m" "n = Suc m"
    by (auto split: list.splits if_splits)
  then show "n \<le> length s \<and> r \<notin> set (take n s) \<and> (\<forall>v. match_seq (One P # ps) (take n s @ v) \<noteq> None)"
    using assms(1) robustD [OF assms(2) s(3)] by auto
qed

lemma robust_Opt:
  assumes "robust r qs"
  shows "robust r [Opt qs]"
  unfolding robust_def
proof (intro allI impI)
  fix s n assume n: "match_seq [Opt qs] s = Some n"
  have "n \<le> length s \<and> r \<notin> set (take n s)"
  proof (cases "match_seq qs s")
    case (Some m)
    with n robustD(1,2) [OF assms Some] show ?thesis by simp
  qed (use n in simp)
  then show "n \<le> length s \<and> r \<notin> set (take n s) \<and> (\<forall>v. match_seq [Opt qs] (take n s @ v) \<noteq> None)"
    by (simp split: option.split)
qed

lemma match_Many:
  assumes "match_seq (Many P k # ps) s = Some n"
  obtains m where "k \<le> length (takeWhile P s)" "match_seq ps (dropWhile P s) = Some m" "n = length (takeWhile P s) + m"
proof -
  have "drop (length (takeWhile P s)) s = dropWhile P s" by (metis dropWhile_eq_drop)
  then show thesis using assms that by (auto simp: Let_def split: if_splits)
qed

lemma take_while_then:
  "n = length (takeWhile P s) + m \<Longrightarrow> take n s = takeWhile P s @ take m (dropWhile P s)"
  by (metis append_eq_conv_conj take_add takeWhile_dropWhile_id)

text \<open>A run at the end, and a run in front of a literal it cannot run into.\<close>

lemma robust_Many_last:
  assumes "\<not> P r" "robust r ps" "\<And>s. match_seq ps s \<noteq> None"
  shows "robust r (Many P k # ps)"
  unfolding robust_def
proof (intro allI impI)
  fix s n assume "match_seq (Many P k # ps) s = Some n"
  then obtain m where m: "k \<le> length (takeWhile P s)" "match_seq ps (dropWhile P s) = Some m"
    "n = length (takeWhile P s) + m" by (rule match_Many)
  have "length s = length (takeWhile P s) + length (dropWhile P s)" by (metis length_append takeWhile_dropWhile_id)
  then have "n \<le> length s" using robustD(1) [OF assms(2) m(2)] m(3) by simp
  moreover have "r \<notin> set (takeWhile P s)" using assms(1) by (auto dest: set_takeWhileD)
  moreover have "k \<le> length (takeWhile P (takeWhile P s @ v))" for v
    using m(1) by (subst takeWhile_append2) (auto dest: set_takeWhileD)
  ultimately show "n \<le> length s \<and> r \<notin> set (take n s) \<and> (\<forall>v. match_seq (Many P k # ps) (take n s @ v) \<noteq> None)"
    using robustD(2) [OF assms(2) m(2)] assms(3) by (simp add: take_while_then [OF m(3)] Let_def)
qed

lemma robust_Many_Lit:
  assumes "\<not> P r" "\<not> P c" "robust r (Lit (c # l) # ps)"
  shows "robust r (Many P k # Lit (c # l) # ps)"
  unfolding robust_def
proof (intro allI impI)
  fix s n assume "match_seq (Many P k # Lit (c # l) # ps) s = Some n"
  then obtain m where m: "k \<le> length (takeWhile P s)" "match_seq (Lit (c # l) # ps) (dropWhile P s) = Some m"
    "n = length (takeWhile P s) + m" by (rule match_Many)
  from m(2) have head: "has_prefix (dropWhile P s) (c # l)" "0 < m" by (auto split: if_splits)
  then obtain t where t: "take m (dropWhile P s) = c # t" by (cases "dropWhile P s"; cases m) (auto simp: has_prefix_def)
  have "length s = length (takeWhile P s) + length (dropWhile P s)" by (metis length_append takeWhile_dropWhile_id)
  then have "n \<le> length s" using robustD(1) [OF assms(3) m(2)] m(3) by simp
  moreover have "r \<notin> set (takeWhile P s)" using assms(1) by (auto dest: set_takeWhileD)
  moreover have "takeWhile P (takeWhile P s @ c # t @ v) = takeWhile P s" for v
    using assms(2) by (subst takeWhile_append2) (auto dest: set_takeWhileD)
  ultimately show "n \<le> length s \<and> r \<notin> set (take n s) \<and> (\<forall>v. match_seq (Many P k # Lit (c # l) # ps) (take n s @ v) \<noteq> None)"
    using robustD(2,3) [OF assms(3) m(2)] m(1) by (simp add: take_while_then [OF m(3)] t Let_def del: match_seq.simps(2))
qed

text \<open>
  A key shape: robust, matching at least a character, and not matching at a place inside the
  replacement text \<open>rs\<close>, which begins with \<open>r\<close>, whatever comes behind it.
\<close>

definition key_shape :: "char \<Rightarrow> bytes \<Rightarrow> piece list \<Rightarrow> bool" where
  "key_shape r rs p \<longleftrightarrow>
     robust r p \<and> (\<forall>s. match_seq p s \<noteq> Some 0)
     \<and> (\<forall>i v. i \<le> length rs \<longrightarrow> match_seq p (drop i (r # rs) @ v) = None) \<and> match_seq p [] = None"

lemma key_shapeI:
  assumes "robust r (Lit (c # l) # ps)" "\<And>i v. i \<le> length rs \<Longrightarrow> \<not> has_prefix (drop i (r # rs) @ v) (c # l)"
  shows "key_shape r rs (Lit (c # l) # ps)"
  using assms unfolding key_shape_def by (auto simp: has_prefix_def split: if_splits)

lemma kept_prefix: "\<exists>v. s = takeWhile (\<lambda>x. x \<noteq> r) (replace_all m (r # rs) s) @ v"
proof (induction s)
  case Nil
  show ?case by (subst replace_all.simps) (auto split: option.splits nat.splits)
next
  case (Cons x xs)
  then obtain v where "xs = takeWhile (\<lambda>x. x \<noteq> r) (replace_all m (r # rs) xs) @ v" by blast
  then show ?case by (subst replace_all.simps) (auto split: option.splits nat.splits)
qed

text \<open>A key at the start of the output is a key at the start of the input.\<close>

lemma match_reflects:
  assumes shape: "key_shape r rs p" and m: "match_seq p (replace_all m (r # rs) s) \<noteq> None"
  shows "match_seq p s \<noteq> None"
proof -
  let ?out = "replace_all m (r # rs) s"
  obtain n where n: "match_seq p ?out = Some n" using m by blast
  have robust: "robust r p" using shape by (simp add: key_shape_def)
  have "takeWhile (\<lambda>x. x \<noteq> r) (take n ?out @ drop n ?out) = take n ?out @ takeWhile (\<lambda>x. x \<noteq> r) (drop n ?out)"
    using robustD(2) [OF robust n] by (intro takeWhile_append2) auto
  then have "takeWhile (\<lambda>x. x \<noteq> r) ?out = take n ?out @ takeWhile (\<lambda>x. x \<noteq> r) (drop n ?out)" by simp
  then obtain v where "s = take n ?out @ v" using kept_prefix [of s r m rs] by auto
  with robustD(3) [OF robust n] show ?thesis by metis
qed

lemma not_occurs_replaced:
  assumes "key_shape r rs p" "occurs p ((r # rs) @ v)"
  shows "occurs p v"
proof -
  have "occurs p (drop i (r # rs) @ v) \<Longrightarrow> occurs p v" for i
  proof (induction "length (r # rs) - i" arbitrary: i)
    case (Suc k)
    then have i: "i < length (r # rs)" "i \<le> length rs" by simp_all
    have "drop i (r # rs) @ v = (r # rs) ! i # drop (Suc i) (r # rs) @ v"
      using Cons_nth_drop_Suc [OF i(1)] by (metis append_Cons)
    moreover have "match_seq p (drop i (r # rs) @ v) = None" using assms(1) i(2) unfolding key_shape_def by blast
    ultimately have "occurs p (drop (Suc i) (r # rs) @ v)" using Suc.prems by (simp add: occurs_Cons)
    moreover have "k = length (r # rs) - Suc i" using Suc.hyps(2) by simp
    ultimately show ?case using Suc.hyps(1) by blast
  qed simp
  from this [of 0] assms(2) show ?thesis by simp
qed

lemma occurs_Nil_shape: "key_shape r rs p \<Longrightarrow> \<not> occurs p []"
  by (simp add: occurs_Nil key_shape_def)

lemma replace_preserves_absence:
  assumes shape: "key_shape r rs p"
  shows "\<not> occurs p s \<Longrightarrow> \<not> occurs p (replace_all m (r # rs) s)"
proof (induction s rule: length_induct)
  case (1 s)
  have drop: "\<not> occurs p (drop n s)" for n
    using 1(2) occurs_append_right [of p "drop n s" "take n s"] by auto
  show ?case
  proof (cases s)
    case Nil
    then show ?thesis
      using occurs_Nil_shape [OF shape] not_occurs_replaced [OF shape, of "[]"]
      by (subst replace_all.simps) (auto split: option.splits nat.splits)
  next
    case (Cons x xs)
    show ?thesis
    proof (cases "\<exists>n. m s = Some (Suc n)")
      case True
      then obtain n where n: "m s = Some (Suc n)" by blast
      have "\<not> occurs p (replace_all m (r # rs) (drop (Suc n) s))"
        using 1(1) drop [of "Suc n"] Cons by auto
      with n Cons show ?thesis using not_occurs_replaced [OF shape]
        by (subst replace_all.simps) auto
    next
      case False
      then have eq: "replace_all m (r # rs) s = x # replace_all m (r # rs) xs"
        using Cons by (subst replace_all.simps) (auto split: option.splits nat.splits)
      have "\<not> occurs p (replace_all m (r # rs) xs)"
        using 1(1) Cons drop [of 1] by auto
      moreover have "match_seq p (replace_all m (r # rs) s) = None"
        using match_reflects [OF shape] 1(2) by (fastforce simp: occurs_def)
      ultimately show ?thesis unfolding eq by (simp add: occurs_Cons)
    qed
  qed
qed

lemma replace_removes:
  assumes shape: "key_shape r rs p" and m: "\<And>s. m s = None \<Longrightarrow> match_seq p s = None" "\<And>s. m s \<noteq> Some 0"
  shows "\<not> occurs p (replace_all m (r # rs) s)"
proof (induction s rule: length_induct)
  case (1 s)
  show ?case
  proof (cases "m s")
    case None
    show ?thesis
    proof (cases s)
      case Nil
      with None show ?thesis using occurs_Nil_shape [OF shape] by (subst replace_all.simps) simp
    next
      case (Cons x xs)
      then have eq: "replace_all m (r # rs) s = x # replace_all m (r # rs) xs"
        using None by (subst replace_all.simps) simp
      have "match_seq p (replace_all m (r # rs) s) = None"
        using match_reflects [OF shape] m(1) [OF None] by blast
      moreover have "\<not> occurs p (replace_all m (r # rs) xs)" using 1 Cons by simp
      ultimately show ?thesis unfolding eq by (simp add: occurs_Cons)
    qed
  next
    case (Some n)
    then obtain n' where n': "m s = Some (Suc n')" using m(2) by (cases n) auto
    show ?thesis
    proof (cases "s = []")
      case True
      then show ?thesis
        using n' not_occurs_replaced [OF shape, of "[]"] occurs_Nil_shape [OF shape] by (subst replace_all.simps) auto
    next
      case False
      then have "replace_all m (r # rs) s = (r # rs) @ replace_all m (r # rs) (drop (Suc n') s)"
        using n' by (subst replace_all.simps) simp
      moreover have "\<not> occurs p (replace_all m (r # rs) (drop (Suc n') s))" using 1 False by simp
      ultimately show ?thesis using not_occurs_replaced [OF shape] by auto
    qed
  qed
qed

lemma match_any_None: "match_any re s = None \<longleftrightarrow> list_all (\<lambda>p. match_seq p s = None) re"
  by (induction re) (auto split: option.split)

lemma match_any_zero: "list_all (\<lambda>p. match_seq p s \<noteq> Some 0) re \<Longrightarrow> match_any re s \<noteq> Some 0"
  by (induction re) (auto split: option.split)

text \<open>Every alternative of a pattern is of that shape, so the pass of the pattern removes each of them.\<close>

definition keys :: "piece list list \<Rightarrow> bool" where
  "keys re \<longleftrightarrow> list_all (key_shape CHR ''['' ''redacted]'') re"

lemma pass_removes:
  assumes "keys re" "p \<in> set re"
  shows "\<not> occurs p (replace_all (match_any re) Redacted s)"
  unfolding Redacted_def
proof (rule replace_removes)
  show "key_shape CHR ''['' ''redacted]'' p" using assms by (simp add: keys_def list_all_iff)
  show "match_seq p s = None" if "match_any re s = None" for s
    using that assms(2) by (simp add: match_any_None list_all_iff)
  show "match_any re s \<noteq> Some 0" for s
    using assms(1) by (intro match_any_zero) (auto simp: keys_def list_all_iff key_shape_def)
qed

lemma redact_all_absent:
  "key_shape CHR ''['' ''redacted]'' p \<Longrightarrow> \<not> occurs p s \<Longrightarrow> \<not> occurs p (redact_all res s)"
  by (induction res arbitrary: s) (auto simp: Redacted_def dest: replace_preserves_absence)

lemma redact_all_removes:
  "keys re \<Longrightarrow> p \<in> set re \<Longrightarrow> re \<in> set res \<Longrightarrow> \<not> occurs p (redact_all res s)"
proof (induction res arbitrary: s)
  case (Cons re' res)
  have "key_shape CHR ''['' ''redacted]'' p" using Cons.prems(1,2) by (simp add: keys_def list_all_iff)
  then show ?case
    using Cons redact_all_absent [of p _ res] pass_removes by (cases "re' = re") auto
qed simp

text \<open>The known shapes of a credential.\<close>

definition key_patterns :: "piece list list" where
  "key_patterns =
     [[Lit ''Bearer '', Many (\<lambda>c. alnum c \<or> c \<in> set ''._-'') 8],
      [Lit ''Basic '', Many (\<lambda>c. alnum c \<or> c \<in> set ''+/='') 8],
      [Lit ''eyJ'', Many key_char 10, Lit ''.'', Many key_char 10, Opt [Lit ''.'', Many key_char 1]],
      [Lit ''sk-ant-'', Many key_char 8],
      [Lit ''sk-'', Many key_char 8],
      [Lit ''AIza'', Many key_char 20],
      [Lit ''ya29.'', Many key_char 10],
      [Lit ''gsk'', One sep_char, Many alnum 8],
      [Lit ''hf'', One sep_char, Many alnum 8],
      [Lit ''xai'', One sep_char, Many alnum 8]]"

lemma not_bracket [simp]: "\<not> alnum CHR ''[''" "\<not> key_char CHR ''[''" "\<not> key_char CHR ''.''"
  by (simp_all add: alnum_def key_char_def in_range_def)

lemma plain_robust: "r \<notin> set l \<Longrightarrow> \<not> P r \<Longrightarrow> robust r [Lit l, Many P k]"
  by (rule robust_Lit, assumption, rule robust_Many_last) (simp_all add: robust_Nil)

lemma sep_robust: "r \<notin> set l \<Longrightarrow> \<not> Q r \<Longrightarrow> \<not> P r \<Longrightarrow> robust r [Lit l, One Q, Many P k]"
  by (rule robust_Lit, assumption, rule robust_One, assumption, rule robust_Many_last) (simp_all add: robust_Nil)

lemma jwt_robust:
  "robust CHR ''['' [Lit ''eyJ'', Many key_char 10, Lit ''.'', Many key_char 10, Opt [Lit ''.'', Many key_char 1]]"
proof -
  have "match_seq [Opt [Lit ''.'', Many key_char 1]] s \<noteq> None" for s by (simp split: option.split)
  moreover have "robust CHR ''['' [Opt [Lit ''.'', Many key_char 1]]" by (intro robust_Opt plain_robust) simp_all
  ultimately have "robust CHR ''['' [Many key_char 10, Opt [Lit ''.'', Many key_char 1]]"
    by (intro robust_Many_last) simp_all
  then have "robust CHR ''['' [Lit ''.'', Many key_char 10, Opt [Lit ''.'', Many key_char 1]]"
    by (intro robust_Lit) simp_all
  then have "robust CHR ''['' [Many key_char 10, Lit ''.'', Many key_char 10, Opt [Lit ''.'', Many key_char 1]]"
    by (intro robust_Many_Lit) simp_all
  then show ?thesis by (intro robust_Lit) simp_all
qed

lemma not_inside:
  assumes "i \<le> length ''redacted]''"
    and "list_all (\<lambda>k. drop k ''[redacted]'' ! 0 \<noteq> c \<or> k < 9 \<and> l \<noteq> [] \<and> drop (Suc k) ''[redacted]'' ! 0 \<noteq> hd l) [0..<10]"
  shows "\<not> has_prefix (drop i (CHR ''['' # ''redacted]'') @ v) (c # l)"
proof -
  have "i \<in> set [0..<10]" using assms(1) by simp
  then consider "i = 0" | "i = 1" | "i = 2" | "i = 3" | "i = 4" | "i = 5" | "i = 6" | "i = 7" | "i = 8" | "i = 9"
    by (fastforce simp: upt_conv_Cons)
  then show ?thesis
    by cases (use assms(2) in \<open>cases l; auto simp: has_prefix_def upt_conv_Cons numeral_eq_Suc\<close>)+
qed

lemma all_keys: "list_all keys credential_patterns"
  unfolding credential_patterns_def keys_def list.pred_inject
  by (intro conjI TrueI key_shapeI not_inside jwt_robust plain_robust sep_robust) (simp_all add: upt_conv_Cons numeral_eq_Suc)

lemma patterns_known: "p \<in> set key_patterns \<Longrightarrow> \<exists>re \<in> set credential_patterns. p \<in> set re"
  unfolding key_patterns_def credential_patterns_def by auto

lemma key_robust:
  assumes "p \<in> set key_patterns"
  shows "robust CHR ''['' p"
proof -
  obtain re where "re \<in> set credential_patterns" "p \<in> set re" using patterns_known [OF assms] by blast
  then show ?thesis using all_keys by (auto simp: list_all_iff keys_def key_shape_def)
qed

lemma redacted_is_clean:
  assumes "p \<in> set key_patterns"
  shows "\<not> occurs p (redact s)"
proof -
  obtain re where "re \<in> set credential_patterns" "p \<in> set re" using patterns_known [OF assms] by blast
  moreover from this have "keys re" using all_keys by (simp add: list_all_iff)
  ultimately show ?thesis unfolding redact_def by (intro redact_all_removes)
qed

section \<open>Properties\<close>

text \<open>C21: After redaction no credential of a known shape is left anywhere in the text: no bearer or basic
  credential, no JSON web token, no \<open>sk-\<close> key, no Google API key or OAuth token, and no key of Groq,
  Hugging Face or xAI. That holds whatever the other patterns made of the text meanwhile: a
  replacement never completes a key.\<close>

theorem redacted_text_has_no_key:
  assumes "p \<in> set key_patterns"
  shows "\<not> occurs p (redact s)"
  using assms by (rule redacted_is_clean)

theorem redacted_text_has_no_key_witness:
  "\<not> occurs [Lit ''sk-'', Many key_char 8] (redact ''rejected key sk-abcdefgh123 by upstream'')"
  by (rule redacted_text_has_no_key) (simp add: key_patterns_def)

end
