(* ===== verification/GoStrings.thy ===== *)
theory GoStrings
  imports Prelude
begin

text \<open>
  The pieces of Go's \<open>strings\<close>, \<open>strconv\<close> and \<open>unicode\<close> packages the program uses on
  header values and names: \<open>TrimSpace\<close> over UTF-8 bytes, ASCII lower-casing and
  \<open>EqualFold\<close>, and decimal formatting.
\<close>

section \<open>TrimSpace\<close>

text \<open>The UTF-8 encodings of the characters \<open>unicode.IsSpace\<close> accepts.\<close>

definition space_seqs :: "bytes list" where
  "space_seqs =
     map (\<lambda>c. [c]) [CHR 0x09, CHR 0x0A, CHR 0x0B, CHR 0x0C, CHR 0x0D, CHR 0x20]
     @ [[CHR 0xC2, CHR 0x85], [CHR 0xC2, CHR 0xA0], [CHR 0xE1, CHR 0x9A, CHR 0x80]]
     @ map (\<lambda>c. [CHR 0xE2, CHR 0x80, c])
         [CHR 0x80, CHR 0x81, CHR 0x82, CHR 0x83, CHR 0x84, CHR 0x85, CHR 0x86, CHR 0x87,
          CHR 0x88, CHR 0x89, CHR 0x8A, CHR 0xA8, CHR 0xA9, CHR 0xAF]
     @ [[CHR 0xE2, CHR 0x81, CHR 0x9F], [CHR 0xE3, CHR 0x80, CHR 0x80]]"

function strip_left :: "bytes list \<Rightarrow> bytes \<Rightarrow> bytes" where
  "strip_left seqs s =
     (case find (\<lambda>w. w \<noteq> [] \<and> has_prefix s w) seqs of
        None \<Rightarrow> s
      | Some w \<Rightarrow> strip_left seqs (drop (length w) s))"
  by auto
termination
  by (relation "measure (\<lambda>(seqs, s). length s)") (auto dest!: find_SomeD simp: has_prefix_iff)

declare strip_left.simps [simp del]

definition strip_right :: "bytes list \<Rightarrow> bytes \<Rightarrow> bytes" where
  "strip_right seqs s = rev (strip_left (map rev seqs) (rev s))"

definition trim_space :: "bytes \<Rightarrow> bytes" where
  "trim_space s = strip_right space_seqs (strip_left space_seqs s)"

lemma strip_left_clean: "w \<in> set seqs \<Longrightarrow> w \<noteq> [] \<Longrightarrow> \<not> has_prefix (strip_left seqs s) w"
proof (induction seqs s rule: strip_left.induct)
  case (1 seqs s)
  show ?case
  proof (cases "find (\<lambda>w. w \<noteq> [] \<and> has_prefix s w) seqs")
    case None
    then have "\<not> (w \<noteq> [] \<and> has_prefix s w)" using "1.prems"(1) by (auto simp: find_None_iff)
    then show ?thesis using None "1.prems"(2) by (simp add: strip_left.simps [of seqs s])
  next
    case (Some x)
    with 1 show ?thesis by (simp add: strip_left.simps [of seqs s])
  qed
qed

lemma strip_left_suffix: "\<exists>u. s = u @ strip_left seqs s"
proof (induction seqs s rule: strip_left.induct)
  case (1 seqs s)
  show ?case
  proof (cases "find (\<lambda>w. w \<noteq> [] \<and> has_prefix s w) seqs")
    case None
    then show ?thesis by (simp add: strip_left.simps [of seqs s])
  next
    case (Some w)
    with 1 obtain u where "drop (length w) s = u @ strip_left seqs (drop (length w) s)" by blast
    then have "s = (take (length w) s @ u) @ strip_left seqs (drop (length w) s)"
      by (metis append.assoc append_take_drop_id)
    moreover have "strip_left seqs s = strip_left seqs (drop (length w) s)"
      using Some by (simp add: strip_left.simps [of seqs s])
    ultimately show ?thesis by metis
  qed
qed

lemma strip_left_fixed: "\<forall>w \<in> set seqs. w \<noteq> [] \<longrightarrow> \<not> has_prefix s w \<Longrightarrow> strip_left seqs s = s"
proof -
  assume "\<forall>w \<in> set seqs. w \<noteq> [] \<longrightarrow> \<not> has_prefix s w"
  then have "find (\<lambda>w. w \<noteq> [] \<and> has_prefix s w) seqs = None" by (auto simp: find_None_iff)
  then show ?thesis by (simp add: strip_left.simps [of seqs s])
qed

lemma trim_space_idem: "trim_space (trim_space s) = trim_space s"
proof -
  let ?l = "strip_left space_seqs s" and ?r = "trim_space s"
  obtain u where "rev ?l = u @ strip_left (map rev space_seqs) (rev ?l)"
    using strip_left_suffix by blast
  then have l: "?l = ?r @ rev u"
    unfolding trim_space_def strip_right_def by (metis rev_append rev_rev_ident)
  have "\<forall>w \<in> set space_seqs. w \<noteq> [] \<longrightarrow> \<not> has_prefix ?r w"
  proof (intro ballI impI notI)
    fix w assume w: "w \<in> set space_seqs" "w \<noteq> []" "has_prefix ?r w"
    then have "has_prefix ?l w" unfolding l by (auto simp: has_prefix_iff)
    with w strip_left_clean show False by blast
  qed
  then have "strip_left space_seqs ?r = ?r" by (rule strip_left_fixed)
  moreover have "strip_left (map rev space_seqs) (rev ?r) = rev ?r"
  proof (rule strip_left_fixed, intro ballI impI)
    fix w assume "w \<in> set (map rev space_seqs)" "w \<noteq> []"
    then show "\<not> has_prefix (rev ?r) w"
      unfolding trim_space_def strip_right_def rev_rev_ident by (rule strip_left_clean)
  qed
  ultimately show ?thesis by (simp add: trim_space_def [of ?r] strip_right_def)
qed

section \<open>Fields\<close>

text \<open>\<open>strings.Fields\<close> on bytes: the runs between white space.\<close>

definition space_len :: "bytes \<Rightarrow> nat" where
  "space_len s = (case find (\<lambda>w. w \<noteq> [] \<and> has_prefix s w) space_seqs of None \<Rightarrow> 0 | Some w \<Rightarrow> length w)"

function byte_pieces :: "bytes \<Rightarrow> bytes list" where
  "byte_pieces [] = [[]]"
| "byte_pieces (c # s) =
     (let n = space_len (c # s) in
      if n > 0 then [] # byte_pieces (drop (n - 1) s)
      else (case byte_pieces s of [] \<Rightarrow> [[c]] | w # ws \<Rightarrow> (c # w) # ws))"
  by pat_completeness auto
termination by (relation "measure length") auto

declare byte_pieces.simps(2) [simp del]

definition go_fields :: "bytes \<Rightarrow> bytes list" where
  "go_fields s = filter (\<lambda>w. w \<noteq> []) (byte_pieces s)"

text \<open>Blank text folded to single spaces.\<close>

definition one_line :: "bytes \<Rightarrow> bytes" where
  "one_line s = join '' '' (go_fields s)"

lemma space_len_newline: "space_len (CHR 0x0A # s) > 0"
proof -
  let ?P = "\<lambda>w. w \<noteq> [] \<and> has_prefix (CHR 0x0A # s) w"
  have "[CHR 0x0A] \<in> set space_seqs" 
    by (simp only: space_seqs_def list.map append_Cons list.set insert_iff simp_thms)
  moreover have "?P [CHR 0x0A]" by (simp add: has_prefix_def)
  ultimately have "find ?P space_seqs \<noteq> None" unfolding find_None_iff by blast
  then obtain w where w: "find ?P space_seqs = Some w" by blast
  from find_SomeD [OF w] have "w \<noteq> []" by blast
  then show ?thesis unfolding space_len_def w option.case by blast
qed

lemma byte_pieces_no_newline: "w \<in> set (byte_pieces s) \<Longrightarrow> CHR 0x0A \<notin> set w"
proof (induction s arbitrary: w rule: byte_pieces.induct)
  case (2 c s)
  show ?case
  proof (cases "space_len (c # s) > 0")
    case True
    with 2 show ?thesis by (auto simp: byte_pieces.simps(2) Let_def)
  next
    case False
    then have "c \<noteq> CHR 0x0A" using space_len_newline [of s] by (cases "c = CHR 0x0A") simp_all
    with 2 False show ?thesis by (auto simp: byte_pieces.simps(2) Let_def split: list.splits)
  qed
qed simp

lemma join_no_newline:
  "CHR 0x0A \<notin> set sep \<Longrightarrow> list_all (\<lambda>w. CHR 0x0A \<notin> set w) ws \<Longrightarrow> CHR 0x0A \<notin> set (join sep ws)"
  by (induction sep ws rule: join.induct) auto

lemma one_line_no_newline: "CHR 0x0A \<notin> set (one_line s)"
  unfolding one_line_def
  using byte_pieces_no_newline by (intro join_no_newline) (auto simp: go_fields_def list_all_iff)

section \<open>ASCII case\<close>

definition ascii_lower :: "char \<Rightarrow> char" where
  "ascii_lower c = (let n = of_char c :: nat in if 65 \<le> n \<and> n \<le> 90 then char_of (n + 32) else c)"

definition lower :: "bytes \<Rightarrow> bytes" where
  "lower s = map ascii_lower s"

section \<open>Decimal numbers\<close>

definition digit_char :: "nat \<Rightarrow> char" where
  "digit_char d = char_of (48 + d)"

fun digits :: "nat \<Rightarrow> bytes" where
  "digits n = (if n < 10 then [digit_char n] else digits (n div 10) @ [digit_char (n mod 10)])"

declare digits.simps [simp del]

text \<open>\<open>strconv.FormatInt(i, 10)\<close>.\<close>

definition format_int :: "int \<Rightarrow> bytes" where
  "format_int i = (if i < 0 then CHR ''-'' # digits (nat (- i)) else digits (nat i))"

definition digits_value :: "bytes \<Rightarrow> nat" where
  "digits_value s = foldl (\<lambda>a c. 10 * a + (of_char c - 48)) 0 s"

lemma digit_char_value: "d < 10 \<Longrightarrow> (of_char (digit_char d) :: nat) = 48 + d"
  by (simp add: digit_char_def)

lemma digits_value_digits: "digits_value (digits n) = n"
proof (induction n rule: digits.induct)
  case (1 n)
  show ?case
  proof (cases "n < 10")
    case True
    then show ?thesis by (simp add: digits.simps [of n] digits_value_def digit_char_value)
  next
    case False
    with 1 have "digits_value (digits (n div 10)) = n div 10" by simp
    with False show ?thesis
      by (simp add: digits.simps [of n] digits_value_def digit_char_value)
  qed
qed

lemma digits_chars: "c \<in> set (digits n) \<Longrightarrow> 48 \<le> (of_char c :: nat) \<and> (of_char c :: nat) \<le> 57"
proof (induction n rule: digits.induct)
  case (1 n)
  have "n mod 10 < 10" by simp
  then have m: "(of_char (digit_char (n mod 10)) :: nat) = 48 + n mod 10"
    by (rule digit_char_value)
  show ?case
  proof (cases "n < 10")
    case True
    with 1 show ?thesis by (simp add: digits.simps [of n] digit_char_value)
  next
    case False
    with 1 m show ?thesis by (auto simp: digits.simps [of n])
  qed
qed

lemma digits_inj: "digits m = digits n \<Longrightarrow> m = n"
  by (metis digits_value_digits)

lemma digits_nonempty: "digits n \<noteq> []"
  by (simp add: digits.simps [of n])

lemma minus_not_digits: "CHR ''-'' # s \<noteq> digits n"
proof
  assume "CHR ''-'' # s = digits n"
  then have "CHR ''-'' \<in> set (digits n)" by (metis list.set_intros(1))
  then have "48 \<le> (of_char CHR ''-'' :: nat)" using digits_chars by blast
  then show False by simp
qed

lemma format_int_inj:
  assumes "format_int i = format_int j"
  shows "i = j"
proof (cases "i < 0"; cases "j < 0")
  assume "i < 0" "j < 0"
  with assms have "digits (nat (- i)) = digits (nat (- j))" by (simp add: format_int_def)
  then have "nat (- i) = nat (- j)" by (rule digits_inj)
  with \<open>i < 0\<close> \<open>j < 0\<close> show ?thesis by simp
next
  assume "\<not> i < 0" "\<not> j < 0"
  with assms have "digits (nat i) = digits (nat j)" by (simp add: format_int_def)
  then have "nat i = nat j" by (rule digits_inj)
  with \<open>\<not> i < 0\<close> \<open>\<not> j < 0\<close> show ?thesis by simp
next
  assume "i < 0" "\<not> j < 0"
  with assms minus_not_digits show ?thesis by (simp add: format_int_def)
next
  assume "\<not> i < 0" "j < 0"
  with assms minus_not_digits [symmetric] show ?thesis by (simp add: format_int_def)
qed

end
