(* ===== verification/Invoke.thy ===== *)
theory Invoke
  imports Breaker Route Redact GoStrings
begin

text \<open>
  The walk over a call's targets, \<open>invoke\<close> of \<open>internal/gateway/pipeline.go\<close>: retries
  of one target, fallback to the next, the circuit breakers in between and the shared
  time budget. Whatever the walk reads from outside -- the clock, the client's context,
  the upstream, the random source, the sleep -- is an oracle of the environment, indexed
  by a counter that every reading advances, so a theorem about the walk holds for every
  behaviour of the outside.

  A target is known by its position in the call's list: the code compares targets by
  pointer, and every entry of the list is a connection value of its own.
\<close>

section \<open>Environment and state\<close>

record env =
  ev_clock :: "nat \<Rightarrow> time"
  ev_ctx_err :: "nat \<Rightarrow> bool"
  ev_attempt :: "nat \<Rightarrow> model_connection \<Rightarrow> go_error option \<times> int"
  ev_draw :: "nat \<Rightarrow> rat"
  ev_sleep_err :: "nat \<Rightarrow> bool"

record walk_config =
  wc_max_retries :: int
  wc_deadline :: "time option"
  wc_targets :: "model_connection list"

text \<open>The breaker operations the walk calls.\<close>

record 'b breaker_api =
  ba_allow :: "'b \<Rightarrow> model_connection \<Rightarrow> time \<Rightarrow> (bool \<times> probe_token) \<times> 'b"
  ba_report :: "'b \<Rightarrow> model_connection \<Rightarrow> time \<Rightarrow> probe_token \<Rightarrow> attempt_outcome \<Rightarrow> 'b"
  ba_is_open :: "'b \<Rightarrow> int \<Rightarrow> time \<Rightarrow> bool"

text \<open>
  \<open>w_calls\<close> records the targets of the attempts made, \<open>w_waits\<close> the waits taken, and the
  two counters the reasons \<open>RecordUpstreamRetry\<close> and \<open>RecordUpstreamFallback\<close> saw; the
  newest entry comes first.
\<close>

record 'b walk_state =
  w_tick :: nat
  w_breakers :: 'b
  w_attempts :: int
  w_conn :: nat
  w_err :: "go_error option"
  w_status :: int
  w_calls :: "nat list"
  w_waits :: "duration list"
  w_retry_metric :: "upstream_reason list"
  w_fallback_metric :: "upstream_reason list"

section \<open>One attempt\<close>

definition tick :: "'b walk_state \<Rightarrow> 'b walk_state" where
  "tick w = w\<lparr>w_tick := Suc (w_tick w)\<rparr>"

text \<open>
  \<open>runAttempt\<close>, the report to the breaker, and the correction of the attempt count for a
  call that never left the gateway.
\<close>

definition run_attempt ::
  "'b breaker_api \<Rightarrow> env \<Rightarrow> nat \<Rightarrow> model_connection \<Rightarrow> probe_token \<Rightarrow> 'b walk_state \<Rightarrow> 'b walk_state" where
  "run_attempt api env idx target probe w =
     (let (err, status) = ev_attempt env (w_tick w) target;
          w = tick (w\<lparr>w_attempts := w_attempts w + 1, w_err := err,
                      w_status := (if err = None then status else w_status w),
                      w_calls := idx # w_calls w\<rparr>);
          out = outcome_of (ev_ctx_err env (w_tick w)) (w_status w) err;
          w = tick (w\<lparr>w_breakers := ba_report api (w_breakers w) target (ev_clock env (w_tick w)) probe out\<rparr>)
      in (case err of
            None \<Rightarrow> w
          | Some e \<Rightarrow> (if as_target_config e then w\<lparr>w_attempts := w_attempts w - 1\<rparr> else w)))"

text \<open>The inner loop's decision to stop trying this target.\<close>

definition stop_retrying ::
  "'b breaker_api \<Rightarrow> env \<Rightarrow> walk_config \<Rightarrow> model_connection \<Rightarrow> bool \<Rightarrow> int \<Rightarrow> attempt_class \<Rightarrow>
   'b walk_state \<Rightarrow> bool" where
  "stop_retrying api env cfg target forced retries cl w \<longleftrightarrow>
     ev_ctx_err env (w_tick w) \<or> budget_spent (wc_deadline cfg) (ev_clock env (w_tick w)) \<or>
     \<not> ac_retry cl \<or> retries \<ge> wc_max_retries cfg \<or> forced \<or>
     ba_is_open api (w_breakers w) (c_id target) (ev_clock env (w_tick w))"

text \<open>A wait that would not fit in what is left of the budget is not taken.\<close>

definition wait_exceeds_budget :: "walk_config \<Rightarrow> time \<Rightarrow> duration \<Rightarrow> bool" where
  "wait_exceeds_budget cfg now wait \<longleftrightarrow>
     (case wc_deadline cfg of None \<Rightarrow> False | Some d \<Rightarrow> wait \<ge> d - now)"

text \<open>
  The retry loop on one target. \<open>Inl ()\<close> is a settled call; \<open>Inr cl\<close> is the class of the
  failure the loop ended with.
\<close>

function try_target ::
  "'b breaker_api \<Rightarrow> env \<Rightarrow> walk_config \<Rightarrow> nat \<Rightarrow> model_connection \<Rightarrow> probe_token \<Rightarrow> bool \<Rightarrow> int \<Rightarrow>
   'b walk_state \<Rightarrow> (unit + attempt_class) \<times> 'b walk_state" where
  "try_target api env cfg idx target probe forced retries w =
     (let w1 = run_attempt api env idx target probe w in
      case w_err w1 of
        None \<Rightarrow> (Inl (), w1)
      | Some e \<Rightarrow>
          (let cl = classify_attempt e;
               w2 = tick w1 in
           if stop_retrying api env cfg target forced retries cl w1 then (Inr cl, w2)
           else
             (let wait = retry_wait retries (ev_draw env (w_tick w2)) (ac_retry_after cl);
                  w3 = tick w2 in
              if wait_exceeds_budget cfg (ev_clock env (w_tick w2)) wait then (Inr cl, w3)
              else
                (let w4 = w3\<lparr>w_retry_metric := the (ac_reason cl) # w_retry_metric w3,
                             w_waits := wait # w_waits w3\<rparr>;
                     w5 = tick w4 in
                 if ev_sleep_err env (w_tick w4) then (Inr cl, w5)
                 else try_target api env cfg idx target probe forced (retries + 1) w5))))"
  by pat_completeness auto
termination
  by (relation "measure (\<lambda>(api, env, cfg, idx, target, probe, forced, retries, w).
        nat (wc_max_retries cfg - retries))")
     (auto simp: stop_retrying_def)

declare try_target.simps [simp del]

section \<open>The walk\<close>

text \<open>The body of the outer loop once a target is chosen.\<close>

definition try_and_classify ::
  "'b breaker_api \<Rightarrow> env \<Rightarrow> walk_config \<Rightarrow> nat \<Rightarrow> model_connection \<Rightarrow> probe_token \<Rightarrow> bool \<Rightarrow>
   upstream_reason option \<Rightarrow> 'b walk_state \<Rightarrow> (unit + attempt_class) \<times> 'b walk_state" where
  "try_and_classify api env cfg idx target probe forced fb w =
     try_target api env cfg idx target probe forced 0
       (w\<lparr>w_fallback_metric := (case fb of None \<Rightarrow> w_fallback_metric w | Some r \<Rightarrow> r # w_fallback_metric w),
          w_conn := idx\<rparr>)"

text \<open>
  \<open>walk\<close> goes over the targets from position \<open>i\<close>; \<open>fb\<close> is the pending fallback reason.
  The result says whether the call was settled. The forced retry of the primary happens
  at the last position only and always ends the walk.
\<close>

fun walk ::
  "'b breaker_api \<Rightarrow> env \<Rightarrow> walk_config \<Rightarrow> nat \<Rightarrow> model_connection list \<Rightarrow> upstream_reason option \<Rightarrow>
   'b walk_state \<Rightarrow> bool \<times> 'b walk_state" where
  "walk api env cfg i [] fb w = (False, w)"
| "walk api env cfg i (target # rest) fb w =
     (let ((ok, probe), b) = ba_allow api (w_breakers w) target (ev_clock env (w_tick w));
          w1 = tick (w\<lparr>w_breakers := b\<rparr>) in
      if \<not> ok \<and> (rest \<noteq> [] \<or> w_err w1 \<noteq> None) then walk api env cfg (Suc i) rest fb w1
      else if \<not> ok then
        (case try_and_classify api env cfg 0 (hd (wc_targets cfg)) 0 True fb w1 of
           (Inl _, w2) \<Rightarrow> (True, w2)
         | (Inr cl, w2) \<Rightarrow> (False, w2))
      else
        (case try_and_classify api env cfg i target probe False fb w1 of
           (Inl _, w2) \<Rightarrow> (True, w2)
         | (Inr cl, w2) \<Rightarrow>
             (let w3 = tick w2 in
              if rest = [] \<or> \<not> ac_fallback cl \<or> ev_ctx_err env (w_tick w2) \<or>
                 budget_spent (wc_deadline cfg) (ev_clock env (w_tick w2))
              then (False, w3)
              else walk api env cfg (Suc i) rest (ac_reason cl) w3)))"

section \<open>The answer\<close>

text \<open>\<open>providerError\<close>: the status and error an error is answered with.\<close>

definition mk_provider_error :: "int \<Rightarrow> bytes \<Rightarrow> bytes \<Rightarrow> provider_error" where
  "mk_provider_error status typ msg =
     \<lparr>pe_status = status, pe_type = typ, pe_code = [], pe_message = msg, pe_retry_after = 0,
      pe_upstream_retry_after = [], pe_upstream_status = 0, pe_not_sent = False,
      pe_retryable = False, pe_upstream_retry_delay = 0, pe_client_input = False,
      pe_upstream_body = []\<rparr>"

text \<open>The text of an error without a provider error in its chain (\<open>err.Error()\<close>).\<close>

fun error_text :: "go_error \<Rightarrow> bytes" where
  "error_text (OtherNode msg # ns) = msg"
| "error_text (DeadlineExceeded # ns) = ''context deadline exceeded''"
| "error_text (Canceled # ns) = ''context canceled''"
| "error_text (ProviderNode pe # ns) = ''upstream '' @ format_int (pe_status pe) @ '': '' @ pe_message pe"
| "error_text (TargetConfigNode # ns) = error_text ns"
| "error_text [] = []"

definition statusClientClosed :: int where "statusClientClosed = 499"
definition errClientClosed :: bytes where "errClientClosed = ''client closed request''"

definition provider_error_of :: "go_error \<Rightarrow> int \<times> provider_error" where
  "provider_error_of err =
     (case as_provider err of
        Some pe \<Rightarrow>
          (let pe = (if pe_status pe = 0 then pe\<lparr>pe_status := 502\<rparr> else pe) in (pe_status pe, pe))
      | None \<Rightarrow>
          (if Canceled \<in> set err
           then (statusClientClosed, mk_provider_error statusClientClosed ''client_closed'' errClientClosed)
           else (502, mk_provider_error 502 ''upstream_error'' (redact (error_text err)))))"

text \<open>
  The columns \<open>invoke\<close> leaves on the request row, and the error body it writes, if any.
\<close>

record invoke_result =
  ir_status :: int
  ir_error :: bytes
  ir_err_type :: bytes
  ir_attempt :: int
  ir_model_name :: bytes
  ir_fallback_from :: "int option"
  ir_written :: "provider_error option"

text \<open>\<open>failInvoke\<close>, as (status, error, errType, body written).\<close>

definition fail_invoke ::
  "bool \<Rightarrow> go_error \<Rightarrow> int \<times> bytes \<times> bytes \<times> provider_error option" where
  "fail_invoke ctx_err err =
     (if ctx_err then (statusClientClosed, errClientClosed, [], None)
      else (let (status, pe) = provider_error_of err
            in (status, pe_message pe, pe_type pe, Some pe)))"

definition deadline_of :: "duration \<Rightarrow> time \<Rightarrow> time option" where
  "deadline_of upstream_timeout now =
     (if upstream_timeout > 0 then Some (now + upstream_timeout) else None)"

definition start_walk :: "'b \<Rightarrow> 'b walk_state" where
  "start_walk b = \<lparr>w_tick = 1, w_breakers = b, w_attempts = 0, w_conn = 0, w_err = None,
     w_status = 0, w_calls = [], w_waits = [], w_retry_metric = [], w_fallback_metric = []\<rparr>"

definition invoke_walk ::
  "'b breaker_api \<Rightarrow> env \<Rightarrow> int \<Rightarrow> duration \<Rightarrow> model_connection list \<Rightarrow> 'b \<Rightarrow>
   bool \<times> 'b walk_state" where
  "invoke_walk api env max_retries upstream_timeout targets b =
     walk api env
       \<lparr>wc_max_retries = max_retries, wc_deadline = deadline_of upstream_timeout (ev_clock env 0),
        wc_targets = targets\<rparr>
       0 targets None (start_walk b)"

definition invoke ::
  "'b breaker_api \<Rightarrow> env \<Rightarrow> int \<Rightarrow> duration \<Rightarrow> model_connection list \<Rightarrow> 'b \<Rightarrow>
   invoke_result \<times> 'b" where
  "invoke api env max_retries upstream_timeout targets b =
     (if targets = [] then
        (let msg = ''no upstream target for the request''
         in (\<lparr>ir_status = 500, ir_error = msg, ir_err_type = ''server_error'', ir_attempt = 0,
              ir_model_name = [], ir_fallback_from = None,
              ir_written = Some (mk_provider_error 500 ''server_error'' msg)\<rparr>, b))
      else
        (let (settled, w) = invoke_walk api env max_retries upstream_timeout targets b;
             (status, msg, typ, body) =
               (if settled then (w_status w, [], [], None)
                else fail_invoke (ev_ctx_err env (w_tick w)) (case w_err w of None \<Rightarrow> [] | Some e \<Rightarrow> e))
         in (\<lparr>ir_status = status, ir_error = msg, ir_err_type = typ, ir_attempt = w_attempts w,
              ir_model_name = c_model_name (targets ! w_conn w),
              ir_fallback_from = (if w_conn w \<noteq> 0 then Some (c_id (hd targets)) else None),
              ir_written = body\<rparr>, w_breakers w)))"

text \<open>The gateway's own breakers behind the interface.\<close>

definition real_breakers :: "breakers option breaker_api" where
  "real_breakers = \<lparr>ba_allow = allow, ba_report = report, ba_is_open = is_open\<rparr>"

section \<open>What one attempt changes\<close>

lemma tick_sel [simp]:
  "w_breakers (tick w) = w_breakers w" "w_attempts (tick w) = w_attempts w"
  "w_conn (tick w) = w_conn w" "w_err (tick w) = w_err w" "w_status (tick w) = w_status w"
  "w_calls (tick w) = w_calls w" "w_waits (tick w) = w_waits w"
  "w_retry_metric (tick w) = w_retry_metric w" "w_fallback_metric (tick w) = w_fallback_metric w"
  by (simp_all add: tick_def)

lemma run_attempt_sel [simp]:
  "w_calls (run_attempt api env idx target probe w) = idx # w_calls w"
  "w_conn (run_attempt api env idx target probe w) = w_conn w"
  "w_waits (run_attempt api env idx target probe w) = w_waits w"
  "w_retry_metric (run_attempt api env idx target probe w) = w_retry_metric w"
  "w_fallback_metric (run_attempt api env idx target probe w) = w_fallback_metric w"
  "w_err (run_attempt api env idx target probe w) = fst (ev_attempt env (w_tick w) target)"
  by (simp_all add: run_attempt_def Let_def split_def split: option.splits)

lemma run_attempt_attempts:
  "w_attempts (run_attempt api env idx target probe w) =
     w_attempts w + (case fst (ev_attempt env (w_tick w) target) of
        None \<Rightarrow> 1 | Some e \<Rightarrow> if as_target_config e then 0 else 1)"
  by (simp add: run_attempt_def Let_def split_def split: option.splits)

lemma run_attempt_breakers:
  "\<exists>t p out. w_breakers (run_attempt api env idx target probe w) =
     ba_report api (w_breakers w) target t p out"
  by (auto simp: run_attempt_def Let_def split_def split: option.splits)

section \<open>The retry loop on one target\<close>

text \<open>What a run of the loop adds: \<open>Suc n\<close> attempts at this target and nothing else.\<close>

definition target_run ::
  "walk_config \<Rightarrow> nat \<Rightarrow> bool \<Rightarrow> int \<Rightarrow> 'b walk_state \<Rightarrow> (unit + attempt_class) \<Rightarrow> 'b walk_state \<Rightarrow> nat \<Rightarrow> bool" where
  "target_run cfg idx forced retries w r w' n \<longleftrightarrow>
     w_calls w' = replicate (Suc n) idx @ w_calls w \<and>
     int n \<le> max 0 (wc_max_retries cfg - retries) \<and> (forced \<longrightarrow> n = 0) \<and>
     w_conn w' = w_conn w \<and> w_fallback_metric w' = w_fallback_metric w \<and>
     w_attempts w \<le> w_attempts w' \<and> w_attempts w' \<le> w_attempts w + int (Suc n) \<and>
     (case r of
        Inl _ \<Rightarrow> w_err w' = None
      | Inr cl \<Rightarrow> \<exists>e. w_err w' = Some e \<and> cl = classify_attempt e)"

lemma target_run_first:
  assumes "w_calls w' = idx # w_calls w" "w_conn w' = w_conn w"
    "w_fallback_metric w' = w_fallback_metric w"
    "w_attempts w \<le> w_attempts w'" "w_attempts w' \<le> w_attempts w + 1"
    "case r of Inl _ \<Rightarrow> w_err w' = None
      | Inr cl \<Rightarrow> \<exists>e. w_err w' = Some e \<and> cl = classify_attempt e"
  shows "target_run cfg idx forced retries w r w' 0"
  using assms by (simp add: target_run_def)

lemma target_run_again:
  assumes "target_run cfg idx forced (retries + 1) w1 r w' n"
    "w_calls w1 = idx # w_calls w" "w_conn w1 = w_conn w"
    "w_fallback_metric w1 = w_fallback_metric w"
    "w_attempts w \<le> w_attempts w1" "w_attempts w1 \<le> w_attempts w + 1"
    "retries < wc_max_retries cfg" "\<not> forced"
  shows "target_run cfg idx forced retries w r w' (Suc n)"
  using assms by (auto simp: target_run_def replicate_app_Cons_same)

lemma attempts_step:
  "w_attempts w \<le> w_attempts (run_attempt api env idx target probe w)"
  "w_attempts (run_attempt api env idx target probe w) \<le> w_attempts w + 1"
  by (auto simp: run_attempt_attempts split: option.splits)

lemma try_target_run:
  "try_target api env cfg idx target probe forced retries w = (r, w') \<Longrightarrow>
   \<exists>n. target_run cfg idx forced retries w r w' n"
proof (induction api env cfg idx target probe forced retries w rule: try_target.induct)
  case (1 api env cfg idx target probe forced retries w)
  let ?w1 = "run_attempt api env idx target probe w"
  note steps = attempts_step [where w = w and api = api and env = env and idx = idx and target = target and probe = probe]
  show ?case
  proof (cases "w_err ?w1")
    case None
    with 1(2) have "r = Inl ()" "w' = ?w1" by (auto simp: try_target.simps Let_def)
    then show ?thesis using None steps by (intro exI [of _ 0] target_run_first) auto
  next
    case (Some e)
    let ?cl = "classify_attempt e"
    let ?w2 = "tick ?w1"
    let ?wait = "retry_wait retries (ev_draw env (w_tick ?w2)) (ac_retry_after ?cl)"
    let ?w4 = "(tick ?w2)\<lparr>w_retry_metric := the (ac_reason ?cl) # w_retry_metric (tick ?w2),
         w_waits := ?wait # w_waits (tick ?w2)\<rparr>"
    note eq = 1(2) [unfolded try_target.simps [of api env cfg idx target probe forced retries w] Let_def Some option.case]
    show ?thesis
    proof (cases "r = Inr ?cl \<and> w_calls w' = w_calls ?w1 \<and> w_conn w' = w_conn ?w1 \<and>
        w_fallback_metric w' = w_fallback_metric ?w1 \<and> w_attempts w' = w_attempts ?w1 \<and> w_err w' = Some e")
      case True
      then show ?thesis using Some steps by (intro exI [of _ 0] target_run_first) auto
    next
      case False
      then have stop: "\<not> stop_retrying api env cfg target forced retries ?cl ?w1"
        and fits: "\<not> wait_exceeds_budget cfg (ev_clock env (w_tick ?w2)) ?wait"
        and slept: "\<not> ev_sleep_err env (w_tick ?w4)"
        and rec: "try_target api env cfg idx target probe forced (retries + 1) (tick ?w4) = (r, w')"
        using eq Some by (auto split: if_splits)
      from 1(1) [OF refl Some refl refl stop refl refl fits refl refl slept rec]
      obtain n where n: "target_run cfg idx forced (retries + 1) (tick ?w4) r w' n" by blast
      show ?thesis
        by (rule exI, rule target_run_again [OF n])
          (use steps stop in \<open>auto simp: stop_retrying_def\<close>)
    qed
  qed
qed

lemma try_and_classify_run:
  assumes "try_and_classify api env cfg idx target probe forced fb w = (r, w')"
  shows "\<exists>n. w_calls w' = replicate (Suc n) idx @ w_calls w \<and> int n \<le> max 0 (wc_max_retries cfg) \<and>
     (forced \<longrightarrow> n = 0) \<and> w_conn w' = idx \<and>
     w_attempts w \<le> w_attempts w' \<and> w_attempts w' \<le> w_attempts w + int (Suc n) \<and>
     (case r of Inl _ \<Rightarrow> w_err w' = None
      | Inr cl \<Rightarrow> \<exists>e. w_err w' = Some e \<and> cl = classify_attempt e)"
  using try_target_run [OF assms [unfolded try_and_classify_def]]
  by (auto simp: target_run_def)

section \<open>The walk: attempts, order, error\<close>

text \<open>
  What holds of the walk between two targets: at position \<open>i\<close> the attempts so far went
  to earlier targets in order, each at most \<open>MaxRetries + 1\<close> times, and there is an error
  exactly when there was an attempt.
\<close>

definition walk_inv :: "walk_config \<Rightarrow> nat \<Rightarrow> 'b walk_state \<Rightarrow> bool" where
  "walk_inv cfg i w \<longleftrightarrow>
     sorted (rev (w_calls w)) \<and> (\<forall>j \<in> set (w_calls w). j < i) \<and>
     (\<forall>j. int (count_list (w_calls w) j) \<le> max 0 (wc_max_retries cfg) + 1) \<and>
     (w_err w = None \<longleftrightarrow> w_calls w = []) \<and>
     (w_calls w \<noteq> [] \<longrightarrow> w_conn w = hd (w_calls w)) \<and>
     0 \<le> w_attempts w \<and> w_attempts w \<le> int (length (w_calls w))"

text \<open>What holds when it is over.\<close>

definition walk_done :: "walk_config \<Rightarrow> nat \<Rightarrow> bool \<Rightarrow> 'b walk_state \<Rightarrow> bool" where
  "walk_done cfg n settled w \<longleftrightarrow>
     sorted (rev (w_calls w)) \<and> (\<forall>j \<in> set (w_calls w). j < n) \<and>
     (\<forall>j. int (count_list (w_calls w) j) \<le> max 0 (wc_max_retries cfg) + 1) \<and>
     w_calls w \<noteq> [] \<and> w_conn w = hd (w_calls w) \<and> (settled \<longleftrightarrow> w_err w = None) \<and>
     0 \<le> w_attempts w \<and> w_attempts w \<le> int (length (w_calls w))"

lemma count_list_replicate: "count_list (replicate n x) y = (if x = y then n else 0)"
  by (induction n) auto

lemma sorted_rev_replicate:
  "sorted (rev xs) \<Longrightarrow> (\<And>x. x \<in> set xs \<Longrightarrow> x \<le> (y::nat)) \<Longrightarrow> sorted (rev (replicate n y @ xs))"
  by (auto simp: sorted_append)

lemma walk_inv_step:
  assumes inv: "walk_inv cfg i w"
    and run: "w_calls w' = replicate (Suc n) i @ w_calls w" "int n \<le> max 0 (wc_max_retries cfg)"
      "w_conn w' = i" "w_attempts w \<le> w_attempts w'" "w_attempts w' \<le> w_attempts w + int (Suc n)"
  shows "sorted (rev (w_calls w'))" "\<forall>j \<in> set (w_calls w'). j < Suc i"
    "\<forall>j. int (count_list (w_calls w') j) \<le> max 0 (wc_max_retries cfg) + 1"
    "w_calls w' \<noteq> []" "w_conn w' = hd (w_calls w')" "0 \<le> w_attempts w'"
    "w_attempts w' \<le> int (length (w_calls w'))"
proof -
  have below: "j < i" if "j \<in> set (w_calls w)" for j using inv that by (auto simp: walk_inv_def)
  show "sorted (rev (w_calls w'))"
    unfolding run(1) by (rule sorted_rev_replicate) (use inv below less_imp_le in \<open>auto simp: walk_inv_def\<close>)
  show "\<forall>j \<in> set (w_calls w'). j < Suc i" unfolding run(1) using below by (auto intro: less_SucI)
  have "count_list (w_calls w) i = 0" using below by (auto simp: count_list_0_iff)
  then show "\<forall>j. int (count_list (w_calls w') j) \<le> max 0 (wc_max_retries cfg) + 1"
    unfolding run(1) count_list_append count_list_replicate using inv run(2) by (auto simp: walk_inv_def)
  show "w_calls w' \<noteq> []" "w_conn w' = hd (w_calls w')" using run(1,3) by auto
  show "0 \<le> w_attempts w'" "w_attempts w' \<le> int (length (w_calls w'))"
    using inv run(1,4,5) by (auto simp: walk_inv_def)
qed

lemma walk_inv_mono:
  "walk_inv cfg i w \<Longrightarrow> w_calls w' = w_calls w \<Longrightarrow> w_conn w' = w_conn w \<Longrightarrow> w_err w' = w_err w \<Longrightarrow>
   w_attempts w' = w_attempts w \<Longrightarrow> walk_inv cfg (Suc i) w'"
  by (auto simp: walk_inv_def less_SucI)

lemma walk_inv_start: "walk_inv cfg 0 (start_walk b)"
  by (simp add: walk_inv_def start_walk_def)

lemma walk_result:
  "walk api env cfg i ts fb w = (settled, w') \<Longrightarrow> walk_inv cfg i w \<Longrightarrow>
   ts \<noteq> [] \<or> w_err w \<noteq> None \<Longrightarrow> walk_done cfg (i + length ts) settled w'"
proof (induction ts arbitrary: i fb w)
  case Nil
  then show ?case by (auto simp: walk_done_def walk_inv_def)
next
  case (Cons target rest)
  obtain ok probe b where al:
    "ba_allow api (w_breakers w) target (ev_clock env (w_tick w)) = ((ok, probe), b)"
    by (metis prod.exhaust)
  let ?w1 = "tick (w\<lparr>w_breakers := b\<rparr>)"
  have inv1: "walk_inv cfg (Suc i) ?w1" by (rule walk_inv_mono [OF Cons.prems(2)]) simp_all
  have inv0: "walk_inv cfg i ?w1" using Cons.prems(2) by (simp add: walk_inv_def)
  note eq = Cons.prems(1) [unfolded walk.simps al Let_def prod.case]
  show ?case
  proof (cases ok)
    case False
    show ?thesis
    proof (cases "rest \<noteq> [] \<or> w_err ?w1 \<noteq> None")
      case True
      with False eq have "walk api env cfg (Suc i) rest fb ?w1 = (settled, w')" by simp
      with Cons.IH inv1 True show ?thesis by fastforce
    next
      case skip: False
      let ?run = "try_and_classify api env cfg 0 (hd (wc_targets cfg)) 0 True fb ?w1"
      have calls: "w_calls ?w1 = []" using inv0 skip by (auto simp: walk_inv_def)
      obtain r w2 where run: "?run = (r, w2)" by (metis prod.exhaust)
      from try_and_classify_run [OF run] calls have w2:
        "w_calls w2 = [0]" "w_conn w2 = 0" "w_attempts ?w1 \<le> w_attempts w2"
        "w_attempts w2 \<le> w_attempts ?w1 + 1"
        "case r of Inl _ \<Rightarrow> w_err w2 = None
          | Inr cl \<Rightarrow> \<exists>e. w_err w2 = Some e \<and> cl = classify_attempt e" by auto
      have "w' = w2 \<and> (settled \<longleftrightarrow> r = Inl ())"
        using eq False skip run by (auto split: sum.splits)
      moreover have "w_attempts ?w1 = 0" using inv0 calls by (auto simp: walk_inv_def)
      ultimately show ?thesis using w2 by (auto simp: walk_done_def split: sum.splits)
    qed
  next
    case True
    obtain r w2 where run: "try_and_classify api env cfg i target probe False fb ?w1 = (r, w2)"
      by (metis prod.exhaust)
    from try_and_classify_run [OF run] obtain n where n:
      "w_calls w2 = replicate (Suc n) i @ w_calls ?w1" "int n \<le> max 0 (wc_max_retries cfg)"
      "w_conn w2 = i" "w_attempts ?w1 \<le> w_attempts w2" "w_attempts w2 \<le> w_attempts ?w1 + int (Suc n)"
      "case r of Inl _ \<Rightarrow> w_err w2 = None
        | Inr cl \<Rightarrow> \<exists>e. w_err w2 = Some e \<and> cl = classify_attempt e" by blast
    note st = walk_inv_step [OF inv0 n(1-5)]
    have le: "j < i + length (target # rest)" if "j < Suc i" for j using that by simp
    show ?thesis
    proof (cases r)
      case (Inl u)
      with eq True run have "settled" "w' = w2" by auto
      then show ?thesis using st n(6) Inl le by (auto simp: walk_done_def)
    next
      case (Inr cl)
      show ?thesis
      proof (cases "rest = [] \<or> \<not> ac_fallback cl \<or> ev_ctx_err env (w_tick w2) \<or>
          budget_spent (wc_deadline cfg) (ev_clock env (w_tick w2))")
        case True
        with eq \<open>ok\<close> run Inr have "\<not> settled" "w' = tick w2" by auto
        then show ?thesis using st n(6) Inr le by (auto simp: walk_done_def)
      next
        case False
        with eq \<open>ok\<close> run Inr
        have rec: "walk api env cfg (Suc i) rest (ac_reason cl) (tick w2) = (settled, w')" by simp
        have "walk_inv cfg (Suc i) (tick w2)"
          using st n(6) Inr by (auto simp: walk_inv_def)
        from Cons.IH [OF rec this] False show ?thesis by auto
      qed
    qed
  qed
qed

lemma invoke_walk_done:
  "invoke_walk api env mr ut targets b = (settled, w) \<Longrightarrow> targets \<noteq> [] \<Longrightarrow>
   walk_done \<lparr>wc_max_retries = mr, wc_deadline = deadline_of ut (ev_clock env 0), wc_targets = targets\<rparr>
     (length targets) settled w"
  unfolding invoke_walk_def
  by (drule walk_result) (auto intro: walk_inv_start)

text \<open>A sorted list of positions below \<open>n\<close>, each at most \<open>m\<close> times, has at most \<open>n * m\<close>.\<close>

lemma length_count_bound:
  assumes "set xs \<subseteq> {..<n}" "\<And>j. count_list xs j \<le> m"
  shows "length xs \<le> n * (m::nat)"
proof -
  have "length xs = (\<Sum>j\<in>set xs. count_list xs j)" by (simp add: sum_count_set)
  also have "\<dots> \<le> (\<Sum>j\<in>set xs. m)" by (rule sum_mono) (rule assms(2))
  also have "\<dots> = card (set xs) * m" by simp
  also have "\<dots> \<le> n * m" using card_mono [OF _ assms(1)] by simp
  finally show ?thesis .
qed

lemma walk_done_calls_bound:
  assumes "walk_done cfg n settled w"
  shows "int (length (w_calls w)) \<le> int n * (max 0 (wc_max_retries cfg) + 1)"
proof -
  let ?m = "nat (max 0 (wc_max_retries cfg) + 1)"
  have "length (w_calls w) \<le> n * ?m"
  proof (rule length_count_bound)
    show "set (w_calls w) \<subseteq> {..<n}" using assms by (auto simp: walk_done_def)
    show "count_list (w_calls w) j \<le> ?m" for j
      using assms by (auto simp: walk_done_def le_nat_iff)
  qed
  then have "int (length (w_calls w)) \<le> int (n * ?m)" by (simp only: of_nat_le_iff)
  also have "\<dots> = int n * (max 0 (wc_max_retries cfg) + 1)" by simp
  finally show ?thesis .
qed

section \<open>Waits\<close>

text \<open>Every wait taken is short and every retry counted has a retryable reason.\<close>

definition waits_ok :: "'b walk_state \<Rightarrow> bool" where
  "waits_ok w \<longleftrightarrow>
     (\<forall>d \<in> set (w_waits w). 0 \<le> d \<and> d \<le> retryMaxDelay) \<and>
     set (w_retry_metric w) \<subseteq> {Dial, RateLimited, Unavailable} \<and>
     length (w_retry_metric w) = length (w_waits w)"

definition draws_ok :: "env \<Rightarrow> bool" where
  "draws_ok env \<longleftrightarrow> (\<forall>k. 0 \<le> ev_draw env k \<and> ev_draw env k < 1)"

lemma waits_ok_same:
  "waits_ok w \<Longrightarrow> w_waits w' = w_waits w \<Longrightarrow> w_retry_metric w' = w_retry_metric w \<Longrightarrow> waits_ok w'"
  by (simp add: waits_ok_def)

lemma retry_wait_bounds:
  assumes "ac_retry (classify_attempt e)" "0 \<le> rnd" "rnd < 1"
  shows "0 \<le> retry_wait n rnd (ac_retry_after (classify_attempt e))"
    and "retry_wait n rnd (ac_retry_after (classify_attempt e)) \<le> retryMaxDelay"
  using backoff_delay_bounds(1,2) [OF assms(2,3), of n] classify_retry_reason [OF assms(1)]
  by (auto simp: retry_wait_def)

lemma waits_ok_retry:
  assumes "waits_ok w" "ac_retry (classify_attempt e)" "draws_ok env"
    and "w_waits w' = retry_wait n (ev_draw env k) (ac_retry_after (classify_attempt e)) # w_waits w"
    and "w_retry_metric w' = the (ac_reason (classify_attempt e)) # w_retry_metric w"
  shows "waits_ok w'"
proof -
  have rnd: "0 \<le> ev_draw env k" "ev_draw env k < 1" using assms(3) by (auto simp: draws_ok_def)
  have "the (ac_reason (classify_attempt e)) \<in> {Dial, RateLimited, Unavailable}"
    using classify_retry_reason [OF assms(2)] by auto
  with assms(1,4,5) retry_wait_bounds [OF assms(2) rnd] show ?thesis by (simp add: waits_ok_def)
qed

lemma try_target_waits:
  "try_target api env cfg idx target probe forced retries w = (r, w') \<Longrightarrow>
   draws_ok env \<Longrightarrow> waits_ok w \<Longrightarrow> waits_ok w'"
proof (induction api env cfg idx target probe forced retries w rule: try_target.induct)
  case (1 api env cfg idx target probe forced retries w)
  let ?w1 = "run_attempt api env idx target probe w"
  have ok1: "waits_ok ?w1" by (rule waits_ok_same [OF 1(4)]) simp_all
  note eq = 1(2) [unfolded try_target.simps [of api env cfg idx target probe forced retries w] Let_def]
  show ?case
  proof (cases "waits_ok w'")
    case False
    with eq ok1 obtain e where e: "w_err ?w1 = Some e"
      by (cases "w_err ?w1") auto
    let ?cl = "classify_attempt e" and ?w2 = "tick ?w1"
    let ?wait = "retry_wait retries (ev_draw env (w_tick ?w2)) (ac_retry_after ?cl)"
    let ?w4 = "(tick ?w2)\<lparr>w_retry_metric := the (ac_reason ?cl) # w_retry_metric (tick ?w2),
         w_waits := ?wait # w_waits (tick ?w2)\<rparr>"
    have same: "waits_ok ?w2" "waits_ok (tick ?w2)" using ok1 by (simp_all add: waits_ok_def)
    have stop: "\<not> stop_retrying api env cfg target forced retries ?cl ?w1"
      using eq e False same by (auto split: if_splits)
    then have retry: "ac_retry ?cl" by (simp add: stop_retrying_def)
    have ok4: "waits_ok ?w4" by (rule waits_ok_retry [OF ok1 retry 1(3)]) simp_all
    then have ok5: "waits_ok (tick ?w4)" by (simp add: waits_ok_def)
    have fits: "\<not> wait_exceeds_budget cfg (ev_clock env (w_tick ?w2)) ?wait"
      using eq e False same stop by (auto split: if_splits)
    have slept: "\<not> ev_sleep_err env (w_tick ?w4)"
      using eq e False ok5 stop fits by (auto split: if_splits)
    have rec: "try_target api env cfg idx target probe forced (retries + 1) (tick ?w4) = (r, w')"
      using eq e stop fits slept by auto
    from 1(1) [OF refl e refl refl stop refl refl fits refl refl slept rec 1(3) ok5] show ?thesis .
  qed
qed

lemma try_and_classify_waits:
  "try_and_classify api env cfg idx target probe forced fb w = (r, w') \<Longrightarrow>
   draws_ok env \<Longrightarrow> waits_ok w \<Longrightarrow> waits_ok w'"
  unfolding try_and_classify_def
  by (erule try_target_waits) (auto simp: waits_ok_def)

lemma walk_waits:
  "walk api env cfg i ts fb w = (settled, w') \<Longrightarrow> draws_ok env \<Longrightarrow> waits_ok w \<Longrightarrow> waits_ok w'"
proof (induction ts arbitrary: i fb w)
  case (Cons target rest)
  obtain ok probe b where al:
    "ba_allow api (w_breakers w) target (ev_clock env (w_tick w)) = ((ok, probe), b)"
    by (metis prod.exhaust)
  let ?w1 = "tick (w\<lparr>w_breakers := b\<rparr>)"
  have ok1: "waits_ok ?w1" by (rule waits_ok_same [OF Cons.prems(3)]) simp_all
  note eq = Cons.prems(1) [unfolded walk.simps al Let_def prod.case]
  have tick: "waits_ok w2 \<Longrightarrow> waits_ok (tick w2)" for w2 :: "'a walk_state"
    by (simp add: waits_ok_def)
  note ta = try_and_classify_waits [OF _ Cons.prems(2) ok1]
  show ?case
    using eq Cons.IH [OF _ Cons.prems(2)] ok1 ta tick
    by (auto split: if_splits prod.splits sum.splits)
qed simp

section \<open>The breakers' contract\<close>

text \<open>
  What the walk may rely on: an open breaker refuses, a refusal does not change which
  breakers are open, and a reported success lets the next call through without a probe.
\<close>

locale breaker_contract =
  fixes api :: "'b breaker_api"
  assumes open_refuses: "ba_is_open api b (c_id c) t \<Longrightarrow> fst (ba_allow api b c t) = (False, 0)"
    and refusal_keeps_open:
      "\<not> fst (fst (ba_allow api b c t)) \<Longrightarrow>
       ba_is_open api (snd (ba_allow api b c t)) i t' = ba_is_open api b i t'"
    and success_closes:
      "fst (ba_allow api (ba_report api b c t p Success) c t') = (True, 0)"
begin

text \<open>
  With every target open at every reading of the clock, exactly the primary is called,
  once, whatever it answers.
\<close>

lemma walk_all_open:
  assumes "\<forall>c \<in> set ts. \<forall>k. ba_is_open api (w_breakers w) (c_id c) (ev_clock env k)"
    and "w_err w = None" and "ts \<noteq> []" and "w_calls w = []"
    and "walk api env cfg i ts fb w = (settled, w')"
  shows "w_calls w' = [0] \<and> w_conn w' = 0"
  using assms
proof (induction ts arbitrary: i fb w)
  case (Cons c ts)
  obtain ok probe b where al:
    "ba_allow api (w_breakers w) c (ev_clock env (w_tick w)) = ((ok, probe), b)"
    by (metis prod.exhaust)
  have refused: "\<not> ok"
    using open_refuses [of "w_breakers w" c "ev_clock env (w_tick w)"] Cons.prems(1) al by auto
  let ?w1 = "tick (w\<lparr>w_breakers := b\<rparr>)"
  have opens: "ba_is_open api b j t = ba_is_open api (w_breakers w) j t" for j t
    using refusal_keeps_open [of "w_breakers w" c "ev_clock env (w_tick w)" j t] al refused by simp
  note eq = Cons.prems(5) [unfolded walk.simps al Let_def prod.case]
  show ?case
  proof (cases "ts = []")
    case False
    with eq refused have "walk api env cfg (Suc i) ts fb ?w1 = (settled, w')" by simp
    with Cons.IH [of ?w1] Cons.prems opens False show ?thesis by simp
  next
    case True
    obtain r w2 where run:
      "try_and_classify api env cfg 0 (hd (wc_targets cfg)) 0 True fb ?w1 = (r, w2)"
      by (metis prod.exhaust)
    with eq refused True Cons.prems(2) have "w' = w2" by (auto split: sum.splits)
    with try_and_classify_run [OF run] Cons.prems(4) show ?thesis by auto
  qed
qed simp

text \<open>A target that reports success can be called again at once.\<close>

lemma run_attempt_success_reopens:
  assumes "w_err (run_attempt api env idx target probe w) = None"
    and "\<not> ev_ctx_err env (Suc (w_tick w))"
    and "w_status (run_attempt api env idx target probe w) \<notin> {499, 502}"
  shows "fst (ba_allow api (w_breakers (run_attempt api env idx target probe w)) target t) = (True, 0)"
proof -
  have err: "fst (ev_attempt env (w_tick w) target) = None" using assms(1) by simp
  have "w_status (run_attempt api env idx target probe w) = snd (ev_attempt env (w_tick w) target)"
    using err by (simp add: run_attempt_def Let_def split_def)
  then have "\<exists>b t' p. w_breakers (run_attempt api env idx target probe w) =
      ba_report api b target t' p Success"
    using err assms(2,3) by (auto simp: run_attempt_def outcome_of_def tick_def Let_def split_def)
  then show ?thesis using success_closes by fastforce
qed

end

lemma real_is_open_refuses:
  assumes "is_open bo (c_id c) t"
  shows "fst (allow bo c t) = (False, 0)"
proof -
  from assms obtain b br where b: "bo = Some b" "bs_threshold b > 0" "bs_m b (c_id c) = Some br"
    "breaker_phase b br t = BreakerOpen"
    by (auto simp: is_open_def enabled_def split: option.splits if_splits)
  then have "breaker_phase b (get_breaker b c t) t = BreakerOpen"
    by (simp add: get_breaker_def)
  with b show ?thesis by (simp add: allow_enabled allow_one_def)
qed

lemma real_refusal_keeps_open:
  assumes "\<not> fst (fst (allow bo c t))"
  shows "is_open (snd (allow bo c t)) i t' = is_open bo i t'"
proof -
  from assms obtain b where b: "bo = Some b" "bs_threshold b > 0"
    by (auto simp: allow_def enabled_def split: option.splits if_splits)
  with assms have one: "allow_one b (get_breaker b c t) t = ((False, 0), get_breaker b c t)"
    and op: "br_open (get_breaker b c t)"
    by (auto simp: allow_enabled allow_one_def breaker_phase_def Let_def
        split: if_splits breaker_state.splits)
  from op obtain br where br: "bs_m b (c_id c) = Some br"
    by (auto simp: get_breaker_def zero_breaker_def split: option.splits)
  with b one show ?thesis
    by (simp add: allow_enabled is_open_def enabled_def get_breaker_def split: option.split)
qed

lemma real_success_closes:
  "fst (allow (report bo c t p Success) c t') = (True, 0)"
proof (cases "enabled bo")
  case True
  then obtain b where "bo = Some b" "bs_threshold b > 0" using enabled_Some by blast
  then show ?thesis
    by (simp add: report_enabled allow_enabled allow_one_def report_one_def breaker_phase_def
        get_breaker_def Let_def)
qed (auto simp: allow_def report_def split: option.splits)

interpretation breakers: breaker_contract real_breakers
  by unfold_locales
    (simp_all add: real_breakers_def real_is_open_refuses real_refusal_keeps_open real_success_closes)

section \<open>Properties\<close>

text \<open>C3: Whatever the upstreams, the clock and the breakers do, a walk over \<open>n\<close> targets makes at least one and
  at most \<open>n * (MaxRetries + 1)\<close> upstream calls, none of a target more than \<open>MaxRetries + 1\<close>, never returns to an
  earlier target, ends at the target last called, and is settled exactly when that call left no error.\<close>

theorem walk_bounded:
  assumes "targets \<noteq> []" "invoke_walk api env max_retries timeout targets b = (settled, w)"
  shows "w_calls w \<noteq> [] \<and> sorted (rev (w_calls w)) \<and> w_conn w = hd (w_calls w)
    \<and> (\<forall>j. int (count_list (w_calls w) j) \<le> max 0 max_retries + 1)
    \<and> int (length (w_calls w)) \<le> int (length targets) * (max 0 max_retries + 1)
    \<and> (settled \<longleftrightarrow> w_err w = None)"
  using invoke_walk_done [OF assms(2,1)] walk_done_calls_bound [OF invoke_walk_done [OF assms(2,1)]]
  by (simp add: walk_done_def)

definition demo_env :: env where
  "demo_env = \<lparr>ev_clock = (\<lambda>k. int k * millisecond), ev_ctx_err = (\<lambda>_. False),
     ev_attempt = (\<lambda>_ c. if c_id c = 1 then (Some busy_upstream, 0) else (None, 200)),
     ev_draw = (\<lambda>_. 1/2), ev_sleep_err = (\<lambda>_. False)\<rparr>"

definition demo_walk :: "bool \<times> breakers option walk_state" where
  "demo_walk = invoke_walk real_breakers demo_env 1 (30 * second)
     [demo_connection 1 ''a'' ''gpt-4o'', demo_connection 2 ''b'' ''claude''] None"

lemma demo_walk_result: "fst demo_walk" "w_calls (snd demo_walk) = [1, 0, 0]" "w_waits (snd demo_walk) = [200 * millisecond]"
proof -
  have "busy_upstream \<noteq> []" "as_target_config busy_upstream = False"
    by (simp_all add: busy_upstream_def as_target_config_def)
  moreover have "classify_attempt busy_upstream =
      \<lparr>ac_reason = Some RateLimited, ac_retry = True, ac_fallback = True, ac_retry_after = 200 * millisecond\<rparr>"
    by (simp add: busy_upstream_def classify_attempt_def as_target_config_def with_retry_after_def
        fallback_class_def retryMaxDelay_def Let_def)
  moreover have "go_trunc 125000000 = 125000000" by (simp add: go_trunc_def)
  ultimately have "fst demo_walk \<and> w_calls (snd demo_walk) = [1, 0, 0] \<and> w_waits (snd demo_walk) = [200 * millisecond]"
    by (simp add: demo_walk_def invoke_walk_def start_walk_def deadline_of_def demo_env_def real_breakers_def
        try_and_classify_def try_target.simps run_attempt_def tick_def stop_retrying_def budget_spent_def
        wait_exceeds_budget_def retry_wait_def backoff_delay_def retryBaseDelay_def retryMaxDelay_def
        allow_def report_def is_open_def demo_connection_def Let_def)
  then show "fst demo_walk" "w_calls (snd demo_walk) = [1, 0, 0]" "w_waits (snd demo_walk) = [200 * millisecond]"
    by blast+
qed

theorem walk_bounded_witness:
  "sorted (rev (w_calls (snd demo_walk))) \<and> int (length (w_calls (snd demo_walk))) \<le> 2 * (max 0 1 + 1)
    \<and> (fst demo_walk \<longleftrightarrow> w_err (snd demo_walk) = None)"
  using walk_bounded [of "[demo_connection 1 ''a'' ''gpt-4o'', demo_connection 2 ''b'' ''claude'']"
      real_breakers demo_env 1 "30 * second" None "fst demo_walk" "snd demo_walk"]
  by (simp add: demo_walk_def)

text \<open>Every wait of a walk is between zero and the longest backoff, and a retry is only counted for a dial
  failure, a rate limit or an unavailable upstream.\<close>

theorem walk_waits_bounded:
  assumes "draws_ok env" "invoke_walk api env max_retries timeout targets b = (settled, w)"
  shows "(\<forall>d \<in> set (w_waits w). 0 \<le> d \<and> d \<le> retryMaxDelay)
    \<and> set (w_retry_metric w) \<subseteq> {Dial, RateLimited, Unavailable} \<and> length (w_retry_metric w) = length (w_waits w)"
  using walk_waits [OF assms(2) [unfolded invoke_walk_def] assms(1)]
  by (simp add: waits_ok_def start_walk_def)

theorem walk_waits_bounded_witness:
  "list_all (\<lambda>d. 0 \<le> d \<and> d \<le> retryMaxDelay) (w_waits (snd demo_walk))"
  using walk_waits_bounded [of demo_env real_breakers 1 "30 * second"
      "[demo_connection 1 ''a'' ''gpt-4o'', demo_connection 2 ''b'' ''claude'']" None "fst demo_walk" "snd demo_walk"]
  by (simp add: demo_walk_def demo_env_def draws_ok_def list_all_iff)

text \<open>With every target's breaker open the primary is still called, exactly once, and nothing else is.\<close>

theorem all_open_calls_primary_once:
  assumes "targets \<noteq> []" "invoke_walk real_breakers env max_retries timeout targets b = (settled, w)"
    and "\<forall>c \<in> set targets. \<forall>k. is_open b (c_id c) (ev_clock env k)"
  shows "w_calls w = [0] \<and> w_conn w = 0"
  using breakers.walk_all_open [OF _ _ assms(1) _ assms(2) [unfolded invoke_walk_def]] assms(3)
  by (simp add: start_walk_def real_breakers_def)

definition open_env :: env where
  "open_env = demo_env\<lparr>ev_clock := (\<lambda>_. 10)\<rparr>"

theorem all_open_calls_primary_once_witness:
  "w_calls (snd (invoke_walk real_breakers open_env 3 0 [primary] (Some tripped))) = [0]"
  using all_open_calls_primary_once [of "[primary]" open_env 3 0 "Some tripped"]
  by (simp add: open_env_def is_open_def enabled_def tripped_def primary_def breaker_phase_def prod_eq_iff)

text \<open>A call that succeeds while the client is still there closes the target's breaker: the next call is let
  through, and not as a probe.\<close>

theorem success_closes_breaker:
  assumes "w_err (run_attempt real_breakers env idx target probe w) = None"
    and "\<not> ev_ctx_err env (Suc (w_tick w))"
    and "w_status (run_attempt real_breakers env idx target probe w) \<notin> {499, 502}"
  shows "fst (allow (w_breakers (run_attempt real_breakers env idx target probe w)) target t) = (True, 0)"
  using breakers.run_attempt_success_reopens [OF assms, of t] by (simp add: real_breakers_def)

theorem success_closes_breaker_witness:
  "fst (allow (w_breakers (run_attempt real_breakers demo_env 0 primary 0 (start_walk (Some tripped)))) primary 99)
     = (True, 0)"
  by (rule success_closes_breaker)
     (simp_all add: demo_env_def run_attempt_def primary_def start_walk_def tick_def Let_def)

end
