(* ===== verification/Calendar.thy ===== *)
theory Calendar
  imports Prelude
begin

text \<open>
  The UTC windows of \<open>internal/limits/limits.go\<close>: \<open>time.Truncate\<close>, \<open>time.Date\<close> and
  \<open>AddDate\<close> of Go's \<open>time\<close> package for the three window starts, over nanoseconds since
  the Unix epoch. The civil date of a day number is the proleptic Gregorian one, with
  years counted from March as the usual day-count formulas do.
\<close>

abbreviation day_ns :: duration where "day_ns \<equiv> 24 * hour"

definition day_number :: "time \<Rightarrow> int" where
  "day_number t = t div day_ns"

text \<open>Year, month (1..12) and day of month (1..31) of a day number.\<close>

definition civil_of_day :: "int \<Rightarrow> int \<times> int \<times> int" where
  "civil_of_day n =
     (let z = n + 719468;
          era = z div 146097;
          doe = z mod 146097;
          yoe = (doe - doe div 1460 + doe div 36524 - doe div 146096) div 365;
          doy = doe - (365 * yoe + yoe div 4 - yoe div 100);
          mp = (5 * doy + 2) div 153;
          d = doy - (153 * mp + 2) div 5 + 1;
          m = (if mp < 10 then mp + 3 else mp - 9)
      in (yoe + era * 400 + (if m \<le> 2 then 1 else 0), m, d))"

definition day_of_civil :: "int \<Rightarrow> int \<Rightarrow> int \<Rightarrow> int" where
  "day_of_civil y m d =
     (let y = (if m \<le> 2 then y - 1 else y);
          era = y div 400;
          yoe = y mod 400;
          doy = (153 * (if m > 2 then m - 3 else m + 9) + 2) div 5 + d - 1;
          doe = yoe * 365 + yoe div 4 - yoe div 100 + doy
      in era * 146097 + doe - 719468)"

record usage_windows =
  w_minute :: time
  w_day :: time
  w_month :: time

definition month_day_of :: "time \<Rightarrow> int" where
  "month_day_of t = (case civil_of_day (day_number t) of (y, m, d) \<Rightarrow> d)"

definition windows :: "time \<Rightarrow> usage_windows" where
  "windows t =
     \<lparr>w_minute = t - t mod minute,
      w_day = t - t mod day_ns,
      w_month = (t - t mod day_ns) - (month_day_of t - 1) * day_ns\<rparr>"

definition next_day :: "time \<Rightarrow> time" where
  "next_day day = day + day_ns"

text \<open>\<open>AddDate(0, 1, 0)\<close> of the first of a month.\<close>

definition next_month :: "time \<Rightarrow> time" where
  "next_month month =
     (case civil_of_day (day_number month) of
        (y, m, d) \<Rightarrow>
          (if m = 12 then day_of_civil (y + 1) 1 d else day_of_civil y (m + 1) d) * day_ns)"

lemma windows_minute: "w_minute (windows t) \<le> t" "t < w_minute (windows t) + minute"
  by (simp_all add: windows_def)

lemma windows_day: "w_day (windows t) \<le> t" "t < next_day (w_day (windows t))"
  by (simp_all add: windows_def next_day_def)

lemma div_bounds: "0 < (b::int) \<Longrightarrow> b * (a div b) \<le> a \<and> a < b * (a div b) + b"
  by (metis mult_div_mod_eq le_add_same_cancel1 pos_mod_sign pos_mod_bound add_strict_left_mono)

text \<open>A month of the March year has at most 31 days.\<close>

lemma month_offset_bounds:
  fixes doy :: int
  shows "0 \<le> doy - (153 * ((5 * doy + 2) div 153) + 2) div 5"
    and "doy - (153 * ((5 * doy + 2) div 153) + 2) div 5 \<le> 30"
proof -
  define q where "q = (5 * doy + 2) div 153"
  define r where "r = (153 * q + 2) div 5"
  have "153 * q \<le> 5 * doy + 2" "5 * doy + 2 < 153 * q + 153"
    using div_bounds [of 153 "5 * doy + 2"] by (simp_all add: q_def)
  moreover have "5 * r \<le> 153 * q + 2" "153 * q + 2 < 5 * r + 5"
    using div_bounds [of 5 "153 * q + 2"] by (simp_all add: r_def)
  ultimately have "0 \<le> doy - r" "doy - r \<le> 30" by linarith+
  then show "0 \<le> doy - (153 * ((5 * doy + 2) div 153) + 2) div 5"
    "doy - (153 * ((5 * doy + 2) div 153) + 2) div 5 \<le> 30"
    by (simp_all add: r_def q_def)
qed

lemma month_day_bounds: "1 \<le> month_day_of t" "month_day_of t \<le> 31"
proof -
  have "\<exists>doy. month_day_of t = doy - (153 * ((5 * doy + 2) div 153) + 2) div 5 + 1"
    unfolding month_day_of_def civil_of_day_def Let_def prod.case by (rule exI) (rule refl)
  then obtain doy where "month_day_of t = doy - (153 * ((5 * doy + 2) div 153) + 2) div 5 + 1" ..
  with month_offset_bounds [of doy] show "1 \<le> month_day_of t" "month_day_of t \<le> 31" by linarith+
qed

lemma windows_month:
  "w_month (windows t) \<le> w_day (windows t)"
  "w_day (windows t) - w_month (windows t) \<le> 30 * day_ns"
  using month_day_bounds [of t] by (simp_all add: windows_def)

end
