(* ===== verification/Usage.thy ===== *)
theory Usage
  imports Calendar Types "HOL-Library.AList"
begin

text \<open>
  The usage counters of \<open>internal/store/usage.go\<close>, \<open>keyusage.go\<close> and \<open>sessions.go\<close>:
  the tables \<open>project_usage\<close> and \<open>key_usage\<close>, keyed by owner, period and period start,
  and \<open>session_usage\<close>, keyed by project and session. Each function is one SQL statement,
  so it is one atomic step on a table; a table is the association list of its rows.
\<close>

section \<open>Tables\<close>

datatype period = PeriodMinute | PeriodDay | PeriodMonth

type_synonym usage_key = "int \<times> period \<times> time"

record counts =
  requests :: int
  prompt_tokens :: int
  completion_tokens :: int

type_synonym usage_table = "(usage_key \<times> counts) list"

definition zero_counts :: counts where
  "zero_counts = \<lparr>requests = 0, prompt_tokens = 0, completion_tokens = 0\<rparr>"

definition row :: "usage_table \<Rightarrow> usage_key \<Rightarrow> counts" where
  "row tab key = (case map_of tab key of None \<Rightarrow> zero_counts | Some c \<Rightarrow> c)"

definition add_counts :: "counts \<Rightarrow> counts \<Rightarrow> counts" where
  "add_counts c e =
     \<lparr>requests = requests c + requests e,
      prompt_tokens = prompt_tokens c + prompt_tokens e,
      completion_tokens = completion_tokens c + completion_tokens e\<rparr>"

text \<open>\<open>INSERT ... ON CONFLICT DO UPDATE SET x = x + EXCLUDED.x\<close> of one row.\<close>

definition upsert :: "usage_key \<Rightarrow> counts \<Rightarrow> usage_table \<Rightarrow> usage_table" where
  "upsert key e tab = AList.update key (add_counts (row tab key) e) tab"

section \<open>Statements on one table\<close>

record usage_row =
  ur_period :: period
  ur_period_start :: time
  ur_requests :: int
  ur_prompt_tokens :: int
  ur_completion_tokens :: int

definition row_tokens :: "usage_row \<Rightarrow> int" where
  "row_tokens r = ur_prompt_tokens r + ur_completion_tokens r"

definition usage_row_of :: "usage_table \<Rightarrow> int \<Rightarrow> period \<Rightarrow> time \<Rightarrow> usage_row" where
  "usage_row_of tab i p start =
     (let c = row tab (i, p, start) in
      \<lparr>ur_period = p, ur_period_start = start, ur_requests = requests c,
       ur_prompt_tokens = prompt_tokens c, ur_completion_tokens = completion_tokens c\<rparr>)"

definition reserve_minute_request :: "usage_table \<Rightarrow> int \<Rightarrow> time \<Rightarrow> int \<times> usage_table" where
  "reserve_minute_request tab i start =
     (let tab' = upsert (i, PeriodMinute, start) (zero_counts\<lparr>requests := 1\<rparr>) tab
      in (requests (row tab' (i, PeriodMinute, start)), tab'))"

definition release_minute_request :: "usage_table \<Rightarrow> int \<Rightarrow> time \<Rightarrow> usage_table" where
  "release_minute_request tab i start =
     (case map_of tab (i, PeriodMinute, start) of
        None \<Rightarrow> tab
      | Some c \<Rightarrow> AList.update (i, PeriodMinute, start) (c\<lparr>requests := max (requests c - 1) 0\<rparr>) tab)"

definition get_usage ::
  "usage_table \<Rightarrow> int \<Rightarrow> usage_windows \<Rightarrow> usage_row \<times> usage_row \<times> usage_row" where
  "get_usage tab i w =
     (usage_row_of tab i PeriodMinute (w_minute w),
      usage_row_of tab i PeriodDay (w_day w),
      usage_row_of tab i PeriodMonth (w_month w))"

definition record_usage ::
  "usage_table \<Rightarrow> int \<Rightarrow> usage_windows \<Rightarrow> int \<Rightarrow> int \<Rightarrow> bool \<Rightarrow> usage_table" where
  "record_usage tab i w prompt completion count_minute_request =
     (let entry = (\<lambda>n. \<lparr>requests = n, prompt_tokens = prompt, completion_tokens = completion\<rparr>)
      in upsert (i, PeriodMonth, w_month w) (entry 1)
           (upsert (i, PeriodDay, w_day w) (entry 1)
             (upsert (i, PeriodMinute, w_minute w) (entry (if count_minute_request then 1 else 0)) tab)))"

definition delete_usage_before :: "usage_table \<Rightarrow> period \<Rightarrow> time \<Rightarrow> nat \<times> usage_table" where
  "delete_usage_before tab p cutoff =
     (let gone = (\<lambda>((i, q, start), c). q = p \<and> start < cutoff)
      in (length (filter gone tab), filter (\<lambda>r. \<not> gone r) tab))"

definition minute_tokens_since :: "usage_table \<Rightarrow> int \<Rightarrow> time \<Rightarrow> int" where
  "minute_tokens_since tab i since =
     sum_list (map (\<lambda>(k, c). prompt_tokens c + completion_tokens c)
       (filter (\<lambda>((j, q, start), c). j = i \<and> q = PeriodMinute \<and> start \<ge> since) tab))"

text \<open>The key tier mirrors the project tier row for row.\<close>

definition reserve_key_minute_request where "reserve_key_minute_request = reserve_minute_request"
definition release_key_minute_request where "release_key_minute_request = release_minute_request"
definition get_key_usage where "get_key_usage = get_usage"
definition record_key_usage where "record_key_usage = record_usage"
definition delete_key_usage_before where "delete_key_usage_before = delete_usage_before"
definition minute_key_tokens_since where "minute_key_tokens_since = minute_tokens_since"

text \<open>\<open>BudgetUsedRatios\<close>: \<open>GREATEST\<close> ignores a NULL side.\<close>

definition ratio :: "int \<Rightarrow> int \<Rightarrow> rat option" where
  "ratio used budget = (if budget > 0 then Some (of_int used / of_int budget) else None)"

definition greatest :: "rat option \<Rightarrow> rat option \<Rightarrow> rat option" where
  "greatest a b =
     (case (a, b) of
        (Some x, Some y) \<Rightarrow> Some (max x y)
      | (Some x, None) \<Rightarrow> Some x
      | (None, y) \<Rightarrow> y)"

definition budget_used_ratios ::
  "usage_table \<Rightarrow> project list \<Rightarrow> usage_windows \<Rightarrow> (int \<times> rat option) list" where
  "budget_used_ratios tab ps w =
     map (\<lambda>p. (p_id p,
         greatest (ratio (row_tokens (usage_row_of tab (p_id p) PeriodDay (w_day w))) (p_budget_daily_tokens p))
           (ratio (row_tokens (usage_row_of tab (p_id p) PeriodMonth (w_month w))) (p_budget_monthly_tokens p))))
       (filter (\<lambda>p. p_budget_daily_tokens p > 0 \<or> p_budget_monthly_tokens p > 0) ps)"

section \<open>Sessions\<close>

type_synonym session_table = "((int \<times> bytes) \<times> counts) list"

definition nonneg :: "int \<Rightarrow> int" where
  "nonneg n = (if n < 0 then 0 else n)"

definition session_row :: "session_table \<Rightarrow> int \<Rightarrow> bytes \<Rightarrow> counts" where
  "session_row tab pid sid = (case map_of tab (pid, sid) of None \<Rightarrow> zero_counts | Some c \<Rightarrow> c)"

text \<open>
  \<open>clampSessionID\<close>: NUL bytes are dropped and the id is cut to 128 bytes without
  splitting a character (a UTF-8 continuation byte is \<open>10xxxxxx\<close>).
\<close>

definition rune_start :: "char \<Rightarrow> bool" where
  "rune_start c \<longleftrightarrow> \<not> (128 \<le> (of_char c :: nat) \<and> (of_char c :: nat) < 192)"

fun cut_back :: "bytes \<Rightarrow> nat \<Rightarrow> nat" where
  "cut_back s 0 = 0"
| "cut_back s (Suc n) = (if rune_start (s ! Suc n) then Suc n else cut_back s n)"

definition cut_bytes :: "bytes \<Rightarrow> nat \<Rightarrow> bytes" where
  "cut_bytes s n = (if length s \<le> n then s else take (cut_back s n) s)"

definition maxSessionIDBytes :: nat where "maxSessionIDBytes = 128"

definition clamp_session_id :: "bytes \<Rightarrow> bytes" where
  "clamp_session_id s = cut_bytes (filter (\<lambda>c. c \<noteq> CHR 0x00) s) maxSessionIDBytes"

definition record_session_usage :: "session_table \<Rightarrow> int \<Rightarrow> bytes \<Rightarrow> int \<Rightarrow> int \<Rightarrow> session_table" where
  "record_session_usage tab pid sid prompt completion =
     (let key = (pid, clamp_session_id sid)
      in AList.update key
           (add_counts (session_row tab pid (clamp_session_id sid))
             \<lparr>requests = 1, prompt_tokens = nonneg prompt, completion_tokens = nonneg completion\<rparr>)
           tab)"

definition session_tokens :: "session_table \<Rightarrow> int \<Rightarrow> bytes \<Rightarrow> int" where
  "session_tokens tab pid sid =
     prompt_tokens (session_row tab pid sid) + completion_tokens (session_row tab pid sid)"

section \<open>Row laws\<close>

lemma row_upsert: "row (upsert key e tab) k = (if k = key then add_counts (row tab key) e else row tab k)"
  by (simp add: row_def upsert_def update_conv')

lemma row_release:
  "row (release_minute_request tab i start) k =
     (if k = (i, PeriodMinute, start)
      then (row tab k)\<lparr>requests := max (requests (row tab k) - 1) 0\<rparr> else row tab k)"
  by (auto simp: row_def release_minute_request_def update_conv' zero_counts_def split: option.splits)

lemma row_reserve:
  "row (snd (reserve_minute_request tab i start)) k =
     (if k = (i, PeriodMinute, start)
      then (row tab k)\<lparr>requests := requests (row tab k) + 1\<rparr> else row tab k)"
  "fst (reserve_minute_request tab i start) = requests (row tab (i, PeriodMinute, start)) + 1"
  by (simp_all add: reserve_minute_request_def row_upsert add_counts_def zero_counts_def Let_def)

lemma row_record:
  "row (record_usage tab i w prompt completion b) k =
     (if k = (i, PeriodMinute, w_minute w)
      then add_counts (row tab k)
        \<lparr>requests = (if b then 1 else 0), prompt_tokens = prompt, completion_tokens = completion\<rparr>
      else if k = (i, PeriodDay, w_day w) \<or> k = (i, PeriodMonth, w_month w)
      then add_counts (row tab k)
        \<lparr>requests = 1, prompt_tokens = prompt, completion_tokens = completion\<rparr>
      else row tab k)"
  by (auto simp: record_usage_def row_upsert Let_def)

section \<open>The counter contract\<close>

text \<open>
  What the limiter relies on, for either tier: a reservation answers the new count and
  adds one request to the minute's row, a release takes one away but never below zero,
  and recording a request adds its tokens to its three rows; no statement touches
  another row.
\<close>

locale usage_counters =
  fixes lookup :: "'t \<Rightarrow> usage_key \<Rightarrow> counts"
    and reserve :: "'t \<Rightarrow> int \<Rightarrow> time \<Rightarrow> int \<times> 't"
    and release :: "'t \<Rightarrow> int \<Rightarrow> time \<Rightarrow> 't"
    and charge :: "'t \<Rightarrow> int \<Rightarrow> usage_windows \<Rightarrow> int \<Rightarrow> int \<Rightarrow> bool \<Rightarrow> 't"
  assumes reserve_value: "fst (reserve t i m) = requests (lookup t (i, PeriodMinute, m)) + 1"
    and reserve_row: "lookup (snd (reserve t i m)) k =
      (if k = (i, PeriodMinute, m) then (lookup t k)\<lparr>requests := requests (lookup t k) + 1\<rparr>
       else lookup t k)"
    and release_row: "lookup (release t i m) k =
      (if k = (i, PeriodMinute, m) then (lookup t k)\<lparr>requests := max (requests (lookup t k) - 1) 0\<rparr>
       else lookup t k)"
    and charge_row: "lookup (charge t i w p c b) k =
      (if k = (i, PeriodMinute, w_minute w)
       then add_counts (lookup t k) \<lparr>requests = (if b then 1 else 0), prompt_tokens = p, completion_tokens = c\<rparr>
       else if k = (i, PeriodDay, w_day w) \<or> k = (i, PeriodMonth, w_month w)
       then add_counts (lookup t k) \<lparr>requests = 1, prompt_tokens = p, completion_tokens = c\<rparr>
       else lookup t k)"
begin

text \<open>A released reservation leaves no trace.\<close>

lemma release_reserve:
  "0 \<le> requests (lookup t (i, PeriodMinute, m)) \<Longrightarrow>
   lookup (release (snd (reserve t i m)) i m) k = lookup t k"
  by (simp add: release_row reserve_row)

text \<open>Reserving and then charging without counting is charging with counting.\<close>

lemma reserve_then_charge:
  "lookup (charge (snd (reserve t i (w_minute w))) i w p c False) k = lookup (charge t i w p c True) k"
  by (auto simp: charge_row reserve_row add_counts_def)

lemma reserve_tokens:
  "prompt_tokens (lookup (snd (reserve t i m)) k) = prompt_tokens (lookup t k)"
  "completion_tokens (lookup (snd (reserve t i m)) k) = completion_tokens (lookup t k)"
  by (simp_all add: reserve_row)

lemma release_tokens:
  "prompt_tokens (lookup (release t i m) k) = prompt_tokens (lookup t k)"
  "completion_tokens (lookup (release t i m) k) = completion_tokens (lookup t k)"
  by (simp_all add: release_row)

lemma charge_adds:
  assumes "k \<in> {(i, PeriodMinute, w_minute w), (i, PeriodDay, w_day w), (i, PeriodMonth, w_month w)}"
  shows "prompt_tokens (lookup (charge t i w p c b) k) = prompt_tokens (lookup t k) + p"
    and "completion_tokens (lookup (charge t i w p c b) k) = completion_tokens (lookup t k) + c"
  using assms by (auto simp: charge_row add_counts_def)

text \<open>Owners do not share rows.\<close>

lemma other_owner:
  "j \<noteq> i \<Longrightarrow> lookup (snd (reserve t i m)) (j, p, s) = lookup t (j, p, s)"
  "j \<noteq> i \<Longrightarrow> lookup (release t i m) (j, p, s) = lookup t (j, p, s)"
  "j \<noteq> i \<Longrightarrow> lookup (charge t i w pt ct b) (j, p, s) = lookup t (j, p, s)"
  by (simp_all add: reserve_row release_row charge_row)

end

interpretation project_usage: usage_counters row reserve_minute_request release_minute_request record_usage
  by unfold_locales (simp_all only: row_reserve row_release row_record)

interpretation key_usage: usage_counters row reserve_key_minute_request release_key_minute_request record_key_usage
  by unfold_locales
    (simp_all only: reserve_key_minute_request_def release_key_minute_request_def
      record_key_usage_def row_reserve row_release row_record)

section \<open>Purging, sessions, cutting\<close>

lemma row_delete_kept:
  assumes "\<not> (q = p \<and> start < cutoff)"
  shows "row (snd (delete_usage_before tab p cutoff)) (i, q, start) = row tab (i, q, start)"
proof -
  have "map_of (snd (delete_usage_before tab p cutoff)) (i, q, start) = map_of tab (i, q, start)"
    unfolding delete_usage_before_def Let_def snd_conv using assms by (induction tab) auto
  then show ?thesis by (simp only: row_def)
qed

lemma session_row_record:
  "session_row (record_session_usage tab pid sid p c) pid' sid' =
     (if pid' = pid \<and> sid' = clamp_session_id sid
      then add_counts (session_row tab pid' sid')
        \<lparr>requests = 1, prompt_tokens = nonneg p, completion_tokens = nonneg c\<rparr>
      else session_row tab pid' sid')"
  by (auto simp: session_row_def record_session_usage_def Let_def update_conv')

lemma session_tokens_record_mono:
  "session_tokens tab pid' sid' \<le> session_tokens (record_session_usage tab pid sid p c) pid' sid'"
  by (simp add: session_tokens_def session_row_record add_counts_def nonneg_def)

lemma cut_back_le: "cut_back s n \<le> n"
  by (induction n) auto

lemma cut_bytes_length: "length (cut_bytes s n) \<le> n"
  using cut_back_le [of s n] by (simp add: cut_bytes_def)

lemma cut_bytes_prefix: "has_prefix s (cut_bytes s n)"
  by (auto simp: cut_bytes_def has_prefix_iff) (metis append_take_drop_id)

lemma cut_back_start: "cut_back s n = 0 \<or> rune_start (s ! cut_back s n)"
  by (induction n) auto

end
