(* ===== verification/Limiter.thy ===== *)
theory Limiter
  imports Usage
begin

text \<open>
  The limiter of \<open>internal/limits/limits.go\<close>: rate limits and token budgets on the project
  and the api key, and the per-session cap. The counters are the tables of theory
  \<open>Usage\<close>; each store call is one SQL statement, and one the database fails (the
  \<open>faults\<close> argument, by the name of the call) leaves its table as it was and returns
  its error, so every error branch of the limiter is a branch here. A check makes each
  call at most once, so the name identifies the call.
\<close>

section \<open>Data\<close>

datatype deny_reason =
  ReasonRPM | ReasonTPM | ReasonBudgetDaily | ReasonBudgetMonthly | ReasonSessionTokenCap

datatype limit_scope = ScopeProject | ScopeKey | ScopeSession

definition KeepMinuteRows :: duration where "KeepMinuteRows = 2 * hour"
definition KeepDayRows :: duration where "KeepDayRows = 400 * (24 * hour)"
definition KeepMonthRows :: duration where "KeepMonthRows = 3 * (366 * (24 * hour))"

record caps =
  cp_rpm :: int
  cp_tpm :: int
  cp_daily :: int
  cp_monthly :: int

definition no_caps :: caps where
  "no_caps = \<lparr>cp_rpm = 0, cp_tpm = 0, cp_daily = 0, cp_monthly = 0\<rparr>"

definition project_caps :: "project \<Rightarrow> caps" where
  "project_caps p =
     \<lparr>cp_rpm = p_rate_limit_rpm p, cp_tpm = p_rate_limit_tpm p,
      cp_daily = p_budget_daily_tokens p, cp_monthly = p_budget_monthly_tokens p\<rparr>"

record subject =
  sj_project :: project
  sj_key_id :: "int option"
  sj_key :: caps
  sj_session_id :: bytes

record decision =
  d_allowed :: bool
  d_reason :: "deny_reason option"
  d_scope :: "limit_scope option"
  d_retry_after :: duration
  d_limit_requests :: int
  d_remaining_requests :: int
  d_reset_requests :: duration
  d_daily_used :: int
  d_daily_limit :: int
  d_monthly_used :: int
  d_monthly_limit :: int
  d_session_used :: int
  d_session_limit :: int
  d_reserved :: bool

definition admitted :: "duration \<Rightarrow> decision" where
  "admitted reset =
     \<lparr>d_allowed = True, d_reason = None, d_scope = None, d_retry_after = 0,
      d_limit_requests = 0, d_remaining_requests = 0, d_reset_requests = reset,
      d_daily_used = 0, d_daily_limit = 0, d_monthly_used = 0, d_monthly_limit = 0,
      d_session_used = 0, d_session_limit = 0, d_reserved = False\<rparr>"

text \<open>The counter tables and the store calls of the limiter.\<close>

record usage_db =
  ub_project :: usage_table
  ub_key :: usage_table
  ub_session :: session_table

datatype store_call =
    GetUsage | GetKeyUsage | GetSessionUsage
  | ReserveMinuteRequest | ReserveKeyMinuteRequest
  | ReleaseMinuteRequest | ReleaseKeyMinuteRequest
  | RecordUsage | RecordKeyUsage | RecordSessionUsage

type_synonym faults = "store_call \<Rightarrow> bool"

text \<open>A call either fails with its error or answers.\<close>

definition answer :: "faults \<Rightarrow> store_call \<Rightarrow> 'a \<Rightarrow> store_call + 'a" where
  "answer f c v = (if f c then Inl c else Inr v)"

section \<open>Headroom and denial\<close>

definition tighter :: "int \<Rightarrow> int \<Rightarrow> int \<Rightarrow> int \<Rightarrow> int \<times> int" where
  "tighter limit used key_limit key_used =
     (if key_limit = 0 then (limit, used)
      else if limit = 0 \<or> key_limit - key_used < limit - used then (key_limit, key_used)
      else (limit, used))"

definition tighter_requests :: "int \<Rightarrow> int \<Rightarrow> int \<Rightarrow> int \<Rightarrow> int \<times> int" where
  "tighter_requests limit used key_limit key_used =
     (let (l, u) = tighter limit used key_limit key_used
      in if l = 0 then (0, 0) else (l, max (l - u) 0))"

definition deny :: "decision \<Rightarrow> deny_reason \<Rightarrow> limit_scope \<Rightarrow> duration \<Rightarrow> decision" where
  "deny d reason scope retry_after = d\<lparr>
     d_allowed := False, d_reason := Some reason, d_scope := Some scope,
     d_retry_after :=
       (if retry_after < second \<and> reason \<noteq> ReasonSessionTokenCap then second else retry_after)\<rparr>"

definition session_capped :: "subject \<Rightarrow> bool" where
  "session_capped s \<longleftrightarrow> sj_session_id s \<noteq> [] \<and> p_session_token_cap (sj_project s) > 0"

definition key_caps :: "subject \<Rightarrow> caps" where
  "key_caps s = (if sj_key_id s = None then no_caps else sj_key s)"

definition zero_row :: "period \<Rightarrow> time \<Rightarrow> usage_row" where
  "zero_row p start =
     \<lparr>ur_period = p, ur_period_start = start, ur_requests = 0,
      ur_prompt_tokens = 0, ur_completion_tokens = 0\<rparr>"

definition zero_rows :: "usage_windows \<Rightarrow> usage_row \<times> usage_row \<times> usage_row" where
  "zero_rows w =
     (zero_row PeriodMinute (w_minute w), zero_row PeriodDay (w_day w), zero_row PeriodMonth (w_month w))"

section \<open>CheckSubject\<close>

text \<open>The candidate denials in the order the code lists them.\<close>

definition over_limits ::
  "time \<Rightarrow> usage_windows \<Rightarrow> caps \<Rightarrow> caps \<Rightarrow> decision \<Rightarrow> int \<Rightarrow> int \<Rightarrow>
   usage_row \<times> usage_row \<times> usage_row \<Rightarrow> usage_row \<times> usage_row \<times> usage_row \<Rightarrow>
   (bool \<times> deny_reason \<times> limit_scope \<times> duration) list" where
  "over_limits now w pc kc d s_used est pu ku =
     (case (pu, ku) of ((p_minute, p_day, p_month), (k_minute, k_day, k_month)) \<Rightarrow>
     [(cp_monthly pc > 0 \<and> row_tokens p_month \<ge> cp_monthly pc,
        ReasonBudgetMonthly, ScopeProject, next_month (w_month w) - now),
      (cp_monthly kc > 0 \<and> row_tokens k_month \<ge> cp_monthly kc,
        ReasonBudgetMonthly, ScopeKey, next_month (w_month w) - now),
      (cp_daily pc > 0 \<and> row_tokens p_day \<ge> cp_daily pc,
        ReasonBudgetDaily, ScopeProject, next_day (w_day w) - now),
      (cp_daily kc > 0 \<and> row_tokens k_day \<ge> cp_daily kc,
        ReasonBudgetDaily, ScopeKey, next_day (w_day w) - now),
      (d_session_limit d > 0 \<and> s_used \<ge> d_session_limit d,
        ReasonSessionTokenCap, ScopeSession, 0),
      (cp_tpm pc > 0 \<and> row_tokens p_minute + est > cp_tpm pc,
        ReasonTPM, ScopeProject, d_reset_requests d),
      (cp_tpm kc > 0 \<and> row_tokens k_minute + est > cp_tpm kc,
        ReasonTPM, ScopeKey, d_reset_requests d)])"

definition rollback :: "faults \<Rightarrow> subject \<Rightarrow> usage_windows \<Rightarrow> bool \<Rightarrow> bool \<Rightarrow> usage_db \<Rightarrow>
    store_call option \<times> usage_db" where
  "rollback f s w project key db =
     (if project \<and> f ReleaseMinuteRequest then (Some ReleaseMinuteRequest, db)
      else let db1 = (if project
            then db\<lparr>ub_project := release_minute_request (ub_project db) (p_id (sj_project s)) (w_minute w)\<rparr>
            else db)
        in case sj_key_id s of
            None \<Rightarrow> (None, db1)
          | Some k \<Rightarrow>
              if \<not> key then (None, db1)
              else if f ReleaseKeyMinuteRequest then (Some ReleaseKeyMinuteRequest, db1)
              else (None, db1\<lparr>ub_key := release_key_minute_request (ub_key db1) k (w_minute w)\<rparr>))"

text \<open>The key's slot, after the project's (\<open>d\<close> says whether that one was taken).\<close>

definition reserve_key_slot ::
  "faults \<Rightarrow> subject \<Rightarrow> usage_windows \<Rightarrow> caps \<Rightarrow> caps \<Rightarrow> int \<Rightarrow> int \<Rightarrow> decision \<Rightarrow> usage_db \<Rightarrow>
   (decision \<times> store_call option) \<times> usage_db" where
  "reserve_key_slot f s w pc kc p_req k_req d db =
     (let finish = (\<lambda>k_req db.
        (let (l, r) = tighter_requests (cp_rpm pc) p_req (cp_rpm kc) k_req
         in ((d\<lparr>d_limit_requests := l, d_remaining_requests := r\<rparr>, None), db)))
      in case sj_key_id s of
           None \<Rightarrow> finish k_req db
         | Some k \<Rightarrow>
             if \<not> cp_rpm kc > 0 then finish k_req db
             else if f ReserveKeyMinuteRequest then
               (if d_reserved d then
                  (let (_, db') = rollback f s w True False db
                   in ((d\<lparr>d_reserved := False\<rparr>, Some ReserveKeyMinuteRequest), db'))
                else ((d, Some ReserveKeyMinuteRequest), db))
             else
               (let (n, tab) = reserve_key_minute_request (ub_key db) k (w_minute w);
                    db = db\<lparr>ub_key := tab\<rparr>
                in if n > cp_rpm kc then
                     (case rollback f s w (d_reserved d) True db of
                        (Some e, db') \<Rightarrow> ((d, Some e), db')
                      | (None, db') \<Rightarrow>
                          ((deny (d\<lparr>d_reserved := False, d_limit_requests := cp_rpm kc,
                                   d_remaining_requests := 0\<rparr>)
                             ReasonRPM ScopeKey (d_reset_requests d), None), db'))
                   else finish n db))"

definition reserve_slots ::
  "faults \<Rightarrow> subject \<Rightarrow> usage_windows \<Rightarrow> caps \<Rightarrow> caps \<Rightarrow> int \<Rightarrow> int \<Rightarrow> decision \<Rightarrow> usage_db \<Rightarrow>
   (decision \<times> store_call option) \<times> usage_db" where
  "reserve_slots f s w pc kc p_req k_req d db =
     (if \<not> cp_rpm pc > 0 then reserve_key_slot f s w pc kc p_req k_req d db
      else if f ReserveMinuteRequest then ((d, Some ReserveMinuteRequest), db)
      else
        (let (n, tab) = reserve_minute_request (ub_project db) (p_id (sj_project s)) (w_minute w);
             db = db\<lparr>ub_project := tab\<rparr>
         in if n > cp_rpm pc then
              (case rollback f s w True False db of
                 (Some e, db') \<Rightarrow> ((d, Some e), db')
               | (None, db') \<Rightarrow>
                   ((deny (d\<lparr>d_limit_requests := cp_rpm pc, d_remaining_requests := 0\<rparr>)
                      ReasonRPM ScopeProject (d_reset_requests d), None), db'))
            else reserve_key_slot f s w pc kc n k_req (d\<lparr>d_reserved := True\<rparr>) db))"

text \<open>The figures of the response headers.\<close>

definition with_figures ::
  "caps \<Rightarrow> caps \<Rightarrow> usage_row \<times> usage_row \<times> usage_row \<Rightarrow> usage_row \<times> usage_row \<times> usage_row \<Rightarrow>
   decision \<Rightarrow> decision" where
  "with_figures pc kc pu ku d =
     (case (pu, ku) of ((p_minute, p_day, p_month), (k_minute, k_day, k_month)) \<Rightarrow>
        let (lr, rr) = tighter_requests (cp_rpm pc) (ur_requests p_minute) (cp_rpm kc) (ur_requests k_minute);
            (dl, du) = tighter (cp_daily pc) (row_tokens p_day) (cp_daily kc) (row_tokens k_day);
            (ml, mu) = tighter (cp_monthly pc) (row_tokens p_month) (cp_monthly kc) (row_tokens k_month)
        in d\<lparr>d_limit_requests := lr, d_remaining_requests := rr, d_daily_limit := dl, d_daily_used := du,
             d_monthly_limit := ml, d_monthly_used := mu\<rparr>)"

definition read_key_usage :: "faults \<Rightarrow> subject \<Rightarrow> usage_windows \<Rightarrow> usage_db \<Rightarrow>
    store_call + (usage_row \<times> usage_row \<times> usage_row)" where
  "read_key_usage f s w db =
     (case sj_key_id s of
        None \<Rightarrow> Inr (zero_rows w)
      | Some k \<Rightarrow> answer f GetKeyUsage (get_key_usage (ub_key db) k w))"

definition read_session :: "faults \<Rightarrow> subject \<Rightarrow> usage_db \<Rightarrow> store_call + int" where
  "read_session f s db =
     (if session_capped s
      then answer f GetSessionUsage (session_tokens (ub_session db) (p_id (sj_project s)) (sj_session_id s))
      else Inr 0)"

definition check_subject :: "faults \<Rightarrow> time \<Rightarrow> subject \<Rightarrow> int \<Rightarrow> usage_db \<Rightarrow>
    (decision \<times> store_call option) \<times> usage_db" where
  "check_subject f now s est db =
     (let w = windows now;
          pc = project_caps (sj_project s);
          kc = key_caps s;
          d = admitted (w_minute w + minute - now)
      in case answer f GetUsage (get_usage (ub_project db) (p_id (sj_project s)) w) of
           Inl e \<Rightarrow> ((d, Some e), db)
         | Inr pu \<Rightarrow>
        (case read_key_usage f s w db of
           Inl e \<Rightarrow> ((d, Some e), db)
         | Inr ku \<Rightarrow>
        (let d = with_figures pc kc pu ku d
         in case read_session f s db of
           Inl e \<Rightarrow> ((d, Some e), db)
         | Inr s_used \<Rightarrow>
        (let d = (if session_capped s
                  then d\<lparr>d_session_limit := p_session_token_cap (sj_project s), d_session_used := s_used\<rparr>
                  else d)
         in case find fst (over_limits now w pc kc d s_used est pu ku) of
              Some (_, reason, scope, retry_at) \<Rightarrow> ((deny d reason scope retry_at, None), db)
            | None \<Rightarrow>
                reserve_slots f s w pc kc (ur_requests (fst pu)) (ur_requests (fst ku)) d db))))"

text \<open>\<open>Check\<close>: the project alone.\<close>

definition check_project_only :: "faults \<Rightarrow> time \<Rightarrow> project \<Rightarrow> int \<Rightarrow> usage_db \<Rightarrow>
    (decision \<times> store_call option) \<times> usage_db" where
  "check_project_only f now p est db =
     check_subject f now \<lparr>sj_project = p, sj_key_id = None, sj_key = no_caps, sj_session_id = []\<rparr> est db"

section \<open>CheckTokens, recording, purging\<close>

definition check_tokens :: "faults \<Rightarrow> time \<Rightarrow> subject \<Rightarrow> decision \<Rightarrow> int \<Rightarrow> usage_db \<Rightarrow>
    decision \<times> store_call option" where
  "check_tokens f now s prior est db =
     (let pc = project_caps (sj_project s);
          kc = key_caps s
      in if cp_tpm pc = 0 \<and> cp_tpm kc = 0 then (prior, None)
         else let w = windows now;
                  retry_at = w_minute w + minute - now
         in case answer f GetUsage (get_usage (ub_project db) (p_id (sj_project s)) w) of
              Inl e \<Rightarrow> (prior, Some e)
            | Inr (p_minute, _, _) \<Rightarrow>
           if cp_tpm pc > 0 \<and> row_tokens p_minute + est > cp_tpm pc
           then (deny prior ReasonTPM ScopeProject retry_at, None)
           else if cp_tpm kc > 0 then
             (case read_key_usage f s w db of
                Inl e \<Rightarrow> (prior, Some e)
              | Inr (k_minute, _, _) \<Rightarrow>
                  if row_tokens k_minute + est > cp_tpm kc
                  then (deny prior ReasonTPM ScopeKey retry_at, None)
                  else (prior, None))
           else (prior, None))"

definition record_subject :: "faults \<Rightarrow> time \<Rightarrow> subject \<Rightarrow> int \<Rightarrow> int \<Rightarrow> bool \<Rightarrow> usage_db \<Rightarrow>
    store_call option \<times> usage_db" where
  "record_subject f now s prompt completion count_request db =
     (let w = windows now;
          pid = p_id (sj_project s)
      in if f RecordUsage then (Some RecordUsage, db)
         else let db = db\<lparr>ub_project := record_usage (ub_project db) pid w prompt completion count_request\<rparr>
         in if sj_key_id s \<noteq> None \<and> f RecordKeyUsage then (Some RecordKeyUsage, db)
            else let db = (case sj_key_id s of
                   None \<Rightarrow> db
                 | Some k \<Rightarrow> db\<lparr>ub_key :=
                     record_key_usage (ub_key db) k w prompt completion (cp_rpm (sj_key s) = 0)\<rparr>)
            in if sj_session_id s = [] then (None, db)
               else if f RecordSessionUsage then (Some RecordSessionUsage, db)
               else (None, db\<lparr>ub_session :=
                 record_session_usage (ub_session db) pid (sj_session_id s) prompt completion\<rparr>))"

fun purge_loop :: "(period \<times> bool \<Rightarrow> bool) \<Rightarrow> time \<Rightarrow> (period \<times> duration) list \<Rightarrow> usage_db \<Rightarrow> bool \<times> usage_db" where
  "purge_loop f now [] db = (True, db)"
| "purge_loop f now ((p, keep) # rest) db =
     (let cutoff = now - keep
      in if f (p, False) then (False, db)
         else let db = db\<lparr>ub_project := snd (delete_usage_before (ub_project db) p cutoff)\<rparr>
         in if f (p, True) then (False, db)
            else purge_loop f now rest
                   (db\<lparr>ub_key := snd (delete_key_usage_before (ub_key db) p cutoff)\<rparr>))"

text \<open>\<open>f (p, False)\<close> and \<open>f (p, True)\<close> fail the delete of period \<open>p\<close> on the project and the key table.\<close>

definition purge_usage :: "(period \<times> bool \<Rightarrow> bool) \<Rightarrow> time \<Rightarrow> usage_db \<Rightarrow> bool \<times> usage_db" where
  "purge_usage f now db =
     purge_loop f now
       [(PeriodMinute, KeepMinuteRows), (PeriodDay, KeepDayRows), (PeriodMonth, KeepMonthRows)] db"

section \<open>What a check does to the counters\<close>

definition counters_ok :: "usage_db \<Rightarrow> bool" where
  "counters_ok db \<longleftrightarrow>
     (\<forall>k. 0 \<le> requests (row (ub_project db) k)) \<and> (\<forall>k. 0 \<le> requests (row (ub_key db) k))"

definition same_counters :: "usage_db \<Rightarrow> usage_db \<Rightarrow> bool" where
  "same_counters db db' \<longleftrightarrow>
     (\<forall>k. row (ub_project db') k = row (ub_project db) k) \<and>
     (\<forall>k. row (ub_key db') k = row (ub_key db) k) \<and> ub_session db' = ub_session db"

text \<open>\<open>db'\<close> is \<open>db\<close> with one more minute request of the project (if \<open>p\<close>) and of the key (if \<open>k\<close>).\<close>

definition one_more :: "subject \<Rightarrow> usage_windows \<Rightarrow> bool \<Rightarrow> bool \<Rightarrow> usage_db \<Rightarrow> usage_db \<Rightarrow> bool" where
  "one_more s w p k db db' \<longleftrightarrow>
     (\<forall>key. row (ub_project db') key =
        (if p \<and> key = (p_id (sj_project s), PeriodMinute, w_minute w)
         then (row (ub_project db) key)\<lparr>requests := requests (row (ub_project db) key) + 1\<rparr>
         else row (ub_project db) key)) \<and>
     (\<forall>key. row (ub_key db') key =
        (if k \<and> (\<exists>i. sj_key_id s = Some i \<and> key = (i, PeriodMinute, w_minute w))
         then (row (ub_key db) key)\<lparr>requests := requests (row (ub_key db) key) + 1\<rparr>
         else row (ub_key db) key)) \<and>
     ub_session db' = ub_session db"

lemma same_counters_refl: "same_counters db db"
  by (simp add: same_counters_def)

lemma same_counters_trans: "same_counters a b \<Longrightarrow> same_counters b c \<Longrightarrow> same_counters a c"
  by (simp add: same_counters_def)

lemma one_more_none: "one_more s w False False db db' \<longleftrightarrow> same_counters db db'"
  by (auto simp: one_more_def same_counters_def)

lemma key_row_reserve:
  "row (snd (reserve_key_minute_request tab i start)) k =
     (if k = (i, PeriodMinute, start)
      then (row tab k)\<lparr>requests := requests (row tab k) + 1\<rparr> else row tab k)"
  by (rule key_usage.reserve_row)

text \<open>Undoing what was taken restores every counter.\<close>

lemma rollback_undoes:
  assumes "one_more s w p (k \<and> sj_key_id s \<noteq> None) db0 db"
    and "counters_ok db0" "\<not> f ReleaseMinuteRequest" "\<not> f ReleaseKeyMinuteRequest"
  shows "fst (rollback f s w p k db) = None" "same_counters db0 (snd (rollback f s w p k db))"
  using assms
  by (auto simp: rollback_def Let_def same_counters_def one_more_def counters_ok_def
      project_usage.release_row key_usage.release_row split: option.split)

lemma one_more_project:
  "one_more s w True False db
     (db\<lparr>ub_project := snd (reserve_minute_request (ub_project db) (p_id (sj_project s)) (w_minute w))\<rparr>)"
  by (simp add: one_more_def row_reserve)

lemma one_more_key:
  assumes "one_more s w p False db0 db" "sj_key_id s = Some i"
  shows "one_more s w p True db0
     (db\<lparr>ub_key := snd (reserve_key_minute_request (ub_key db) i (w_minute w))\<rparr>)"
  using assms by (simp add: one_more_def key_row_reserve)

definition slot_outcome :: "subject \<Rightarrow> usage_windows \<Rightarrow> bool \<Rightarrow> bool \<Rightarrow> usage_db \<Rightarrow>
    (decision \<times> store_call option) \<times> usage_db \<Rightarrow> bool" where
  "slot_outcome s w p k db0 r =
     (case r of ((d, e), db) \<Rightarrow>
        if e = None \<and> d_allowed d then d_reserved d = p \<and> one_more s w p k db0 db
        else \<not> (e = None \<and> d_reserved d) \<and> same_counters db0 db)"

lemma rollback_pair:
  assumes "one_more s w p (k \<and> sj_key_id s \<noteq> None) db0 db"
    and "counters_ok db0" "\<not> f ReleaseMinuteRequest" "\<not> f ReleaseKeyMinuteRequest"
  obtains db' where "rollback f s w p k db = (None, db')" "same_counters db0 db'"
  using rollback_undoes [OF assms] by (metis prod.collapse)

lemma reserve_key_slot_outcome:
  assumes "one_more s w (d_reserved d) False db0 db" "counters_ok db0" "d_allowed d"
    and "\<not> f ReleaseMinuteRequest" "\<not> f ReleaseKeyMinuteRequest"
    and "cp_rpm kc > 0 \<Longrightarrow> sj_key_id s \<noteq> None"
  shows "slot_outcome s w (d_reserved d) (cp_rpm kc > 0) db0
    (reserve_key_slot f s w pc kc p_req k_req d db)"
proof (cases "cp_rpm kc > 0")
  case False
  then show ?thesis
    using assms(1,3)
    by (auto simp: reserve_key_slot_def Let_def slot_outcome_def split: option.split prod.split)
next
  case True
  with assms(6) obtain i where i: "sj_key_id s = Some i" by blast
  obtain n tab where n: "reserve_key_minute_request (ub_key db) i (w_minute w) = (n, tab)"
    by fastforce
  let ?db = "db\<lparr>ub_key := tab\<rparr>"
  have taken: "one_more s w (d_reserved d) (True \<and> sj_key_id s \<noteq> None) db0 ?db"
    using one_more_key [OF assms(1) i] i n by simp
  obtain db' where rb: "rollback f s w (d_reserved d) True ?db = (None, db')" "same_counters db0 db'"
    by (rule rollback_pair [OF taken assms(2,4,5)])
  show ?thesis
  proof (cases "f ReserveKeyMinuteRequest")
    case fault: True
    show ?thesis
    proof (cases "d_reserved d")
      case reserved: True
      then have "one_more s w True (False \<and> sj_key_id s \<noteq> None) db0 db" using assms(1) by simp
      then obtain db'' where "rollback f s w True False db = (None, db'')" "same_counters db0 db''"
        by (rule rollback_pair [OF _ assms(2,4,5)])
      then show ?thesis using True i fault reserved
        by (simp add: reserve_key_slot_def slot_outcome_def)
    next
      case False
      with assms(1) have "same_counters db0 db" by (simp add: one_more_none)
      with True i fault False show ?thesis
        by (simp add: reserve_key_slot_def slot_outcome_def)
    qed
  next
    case False
    show ?thesis
    proof (cases "n > cp_rpm kc")
      case over: True
      with True i False n rb show ?thesis
        by (simp add: reserve_key_slot_def slot_outcome_def deny_def)
    next
      case within: False
      have "one_more s w (d_reserved d) True db0 ?db" using taken i by simp
      with True i False n within assms(3) show ?thesis
        by (simp add: reserve_key_slot_def slot_outcome_def split: prod.split)
    qed
  qed
qed

lemma reserve_slots_outcome:
  assumes "counters_ok db" "d_allowed d" "\<not> d_reserved d"
    and "\<not> f ReleaseMinuteRequest" "\<not> f ReleaseKeyMinuteRequest"
    and "cp_rpm kc > 0 \<Longrightarrow> sj_key_id s \<noteq> None"
  shows "slot_outcome s w (cp_rpm pc > 0) (cp_rpm kc > 0) db
    (reserve_slots f s w pc kc p_req k_req d db)"
proof (cases "cp_rpm pc > 0")
  case False
  have "one_more s w (d_reserved d) False db db"
    using assms(3) by (simp add: one_more_none same_counters_refl)
  from reserve_key_slot_outcome [OF this assms(1,2,4,5,6)] False assms(3)
  show ?thesis by (simp add: reserve_slots_def)
next
  case True
  obtain n tab where n:
      "reserve_minute_request (ub_project db) (p_id (sj_project s)) (w_minute w) = (n, tab)"
    by fastforce
  let ?db = "db\<lparr>ub_project := tab\<rparr>"
  have taken: "one_more s w True False db ?db" using one_more_project [of s w db] n by simp
  have "one_more s w True (False \<and> sj_key_id s \<noteq> None) db ?db" using taken by simp
  then obtain db' where rb: "rollback f s w True False ?db = (None, db')" "same_counters db db'"
    by (rule rollback_pair [OF _ assms(1,4,5)])
  have "one_more s w (d_reserved (d\<lparr>d_reserved := True\<rparr>)) False db ?db" using taken by simp
  from reserve_key_slot_outcome [OF this assms(1) _ assms(4,5,6)] assms(2)
  have key: "slot_outcome s w True (cp_rpm kc > 0) db
      (reserve_key_slot f s w pc kc n k_req (d\<lparr>d_reserved := True\<rparr>) ?db)" by simp
  consider "f ReserveMinuteRequest" | "\<not> f ReserveMinuteRequest" "n > cp_rpm pc"
    | "\<not> f ReserveMinuteRequest" "\<not> n > cp_rpm pc" by blast
  then show ?thesis
  proof cases
    case 1
    with True show ?thesis
      by (simp add: reserve_slots_def slot_outcome_def same_counters_refl)
  next
    case 2
    with True n rb assms(3) show ?thesis
      by (simp add: reserve_slots_def slot_outcome_def deny_def)
  next
    case 3
    with True n key show ?thesis by (simp add: reserve_slots_def)
  qed
qed

lemma with_figures_keeps:
  "d_allowed (with_figures pc kc pu ku d) = d_allowed d"
  "d_reserved (with_figures pc kc pu ku d) = d_reserved d"
  "d_reset_requests (with_figures pc kc pu ku d) = d_reset_requests d"
  "d_session_limit (with_figures pc kc pu ku d) = d_session_limit d"
  by (simp_all add: with_figures_def Let_def split: prod.split)

lemma check_subject_outcome:
  assumes "counters_ok db" "\<not> f ReleaseMinuteRequest" "\<not> f ReleaseKeyMinuteRequest"
  shows "slot_outcome s (windows now) (cp_rpm (project_caps (sj_project s)) > 0) (cp_rpm (key_caps s) > 0) db
    (check_subject f now s est db)"
proof -
  have key: "cp_rpm (key_caps s) > 0 \<Longrightarrow> sj_key_id s \<noteq> None"
    by (auto simp: key_caps_def no_caps_def split: if_splits)
  note slots = reserve_slots_outcome [OF assms(1) _ _ assms(2,3) key]
  show ?thesis
    unfolding check_subject_def Let_def
    by (auto simp: slot_outcome_def [of _ _ _ _ _ "((_, _), _)"] admitted_def with_figures_keeps deny_def
        same_counters_refl slots split: sum.split option.split prod.split)
qed

section \<open>The verdict\<close>

text \<open>The limits in the order they are reported, and when one is exceeded.\<close>

definition limit_order :: "(deny_reason \<times> limit_scope) list" where
  "limit_order =
     [(ReasonBudgetMonthly, ScopeProject), (ReasonBudgetMonthly, ScopeKey),
      (ReasonBudgetDaily, ScopeProject), (ReasonBudgetDaily, ScopeKey),
      (ReasonSessionTokenCap, ScopeSession),
      (ReasonTPM, ScopeProject), (ReasonTPM, ScopeKey),
      (ReasonRPM, ScopeProject), (ReasonRPM, ScopeKey)]"

definition count_tokens :: "counts \<Rightarrow> int" where
  "count_tokens c = prompt_tokens c + completion_tokens c"

fun exceeded :: "caps \<Rightarrow> usage_table \<Rightarrow> int \<Rightarrow> usage_windows \<Rightarrow> int \<Rightarrow> deny_reason \<Rightarrow> bool" where
  "exceeded c tab i w est ReasonBudgetMonthly =
     (cp_monthly c > 0 \<and> count_tokens (row tab (i, PeriodMonth, w_month w)) \<ge> cp_monthly c)"
| "exceeded c tab i w est ReasonBudgetDaily =
     (cp_daily c > 0 \<and> count_tokens (row tab (i, PeriodDay, w_day w)) \<ge> cp_daily c)"
| "exceeded c tab i w est ReasonTPM =
     (cp_tpm c > 0 \<and> count_tokens (row tab (i, PeriodMinute, w_minute w)) + est > cp_tpm c)"
| "exceeded c tab i w est ReasonRPM =
     (cp_rpm c > 0 \<and> requests (row tab (i, PeriodMinute, w_minute w)) \<ge> cp_rpm c)"
| "exceeded c tab i w est ReasonSessionTokenCap = False"

fun violated :: "subject \<Rightarrow> usage_windows \<Rightarrow> int \<Rightarrow> usage_db \<Rightarrow> deny_reason \<times> limit_scope \<Rightarrow> bool" where
  "violated s w est db (r, ScopeProject) =
     exceeded (project_caps (sj_project s)) (ub_project db) (p_id (sj_project s)) w est r"
| "violated s w est db (r, ScopeKey) =
     (case sj_key_id s of None \<Rightarrow> False | Some i \<Rightarrow> exceeded (sj_key s) (ub_key db) i w est r)"
| "violated s w est db (r, ScopeSession) =
     (r = ReasonSessionTokenCap \<and> session_capped s \<and>
      session_tokens (ub_session db) (p_id (sj_project s)) (sj_session_id s)
        \<ge> p_session_token_cap (sj_project s))"

definition verdict :: "decision \<Rightarrow> (deny_reason \<times> limit_scope) option" where
  "verdict d = (if d_allowed d then None else Some (the (d_reason d), the (d_scope d)))"

lemma verdict_deny: "verdict (deny d r sc t) = Some (r, sc)"
  by (simp add: verdict_def deny_def)

lemma row_tokens_of: "row_tokens (usage_row_of tab i p start) = count_tokens (row tab (i, p, start))"
  by (simp add: row_tokens_def usage_row_of_def count_tokens_def Let_def)

abbreviation "no_faults \<equiv> (\<lambda>_. False)"

lemma rollback_no_faults: "\<exists>db'. rollback no_faults s w p k db = (None, db')"
  by (auto simp: rollback_def Let_def split: option.split)

lemma key_reserve_value:
  "reserve_key_minute_request tab i m =
     (requests (row tab (i, PeriodMinute, m)) + 1, snd (reserve_key_minute_request tab i m))"
  by (metis key_usage.reserve_value prod.collapse)

lemma project_reserve_value:
  "reserve_minute_request tab i m =
     (requests (row tab (i, PeriodMinute, m)) + 1, snd (reserve_minute_request tab i m))"
  by (metis project_usage.reserve_value prod.collapse)

lemma reserve_key_slot_verdict:
  assumes "d_allowed d"
  shows "verdict (fst (fst (reserve_key_slot no_faults s w pc (key_caps s) p_req k_req d db))) =
     (if violated s w est db (ReasonRPM, ScopeKey) then Some (ReasonRPM, ScopeKey) else None)"
    and "snd (fst (reserve_key_slot no_faults s w pc (key_caps s) p_req k_req d db)) = None"
proof -
  have "verdict (fst (fst (reserve_key_slot no_faults s w pc (key_caps s) p_req k_req d db))) =
     (if violated s w est db (ReasonRPM, ScopeKey) then Some (ReasonRPM, ScopeKey) else None) \<and>
     snd (fst (reserve_key_slot no_faults s w pc (key_caps s) p_req k_req d db)) = None"
  proof (cases "sj_key_id s")
    case None
    with assms show ?thesis
      by (simp add: reserve_key_slot_def verdict_def split: prod.split)
  next
    case (Some i)
    let ?n = "requests (row (ub_key db) (i, PeriodMinute, w_minute w)) + 1"
    obtain tab where n: "reserve_key_minute_request (ub_key db) i (w_minute w) = (?n, tab)"
      using key_reserve_value by blast
    obtain db' where "rollback no_faults s w (d_reserved d) True (db\<lparr>ub_key := tab\<rparr>) = (None, db')"
      using rollback_no_faults by blast
    with Some n assms show ?thesis
      by (simp add: reserve_key_slot_def verdict_deny key_caps_def)
         (simp add: verdict_def split: prod.split)
  qed
  then show "verdict (fst (fst (reserve_key_slot no_faults s w pc (key_caps s) p_req k_req d db))) =
     (if violated s w est db (ReasonRPM, ScopeKey) then Some (ReasonRPM, ScopeKey) else None)"
    "snd (fst (reserve_key_slot no_faults s w pc (key_caps s) p_req k_req d db)) = None" by blast+
qed

lemma violated_key_rpm_project:
  "violated s w est (db\<lparr>ub_project := tab\<rparr>) (r, ScopeKey) = violated s w est db (r, ScopeKey)"
  by (simp split: option.split)

lemma reserve_slots_verdict:
  assumes "d_allowed d"
  shows "verdict (fst (fst (reserve_slots no_faults s w (project_caps (sj_project s)) (key_caps s) p_req k_req d db))) =
     find (violated s w est db) [(ReasonRPM, ScopeProject), (ReasonRPM, ScopeKey)]"
    and "snd (fst (reserve_slots no_faults s w (project_caps (sj_project s)) (key_caps s) p_req k_req d db)) = None"
proof -
  let ?pc = "project_caps (sj_project s)"
  let ?n = "requests (row (ub_project db) (p_id (sj_project s), PeriodMinute, w_minute w)) + 1"
  obtain tab where n: "reserve_minute_request (ub_project db) (p_id (sj_project s)) (w_minute w) = (?n, tab)"
    using project_reserve_value by blast
  obtain db' where rb: "rollback no_faults s w True False (db\<lparr>ub_project := tab\<rparr>) = (None, db')"
    using rollback_no_faults by blast
  have res: "d_allowed (d\<lparr>d_reserved := True\<rparr>)" using assms by simp
  note key = reserve_key_slot_verdict [OF assms, where db = db]
  note key' = reserve_key_slot_verdict [OF res, where db = "db\<lparr>ub_project := tab\<rparr>"]
  have "verdict (fst (fst (reserve_slots no_faults s w ?pc (key_caps s) p_req k_req d db))) =
       find (violated s w est db) [(ReasonRPM, ScopeProject), (ReasonRPM, ScopeKey)] \<and>
     snd (fst (reserve_slots no_faults s w ?pc (key_caps s) p_req k_req d db)) = None"
  proof (cases "cp_rpm ?pc > 0")
    case False
    then show ?thesis
      by (simp add: reserve_slots_def key(1) [where est = est] key(2) del: violated.simps(2))
  next
    case True
    then show ?thesis
      by (simp add: reserve_slots_def n rb verdict_deny key'(1) [where est = est] key'(2) violated_key_rpm_project
          del: violated.simps(2))
  qed
  then show "verdict (fst (fst (reserve_slots no_faults s w ?pc (key_caps s) p_req k_req d db))) =
       find (violated s w est db) [(ReasonRPM, ScopeProject), (ReasonRPM, ScopeKey)]"
    "snd (fst (reserve_slots no_faults s w ?pc (key_caps s) p_req k_req d db)) = None" by blast+
qed

lemma find_fst_map:
  "\<forall>c \<in> set cs. fst c = P (g c) \<Longrightarrow> map_option g (find fst cs) = find P (map g cs)"
  by (induction cs) auto

text \<open>The candidate list is the first seven entries of the order.\<close>

lemma find_over_limits:
  assumes d: "d_session_limit d = (if session_capped s then p_session_token_cap (sj_project s) else 0)"
    and s_used: "session_capped s \<Longrightarrow>
      s_used = session_tokens (ub_session db) (p_id (sj_project s)) (sj_session_id s)"
    and pu: "pu = get_usage (ub_project db) (p_id (sj_project s)) w"
    and ku: "ku = (case sj_key_id s of None \<Rightarrow> zero_rows w | Some k \<Rightarrow> get_key_usage (ub_key db) k w)"
  shows "map_option (\<lambda>(_, r, sc, _). (r, sc))
      (find fst (over_limits now w (project_caps (sj_project s)) (key_caps s) d s_used est pu ku))
    = find (violated s w est db) (take 7 limit_order)"
proof -
  have ses: "(d_session_limit d > 0 \<and> s_used \<ge> d_session_limit d)
      = violated s w est db (ReasonSessionTokenCap, ScopeSession)"
  proof (cases "session_capped s")
    case True
    then have "p_session_token_cap (sj_project s) > 0" by (simp add: session_capped_def)
    with True s_used show ?thesis by (simp add: d)
  qed (simp add: d)
  have key: "\<And>r. violated s w est db (r, ScopeKey) \<longleftrightarrow> sj_key_id s \<noteq> None \<and>
      exceeded (key_caps s) (ub_key db) (the (sj_key_id s)) w est r"
    by (simp add: key_caps_def split: option.split)
  define cs where "cs = over_limits now w (project_caps (sj_project s)) (key_caps s) d s_used est pu ku"
  have order: "map (\<lambda>(_, r, sc, _). (r, sc)) cs = take 7 limit_order"
    by (simp add: cs_def over_limits_def limit_order_def split: prod.split)
  have "\<forall>c \<in> set cs. fst c = violated s w est db ((\<lambda>(_, r, sc, _). (r, sc)) c)"
  proof (cases "sj_key_id s")
    case None
    then show ?thesis
      by (simp add: cs_def over_limits_def pu ku get_usage_def row_tokens_of key ses
          zero_rows_def key_caps_def no_caps_def del: violated.simps(2,3))
  next
    case (Some i)
    then show ?thesis
      by (simp add: cs_def over_limits_def pu ku get_usage_def get_key_usage_def row_tokens_of key ses
          del: violated.simps(2,3))
  qed
  then have "map_option (\<lambda>(_, r, sc, _). (r, sc)) (find fst cs)
      = find (violated s w est db) (map (\<lambda>(_, r, sc, _). (r, sc)) cs)"
    by (rule find_fst_map)
  then show ?thesis unfolding order by (simp only: cs_def)
qed

lemma find_append: "find P (xs @ ys) = (case find P xs of None \<Rightarrow> find P ys | Some x \<Rightarrow> Some x)"
  by (induction xs) auto

lemma limit_order_split:
  "limit_order = take 7 limit_order @ [(ReasonRPM, ScopeProject), (ReasonRPM, ScopeKey)]"
  by (simp add: limit_order_def)

lemma check_subject_verdict:
  "verdict (fst (fst (check_subject no_faults now s est db))) =
     find (violated s (windows now) est db) limit_order"
  "snd (fst (check_subject no_faults now s est db)) = None"
proof -
  define w where "w = windows now"
  define pc where "pc = project_caps (sj_project s)"
  define kc where "kc = key_caps s"
  define pu where "pu = get_usage (ub_project db) (p_id (sj_project s)) w"
  define ku where "ku = (case sj_key_id s of None \<Rightarrow> zero_rows w | Some k \<Rightarrow> get_key_usage (ub_key db) k w)"
  define u where "u = (if session_capped s
      then session_tokens (ub_session db) (p_id (sj_project s)) (sj_session_id s) else 0)"
  define d0 where "d0 = with_figures pc kc pu ku (admitted (w_minute w + minute - now))"
  define d where "d = (if session_capped s
      then d0\<lparr>d_session_limit := p_session_token_cap (sj_project s), d_session_used := u\<rparr> else d0)"
  have d0: "d_allowed d0" "d_session_limit d0 = 0"
    by (simp_all add: d0_def with_figures_keeps admitted_def)
  have reads: "read_key_usage no_faults s w db = Inr ku" "read_session no_faults s db = Inr u"
    by (simp_all add: read_key_usage_def read_session_def answer_def ku_def u_def split: option.split)
  have check: "check_subject no_faults now s est db =
      (case find fst (over_limits now w pc kc d u est pu ku) of
         Some (_, reason, scope, retry_at) \<Rightarrow> ((deny d reason scope retry_at, None), db)
       | None \<Rightarrow> reserve_slots no_faults s w pc kc (ur_requests (fst pu)) (ur_requests (fst ku)) d db)"
    by (simp only: check_subject_def Let_def answer_def if_False sum.case w_def [symmetric]
        pc_def [symmetric] kc_def [symmetric] reads pu_def [symmetric] d0_def [symmetric] d_def [symmetric])
  have ov: "map_option (\<lambda>(_, r, sc, _). (r, sc)) (find fst (over_limits now w pc kc d u est pu ku))
      = find (violated s w est db) (take 7 limit_order)"
    unfolding pc_def kc_def
    by (rule find_over_limits) (simp_all add: d_def d0 u_def pu_def ku_def)
  have d_ok: "d_allowed d" by (simp add: d_def d0)
  note slots = reserve_slots_verdict [OF d_ok, where s = s and w = w and db = db, folded pc_def kc_def]
  have "verdict (fst (fst (check_subject no_faults now s est db))) = find (violated s w est db) limit_order
      \<and> snd (fst (check_subject no_faults now s est db)) = None"
  proof (cases "find fst (over_limits now w pc kc d u est pu ku)")
    case None
    with ov have "find (violated s w est db) (take 7 limit_order) = None" by simp
    with None check slots(1) [where est = est] slots(2) show ?thesis
      by (subst limit_order_split) (simp add: find_append del: violated.simps)
  next
    case (Some c)
    then obtain b r sc t where c: "find fst (over_limits now w pc kc d u est pu ku) = Some (b, r, sc, t)"
      by (cases c) auto
    with ov have "find (violated s w est db) (take 7 limit_order) = Some (r, sc)" by simp
    with c check show ?thesis
      by (subst limit_order_split) (simp add: find_append verdict_deny del: violated.simps)
  qed
  then show "verdict (fst (fst (check_subject no_faults now s est db))) =
     find (violated s (windows now) est db) limit_order"
    "snd (fst (check_subject no_faults now s est db)) = None" by (simp_all add: w_def)
qed

section \<open>Checking and then recording\<close>

definition charged_rows :: "int \<Rightarrow> usage_windows \<Rightarrow> usage_key set" where
  "charged_rows i w = {(i, PeriodMinute, w_minute w), (i, PeriodDay, w_day w), (i, PeriodMonth, w_month w)}"

text \<open>One request with its tokens, on the three current rows of one owner.\<close>

definition charged_once :: "int \<Rightarrow> usage_windows \<Rightarrow> int \<Rightarrow> int \<Rightarrow> usage_table \<Rightarrow> usage_table \<Rightarrow> bool" where
  "charged_once i w prompt completion tab tab' \<longleftrightarrow>
     (\<forall>k. row tab' k =
        (if k \<in> charged_rows i w
         then add_counts (row tab k)
           \<lparr>requests = 1, prompt_tokens = prompt, completion_tokens = completion\<rparr>
         else row tab k))"

lemma charged_once_record:
  assumes "\<forall>k. row tab1 k =
      (if r \<and> k = (i, PeriodMinute, w_minute w)
       then (row tab k)\<lparr>requests := requests (row tab k) + 1\<rparr> else row tab k)"
  shows "charged_once i w p c tab (record_usage tab1 i w p c (\<not> r))"
  using assms by (auto simp: charged_once_def charged_rows_def row_record add_counts_def)

lemma record_subject_no_faults:
  "record_subject no_faults now s p c b db =
     (None, \<lparr>ub_project = record_usage (ub_project db) (p_id (sj_project s)) (windows now) p c b,
       ub_key = (case sj_key_id s of None \<Rightarrow> ub_key db
         | Some k \<Rightarrow> record_key_usage (ub_key db) k (windows now) p c (cp_rpm (sj_key s) = 0)),
       ub_session = (if sj_session_id s = [] then ub_session db
         else record_session_usage (ub_session db) (p_id (sj_project s)) (sj_session_id s) p c)\<rparr>)"
  by (cases db) (simp add: record_subject_def Let_def split: option.split)

lemma check_then_record:
  assumes check: "check_subject f now s est db = ((d, None), db1)" "d_allowed d"
    and ok: "counters_ok db" "\<not> f ReleaseMinuteRequest" "\<not> f ReleaseKeyMinuteRequest"
    and rpm: "0 \<le> cp_rpm (sj_key s)"
    and same: "windows now' = windows now"
    and recorded: "record_subject no_faults now' s p c (\<not> d_reserved d) db1 = (None, db2)"
  shows "charged_once (p_id (sj_project s)) (windows now) p c (ub_project db) (ub_project db2)"
    and "sj_key_id s = Some i \<Longrightarrow> charged_once i (windows now) p c (ub_key db) (ub_key db2)"
proof -
  let ?w = "windows now"
  have out: "d_reserved d = (cp_rpm (project_caps (sj_project s)) > 0)"
    "one_more s ?w (d_reserved d) (cp_rpm (key_caps s) > 0) db db1"
    using check_subject_outcome [OF ok, of s now est] check by (auto simp: slot_outcome_def)
  have db2: "ub_project db2 = record_usage (ub_project db1) (p_id (sj_project s)) ?w p c (\<not> d_reserved d)"
    "sj_key_id s = Some i \<Longrightarrow>
       ub_key db2 = record_usage (ub_key db1) i ?w p c (\<not> cp_rpm (sj_key s) > 0)" for i
    using recorded rpm same by (auto simp: record_subject_no_faults record_key_usage_def)
  show "charged_once (p_id (sj_project s)) ?w p c (ub_project db) (ub_project db2)"
    unfolding db2(1) using out(2) by (intro charged_once_record) (simp add: one_more_def)
  show "charged_once i ?w p c (ub_key db) (ub_key db2)" if "sj_key_id s = Some i"
    unfolding db2(2) [OF that] using out(2) that
    by (intro charged_once_record) (simp add: one_more_def key_caps_def)
qed

section \<open>How long a denied client waits\<close>

lemma reset_bounds:
  "0 < w_minute (windows t) + minute - t" "w_minute (windows t) + minute - t \<le> minute"
  using windows_minute [of t] by linarith+

lemma deny_retry_ge: "r \<noteq> ReasonSessionTokenCap \<Longrightarrow> second \<le> d_retry_after (deny d r sc t)"
  by (simp add: deny_def)

definition retry_ok :: "decision \<Rightarrow> bool" where
  "retry_ok d \<longleftrightarrow> d_allowed d \<or>
     (case d_reason d of
        None \<Rightarrow> False
      | Some ReasonSessionTokenCap \<Rightarrow> d_retry_after d = 0
      | Some ReasonBudgetMonthly \<Rightarrow> second \<le> d_retry_after d
      | Some ReasonBudgetDaily \<Rightarrow> second \<le> d_retry_after d \<and> d_retry_after d \<le> day_ns
      | Some _ \<Rightarrow> second \<le> d_retry_after d \<and> d_retry_after d \<le> minute)"

lemma retry_ok_allowed: "d_allowed d \<Longrightarrow> retry_ok d"
  by (simp add: retry_ok_def)

lemma retry_ok_minute:
  assumes "t \<le> minute" "r = ReasonRPM \<or> r = ReasonTPM"
  shows "retry_ok (deny d r sc t)"
  using assms by (auto simp: retry_ok_def deny_def)

lemma reserve_key_slot_retry:
  assumes "d_allowed d" "d_reset_requests d \<le> minute"
  shows "retry_ok (fst (fst (reserve_key_slot f s w pc kc p_req k_req d db)))"
  using assms retry_ok_minute
  by (auto simp: reserve_key_slot_def Let_def retry_ok_allowed split: option.split prod.split)

lemma reserve_slots_retry:
  assumes "d_allowed d" "d_reset_requests d \<le> minute"
  shows "retry_ok (fst (fst (reserve_slots f s w pc kc p_req k_req d db)))"
  using assms retry_ok_minute reserve_key_slot_retry
  by (auto simp: reserve_slots_def Let_def retry_ok_allowed split: option.split prod.split)

lemma over_limits_retry:
  assumes "c \<in> set (over_limits now (windows now) pc kc d u est pu ku)"
    and "d_reset_requests d \<le> minute"
  shows "retry_ok (deny d' (fst (snd c)) (fst (snd (snd c))) (snd (snd (snd c))))"
proof -
  have "next_day (w_day (windows now)) - now \<le> day_ns"
    using windows_day [of now] by (simp add: next_day_def)
  with assms show ?thesis
    by (auto simp: over_limits_def retry_ok_def deny_def split: prod.splits)
qed

lemma check_subject_retry: "retry_ok (fst (fst (check_subject f now s est db)))"
proof -
  have "retry_ok (deny d r sc t)"
    if "find fst (over_limits now (windows now) pc kc d u est pu ku) = Some (b, r, sc, t)"
      "d_reset_requests d \<le> minute" for pc kc d u pu ku b r sc t
    using over_limits_retry [OF conjunct1 [OF find_SomeD [OF that(1)]] that(2)] by simp
  then show ?thesis
    unfolding check_subject_def Let_def using reset_bounds(2) [of now]
    by (auto simp: retry_ok_allowed admitted_def with_figures_keeps reserve_slots_retry
        split: sum.split option.split prod.split)
qed

section \<open>Purging\<close>

definition keep_span :: "period \<Rightarrow> duration" where
  "keep_span p = (case p of PeriodMinute \<Rightarrow> KeepMinuteRows | PeriodDay \<Rightarrow> KeepDayRows | PeriodMonth \<Rightarrow> KeepMonthRows)"

lemma purge_loop_keeps:
  assumes "\<forall>(q, keep) \<in> set ps. keep = keep_span q"
    and "now - keep_span p \<le> start"
  shows "row (ub_project (snd (purge_loop f now ps db))) (i, p, start) = row (ub_project db) (i, p, start)"
    and "row (ub_key (snd (purge_loop f now ps db))) (i, p, start) = row (ub_key db) (i, p, start)"
    and "ub_session (snd (purge_loop f now ps db)) = ub_session db"
proof -
  have "row (ub_project (snd (purge_loop f now ps db))) (i, p, start) = row (ub_project db) (i, p, start) \<and>
    row (ub_key (snd (purge_loop f now ps db))) (i, p, start) = row (ub_key db) (i, p, start) \<and>
    ub_session (snd (purge_loop f now ps db)) = ub_session db"
    using assms(1)
  proof (induction ps arbitrary: db)
    case (Cons c rest)
    obtain q keep where c: "c = (q, keep)" by fastforce
    have keep: "keep = keep_span q" using Cons.prems c by simp
    with assms(2) have "\<not> (p = q \<and> start < now - keep_span q)" by (metis not_le)
    note kept = row_delete_kept [OF this]
    show ?case
    proof (cases "f (q, False) \<or> f (q, True)")
      case True
      then show ?thesis by (auto simp: Let_def kept c keep)
    next
      case False
      with Cons show ?thesis by (simp add: Let_def kept c keep delete_key_usage_before_def)
    qed
  qed simp
  then show "row (ub_project (snd (purge_loop f now ps db))) (i, p, start) = row (ub_project db) (i, p, start)"
    "row (ub_key (snd (purge_loop f now ps db))) (i, p, start) = row (ub_key db) (i, p, start)"
    "ub_session (snd (purge_loop f now ps db)) = ub_session db" by blast+
qed

lemma purge_usage_keeps:
  assumes "now - keep_span p \<le> start"
  shows "row (ub_project (snd (purge_usage f now db))) (i, p, start) = row (ub_project db) (i, p, start)"
    and "row (ub_key (snd (purge_usage f now db))) (i, p, start) = row (ub_key db) (i, p, start)"
    and "ub_session (snd (purge_usage f now db)) = ub_session db"
proof -
  have "\<forall>(q, keep) \<in> set [(PeriodMinute, KeepMinuteRows), (PeriodDay, KeepDayRows),
      (PeriodMonth, KeepMonthRows)]. keep = keep_span q" by (simp add: keep_span_def)
  note kept = purge_loop_keeps [OF this assms, folded purge_usage_def]
  show "row (ub_project (snd (purge_usage f now db))) (i, p, start) = row (ub_project db) (i, p, start)"
    "row (ub_key (snd (purge_usage f now db))) (i, p, start) = row (ub_key db) (i, p, start)"
    "ub_session (snd (purge_usage f now db)) = ub_session db" by (rule kept)+
qed

lemma current_windows_kept:
  assumes "(i, p, start) \<in> charged_rows i (windows now)"
  shows "now - keep_span p \<le> start"
  using assms windows_minute [of now] windows_day [of now] windows_month [of now]
  by (auto simp: charged_rows_def keep_span_def KeepMinuteRows_def KeepDayRows_def KeepMonthRows_def next_day_def)

section \<open>Properties\<close>

text \<open>C15: A check whose store calls all answer denies exactly when a limit is exceeded, and names the first one
  in the documented order: monthly, daily, session cap, tokens per minute, requests per minute, the project before
  the key.\<close>

theorem check_names_first_violation:
  "verdict (fst (fst (check_subject no_faults now s est db))) =
     find (violated s (windows now) est db) limit_order"
  by (rule check_subject_verdict(1))

text \<open>C2: A check that does not admit the request, because it denied it or because a store call failed, leaves
  every counter as it was, as long as the releases themselves do not fail.\<close>

theorem refused_check_leaves_no_trace:
  assumes "check_subject f now s est db = ((d, e), db')" "e \<noteq> None \<or> \<not> d_allowed d"
    and "counters_ok db" "\<not> f ReleaseMinuteRequest" "\<not> f ReleaseKeyMinuteRequest"
  shows "same_counters db db'"
  using check_subject_outcome [OF assms(3-5), of s now est] assms(1,2)
  by (auto simp: slot_outcome_def split: if_splits)

definition sample_project :: project where
  "sample_project = \<lparr>p_id = 1, p_name = ''p'', p_model_connection_id = 1, p_rag_store_id = None,
     p_api_key_prefix = [], p_system_prompt = [], p_rate_limit_rpm = 2, p_rate_limit_tpm = 0,
     p_budget_daily_tokens = 1000, p_budget_monthly_tokens = 0, p_context_placement = [],
     p_retrieval_policy = [], p_query_strategy = [], p_history_turns_for_query = 3,
     p_query_model_connection_id = None, p_tool_allow = [], p_tool_deny = [], p_session_token_cap = 0,
     p_member_ids = []\<rparr>"

definition sample_subject :: subject where
  "sample_subject = \<lparr>sj_project = sample_project, sj_key_id = Some 9,
     sj_key = \<lparr>cp_rpm = 1, cp_tpm = 0, cp_daily = 0, cp_monthly = 0\<rparr>, sj_session_id = []\<rparr>"

text \<open>The key's minute of this database is full.\<close>

definition sample_db :: usage_db where
  "sample_db = \<lparr>ub_project = [], ub_key = [((9, PeriodMinute, w_minute (windows 0)), zero_counts\<lparr>requests := 1\<rparr>)],
     ub_session = []\<rparr>"

lemma sample_db_ok: "counters_ok sample_db"
  by (simp add: counters_ok_def sample_db_def row_def zero_counts_def)

lemma sample_check_denied:
  "\<not> d_allowed (fst (fst (check_subject no_faults 0 sample_subject 10 sample_db)))"
proof -
  have "find (violated sample_subject (windows 0) 10 sample_db) limit_order = Some (ReasonRPM, ScopeKey)"
    by (simp add: limit_order_def sample_subject_def sample_project_def sample_db_def project_caps_def
        count_tokens_def row_def zero_counts_def session_capped_def)
  then show ?thesis
    using check_subject_verdict(1) [of 0 sample_subject 10 sample_db]
    by (auto simp: verdict_def split: if_splits)
qed

theorem refused_check_leaves_no_trace_witness:
  "same_counters sample_db (snd (check_subject no_faults 0 sample_subject 10 sample_db))"
proof (rule refused_check_leaves_no_trace)
  show "check_subject no_faults 0 sample_subject 10 sample_db =
    ((fst (fst (check_subject no_faults 0 sample_subject 10 sample_db)),
      snd (fst (check_subject no_faults 0 sample_subject 10 sample_db))),
     snd (check_subject no_faults 0 sample_subject 10 sample_db))" by simp
qed (simp_all add: sample_check_denied sample_db_ok)

text \<open>C18: A request that is checked and later recorded in the same windows counts exactly once, with its
  tokens, on the current rows of its project and of its key, whichever of the two reserved a slot. It is so
  where no release of the check and no statement of the record fails.\<close>

theorem checked_request_counts_once:
  assumes "check_subject f now s est db = ((d, None), db1)" "d_allowed d"
    and "counters_ok db" "\<not> f ReleaseMinuteRequest" "\<not> f ReleaseKeyMinuteRequest"
    and "0 \<le> cp_rpm (sj_key s)" "windows now' = windows now"
    and "record_subject no_faults now' s p c (\<not> d_reserved d) db1 = (None, db2)"
    and "sj_key_id s = Some i"
  shows "charged_once (p_id (sj_project s)) (windows now) p c (ub_project db) (ub_project db2)
    \<and> charged_once i (windows now) p c (ub_key db) (ub_key db2)"
  using check_then_record(1) [OF assms(1-8)] check_then_record(2) [OF assms(1-8) assms(9)] by blast

definition empty_db :: usage_db where
  "empty_db = \<lparr>ub_project = [], ub_key = [], ub_session = []\<rparr>"

definition empty_check :: "(decision \<times> store_call option) \<times> usage_db" where
  "empty_check = check_subject no_faults 0 sample_subject 10 empty_db"

lemma empty_check_allowed: "d_allowed (fst (fst empty_check))" "snd (fst empty_check) = None"
proof -
  have "find (violated sample_subject (windows 0) 10 empty_db) limit_order = None"
    by (simp add: limit_order_def sample_subject_def sample_project_def empty_db_def project_caps_def
        count_tokens_def row_def zero_counts_def session_capped_def)
  then show "d_allowed (fst (fst empty_check))"
    using check_subject_verdict(1) [of 0 sample_subject 10 empty_db]
    by (simp add: empty_check_def verdict_def split: if_splits)
  show "snd (fst empty_check) = None" by (simp add: empty_check_def check_subject_verdict(2))
qed

theorem checked_request_counts_once_witness:
  "charged_once 1 (windows 0) 10 20 [] (ub_project (snd (record_subject no_faults 1 sample_subject 10 20
     (\<not> d_reserved (fst (fst empty_check))) (snd empty_check))))"
proof -
  have w: "windows 1 = windows 0" by (simp add: windows_def month_day_of_def day_number_def)
  have rec: "fst (record_subject no_faults 1 sample_subject 10 20 b db) = None" for b db
    by (simp add: record_subject_no_faults)
  have "check_subject no_faults 0 sample_subject 10 empty_db = ((fst (fst empty_check), None), snd empty_check)"
    using empty_check_allowed(2) by (simp add: empty_check_def prod_eq_iff)
  from checked_request_counts_once [OF this empty_check_allowed(1) _ _ _ _ w, of 10 20
      "snd (record_subject no_faults 1 sample_subject 10 20 (\<not> d_reserved (fst (fst empty_check))) (snd empty_check))" 9]
  show ?thesis using rec
    by (simp add: counters_ok_def empty_db_def row_def zero_counts_def sample_subject_def sample_project_def prod_eq_iff)
qed

text \<open>A denied request always learns how long to wait: at least a second and at most until the violated
  window resets, except for the session cap, which never resets and gives no hint.\<close>

theorem denial_retry_after: "retry_ok (fst (fst (check_subject f now s est db)))"
  by (rule check_subject_retry)

text \<open>Purging old counters, however far it gets before a delete fails, keeps every row a current window
  refers to, in both tiers, and the minute rows of the last hour the forecast reads.\<close>

theorem purge_keeps_current_rows:
  assumes "k \<in> charged_rows i (windows now) \<or> k = (i, PeriodMinute, m) \<and> now - hour \<le> m"
  shows "row (ub_project (snd (purge_usage f now db))) k = row (ub_project db) k
    \<and> row (ub_key (snd (purge_usage f now db))) k = row (ub_key db) k"
proof -
  obtain j p start where k: "k = (j, p, start)" by (cases k) auto
  have "now - keep_span p \<le> start"
    using assms current_windows_kept [of i p start now] k
    by (auto simp: charged_rows_def keep_span_def KeepMinuteRows_def)
  from purge_usage_keeps(1,2) [OF this] k show ?thesis by blast
qed

theorem purge_keeps_current_rows_witness:
  "row (ub_key (snd (purge_usage no_faults 0 sample_db))) (9, PeriodMinute, w_minute (windows 0)) =
     row (ub_key sample_db) (9, PeriodMinute, w_minute (windows 0))"
  using purge_keeps_current_rows [of "(9, PeriodMinute, w_minute (windows 0))" 9 0 0 no_faults sample_db]
  by (simp add: charged_rows_def)

end
