(* ===== verification/Admission.thy ===== *)
theory Admission
  imports Limiter
begin

text \<open>
  Concurrent checks of one project's minute slot (\<open>CheckSubject\<close>,
  \<open>internal/limits/limits.go:242-283\<close>). Every request runs its own check on a goroutine
  or on another replica, and the statements of different checks interleave; only a
  single statement is atomic. A request is what it has left to do, and the state is the
  table and the multiset of the requests in the minute.
\<close>

section \<open>The steps\<close>

text \<open>
  \<open>Arrived\<close>: nothing reserved yet. \<open>Holding\<close>: the reservation answered at most the cap.
  \<open>GivingBack\<close>: a denied or failed request that still has its release to run.
  \<open>Refused\<close>: over. \<open>Served\<close>: recorded after the upstream call.
\<close>

datatype slot = Arrived | Holding | GivingBack | Refused | Served

record minute_state =
  ms_tab :: usage_table
  ms_slots :: "slot multiset"

text \<open>The statements of \<open>CheckSubject\<close> and \<open>RecordSubject\<close> one request runs on the row.\<close>

inductive slot_step :: "int \<Rightarrow> time \<Rightarrow> int \<Rightarrow> minute_state \<Rightarrow> minute_state \<Rightarrow> bool"
  for pid :: int and m :: time and rpm :: int where
  arrive: "slot_step pid m rpm \<lparr>ms_tab = t, ms_slots = M\<rparr> \<lparr>ms_tab = t, ms_slots = add_mset Arrived M\<rparr>"
| reserved: "reserve_minute_request t pid m = (n, t') \<Longrightarrow> \<not> n > rpm \<Longrightarrow>
    slot_step pid m rpm \<lparr>ms_tab = t, ms_slots = add_mset Arrived M\<rparr> \<lparr>ms_tab = t', ms_slots = add_mset Holding M\<rparr>"
| overflow: "reserve_minute_request t pid m = (n, t') \<Longrightarrow> n > rpm \<Longrightarrow>
    slot_step pid m rpm \<lparr>ms_tab = t, ms_slots = add_mset Arrived M\<rparr> \<lparr>ms_tab = t', ms_slots = add_mset GivingBack M\<rparr>"
| key_denied: "slot_step pid m rpm \<lparr>ms_tab = t, ms_slots = add_mset Holding M\<rparr>
    \<lparr>ms_tab = t, ms_slots = add_mset GivingBack M\<rparr>"
| release: "slot_step pid m rpm \<lparr>ms_tab = t, ms_slots = add_mset GivingBack M\<rparr>
    \<lparr>ms_tab = release_minute_request t pid m, ms_slots = add_mset Refused M\<rparr>"
| release_failed: "slot_step pid m rpm \<lparr>ms_tab = t, ms_slots = add_mset GivingBack M\<rparr>
    \<lparr>ms_tab = t, ms_slots = add_mset Refused M\<rparr>"
| recorded: "slot_step pid m rpm \<lparr>ms_tab = t, ms_slots = add_mset Holding M\<rparr>
    \<lparr>ms_tab = record_usage t pid w p c False, ms_slots = add_mset Served M\<rparr>"
| other: "j \<noteq> pid \<Longrightarrow> slot_step pid m rpm \<lparr>ms_tab = t, ms_slots = M\<rparr>
    \<lparr>ms_tab = record_usage t j w p c b, ms_slots = M\<rparr>"

inductive reachable :: "int \<Rightarrow> time \<Rightarrow> int \<Rightarrow> usage_table \<Rightarrow> minute_state \<Rightarrow> bool"
  for pid :: int and m :: time and rpm :: int and t0 :: usage_table where
  start: "reachable pid m rpm t0 \<lparr>ms_tab = t0, ms_slots = {#}\<rparr>"
| step: "reachable pid m rpm t0 s \<Longrightarrow> slot_step pid m rpm s s' \<Longrightarrow> reachable pid m rpm t0 s'"

definition admitted_count :: "slot multiset \<Rightarrow> nat" where
  "admitted_count M = count M Holding + count M Served"

definition taken_count :: "slot multiset \<Rightarrow> nat" where
  "taken_count M = admitted_count M + count M GivingBack"

section \<open>The invariant\<close>

text \<open>
  The row counts at least every request that took a slot and has not given it back,
  and the admitted ones never exceed the cap.
\<close>

definition slots_ok :: "int \<Rightarrow> time \<Rightarrow> int \<Rightarrow> minute_state \<Rightarrow> bool" where
  "slots_ok pid m rpm s \<longleftrightarrow>
     int (taken_count (ms_slots s)) \<le> requests (row (ms_tab s) (pid, PeriodMinute, m)) \<and>
     (admitted_count (ms_slots s) = 0 \<or> int (admitted_count (ms_slots s)) \<le> rpm)"

inductive_cases slot_stepE: "slot_step pid m rpm s s'"

lemma slots_ok_step:
  assumes "slot_step pid m rpm s s'" "slots_ok pid m rpm s"
  shows "slots_ok pid m rpm s'"
  using assms
proof cases
  case (reserved t n t' M)
  then have "n = requests (row t (pid, PeriodMinute, m)) + 1"
    "requests (row t' (pid, PeriodMinute, m)) = n"
    using project_usage.reserve_value [of t pid m] project_usage.reserve_row [of t pid m] by auto
  with reserved assms(2) show ?thesis
    by (simp add: slots_ok_def taken_count_def admitted_count_def)
next
  case (overflow t n t' M)
  then have "n = requests (row t (pid, PeriodMinute, m)) + 1"
    "requests (row t' (pid, PeriodMinute, m)) = n"
    using project_usage.reserve_value [of t pid m] project_usage.reserve_row [of t pid m] by auto
  with overflow assms(2) show ?thesis
    by (simp add: slots_ok_def taken_count_def admitted_count_def)
next
  case (other j t M w p c b)
  with assms(2) project_usage.other_owner(3) [of pid j t] show ?thesis
    by (simp add: slots_ok_def)
qed (use assms(2) in \<open>auto simp: slots_ok_def taken_count_def admitted_count_def
      project_usage.release_row project_usage.charge_row add_counts_def\<close>)

lemma reachable_slots_ok:
  assumes "reachable pid m rpm t0 s" "0 \<le> requests (row t0 (pid, PeriodMinute, m))"
  shows "slots_ok pid m rpm s"
  using assms(1)
proof induction
  case start
  with assms(2) show ?case by (simp add: slots_ok_def taken_count_def admitted_count_def)
next
  case (step s s')
  then show ?case by (blast intro: slots_ok_step)
qed

section \<open>Properties\<close>

text \<open>C16: However the statements of concurrent checks interleave, failed releases included, a minute never
  admits more requests than the project's limit.\<close>

theorem minute_never_over_admits:
  assumes "reachable pid m rpm t0 s" "0 \<le> requests (row t0 (pid, PeriodMinute, m))" "0 < rpm"
  shows "int (admitted_count (ms_slots s)) \<le> rpm"
  using reachable_slots_ok [OF assms(1,2)] assms(3) by (auto simp: slots_ok_def)

text \<open>Two checks against a limit of one: the second overflows and gives its slot back.\<close>

definition one_slot :: minute_state where
  "one_slot = \<lparr>ms_tab = snd (reserve_minute_request (snd (reserve_minute_request [] 1 0)) 1 0),
     ms_slots = {#GivingBack, Holding#}\<rparr>"

lemma one_slot_reachable: "reachable 1 0 1 [] one_slot"
proof -
  let ?t1 = "snd (reserve_minute_request [] 1 0)"
  let ?t2 = "snd (reserve_minute_request ?t1 1 0)"
  have r1: "reserve_minute_request [] 1 0 = (1, ?t1)"
    by (simp add: reserve_minute_request_def row_def zero_counts_def upsert_def add_counts_def Let_def)
  have r2: "reserve_minute_request ?t1 1 0 = (2, ?t2)"
    by (simp add: reserve_minute_request_def row_def zero_counts_def upsert_def add_counts_def Let_def)
  have "reachable 1 0 1 [] \<lparr>ms_tab = [], ms_slots = {#Arrived, Arrived#}\<rparr>"
    by (rule reachable.step [OF reachable.step [OF reachable.start slot_step.arrive] slot_step.arrive])
  then have "reachable 1 0 1 [] \<lparr>ms_tab = ?t1, ms_slots = {#Holding, Arrived#}\<rparr>"
    by (rule reachable.step) (rule slot_step.reserved [OF r1], simp)
  then have "reachable 1 0 1 [] \<lparr>ms_tab = ?t1, ms_slots = {#Arrived, Holding#}\<rparr>"
    by (simp add: add_mset_commute)
  then have "reachable 1 0 1 [] \<lparr>ms_tab = ?t2, ms_slots = {#GivingBack, Holding#}\<rparr>"
    by (rule reachable.step) (rule slot_step.overflow [OF r2], simp)
  then show ?thesis by (simp add: one_slot_def)
qed

theorem minute_never_over_admits_witness: "int (admitted_count (ms_slots one_slot)) \<le> 1"
  by (rule minute_never_over_admits [OF one_slot_reachable]) (simp_all add: row_def zero_counts_def)

end
