(* ===== verification/Identity.thy ===== *)
theory Identity
  imports GoStrings Store Route Limiter
begin

text \<open>
  From the headers of a request to its principal (\<open>internal/gateway/gateway.go\<close>:
  \<open>gatewayCredential\<close>, \<open>identify\<close>, \<open>explainMiss\<close>, \<open>selectProject\<close>, \<open>checkProject\<close>,
  \<open>checkScope\<close>, \<open>visibleModels\<close>, \<open>getModel\<close>; \<open>pipeline.go\<close>: \<open>authenticate\<close>;
  \<open>tools.go\<close>: \<open>sessionFrom\<close>). A handler that answers the client itself returns the
  answer on the left; the request context it builds is the value on the right.
\<close>

section \<open>Requests and answers\<close>

text \<open>The headers the gateway reads, each the list of its values in arrival order.\<close>

record request =
  rq_authorization :: "bytes list"
  rq_x_api_key :: "bytes list"
  rq_project :: "bytes list"
  rq_session :: "bytes list"
  rq_claude_session :: "bytes list"
  rq_request_id :: "bytes list"

definition header_get :: "bytes list \<Rightarrow> bytes" where
  "header_get vals = (case vals of [] \<Rightarrow> [] | v # vs \<Rightarrow> v)"

record http_error =
  he_status :: nat
  he_type :: bytes
  he_code :: "bytes option"
  he_message :: bytes
  he_headers :: "(bytes \<times> bytes) list"

definition write_error_code :: "nat \<Rightarrow> bytes \<Rightarrow> bytes \<Rightarrow> bytes \<Rightarrow> http_error" where
  "write_error_code status typ code msg =
     \<lparr>he_status = status, he_type = typ, he_code = (if code = [] then None else Some code),
      he_message = msg, he_headers = []\<rparr>"

definition write_error :: "nat \<Rightarrow> bytes \<Rightarrow> bytes \<Rightarrow> http_error" where
  "write_error status typ msg = write_error_code status typ [] msg"

definition invalid_key :: "bytes \<Rightarrow> bytes \<Rightarrow> http_error" where
  "invalid_key code msg =
     (if code = [] then write_error 401 ''invalid_api_key'' ''invalid project api key''
      else write_error_code 401 ''invalid_api_key'' code msg)"

section \<open>Request ids and sessions\<close>

definition maxRequestIDLen :: nat where "maxRequestIDLen = 128"

definition request_id_char :: "char \<Rightarrow> bool" where
  "request_id_char c \<longleftrightarrow>
     (let n = of_char c :: nat in
      (97 \<le> n \<and> n \<le> 122) \<or> (65 \<le> n \<and> n \<le> 90) \<or> (48 \<le> n \<and> n \<le> 57)
      \<or> c \<in> set ''._:-'')"

definition valid_request_id :: "bytes \<Rightarrow> bool" where
  "valid_request_id v \<longleftrightarrow> \<not> (v = [] \<or> length v > maxRequestIDLen) \<and> list_all request_id_char v"

text \<open>\<open>requestID\<close>: \<open>gen\<close> is the id of \<open>obs.RequestID\<close> (empty when absent), \<open>fresh\<close> a random one.\<close>

definition request_id :: "request \<Rightarrow> bytes \<Rightarrow> bytes \<Rightarrow> bytes" where
  "request_id rq gen fresh =
     (let v = header_get (rq_request_id rq) in
      if \<not> valid_request_id v then (if gen = [] then fresh else gen) else v)"

definition session_value :: "bytes list \<Rightarrow> bytes option" where
  "session_value vals =
     (if length vals \<noteq> 1 \<or> \<not> valid_request_id (hd vals) then None else Some (hd vals))"

text \<open>\<open>None\<close> is a session that is not usable, \<open>Some []\<close> a request without one.\<close>

definition session_from :: "request \<Rightarrow> bool \<Rightarrow> bytes option" where
  "session_from rq claude_fallback =
     (if rq_session rq = [] then
        (if claude_fallback then
           (if rq_claude_session rq = [] then Some [] else session_value (rq_claude_session rq))
         else Some [])
      else session_value (rq_session rq))"

section \<open>The credential\<close>

definition missingCredential where "missingCredential =
  ''missing Authorization: Bearer <project api key> header (or x-api-key)''"
definition conflictingKeys where "conflictingKeys = ''Authorization and x-api-key carry different keys; send one''"

text \<open>The loop over the bearers: \<open>None\<close> is a conflict, the inner option \<open>sawBearer\<close>.\<close>

fun read_bearers :: "bytes list \<Rightarrow> bytes option \<Rightarrow> bytes option option" where
  "read_bearers [] seen = Some seen"
| "read_bearers (h # hs) seen =
     (if \<not> has_prefix h ''Bearer '' then read_bearers hs seen
      else (let v = trim_space (drop 7 h) in
        if seen \<noteq> None \<and> seen \<noteq> Some v then None else read_bearers hs (Some v)))"

fun read_api_keys :: "bytes list \<Rightarrow> bytes \<Rightarrow> bytes option" where
  "read_api_keys [] xkey = Some xkey"
| "read_api_keys (h # hs) xkey =
     (let h = trim_space h in
      if xkey \<noteq> [] \<and> h \<noteq> xkey then None else read_api_keys hs h)"

text \<open>The 401 message, or the key.\<close>

definition gateway_credential :: "request \<Rightarrow> bytes + bytes" where
  "gateway_credential rq =
     (case read_bearers (rq_authorization rq) None of
        None \<Rightarrow> Inl conflictingKeys
      | Some bearer \<Rightarrow>
     (case read_api_keys (rq_x_api_key rq) [] of
        None \<Rightarrow> Inl conflictingKeys
      | Some xkey \<Rightarrow>
          (if bearer \<noteq> None \<and> xkey \<noteq> [] \<and> bearer \<noteq> Some xkey then Inl conflictingKeys
           else if bearer \<noteq> None \<and> bearer \<noteq> Some [] then Inr (the bearer)
           else if xkey \<noteq> [] then Inr xkey
           else if bearer \<noteq> None then Inr []
           else Inl missingCredential)))"

section \<open>The principal\<close>

record principal =
  pr_project :: "project option"
  pr_key :: "api_key option"
  pr_user :: "user option"
  pr_grants :: "project list"

definition key_limits :: "api_key \<Rightarrow> caps" where
  "key_limits k =
     \<lparr>cp_rpm = k_rate_limit_rpm k, cp_tpm = k_rate_limit_tpm k,
      cp_daily = k_budget_daily_tokens k, cp_monthly = k_budget_monthly_tokens k\<rparr>"

text \<open>\<open>principal.subject\<close>; the project is the one \<open>authenticate\<close> has checked to be there.\<close>

definition subject_of :: "principal \<Rightarrow> project \<Rightarrow> subject" where
  "subject_of pr p =
     \<lparr>sj_project = p, sj_key_id = map_option k_id (pr_key pr),
      sj_key = (case pr_key pr of None \<Rightarrow> no_caps | Some k \<Rightarrow> key_limits k),
      sj_session_id = []\<rparr>"

definition image_tenant :: "principal option \<Rightarrow> bytes" where
  "image_tenant pro =
     (case pro of
        None \<Rightarrow> []
      | Some pr \<Rightarrow>
          (case pr_project pr of
             Some p \<Rightarrow> ''project:'' @ format_int (p_id p)
           | None \<Rightarrow> (case pr_key pr of Some k \<Rightarrow> ''key:'' @ format_int (k_id k) | None \<Rightarrow> [])))"

definition project_not_granted where "project_not_granted =
  write_error_code 403 ''invalid_request_error'' ''project_not_granted''
    ''this api key is not authorised for the requested project''"

definition select_project :: "request \<Rightarrow> principal \<Rightarrow> api_key \<Rightarrow> http_error + principal" where
  "select_project rq pr key =
     (let want = trim_space (header_get (rq_project rq)) in
      if want \<noteq> [] then
        (case find (\<lambda>p. p_name p = want \<or> format_int (p_id p) = want) (pr_grants pr) of
           Some p \<Rightarrow> Inr (pr\<lparr>pr_project := Some p\<rparr>)
         | None \<Rightarrow> Inl project_not_granted)
      else
        (case (case k_default_project_id key of
                 None \<Rightarrow> None
               | Some i \<Rightarrow> find (\<lambda>p. p_id p = i) (pr_grants pr)) of
           Some p \<Rightarrow> Inr (pr\<lparr>pr_project := Some p\<rparr>)
         | None \<Rightarrow>
             (case pr_grants pr of
                [p] \<Rightarrow> Inr (pr\<lparr>pr_project := Some p\<rparr>)
              | _ \<Rightarrow> Inr pr)))"

definition explain_miss :: "store \<Rightarrow> bytes \<Rightarrow> http_error" where
  "explain_miss s key =
     (if \<not> has_prefix key GatewayKeyPrefix then invalid_key [] []
      else case get_api_key_state s key of
        Inl e \<Rightarrow> invalid_key [] []
      | Inr KeyStateRevoked \<Rightarrow> invalid_key ''key_revoked'' ''this api key has been revoked''
      | Inr KeyStateExpired \<Rightarrow> invalid_key ''key_expired'' ''this api key has expired''
      | Inr KeyStateOwnerInactive \<Rightarrow>
          invalid_key ''key_owner_inactive'' ''the account owning this api key is deactivated''
      | Inr KeyStateUnknown \<Rightarrow> invalid_key [] [])"

definition lookup_failed where "lookup_failed = write_error 500 ''server_error'' ''project lookup failed''"

definition identify :: "store \<Rightarrow> request \<Rightarrow> http_error + principal" where
  "identify s rq =
     (case gateway_credential rq of
        Inl problem \<Rightarrow> Inl (write_error 401 ''invalid_request_error'' problem)
      | Inr key \<Rightarrow>
     (if \<not> has_prefix key ProjectKeyPrefix \<and> \<not> has_prefix key GatewayKeyPrefix
      then Inl (invalid_key [] [])
      else case resolve_gateway_key s key of
        Inl NotFound \<Rightarrow> Inl (explain_miss s key)
      | Inl StoreFailure \<Rightarrow> Inl lookup_failed
      | Inr gk \<Rightarrow>
          (let pr = \<lparr>pr_project = gk_project gk, pr_key = gk_key gk, pr_user = gk_owner gk, pr_grants = []\<rparr>
           in case gk_key gk of
                None \<Rightarrow> Inr pr
              | Some k \<Rightarrow>
                  (case list_projects_by_ids s (k_project_ids k) of
                     Inl e \<Rightarrow> Inl lookup_failed
                   | Inr grants \<Rightarrow> select_project rq (pr\<lparr>pr_grants := grants\<rparr>) k))))"

section \<open>Scope and project checks\<close>

definition check_project :: "principal option \<Rightarrow> http_error option" where
  "check_project pro =
     (case pro of
        None \<Rightarrow> None
      | Some pr \<Rightarrow>
          (if pr_project pr \<noteq> None then None
           else if pr_grants pr = [] then Some project_not_granted
           else Some ((write_error_code 400 ''invalid_request_error'' ''project_required''
                  ''this api key grants several projects; name one in the X-Ragmux-Project header'')
                \<lparr>he_headers := [(''X-Ragmux-Projects'', join '','' (map p_name (pr_grants pr)))]\<rparr>)))"

definition check_scope :: "principal option \<Rightarrow> bytes \<Rightarrow> bytes \<Rightarrow> http_error option" where
  "check_scope pro scope what =
     (case pro of
        None \<Rightarrow> None
      | Some pr \<Rightarrow>
          (case pr_key pr of
             None \<Rightarrow> None
           | Some k \<Rightarrow>
               (if \<not> has_scope (k_scopes k) scope
                then Some (write_error_code 403 ''insufficient_scope'' ''insufficient_scope''
                       (''api key is not authorised for '' @ what))
                else None)))"

record operation =
  op_name :: bytes
  op_span :: bytes
  op_scope :: bytes
  op_what :: bytes
  op_endpoint :: bytes
  op_claude_session :: bool

record gw_call =
  cl_project :: project
  cl_subject :: subject
  cl_session :: bytes

definition invalid_session where "invalid_session =
  write_error_code 400 ''invalid_request_error'' ''invalid_session_id''
    ''X-Ragmux-Session must be 1 to 128 characters of letters, digits and . _ : -, sent once.''"

text \<open>\<open>authenticate\<close> of a request whose context \<open>identify\<close> has filled with \<open>pr\<close>.\<close>

definition authenticate :: "request \<Rightarrow> operation \<Rightarrow> principal \<Rightarrow> http_error + gw_call" where
  "authenticate rq op pr =
     (case check_scope (Some pr) (op_scope op) (op_what op) of
        Some e \<Rightarrow> Inl e
      | None \<Rightarrow>
     (case check_project (Some pr) of
        Some e \<Rightarrow> Inl e
      | None \<Rightarrow>
     (case pr_project pr of
        None \<Rightarrow> Inl lookup_failed
      | Some p \<Rightarrow>
     (case session_from rq (op_claude_session op) of
        None \<Rightarrow> Inl invalid_session
      | Some session \<Rightarrow>
          Inr \<lparr>cl_project = p, cl_subject = (subject_of pr p)\<lparr>sj_session_id := session\<rparr>,
               cl_session = session\<rparr>))))"

text \<open>The router chain of a pipeline endpoint: \<open>identify\<close> and then \<open>authenticate\<close>.\<close>

definition enter :: "store \<Rightarrow> request \<Rightarrow> operation \<Rightarrow> http_error + gw_call" where
  "enter s rq op =
     (case identify s rq of
        Inl e \<Rightarrow> Inl e
      | Inr pr \<Rightarrow> authenticate rq op pr)"

section \<open>Model listings\<close>

fun add_unseen :: "(bytes \<times> 'a) list \<Rightarrow> (bytes \<times> 'a) list \<Rightarrow> (bytes \<times> 'a) list" where
  "add_unseen out [] = out"
| "add_unseen out (m # ms) =
     (if fst m \<in> fst ` set out then add_unseen out ms else add_unseen (out @ [m]) ms)"

fun visible_loop :: "store \<Rightarrow> project list \<Rightarrow> (bytes \<times> bytes) list \<Rightarrow> store_error + (bytes \<times> bytes) list" where
  "visible_loop s [] out = Inr out"
| "visible_loop s (p # ps) out =
     (case routed_models s p of
        Inl e \<Rightarrow> Inl e
      | Inr (routed, True) \<Rightarrow> visible_loop s ps (add_unseen out routed)
      | Inr (routed, False) \<Rightarrow>
          (case get_connection s (p_model_connection_id p) of
             Inl e \<Rightarrow> Inl e
           | Inr conn \<Rightarrow> visible_loop s ps (add_unseen out [model_object conn])))"

definition visible_models :: "store \<Rightarrow> principal \<Rightarrow> http_error + (bytes \<times> bytes) list" where
  "visible_models s pr =
     (case visible_loop s (case pr_project pr of Some p \<Rightarrow> [p] | None \<Rightarrow> pr_grants pr) [] of
        Inl e \<Rightarrow> Inl (write_error 500 ''server_error'' ''model connection unavailable'')
      | Inr ms \<Rightarrow> Inr ms)"

definition get_model :: "store \<Rightarrow> principal \<Rightarrow> bytes \<Rightarrow> http_error + (bytes \<times> bytes)" where
  "get_model s pr mid =
     (case visible_models s pr of
        Inl e \<Rightarrow> Inl e
      | Inr [m] \<Rightarrow> Inr m
      | Inr ms \<Rightarrow>
          (case find (\<lambda>m. fst m = mid) ms of
             Some m \<Rightarrow> Inr m
           | None \<Rightarrow> Inl (write_error 404 ''invalid_request_error'' ''no such model'')))"

section \<open>Facts\<close>

lemma read_bearers_all:
  assumes "read_bearers hs seen = Some r"
  shows "(seen \<noteq> None \<longrightarrow> r = seen) \<and>
    (\<forall>h \<in> set hs. has_prefix h ''Bearer '' \<longrightarrow> r = Some (trim_space (drop 7 h)))"
  using assms
proof (induction hs seen rule: read_bearers.induct)
  case (2 h hs seen)
  show ?case
  proof (cases "has_prefix h ''Bearer ''")
    case True
    with 2 show ?thesis by (auto simp: Let_def split: if_splits)
  next
    case False
    with 2 show ?thesis by simp
  qed
qed simp

lemma read_bearers_source:
  "read_bearers hs seen = Some (Some v) \<Longrightarrow>
   seen = Some v \<or> (\<exists>h \<in> set hs. has_prefix h ''Bearer '' \<and> v = trim_space (drop 7 h))"
  by (induction hs seen rule: read_bearers.induct) (auto simp: Let_def split: if_splits)

lemma read_api_keys_all:
  assumes "read_api_keys hs xkey = Some r"
  shows "(xkey \<noteq> [] \<longrightarrow> r = xkey) \<and> (\<forall>h \<in> set hs. trim_space h \<noteq> [] \<longrightarrow> trim_space h = r)"
  using assms
  by (induction hs xkey rule: read_api_keys.induct) (auto simp: Let_def split: if_splits)

lemma read_api_keys_source:
  "read_api_keys hs xkey = Some r \<Longrightarrow> r \<noteq> [] \<Longrightarrow> r = xkey \<or> (\<exists>h \<in> set hs. r = trim_space h)"
  by (induction hs xkey rule: read_api_keys.induct) (auto simp: Let_def split: if_splits)

lemma clamp_valid: "valid_request_id v \<Longrightarrow> clamp_session_id v = v"
proof -
  assume v: "valid_request_id v"
  have "request_id_char c \<Longrightarrow> c \<noteq> CHR 0x00" for c
    by (auto simp: request_id_char_def Let_def)
  with v have "filter (\<lambda>c. c \<noteq> CHR 0x00) v = v"
    by (auto simp: valid_request_id_def list_all_iff intro!: filter_True)
  with v show ?thesis
    by (simp add: clamp_session_id_def cut_bytes_def valid_request_id_def maxRequestIDLen_def maxSessionIDBytes_def)
qed

lemma session_from_valid: "session_from rq b = Some v \<Longrightarrow> v \<noteq> [] \<Longrightarrow> valid_request_id v"
  by (auto simp: session_from_def session_value_def split: if_splits)

lemma select_project_keeps:
  "select_project rq pr k = Inr pr' \<Longrightarrow>
   pr_key pr' = pr_key pr \<and> pr_grants pr' = pr_grants pr \<and> pr_user pr' = pr_user pr \<and>
   (\<forall>p. pr_project pr' = Some p \<longrightarrow> p \<in> set (pr_grants pr) \<or> pr_project pr = Some p)"
  by (auto simp: select_project_def Let_def split: if_splits option.splits list.splits dest!: find_SomeD)

lemma add_unseen_props:
  "distinct (map fst out) \<Longrightarrow> distinct (map fst (add_unseen out ms)) \<and>
   fst ` set (add_unseen out ms) = fst ` set out \<union> fst ` set ms"
  by (induction out ms rule: add_unseen.induct) auto

lemma visible_loop_distinct:
  "visible_loop s ps out = Inr ms \<Longrightarrow> distinct (map fst out) \<Longrightarrow> distinct (map fst ms)"
proof (induction ps arbitrary: out)
  case (Cons p ps)
  have kept: "distinct (map fst (add_unseen out xs))" for xs
    using add_unseen_props Cons.prems(2) by blast
  from Cons.prems(1) obtain xs where "visible_loop s ps (add_unseen out xs) = Inr ms"
    by (auto split: sum.splits prod.splits bool.splits simp del: add_unseen.simps)
  from Cons.IH [OF this kept] show ?case .
qed simp

text \<open>
  What a pipeline endpoint may rely on: the credential was live, the project is one it
  reaches, and the session fits the store's column.
\<close>

definition key_live :: "store \<Rightarrow> api_key \<Rightarrow> bool" where
  "key_live s k \<longleftrightarrow>
     \<not> key_retired k (st_now s) \<and> (\<exists>u \<in> set (st_users s). u_id u = k_user_id k \<and> u_is_active u)"

definition enters_as :: "store \<Rightarrow> operation \<Rightarrow> bytes \<Rightarrow> gw_call \<Rightarrow> bool" where
  "enters_as s op key cl \<longleftrightarrow>
     (has_prefix key ProjectKeyPrefix \<and> (st_hash s key, cl_project cl) \<in> set (projects_read s)
        \<and> sj_key_id (cl_subject cl) = None) \<or>
     (has_prefix key GatewayKeyPrefix \<and>
        (\<exists>k. (st_hash s key, k) \<in> set (st_keys s) \<and> k_kind k = ''gateway'' \<and> key_live s k \<and>
          op_scope op \<in> set (k_scopes k) \<and> p_id (cl_project cl) \<in> set (k_project_ids k) \<and>
          cl_project cl \<in> snd ` set (projects_read s) \<and>
          sj_key_id (cl_subject cl) = Some (k_id k) \<and> sj_key (cl_subject cl) = key_limits k))"

lemma live_key_row_props:
  assumes "live_key_row s kind key = Some (k, u)"
  shows "(st_hash s key, k) \<in> set (st_keys s)" "k_kind k = kind" "key_live s k"
proof -
  from assms have row: "key_row s key = Some (k, u)" and kind: "k_kind k = kind"
    and live: "k_revoked_at k = None" "case k_expires_at k of None \<Rightarrow> True | Some e \<Rightarrow> e > st_now s"
      "u_is_active u"
    by (auto simp: live_key_row_def split: option.splits if_splits)
  from row obtain h where f: "find (\<lambda>(h, k). h = st_hash s key) (st_keys s) = Some (h, k)"
    and u: "user_by_id s (k_user_id k) = Some u"
    by (auto simp: key_row_def split: option.splits prod.splits)
  show "(st_hash s key, k) \<in> set (st_keys s)" using find_SomeD [OF f] by auto
  show "k_kind k = kind" by (rule kind)
  have "u \<in> set (st_users s) \<and> u_id u = k_user_id k"
    using find_SomeD [OF u [unfolded user_by_id_def]] by simp
  with live show "key_live s k"
    by (auto simp: key_live_def key_retired_def split: option.splits)
qed

lemma authenticate_props:
  assumes "authenticate rq op pr = Inr cl"
  shows "pr_project pr = Some (cl_project cl)"
    and "cl_subject cl = (subject_of pr (cl_project cl))\<lparr>sj_session_id := cl_session cl\<rparr>"
    and "pr_key pr = Some k \<Longrightarrow> op_scope op \<in> set (k_scopes k)"
    and "session_from rq (op_claude_session op) = Some (cl_session cl)"
  using assms
  by (auto simp: authenticate_def check_scope_def split: option.splits if_splits)

lemma identify_props:
  assumes "identify s rq = Inr pr"
  obtains (project_key) key p where "gateway_credential rq = Inr key" "has_prefix key ProjectKeyPrefix"
      "(st_hash s key, p) \<in> set (projects_read s)" "pr_key pr = None" "pr_project pr = Some p"
  | (user_key) key k u where "gateway_credential rq = Inr key" "has_prefix key GatewayKeyPrefix"
      "live_key_row s ''gateway'' key = Some (k, u)" "pr_key pr = Some k"
      "\<And>p. pr_project pr = Some p \<Longrightarrow> p_id p \<in> set (k_project_ids k) \<and> p \<in> snd ` set (projects_read s)"
proof -
  obtain key where key: "gateway_credential rq = Inr key"
    using assms by (auto simp: identify_def split: sum.splits)
  obtain gk where gk: "resolve_gateway_key s key = Inr gk"
    using assms key by (auto simp: identify_def split: sum.splits store_error.splits if_splits)
  let ?pr = "\<lparr>pr_project = gk_project gk, pr_key = gk_key gk, pr_user = gk_owner gk, pr_grants = []\<rparr>"
  have pr: "(case gk_key gk of None \<Rightarrow> Inr ?pr | Some k \<Rightarrow>
      (case list_projects_by_ids s (k_project_ids k) of Inl e \<Rightarrow> Inl lookup_failed
       | Inr grants \<Rightarrow> select_project rq (?pr\<lparr>pr_grants := grants\<rparr>) k)) = Inr pr"
    using assms key gk by (auto simp: identify_def Let_def split: if_splits)
  show thesis
  proof (cases "has_prefix key ProjectKeyPrefix")
    case True
    with gk obtain p where p: "get_project_by_key s key = Inr p"
      "gk = \<lparr>gk_project = Some p, gk_key = None, gk_owner = None\<rparr>"
      by (auto simp: resolve_gateway_key_def split: sum.splits)
    from p(1) have "(st_hash s key, p) \<in> set (projects_read s)"
      by (rule get_project_by_key_Inr)
    with project_key [OF key True] p(2) pr show thesis by auto
  next
    case False
    with gk obtain k u where k: "live_key_row s ''gateway'' key = Some (k, u)"
      "has_prefix key GatewayKeyPrefix" "gk = \<lparr>gk_project = None, gk_key = Some k, gk_owner = Some u\<rparr>"
      by (auto simp: resolve_gateway_key_def split: if_splits option.splits)
    with pr obtain grants where g: "list_projects_by_ids s (k_project_ids k) = Inr grants"
      "select_project rq (?pr\<lparr>pr_grants := grants\<rparr>) k = Inr pr"
      by (auto split: sum.splits)
    from g(1) have grants: "\<forall>p \<in> set grants. p_id p \<in> set (k_project_ids k) \<and> p \<in> snd ` set (projects_read s)"
      by (rule list_projects_by_ids_Inr)
    from select_project_keeps [OF g(2)] k(3) grants
    show thesis by (intro user_key [OF key k(2,1)]) auto
  qed
qed

section \<open>Properties\<close>

text \<open>C1: A request that reaches a pipeline endpoint carries a credential that resolves: either the default key
  of the very project it is charged to, or a user key that is neither revoked nor expired, whose owner is active,
  that holds the endpoint's scope and grants the project, and the key's own limits apply to it.\<close>

theorem entered_request_is_authorised:
  assumes "enter s rq op = Inr cl"
  shows "\<exists>key. gateway_credential rq = Inr key \<and> enters_as s op key cl"
proof -
  from assms obtain pr where pr: "identify s rq = Inr pr" "authenticate rq op pr = Inr cl"
    by (auto simp: enter_def split: sum.splits)
  note auth = authenticate_props [OF pr(2)]
  from pr(1) show ?thesis
  proof (cases rule: identify_props)
    case (project_key key p)
    with auth show ?thesis by (auto simp: enters_as_def subject_of_def)
  next
    case (user_key key k u)
    note live = live_key_row_props [OF user_key(3)]
    from user_key(4,5) auth live show ?thesis
      by (intro exI [of _ key]) (auto simp: enters_as_def subject_of_def user_key(1,2))
  qed
qed

definition demo_request :: "bytes \<Rightarrow> request" where
  "demo_request want = \<lparr>rq_authorization = [''Bearer sk-user-k''], rq_x_api_key = [''sk-user-k''],
     rq_project = [want], rq_session = [''run-1''], rq_claude_session = [], rq_request_id = []\<rparr>"

definition chat_operation :: operation where
  "chat_operation = \<lparr>op_name = ''chat'', op_span = ''gateway.chat_completion'', op_scope = ''chat'',
     op_what = ''chat completions'', op_endpoint = ''chat'', op_claude_session = False\<rparr>"

lemma demo_credential: "gateway_credential (demo_request want) = Inr ''sk-user-k''"
proof -
  have "trim_space ''sk-user-k'' = ''sk-user-k''" by code_simp
  then show ?thesis by (simp add: gateway_credential_def demo_request_def has_prefix_def)
qed

lemma demo_identify:
  "identify demo_store (demo_request ''12'') =
     Inr \<lparr>pr_project = Some (demo_project 12 ''1''), pr_key = Some demo_key, pr_user = Some demo_user,
          pr_grants = [demo_project 12 ''1'', demo_project 3 ''12'']\<rparr>"
proof -
  have "trim_space ''12'' = ''12''" "format_int 12 = ''12''" by code_simp+
  moreover have "header_get (rq_project (demo_request ''12'')) = ''12''"
    by (simp add: header_get_def demo_request_def)
  ultimately show ?thesis
    by (simp add: identify_def demo_credential has_prefix_def ProjectKeyPrefix_def GatewayKeyPrefix_def
        resolve_gateway_key_def live_key_row_def key_row_def user_by_id_def list_projects_by_ids_def
        select_project_def Let_def scan_demo_project [unfolded demo_project_def] demo_defs)
qed

lemma demo_session: "session_from (demo_request want) b = Some ''run-1''"
  by (simp add: session_from_def session_value_def demo_request_def valid_request_id_def maxRequestIDLen_def
      request_id_char_def)

definition demo_call :: gw_call where
  "demo_call = \<lparr>cl_project = demo_project 12 ''1'',
     cl_subject = \<lparr>sj_project = demo_project 12 ''1'', sj_key_id = Some 5, sj_key = key_limits demo_key,
       sj_session_id = ''run-1''\<rparr>, cl_session = ''run-1''\<rparr>"

lemma demo_enter: "enter demo_store (demo_request ''12'') chat_operation = Inr demo_call"
  by (simp add: enter_def demo_identify authenticate_def check_scope_def check_project_def demo_session
      chat_operation_def demo_call_def subject_of_def) (simp add: demo_key_def)

theorem entered_request_is_authorised_witness:
  "\<exists>key. gateway_credential (demo_request ''12'') = Inr key \<and> enters_as demo_store chat_operation key demo_call"
  by (rule entered_request_is_authorised [OF demo_enter])

text \<open>A key that is used is the only credential of the request: every bearer and every non-empty
  \<open>x-api-key\<close> header carries it, so the gateway never picks between two keys.\<close>

theorem credential_is_unambiguous:
  assumes "gateway_credential rq = Inr key" "key \<noteq> []"
  shows "(\<forall>h \<in> set (rq_authorization rq). has_prefix h ''Bearer '' \<longrightarrow> trim_space (drop 7 h) = key)
    \<and> (\<forall>h \<in> set (rq_x_api_key rq). trim_space h \<noteq> [] \<longrightarrow> trim_space h = key)"
proof -
  obtain bearer xkey where r: "read_bearers (rq_authorization rq) None = Some bearer"
    "read_api_keys (rq_x_api_key rq) [] = Some xkey"
    using assms(1) by (auto simp: gateway_credential_def split: option.splits)
  from read_bearers_all [OF r(1)] read_api_keys_all [OF r(2)] assms r show ?thesis
    by (auto simp: gateway_credential_def split: if_splits)
qed

theorem credential_is_unambiguous_witness:
  "trim_space (drop 7 ''Bearer sk-user-k'') = ''sk-user-k''"
proof -
  have "''Bearer sk-user-k'' \<in> set (rq_authorization (demo_request ''12''))"
    and "has_prefix ''Bearer sk-user-k'' ''Bearer ''"
    by (simp_all add: demo_request_def has_prefix_def)
  with credential_is_unambiguous [OF demo_credential] show ?thesis by blast
qed

text \<open>A session id the gateway accepts is stored as it is: the clamp of the session table never changes it,
  so the cap is read from the row the request was recorded on.\<close>

theorem accepted_session_is_stored_verbatim:
  assumes "session_from rq fallback = Some v" "v \<noteq> []"
  shows "clamp_session_id v = v
    \<and> session_tokens (record_session_usage tab pid v p c) pid v = session_tokens tab pid v + nonneg p + nonneg c"
  using clamp_valid [OF session_from_valid [OF assms]]
  by (simp add: session_tokens_def session_row_record add_counts_def)

theorem accepted_session_is_stored_verbatim_witness:
  "session_tokens (record_session_usage [] 1 ''run-1'' 10 (-5)) 1 ''run-1'' = 10"
  using accepted_session_is_stored_verbatim [OF demo_session, of "[]" 1 10 "-5"]
  by (simp add: session_tokens_def session_row_def zero_counts_def nonneg_def)

text \<open>The model listing never repeats an id, across routes and granted projects.\<close>

theorem listed_models_distinct:
  assumes "visible_models s pr = Inr ms"
  shows "distinct (map fst ms)"
  using assms by (auto simp: visible_models_def split: sum.splits intro: visible_loop_distinct)

definition demo_principal :: principal where
  "demo_principal = \<lparr>pr_project = None, pr_key = Some demo_key, pr_user = Some demo_user,
     pr_grants = [demo_project 12 ''1'', demo_project 3 ''12'']\<rparr>"

theorem listed_models_distinct_witness:
  "distinct (map fst [(''fast'', ''ragmux''), (''gpt-4o'', ''openai'')])"
proof (rule listed_models_distinct)
  show "visible_models demo_store demo_principal = Inr [(''fast'', ''ragmux''), (''gpt-4o'', ''openai'')]"
    by (simp add: visible_models_def routed_models_def list_routes_def load_targets_def order_by_priority_id_def get_connection_def model_object_def
        demo_principal_def demo_defs)
qed

text \<open>What a 401 says about a retired key is true: the code names the state the key row is in, and a
  credential without a key row never gets a code.\<close>

theorem miss_is_explained_truthfully:
  assumes "he_code (explain_miss s key) = Some code"
  shows "\<exists>k u. key_row s key = Some (k, u) \<and>
    (code = ''key_revoked'' \<and> k_revoked_at k \<noteq> None \<or>
     code = ''key_expired'' \<and> k_revoked_at k = None \<and> (\<exists>e. k_expires_at k = Some e \<and> e \<le> st_now s) \<or>
     code = ''key_owner_inactive'' \<and> \<not> key_retired k (st_now s) \<and> \<not> u_is_active u)"
proof -
  from assms obtain st where st: "get_api_key_state s key = Inr st" "st \<noteq> KeyStateUnknown"
    and code: "code = (case st of KeyStateRevoked \<Rightarrow> ''key_revoked'' | KeyStateExpired \<Rightarrow> ''key_expired''
      | _ \<Rightarrow> ''key_owner_inactive'')"
    by (auto simp: explain_miss_def invalid_key_def write_error_def write_error_code_def
        split: if_splits sum.splits key_state.splits)
  then obtain k u where row: "key_row s key = Some (k, u)"
    by (auto simp: get_api_key_state_def split: if_splits option.splits)
  from st code row show ?thesis
    by (intro exI [of _ k] exI [of _ u])
       (auto simp: get_api_key_state_def key_retired_def split: if_splits option.splits)
qed

theorem miss_is_explained_truthfully_witness:
  "\<exists>k u. key_row (demo_store\<lparr>st_now := 200\<rparr>) ''sk-user-k'' = Some (k, u) \<and> k_expires_at k = Some 100"
proof -
  have "he_code (explain_miss (demo_store\<lparr>st_now := 200\<rparr>) ''sk-user-k'') = Some ''key_expired''"
    by (simp add: explain_miss_def invalid_key_def write_error_code_def get_api_key_state_def key_row_def
        user_by_id_def has_prefix_def GatewayKeyPrefix_def demo_defs)
  from miss_is_explained_truthfully [OF this] show ?thesis
    by (auto simp: key_row_def user_by_id_def demo_defs)
qed

text \<open>A project cannot always be named: with the name match and the id match in one pass over the grants,
  a project called \<open>12\<close> is not reachable by its name when a project with id 12 sorts before it.\<close>

theorem numeric_project_name_is_shadowed:
  "\<exists>pr. identify demo_store (demo_request ''12'') = Inr pr \<and> demo_project 3 ''12'' \<in> set (pr_grants pr)
     \<and> pr_project pr = Some (demo_project 12 ''1'')"
  by (simp add: demo_identify)

end
