(* ===== verification/Login.thy ===== *)
theory Login
  imports GoStrings Store
begin

text \<open>
  Dashboard authentication: the login throttle of \<open>internal/auth/ratelimit.go\<close> over the
  \<open>login_attempts\<close> table (\<open>internal/store/loginattempts.go\<close>), roles and scopes
  (\<open>internal/auth/policy.go\<close>) and the session middleware (\<open>internal/auth/auth.go\<close>).
  The limiter's clock and the database's are taken to be the same one.
\<close>

section \<open>The login_attempts table\<close>

record attempt =
  la_username :: bytes
  la_ip :: bytes
  la_success :: bool
  la_created_at :: time

datatype login_query = QCountPair | QCountFailed | QOldest | QPairs

definition failed_since :: "attempt list \<Rightarrow> time \<Rightarrow> attempt list" where
  "failed_since tab since = filter (\<lambda>a. \<not> la_success a \<and> la_created_at a \<ge> since) tab"

definition record_login_attempt :: "attempt list \<Rightarrow> time \<Rightarrow> bytes \<Rightarrow> bytes \<Rightarrow> bool \<Rightarrow> attempt list" where
  "record_login_attempt tab now username ip success =
     \<lparr>la_username = username, la_ip = ip, la_success = success, la_created_at = now\<rparr> # tab"

definition count_failed_login_attempts ::
  "attempt list \<Rightarrow> bytes \<Rightarrow> bytes \<Rightarrow> time \<Rightarrow> int \<times> int" where
  "count_failed_login_attempts tab username ip since =
     (let rows = filter (\<lambda>a. la_username a = username \<or> la_ip a = ip) (failed_since tab since)
      in (int (length (filter (\<lambda>a. la_username a = username) rows)),
          int (length (filter (\<lambda>a. la_ip a = ip) rows))))"

definition pair_failures :: "attempt list \<Rightarrow> bytes \<Rightarrow> bytes \<Rightarrow> time \<Rightarrow> attempt list" where
  "pair_failures tab username ip since =
     filter (\<lambda>a. la_username a = username \<and> la_ip a = ip) (failed_since tab since)"

definition count_failed_login_attempts_for_pair :: "attempt list \<Rightarrow> bytes \<Rightarrow> bytes \<Rightarrow> time \<Rightarrow> int" where
  "count_failed_login_attempts_for_pair tab username ip since =
     int (length (pair_failures tab username ip since))"

text \<open>\<open>MIN(created_at)\<close>: none for no row.\<close>

definition oldest_failed_login_attempt :: "attempt list \<Rightarrow> bytes \<Rightarrow> bytes \<Rightarrow> time \<Rightarrow> time option" where
  "oldest_failed_login_attempt tab username ip since =
     (case map la_created_at (pair_failures tab username ip since) of
        [] \<Rightarrow> None
      | t # ts \<Rightarrow> Some (fold min ts t))"

text \<open>
  The grouped pairs; \<open>collate\<close> is the database's order of the texts, which the stable sort
  by falling count refines.
\<close>

definition failed_login_pairs_since ::
  "((bytes \<times> bytes) list \<Rightarrow> (bytes \<times> bytes) list) \<Rightarrow> attempt list \<Rightarrow> time \<Rightarrow> int \<Rightarrow>
   (bytes \<times> bytes \<times> time option) list" where
  "failed_login_pairs_since collate tab since min_failures =
     (let failures = (\<lambda>(u, ip). count_failed_login_attempts_for_pair tab u ip since);
          pairs = remdups (map (\<lambda>a. (la_username a, la_ip a)) (failed_since tab since))
      in map (\<lambda>(u, ip). (u, ip, oldest_failed_login_attempt tab u ip since))
           (sort_key (\<lambda>p. - failures p) (filter (\<lambda>p. failures p \<ge> min_failures) (collate pairs))))"

section \<open>The limiter\<close>

record login_limiter =
  ll_per_ip :: int
  ll_per_user :: int
  ll_lockout_failures :: int
  ll_lockout_window :: duration

definition default_login_limiter :: login_limiter where
  "default_login_limiter =
     \<lparr>ll_per_ip = 10, ll_per_user = 5, ll_lockout_failures = 20, ll_lockout_window = 15 * minute\<rparr>"

type_synonym login_faults = "login_query \<Rightarrow> bool"

definition lockout_remaining ::
  "login_faults \<Rightarrow> login_limiter \<Rightarrow> attempt list \<Rightarrow> bytes \<Rightarrow> bytes \<Rightarrow> time \<Rightarrow> duration" where
  "lockout_remaining f l tab username ip now =
     (if f QOldest then ll_lockout_window l
      else case oldest_failed_login_attempt tab username ip (now - ll_lockout_window l) of
        None \<Rightarrow> ll_lockout_window l
      | Some oldest \<Rightarrow>
          (let rem = oldest + ll_lockout_window l - now in if rem < second then second else rem))"

text \<open>\<open>Check\<close>: \<open>(allowed, retryAfter, locked)\<close> or the failing query.\<close>

definition login_check ::
  "login_faults \<Rightarrow> login_limiter \<Rightarrow> attempt list \<Rightarrow> time \<Rightarrow> bytes \<Rightarrow> bytes \<Rightarrow>
   login_query + (bool \<times> duration \<times> bool)" where
  "login_check f l tab now username ip =
     (let locks = ll_lockout_failures l > 0 \<and> ll_lockout_window l > 0 in
      if locks \<and> f QCountPair then Inl QCountPair
      else if locks \<and>
        count_failed_login_attempts_for_pair tab username ip (now - ll_lockout_window l) \<ge> ll_lockout_failures l
      then Inr (False, lockout_remaining f l tab username ip now, True)
      else if f QCountFailed then Inl QCountFailed
      else let (by_user, by_ip) = count_failed_login_attempts tab username ip (now - minute) in
        if (ll_per_user l > 0 \<and> by_user \<ge> ll_per_user l) \<or> (ll_per_ip l > 0 \<and> by_ip \<ge> ll_per_ip l)
        then Inr (False, minute, False)
        else Inr (True, 0, False))"

definition check_address ::
  "login_faults \<Rightarrow> login_limiter \<Rightarrow> attempt list \<Rightarrow> time \<Rightarrow> bytes \<Rightarrow> login_query + (bool \<times> duration)" where
  "check_address f l tab now ip =
     (if ll_per_ip l \<le> 0 then Inr (True, 0)
      else if f QCountFailed then Inl QCountFailed
      else if snd (count_failed_login_attempts tab [] ip (now - minute)) \<ge> ll_per_ip l
      then Inr (False, minute) else Inr (True, 0))"

definition attempts_remaining ::
  "login_faults \<Rightarrow> login_limiter \<Rightarrow> attempt list \<Rightarrow> time \<Rightarrow> bytes \<Rightarrow> login_query + (int \<times> bool)" where
  "attempts_remaining f l tab now username =
     (if ll_per_user l \<le> 0 then Inr (0, False)
      else if f QCountFailed then Inl QCountFailed
      else Inr (max (ll_per_user l - fst (count_failed_login_attempts tab username [] (now - minute))) 0, True))"

definition active_lockouts ::
  "((bytes \<times> bytes) list \<Rightarrow> (bytes \<times> bytes) list) \<Rightarrow> login_faults \<Rightarrow> login_limiter \<Rightarrow> attempt list \<Rightarrow>
   time \<Rightarrow> login_query + (bytes \<times> bytes \<times> time) list" where
  "active_lockouts collate f l tab now =
     (if ll_lockout_failures l \<le> 0 \<or> ll_lockout_window l \<le> 0 then Inr []
      else if f QPairs then Inl QPairs
      else Inr (map (\<lambda>(u, ip, oldest). (u, ip, (case oldest of None \<Rightarrow> 0 | Some t \<Rightarrow> t) + ll_lockout_window l))
        (failed_login_pairs_since collate tab (now - ll_lockout_window l) (ll_lockout_failures l))))"

section \<open>What the throttle promises\<close>

lemma fst_count_failed:
  "fst (count_failed_login_attempts tab u ip since) =
     int (length (filter (\<lambda>a. la_username a = u) (failed_since tab since)))"
  by (simp add: count_failed_login_attempts_def Let_def, rule arg_cong [where f = length])
     (auto intro: filter_cong)

lemma snd_count_failed:
  "snd (count_failed_login_attempts tab u ip since) =
     int (length (filter (\<lambda>a. la_ip a = ip) (failed_since tab since)))"
  by (simp add: count_failed_login_attempts_def Let_def, rule arg_cong [where f = length])
     (auto intro: filter_cong)

lemma login_check_allowed:
  assumes "login_check f l tab now u ip = Inr (True, r, b)"
  shows "ll_per_user l > 0 \<Longrightarrow>
      int (length (filter (\<lambda>a. la_username a = u) (failed_since tab (now - minute)))) < ll_per_user l"
    and "ll_per_ip l > 0 \<Longrightarrow>
      int (length (filter (\<lambda>a. la_ip a = ip) (failed_since tab (now - minute)))) < ll_per_ip l"
    and "ll_lockout_failures l > 0 \<Longrightarrow> ll_lockout_window l > 0 \<Longrightarrow>
      count_failed_login_attempts_for_pair tab u ip (now - ll_lockout_window l) < ll_lockout_failures l"
  using assms fst_count_failed [of tab u ip "now - minute"] snd_count_failed [of tab u ip "now - minute"]
  by (auto simp: login_check_def Let_def split: if_splits prod.splits)

lemma fold_min_mem: "fold min ts t \<in> set (t # ts)"
  by (induction ts arbitrary: t) (auto simp: min_def split: if_splits)

lemma oldest_None: "oldest_failed_login_attempt tab u ip since = None \<longleftrightarrow> pair_failures tab u ip since = []"
  by (auto simp: oldest_failed_login_attempt_def split: list.split)

lemma oldest_since:
  assumes "oldest_failed_login_attempt tab u ip since = Some t"
  shows "since \<le> t"
proof -
  from assms obtain s ts where m: "map la_created_at (pair_failures tab u ip since) = s # ts"
    "t = fold min ts s"
    by (auto simp: oldest_failed_login_attempt_def split: list.splits)
  then have "t \<in> la_created_at ` set (pair_failures tab u ip since)"
    using fold_min_mem [of ts s] by (metis list.set_map)
  then show ?thesis by (auto simp: pair_failures_def failed_since_def)
qed

text \<open>A locked-out pair waits at least a second and at most the window.\<close>

lemma lockout_remaining_bounds:
  assumes "second \<le> ll_lockout_window l" "\<forall>a \<in> set tab. la_created_at a \<le> now"
  shows "second \<le> lockout_remaining f l tab u ip now"
    and "lockout_remaining f l tab u ip now \<le> ll_lockout_window l"
proof -
  have "t \<le> now" if "oldest_failed_login_attempt tab u ip since = Some t" for t since
  proof -
    from that obtain s ts where m: "map la_created_at (pair_failures tab u ip since) = s # ts"
      "t = fold min ts s"
      by (auto simp: oldest_failed_login_attempt_def split: list.splits)
    then have "t \<in> la_created_at ` set (pair_failures tab u ip since)"
      using fold_min_mem [of ts s] by (metis list.set_map)
    with assms(2) show ?thesis by (auto simp: pair_failures_def failed_since_def)
  qed
  with assms(1) show "second \<le> lockout_remaining f l tab u ip now"
    "lockout_remaining f l tab u ip now \<le> ll_lockout_window l"
    by (force simp: lockout_remaining_def Let_def split: option.split)+
qed

text \<open>The listed lockouts are exactly the pairs \<open>Check\<close> locks out.\<close>

lemma active_lockouts_iff:
  assumes perm: "\<And>xs. set (collate xs) = set xs"
    and list: "active_lockouts collate f l tab now = Inr outs"
    and check: "login_check f l tab now u ip = Inr (allowed, retry, locked)"
  shows "locked \<longleftrightarrow> (u, ip) \<in> (\<lambda>(u, ip, until). (u, ip)) ` set outs"
proof (cases "ll_lockout_failures l > 0 \<and> ll_lockout_window l > 0")
  case False
  then show ?thesis using list check
    by (auto simp: active_lockouts_def login_check_def Let_def split: if_splits prod.splits)
next
  case True
  let ?since = "now - ll_lockout_window l"
  let ?n = "count_failed_login_attempts_for_pair tab u ip ?since"
  have locked: "locked \<longleftrightarrow> ?n \<ge> ll_lockout_failures l"
    using True check by (auto simp: login_check_def Let_def split: if_splits prod.splits)
  have some: "?n \<ge> ll_lockout_failures l \<Longrightarrow> (u, ip) \<in> (\<lambda>a. (la_username a, la_ip a)) ` set (failed_since tab ?since)"
  proof -
    assume "?n \<ge> ll_lockout_failures l"
    with True have "pair_failures tab u ip ?since \<noteq> []"
      by (auto simp: count_failed_login_attempts_for_pair_def)
    then obtain a where "a \<in> set (pair_failures tab u ip ?since)" by (meson list.set_sel(1))
    then show ?thesis by (auto simp: pair_failures_def image_iff)
  qed
  have outs: "outs = map (\<lambda>(u, ip, oldest). (u, ip, (case oldest of None \<Rightarrow> 0 | Some t \<Rightarrow> t) + ll_lockout_window l))
        (failed_login_pairs_since collate tab ?since (ll_lockout_failures l))"
    using True list by (auto simp: active_lockouts_def split: if_splits)
  have "(\<lambda>(u, ip, until). (u, ip)) ` set outs =
      {p. p \<in> (\<lambda>a. (la_username a, la_ip a)) ` set (failed_since tab ?since) \<and>
        (case p of (u, ip) \<Rightarrow> count_failed_login_attempts_for_pair tab u ip ?since) \<ge> ll_lockout_failures l}"
    unfolding outs failed_login_pairs_since_def Let_def by (force simp: perm image_iff)
  with some locked show ?thesis by auto
qed

section \<open>Attempts in flight\<close>

text \<open>
  The handlers of \<open>internal/admin\<close>: \<open>login\<close> (\<open>admin.go\<close>) asks the limiter, then compares
  passwords, and only then records the outcome; \<open>setup\<close> (\<open>setup.go\<close>) asks for the address alone
  and records its failures under the empty name. Between the question and the record an
  attempt is in flight, and others may be asked or recorded; so each of the two is a step.
\<close>

definition maxUsernameLen where "maxUsernameLen = (64::nat)"
definition maxLoginPasswordLen where "maxLoginPasswordLen = (1024::nat)"
definition setupLimiterUser :: bytes where "setupLimiterUser = []"

record login_state =
  ls_attempts :: "attempt list"
  ls_now :: time
  ls_flight :: "(bytes \<times> bytes) list"

definition fresh_logins :: login_state where
  "fresh_logins = \<lparr>ls_attempts = [], ls_now = 0, ls_flight = []\<rparr>"

text \<open>\<open>login\<close> up to the password: the form, and \<open>allowAttempt\<close>.\<close>

definition begin_login :: "login_limiter \<Rightarrow> login_faults \<Rightarrow> bytes \<Rightarrow> bytes \<Rightarrow> bytes \<Rightarrow> login_state \<Rightarrow> login_state" where
  "begin_login l f username password ip s =
     (let username = trim_space username in
      if username = [] \<or> length username > maxUsernameLen \<or> password = [] \<or> length password > maxLoginPasswordLen then s
      else (case login_check f l (ls_attempts s) (ls_now s) username ip of
              Inr (True, _, _) \<Rightarrow> s\<lparr>ls_flight := ls_flight s @ [(username, ip)]\<rparr>
            | _ \<Rightarrow> s))"

definition begin_setup :: "login_limiter \<Rightarrow> login_faults \<Rightarrow> bytes \<Rightarrow> login_state \<Rightarrow> login_state" where
  "begin_setup l f ip s =
     (case check_address f l (ls_attempts s) (ls_now s) ip of
        Inr (True, _) \<Rightarrow> s\<lparr>ls_flight := ls_flight s @ [(setupLimiterUser, ip)]\<rparr>
      | _ \<Rightarrow> s)"

text \<open>
  The \<open>k\<close>-th attempt in flight ends. \<open>outcome\<close> is what is recorded of it; none when the statement
  fails, which the handler only logs, or when the process ends first, or for a setup that
  succeeds.
\<close>

definition end_attempt :: "nat \<Rightarrow> bool option \<Rightarrow> login_state \<Rightarrow> login_state" where
  "end_attempt k outcome s =
     (if k \<ge> length (ls_flight s) then s
      else
        (let (username, ip) = ls_flight s ! k;
             s' = s\<lparr>ls_flight := take k (ls_flight s) @ drop (Suc k) (ls_flight s)\<rparr> in
         case outcome of
           None \<Rightarrow> s'
         | Some success \<Rightarrow>
             s'\<lparr>ls_attempts := record_login_attempt (ls_attempts s) (ls_now s) username ip success\<rparr>))"

datatype login_op =
    BeginLogin login_faults bytes bytes bytes
  | BeginSetup login_faults bytes
  | EndAttempt nat "bool option"
  | PassTime duration

definition login_step :: "login_limiter \<Rightarrow> login_op \<Rightarrow> login_state \<Rightarrow> login_state" where
  "login_step l x s =
     (case x of
        BeginLogin f username password ip \<Rightarrow> begin_login l f username password ip s
      | BeginSetup f ip \<Rightarrow> begin_setup l f ip s
      | EndAttempt k outcome \<Rightarrow> end_attempt k outcome s
      | PassTime t \<Rightarrow> s\<lparr>ls_now := ls_now s + \<bar>t\<bar>\<rparr>)"

definition login_steps :: "login_limiter \<Rightarrow> login_op list \<Rightarrow> login_state \<Rightarrow> login_state" where
  "login_steps l xs s = fold (login_step l) xs s"

text \<open>How many attempts of \<open>who\<close> are in flight, and the most there ever are.\<close>

definition in_flight :: "(bytes \<times> bytes \<Rightarrow> bool) \<Rightarrow> login_state \<Rightarrow> nat" where
  "in_flight who s = length (filter who (ls_flight s))"

fun most_in_flight :: "(bytes \<times> bytes \<Rightarrow> bool) \<Rightarrow> login_limiter \<Rightarrow> login_op list \<Rightarrow> login_state \<Rightarrow> nat" where
  "most_in_flight who l [] s = in_flight who s"
| "most_in_flight who l (x # xs) s = max (in_flight who s) (most_in_flight who l xs (login_step l x s))"

definition failures_between :: "attempt list \<Rightarrow> (bytes \<times> bytes \<Rightarrow> bool) \<Rightarrow> time \<Rightarrow> time \<Rightarrow> nat" where
  "failures_between tab who from until =
     length (filter (\<lambda>a. who (la_username a, la_ip a) \<and> \<not> la_success a \<and> from \<le> la_created_at a \<and> la_created_at a \<le> until) tab)"

definition window_bounded :: "attempt list \<Rightarrow> (bytes \<times> bytes \<Rightarrow> bool) \<Rightarrow> int \<Rightarrow> bool" where
  "window_bounded tab who n \<longleftrightarrow> (\<forall>t. int (failures_between tab who (t - minute) t) \<le> n)"

lemma filter_length_mono:
  "(\<And>x. x \<in> set xs \<Longrightarrow> P x \<Longrightarrow> Q x) \<Longrightarrow> length (filter P xs) \<le> length (filter Q xs)"
  by (induction xs) auto

text \<open>The failures the limiter counts: those of the last minute.\<close>

definition recent :: "(bytes \<times> bytes \<Rightarrow> bool) \<Rightarrow> login_state \<Rightarrow> nat" where
  "recent who s = length (filter (\<lambda>a. who (la_username a, la_ip a)) (failed_since (ls_attempts s) (ls_now s - minute)))"

text \<open>
  The invariant: failures counted now and attempts in flight together are at most \<open>n\<close>, and no
  minute, past or future, holds more than that.
\<close>

definition logins_ok :: "(bytes \<times> bytes \<Rightarrow> bool) \<Rightarrow> int \<Rightarrow> login_state \<Rightarrow> bool" where
  "logins_ok who n s \<longleftrightarrow>
     window_bounded (ls_attempts s) who n \<and> int (recent who s) + int (in_flight who s) \<le> n
     \<and> (\<forall>a \<in> set (ls_attempts s). la_created_at a \<le> ls_now s)"

lemma filter_remove_nth:
  "k < length xs \<Longrightarrow> length (filter P xs) = length (filter P (take k xs @ drop (Suc k) xs)) + (if P (xs ! k) then 1 else 0)"
proof -
  assume k: "k < length xs"
  have "filter P xs = filter P (take k xs @ xs ! k # drop (Suc k) xs)" using id_take_nth_drop [OF k] by metis
  then show ?thesis by simp
qed

lemma recorded_failure_bounded:
  assumes "logins_ok who n s" and "who (u, ip) \<Longrightarrow> 0 < in_flight who s"
  shows "window_bounded (record_login_attempt (ls_attempts s) (ls_now s) u ip success) who n"
proof -
  let ?a = "\<lparr>la_username = u, la_ip = ip, la_success = success, la_created_at = ls_now s\<rparr>"
  have "int (failures_between (?a # ls_attempts s) who (t - minute) t) \<le> n" for t
  proof (cases "who (u, ip) \<and> \<not> success \<and> t - minute \<le> ls_now s \<and> ls_now s \<le> t")
    case True
    have "failures_between (ls_attempts s) who (t - minute) t \<le> recent who s"
      unfolding failures_between_def recent_def failed_since_def filter_filter using True
      by (intro filter_length_mono) auto
    moreover have "int (recent who s) + 1 \<le> n" using assms True by (simp add: logins_ok_def)
    ultimately show ?thesis using True by (simp add: failures_between_def)
  next
    case False
    then show ?thesis using assms(1) by (auto simp: logins_ok_def window_bounded_def failures_between_def)
  qed
  then show ?thesis by (simp add: window_bounded_def record_login_attempt_def)
qed

lemma end_attempt_ok:
  assumes "logins_ok who n s"
  shows "logins_ok who n (end_attempt k outcome s)"
proof (cases "k < length (ls_flight s)")
  case True
  obtain u ip where a: "ls_flight s ! k = (u, ip)" by (cases "ls_flight s ! k")
  define rest where "rest = take k (ls_flight s) @ drop (Suc k) (ls_flight s)"
  have flight: "in_flight who s = length (filter who rest) + (if who (u, ip) then 1 else 0)"
    using filter_remove_nth [OF True, of who] a by (simp add: in_flight_def rest_def)
  have bounded: "window_bounded (record_login_attempt (ls_attempts s) (ls_now s) u ip success) who n" for success
    by (rule recorded_failure_bounded [OF assms]) (simp add: flight)
  have one: "recent who (s\<lparr>ls_flight := rest, ls_attempts := record_login_attempt (ls_attempts s) (ls_now s) u ip success\<rparr>)
      \<le> recent who s + (if who (u, ip) then 1 else 0)" for success
    by (simp add: recent_def failed_since_def record_login_attempt_def)
  have none: "recent who (s\<lparr>ls_flight := rest\<rparr>) = recent who s" by (simp add: recent_def)
  show ?thesis
  proof (cases outcome)
    case None
    with True a show ?thesis
      using assms flight none by (simp add: end_attempt_def Let_def logins_ok_def in_flight_def rest_def [symmetric])
  next
    case (Some success)
    have "end_attempt k outcome s =
        s\<lparr>ls_flight := rest, ls_attempts := record_login_attempt (ls_attempts s) (ls_now s) u ip success\<rparr>"
      using True a Some by (simp add: end_attempt_def Let_def rest_def)
    then show ?thesis
      using assms flight one [of success] bounded [of success]
      by (auto simp: logins_ok_def in_flight_def record_login_attempt_def split: if_splits)
  qed
qed (use assms in \<open>simp add: end_attempt_def\<close>)

lemma pass_time_ok:
  assumes "logins_ok who n s"
  shows "logins_ok who n (s\<lparr>ls_now := ls_now s + \<bar>t\<bar>\<rparr>)"
proof -
  have "recent who (s\<lparr>ls_now := ls_now s + \<bar>t\<bar>\<rparr>) \<le> recent who s"
    by (auto simp: recent_def failed_since_def intro!: filter_length_mono)
  with assms show ?thesis by (force simp: logins_ok_def in_flight_def)
qed

text \<open>An attempt the limiter lets through finds fewer failures than the limit.\<close>

lemma began_ok:
  assumes "logins_ok who n s" and "s' = s\<lparr>ls_flight := ls_flight s @ [(u, ip)]\<rparr>"
    and "who (u, ip) \<Longrightarrow> int (recent who s) \<le> n - int (in_flight who s')"
  shows "logins_ok who n s'"
  using assms by (auto simp: logins_ok_def in_flight_def recent_def split: if_splits)

lemma begin_login_cases:
  "begin_login l f username password ip s = s
   \<or> (\<exists>r b. trim_space username \<noteq> [] \<and> login_check f l (ls_attempts s) (ls_now s) (trim_space username) ip = Inr (True, r, b)
       \<and> begin_login l f username password ip s = s\<lparr>ls_flight := ls_flight s @ [(trim_space username, ip)]\<rparr>)"
proof (cases "login_check f l (ls_attempts s) (ls_now s) (trim_space username) ip")
  case (Inr x)
  obtain a r b where "x = (a, r, b)" by (cases x)
  with Inr show ?thesis by (cases a) (auto simp: begin_login_def Let_def)
qed (simp add: begin_login_def Let_def)

lemma begin_setup_cases:
  "begin_setup l f ip s = s
   \<or> (\<exists>r. check_address f l (ls_attempts s) (ls_now s) ip = Inr (True, r)
       \<and> begin_setup l f ip s = s\<lparr>ls_flight := ls_flight s @ [([], ip)]\<rparr>)"
proof (cases "check_address f l (ls_attempts s) (ls_now s) ip")
  case (Inr x)
  obtain a r where "x = (a, r)" by (cases x)
  with Inr show ?thesis by (cases a) (auto simp: begin_setup_def setupLimiterUser_def)
qed (simp add: begin_setup_def)

lemma login_step_ok:
  assumes ok: "logins_ok who n s" and most: "int (in_flight who (login_step l x s)) \<le> k" and n: "n = limit - 1 + k"
    and guard: "\<And>f u ip r b. u \<noteq> [] \<Longrightarrow> who (u, ip) \<Longrightarrow> login_check f l (ls_attempts s) (ls_now s) u ip = Inr (True, r, b) \<Longrightarrow> int (recent who s) < limit"
    and address: "\<And>f ip r. who ([], ip) \<Longrightarrow> check_address f l (ls_attempts s) (ls_now s) ip = Inr (True, r) \<Longrightarrow> int (recent who s) < limit"
  shows "logins_ok who n (login_step l x s)"
proof (cases x)
  case (BeginLogin f username password ip)
  define s' where "s' = login_step l x s"
  consider "s' = s" | r b where "trim_space username \<noteq> []" "login_check f l (ls_attempts s) (ls_now s) (trim_space username) ip = Inr (True, r, b)"
      "s' = s\<lparr>ls_flight := ls_flight s @ [(trim_space username, ip)]\<rparr>"
    using begin_login_cases [of l f username password ip s] unfolding s'_def BeginLogin by (auto simp: login_step_def)
  then show ?thesis
  proof cases
    case 2
    from guard [OF 2(1) _ 2(2)] most n show ?thesis
      unfolding s'_def [symmetric] by (intro began_ok [OF ok 2(3)]) force
  qed (use ok in \<open>simp add: s'_def\<close>)
next
  case (BeginSetup f ip)
  define s' where "s' = login_step l x s"
  consider "s' = s" | r where "check_address f l (ls_attempts s) (ls_now s) ip = Inr (True, r)"
      "s' = s\<lparr>ls_flight := ls_flight s @ [([], ip)]\<rparr>"
    using begin_setup_cases [of l f ip s] unfolding s'_def BeginSetup by (auto simp: login_step_def)
  then show ?thesis
  proof cases
    case 2
    from address [OF _ 2(1)] most n show ?thesis
      unfolding s'_def [symmetric] by (intro began_ok [OF ok 2(2)]) force
  qed (use ok in \<open>simp add: s'_def\<close>)
qed (use end_attempt_ok [OF ok] pass_time_ok [OF ok] in \<open>simp_all add: login_step_def\<close>)

lemma login_steps_ok:
  assumes guard: "\<And>f s u ip r b. u \<noteq> [] \<Longrightarrow> who (u, ip) \<Longrightarrow> login_check f l (ls_attempts s) (ls_now s) u ip = Inr (True, r, b) \<Longrightarrow> int (recent who s) < limit"
    and address: "\<And>f s ip r. who ([], ip) \<Longrightarrow> check_address f l (ls_attempts s) (ls_now s) ip = Inr (True, r) \<Longrightarrow> int (recent who s) < limit"
    and "logins_ok who n s" and "int (most_in_flight who l xs s) \<le> k" and "n = limit - 1 + k"
  shows "logins_ok who n (login_steps l xs s)"
  using assms(3,4)
proof (induction xs arbitrary: s)
  case (Cons x xs)
  have "int (in_flight who (login_step l x s)) \<le> int (most_in_flight who l xs (login_step l x s))"
    by (cases xs) simp_all
  with Cons.prems have "logins_ok who n (login_step l x s)"
    by (intro login_step_ok [OF Cons.prems(1) _ assms(5) guard address]) auto
  with Cons show ?case by (simp add: login_steps_def)
qed (simp add: login_steps_def)

lemma check_address_allowed:
  assumes "check_address f l tab now ip = Inr (True, r)" "ll_per_ip l > 0"
  shows "int (length (filter (\<lambda>a. la_ip a = ip) (failed_since tab (now - minute)))) < ll_per_ip l"
  using assms snd_count_failed [of tab "[]" ip "now - minute"] by (auto simp: check_address_def split: if_splits)

lemma fresh_logins_ok: "0 < limit \<Longrightarrow> 0 \<le> k \<Longrightarrow> logins_ok who (limit - 1 + k) fresh_logins"
  by (simp add: logins_ok_def fresh_logins_def window_bounded_def failures_between_def recent_def in_flight_def failed_since_def)

section \<open>Roles and scopes\<close>

definition RoleAdmin where "RoleAdmin = ''admin''"
definition RoleEditor where "RoleEditor = ''editor''"
definition RoleViewer where "RoleViewer = ''viewer''"

text \<open>The map \<open>roleRank\<close>: a missing key reads as zero.\<close>

definition role_rank :: "bytes \<Rightarrow> nat option" where
  "role_rank r =
     (if r = RoleViewer then Some 1 else if r = RoleEditor then Some 2
      else if r = RoleAdmin then Some 3 else None)"

definition is_valid_role :: "bytes \<Rightarrow> bool" where
  "is_valid_role r \<longleftrightarrow> role_rank r \<noteq> None"

definition rank_of :: "bytes \<Rightarrow> nat" where
  "rank_of r = (case role_rank r of None \<Rightarrow> 0 | Some n \<Rightarrow> n)"

definition at_least :: "bytes \<Rightarrow> bytes \<Rightarrow> bool" where
  "at_least r m \<longleftrightarrow> rank_of r \<ge> rank_of m"

record auth_session =
  as_expires_at :: "time option"
  as_bearer :: bool
  as_key_id :: "int option"
  as_scopes :: "bytes list"

definition is_key :: "auth_session option \<Rightarrow> bool" where
  "is_key se = (case se of None \<Rightarrow> False | Some x \<Rightarrow> as_key_id x \<noteq> None)"

definition session_kind :: "auth_session option \<Rightarrow> bytes" where
  "session_kind se = (if is_key se then ''api_key'' else ''session'')"

definition scopes_of :: "auth_session option \<Rightarrow> bytes list" where
  "scopes_of se = (case se of None \<Rightarrow> [] | Some x \<Rightarrow> as_scopes x)"

datatype gate = Passed | Unauthorized | ForbiddenRole | InsufficientScope bytes | CrossSite

definition require_role :: "bytes \<Rightarrow> user option \<Rightarrow> gate" where
  "require_role m u =
     (case u of None \<Rightarrow> Unauthorized
      | Some x \<Rightarrow> if \<not> at_least (u_role x) m then ForbiddenRole else Passed)"

definition require_scope :: "bytes \<Rightarrow> auth_session option \<Rightarrow> gate" where
  "require_scope scope se =
     (if is_key se \<and> \<not> has_scope (scopes_of se) scope then InsufficientScope scope else Passed)"

definition allows :: "user option \<Rightarrow> auth_session option \<Rightarrow> bytes \<Rightarrow> bytes \<Rightarrow> bool" where
  "allows u se m scope =
     (case u of
        None \<Rightarrow> False
      | Some x \<Rightarrow>
          (if \<not> at_least (u_role x) m then False
           else if is_key se \<and> \<not> has_scope (scopes_of se) scope then False
           else True))"

definition can_access_project :: "(int \<Rightarrow> int \<Rightarrow> bool) \<Rightarrow> user option \<Rightarrow> int \<Rightarrow> bool" where
  "can_access_project is_member u pid =
     (case u of
        None \<Rightarrow> False
      | Some x \<Rightarrow> if at_least (u_role x) RoleAdmin then True else is_member pid (u_id x))"

text \<open>\<open>Allows\<close> is \<open>RequireRole\<close> and \<open>RequireScope\<close> together.\<close>

lemma allows_iff: "allows u se m scope \<longleftrightarrow> require_role m u = Passed \<and> require_scope scope se = Passed"
  by (simp add: allows_def require_role_def require_scope_def split: option.split)

lemma at_least_refl: "at_least r r"
  by (simp add: at_least_def)

lemma at_least_trans: "at_least a b \<Longrightarrow> at_least b c \<Longrightarrow> at_least a c"
  by (simp add: at_least_def)

lemma at_least_admin: "at_least r RoleAdmin \<longleftrightarrow> r = RoleAdmin"
  by (auto simp: at_least_def rank_of_def role_rank_def RoleAdmin_def RoleEditor_def RoleViewer_def)

section \<open>The session middleware\<close>

record web_request =
  wr_method :: bytes
  wr_authorization :: bytes
  wr_cookie :: "bytes option"
  wr_sec_fetch_site :: bytes
  wr_origin :: bytes
  wr_origin_host :: "bytes option"
  wr_host :: bytes
  wr_tls :: bool
  wr_forwarded_proto :: bytes

text \<open>
  \<open>wr_origin_host\<close> is what \<open>url.Parse\<close> makes of the Origin: \<open>None\<close> when it does not
  parse, else its host. \<open>fold_eq\<close> is \<open>strings.EqualFold\<close>.
\<close>

definition token_from_request :: "web_request \<Rightarrow> bytes" where
  "token_from_request r =
     (if has_prefix (wr_authorization r) ''Bearer '' then trim_space (drop 7 (wr_authorization r))
      else case wr_cookie r of Some v \<Rightarrow> v | None \<Rightarrow> [])"

definition is_bearer :: "web_request \<Rightarrow> bool" where
  "is_bearer r \<longleftrightarrow> has_prefix (wr_authorization r) ''Bearer ''"

definition same_origin_ok :: "(bytes \<Rightarrow> bytes \<Rightarrow> bool) \<Rightarrow> web_request \<Rightarrow> bool" where
  "same_origin_ok fold_eq r =
     (if wr_method r \<in> {''GET'', ''HEAD'', ''OPTIONS''} then True
      else if wr_sec_fetch_site r \<noteq> [] then wr_sec_fetch_site r \<in> {''same-origin'', ''none''}
      else if wr_origin r = [] \<or> wr_origin r = ''null'' then wr_origin r = []
      else case wr_origin_host r of
        None \<Rightarrow> False
      | Some h \<Rightarrow> if h = [] then False else fold_eq h (wr_host r))"

definition secure_cookie :: "(bytes \<Rightarrow> bytes \<Rightarrow> bool) \<Rightarrow> bool \<Rightarrow> bool \<Rightarrow> web_request \<Rightarrow> bool" where
  "secure_cookie fold_eq secure trust_proxy r =
     (if secure \<or> wr_tls r then True
      else trust_proxy \<and> fold_eq (trim_space (wr_forwarded_proto r)) ''https'')"

text \<open>\<open>Middleware\<close>; \<open>by_session\<close> is \<open>UserAndExpiryBySession\<close>.\<close>

definition session_middleware ::
  "(bytes \<Rightarrow> bytes \<Rightarrow> bool) \<Rightarrow> store \<Rightarrow> (bytes \<Rightarrow> (user \<times> time) option) \<Rightarrow> web_request \<Rightarrow>
   gate + (user \<times> auth_session)" where
  "session_middleware fold_eq s by_session r =
     (let tok = token_from_request r in
      if tok = [] then Inl Unauthorized
      else if \<not> is_bearer r \<and> \<not> same_origin_ok fold_eq r then Inl CrossSite
      else if has_prefix tok ManagementKeyPrefix then
        (if \<not> is_bearer r then Inl Unauthorized
         else case resolve_management_key s tok of
           Inl e \<Rightarrow> Inl Unauthorized
         | Inr (k, u) \<Rightarrow> Inr (u, \<lparr>as_expires_at = k_expires_at k, as_bearer = True,
             as_key_id = Some (k_id k), as_scopes = k_scopes k\<rparr>))
      else case by_session tok of
        None \<Rightarrow> Inl Unauthorized
      | Some (u, expires) \<Rightarrow> Inr (u, \<lparr>as_expires_at = Some expires, as_bearer = is_bearer r,
          as_key_id = None, as_scopes = []\<rparr>))"

lemma session_middleware_cookie:
  assumes "session_middleware eq s by_session r = Inr (u, se)" "\<not> is_bearer r"
  shows "same_origin_ok eq r" "as_key_id se = None" "wr_cookie r \<noteq> None"
  using assms
  by (auto simp: session_middleware_def token_from_request_def is_bearer_def Let_def
      split: if_splits option.splits)

lemma session_middleware_key:
  assumes "session_middleware eq s by_session r = Inr (u, se)" "as_key_id se = Some i"
  shows "is_bearer r" "\<exists>k. live_key_row s ''management'' (token_from_request r) = Some (k, u) \<and> k_id k = i
    \<and> as_scopes se = k_scopes k"
  using assms
  by (auto simp: session_middleware_def resolve_management_key_def Let_def
      split: if_splits option.splits sum.splits)

section \<open>Properties\<close>

text \<open>C19: However login and setup attempts start, wait and end, and whichever of them the database loses, the
  failures recorded in any span of one minute for a username are at most its limit less one plus
  the most attempts for it that are ever between the limiter's answer and the record at once; the
  same holds for an address with its own limit. One attempt at a time makes that the limit itself.\<close>

theorem login_failures_bounded:
  assumes "ll_per_user l > 0" "ll_per_ip l > 0" "u \<noteq> []"
  shows "(let tab = ls_attempts (login_steps l xs fresh_logins);
              by_user = (\<lambda>(v, ip). v = u); by_ip = (\<lambda>(v, ip). ip = i)
          in window_bounded tab by_user (ll_per_user l - 1 + int (most_in_flight by_user l xs fresh_logins))
             \<and> window_bounded tab by_ip (ll_per_ip l - 1 + int (most_in_flight by_ip l xs fresh_logins)))"
proof -
  let ?u = "\<lambda>(v, ip). v = u" and ?i = "\<lambda>(v :: bytes, ip). ip = i"
  have "logins_ok ?u (ll_per_user l - 1 + int (most_in_flight ?u l xs fresh_logins)) (login_steps l xs fresh_logins)"
  proof (rule login_steps_ok [OF _ _ fresh_logins_ok order_refl refl])
    show "int (recent ?u s) < ll_per_user l"
      if "case (v, ip) of (v, ip) \<Rightarrow> v = u" "login_check f l (ls_attempts s) (ls_now s) v ip = Inr (True, r, b)" for f s v ip r b
      using that login_check_allowed(1) [OF that(2) assms(1)] by (simp add: recent_def)
  qed (use assms in auto)
  moreover have "logins_ok ?i (ll_per_ip l - 1 + int (most_in_flight ?i l xs fresh_logins)) (login_steps l xs fresh_logins)"
  proof (rule login_steps_ok [OF _ _ fresh_logins_ok order_refl refl])
    show "int (recent ?i s) < ll_per_ip l"
      if "case (v, ip) of (v, ip) \<Rightarrow> ip = i" "login_check f l (ls_attempts s) (ls_now s) v ip = Inr (True, r, b)" for f s v ip r b
      using that login_check_allowed(2) [OF that(2) assms(2)] by (simp add: recent_def)
    show "int (recent ?i s) < ll_per_ip l"
      if "case ([], ip) of (v :: bytes, ip) \<Rightarrow> ip = i" "check_address f l (ls_attempts s) (ls_now s) ip = Inr (True, r)" for f s ip r
      using that check_address_allowed [OF that(2) assms(2)] by (simp add: recent_def)
  qed (use assms in auto)
  ultimately show ?thesis by (simp add: Let_def logins_ok_def)
qed

definition ada_tries :: login_op where "ada_tries = BeginLogin (\<lambda>_. False) ''ada'' ''guess'' ''10.0.0.1''"

text \<open>Nine wrong guesses one after the other, and nine at once.\<close>

definition guesses_in_turn :: "login_op list" where
  "guesses_in_turn = concat (replicate 9 [ada_tries, EndAttempt 0 (Some False)])"

definition guesses_at_once :: "login_op list" where
  "guesses_at_once = replicate 9 ada_tries @ replicate 9 (EndAttempt 0 (Some False))"

theorem login_failures_bounded_witness:
  "window_bounded (ls_attempts (login_steps default_login_limiter guesses_in_turn fresh_logins)) (\<lambda>(v, ip). v = ''ada'') 5
   \<and> length (ls_attempts (login_steps default_login_limiter guesses_in_turn fresh_logins)) = 5"
proof -
  have "most_in_flight (\<lambda>(v, ip). v = ''ada'') default_login_limiter guesses_in_turn fresh_logins = 1" by code_simp
  then have "window_bounded (ls_attempts (login_steps default_login_limiter guesses_in_turn fresh_logins)) (\<lambda>(v, ip). v = ''ada'') 5"
    using login_failures_bounded [of default_login_limiter "''ada''" guesses_in_turn] by (simp add: Let_def default_login_limiter_def)
  moreover have "length (ls_attempts (login_steps default_login_limiter guesses_in_turn fresh_logins)) = 5" by code_simp
  ultimately show ?thesis by simp
qed

text \<open>Nine guesses that are all asked before one of them is recorded are all compared with the
  password, and all recorded: the limit of five is asked about too early to hold for them.\<close>

lemma simultaneous_guesses_pass_the_limit:
  "failures_between (ls_attempts (login_steps default_login_limiter guesses_at_once fresh_logins)) (\<lambda>(v, ip). v = ''ada'') 0 0 = 9
   \<and> ll_per_user default_login_limiter = 5"
  by code_simp

text \<open>The lockouts the dashboard lists are exactly the username and address pairs a login check would refuse
  as locked at that moment.\<close>

theorem listed_lockouts_are_enforced:
  assumes "\<forall>xs. set (collate xs) = set xs"
    and "active_lockouts collate f l tab now = Inr outs"
    and "login_check f l tab now u ip = Inr (allowed, retry, locked)"
  shows "locked \<longleftrightarrow> (u, ip) \<in> (\<lambda>(u, ip, until). (u, ip)) ` set outs"
  using active_lockouts_iff [OF _ assms(2,3)] assms(1) by blast

definition bad_attempts :: "attempt list" where
  "bad_attempts = replicate 20 \<lparr>la_username = ''ada'', la_ip = ''10.0.0.1'', la_success = False, la_created_at = 0\<rparr>"

theorem listed_lockouts_are_enforced_witness:
  "(''ada'', ''10.0.0.1'') \<in> (\<lambda>(u, ip, until). (u, ip)) `
     set [(''ada'', ''10.0.0.1'', 15 * minute)]"
proof -
  have fs: "failed_since bad_attempts (5 * minute - 15 * minute) = bad_attempts"
    by (simp add: failed_since_def bad_attempts_def)
  have pf: "pair_failures bad_attempts ''ada'' ''10.0.0.1'' (5 * minute - 15 * minute) = bad_attempts"
    unfolding pair_failures_def fs by (simp add: bad_attempts_def)
  have old: "oldest_failed_login_attempt bad_attempts ''ada'' ''10.0.0.1'' (5 * minute - 15 * minute) = Some 0"
    unfolding oldest_failed_login_attempt_def pf by (simp add: bad_attempts_def numeral_eq_Suc)
  have cnt: "count_failed_login_attempts_for_pair bad_attempts ''ada'' ''10.0.0.1'' (5 * minute - 15 * minute) = 20"
    unfolding count_failed_login_attempts_for_pair_def pf by (simp add: bad_attempts_def)
  have pairs: "remdups (map (\<lambda>a. (la_username a, la_ip a)) bad_attempts) = [(''ada'', ''10.0.0.1'')]"
    by (simp add: bad_attempts_def numeral_eq_Suc)
  have "active_lockouts (\<lambda>xs. xs) (\<lambda>_. False) default_login_limiter bad_attempts (5 * minute) =
      Inr [(''ada'', ''10.0.0.1'', 15 * minute)]"
    using fs cnt old pairs by (simp add: active_lockouts_def failed_login_pairs_since_def default_login_limiter_def Let_def)
  moreover have "login_check (\<lambda>_. False) default_login_limiter bad_attempts (5 * minute) ''ada'' ''10.0.0.1'' =
      Inr (False, 10 * minute, True)"
    using cnt old by (simp add: login_check_def lockout_remaining_def default_login_limiter_def Let_def)
  ultimately show ?thesis
    using listed_lockouts_are_enforced [of "\<lambda>xs. xs"] by blast
qed

text \<open>A request authenticated by the cookie alone is never a management key and, when it changes state, never
  came from a foreign origin; a management key is only ever taken from the Authorization header, is live, and
  brings its own scopes.\<close>

theorem middleware_separates_cookie_and_key:
  assumes "session_middleware fold_eq s by_session r = Inr (u, se)"
  shows "(\<not> is_bearer r \<longrightarrow> as_key_id se = None \<and> same_origin_ok fold_eq r) \<and>
    (\<forall>i. as_key_id se = Some i \<longrightarrow> is_bearer r \<and>
       (\<exists>k. live_key_row s ''management'' (token_from_request r) = Some (k, u) \<and> k_id k = i \<and> as_scopes se = k_scopes k))"
  using session_middleware_cookie [OF assms] session_middleware_key [OF assms] by blast

definition cookie_post :: web_request where
  "cookie_post = \<lparr>wr_method = ''POST'', wr_authorization = [], wr_cookie = Some ''tok'',
     wr_sec_fetch_site = ''same-origin'', wr_origin = [], wr_origin_host = None, wr_host = ''h'', wr_tls = True,
     wr_forwarded_proto = []\<rparr>"

theorem middleware_separates_cookie_and_key_witness: "same_origin_ok (=) cookie_post"
proof -
  have "session_middleware (=) demo_store (\<lambda>_. Some (demo_user, 9)) cookie_post =
      Inr (demo_user, \<lparr>as_expires_at = Some 9, as_bearer = False, as_key_id = None, as_scopes = []\<rparr>)"
    by (simp add: session_middleware_def cookie_post_def token_from_request_def is_bearer_def same_origin_ok_def
        has_prefix_def ManagementKeyPrefix_def)
  from middleware_separates_cookie_and_key [OF this] show ?thesis
    by (simp add: is_bearer_def cookie_post_def has_prefix_def)
qed

end
