(* ===== verification/Float64.thy ===== *)
theory Float64
  imports Prelude
begin

text \<open>
  Go's \<open>float64\<close> arithmetic as the program uses it: IEEE 754 binary64 values as exact
  rationals with the two infinities and NaN, each operation the exact result rounded to
  nearest, ties to even. The sign of zero is not kept: nothing here observes it. A
  compiler that fuses a multiplication into an addition (Go permits it; amd64 does not
  do it by default) rounds once where this rounds twice.
\<close>

section \<open>Rounding\<close>

fun bits :: "nat \<Rightarrow> nat" where
  "bits n = (if n = 0 then 0 else Suc (bits (n div 2)))"

declare bits.simps [simp del]

lemma bits_bounds: "0 < n \<Longrightarrow> 2 ^ (bits n - 1) \<le> n \<and> n < 2 ^ bits n"
proof (induction n rule: bits.induct)
  case (1 n)
  show ?case
  proof (cases "n div 2 = 0")
    case True
    with 1 show ?thesis by (simp add: bits.simps [of n] bits.simps [of 0])
  next
    case False
    with 1 have ih: "2 ^ (bits (n div 2) - 1) \<le> n div 2" "n div 2 < 2 ^ bits (n div 2)" by simp_all
    obtain b where b: "bits (n div 2) = Suc b" using False by (simp add: bits.simps [of "n div 2"])
    with ih have "2 * 2 ^ b \<le> n" "n < 2 * 2 ^ Suc b" by simp_all
    with 1 b show ?thesis by (simp add: bits.simps [of n])
  qed
qed

abbreviation pow2 :: "int \<Rightarrow> rat" where "pow2 e \<equiv> 2 powi e"

text \<open>The exponent of the last place of a positive value: 53 significant bits, or subnormal.\<close>

definition ulp_exp :: "rat \<Rightarrow> int" where
  "ulp_exp x =
     (case quotient_of x of (n, d) \<Rightarrow>
        let e = int (bits (nat n)) - int (bits (nat d)) - 53;
            e = (if x \<ge> pow2 (e + 53) then e + 1 else e)
        in max e (- 1074))"

definition round_half_even :: "rat \<Rightarrow> int" where
  "round_half_even x =
     (let f = \<lfloor>x\<rfloor>; r = x - of_int f in
      if r < 1/2 then f else if r > 1/2 then f + 1 else if even f then f else f + 1)"

definition round_pos :: "rat \<Rightarrow> rat" where
  "round_pos x = of_int (round_half_even (x / pow2 (ulp_exp x))) * pow2 (ulp_exp x)"

datatype f64 = Fin rat | PInf | NInf | NaN

definition fl :: "rat \<Rightarrow> f64" where
  "fl x =
     (if x = 0 then Fin 0
      else let y = round_pos \<bar>x\<bar> in
        if y \<ge> pow2 1024 then (if x > 0 then PInf else NInf)
        else Fin (if x > 0 then y else - y))"

section \<open>Operations\<close>

definition f_of_int :: "int \<Rightarrow> f64" where
  "f_of_int n = fl (of_int n)"

fun f_sign :: "f64 \<Rightarrow> int" where
  "f_sign (Fin x) = (if x > 0 then 1 else if x < 0 then - 1 else 0)"
| "f_sign PInf = 1"
| "f_sign NInf = - 1"
| "f_sign NaN = 0"

definition f_inf :: "int \<Rightarrow> f64" where
  "f_inf s = (if s > 0 then PInf else if s < 0 then NInf else NaN)"

fun f_mul :: "f64 \<Rightarrow> f64 \<Rightarrow> f64" where
  "f_mul NaN y = NaN"
| "f_mul x NaN = NaN"
| "f_mul (Fin x) (Fin y) = fl (x * y)"
| "f_mul x y = f_inf (f_sign x * f_sign y)"

fun f_add :: "f64 \<Rightarrow> f64 \<Rightarrow> f64" where
  "f_add NaN y = NaN"
| "f_add x NaN = NaN"
| "f_add PInf NInf = NaN"
| "f_add NInf PInf = NaN"
| "f_add PInf y = PInf"
| "f_add x PInf = PInf"
| "f_add NInf y = NInf"
| "f_add x NInf = NInf"
| "f_add (Fin x) (Fin y) = fl (x + y)"

fun f_div :: "f64 \<Rightarrow> f64 \<Rightarrow> f64" where
  "f_div NaN y = NaN"
| "f_div x NaN = NaN"
| "f_div (Fin x) (Fin y) = (if y = 0 then f_inf (f_sign (Fin x)) else fl (x / y))"
| "f_div (Fin x) y = Fin 0"
| "f_div x (Fin y) = f_inf (f_sign x * (if y < 0 then - 1 else 1))"
| "f_div x y = NaN"

text \<open>\<open>a < b\<close>; every comparison with NaN is false.\<close>

fun f_less :: "f64 \<Rightarrow> f64 \<Rightarrow> bool" where
  "f_less NaN y = False"
| "f_less x NaN = False"
| "f_less (Fin x) (Fin y) = (x < y)"
| "f_less x PInf = (x \<noteq> PInf)"
| "f_less NInf y = (y \<noteq> NInf)"
| "f_less x y = False"

text \<open>\<open>math.Round\<close>: half away from zero; its result is always representable.\<close>

definition round_away :: "rat \<Rightarrow> int" where
  "round_away x = (if x \<ge> 0 then \<lfloor>x + 1/2\<rfloor> else - \<lfloor>1/2 - x\<rfloor>)"

fun f_round :: "f64 \<Rightarrow> f64" where
  "f_round (Fin x) = Fin (of_int (round_away x))"
| "f_round x = x"

section \<open>Rounding is monotone\<close>

lemma pow2_add: "pow2 (a + b) = pow2 a * pow2 b"
  by (simp add: power_int_add)

lemma pow2_pos: "0 < pow2 a"
  by simp

lemma pow2_mono: "a \<le> b \<Longrightarrow> pow2 a \<le> pow2 b"
  by (rule power_int_increasing) auto

lemma pow2_of_nat: "pow2 (int n) = of_nat (2 ^ n)"
  by (simp add: power_int_def)

lemma ulp_exp_spec:
  assumes "0 < x"
  shows "x < pow2 (ulp_exp x + 53)" "ulp_exp x = - 1074 \<or> pow2 (ulp_exp x + 52) \<le> x"
    "- 1074 \<le> ulp_exp x"
proof -
  obtain n d where q: "quotient_of x = (n, d)" by fastforce
  then have d: "0 < d" and x: "x = of_int n / of_int d"
    using quotient_of_denom_pos quotient_of_div by blast+
  with assms have n: "0 < n" by (simp add: zero_less_divide_iff)
  define bn where "bn = bits (nat n)"
  define bd where "bd = bits (nat d)"
  have bn: "2 ^ (bn - 1) \<le> nat n" "nat n < 2 ^ bn" "0 < bn"
    using bits_bounds [of "nat n"] n by (auto simp: bn_def bits.simps [of "nat n"])
  have bd: "2 ^ (bd - 1) \<le> nat d" "nat d < 2 ^ bd" "0 < bd"
    using bits_bounds [of "nat d"] d by (auto simp: bd_def bits.simps [of "nat d"])
  have rn: "pow2 (int bn - 1) \<le> of_int n" "of_int n < pow2 (int bn)"
  proof -
    have "rat_of_nat (2 ^ (bn - 1)) \<le> of_nat (nat n)" "rat_of_nat (nat n) < of_nat (2 ^ bn)"
      using bn by (simp_all only: of_nat_le_iff of_nat_less_iff)
    then show "pow2 (int bn - 1) \<le> of_int n" "of_int n < pow2 (int bn)"
      using n bn(3) pow2_of_nat [of "bn - 1"] pow2_of_nat [of bn] by (simp_all add: of_nat_diff)
  qed
  have rd: "pow2 (int bd - 1) \<le> of_int d" "of_int d < pow2 (int bd)"
  proof -
    have "rat_of_nat (2 ^ (bd - 1)) \<le> of_nat (nat d)" "rat_of_nat (nat d) < of_nat (2 ^ bd)"
      using bd by (simp_all only: of_nat_le_iff of_nat_less_iff)
    then show "pow2 (int bd - 1) \<le> of_int d" "of_int d < pow2 (int bd)"
      using d bd(3) pow2_of_nat [of "bd - 1"] pow2_of_nat [of bd] by (simp_all add: of_nat_diff)
  qed
  define e where "e = int bn - int bd - 53"
  have dpos: "(0::rat) < of_int d" using d by simp
  have lo: "pow2 (e + 52) \<le> x"
  proof -
    have "pow2 (e + 52) * of_int d \<le> pow2 (e + 52) * pow2 (int bd)"
      using rd(2) by (intro mult_left_mono) auto
    also have "\<dots> = pow2 (int bn - 1)" by (subst pow2_add [symmetric]) (simp add: e_def)
    also have "\<dots> \<le> of_int n" by (rule rn)
    finally show ?thesis using dpos by (simp add: x pos_le_divide_eq)
  qed
  have hi: "x < pow2 (e + 54)"
  proof -
    have "of_int n < pow2 (e + 54) * pow2 (int bd - 1)"
      using rn(2) by (subst pow2_add [symmetric]) (simp add: e_def)
    also have "\<dots> \<le> pow2 (e + 54) * of_int d"
      using rd(1) by (intro mult_left_mono) auto
    finally show ?thesis using dpos by (simp add: x pos_divide_less_eq)
  qed
  define e' where "e' = (if x \<ge> pow2 (e + 53) then e + 1 else e)"
  have e': "pow2 (e' + 52) \<le> x" "x < pow2 (e' + 53)"
    using lo hi by (auto simp: e'_def add.assoc)
  have u: "ulp_exp x = max e' (- 1074)"
    by (simp add: ulp_exp_def q Let_def e_def e'_def bn_def bd_def)
  show "- 1074 \<le> ulp_exp x" by (simp add: u)
  show "ulp_exp x = - 1074 \<or> pow2 (ulp_exp x + 52) \<le> x"
    using e'(1) by (cases "e' \<le> - 1074") (simp_all add: u max_def)
  have "pow2 (e' + 53) \<le> pow2 (ulp_exp x + 53)" by (rule pow2_mono) (simp add: u)
  with e'(2) show "x < pow2 (ulp_exp x + 53)" by linarith
qed

lemma round_half_even_bounds: "\<lfloor>x\<rfloor> \<le> round_half_even x" "round_half_even x \<le> \<lfloor>x\<rfloor> + 1"
  by (simp_all add: round_half_even_def Let_def)

lemma round_half_even_of_int: "round_half_even (of_int n) = n"
  by (simp add: round_half_even_def)

lemma round_half_even_mono: "x \<le> y \<Longrightarrow> round_half_even x \<le> round_half_even y"
proof -
  assume le: "x \<le> y"
  then have f: "\<lfloor>x\<rfloor> \<le> \<lfloor>y\<rfloor>" by (rule floor_mono)
  show ?thesis
  proof (cases "\<lfloor>x\<rfloor> = \<lfloor>y\<rfloor>")
    case True
    with le show ?thesis by (auto simp: round_half_even_def Let_def)
  next
    case False
    with f round_half_even_bounds [of x] round_half_even_bounds [of y] show ?thesis by linarith
  qed
qed

lemma round_half_even_ge: "of_int n \<le> x \<Longrightarrow> n \<le> round_half_even x"
  using round_half_even_mono [of "of_int n" x] by (simp add: round_half_even_of_int)

lemma round_half_even_le: "x \<le> of_int n \<Longrightarrow> round_half_even x \<le> n"
  using round_half_even_mono [of x "of_int n"] by (simp add: round_half_even_of_int)

lemma round_pos_le:
  assumes "0 < x"
  shows "round_pos x \<le> pow2 (ulp_exp x + 53)"
proof -
  have "x / pow2 (ulp_exp x) \<le> of_int (2 ^ 53)"
    using ulp_exp_spec(1) [OF assms] by (simp add: pow2_add pos_divide_le_eq mult.commute)
  then have "round_half_even (x / pow2 (ulp_exp x)) \<le> 2 ^ 53" by (rule round_half_even_le)
  then have "of_int (round_half_even (x / pow2 (ulp_exp x))) \<le> (2 ^ 53 :: rat)"
    by (metis of_int_le_iff of_int_numeral of_int_power)
  then have "round_pos x \<le> 2 ^ 53 * pow2 (ulp_exp x)"
    unfolding round_pos_def by (intro mult_right_mono) auto
  then show ?thesis by (simp add: pow2_add mult.commute)
qed

lemma round_pos_ge:
  assumes "pow2 (ulp_exp x + 52) \<le> x"
  shows "pow2 (ulp_exp x + 52) \<le> round_pos x"
proof -
  have "of_int (2 ^ 52) \<le> x / pow2 (ulp_exp x)"
    using assms by (simp add: pow2_add pos_le_divide_eq mult.commute)
  then have "2 ^ 52 \<le> round_half_even (x / pow2 (ulp_exp x))" by (rule round_half_even_ge)
  then have "(2 ^ 52 :: rat) \<le> of_int (round_half_even (x / pow2 (ulp_exp x)))"
    by (metis of_int_le_iff of_int_numeral of_int_power)
  then have "2 ^ 52 * pow2 (ulp_exp x) \<le> round_pos x"
    unfolding round_pos_def by (intro mult_right_mono) auto
  then show ?thesis by (simp add: pow2_add mult.commute)
qed

lemma round_pos_nonneg: "0 < x \<Longrightarrow> 0 \<le> round_pos x"
  using round_half_even_ge [of 0 "x / pow2 (ulp_exp x)"] by (simp add: round_pos_def)

lemma round_pos_mono:
  assumes "0 < x" "x \<le> y"
  shows "round_pos x \<le> round_pos y"
proof -
  have y: "0 < y" using assms by simp
  note sx = ulp_exp_spec [OF assms(1)] and sy = ulp_exp_spec [OF y]
  have le: "ulp_exp x \<le> ulp_exp y"
  proof (rule ccontr)
    assume "\<not> ulp_exp x \<le> ulp_exp y"
    then have "ulp_exp y + 53 \<le> ulp_exp x + 52" "pow2 (ulp_exp x + 52) \<le> x"
      using sx sy by auto
    with pow2_mono [of "ulp_exp y + 53" "ulp_exp x + 52"] sy(1) assms(2) show False by linarith
  qed
  show ?thesis
  proof (cases "ulp_exp x = ulp_exp y")
    case True
    have "x / pow2 (ulp_exp y) \<le> y / pow2 (ulp_exp y)" using assms by (intro divide_right_mono) auto
    then show ?thesis
      unfolding round_pos_def True
      by (intro mult_right_mono) (simp_all add: round_half_even_mono)
  next
    case False
    with le sx(3) sy(2) have "pow2 (ulp_exp y + 52) \<le> y" "ulp_exp x + 53 \<le> ulp_exp y + 52" by auto
    with round_pos_le [OF assms(1)] round_pos_ge [of y] pow2_mono [of "ulp_exp x + 53" "ulp_exp y + 52"]
    show ?thesis by linarith
  qed
qed

text \<open>An integer that fits in 53 bits is kept exactly.\<close>

lemma round_pos_of_int:
  assumes "0 < n" "n < 2 ^ 53"
  shows "round_pos (of_int n) = of_int n"
proof -
  have pos: "(0::rat) < of_int n" using assms by simp
  have "ulp_exp (of_int n) \<le> 0"
  proof (rule ccontr)
    assume "\<not> ulp_exp (of_int n) \<le> 0"
    then have "53 \<le> ulp_exp (of_int n) + 52" and le: "pow2 (ulp_exp (of_int n) + 52) \<le> of_int n"
      using ulp_exp_spec(2) [OF pos] by auto
    then have "pow2 53 \<le> of_int n" using pow2_mono [of 53 "ulp_exp (of_int n) + 52"] by linarith
    then have "of_int (2 ^ 53) \<le> (of_int n :: rat)" by (simp add: power_int_def)
    with assms show False by (simp only: of_int_le_iff)
  qed
  then obtain k where k: "ulp_exp (of_int n) = - int k" using nonpos_int_cases by blast
  have inv: "pow2 (- int k) = inverse (2 ^ k)" by (simp add: power_int_minus)
  have "(of_int n :: rat) / pow2 (- int k) = of_int (n * 2 ^ k)"
    by (simp add: inv divide_inverse)
  then show ?thesis
    unfolding round_pos_def k by (simp only: round_half_even_of_int) (simp add: inv)
qed

section \<open>The order of non-negative values\<close>

text \<open>
  The order a cost is monotone in: NaN, which prices nothing, below everything, then the
  finite values, then infinity.
\<close>

fun f_nonneg :: "f64 \<Rightarrow> bool" where
  "f_nonneg (Fin x) = (0 \<le> x)"
| "f_nonneg PInf = True"
| "f_nonneg NInf = False"
| "f_nonneg NaN = True"

fun f_le :: "f64 \<Rightarrow> f64 \<Rightarrow> bool" where
  "f_le NaN y = True"
| "f_le (Fin x) (Fin y) = (x \<le> y)"
| "f_le (Fin x) PInf = True"
| "f_le PInf PInf = True"
| "f_le x y = False"

lemma f_le_refl: "f_nonneg x \<Longrightarrow> f_le x x"
  by (cases x) auto

lemma f_le_trans: "f_le x y \<Longrightarrow> f_le y z \<Longrightarrow> f_le x z"
  by (cases x; cases y; cases z) auto

lemma fl_nonneg: "0 \<le> x \<Longrightarrow> f_nonneg (fl x)"
  using round_pos_nonneg [of x] by (cases "x = 0") (auto simp: fl_def Let_def)

lemma fl_mono:
  assumes "0 \<le> x" "x \<le> y"
  shows "f_le (fl x) (fl y)"
proof (cases "x = 0")
  case True
  then show ?thesis using fl_nonneg [of y] assms
    by (cases "fl y") (auto simp: fl_def Let_def split: if_splits)
next
  case False
  with assms have x: "0 < x" by simp
  from round_pos_mono [OF x assms(2)] x assms show ?thesis
    by (auto simp: fl_def Let_def)
qed

lemma fl_not_NaN: "fl x \<noteq> NaN" "0 \<le> x \<Longrightarrow> fl x \<noteq> NInf"
  by (auto simp: fl_def Let_def)

lemma f_le_PInf: "f_nonneg x \<Longrightarrow> f_le x PInf"
  by (cases x) auto

lemma f_mul_nonneg: "f_nonneg x \<Longrightarrow> f_nonneg y \<Longrightarrow> f_nonneg (f_mul x y)"
  by (cases x; cases y) (auto simp: fl_nonneg f_inf_def)

lemma f_add_nonneg: "f_nonneg x \<Longrightarrow> f_nonneg y \<Longrightarrow> f_nonneg (f_add x y)"
  by (cases x; cases y) (auto simp: fl_nonneg)

lemma f_add_mono:
  assumes "f_le x x'" "f_nonneg x" "f_nonneg y"
  shows "f_le (f_add x y) (f_add x' y)"
  using assms by (cases x; cases x'; cases y) (auto intro!: fl_mono f_le_PInf fl_nonneg)

lemma f_add_mono_right:
  assumes "f_le x x'" "f_nonneg x" "f_nonneg y"
  shows "f_le (f_add y x) (f_add y x')"
  using assms by (cases x; cases x'; cases y) (auto intro!: fl_mono f_le_PInf fl_nonneg)

lemma fl_finite:
  assumes "0 \<le> x" "x \<le> pow2 1000"
  obtains y where "fl x = Fin y"
proof (cases "x = 0")
  case True
  then show thesis using that by (simp add: fl_def)
next
  case False
  with assms have x: "0 < x" by simp
  have "ulp_exp x + 53 \<le> 1001"
  proof (rule ccontr)
    assume "\<not> ulp_exp x + 53 \<le> 1001"
    then have "1001 \<le> ulp_exp x + 52" "pow2 (ulp_exp x + 52) \<le> x"
      using ulp_exp_spec(2,3) [OF x] by auto
    with pow2_mono [of 1001 "ulp_exp x + 52"] assms(2) have "pow2 1001 \<le> pow2 1000" by linarith
    then show False by simp
  qed
  then have "pow2 (ulp_exp x + 53) \<le> pow2 1001" by (rule pow2_mono)
  moreover have "pow2 1001 < pow2 1024" by simp
  ultimately have "round_pos x < pow2 1024" using round_pos_le [OF x] by linarith
  with x that show thesis by (auto simp: fl_def Let_def)
qed

lemma f_of_int_finite:
  assumes "0 \<le> n" "n \<le> maxInt64"
  shows "f_of_int n \<noteq> PInf"
proof -
  have "(of_int n :: rat) \<le> of_int maxInt64" using assms(2) by (simp only: of_int_le_iff)
  also have "\<dots> \<le> pow2 64" by simp
  also have "\<dots> \<le> pow2 1000" by (rule pow2_mono) simp
  finally show ?thesis
    using fl_finite [of "of_int n"] assms(1) by (metis f64.distinct(1) f_of_int_def of_int_0_le_iff)
qed

lemma fl_zero_iff_pos: "fl x = Fin y \<Longrightarrow> 0 \<le> x \<Longrightarrow> 0 \<le> y"
  using fl_nonneg [of x] by simp

end
