(* ===== verification/Ranked.thy ===== *)
theory Ranked
  imports Glob
begin

text \<open>
  The interface of the tables that are looked up by pattern: the price table and the table
  of model capabilities. Rows are sorted once, the more specific pattern first and a
  tie-break behind it, and a lookup takes the first row of its owner that matches. A table
  provides the owner and the pattern of a row and the strict order of its rows; what it
  promises is that the order is one and looks at the patterns first.
\<close>

locale ranked_table =
  fixes owner :: "'row \<Rightarrow> bytes"
    and pattern :: "'row \<Rightarrow> bytes"
    and before :: "'row \<Rightarrow> 'row \<Rightarrow> bool"
  assumes asym: "before a b \<Longrightarrow> \<not> before b a"
    and trans: "\<not> before b a \<Longrightarrow> \<not> before c b \<Longrightarrow> \<not> before c a"
    and pattern_first: "compare_patterns (pattern a) (pattern b) < 0 \<Longrightarrow> before a b"
begin

definition first_match :: "'row list \<Rightarrow> bytes \<Rightarrow> bytes \<Rightarrow> 'row option" where
  "first_match rows who model =
     find (\<lambda>r. owner r = who \<and> glob_match (pattern r) model) (stable_sort before rows)"

lemma sorted_rows: "sorted_wrt (\<lambda>a b. \<not> before b a) (stable_sort before rows)"
  by (rule sorted_stable_sort [OF asym trans])

lemma first_match_best:
  assumes "first_match rows who model = Some r"
  shows "r \<in> set rows" "owner r = who" "glob_match (pattern r) model"
    and "r' \<in> set rows \<Longrightarrow> owner r' = who \<Longrightarrow> glob_match (pattern r') model \<Longrightarrow> \<not> before r' r"
proof -
  note found = assms [unfolded first_match_def]
  show "r \<in> set rows" "owner r = who" "glob_match (pattern r) model"
    using find_SomeD [OF found] by (simp_all add: set_stable_sort)
  show "\<not> before r' r" if "r' \<in> set rows" "owner r' = who" "glob_match (pattern r') model"
    using find_sorted_first [OF found sorted_rows, of r'] that asym [of r r] by (auto simp: set_stable_sort)
qed

lemma first_match_most_specific:
  assumes "first_match rows who model = Some r"
    and "r' \<in> set rows" "owner r' = who" "glob_match (pattern r') model"
  shows "compare_patterns (pattern r) (pattern r') \<le> 0"
proof -
  from first_match_best(4) [OF assms] have "\<not> compare_patterns (pattern r') (pattern r) < 0"
    using pattern_first by blast
  then show ?thesis using compare_patterns_swap [of "pattern r" "pattern r'"] by simp
qed

lemma first_match_None:
  "first_match rows who model = None \<longleftrightarrow>
     (\<forall>r \<in> set rows. owner r = who \<longrightarrow> \<not> glob_match (pattern r) model)"
  by (auto simp: first_match_def find_None_iff set_stable_sort)

end

end
