(* ===== verification/Pricing.thy ===== *)
theory Pricing
  imports Float64 Ranked
begin

text \<open>
  The price table of \<open>internal/pricing\<close>: lookup by pattern precedence and cost in
  millionths (\<open>pricing.go\<close>), the built-in rows and their seeding (\<open>builtin.go\<close>,
  \<open>seed.go\<close>) and the cache in front of the table (\<open>cache.go\<close>). Prices are \<open>float64\<close>
  values (theory \<open>Float64\<close>), infinities and NaN included; counts are 64-bit integers
  whose differences wrap.
\<close>

section \<open>Data\<close>

record price =
  pi_input :: f64
  pi_output :: f64
  pi_cache_write :: f64
  pi_cache_read :: f64
  pi_per_search_unit :: f64
  pi_has_search_unit :: bool
  pi_currency :: bytes
  pi_pattern :: bytes
  pi_source :: bytes

definition SourceBuiltin where "SourceBuiltin = ''builtin''"
definition SourceUser where "SourceUser = ''user''"

record price_row =
  pw_id :: int
  pw_provider_type :: bytes
  pw_pattern :: bytes
  pw_price :: price

section \<open>The table\<close>

definition row_before :: "price_row \<Rightarrow> price_row \<Rightarrow> bool" where
  "row_before a b =
     (let c = compare_patterns (pw_pattern a) (pw_pattern b) in
      if c \<noteq> 0 then c < 0 else pw_id a < pw_id b)"

definition new_table :: "price_row list \<Rightarrow> price_row list" where
  "new_table rows = stable_sort row_before rows"

definition lookup_price :: "price_row list option \<Rightarrow> bytes \<Rightarrow> bytes \<Rightarrow> price option" where
  "lookup_price t provider_type model =
     (case t of
        None \<Rightarrow> None
      | Some rows \<Rightarrow>
          map_option pw_price
            (find (\<lambda>r. pw_provider_type r = provider_type \<and> glob_match (pw_pattern r) model) rows))"

section \<open>Costs\<close>

definition non_negative :: "int \<Rightarrow> int" where
  "non_negative n = (if n < 0 then 0 else n)"

definition non_negative_rate :: "f64 \<Rightarrow> f64" where
  "non_negative_rate v = (if \<not> f_less (Fin 0) v then Fin 0 else v)"

text \<open>\<open>float64(math.MaxInt64)\<close> rounds up to \<open>2^63\<close>.\<close>

definition maxMicros :: f64 where
  "maxMicros = Fin (2 ^ 63)"

text \<open>
  The common end of the cost functions: zero unless positive, rounded, saturated. The
  conversion to \<open>int64\<close> is only reached for a finite value below \<open>2^63\<close>.
\<close>

fun to_int64 :: "f64 \<Rightarrow> int" where
  "to_int64 (Fin x) = go_trunc x"
| "to_int64 _ = 0"

definition saturate_micros :: "f64 \<Rightarrow> int" where
  "saturate_micros micros =
     (if \<not> f_less (Fin 0) micros then 0
      else if f_less (f_round micros) maxMicros then to_int64 (f_round micros)
      else maxInt64)"

definition uncached_tokens :: "int \<Rightarrow> int \<Rightarrow> int \<Rightarrow> int" where
  "uncached_tokens prompt cached written =
     (let uncached = wrap64 (wrap64 (prompt - cached) - written)
      in if uncached < 0 then 0 else uncached)"

definition cost_sum :: "price \<Rightarrow> int \<Rightarrow> int \<Rightarrow> int \<Rightarrow> int \<Rightarrow> f64" where
  "cost_sum p prompt_tokens cached_prompt cache_write completion_tokens =
     (let prompt = non_negative prompt_tokens; cached = non_negative cached_prompt;
          written = non_negative cache_write; completion = non_negative completion_tokens;
          uncached = uncached_tokens prompt cached written
      in f_add (f_add (f_add
           (f_mul (f_of_int uncached) (non_negative_rate (pi_input p)))
           (f_mul (f_of_int written) (non_negative_rate (pi_cache_write p))))
           (f_mul (f_of_int cached) (non_negative_rate (pi_cache_read p))))
           (f_mul (f_of_int completion) (non_negative_rate (pi_output p))))"

definition cost_micros :: "price \<Rightarrow> int \<Rightarrow> int \<Rightarrow> int \<Rightarrow> int \<Rightarrow> int" where
  "cost_micros p prompt_tokens cached_prompt cache_write completion_tokens =
     saturate_micros (cost_sum p prompt_tokens cached_prompt cache_write completion_tokens)"

definition search_unit_micros :: "price \<Rightarrow> int \<Rightarrow> int" where
  "search_unit_micros p search_units =
     saturate_micros
       (f_mul (f_mul (f_of_int (non_negative search_units)) (non_negative_rate (pi_per_search_unit p)))
         (Fin 1000000))"

definition billed_micros :: "price \<Rightarrow> int \<Rightarrow> int \<Rightarrow> int \<Rightarrow> int \<Rightarrow> int \<Rightarrow> int" where
  "billed_micros p prompt cached cache_write completion search_units =
     (if search_units > 0 \<and> pi_has_search_unit p then search_unit_micros p search_units
      else cost_micros p prompt cached cache_write completion)"

section \<open>The built-in table\<close>

record builtin_item =
  bi_provider_type :: bytes
  bi_model :: bytes
  bi_input :: f64
  bi_output :: f64
  bi_cache_write :: "f64 option"
  bi_cache_read :: "f64 option"
  bi_per_search_unit :: "f64 option"

record builtin_file =
  bf_version :: int
  bf_currency :: bytes
  bf_unit :: bytes
  bf_models :: "builtin_item list"

datatype builtin_error = BadVersion int | BadUnit bytes | Unnamed | Twice bytes bytes | NegativePrice bytes bytes

definition negative :: "f64 option \<Rightarrow> bool" where
  "negative v = (case v of None \<Rightarrow> False | Some x \<Rightarrow> f_less x (Fin 0))"

fun check_models :: "builtin_item list \<Rightarrow> bytes list \<Rightarrow> builtin_error option" where
  "check_models [] seen = None"
| "check_models (m # ms) seen =
     (if bi_provider_type m = [] \<or> bi_model m = [] then Some Unnamed
      else let key = bi_provider_type m @ [CHR 0x00] @ bi_model m in
        if key \<in> set seen then Some (Twice (bi_provider_type m) (bi_model m))
        else if f_less (bi_input m) (Fin 0) \<or> f_less (bi_output m) (Fin 0) \<or> negative (bi_cache_write m)
          \<or> negative (bi_cache_read m) \<or> negative (bi_per_search_unit m)
        then Some (NegativePrice (bi_provider_type m) (bi_model m))
        else check_models ms (key # seen))"

text \<open>\<open>parseBuiltin\<close> after the JSON decoding.\<close>

definition check_builtin :: "builtin_file \<Rightarrow> builtin_error + builtin_file" where
  "check_builtin f =
     (if bf_version f < 1 then Inl (BadVersion (bf_version f))
      else if bf_unit f \<noteq> ''per_million_tokens'' then Inl (BadUnit (bf_unit f))
      else case check_models (bf_models f) [] of Some e \<Rightarrow> Inl e | None \<Rightarrow> Inr f)"

definition resolve_item :: "builtin_item \<Rightarrow> bytes \<Rightarrow> price" where
  "resolve_item m currency =
     \<lparr>pi_input = bi_input m, pi_output = bi_output m,
      pi_cache_write = (case bi_cache_write m of Some v \<Rightarrow> v | None \<Rightarrow> bi_input m),
      pi_cache_read = (case bi_cache_read m of Some v \<Rightarrow> v | None \<Rightarrow> bi_input m),
      pi_per_search_unit = (case bi_per_search_unit m of Some v \<Rightarrow> v | None \<Rightarrow> Fin 0),
      pi_has_search_unit = (bi_per_search_unit m \<noteq> None),
      pi_currency = currency, pi_pattern = bi_model m, pi_source = SourceBuiltin\<rparr>"

definition builtin_rows :: "builtin_file \<Rightarrow> price_row list" where
  "builtin_rows f =
     map (\<lambda>(i, m). \<lparr>pw_id = int (i + 1), pw_provider_type = bi_provider_type m,
            pw_pattern = bi_model m, pw_price = resolve_item m (bf_currency f)\<rparr>)
       (zip [0..<length (bf_models f)] (bf_models f))"

definition shipped_price :: "builtin_file \<Rightarrow> bytes \<Rightarrow> bytes \<Rightarrow> builtin_item option" where
  "shipped_price f provider_type pattern =
     find (\<lambda>m. bi_provider_type m = provider_type \<and> bi_model m = pattern) (bf_models f)"

section \<open>The model_prices table\<close>

record price_db_row =
  pd_id :: int
  pd_item :: builtin_item
  pd_currency :: bytes
  pd_source :: bytes
  pd_builtin_version :: int

definition same_key :: "builtin_item \<Rightarrow> price_db_row \<Rightarrow> bool" where
  "same_key m r \<longleftrightarrow> bi_provider_type (pd_item r) = bi_provider_type m \<and> bi_model (pd_item r) = bi_model m"

text \<open>
  The upsert of one entry. \<open>(provider_type, model_pattern)\<close> is unique; an insert takes the
  next value of the id sequence, which an update uses up as well. The count is the
  statement's affected rows.
\<close>

definition stale_row :: "builtin_file \<Rightarrow> builtin_item \<Rightarrow> price_db_row \<Rightarrow> bool" where
  "stale_row f m r \<longleftrightarrow> same_key m r \<and> pd_source r = SourceBuiltin \<and> pd_builtin_version r < bf_version f"

definition refresh_row :: "builtin_file \<Rightarrow> builtin_item \<Rightarrow> price_db_row \<Rightarrow> price_db_row" where
  "refresh_row f m r =
     (if stale_row f m r
      then r\<lparr>pd_item := m, pd_currency := bf_currency f, pd_builtin_version := bf_version f\<rparr> else r)"

definition seed_row :: "builtin_file \<Rightarrow> builtin_item \<Rightarrow> price_db_row list \<times> int \<times> nat \<Rightarrow> price_db_row list \<times> int \<times> nat" where
  "seed_row f m =
     (\<lambda>(tab, next, changed).
        if \<exists>r \<in> set tab. same_key m r then
          (map (refresh_row f m) tab, next + 1, changed + length (filter (stale_row f m) tab))
        else
          (tab @ [\<lparr>pd_id = next, pd_item = m, pd_currency = bf_currency f, pd_source = SourceBuiltin,
                   pd_builtin_version = bf_version f\<rparr>], next + 1, changed + 1))"

text \<open>The transaction; \<open>fails\<close> says the database fails one of its statements.\<close>

definition seed :: "bool \<Rightarrow> builtin_file \<Rightarrow> price_db_row list \<times> int \<Rightarrow> nat option \<times> (price_db_row list \<times> int)" where
  "seed fails f db =
     (case fold (seed_row f) (bf_models f) (fst db, snd db, 0) of
        (tab, next, changed) \<Rightarrow> if fails then (None, db) else (Some changed, (tab, next)))"

text \<open>\<open>loadRows\<close>: the NULLs of the cache columns read as the input price.\<close>

definition load_row :: "price_db_row \<Rightarrow> price_row" where
  "load_row r =
     \<lparr>pw_id = pd_id r, pw_provider_type = bi_provider_type (pd_item r), pw_pattern = bi_model (pd_item r),
      pw_price = (resolve_item (pd_item r) (pd_currency r))\<lparr>pi_source := pd_source r\<rparr>\<rparr>"

section \<open>The cache\<close>

record price_cache =
  pc_has_pool :: bool
  pc_ttl :: duration
  pc_table :: "price_row list option"
  pc_loaded_at :: time

definition CacheTTL :: duration where "CacheTTL = 60 * second"

definition invalidate :: "price_cache \<Rightarrow> price_cache" where
  "invalidate c = c\<lparr>pc_table := None, pc_loaded_at := 0\<rparr>"

definition cache_fresh :: "price_cache \<Rightarrow> time \<Rightarrow> bool" where
  "cache_fresh c now \<longleftrightarrow> pc_table c \<noteq> None \<and> now - pc_loaded_at c < pc_ttl c"

text \<open>
  The second half of \<open>current\<close>, once the query has answered (\<open>None\<close>: it failed). The
  query runs without the lock, so other operations come between it and this.
\<close>

definition cache_store :: "price_cache \<Rightarrow> time \<Rightarrow> price_row list option \<Rightarrow> price_row list option \<times> price_cache" where
  "cache_store c now loaded =
     (case loaded of
        None \<Rightarrow> (pc_table c, c\<lparr>pc_loaded_at := now\<rparr>)
      | Some rows \<Rightarrow> (Some (new_table rows), c\<lparr>pc_table := Some (new_table rows), pc_loaded_at := now\<rparr>))"

text \<open>\<open>current\<close> run alone: the table, the new state, and whether the database was queried.\<close>

definition cache_current :: "price_cache \<Rightarrow> time \<Rightarrow> price_row list option \<Rightarrow>
    price_row list option \<times> price_cache \<times> bool" where
  "cache_current c now db =
     (if cache_fresh c now then (pc_table c, c, False)
      else if \<not> pc_has_pool c then (None, c, False)
      else case cache_store c now db of (t, c') \<Rightarrow> (t, c', True))"

definition cache_lookup :: "price_cache \<Rightarrow> time \<Rightarrow> price_row list option \<Rightarrow> bytes \<Rightarrow> bytes \<Rightarrow>
    price option \<times> price_cache" where
  "cache_lookup c now db provider_type model =
     (case cache_current c now db of (t, c', _) \<Rightarrow> (lookup_price t provider_type model, c'))"

section \<open>Precedence\<close>

lemma row_before_asym: "row_before a b \<Longrightarrow> \<not> row_before b a"
  using compare_patterns_swap [of "pw_pattern a" "pw_pattern b"]
  by (auto simp: row_before_def Let_def split: if_splits)

lemma not_before:
  "\<not> row_before b a \<longleftrightarrow>
     compare_patterns (pw_pattern a) (pw_pattern b) < 0 \<or>
     compare_patterns (pw_pattern a) (pw_pattern b) = 0 \<and> pw_id a \<le> pw_id b"
  using compare_patterns_swap [of "pw_pattern a" "pw_pattern b"]
  by (auto simp: row_before_def Let_def)

lemma row_before_trans: "\<not> row_before b a \<Longrightarrow> \<not> row_before c b \<Longrightarrow> \<not> row_before c a"
  unfolding not_before compare_patterns_less compare_patterns_zero by (auto simp: prod_eq_iff)

interpretation price_table: ranked_table pw_provider_type pw_pattern row_before
proof
  show "row_before a b" if "compare_patterns (pw_pattern a) (pw_pattern b) < 0" for a b
    using that by (simp add: row_before_def Let_def)
qed (fact row_before_asym row_before_trans)+

lemma lookup_price_best:
  assumes "lookup_price (Some (new_table rows)) ptype model = Some p"
  obtains r where "r \<in> set rows" "pw_price r = p" "pw_provider_type r = ptype" "glob_match (pw_pattern r) model"
    "\<And>r'. r' \<in> set rows \<Longrightarrow> pw_provider_type r' = ptype \<Longrightarrow> glob_match (pw_pattern r') model \<Longrightarrow>
      \<not> row_before r' r"
proof -
  from assms obtain r where f: "price_table.first_match rows ptype model = Some r" and p: "pw_price r = p"
    by (auto simp: lookup_price_def new_table_def price_table.first_match_def)
  from p price_table.first_match_best [OF f] show thesis by (intro that) simp_all
qed

lemma lookup_price_None:
  "lookup_price (Some (new_table rows)) ptype model = None \<longleftrightarrow>
     (\<forall>r \<in> set rows. pw_provider_type r = ptype \<longrightarrow> \<not> glob_match (pw_pattern r) model)"
  by (simp add: lookup_price_def new_table_def price_table.first_match_None [unfolded price_table.first_match_def])

section \<open>Bounds and monotonicity\<close>

lemma non_negative_rate_nonneg: "f_nonneg (non_negative_rate v)"
  by (cases v) (auto simp: non_negative_rate_def)

lemma non_negative_rate_not_NaN: "non_negative_rate v \<noteq> NaN"
  by (cases v) (auto simp: non_negative_rate_def)

lemma round_away_nonneg: "0 \<le> x \<Longrightarrow> 0 \<le> round_away x"
  by (simp add: round_away_def)

lemma saturate_bounds: "0 \<le> saturate_micros m" "saturate_micros m \<le> maxInt64"
proof -
  have "0 \<le> saturate_micros m \<and> saturate_micros m \<le> maxInt64"
  proof (cases m)
    case (Fin x)
    show ?thesis
    proof (cases "0 < x \<and> of_int (round_away x) < (2 ^ 63 :: rat)")
      case True
      then have "of_int (round_away x) < (of_int (2 ^ 63) :: rat)" by simp
      then have "round_away x < 2 ^ 63" by (simp only: of_int_less_iff)
      with True round_away_nonneg [of x] Fin show ?thesis
        by (simp add: saturate_micros_def maxMicros_def go_trunc_def)
    next
      case False
      with Fin show ?thesis by (auto simp: saturate_micros_def maxMicros_def)
    qed
  qed (simp_all add: saturate_micros_def maxMicros_def)
  then show "0 \<le> saturate_micros m" "saturate_micros m \<le> maxInt64" by blast+
qed

lemma round_away_mono: "0 \<le> x \<Longrightarrow> x \<le> y \<Longrightarrow> round_away x \<le> round_away y"
  by (simp add: round_away_def floor_mono)

lemma saturate_fin:
  "0 < x \<Longrightarrow> saturate_micros (Fin x) = (if round_away x < 2 ^ 63 then round_away x else maxInt64)"
proof -
  assume x: "0 < x"
  have "(of_int (round_away x) < (2 ^ 63 :: rat)) = (of_int (round_away x) < (of_int (2 ^ 63) :: rat))" by simp
  also have "\<dots> = (round_away x < 2 ^ 63)" by (simp only: of_int_less_iff)
  finally show ?thesis using x round_away_nonneg [of x]
    by (simp add: saturate_micros_def maxMicros_def go_trunc_def)
qed

lemma saturate_mono: "f_le a b \<Longrightarrow> f_nonneg a \<Longrightarrow> saturate_micros a \<le> saturate_micros b"
proof -
  assume le: "f_le a b" and nn: "f_nonneg a"
  show ?thesis
  proof (cases "f_less (Fin 0) a")
    case False
    then have "saturate_micros a = 0" by (simp add: saturate_micros_def)
    then show ?thesis by (simp add: saturate_bounds)
  next
    case True
    show ?thesis
    proof (cases a; cases b)
      fix x y assume ab: "a = Fin x" "b = Fin y"
      with True le have xy: "0 < x" "x \<le> y" by auto
      then have "round_away x \<le> round_away y" by (simp add: round_away_mono)
      with xy show ?thesis unfolding ab by (simp add: saturate_fin)
    next
      fix x assume "a = Fin x" "b = PInf"
      moreover have "saturate_micros PInf = maxInt64" by (simp add: saturate_micros_def maxMicros_def)
      ultimately show ?thesis using saturate_bounds(2) by metis
    qed (use True le in auto)
  qed
qed

lemma f_of_int_nonneg: "0 \<le> n \<Longrightarrow> f_nonneg (f_of_int n)"
  by (simp add: f_of_int_def fl_nonneg)

lemma f_of_int_mono: "0 \<le> m \<Longrightarrow> m \<le> n \<Longrightarrow> f_le (f_of_int m) (f_of_int n)"
  by (simp add: f_of_int_def fl_mono)

lemma f_mul_mono_left:
  assumes "f_le x x'" "f_nonneg x" "f_nonneg y" "x \<noteq> NaN" "y \<noteq> NaN" "x' \<noteq> PInf"
  shows "f_le (f_mul x y) (f_mul x' y)"
  using assms
  by (cases x; cases x'; cases y)
     (auto simp: f_inf_def intro!: fl_mono mult_right_mono f_le_PInf fl_nonneg f_le_refl)

lemma term_nonneg: "0 \<le> n \<Longrightarrow> f_nonneg (f_mul (f_of_int n) (non_negative_rate v))"
  by (intro f_mul_nonneg f_of_int_nonneg non_negative_rate_nonneg)

lemma non_negative_ge: "0 \<le> non_negative n"
  by (simp add: non_negative_def)

lemma non_negative_mono: "m \<le> n \<Longrightarrow> non_negative m \<le> non_negative n"
  by (simp add: non_negative_def)

lemma uncached_nonneg: "0 \<le> uncached_tokens p c w"
  by (simp add: uncached_tokens_def Let_def)

lemma term_mono:
  assumes "0 \<le> m" "m \<le> n" "n \<le> maxInt64"
  shows "f_le (f_mul (f_of_int m) (non_negative_rate v)) (f_mul (f_of_int n) (non_negative_rate v))"
  using assms
  by (intro f_mul_mono_left f_of_int_mono f_of_int_nonneg non_negative_rate_nonneg
      non_negative_rate_not_NaN f_of_int_finite) (simp_all add: f_of_int_def fl_not_NaN)

lemma cost_sum_completion_mono:
  assumes "completion \<le> completion'" "int64 completion'"
  shows "f_le (cost_sum p prompt cached written completion) (cost_sum p prompt cached written completion')"
    and "f_nonneg (cost_sum p prompt cached written completion)"
proof -
  have "non_negative completion' \<le> maxInt64" using assms(2) by (simp add: non_negative_def int64_def)
  then show "f_le (cost_sum p prompt cached written completion) (cost_sum p prompt cached written completion')"
    unfolding cost_sum_def Let_def
    by (intro f_add_mono_right term_mono f_add_nonneg term_nonneg non_negative_ge non_negative_mono
        uncached_nonneg assms(1))
  show "f_nonneg (cost_sum p prompt cached written completion)"
    unfolding cost_sum_def Let_def
    by (intro f_add_nonneg term_nonneg non_negative_ge uncached_nonneg)
qed

lemma cost_micros_completion_mono:
  "completion \<le> completion' \<Longrightarrow> int64 completion' \<Longrightarrow>
   cost_micros p prompt cached written completion \<le> cost_micros p prompt cached written completion'"
  unfolding cost_micros_def by (rule saturate_mono) (rule cost_sum_completion_mono; assumption)+

lemma billed_bounds: "0 \<le> billed_micros p a b c d u" "billed_micros p a b c d u \<le> maxInt64"
  using saturate_bounds by (simp_all add: billed_micros_def search_unit_micros_def cost_micros_def)

section \<open>Seeding\<close>

text \<open>An edited row is never touched, and no row disappears.\<close>

definition user_rows :: "price_db_row list \<Rightarrow> price_db_row list" where
  "user_rows tab = filter (\<lambda>r. pd_source r \<noteq> SourceBuiltin) tab"

lemma refresh_row_source: "pd_source (refresh_row f m r) = pd_source r"
  by (simp add: refresh_row_def)

lemma refresh_row_user: "pd_source r \<noteq> SourceBuiltin \<Longrightarrow> refresh_row f m r = r"
  by (simp add: refresh_row_def stale_row_def)

lemma refresh_row_key: "same_key m' (refresh_row f m r) = same_key m' r"
  by (auto simp: refresh_row_def stale_row_def same_key_def)

lemma refresh_row_version:
  "pd_builtin_version r \<le> pd_builtin_version (refresh_row f m r)"
  "same_key m r \<Longrightarrow> pd_source r = SourceBuiltin \<Longrightarrow> bf_version f \<le> pd_builtin_version (refresh_row f m r)"
  by (auto simp: refresh_row_def stale_row_def)

lemma user_rows_refresh: "user_rows (map (refresh_row f m) tab) = user_rows tab"
  by (induction tab) (auto simp: user_rows_def refresh_row_source refresh_row_user)

lemma seed_row_user: "user_rows (fst (seed_row f m (tab, nxt, ch))) = user_rows tab"
  by (simp add: seed_row_def user_rows_refresh) (simp add: user_rows_def)

lemma fold_seed_user:
  "user_rows (fst (fold (seed_row f) ms st)) = user_rows (fst st)"
proof (induction ms arbitrary: st)
  case (Cons m ms)
  obtain tab nxt ch where st: "st = (tab, nxt, ch)" by (cases st) auto
  show ?case using Cons [of "seed_row f m st"] seed_row_user [of f m tab nxt ch] by (simp add: st)
qed simp

lemma seed_result:
  "fst (snd (seed fails f db)) =
     (if fails then fst db else fst (fold (seed_row f) (bf_models f) (fst db, snd db, 0)))"
  by (simp add: seed_def split: prod.split)

lemma seed_user_rows: "user_rows (fst (snd (seed fails f db))) = user_rows (fst db)"
  using fold_seed_user [of f "bf_models f" "(fst db, snd db, 0)"] by (simp add: seed_result)

text \<open>After a seed every shipped key is present and no builtin row is behind.\<close>

definition up_to_date :: "builtin_file \<Rightarrow> builtin_item \<Rightarrow> price_db_row list \<Rightarrow> bool" where
  "up_to_date f m tab \<longleftrightarrow> (\<exists>r \<in> set tab. same_key m r) \<and>
     (\<forall>r \<in> set tab. same_key m r \<longrightarrow> pd_source r = SourceBuiltin \<longrightarrow> bf_version f \<le> pd_builtin_version r)"

lemma seed_row_makes_current: "up_to_date f m (fst (seed_row f m (tab, nxt, ch)))"
proof (cases "\<exists>r \<in> set tab. same_key m r")
  case True
  then show ?thesis
    by (auto simp: seed_row_def up_to_date_def refresh_row_key refresh_row_source intro: refresh_row_version(2))
next
  case False
  then show ?thesis by (auto simp: seed_row_def up_to_date_def same_key_def)
qed

lemma seed_row_keeps_current:
  assumes "up_to_date f m tab"
  shows "up_to_date f m (fst (seed_row f m' (tab, nxt, ch)))"
proof (cases "\<exists>r \<in> set tab. same_key m' r")
  case True
  have "bf_version f \<le> pd_builtin_version (refresh_row f m' x)"
    if "x \<in> set tab" "same_key m x" "pd_source x = SourceBuiltin" for x
    using assms that refresh_row_version(1) [of x f m'] by (auto simp: up_to_date_def)
  with assms True show ?thesis
    by (auto simp: seed_row_def up_to_date_def refresh_row_key refresh_row_source)
next
  case False
  with assms show ?thesis by (auto simp: seed_row_def up_to_date_def same_key_def)
qed

lemma fold_seed_current:
  "m \<in> set ms \<or> up_to_date f m (fst st) \<Longrightarrow> up_to_date f m (fst (fold (seed_row f) ms st))"
proof (induction ms arbitrary: st)
  case (Cons x ms)
  obtain tab nxt ch where st: "st = (tab, nxt, ch)" by (cases st) auto
  have "m \<in> set ms \<or> up_to_date f m (fst (seed_row f x st))"
    using Cons.prems seed_row_makes_current seed_row_keeps_current by (auto simp: st)
  then show ?case using Cons.IH by simp
qed simp

lemma seed_current:
  "m \<in> set (bf_models f) \<Longrightarrow> up_to_date f m (fst (snd (seed False f db)))"
  using fold_seed_current [of m "bf_models f" f "(fst db, snd db, 0)"] by (simp add: seed_result)

text \<open>Seeding what is up to date changes no row.\<close>

lemma seed_row_unchanged:
  assumes "up_to_date f m tab"
  shows "seed_row f m (tab, nxt, ch) = (tab, nxt + 1, ch)"
proof -
  have none: "\<not> stale_row f m r" if "r \<in> set tab" for r
    using assms that by (auto simp: up_to_date_def stale_row_def)
  then have "filter (stale_row f m) tab = []" "map (refresh_row f m) tab = tab"
    by (auto simp: filter_empty_conv refresh_row_def intro!: map_idI)
  with assms show ?thesis by (simp add: seed_row_def up_to_date_def)
qed

lemma fold_seed_unchanged:
  "\<forall>m \<in> set ms. up_to_date f m tab \<Longrightarrow>
   fold (seed_row f) ms (tab, nxt, ch) = (tab, nxt + int (length ms), ch)"
  by (induction ms arbitrary: nxt) (simp_all add: seed_row_unchanged)

lemma seed_idle:
  assumes "\<forall>m \<in> set (bf_models f). up_to_date f m (fst db)"
  shows "seed False f db = (Some 0, (fst db, snd db + int (length (bf_models f))))"
  using fold_seed_unchanged [OF assms, of "snd db" 0] by (simp add: seed_def)

section \<open>Properties\<close>

text \<open>The price of a model is that of a matching row no matching row precedes: exact patterns before
  wildcards, longer literal prefixes before shorter, lower ids before higher; there is no price only when no row
  of the provider matches.\<close>

theorem lookup_finds_most_specific:
  "(case lookup_price (Some (new_table rows)) ptype model of
      None \<Rightarrow> \<forall>r \<in> set rows. pw_provider_type r = ptype \<longrightarrow> \<not> glob_match (pw_pattern r) model
    | Some p \<Rightarrow> \<exists>r \<in> set rows. pw_price r = p \<and> pw_provider_type r = ptype \<and> glob_match (pw_pattern r) model \<and>
        (\<forall>r' \<in> set rows. pw_provider_type r' = ptype \<longrightarrow> glob_match (pw_pattern r') model \<longrightarrow> \<not> row_before r' r))"
proof (cases "lookup_price (Some (new_table rows)) ptype model")
  case None
  from lookup_price_None [THEN iffD1, OF None] show ?thesis unfolding None option.case .
next
  case (Some p)
  then show ?thesis by (auto elim!: lookup_price_best)
qed

definition flat_row :: "int \<Rightarrow> bytes \<Rightarrow> rat \<Rightarrow> price_row" where
  "flat_row i pat r = \<lparr>pw_id = i, pw_provider_type = ''openai'', pw_pattern = pat,
     pw_price = \<lparr>pi_input = Fin r, pi_output = Fin r, pi_cache_write = Fin r, pi_cache_read = Fin r,
       pi_per_search_unit = Fin 0, pi_has_search_unit = False, pi_currency = ''USD'', pi_pattern = pat,
       pi_source = SourceBuiltin\<rparr>\<rparr>"

theorem lookup_finds_most_specific_witness:
  "\<exists>r \<in> set [flat_row 1 ''gpt-4o*'' 3, flat_row 2 ''gpt-4o-mini*'' 1]. glob_match (pw_pattern r) ''gpt-4o-mini-x''"
proof -
  have "glob_match ''gpt-4o*'' ''gpt-4o-mini-x''" by code_simp
  then have "lookup_price (Some (new_table [flat_row 1 ''gpt-4o*'' 3, flat_row 2 ''gpt-4o-mini*'' 1])) ''openai''
      ''gpt-4o-mini-x'' \<noteq> None"
    by (simp add: lookup_price_None flat_row_def)
  then obtain p where "lookup_price (Some (new_table [flat_row 1 ''gpt-4o*'' 3, flat_row 2 ''gpt-4o-mini*'' 1]))
      ''openai'' ''gpt-4o-mini-x'' = Some p" by blast
  with lookup_finds_most_specific [of "[flat_row 1 ''gpt-4o*'' 3, flat_row 2 ''gpt-4o-mini*'' 1]" "''openai''"
      "''gpt-4o-mini-x''"] show ?thesis by auto
qed

text \<open>A cost is never negative and never overflows, and more completion tokens never cost less, whatever the
  prices are, infinities and NaN included.\<close>

theorem cost_bounded_and_monotone:
  assumes "completion \<le> completion'" "int64 completion'"
  shows "0 \<le> cost_micros p prompt cached written completion
    \<and> cost_micros p prompt cached written completion \<le> cost_micros p prompt cached written completion'
    \<and> cost_micros p prompt cached written completion' \<le> maxInt64"
  using cost_micros_completion_mono [OF assms] saturate_bounds by (simp add: cost_micros_def)

theorem cost_bounded_and_monotone_witness:
  "cost_micros (pw_price (flat_row 1 ''gpt-4o*'' 3)) 100 0 0 10 \<le> cost_micros (pw_price (flat_row 1 ''gpt-4o*'' 3)) 100 0 0 20"
  using cost_bounded_and_monotone [of 10 20 "pw_price (flat_row 1 ''gpt-4o*'' 3)" 100 0 0]
  by (simp add: int64_def)

text \<open>Seeding the shipped prices never changes a row an operator edited, even when the transaction fails;
  after a successful seed every shipped model has a row and no untouched row is older than the shipped version.\<close>

theorem seed_respects_edits:
  "user_rows (fst (snd (seed fails f db))) = user_rows (fst db)
    \<and> list_all (\<lambda>m. up_to_date f m (fst (snd (seed False f db)))) (bf_models f)"
  using seed_user_rows seed_current by (simp add: list_all_iff)

text \<open>Seeding a table that is up to date changes no row and reports none changed.\<close>

theorem seed_idempotent:
  "seed False f (fst (snd (seed False f db)), n) =
     (Some 0, (fst (snd (seed False f db)), n + int (length (bf_models f))))"
  using seed_idle [of f "(fst (snd (seed False f db)), n)"] seed_current by simp

text \<open>The backoff of the price cache needs a previous table: with none, at start or after \<open>Invalidate\<close>, and a
  failing database, every lookup queries the database again, however soon after the last failure.\<close>

theorem cold_cache_has_no_backoff:
  assumes "pc_has_pool c" "pc_table c = None"
  shows "(case cache_current c now None of (t, c', queried) \<Rightarrow>
    t = None \<and> queried \<and> pc_has_pool c' \<and> pc_table c' = None \<and> snd (snd (cache_current c' now None)))"
  using assms by (simp add: cache_current_def cache_fresh_def cache_store_def)

definition cold_cache :: price_cache where
  "cold_cache = \<lparr>pc_has_pool = True, pc_ttl = CacheTTL, pc_table = None, pc_loaded_at = 0\<rparr>"

theorem cold_cache_has_no_backoff_witness:
  "snd (snd (cache_current (fst (snd (cache_current cold_cache 5 None))) 5 None))"
  using cold_cache_has_no_backoff [of cold_cache 5] by (simp add: cold_cache_def split: prod.splits)

text \<open>A reload that read the prices before an edit and ends after the edit's \<open>Invalidate\<close> puts the old
  table back, and it is served for the whole TTL.\<close>

theorem invalidate_can_be_undone:
  assumes "cache_store (invalidate c) now (Some old_rows) = (t, c')" "now \<le> later" "later < now + pc_ttl c"
  shows "cache_current c' later (Some new_rows) = (Some (new_table old_rows), c', False)"
  using assms by (auto simp: cache_store_def cache_current_def cache_fresh_def invalidate_def)

theorem invalidate_can_be_undone_witness:
  "fst (cache_current (snd (cache_store (invalidate cold_cache) 10 (Some [flat_row 1 ''gpt-4o*'' 3]))) 11
     (Some [flat_row 1 ''gpt-4o*'' 1])) = Some (new_table [flat_row 1 ''gpt-4o*'' 3])"
  using invalidate_can_be_undone [of cold_cache 10 "[flat_row 1 ''gpt-4o*'' 3]" _ _ 11 "[flat_row 1 ''gpt-4o*'' 1]"]
  by (simp add: cold_cache_def CacheTTL_def prod_eq_iff)

end
