(* ===== verification/Accounting.thy ===== *)
theory Accounting
  imports Pricing Limiter GoStrings "HOL-Library.Signed_Division"
begin

text \<open>
  What a finished request is charged (\<open>internal/gateway/gateway.go\<close> and \<open>pipeline.go\<close>):
  token counts from the upstream or an estimate (\<open>fillUsage\<close>), the cost of the call and
  of its side calls (\<open>priceRequest\<close>, \<open>priceSideCharges\<close>, the token arithmetic of
  \<open>record\<close>), what the span says about the response (\<open>noteResponseModel\<close>,
  \<open>noteFinishReason\<close>), and how a denied request is answered (\<open>setLimitHeaders\<close>,
  \<open>writeLimitError\<close>). Sums of counts wrap at 64 bits.
\<close>

section \<open>Usage blocks\<close>

record token_details =
  td_cached :: int
  td_cache_write :: int
  td_audio :: int

record usage =
  us_prompt :: int
  us_completion :: int
  us_total :: int
  us_details :: "token_details option"
  us_cache_hit :: int
  us_cache_miss :: int
  us_search_units :: int
  us_reasoning :: "int option"

definition cached_tokens :: "usage option \<Rightarrow> int" where
  "cached_tokens u =
     (case u of None \<Rightarrow> 0 | Some x \<Rightarrow> (case us_details x of None \<Rightarrow> 0 | Some d \<Rightarrow> td_cached d))"

definition cache_write_tokens :: "usage option \<Rightarrow> int" where
  "cache_write_tokens u =
     (case u of None \<Rightarrow> 0 | Some x \<Rightarrow> (case us_details x of None \<Rightarrow> 0 | Some d \<Rightarrow> td_cache_write d))"

definition prompt_details :: "usage \<Rightarrow> token_details" where
  "prompt_details u =
     (case us_details u of None \<Rightarrow> \<lparr>td_cached = 0, td_cache_write = 0, td_audio = 0\<rparr> | Some d \<Rightarrow> d)"

definition normalize_usage :: "usage option \<Rightarrow> usage option" where
  "normalize_usage uo =
     (case uo of
        None \<Rightarrow> None
      | Some u \<Rightarrow>
          (let u = (if us_cache_hit u > 0 \<and> cached_tokens (Some u) = 0
                    then u\<lparr>us_details := Some ((prompt_details u)\<lparr>td_cached := us_cache_hit u\<rparr>)\<rparr> else u)
           in Some (if us_total u = 0 then u\<lparr>us_total := wrap64 (us_prompt u + us_completion u)\<rparr> else u)))"

section \<open>The log row\<close>

record request_log =
  rl_prompt_tokens :: int
  rl_completion_tokens :: int
  rl_cached_prompt_tokens :: int
  rl_cache_write_tokens :: int
  rl_estimated :: bool
  rl_cost_micros :: int
  rl_cost_usd :: f64
  rl_cost_source :: bytes

definition CostSourceNone where "CostSourceNone = ''none''"

definition chars_estimate :: "int \<Rightarrow> int" where
  "chars_estimate chars = wrap64 (non_negative chars + 3) sdiv 4"

definition fill_usage :: "request_log \<Rightarrow> usage option \<Rightarrow> int \<Rightarrow> int \<Rightarrow> request_log" where
  "fill_usage rec u prompt_chars comp_chars =
     (let prompt_estimate = chars_estimate prompt_chars; comp_estimate = chars_estimate comp_chars in
      case u of
        Some x \<Rightarrow>
          (if us_prompt x > 0 \<or> us_completion x > 0 then
             (let rec = rec\<lparr>rl_prompt_tokens := us_prompt x, rl_completion_tokens := us_completion x,
                    rl_cached_prompt_tokens := cached_tokens u, rl_cache_write_tokens := cache_write_tokens u\<rparr>;
                  rec = (if rl_prompt_tokens rec < 0
                    then rec\<lparr>rl_prompt_tokens := prompt_estimate, rl_estimated := True\<rparr> else rec);
                  rec = (if rl_completion_tokens rec < 0
                    then rec\<lparr>rl_completion_tokens := comp_estimate, rl_estimated := True\<rparr> else rec)
              in rec\<lparr>rl_cached_prompt_tokens := non_negative (rl_cached_prompt_tokens rec),
                     rl_cache_write_tokens := non_negative (rl_cache_write_tokens rec)\<rparr>)
           else rec\<lparr>rl_estimated := True, rl_prompt_tokens := prompt_estimate,
                    rl_completion_tokens := comp_estimate\<rparr>)
      | None \<Rightarrow> rec\<lparr>rl_estimated := True, rl_prompt_tokens := prompt_estimate,
                    rl_completion_tokens := comp_estimate\<rparr>)"

definition completion_chars :: "bytes option list \<Rightarrow> nat" where
  "completion_chars contents = sum_list (map (\<lambda>c. case c of None \<Rightarrow> 0 | Some s \<Rightarrow> length s) contents)"

section \<open>Pricing the row\<close>

text \<open>\<open>prices\<close> is the cache's lookup; \<open>None\<close> when the gateway has no price table.\<close>

type_synonym price_lookup = "bytes \<Rightarrow> bytes \<Rightarrow> price option"

definition usd :: "int \<Rightarrow> f64" where
  "usd micros = f_div (f_of_int micros) (Fin 1000000)"

definition price_request :: "price_lookup option \<Rightarrow> (bytes \<times> bytes) option \<Rightarrow> request_log \<Rightarrow> int \<Rightarrow> request_log" where
  "price_request prices conn rec search_units =
     (let rec = rec\<lparr>rl_cost_source := CostSourceNone\<rparr> in
      case (prices, conn) of
        (Some lookup, Some (provider_type, model)) \<Rightarrow>
          (case lookup provider_type model of
             None \<Rightarrow> rec
           | Some p \<Rightarrow>
               (let micros = billed_micros p (rl_prompt_tokens rec) (rl_cached_prompt_tokens rec)
                      (rl_cache_write_tokens rec) (rl_completion_tokens rec) search_units
                in rec\<lparr>rl_cost_micros := micros, rl_cost_source := pi_source p, rl_cost_usd := usd micros\<rparr>))
      | _ \<Rightarrow> rec)"

record side_charge =
  sc_prompt :: int
  sc_completion :: int
  sc_search_units :: int
  sc_estimated :: bool
  sc_provider_type :: bytes
  sc_model :: bytes
  sc_in_row :: bool

definition no_charge :: side_charge where
  "no_charge = \<lparr>sc_prompt = 0, sc_completion = 0, sc_search_units = 0, sc_estimated = False,
     sc_provider_type = [], sc_model = [], sc_in_row = False\<rparr>"

definition charge_is_zero :: "side_charge \<Rightarrow> bool" where
  "charge_is_zero s \<longleftrightarrow> sc_prompt s = 0 \<and> sc_completion s = 0 \<and> sc_search_units s = 0"

text \<open>\<open>addSideCharge\<close> keeps the charges that spent something.\<close>

definition add_side_charge :: "side_charge list \<Rightarrow> side_charge \<Rightarrow> side_charge list" where
  "add_side_charge cs ch = (if charge_is_zero ch then cs else cs @ [ch])"

definition add_micros :: "int \<Rightarrow> int \<Rightarrow> int" where
  "add_micros a b = (if a > wrap64 (maxInt64 - b) then maxInt64 else wrap64 (a + b))"

definition side_micros :: "price_lookup \<Rightarrow> side_charge \<Rightarrow> int option" where
  "side_micros lookup ch =
     (if sc_provider_type ch = [] then None
      else map_option (\<lambda>p. billed_micros p (sc_prompt ch) 0 0 (sc_completion ch) (sc_search_units ch))
             (lookup (sc_provider_type ch) (sc_model ch)))"

fun add_side_micros :: "price_lookup \<Rightarrow> side_charge list \<Rightarrow> int \<Rightarrow> int" where
  "add_side_micros lookup [] micros = micros"
| "add_side_micros lookup (ch # chs) micros =
     (case side_micros lookup ch of
        None \<Rightarrow> add_side_micros lookup chs micros
      | Some m \<Rightarrow> add_side_micros lookup chs (add_micros micros m))"

definition price_side_charges :: "price_lookup option \<Rightarrow> request_log \<Rightarrow> side_charge list \<Rightarrow> request_log" where
  "price_side_charges prices rec charges =
     (case prices of
        None \<Rightarrow> rec
      | Some lookup \<Rightarrow>
          (let micros = add_side_micros lookup charges (rl_cost_micros rec)
           in rec\<lparr>rl_cost_micros := micros, rl_cost_usd := usd micros\<rparr>))"

text \<open>The first half of \<open>record\<close>: the row's tokens and cost, up to the insert.\<close>

fun add_side_tokens :: "side_charge list \<Rightarrow> request_log \<times> int \<times> int \<Rightarrow> request_log \<times> int \<times> int" where
  "add_side_tokens [] st = st"
| "add_side_tokens (ch # chs) (rec, side_prompt, side_completion) =
     (let rec = (if \<not> sc_in_row ch
           then rec\<lparr>rl_prompt_tokens := wrap64 (rl_prompt_tokens rec + sc_prompt ch),
                    rl_completion_tokens := wrap64 (rl_completion_tokens rec + sc_completion ch),
                    rl_estimated := (rl_estimated rec \<or> sc_estimated ch)\<rparr>
           else rec)
      in add_side_tokens chs (rec, wrap64 (side_prompt + sc_prompt ch), wrap64 (side_completion + sc_completion ch)))"

definition record_figures ::
  "price_lookup option \<Rightarrow> (bytes \<times> bytes) option \<Rightarrow> request_log \<Rightarrow> side_charge list \<Rightarrow> int \<Rightarrow> request_log" where
  "record_figures prices conn rec charges search_units =
     (case add_side_tokens charges (rec, 0, 0) of (rec, side_prompt, side_completion) \<Rightarrow>
      let rec = rec\<lparr>rl_prompt_tokens := wrap64 (rl_prompt_tokens rec - side_prompt),
                    rl_completion_tokens := wrap64 (rl_completion_tokens rec - side_completion)\<rparr>;
          rec = price_request prices conn rec search_units;
          rec = rec\<lparr>rl_prompt_tokens := wrap64 (rl_prompt_tokens rec + side_prompt),
                    rl_completion_tokens := wrap64 (rl_completion_tokens rec + side_completion)\<rparr>
      in price_side_charges prices rec charges)"

section \<open>What the span says\<close>

definition maxResponseModelLen :: nat where "maxResponseModelLen = 128"

definition note_response_model :: "bytes \<Rightarrow> bytes \<Rightarrow> bytes \<Rightarrow> bytes \<Rightarrow> bytes" where
  "note_response_model noted upstream client_model conn_model =
     (if noted \<noteq> [] then noted
      else let m = (if upstream = [] \<or> (upstream = client_model \<and> client_model \<noteq> conn_model)
                    then conn_model else upstream)
        in cut_bytes m maxResponseModelLen)"

definition known_finish_reasons :: "bytes list" where
  "known_finish_reasons = [''stop'', ''length'', ''tool_calls'', ''content_filter'', ''function_call'']"

definition note_finish_reason :: "bytes list \<Rightarrow> bytes option \<Rightarrow> bytes list" where
  "note_finish_reason have reason =
     (case reason of
        None \<Rightarrow> have
      | Some r \<Rightarrow>
          (if r = [] then have
           else let r = (if r \<notin> set known_finish_reasons then ''other'' else r)
             in if r \<in> set have then have else have @ [r]))"

section \<open>Answering a denial\<close>

definition ceil_seconds :: "duration \<Rightarrow> int" where
  "ceil_seconds d = (d + second - 1) sdiv second"

definition limit_headers :: "decision \<Rightarrow> (bytes \<times> bytes) list" where
  "limit_headers d =
     (if d_limit_requests d > 0
      then [(''x-ratelimit-limit-requests'', format_int (d_limit_requests d)),
            (''x-ratelimit-remaining-requests'', format_int (d_remaining_requests d)),
            (''x-ratelimit-reset-requests'', format_int (ceil_seconds (d_reset_requests d)))]
      else [])
     @ (if d_daily_limit d > 0
        then [(''x-ragmux-budget-daily-remaining'', format_int (max (d_daily_limit d - d_daily_used d) 0))] else [])
     @ (if d_monthly_limit d > 0
        then [(''x-ragmux-budget-monthly-remaining'', format_int (max (d_monthly_limit d - d_monthly_used d) 0))]
        else [])"

definition of_tokens :: "int \<Rightarrow> int \<Rightarrow> bytes" where
  "of_tokens used limit = '' ('' @ format_int used @ '' of '' @ format_int limit @ '' tokens used).''"

text \<open>\<open>writeLimitError\<close>: the error type, the message, and the Retry-After value if any.\<close>

definition limit_error :: "decision \<Rightarrow> bytes \<times> bytes \<times> int option" where
  "limit_error d =
     (let subj = (if d_scope d = Some ScopeKey then ''this api key'' else ''this project'');
          (typ, msg) =
            (case d_reason d of
               Some ReasonRPM \<Rightarrow>
                 (''rate_limit_exceeded'', ''Rate limit reached: '' @ format_int (d_limit_requests d)
                    @ '' requests per minute for '' @ subj @ ''.'')
             | Some ReasonTPM \<Rightarrow> (''rate_limit_exceeded'', ''Rate limit reached: tokens per minute for '' @ subj @ ''.'')
             | Some ReasonBudgetDaily \<Rightarrow>
                 (''insufficient_quota'', ''Daily token budget exhausted'' @ of_tokens (d_daily_used d) (d_daily_limit d))
             | Some ReasonBudgetMonthly \<Rightarrow>
                 (''insufficient_quota'', ''Monthly token budget exhausted'' @ of_tokens (d_monthly_used d) (d_monthly_limit d))
             | Some ReasonSessionTokenCap \<Rightarrow>
                 (''insufficient_quota'', ''Session token cap reached'' @ of_tokens (d_session_used d) (d_session_limit d))
             | None \<Rightarrow> (''rate_limit_exceeded'', ''Rate limit reached for '' @ subj @ ''.''))
      in if d_reason d \<noteq> Some ReasonSessionTokenCap
         then let retry = ceil_seconds (d_retry_after d)
           in (typ, msg @ '' Retry after '' @ format_int retry @ '' seconds.'', Some retry)
         else (typ, msg, None))"

section \<open>Facts\<close>

lemma sdiv_pos: "0 \<le> a \<Longrightarrow> 0 < b \<Longrightarrow> a sdiv b = (a div b :: int)"
  by (simp add: signed_divide_int_def sgn_if)

lemma chars_estimate_nonneg: "int64 (chars + 3) \<Longrightarrow> 0 \<le> chars_estimate chars"
proof -
  assume "int64 (chars + 3)"
  then have "wrap64 (non_negative chars + 3) = non_negative chars + 3"
    by (intro wrap64_id) (auto simp: int64_def non_negative_def)
  moreover have "0 \<le> (non_negative chars + 3) div 4"
    using non_negative_ge [of chars] by (intro pos_imp_zdiv_nonneg_iff [THEN iffD2]) auto
  ultimately show ?thesis
    using non_negative_ge [of chars] by (simp add: chars_estimate_def sdiv_pos)
qed

lemma fill_usage_nonneg:
  assumes "int64 (prompt_chars + 3)" "int64 (comp_chars + 3)"
    "0 \<le> rl_cached_prompt_tokens r" "0 \<le> rl_cache_write_tokens r"
  shows "0 \<le> rl_prompt_tokens (fill_usage r u prompt_chars comp_chars)"
    and "0 \<le> rl_completion_tokens (fill_usage r u prompt_chars comp_chars)"
    and "0 \<le> rl_cached_prompt_tokens (fill_usage r u prompt_chars comp_chars)"
    and "0 \<le> rl_cache_write_tokens (fill_usage r u prompt_chars comp_chars)"
  using assms chars_estimate_nonneg
  by (auto simp: fill_usage_def Let_def non_negative_ge split: option.split)

text \<open>The saturating sum of non-negative costs.\<close>

lemma add_micros_sum:
  assumes "0 \<le> a" "a \<le> maxInt64" "0 \<le> b" "b \<le> maxInt64"
  shows "add_micros a b = min maxInt64 (a + b)"
proof -
  have "wrap64 (maxInt64 - b) = maxInt64 - b" using assms by (intro wrap64_id) (auto simp: int64_def)
  moreover have "a + b \<le> maxInt64 \<Longrightarrow> wrap64 (a + b) = a + b"
    using assms by (intro wrap64_id) (auto simp: int64_def)
  ultimately show ?thesis by (auto simp: add_micros_def)
qed

definition side_cost :: "price_lookup \<Rightarrow> side_charge \<Rightarrow> int" where
  "side_cost lookup ch = (case side_micros lookup ch of None \<Rightarrow> 0 | Some m \<Rightarrow> m)"

lemma side_cost_bounds: "0 \<le> side_cost lookup ch" "side_cost lookup ch \<le> maxInt64"
  using billed_bounds by (auto simp: side_cost_def side_micros_def split: option.split)

lemma add_side_micros_sum:
  assumes "0 \<le> micros" "micros \<le> maxInt64"
  shows "add_side_micros lookup charges micros = min maxInt64 (micros + sum_list (map (side_cost lookup) charges))"
  using assms
proof (induction charges arbitrary: micros)
  case (Cons ch chs)
  have nn: "0 \<le> sum_list (map (side_cost lookup) chs)"
    by (intro sum_list_nonneg) (auto simp: side_cost_bounds)
  show ?case
  proof (cases "side_micros lookup ch")
    case None
    with Cons show ?thesis by (simp add: side_cost_def)
  next
    case (Some m)
    then have m: "side_cost lookup ch = m" "0 \<le> m" "m \<le> maxInt64"
      using side_cost_bounds [of lookup ch] by (simp_all add: side_cost_def)
    have sum: "add_micros micros m = min maxInt64 (micros + m)"
      by (rule add_micros_sum [OF Cons.prems m(2,3)])
    have "0 \<le> add_micros micros m" "add_micros micros m \<le> maxInt64"
      using Cons.prems m sum by auto
    from Cons.IH [OF this] Some m(1) sum nn show ?thesis by simp
  qed
qed simp

definition side_prompt_sum :: "side_charge list \<Rightarrow> int" where
  "side_prompt_sum chs = sum_list (map sc_prompt chs)"

definition side_completion_sum :: "side_charge list \<Rightarrow> int" where
  "side_completion_sum chs = sum_list (map sc_completion chs)"

definition not_in_row :: "side_charge list \<Rightarrow> side_charge list" where
  "not_in_row chs = filter (\<lambda>c. \<not> sc_in_row c) chs"

lemma add_side_tokens_sums:
  assumes "add_side_tokens chs (r, p, c) = (r', p', c')"
    and "int64 (rl_prompt_tokens r)" "int64 (rl_completion_tokens r)" "int64 p" "int64 c"
  shows "p' = wrap64 (p + side_prompt_sum chs) \<and> c' = wrap64 (c + side_completion_sum chs) \<and>
    rl_prompt_tokens r' = wrap64 (rl_prompt_tokens r + side_prompt_sum (not_in_row chs)) \<and>
    rl_completion_tokens r' = wrap64 (rl_completion_tokens r + side_completion_sum (not_in_row chs)) \<and>
    rl_cached_prompt_tokens r' = rl_cached_prompt_tokens r \<and>
    rl_cache_write_tokens r' = rl_cache_write_tokens r \<and> rl_cost_micros r' = rl_cost_micros r"
  using assms
proof (induction chs arbitrary: r p c)
  case Nil
  then show ?case by (simp add: side_prompt_sum_def side_completion_sum_def not_in_row_def wrap64_id)
next
  case (Cons ch chs)
  define r1 where "r1 = (if \<not> sc_in_row ch
      then r\<lparr>rl_prompt_tokens := wrap64 (rl_prompt_tokens r + sc_prompt ch),
             rl_completion_tokens := wrap64 (rl_completion_tokens r + sc_completion ch),
             rl_estimated := (rl_estimated r \<or> sc_estimated ch)\<rparr> else r)"
  from Cons.prems(1) have "add_side_tokens chs (r1, wrap64 (p + sc_prompt ch), wrap64 (c + sc_completion ch)) = (r', p', c')"
    by (simp add: r1_def Let_def)
  moreover have "int64 (rl_prompt_tokens r1)" "int64 (rl_completion_tokens r1)"
    using Cons.prems by (auto simp: r1_def wrap64_int64)
  ultimately show ?case
    using Cons.IH [of r1 "wrap64 (p + sc_prompt ch)" "wrap64 (c + sc_completion ch)"]
    by (simp add: r1_def side_prompt_sum_def side_completion_sum_def not_in_row_def wrap64_int64
        wrap64_add_left add.assoc)
qed

lemma price_request_tokens:
  "rl_prompt_tokens (price_request prices conn r u) = rl_prompt_tokens r"
  "rl_completion_tokens (price_request prices conn r u) = rl_completion_tokens r"
  by (auto simp: price_request_def Let_def split: option.split prod.split)

lemma price_side_tokens:
  "rl_prompt_tokens (price_side_charges prices r chs) = rl_prompt_tokens r"
  "rl_completion_tokens (price_side_charges prices r chs) = rl_completion_tokens r"
  by (auto simp: price_side_charges_def Let_def split: option.split)

text \<open>The tokens on the row are the call's and those of the charges not already there.\<close>

lemma record_figures_tokens:
  assumes "int64 (rl_prompt_tokens r)" "int64 (rl_completion_tokens r)"
  shows "rl_prompt_tokens (record_figures prices conn r chs u) =
      wrap64 (rl_prompt_tokens r + side_prompt_sum (not_in_row chs))"
    and "rl_completion_tokens (record_figures prices conn r chs u) =
      wrap64 (rl_completion_tokens r + side_completion_sum (not_in_row chs))"
proof -
  obtain r' p' c' where st: "add_side_tokens chs (r, 0, 0) = (r', p', c')" by (metis prod.exhaust)
  have "int64 0" by (simp add: int64_def)
  note sums = add_side_tokens_sums [OF st assms this this]
  then show "rl_prompt_tokens (record_figures prices conn r chs u) =
      wrap64 (rl_prompt_tokens r + side_prompt_sum (not_in_row chs))"
    "rl_completion_tokens (record_figures prices conn r chs u) =
      wrap64 (rl_completion_tokens r + side_completion_sum (not_in_row chs))"
    by (simp_all add: record_figures_def st Let_def price_side_tokens price_request_tokens wrap64_add_left
        wrap64_id wrap64_int64)
qed

text \<open>
  The cost is the price of the call's own tokens, without the side calls', plus the
  price of every side call, up to the ceiling.
\<close>

lemma record_figures_cost:
  assumes "int64 (rl_prompt_tokens r)" "int64 (rl_completion_tokens r)"
    and "int64 (rl_prompt_tokens r + side_prompt_sum (not_in_row chs) - side_prompt_sum chs)"
    and "int64 (rl_completion_tokens r + side_completion_sum (not_in_row chs) - side_completion_sum chs)"
    and "lookup ptype model = Some p"
  shows "rl_cost_micros (record_figures (Some lookup) (Some (ptype, model)) r chs u) =
     min maxInt64
       (billed_micros p
          (rl_prompt_tokens r + side_prompt_sum (not_in_row chs) - side_prompt_sum chs)
          (rl_cached_prompt_tokens r) (rl_cache_write_tokens r)
          (rl_completion_tokens r + side_completion_sum (not_in_row chs) - side_completion_sum chs) u
        + sum_list (map (side_cost lookup) chs))"
proof -
  obtain r' p' c' where st: "add_side_tokens chs (r, 0, 0) = (r', p', c')" by (metis prod.exhaust)
  have "int64 0" by (simp add: int64_def)
  note sums = add_side_tokens_sums [OF st assms(1,2) this this]
  have sub: "wrap64 (wrap64 a - wrap64 b) = a - b" if "int64 (a - b)" for a b
  proof -
    have "wrap64 (wrap64 a - wrap64 b) = wrap64 (a - b)"
      using wrap64_shift [of "a - b" "(b + 2 ^ 63) div 2 ^ 64 - (a + 2 ^ 63) div 2 ^ 64"]
      unfolding wrap64_mod [of a] wrap64_mod [of b] by (simp add: algebra_simps)
    with that show ?thesis by (simp add: wrap64_id)
  qed
  show ?thesis
    using sums assms(5) add_side_micros_sum billed_bounds
    by (simp add: record_figures_def st Let_def price_request_def price_side_charges_def
        sub [OF assms(3)] sub [OF assms(4)])
qed

lemma note_finish_reason_ok:
  assumes "distinct have" "set have \<subseteq> insert ''other'' (set known_finish_reasons)"
  shows "distinct (note_finish_reason have r)"
    "set (note_finish_reason have r) \<subseteq> insert ''other'' (set known_finish_reasons)"
  using assms by (auto simp: note_finish_reason_def Let_def split: option.split)

lemma note_response_model_length:
  "length noted \<le> maxResponseModelLen \<Longrightarrow>
   length (note_response_model noted upstream client conn) \<le> maxResponseModelLen"
  by (simp add: note_response_model_def Let_def cut_bytes_length)

lemma ceil_seconds_le:
  assumes "0 \<le> d"
  shows "d \<le> ceil_seconds d * second" "ceil_seconds d * second < d + second"
proof -
  have "ceil_seconds d = (d + second - 1) div second"
    using assms by (simp add: ceil_seconds_def sdiv_pos)
  moreover have "second * ((d + second - 1) div second) \<le> d + second - 1
      \<and> d + second - 1 < second * ((d + second - 1) div second) + second"
    by (rule div_bounds) simp
  ultimately show "d \<le> ceil_seconds d * second" "ceil_seconds d * second < d + second"
    by (simp_all add: mult.commute)
qed

section \<open>Properties\<close>

text \<open>C20: The row of a finished request whose model has a price costs the price of the call's own
  tokens plus the price of every side call under the connection that did it, saturated at the
  ceiling of 64 bits; its token counts are the call's plus those of the side calls that were not
  on the row already, and wrap at 64 bits. The cost is so where the counts of the row, and its
  counts less those of the side calls, are 64-bit numbers.\<close>

theorem recorded_cost_and_tokens:
  assumes "int64 (rl_prompt_tokens r)" "int64 (rl_completion_tokens r)"
    and "int64 (rl_prompt_tokens r + side_prompt_sum (not_in_row chs) - side_prompt_sum chs)"
    and "int64 (rl_completion_tokens r + side_completion_sum (not_in_row chs) - side_completion_sum chs)"
    and "lookup ptype model = Some p"
  shows "rl_cost_micros (record_figures (Some lookup) (Some (ptype, model)) r chs u) =
      min maxInt64
        (billed_micros p
          (rl_prompt_tokens r + side_prompt_sum (not_in_row chs) - side_prompt_sum chs)
          (rl_cached_prompt_tokens r) (rl_cache_write_tokens r)
          (rl_completion_tokens r + side_completion_sum (not_in_row chs) - side_completion_sum chs) u
        + sum_list (map (side_cost lookup) chs))
    \<and> rl_prompt_tokens (record_figures (Some lookup) (Some (ptype, model)) r chs u) =
        wrap64 (rl_prompt_tokens r + side_prompt_sum (not_in_row chs))
    \<and> rl_completion_tokens (record_figures (Some lookup) (Some (ptype, model)) r chs u) =
        wrap64 (rl_completion_tokens r + side_completion_sum (not_in_row chs))"
  using record_figures_cost [OF assms(1-4), where lookup = lookup and ptype = ptype and model = model, OF assms(5)]
    record_figures_tokens [OF assms(1,2)] by blast

definition empty_row :: request_log where
  "empty_row = \<lparr>rl_prompt_tokens = 0, rl_completion_tokens = 0, rl_cached_prompt_tokens = 0,
     rl_cache_write_tokens = 0, rl_estimated = False, rl_cost_micros = 0, rl_cost_usd = Fin 0, rl_cost_source = []\<rparr>"

definition rerank_charge :: side_charge where
  "rerank_charge = no_charge\<lparr>sc_prompt := 30, sc_provider_type := ''openai'', sc_model := ''small''\<rparr>"

theorem recorded_cost_and_tokens_witness:
  "rl_prompt_tokens (record_figures (Some (\<lambda>_ _. Some (pw_price (flat_row 1 ''*'' 3)))) (Some (''openai'', ''big''))
      (empty_row\<lparr>rl_prompt_tokens := 100\<rparr>) [rerank_charge] 0) = 130"
  using recorded_cost_and_tokens [of "empty_row\<lparr>rl_prompt_tokens := 100\<rparr>" "[rerank_charge]"
      "\<lambda>_ _. Some (pw_price (flat_row 1 ''*'' 3))" "''openai''" "''big''" _ 0]
  by (simp add: empty_row_def rerank_charge_def no_charge_def side_prompt_sum_def side_completion_sum_def
      not_in_row_def int64_def wrap64_def)

text \<open>No token count of a finished row is negative, whatever the upstream reported; counts the upstream
  reported in order are kept exactly and not marked as an estimate.\<close>

theorem filled_usage_is_sane:
  assumes "int64 (prompt_chars + 3)" "int64 (comp_chars + 3)"
    and "0 \<le> rl_cached_prompt_tokens r" "0 \<le> rl_cache_write_tokens r"
  shows "0 \<le> rl_prompt_tokens (fill_usage r u prompt_chars comp_chars)
    \<and> 0 \<le> rl_completion_tokens (fill_usage r u prompt_chars comp_chars)
    \<and> 0 \<le> rl_cached_prompt_tokens (fill_usage r u prompt_chars comp_chars)
    \<and> 0 \<le> rl_cache_write_tokens (fill_usage r u prompt_chars comp_chars)
    \<and> (\<forall>x. u = Some x \<longrightarrow> 0 \<le> us_prompt x \<longrightarrow> 0 \<le> us_completion x \<longrightarrow> 0 < us_prompt x + us_completion x \<longrightarrow>
        rl_prompt_tokens (fill_usage r u prompt_chars comp_chars) = us_prompt x
        \<and> rl_completion_tokens (fill_usage r u prompt_chars comp_chars) = us_completion x
        \<and> rl_estimated (fill_usage r u prompt_chars comp_chars) = rl_estimated r)"
proof -
  have "rl_prompt_tokens (fill_usage r (Some x) prompt_chars comp_chars) = us_prompt x
      \<and> rl_completion_tokens (fill_usage r (Some x) prompt_chars comp_chars) = us_completion x
      \<and> rl_estimated (fill_usage r (Some x) prompt_chars comp_chars) = rl_estimated r"
    if "0 \<le> us_prompt x" "0 \<le> us_completion x" "0 < us_prompt x + us_completion x" for x
  proof -
    from that have "us_prompt x > 0 \<or> us_completion x > 0" by linarith
    with that show ?thesis by (simp add: fill_usage_def Let_def)
  qed
  with fill_usage_nonneg [OF assms, of u] show ?thesis by blast
qed

definition hostile_usage :: usage where
  "hostile_usage = \<lparr>us_prompt = 12, us_completion = - 78, us_total = 0, us_details = None, us_cache_hit = 0,
     us_cache_miss = 0, us_search_units = 0, us_reasoning = None\<rparr>"

theorem filled_usage_is_sane_witness: "0 \<le> rl_completion_tokens (fill_usage empty_row (Some hostile_usage) 40 80)"
  using filled_usage_is_sane [of 40 80 empty_row "Some hostile_usage"] by (simp add: int64_def empty_row_def)

text \<open>The wait a denied client is told, in whole seconds, covers the limiter's own figure and exceeds it by
  less than a second.\<close>

theorem retry_after_header_covers_wait:
  assumes "0 \<le> d"
  shows "d \<le> ceil_seconds d * second \<and> ceil_seconds d * second < d + second"
  using ceil_seconds_le [OF assms] by blast

theorem retry_after_header_covers_wait_witness:
  "1500 * millisecond \<le> ceil_seconds (1500 * millisecond) * second"
  using retry_after_header_covers_wait [of "1500 * millisecond"] by simp

end
