(* ===== verification/Json.thy ===== *)
theory Json
  imports GoStrings Float64 "HOL-Library.AList" "HOL-Library.List_Lexorder" "HOL-Library.Char_ord"
begin

text \<open>
  JSON values and Go's \<open>encoding/json\<close> as the gateway uses it on raw messages. A
  \<open>json.RawMessage\<close> is an optional value: \<open>None\<close> is the empty message an absent member
  leaves behind, and parsing the text is the decoder's own business. Decoding into a Go
  value is a function of the old value and the JSON value that gives the new value and
  whether a type error was found: as in Go a mismatch is remembered, the rest is decoded,
  and the call fails at the end. A struct member matches a field when the two names are
  equal up to case folding, and a later member overwrites an earlier one.
\<close>

datatype json =
    JNull
  | JBool bool
  | JNum bytes
  | JStr bytes
  | JArr "json list"
  | JObj "(bytes \<times> json) list"

type_synonym raw = "json option"

type_synonym 'a decoder = "'a \<Rightarrow> json \<Rightarrow> 'a \<times> bool"

section \<open>Case folding of member names\<close>

text \<open>
  \<open>foldName\<close>: the only characters outside ASCII that fold to ASCII ones are the long s
  and the Kelvin sign, here in UTF-8.
\<close>

definition ascii_upper :: "char \<Rightarrow> char" where
  "ascii_upper c = (let n = of_char c :: nat in if 97 \<le> n \<and> n \<le> 122 then char_of (n - 32) else c)"

function fold_name :: "bytes \<Rightarrow> bytes" where
  "fold_name [] = []"
| "fold_name (c # cs) =
     (if has_prefix (c # cs) [CHR 0xC5, CHR 0xBF] then CHR ''S'' # fold_name (drop 1 cs)
      else if has_prefix (c # cs) [CHR 0xE2, CHR 0x84, CHR 0xAA] then CHR ''K'' # fold_name (drop 2 cs)
      else ascii_upper c # fold_name cs)"
  by pat_completeness auto
termination by (relation "measure length") auto

declare fold_name.simps(2) [simp del]

definition names_field :: "bytes \<Rightarrow> bytes \<Rightarrow> bool" where
  "names_field key field \<longleftrightarrow> fold_name key = fold_name field"

lemma names_field_refl [simp]: "names_field k k"
  by (simp add: names_field_def)

section \<open>Decoding\<close>

fun dec_string :: "bytes decoder" where
  "dec_string old (JStr s) = (s, False)"
| "dec_string old JNull = (old, False)"
| "dec_string old _ = (old, True)"

fun dec_bool :: "bool decoder" where
  "dec_bool old (JBool b) = (b, False)"
| "dec_bool old JNull = (old, False)"
| "dec_bool old _ = (old, True)"

fun dec_members :: "(bytes \<Rightarrow> 'a decoder) \<Rightarrow> 'a \<Rightarrow> (bytes \<times> json) list \<Rightarrow> 'a \<times> bool" where
  "dec_members field old [] = (old, False)"
| "dec_members field old ((k, v) # ms) =
     (let (x, e) = field k old v; (y, e') = dec_members field x ms in (y, e \<or> e'))"

definition dec_struct :: "(bytes \<Rightarrow> 'a decoder) \<Rightarrow> 'a decoder" where
  "dec_struct field old j =
     (case j of
        JObj ms \<Rightarrow> dec_members field old ms
      | JNull \<Rightarrow> (old, False)
      | _ \<Rightarrow> (old, True))"

text \<open>
  A slice of structs. An element the slice already has is decoded into, so a repeated
  member merges position by position; further ones start from the zero value.
\<close>

fun dec_elems :: "'a decoder \<Rightarrow> 'a \<Rightarrow> 'a list \<Rightarrow> json list \<Rightarrow> 'a list \<times> bool" where
  "dec_elems dec zero old [] = ([], False)"
| "dec_elems dec zero old (j # js) =
     (let (x, e) = dec (case old of [] \<Rightarrow> zero | y # ys \<Rightarrow> y) j;
          (xs, e') = dec_elems dec zero (drop 1 old) js
      in (x # xs, e \<or> e'))"

definition dec_slice :: "'a decoder \<Rightarrow> 'a \<Rightarrow> 'a list decoder" where
  "dec_slice dec zero old j =
     (case j of
        JArr js \<Rightarrow> dec_elems dec zero old js
      | JNull \<Rightarrow> ([], False)
      | _ \<Rightarrow> (old, True))"

text \<open>
  Numbers. An \<open>int\<close> takes an integer literal in range only; a \<open>float64\<close> takes any literal
  the decimal value of which does not overflow.
\<close>

definition int_literal :: "bytes \<Rightarrow> int option" where
  "int_literal s =
     (let (neg, ds) = (if has_prefix s ''-'' then (True, drop 1 s) else (False, s));
          n = (if neg then - int (digits_value ds) else int (digits_value ds)) in
      if ds \<noteq> [] \<and> list_all (\<lambda>c. CHR ''0'' \<le> c \<and> c \<le> CHR ''9'') ds \<and> int64 n then Some n else None)"

text \<open>The pieces of a number: sign, digits before and after the point, exponent.\<close>

record number_parts =
  np_neg :: bool
  np_whole :: bytes
  np_frac :: bytes
  np_exp :: int

definition number_parts :: "bytes \<Rightarrow> number_parts" where
  "number_parts s =
     (let (neg, u) = (if has_prefix s ''-'' then (True, drop 1 s) else (False, s));
          mantissa = takeWhile (\<lambda>c. c \<notin> set ''eE'') u;
          exponent = drop (length mantissa + 1) u;
          whole = takeWhile (\<lambda>c. c \<noteq> CHR ''.'') mantissa;
          eneg = has_prefix exponent ''-'';
          e = int (digits_value (if eneg \<or> has_prefix exponent ''+'' then drop 1 exponent else exponent))
      in \<lparr>np_neg = neg, np_whole = whole, np_frac = drop (length whole + 1) mantissa,
          np_exp = (if eneg then - e else e)\<rparr>)"

definition decimal_value :: "bytes \<Rightarrow> rat" where
  "decimal_value s =
     (let p = number_parts s;
          n = of_nat (digits_value (np_whole p @ np_frac p)) * (10 :: rat) powi (np_exp p - int (length (np_frac p)))
      in if np_neg p then - n else n)"

definition float_literal :: "bytes \<Rightarrow> f64 option" where
  "float_literal s = (case fl (decimal_value s) of Fin y \<Rightarrow> Some (Fin y) | _ \<Rightarrow> None)"

fun dec_int :: "int decoder" where
  "dec_int old (JNum s) = (case int_literal s of Some n \<Rightarrow> (n, False) | None \<Rightarrow> (old, True))"
| "dec_int old JNull = (old, False)"
| "dec_int old _ = (old, True)"

fun dec_float :: "f64 decoder" where
  "dec_float old (JNum s) = (case float_literal s of Some x \<Rightarrow> (x, False) | None \<Rightarrow> (old, True))"
| "dec_float old JNull = (old, False)"
| "dec_float old _ = (old, True)"

text \<open>A pointer field: \<open>null\<close> clears it, any other value is decoded into a fresh or the old element.\<close>

definition dec_ptr :: "'a decoder \<Rightarrow> 'a \<Rightarrow> 'a option decoder" where
  "dec_ptr dec zero old j =
     (if j = JNull then (None, False)
      else let (x, e) = dec (case old of Some y \<Rightarrow> y | None \<Rightarrow> zero) j in (Some x, e))"

definition dec_raw :: "raw decoder" where
  "dec_raw old j = (Some j, False)"

text \<open>\<open>json.Unmarshal\<close> of a raw message; empty input is an error.\<close>

definition unmarshal :: "'a decoder \<Rightarrow> 'a \<Rightarrow> raw \<Rightarrow> 'a option" where
  "unmarshal dec zero r =
     (case r of
        None \<Rightarrow> None
      | Some j \<Rightarrow> (case dec zero j of (x, e) \<Rightarrow> if e then None else Some x))"

text \<open>Into \<open>[]json.RawMessage\<close> and into \<open>map[string]json.RawMessage\<close>, whose keys are exact.\<close>

definition raw_list :: "raw \<Rightarrow> json list option" where
  "raw_list r =
     (case r of
        Some (JArr js) \<Rightarrow> Some js
      | Some JNull \<Rightarrow> Some []
      | _ \<Rightarrow> None)"

definition obj_map :: "(bytes \<times> json) list \<Rightarrow> (bytes \<times> json) list" where
  "obj_map ms = fold (\<lambda>(k, v). AList.update k v) ms []"

definition raw_map :: "raw \<Rightarrow> (bytes \<times> json) list option" where
  "raw_map r =
     (case r of
        Some (JObj ms) \<Rightarrow> Some (obj_map ms)
      | Some JNull \<Rightarrow> Some []
      | _ \<Rightarrow> None)"

text \<open>\<open>json.Marshal\<close> of such a map writes the members in the order of their keys.\<close>

definition marshal_map :: "(bytes \<times> json) list \<Rightarrow> json" where
  "marshal_map m = JObj (sort_key fst m)"

section \<open>Facts\<close>

lemma fst_dec_members_Cons [simp]:
  "fst (dec_members f r ((k, v) # ms)) = fst (dec_members f (fst (f k r v)) ms)"
  by (simp split: prod.split)

lemma ascii_upper_le: "(of_char c :: nat) \<le> of_char (ascii_upper c) + 32"
  by (auto simp: ascii_upper_def Let_def mod_less)

text \<open>A name without S and K folds letter by letter.\<close>

lemma fold_name_map:
  "CHR ''S'' \<notin> set (fold_name k) \<Longrightarrow> CHR ''K'' \<notin> set (fold_name k) \<Longrightarrow> fold_name k = map ascii_upper k"
proof (induction k rule: fold_name.induct)
  case (2 c cs)
  then show ?case by (auto simp: fold_name.simps(2) split: if_splits)
qed simp

lemma map_of_obj_map: "map_of (obj_map ms) = map_of (rev ms)"
proof -
  have "map_of (fold (\<lambda>(k, v). AList.update k v) ms acc) = map_of acc ++ map_of (rev ms)" for acc
  proof (induction ms arbitrary: acc)
    case (Cons m ms)
    then show ?case
      by (cases m) (simp add: AList.update_conv' map_add_def fun_eq_iff split: option.split)
  qed simp
  then show ?thesis by (simp add: obj_map_def)
qed

lemma distinct_obj_map: "distinct (map fst (obj_map ms))"
proof -
  have "distinct (map fst acc) \<Longrightarrow> distinct (map fst (fold (\<lambda>(k, v). AList.update k v) ms acc))" for acc
    by (induction ms arbitrary: acc) (auto simp: AList.distinct_update)
  then show ?thesis by (simp add: obj_map_def)
qed

lemma distinct_sort_key:
  assumes "distinct (map fst m)"
  shows "distinct (map fst (sort_key fst m))"
proof -
  have "mset (map fst (sort_key fst m)) = mset (map fst m)" by simp
  then show ?thesis by (metis assms mset_eq_imp_distinct_iff)
qed

lemma map_of_sort_key_fst:
  assumes "distinct (map fst m)"
  shows "map_of (sort_key fst m) = map_of m"
proof (rule map_of_inject_set [THEN iffD2])
  show "distinct (map fst (sort_key fst m))" by (rule distinct_sort_key [OF assms])
qed (use assms in simp_all)

lemma map_of_marshal_map:
  assumes "distinct (map fst m)"
  shows "map_of (obj_map (sort_key fst m)) = map_of m"
proof -
  from distinct_sort_key [OF assms] have "map_of (rev (sort_key fst m)) = map_of (sort_key fst m)"
    by (intro map_of_inject_set [THEN iffD2]) (simp_all add: rev_map [symmetric])
  then show ?thesis by (simp add: map_of_obj_map map_of_sort_key_fst [OF assms])
qed

end
