(* ===== verification/Chat.thy ===== *)
theory Chat
  imports Json
begin

text \<open>
  The chat request of \<open>internal/provider/types.go\<close>: its messages, how it is read from a
  client body (\<open>ChatRequest.UnmarshalJSON\<close>), what the gateway keeps of the members it does
  not know (\<open>Extra\<close>), how it is written for an upstream (\<open>MarshalJSON\<close>), and the readers of
  single fields. Printing a floating-point number is a parameter of \<open>MarshalJSON\<close>; an empty
  slice of messages is written as an empty array.
\<close>

section \<open>Messages\<close>

record message =
  m_role :: bytes
  m_content :: raw
  m_name :: bytes
  m_tool_calls :: raw
  m_tool_call_id :: bytes
  m_is_error :: bool
  m_thinking :: raw
  m_reasoning_content :: raw

definition no_message :: message where
  "no_message = \<lparr>m_role = [], m_content = None, m_name = [], m_tool_calls = None, m_tool_call_id = [],
     m_is_error = False, m_thinking = None, m_reasoning_content = None\<rparr>"

text \<open>The text of a content value: a string, or the text parts joined by line breaks.\<close>

record content_part =
  cp_type :: bytes
  cp_text :: bytes

definition part_field :: "bytes \<Rightarrow> content_part decoder" where
  "part_field k p j =
     (if names_field k ''type'' then (let (s, e) = dec_string (cp_type p) j in (p\<lparr>cp_type := s\<rparr>, e))
      else if names_field k ''text'' then (let (s, e) = dec_string (cp_text p) j in (p\<lparr>cp_text := s\<rparr>, e))
      else (p, False))"

fun join_text_parts :: "content_part list \<Rightarrow> bytes \<Rightarrow> bytes" where
  "join_text_parts [] b = b"
| "join_text_parts (p # ps) b =
     (if cp_type p = ''text'' \<or> cp_type p = []
      then join_text_parts ps ((if b = [] then [] else b @ [CHR 0x0A]) @ cp_text p)
      else join_text_parts ps b)"

definition content_text :: "raw \<Rightarrow> bytes" where
  "content_text r =
     (case unmarshal dec_string [] r of
        Some s \<Rightarrow> s
      | None \<Rightarrow>
          (case unmarshal (dec_slice (dec_struct part_field) \<lparr>cp_type = [], cp_text = []\<rparr>) [] r of
             Some ps \<Rightarrow> join_text_parts ps []
           | None \<Rightarrow> []))"

definition message_text :: "message \<Rightarrow> bytes" where
  "message_text m = content_text (m_content m)"

section \<open>The gateway's own members of a message\<close>

definition toolCallSignatureField where "toolCallSignatureField = ''ragmux_signature''"

text \<open>The tool calls of a message as \<open>[]map[string]json.RawMessage\<close>.\<close>

fun raw_maps :: "json list \<Rightarrow> (bytes \<times> json) list list option" where
  "raw_maps [] = Some []"
| "raw_maps (j # js) =
     (case (raw_map (Some j), raw_maps js) of
        (Some m, Some ms) \<Rightarrow> Some (m # ms)
      | _ \<Rightarrow> None)"

definition strip_signatures :: "raw \<Rightarrow> raw" where
  "strip_signatures r =
     (case raw_list r of
        None \<Rightarrow> r
      | Some js \<Rightarrow>
          (case raw_maps js of
             None \<Rightarrow> r
           | Some ms \<Rightarrow>
               (if list_ex (\<lambda>m. map_of m toolCallSignatureField \<noteq> None) ms
                then Some (JArr (map (\<lambda>(j, m). if j = JNull then JNull
                       else marshal_map (AList.delete toolCallSignatureField m)) (zip js ms)))
                else r)))"

definition strip_message :: "message \<Rightarrow> message" where
  "strip_message m = m\<lparr>m_is_error := False, m_thinking := None, m_tool_calls := strip_signatures (m_tool_calls m)\<rparr>"

definition strip_gateway_extensions :: "message list \<Rightarrow> message list" where
  "strip_gateway_extensions msgs = map strip_message msgs"

section \<open>Requests\<close>

record chat_request =
  cr_model :: bytes
  cr_messages :: "message list"
  cr_stream :: bool
  cr_temperature :: "f64 option"
  cr_top_p :: "f64 option"
  cr_max_tokens :: "int option"
  cr_max_completion_tok :: "int option"
  cr_stop :: raw
  cr_n :: "int option"
  cr_tools :: raw
  cr_tool_choice :: raw
  cr_response_format :: raw
  cr_stream_options :: raw
  cr_user :: bytes
  cr_rag_active :: bool
  cr_extra :: "(bytes \<times> json) list"

definition no_request :: chat_request where
  "no_request = \<lparr>cr_model = [], cr_messages = [], cr_stream = False, cr_temperature = None, cr_top_p = None,
     cr_max_tokens = None, cr_max_completion_tok = None, cr_stop = None, cr_n = None, cr_tools = None,
     cr_tool_choice = None, cr_response_format = None, cr_stream_options = None, cr_user = [],
     cr_rag_active = False, cr_extra = []\<rparr>"

definition known_fields :: "bytes list" where
  "known_fields = [''model'', ''messages'', ''stream'', ''temperature'', ''top_p'', ''max_tokens'',
     ''max_completion_tokens'', ''stop'', ''n'', ''tools'', ''tool_choice'', ''response_format'',
     ''stream_options'', ''user'']"

definition message_field :: "bytes \<Rightarrow> message decoder" where
  "message_field k m j =
     (if names_field k ''role'' then (let (s, e) = dec_string (m_role m) j in (m\<lparr>m_role := s\<rparr>, e))
      else if names_field k ''content'' then (m\<lparr>m_content := Some j\<rparr>, False)
      else if names_field k ''name'' then (let (s, e) = dec_string (m_name m) j in (m\<lparr>m_name := s\<rparr>, e))
      else if names_field k ''tool_calls'' then (m\<lparr>m_tool_calls := Some j\<rparr>, False)
      else if names_field k ''tool_call_id'' then
        (let (s, e) = dec_string (m_tool_call_id m) j in (m\<lparr>m_tool_call_id := s\<rparr>, e))
      else if names_field k ''ragmux_is_error'' then
        (let (b, e) = dec_bool (m_is_error m) j in (m\<lparr>m_is_error := b\<rparr>, e))
      else if names_field k ''ragmux_thinking'' then (m\<lparr>m_thinking := Some j\<rparr>, False)
      else if names_field k ''reasoning_content'' then (m\<lparr>m_reasoning_content := Some j\<rparr>, False)
      else (m, False))"

definition request_field :: "bytes \<Rightarrow> chat_request decoder" where
  "request_field k r j =
     (if names_field k ''model'' then (let (s, e) = dec_string (cr_model r) j in (r\<lparr>cr_model := s\<rparr>, e))
      else if names_field k ''messages'' then
        (let (ms, e) = dec_slice (dec_struct message_field) no_message (cr_messages r) j
         in (r\<lparr>cr_messages := ms\<rparr>, e))
      else if names_field k ''stream'' then (let (b, e) = dec_bool (cr_stream r) j in (r\<lparr>cr_stream := b\<rparr>, e))
      else if names_field k ''temperature'' then
        (let (x, e) = dec_ptr dec_float (Fin 0) (cr_temperature r) j in (r\<lparr>cr_temperature := x\<rparr>, e))
      else if names_field k ''top_p'' then
        (let (x, e) = dec_ptr dec_float (Fin 0) (cr_top_p r) j in (r\<lparr>cr_top_p := x\<rparr>, e))
      else if names_field k ''max_tokens'' then
        (let (x, e) = dec_ptr dec_int 0 (cr_max_tokens r) j in (r\<lparr>cr_max_tokens := x\<rparr>, e))
      else if names_field k ''max_completion_tokens'' then
        (let (x, e) = dec_ptr dec_int 0 (cr_max_completion_tok r) j in (r\<lparr>cr_max_completion_tok := x\<rparr>, e))
      else if names_field k ''stop'' then (r\<lparr>cr_stop := Some j\<rparr>, False)
      else if names_field k ''n'' then (let (x, e) = dec_ptr dec_int 0 (cr_n r) j in (r\<lparr>cr_n := x\<rparr>, e))
      else if names_field k ''tools'' then (r\<lparr>cr_tools := Some j\<rparr>, False)
      else if names_field k ''tool_choice'' then (r\<lparr>cr_tool_choice := Some j\<rparr>, False)
      else if names_field k ''response_format'' then (r\<lparr>cr_response_format := Some j\<rparr>, False)
      else if names_field k ''stream_options'' then (r\<lparr>cr_stream_options := Some j\<rparr>, False)
      else if names_field k ''user'' then (let (s, e) = dec_string (cr_user r) j in (r\<lparr>cr_user := s\<rparr>, e))
      else (r, False))"

definition unmarshal_request :: "json \<Rightarrow> chat_request option" where
  "unmarshal_request j =
     (case unmarshal (dec_struct request_field) no_request (Some j) of
        None \<Rightarrow> None
      | Some a \<Rightarrow>
          (case raw_map (Some j) of
             None \<Rightarrow> None
           | Some m \<Rightarrow> Some (a\<lparr>cr_extra := filter (\<lambda>(k, v). k \<notin> set known_fields) m\<rparr>)))"

text \<open>Writing: a member with \<open>omitempty\<close> is left out when it is empty.\<close>

definition opt_str :: "bytes \<Rightarrow> bytes \<Rightarrow> (bytes \<times> json) list" where
  "opt_str k s = (if s = [] then [] else [(k, JStr s)])"

definition opt_raw :: "bytes \<Rightarrow> raw \<Rightarrow> (bytes \<times> json) list" where
  "opt_raw k r = (case r of None \<Rightarrow> [] | Some j \<Rightarrow> [(k, j)])"

definition opt_true :: "bytes \<Rightarrow> bool \<Rightarrow> (bytes \<times> json) list" where
  "opt_true k b = (if b then [(k, JBool True)] else [])"

definition opt_int :: "bytes \<Rightarrow> int option \<Rightarrow> (bytes \<times> json) list" where
  "opt_int k n = (case n of None \<Rightarrow> [] | Some i \<Rightarrow> [(k, JNum (format_int i))])"

definition opt_float :: "(f64 \<Rightarrow> bytes) \<Rightarrow> bytes \<Rightarrow> f64 option \<Rightarrow> (bytes \<times> json) list" where
  "opt_float show_float k x = (case x of None \<Rightarrow> [] | Some y \<Rightarrow> [(k, JNum (show_float y))])"

definition marshal_message :: "message \<Rightarrow> json" where
  "marshal_message m = JObj
     ([(''role'', JStr (m_role m))] @ opt_raw ''content'' (m_content m) @ opt_str ''name'' (m_name m)
      @ opt_raw ''tool_calls'' (m_tool_calls m) @ opt_str ''tool_call_id'' (m_tool_call_id m)
      @ opt_true ''ragmux_is_error'' (m_is_error m) @ opt_raw ''ragmux_thinking'' (m_thinking m)
      @ opt_raw ''reasoning_content'' (m_reasoning_content m))"

definition known_members :: "(f64 \<Rightarrow> bytes) \<Rightarrow> chat_request \<Rightarrow> (bytes \<times> json) list" where
  "known_members show_float r =
     [(''model'', JStr (cr_model r)), (''messages'', JArr (map marshal_message (cr_messages r)))]
     @ opt_true ''stream'' (cr_stream r) @ opt_float show_float ''temperature'' (cr_temperature r)
     @ opt_float show_float ''top_p'' (cr_top_p r) @ opt_int ''max_tokens'' (cr_max_tokens r)
     @ opt_int ''max_completion_tokens'' (cr_max_completion_tok r) @ opt_raw ''stop'' (cr_stop r)
     @ opt_int ''n'' (cr_n r) @ opt_raw ''tools'' (cr_tools r) @ opt_raw ''tool_choice'' (cr_tool_choice r)
     @ opt_raw ''response_format'' (cr_response_format r) @ opt_raw ''stream_options'' (cr_stream_options r)
     @ opt_str ''user'' (cr_user r)"

definition marshal_request :: "(f64 \<Rightarrow> bytes) \<Rightarrow> chat_request \<Rightarrow> json" where
  "marshal_request show_float r =
     (if cr_extra r = [] then JObj (known_members show_float r)
      else marshal_map (fold (\<lambda>(k, v). AList.update k v) (cr_extra r) (obj_map (known_members show_float r))))"

section \<open>Readers of single fields\<close>

definition max_output_tokens :: "chat_request \<Rightarrow> int" where
  "max_output_tokens r =
     (case cr_max_completion_tok r of
        Some n \<Rightarrow> n
      | None \<Rightarrow> (case cr_max_tokens r of Some n \<Rightarrow> n | None \<Rightarrow> 0))"

definition include_usage_field :: "bytes \<Rightarrow> bool decoder" where
  "include_usage_field k b j = (if names_field k ''include_usage'' then dec_bool b j else (b, False))"

definition include_usage :: "chat_request \<Rightarrow> bool" where
  "include_usage r = (unmarshal (dec_struct include_usage_field) False (cr_stream_options r) = Some True)"

text \<open>A value that is not a string comes back as its JSON text, printed by \<open>show\<close>.\<close>

definition reasoning_effort :: "(json \<Rightarrow> bytes) \<Rightarrow> chat_request \<Rightarrow> bytes \<times> bool" where
  "reasoning_effort show r =
     (case map_of (cr_extra r) ''reasoning_effort'' of
        None \<Rightarrow> ([], False)
      | Some j \<Rightarrow>
          (case unmarshal dec_string [] (Some j) of
             Some s \<Rightarrow> (s, s \<noteq> [])
           | None \<Rightarrow> (let t = trim_space (show j) in if t = [] \<or> t = ''null'' then ([], False) else (t, True))))"

definition stop_sequences :: "chat_request \<Rightarrow> bytes list" where
  "stop_sequences r =
     (case unmarshal dec_string [] (cr_stop r) of
        Some s \<Rightarrow> [s]
      | None \<Rightarrow>
          (case unmarshal (dec_slice dec_string []) [] (cr_stop r) of
             Some ss \<Rightarrow> ss
           | None \<Rightarrow> []))"

section \<open>Facts\<close>

lemma map_of_fold_update: "map_of (fold (\<lambda>(k, v). AList.update k v) ms acc) = map_of acc ++ map_of (rev ms)"
proof (induction ms arbitrary: acc)
  case (Cons m ms)
  then show ?case
    by (cases m) (simp add: AList.update_conv' map_add_def fun_eq_iff split: option.split)
qed simp

lemma distinct_fold_update:
  "distinct (map fst acc) \<Longrightarrow> distinct (map fst (fold (\<lambda>(k, v). AList.update k v) ms acc))"
  by (induction ms arbitrary: acc) (auto simp: AList.distinct_update)

lemma opt_members:
  "opt_str k s = [] \<or> (\<exists>j. opt_str k s = [(k, j)])"
  "opt_raw k r = [] \<or> (\<exists>j. opt_raw k r = [(k, j)])"
  "opt_true k b = [] \<or> (\<exists>j. opt_true k b = [(k, j)])"
  "opt_int k n = [] \<or> (\<exists>j. opt_int k n = [(k, j)])"
  "opt_float f k x = [] \<or> (\<exists>j. opt_float f k x = [(k, j)])"
  by (auto simp: opt_str_def opt_raw_def opt_true_def opt_int_def opt_float_def split: option.splits)

lemma opt_keys:
  "map fst (opt_str k s) = (if s \<noteq> [] then [k] else [])"
  "map fst (opt_raw k r) = (if r \<noteq> None then [k] else [])"
  "map fst (opt_true k b) = (if b then [k] else [])"
  "map fst (opt_int k n) = (if n \<noteq> None then [k] else [])"
  "map fst (opt_float f k x) = (if x \<noteq> None then [k] else [])"
  by (auto simp: opt_str_def opt_raw_def opt_true_def opt_int_def opt_float_def split: option.splits)

lemma distinct_known_fields: "distinct known_fields"
  by code_simp

lemma kept_Cons:
  "map fst (filter snd (zip (k # ks) (b # bs))) = (if b then [k] else []) @ map fst (filter snd (zip ks bs))"
  by simp

lemma known_members_keys:
  "map fst (known_members f r) = map fst (filter snd (zip known_fields
     [True, True, cr_stream r, cr_temperature r \<noteq> None, cr_top_p r \<noteq> None, cr_max_tokens r \<noteq> None,
      cr_max_completion_tok r \<noteq> None, cr_stop r \<noteq> None, cr_n r \<noteq> None, cr_tools r \<noteq> None,
      cr_tool_choice r \<noteq> None, cr_response_format r \<noteq> None, cr_stream_options r \<noteq> None, cr_user r \<noteq> []]))"
  unfolding known_members_def known_fields_def kept_Cons map_append opt_keys
  by (simp only: list.map fst_conv zip_Nil filter.simps append.simps append_assoc if_True append_Nil2)

lemma filter_zip_distinct: "distinct ks \<Longrightarrow> distinct (map fst (filter snd (zip ks bs)))"
proof (induction ks arbitrary: bs)
  case (Cons k ks)
  then show ?case by (cases bs) (auto dest: set_zip_leftD)
qed simp

lemma known_members_distinct: "distinct (map fst (known_members f r))"
  unfolding known_members_keys by (rule filter_zip_distinct [OF distinct_known_fields])

lemma known_members_known: "fst ` set (known_members f r) \<subseteq> set known_fields"
proof -
  have "set (map fst (known_members f r)) \<subseteq> set known_fields"
    unfolding known_members_keys by (auto dest: set_zip_leftD)
  then show ?thesis by simp
qed

text \<open>
  A request is in order when its extra members are distinct and none is a known one; so
  reads every request the gateway accepts.
\<close>

definition extra_ok :: "chat_request \<Rightarrow> bool" where
  "extra_ok r \<longleftrightarrow> distinct (map fst (cr_extra r)) \<and> fst ` set (cr_extra r) \<inter> set known_fields = {}"

lemma unmarshal_request_extra_ok: "unmarshal_request j = Some r \<Longrightarrow> extra_ok r"
proof -
  assume "unmarshal_request j = Some r"
  then obtain a m where m: "raw_map (Some j) = Some m"
    and r: "r = a\<lparr>cr_extra := filter (\<lambda>(k, v). k \<notin> set known_fields) m\<rparr>"
    by (auto simp: unmarshal_request_def split: option.splits)
  from m have "distinct (map fst m)"
    by (auto simp: raw_map_def distinct_obj_map split: json.splits)
  then have "distinct (map fst (filter (\<lambda>(k, v). k \<notin> set known_fields) m))"
    by (rule distinct_map_filter)
  then show ?thesis by (auto simp: extra_ok_def r)
qed

text \<open>What an upstream that reads member names exactly finds in the request that is sent.\<close>

definition sent_member :: "json \<Rightarrow> bytes \<Rightarrow> json option" where
  "sent_member j k = (case j of JObj ms \<Rightarrow> map_of (rev ms) k | _ \<Rightarrow> None)"

lemma map_of_rev_distinct: "distinct (map fst ms) \<Longrightarrow> map_of (rev ms) = map_of ms"
  by (intro map_of_inject_set [THEN iffD2]) (simp_all add: rev_map [symmetric])

lemma sent_member_marshal:
  assumes "extra_ok r"
  shows "sent_member (marshal_request f r) k =
    (case map_of (cr_extra r) k of Some v \<Rightarrow> Some v | None \<Rightarrow> map_of (known_members f r) k)"
proof (cases "cr_extra r = []")
  case True
  then show ?thesis
    by (simp add: marshal_request_def sent_member_def map_of_rev_distinct known_members_distinct)
next
  case False
  let ?m = "fold (\<lambda>(k, v). AList.update k v) (cr_extra r) (obj_map (known_members f r))"
  have d: "distinct (map fst ?m)" by (intro distinct_fold_update distinct_obj_map)
  from distinct_sort_key [OF d] have "sent_member (marshal_request f r) k = map_of (sort_key fst ?m) k"
    using False by (simp add: marshal_request_def marshal_map_def sent_member_def map_of_rev_distinct)
  also have "\<dots> = map_of ?m k" by (simp add: map_of_sort_key_fst [OF d])
  also have "\<dots> = (map_of (known_members f r) ++ map_of (cr_extra r)) k"
    using assms by (simp add: map_of_fold_update map_of_obj_map map_of_rev_distinct known_members_distinct extra_ok_def)
  finally show ?thesis by (simp add: map_add_def)
qed

end
