(* ===== verification/Tools.thy ===== *)
theory Tools
  imports Chat Glob Types Usage
begin

text \<open>
  Tool governance (\<open>internal/gateway/tools.go\<close>, ADR-032): what a project's allow and deny
  lists do to the tools and the tool choice of a chat request, the warning texts that
  earns, and the names of the tools a model called, as the request row keeps them
  (\<open>internal/store/sessions.go\<close>).
\<close>

section \<open>The policy\<close>

record tool_policy =
  tp_allow :: "bytes list"
  tp_deny :: "bytes list"

definition policy_of :: "project \<Rightarrow> tool_policy" where
  "policy_of p = \<lparr>tp_allow = p_tool_allow p, tp_deny = p_tool_deny p\<rparr>"

definition policy_empty :: "tool_policy \<Rightarrow> bool" where
  "policy_empty p \<longleftrightarrow> tp_allow p = [] \<and> tp_deny p = []"

fun any_match :: "bytes list \<Rightarrow> bytes \<Rightarrow> bool" where
  "any_match [] name = False"
| "any_match (pat # pats) name = (if glob_match pat name then True else any_match pats name)"

definition permits :: "tool_policy \<Rightarrow> bytes \<Rightarrow> bool" where
  "permits p name =
     (if any_match (tp_deny p) name then False
      else if tp_allow p = [] then True
      else any_match (tp_allow p) name)"

section \<open>Names of tools\<close>

record tool_shape =
  ts_type :: bytes
  ts_name :: bytes
  ts_function :: bytes
  ts_custom :: bytes

definition no_shape :: tool_shape where
  "no_shape = \<lparr>ts_type = [], ts_name = [], ts_function = [], ts_custom = []\<rparr>"

definition name_field :: "bytes \<Rightarrow> bytes decoder" where
  "name_field k s j = (if names_field k ''name'' then dec_string s j else (s, False))"

definition shape_field :: "bytes \<Rightarrow> tool_shape decoder" where
  "shape_field k t j =
     (if names_field k ''type'' then (let (s, e) = dec_string (ts_type t) j in (t\<lparr>ts_type := s\<rparr>, e))
      else if names_field k ''name'' then (let (s, e) = dec_string (ts_name t) j in (t\<lparr>ts_name := s\<rparr>, e))
      else if names_field k ''function'' then
        (let (s, e) = dec_struct name_field (ts_function t) j in (t\<lparr>ts_function := s\<rparr>, e))
      else if names_field k ''custom'' then
        (let (s, e) = dec_struct name_field (ts_custom t) j in (t\<lparr>ts_custom := s\<rparr>, e))
      else (t, False))"

definition tool_name :: "json \<Rightarrow> bytes" where
  "tool_name j =
     (case unmarshal (dec_struct shape_field) no_shape (Some j) of
        None \<Rightarrow> []
      | Some t \<Rightarrow>
          (if ts_function t \<noteq> [] then ts_function t
           else if ts_custom t \<noteq> [] then ts_custom t
           else if ts_name t \<noteq> [] then ts_name t
           else if ts_type t = ''function'' \<or> ts_type t = ''custom'' then []
           else ts_type t))"

section \<open>The tool choice\<close>

datatype choice_kind = ChoiceAuto | ChoiceNone | ChoiceRequired | ChoiceNamed bytes

definition tool_choice_of :: "raw \<Rightarrow> choice_kind" where
  "tool_choice_of r =
     (if r = None \<or> r = Some JNull then ChoiceAuto
      else case unmarshal dec_string [] r of
        Some s \<Rightarrow>
          (if s = ''none'' then ChoiceNone
           else if s = ''required'' then ChoiceRequired
           else ChoiceAuto)
      | None \<Rightarrow>
          (case unmarshal (dec_struct shape_field) no_shape r of
             None \<Rightarrow> ChoiceAuto
           | Some t \<Rightarrow>
               (if ts_type t = ''none'' then ChoiceNone
                else if ts_type t = ''any'' \<or> ts_type t = ''required'' then ChoiceRequired
                else if ts_type t = ''function'' then ChoiceNamed (ts_function t)
                else if ts_type t = ''custom'' then ChoiceNamed (ts_custom t)
                else if ts_type t = ''tool'' then ChoiceNamed (ts_name t)
                else ChoiceAuto)))"

text \<open>
  The allowed-tools form of a choice: its mode (required or not), how many entries the
  policy takes away and leaves, and the value to send when it takes any.
\<close>

record narrowed =
  nw_choice :: json
  nw_required :: bool
  nw_removed :: nat
  nw_left :: nat

definition narrow_allowed_tools :: "tool_policy \<Rightarrow> raw \<Rightarrow> narrowed option" where
  "narrow_allowed_tools p r =
     (case raw_map r of
        None \<Rightarrow> None
      | Some outer \<Rightarrow>
     (if unmarshal dec_string [] (map_of outer ''type'') \<noteq> Some ''allowed_tools'' then None
      else case raw_map (map_of outer ''allowed_tools'') of
        None \<Rightarrow> None
      | Some inner \<Rightarrow>
     (case raw_list (map_of inner ''tools'') of
        None \<Rightarrow> None
      | Some entries \<Rightarrow>
          (let required = (unmarshal dec_string [] (map_of inner ''mode'') = Some ''required'');
               kept = filter (\<lambda>e. permits p (tool_name e)) entries;
               removed = length entries - length kept
           in Some \<lparr>nw_choice = (if removed = 0 then the r
                      else marshal_map (AList.update ''allowed_tools''
                        (marshal_map (AList.update ''tools'' (JArr kept) inner)) outer)),
                    nw_required = required, nw_removed = removed, nw_left = length kept\<rparr>))))"

section \<open>Warnings\<close>

definition maxToolNameBytes :: nat where "maxToolNameBytes = 64"
definition maxToolNames :: nat where "maxToolNames = 32"
definition maxWarnedTools :: nat where "maxWarnedTools = 5"
definition maxCollectedTools :: nat where "maxCollectedTools = 4 * maxToolNames"

definition safe_tool_char :: "char \<Rightarrow> bool" where
  "safe_tool_char c \<longleftrightarrow>
     (let n = of_char c :: nat in
      (65 \<le> n \<and> n \<le> 90) \<or> (97 \<le> n \<and> n \<le> 122) \<or> (48 \<le> n \<and> n \<le> 57)) \<or> c \<in> set ''_.:-''"

definition safe_tool_name :: "bytes \<Rightarrow> bool" where
  "safe_tool_name s \<longleftrightarrow> s \<noteq> [] \<and> length s \<le> 64 \<and> list_all safe_tool_char s"

fun warned_names :: "bytes list \<Rightarrow> bytes list \<Rightarrow> bytes list" where
  "warned_names [] named = named"
| "warned_names (n # ns) named =
     warned_names ns (if safe_tool_name n \<and> length named < maxWarnedTools then named @ [n] else named)"

definition tool_warning :: "bytes list \<Rightarrow> bool \<Rightarrow> bytes" where
  "tool_warning denied none_left =
     (let named = warned_names denied [];
          text = format_int (int (length denied)) @ '' tool(s) removed by this project's tool policy'';
          text = (if named \<noteq> [] then text @ '': '' @ join '', '' named
                    @ (if length named < length denied then '', ...'' else []) else text)
      in (if none_left then text @ ''; no tool is left, so tools and tool_choice were dropped'' else text))"

definition cut_name :: "bytes \<Rightarrow> bytes" where
  "cut_name s = cut_bytes s maxToolNameBytes"

definition bounded_names :: "bytes list \<Rightarrow> bytes list" where
  "bounded_names names = map cut_name (take maxToolNames names)"

section \<open>Governance\<close>

text \<open>The refusals, with the name the first one quotes.\<close>

datatype tool_error =
    NamedToolNotAllowed bytes
  | NoAllowedToolLeft
  | ToolsNotArray
  | RequiredToolMissing

definition tool_error_code :: "tool_error \<Rightarrow> bytes" where
  "tool_error_code e = (case e of ToolsNotArray \<Rightarrow> [] | _ \<Rightarrow> ''tool_not_allowed'')"

record tool_verdict =
  tv_denied :: "bytes list"
  tv_warnings :: "bytes list"

definition no_verdict :: tool_verdict where "no_verdict = \<lparr>tv_denied = [], tv_warnings = []\<rparr>"

text \<open>
  What the allowed-tools form makes of the choice: the value to send if it changed, whether
  it demands a tool, and the warning.
\<close>

definition allowed_warning :: "nat \<Rightarrow> bytes" where
  "allowed_warning n = format_int (int n) @ '' tool(s) removed from allowed_tools by this project's tool policy''"

definition reconcile_choice ::
  "tool_policy \<Rightarrow> raw \<Rightarrow> choice_kind \<Rightarrow> tool_error + (json option \<times> choice_kind \<times> bytes list)" where
  "reconcile_choice p choice kind =
     (case narrow_allowed_tools p choice of
        None \<Rightarrow> Inr (None, kind, [])
      | Some n \<Rightarrow>
          (let kind = (if nw_required n then ChoiceRequired else kind);
               warn = (if nw_removed n > 0 then [allowed_warning (nw_removed n)] else []) in
           if nw_removed n > 0 \<and> nw_left n = 0 \<and> nw_required n then Inl NoAllowedToolLeft
           else if nw_removed n > 0 \<and> nw_left n = 0 then Inr (Some (JStr ''none''), kind, warn)
           else if nw_removed n > 0 then Inr (Some (nw_choice n), kind, warn)
           else Inr (None, kind, warn)))"

definition with_choice :: "json option \<Rightarrow> chat_request \<Rightarrow> chat_request" where
  "with_choice c req = (case c of None \<Rightarrow> req | Some j \<Rightarrow> req\<lparr>cr_tool_choice := Some j\<rparr>)"

definition govern_tools ::
  "tool_policy \<Rightarrow> chat_request \<Rightarrow> tool_error + (tool_verdict \<times> chat_request)" where
  "govern_tools p req =
     (if policy_empty p then Inr (no_verdict, req)
      else
        (let kind = tool_choice_of (cr_tool_choice req) in
         if (case kind of ChoiceNamed name \<Rightarrow> \<not> permits p name | _ \<Rightarrow> False)
         then Inl (NamedToolNotAllowed (case kind of ChoiceNamed name \<Rightarrow> cut_name name | _ \<Rightarrow> []))
         else
           (case reconcile_choice p (cr_tool_choice req) kind of
              Inl e \<Rightarrow> Inl e
            | Inr (choice, kind, warn) \<Rightarrow>
                (if cr_tools req = None \<or> cr_tools req = Some JNull then
                   Inr (no_verdict\<lparr>tv_warnings := warn\<rparr>,
                     (if choice = Some (JStr ''none'') then req\<lparr>cr_tool_choice := None\<rparr>
                      else with_choice choice req))
                 else
                   (case raw_list (cr_tools req) of
                      None \<Rightarrow> Inl ToolsNotArray
                    | Some tools \<Rightarrow>
                        (let denied = filter (\<lambda>name. \<not> permits p name) (map tool_name tools);
                             kept = filter (\<lambda>t. permits p (tool_name t)) tools in
                         if denied = [] then
                           Inr (no_verdict\<lparr>tv_warnings := warn\<rparr>, with_choice choice req)
                         else if kept = [] then
                           (case kind of
                              ChoiceRequired \<Rightarrow> Inl RequiredToolMissing
                            | ChoiceNamed _ \<Rightarrow> Inl RequiredToolMissing
                            | _ \<Rightarrow> Inr (\<lparr>tv_denied = denied, tv_warnings = [tool_warning denied True]\<rparr>,
                                     req\<lparr>cr_tools := None, cr_tool_choice := None,
                                         cr_extra := AList.delete ''parallel_tool_calls'' (cr_extra req)\<rparr>))
                         else
                           Inr (\<lparr>tv_denied = denied, tv_warnings = tool_warning denied False # warn\<rparr>,
                             with_choice choice (req\<lparr>cr_tools := Some (JArr kept)\<rparr>))))))))"

section \<open>The tools a model called\<close>

definition call_field :: "bytes \<Rightarrow> bytes decoder" where
  "call_field k s j = (if names_field k ''function'' then dec_struct name_field s j else (s, False))"

fun add_called :: "bytes list \<Rightarrow> bytes list \<Rightarrow> bytes list" where
  "add_called seen [] = seen"
| "add_called seen (name # names) =
     (if name = [] then add_called seen names
      else if length seen \<ge> maxCollectedTools then seen
      else add_called (List.insert (cut_name name) seen) names)"

definition collect_tool_names :: "bytes list \<Rightarrow> raw \<Rightarrow> bytes list" where
  "collect_tool_names seen r =
     (case unmarshal (dec_slice (dec_struct call_field) []) [] r of
        None \<Rightarrow> seen
      | Some names \<Rightarrow> add_called seen names)"

definition collected_names :: "bytes list \<Rightarrow> bytes list" where
  "collected_names seen = sort seen"

definition clamp_tool_names :: "bytes list \<Rightarrow> bytes list" where
  "clamp_tool_names names =
     take maxToolNames (sort (remdups (filter (\<lambda>n. n \<noteq> [])
       (map (\<lambda>n. cut_bytes (filter (\<lambda>c. c \<noteq> CHR 0x00) n) maxToolNameBytes) names))))"

section \<open>What the policy permits\<close>

lemma any_match_iff: "any_match pats name \<longleftrightarrow> (\<exists>pat \<in> set pats. glob_match pat name)"
  by (induction pats) auto

lemma permits_iff:
  "permits p name \<longleftrightarrow> (\<forall>pat \<in> set (tp_deny p). \<not> glob_match pat name)
     \<and> (tp_allow p = [] \<or> (\<exists>pat \<in> set (tp_allow p). glob_match pat name))"
  by (auto simp: permits_def any_match_iff)

lemma permits_empty: "policy_empty p \<Longrightarrow> permits p name"
  by (simp add: policy_empty_def permits_def)

section \<open>Reading back what was narrowed\<close>

lemma raw_map_marshal_map:
  assumes "distinct (map fst m)"
  shows "\<exists>m'. raw_map (Some (marshal_map m)) = Some m' \<and> map_of m' = map_of m"
  using map_of_marshal_map [OF assms] by (simp add: raw_map_def marshal_map_def)

lemma raw_map_distinct: "raw_map r = Some m \<Longrightarrow> distinct (map fst m)"
  by (auto simp: raw_map_def distinct_obj_map split: option.splits json.splits)

lemma removed_zero: "length es - length (filter P es) = 0 \<longleftrightarrow> filter P es = es"
proof
  assume "length es - length (filter P es) = 0"
  then have "length (filter P es) = length es" using length_filter_le [of P es] by linarith
  then show "filter P es = es" by (metis filter_True length_filter_less less_irrefl)
qed simp

lemma narrow_again:
  assumes "narrow_allowed_tools p r = Some n" "nw_removed n > 0"
  shows "\<exists>n'. narrow_allowed_tools p (Some (nw_choice n)) = Some n' \<and> nw_removed n' = 0"
    and "raw_map (Some (nw_choice n)) \<noteq> None"
    and "nw_choice n \<noteq> JNull" "nw_choice n \<noteq> JStr s"
proof -
  from assms obtain outer inner entries where outer: "raw_map r = Some outer"
    and ty: "unmarshal dec_string [] (map_of outer ''type'') = Some ''allowed_tools''"
    and inner: "raw_map (map_of outer ''allowed_tools'') = Some inner"
    and entries: "raw_list (map_of inner ''tools'') = Some entries"
    and n: "nw_choice n = marshal_map (AList.update ''allowed_tools''
        (marshal_map (AList.update ''tools'' (JArr (filter (\<lambda>e. permits p (tool_name e)) entries)) inner)) outer)"
    by (auto simp: narrow_allowed_tools_def Let_def split: option.splits if_splits)
  let ?kept = "filter (\<lambda>e. permits p (tool_name e)) entries"
  let ?inner = "AList.update ''tools'' (JArr ?kept) inner"
  let ?outer = "AList.update ''allowed_tools'' (marshal_map ?inner) outer"
  have "distinct (map fst ?inner)" "distinct (map fst ?outer)"
    using raw_map_distinct [OF outer] raw_map_distinct [OF inner] by (simp_all add: AList.distinct_update)
  then obtain i' o' where i': "raw_map (Some (marshal_map ?inner)) = Some i'" "map_of i' = map_of ?inner"
    and o': "raw_map (Some (marshal_map ?outer)) = Some o'" "map_of o' = map_of ?outer"
    using raw_map_marshal_map by blast
  have t: "map_of o' ''type'' = map_of outer ''type''" "map_of o' ''allowed_tools'' = Some (marshal_map ?inner)"
    by (simp_all add: o'(2) AList.update_conv')
  have "map_of i' ''tools'' = Some (JArr ?kept)" by (simp add: i'(2) AList.update_conv')
  then have "raw_list (map_of i' ''tools'') = Some ?kept" by (simp add: raw_list_def)
  with t i'(1) o'(1) ty show "\<exists>n'. narrow_allowed_tools p (Some (nw_choice n)) = Some n' \<and> nw_removed n' = 0"
    by (simp add: narrow_allowed_tools_def n Let_def)
  show "raw_map (Some (nw_choice n)) \<noteq> None" using o'(1) by (simp add: n)
  show "nw_choice n \<noteq> JNull" "nw_choice n \<noteq> JStr s" by (simp_all add: n marshal_map_def)
qed

text \<open>The choice that stays names no forbidden tool and keeps no forbidden entry.\<close>

definition choice_ok :: "tool_policy \<Rightarrow> raw \<Rightarrow> bool" where
  "choice_ok p r \<longleftrightarrow>
     (case tool_choice_of r of ChoiceNamed name \<Rightarrow> permits p name | _ \<Rightarrow> True) \<and>
     (case narrow_allowed_tools p r of Some n \<Rightarrow> nw_removed n = 0 | None \<Rightarrow> True)"

section \<open>The narrowed choice is read as an allowed-tools choice\<close>

text \<open>
  Among the names that differ from \<open>type\<close> in case only, \<open>type\<close> itself sorts last, so in a
  marshalled map it is the one a case-insensitive reader keeps.
\<close>

lemma ascii_upper_bound:
  assumes "ascii_upper c = d"
  shows "(of_char c :: nat) \<le> of_char d + 32"
  using ascii_upper_le [of c] assms by simp

lemma fold_type_le:
  assumes "names_field k ''type''"
  shows "k \<le> ''type''"
proof -
  have ty: "fold_name ''type'' = ''TYPE''" by code_simp
  have "fold_name k = map ascii_upper k"
    by (rule fold_name_map) (use assms in \<open>simp_all add: names_field_def ty\<close>)
  with assms have "map ascii_upper k = ''TYPE''" by (simp add: names_field_def ty)
  then obtain a b c d where k: "k = [a, b, c, d]"
    and u: "ascii_upper a = CHR ''T''" "ascii_upper b = CHR ''Y''" "ascii_upper c = CHR ''P''" "ascii_upper d = CHR ''E''"
    by (auto simp: map_eq_Cons_conv)
  from u have "a \<le> CHR ''t''" "b \<le> CHR ''y''" "c \<le> CHR ''p''" "d \<le> CHR ''e''"
    using u [THEN ascii_upper_bound] by (simp_all add: less_eq_char_def)
  then show ?thesis by (auto simp: k Cons_le_Cons)
qed

lemma shape_field_type:
  "ts_type (fst (shape_field k t j)) = (if names_field k ''type'' then fst (dec_string (ts_type t) j) else ts_type t)"
  by (simp add: shape_field_def split: prod.split)

lemma dec_members_type:
  assumes "sorted (map fst ms)" "distinct (map fst ms)" "map_of ms ''type'' = Some (JStr s)"
  shows "ts_type (fst (dec_members shape_field t ms)) = s"
  using assms
proof (induction ms arbitrary: t)
  case (Cons m ms)
  obtain k v where m: "m = (k, v)" by (cases m)
  show ?case
  proof (cases "k = ''type''")
    case True
    have keep: "ts_type (fst (dec_members shape_field t' ms)) = ts_type t'" if "\<forall>k' \<in> fst ` set ms. \<not> names_field k' ''type''" for t' ms
      using that
    proof (induction ms arbitrary: t')
      case (Cons x xs)
      then show ?case by (cases x) (simp add: shape_field_type del: dec_members.simps)
    qed simp
    have "\<not> names_field k' ''type''" if "k' \<in> fst ` set ms" for k'
    proof
      assume "names_field k' ''type''"
      then have "k' \<le> ''type''" by (rule fold_type_le)
      moreover have "''type'' \<le> k'" "k' \<noteq> ''type''" using Cons.prems that by (auto simp: m True image_iff)
      ultimately show False by simp
    qed
    then show ?thesis using Cons.prems(3)
      by (simp add: m True keep shape_field_type del: dec_members.simps)
  next
    case False
    with Cons show ?thesis by (simp add: m del: dec_members.simps)
  qed
qed simp

lemma narrowed_kind:
  assumes "narrow_allowed_tools p r = Some n" "nw_removed n > 0"
  shows "tool_choice_of (Some (nw_choice n)) = ChoiceAuto"
proof -
  from assms obtain outer j where outer: "raw_map r = Some outer"
    and ty: "unmarshal dec_string [] (map_of outer ''type'') = Some ''allowed_tools''"
    and n: "nw_choice n = marshal_map (AList.update ''allowed_tools'' j outer)"
    by (auto simp: narrow_allowed_tools_def Let_def split: option.splits if_splits)
  let ?m = "AList.update ''allowed_tools'' j outer"
  have d: "distinct (map fst ?m)" using raw_map_distinct [OF outer] by (simp add: AList.distinct_update)
  have sorted: "sorted (map fst (sort_key fst ?m))" "distinct (map fst (sort_key fst ?m))"
    using distinct_sort_key [OF d] by simp_all
  from ty have "map_of outer ''type'' = Some (JStr ''allowed_tools'')"
    by (auto simp: unmarshal_def split: option.splits prod.splits if_splits elim!: dec_string.elims)
  then have "map_of (sort_key fst ?m) ''type'' = Some (JStr ''allowed_tools'')"
    by (simp add: map_of_sort_key_fst [OF d] AList.update_conv')
  from dec_members_type [OF sorted this, of no_shape]
  have "unmarshal (dec_struct shape_field) no_shape (Some (nw_choice n)) = Some t \<Longrightarrow> ts_type t = ''allowed_tools''" for t
    by (auto simp: unmarshal_def dec_struct_def n marshal_map_def split: prod.splits if_splits)
  moreover have "unmarshal dec_string [] (Some (nw_choice n)) = None"
    by (simp add: unmarshal_def n marshal_map_def)
  ultimately show ?thesis by (simp add: tool_choice_of_def n marshal_map_def split: option.split)
qed

section \<open>Governance, case by case\<close>

lemma raw_list_None: "raw_list None = None"
  by (simp add: raw_list_def)

lemma choice_ok_absent: "choice_ok p None"
  by (simp add: choice_ok_def tool_choice_of_def narrow_allowed_tools_def raw_map_def)

lemma choice_ok_none: "choice_ok p (Some (JStr ''none''))"
  by (simp add: choice_ok_def tool_choice_of_def narrow_allowed_tools_def raw_map_def unmarshal_def)

lemma reconcile_choice_ok:
  assumes "reconcile_choice p r kind = Inr (c, kind', warn)" and kind: "kind = tool_choice_of r"
    and named: "case kind of ChoiceNamed name \<Rightarrow> permits p name | _ \<Rightarrow> True"
  shows "choice_ok p (case c of None \<Rightarrow> r | Some j \<Rightarrow> Some j)"
proof (cases c)
  case None
  with assms show ?thesis
    by (auto simp: reconcile_choice_def choice_ok_def Let_def split: option.splits if_splits)
next
  case (Some j)
  from assms(1) obtain n where n: "narrow_allowed_tools p r = Some n"
    by (auto simp: reconcile_choice_def Some split: option.splits)
  with assms(1) consider "j = JStr ''none''" | "j = nw_choice n" "nw_removed n > 0"
    by (auto simp: reconcile_choice_def Some Let_def split: if_splits)
  then show ?thesis
  proof cases
    case 1
    then show ?thesis by (simp add: Some choice_ok_none)
  next
    case 2
    from narrow_again(1) [OF n 2(2)] narrowed_kind [OF n 2(2)]
    show ?thesis by (auto simp: Some 2(1) choice_ok_def)
  qed
qed

text \<open>The three ways a request leaves: no tools to look at, all of them denied, some kept.\<close>

lemma govern_tools_cases:
  assumes "govern_tools p req = Inr (v, req')" "\<not> policy_empty p"
  obtains
    (untouched) c where "cr_tools req = None \<or> cr_tools req = Some JNull
        \<or> (\<exists>ts. raw_list (cr_tools req) = Some ts \<and> list_all (\<lambda>t. permits p (tool_name t)) ts)"
      "tv_denied v = []" "req' = req\<lparr>cr_tool_choice := c\<rparr>" "choice_ok p c"
  | (emptied) ts where "raw_list (cr_tools req) = Some ts" "list_all (\<lambda>t. \<not> permits p (tool_name t)) ts"
      "ts \<noteq> []" "tv_denied v = map tool_name ts"
      "req' = req\<lparr>cr_tools := None, cr_tool_choice := None,
          cr_extra := AList.delete ''parallel_tool_calls'' (cr_extra req)\<rparr>"
  | (stripped) ts c where "raw_list (cr_tools req) = Some ts"
      "filter (\<lambda>t. permits p (tool_name t)) ts \<noteq> []"
      "tv_denied v = filter (\<lambda>name. \<not> permits p name) (map tool_name ts)"
      "req' = req\<lparr>cr_tools := Some (JArr (filter (\<lambda>t. permits p (tool_name t)) ts)), cr_tool_choice := c\<rparr>"
      "choice_ok p c"
proof -
  let ?kind = "tool_choice_of (cr_tool_choice req)"
  from assms have named: "case ?kind of ChoiceNamed name \<Rightarrow> permits p name | _ \<Rightarrow> True"
    by (auto simp: govern_tools_def Let_def split: choice_kind.splits if_splits)
  then have nn: "\<not> (case ?kind of ChoiceNamed name \<Rightarrow> \<not> permits p name | _ \<Rightarrow> False)"
    by (simp split: choice_kind.splits)
  from assms nn obtain c kind warn where rc: "reconcile_choice p (cr_tool_choice req) ?kind = Inr (c, kind, warn)"
    by (auto simp: govern_tools_def Let_def split: sum.splits)
  let ?c = "case c of None \<Rightarrow> cr_tool_choice req | Some j \<Rightarrow> Some j"
  have ok: "choice_ok p ?c" by (rule reconcile_choice_ok [OF rc refl named])
  have wc: "with_choice c r = r\<lparr>cr_tool_choice := ?c\<rparr>" if "cr_tool_choice r = cr_tool_choice req" for r :: chat_request
    using that by (cases c) (simp_all add: with_choice_def)
  note gov = assms(1) [unfolded govern_tools_def Let_def, simplified assms(2) nn rc, simplified]
  show ?thesis
  proof (cases "cr_tools req = None \<or> cr_tools req = Some JNull")
    case True
    with gov have v: "tv_denied v = []" and r: "req' = (if c = Some (JStr ''none'') then req\<lparr>cr_tool_choice := None\<rparr>
        else with_choice c req)"
      by (auto simp: no_verdict_def split: if_splits)
    show ?thesis
    proof (cases "c = Some (JStr ''none'')")
      case True
      with r \<open>cr_tools req = None \<or> _\<close> v show ?thesis by (auto intro: untouched choice_ok_absent)
    next
      case False
      with r wc ok \<open>cr_tools req = None \<or> _\<close> v show ?thesis by (auto intro: untouched)
    qed
  next
    case False
    with gov obtain ts where ts: "raw_list (cr_tools req) = Some ts" by (auto split: option.splits)
    let ?denied = "filter (\<lambda>name. \<not> permits p name) (map tool_name ts)"
    let ?kept = "filter (\<lambda>t. permits p (tool_name t)) ts"
    consider (none) "?denied = []" | (all) "?denied \<noteq> []" "?kept = []" | (some) "?denied \<noteq> []" "?kept \<noteq> []" by blast
    then show ?thesis
    proof cases
      case none
      then have "list_all (\<lambda>t. permits p (tool_name t)) ts" by (auto simp: filter_empty_conv list_all_iff)
      moreover have "tv_denied v = []" "req' = req\<lparr>cr_tool_choice := ?c\<rparr>"
        using gov False ts none wc by (auto simp: no_verdict_def)
      ultimately show ?thesis using ts ok by (auto intro: untouched)
    next
      case all
      then have l: "list_all (\<lambda>t. \<not> permits p (tool_name t)) ts" "ts \<noteq> []" by (auto simp: filter_empty_conv list_all_iff)
      then have "?denied = map tool_name ts" by (auto simp: list_all_iff filter_True)
      then have "tv_denied v = map tool_name ts" "req' = req\<lparr>cr_tools := None, cr_tool_choice := None,
          cr_extra := AList.delete ''parallel_tool_calls'' (cr_extra req)\<rparr>"
        using gov False ts all by (auto split: choice_kind.splits)
      with ts l show ?thesis by (intro emptied)
    next
      case some
      have "tv_denied v = ?denied" "req' = req\<lparr>cr_tools := Some (JArr ?kept), cr_tool_choice := ?c\<rparr>"
        using gov False ts some wc [of "req\<lparr>cr_tools := Some (JArr ?kept)\<rparr>"] by auto
      with ts some ok show ?thesis by (intro stripped)
    qed
  qed
qed

section \<open>Properties\<close>

text \<open>The tools of a request, as a list; none when there are none to look at.\<close>

definition tools_of :: "chat_request \<Rightarrow> json list" where
  "tools_of req = (case raw_list (cr_tools req) of Some ts \<Rightarrow> ts | None \<Rightarrow> [])"

lemma tools_of_simps [simp]:
  "cr_tools req = None \<Longrightarrow> tools_of req = []"
  "cr_tools req = Some JNull \<Longrightarrow> tools_of req = []"
  "cr_tools req = Some (JArr ts) \<Longrightarrow> tools_of req = ts"
  by (simp_all add: tools_of_def raw_list_def)

lemma choice_ok_empty: "policy_empty p \<Longrightarrow> choice_ok p c"
  by (auto simp: choice_ok_def permits_empty narrow_allowed_tools_def Let_def
      split: choice_kind.splits option.splits if_splits)

text \<open>A request in order is left as it is.\<close>

lemma govern_tools_fixed:
  assumes c: "choice_ok p (cr_tool_choice req)"
    and t: "cr_tools req = None \<or> cr_tools req = Some JNull
      \<or> (\<exists>ts. raw_list (cr_tools req) = Some ts \<and> list_all (\<lambda>t. permits p (tool_name t)) ts)"
  shows "govern_tools p req = Inr (no_verdict, req)"
proof (cases "policy_empty p")
  case False
  let ?kind = "tool_choice_of (cr_tool_choice req)"
  have nn: "\<not> (case ?kind of ChoiceNamed name \<Rightarrow> \<not> permits p name | _ \<Rightarrow> False)"
    using c by (auto simp: choice_ok_def split: choice_kind.splits)
  obtain kind where rc: "reconcile_choice p (cr_tool_choice req) ?kind = Inr (None, kind, [])"
    using c by (auto simp: choice_ok_def reconcile_choice_def Let_def split: option.splits)
  have w: "no_verdict\<lparr>tv_warnings := []\<rparr> = no_verdict" "with_choice None req = req"
    by (simp_all add: no_verdict_def with_choice_def)
  show ?thesis
  proof (cases "cr_tools req = None \<or> cr_tools req = Some JNull")
    case True
    with False nn rc w show ?thesis by (auto simp: govern_tools_def Let_def)
  next
    case False
    with t obtain ts where ts: "raw_list (cr_tools req) = Some ts" "list_all (\<lambda>t. permits p (tool_name t)) ts"
      by blast
    then have "filter (\<lambda>name. \<not> permits p name) (map tool_name ts) = []"
      by (auto simp: filter_empty_conv list_all_iff)
    with ts(1) False \<open>\<not> policy_empty p\<close> nn rc w show ?thesis by (auto simp: govern_tools_def Let_def)
  qed
qed (simp add: govern_tools_def)

text \<open>The inputs of the examples.\<close>

definition no_shell :: tool_policy where
  "no_shell = \<lparr>tp_allow = [], tp_deny = [''shell'']\<rparr>"

definition function_tool :: "bytes \<Rightarrow> json" where
  "function_tool name = JObj [(''type'', JStr ''function''), (''function'', JObj [(''name'', JStr name)])]"

definition shell_request :: chat_request where
  "shell_request = no_request\<lparr>cr_tools := Some (JArr [function_tool ''shell'', function_tool ''read''])\<rparr>"

definition upper_tools_body :: json where
  "upper_tools_body = JObj [(''messages'', JArr [JObj []]), (''Tools'', JArr [function_tool ''shell''])]"

definition custom_shell :: json where
  "custom_shell = JObj [(''type'', JStr ''custom''), (''custom'', JObj [(''name'', JStr ''shell'')]),
     (''function'', JObj [(''name'', JStr ''read'')])]"

definition twice_named :: json where
  "twice_named = JObj [(''type'', JStr ''function''), (''function'', JObj [(''name'', JStr ''shell'')]),
     (''Function'', JObj [(''name'', JStr ''read'')])]"

lemma function_tool_name: "tool_name (function_tool ''shell'') = ''shell''" "tool_name (function_tool ''read'') = ''read''"
  by code_simp+

lemma no_shell_permits: "permits no_shell name \<longleftrightarrow> name \<noteq> ''shell''"
proof -
  have "\<not> has_wildcard ''shell''" by code_simp
  then show ?thesis by (auto simp: permits_iff no_shell_def glob_match_exact)
qed

lemma shell_request_governed:
  "govern_tools no_shell shell_request =
     Inr (\<lparr>tv_denied = [''shell''], tv_warnings = [tool_warning [''shell''] False]\<rparr>,
       shell_request\<lparr>cr_tools := Some (JArr [function_tool ''read''])\<rparr>)"
proof -
  have "reconcile_choice no_shell None ChoiceAuto = Inr (None, ChoiceAuto, [])"
    by (simp add: reconcile_choice_def narrow_allowed_tools_def raw_map_def)
  moreover have "\<not> policy_empty no_shell" by (simp add: policy_empty_def no_shell_def)
  ultimately show ?thesis
    by (simp add: govern_tools_def Let_def shell_request_def no_request_def tool_choice_of_def raw_list_def
        function_tool_name no_shell_permits with_choice_def)
qed



text \<open>Governing is idempotent: a request that went through the policy goes through it again unchanged,
  without a denial, a warning or a refusal.\<close>

theorem governing_twice_changes_nothing:
  assumes "govern_tools p req = Inr (v, req')"
  shows "govern_tools p req' = Inr (no_verdict, req')"
proof (cases "policy_empty p")
  case True
  then show ?thesis by (simp add: govern_tools_def)
next
  case False
  from assms False show ?thesis
  proof (cases rule: govern_tools_cases)
    case (untouched c)
    then show ?thesis by (intro govern_tools_fixed) auto
  next
    case (emptied ts)
    then show ?thesis by (intro govern_tools_fixed) (simp_all add: choice_ok_absent)
  next
    case (stripped ts c)
    then show ?thesis by (intro govern_tools_fixed) (auto simp: raw_list_def list_all_iff)
  qed
qed

theorem governing_twice_changes_nothing_witness:
  "govern_tools no_shell (shell_request\<lparr>cr_tools := Some (JArr [function_tool ''read''])\<rparr>) =
     Inr (no_verdict, shell_request\<lparr>cr_tools := Some (JArr [function_tool ''read''])\<rparr>)"
  by (rule governing_twice_changes_nothing [OF shell_request_governed])

text \<open>A denied tool can still go upstream: sent under \<open>Tools\<close>, it is read and taken out as \<open>tools\<close>, but its copy
  among the unknown members stays, and the body the gateway sends offers it to any reader that matches member
  names the way the gateway itself does.\<close>

theorem denied_tool_survives_among_unknown_members:
  "\<exists>req v req'. unmarshal_request upper_tools_body = Some req \<and> govern_tools no_shell req = Inr (v, req')
     \<and> tv_denied v = [''shell'']
     \<and> map_option tools_of (unmarshal_request (marshal_request show_float req')) = Some [function_tool ''shell'']"
proof -
  let ?tools = "JArr [function_tool ''shell'']"
  let ?req = "no_request\<lparr>cr_messages := [no_message], cr_tools := Some ?tools, cr_extra := [(''Tools'', ?tools)]\<rparr>"
  let ?req' = "no_request\<lparr>cr_messages := [no_message], cr_extra := [(''Tools'', ?tools)]\<rparr>"
  let ?sent = "JObj [(''Tools'', ?tools), (''messages'', JArr [JObj [(''role'', JStr [])]]), (''model'', JStr [])]"
  have 1: "unmarshal_request upper_tools_body = Some ?req" by code_simp
  have "reconcile_choice no_shell None ChoiceAuto = Inr (None, ChoiceAuto, [])"
    by (simp add: reconcile_choice_def narrow_allowed_tools_def raw_map_def)
  moreover have "\<not> policy_empty no_shell" by (simp add: policy_empty_def no_shell_def)
  moreover have "AList.delete ''parallel_tool_calls'' [(''Tools'', ?tools)] = [(''Tools'', ?tools)]" by code_simp
  ultimately have 2: "govern_tools no_shell ?req = Inr (\<lparr>tv_denied = [''shell''], tv_warnings = [tool_warning [''shell''] True]\<rparr>, ?req')"
    by (simp add: govern_tools_def Let_def no_request_def tool_choice_of_def raw_list_def function_tool_name no_shell_permits)
  have "marshal_request show_float ?req' = ?sent"
  proof -
    have k: "known_members show_float ?req' = [(''model'', JStr []), (''messages'', JArr [JObj [(''role'', JStr [])]])]"
      by (simp add: known_members_def no_request_def marshal_message_def no_message_def opt_str_def opt_raw_def
          opt_true_def opt_int_def opt_float_def)
    have "marshal_map (AList.update ''Tools'' ?tools
        (obj_map [(''model'', JStr []), (''messages'', JArr [JObj [(''role'', JStr [])]])])) = ?sent"
      by code_simp
    then show ?thesis by (simp add: marshal_request_def k)
  qed
  moreover have "map_option tools_of (unmarshal_request ?sent) = Some [function_tool ''shell'']" by code_simp
  ultimately show ?thesis using 1 2 by (metis tool_verdict.select_convs(1))
qed

text \<open>The name a tool is judged by need not be the name it is called by: an entry of type \<open>custom\<close> is known by
  the name of a \<open>function\<close> member it also has, and a second member that differs in case hides the first one,
  so entries that name a denied tool pass unchanged.\<close>

theorem tool_passes_under_another_name:
  "govern_tools no_shell (no_request\<lparr>cr_tools := Some (JArr [custom_shell, twice_named])\<rparr>) =
     Inr (no_verdict, no_request\<lparr>cr_tools := Some (JArr [custom_shell, twice_named])\<rparr>)"
proof -
  have "tool_name custom_shell = ''read''" "tool_name twice_named = ''read''" by code_simp+
  then show ?thesis
    by (intro govern_tools_fixed) (simp_all add: no_request_def choice_ok_absent raw_list_def no_shell_permits)
qed

text \<open>Whatever names a model's answer carries, the names a request row keeps are at most 32, sorted, distinct,
  not empty, free of NUL and at most 64 bytes long, and clamping them again changes nothing.\<close>

theorem logged_tool_names_bounded:
  "length (clamp_tool_names names) \<le> 32 \<and> sorted (clamp_tool_names names) \<and> distinct (clamp_tool_names names)
    \<and> list_all (\<lambda>n. n \<noteq> [] \<and> length n \<le> 64 \<and> CHR 0x00 \<notin> set n) (clamp_tool_names names)
    \<and> clamp_tool_names (clamp_tool_names names) = clamp_tool_names names"
proof -
  let ?cut = "\<lambda>n. cut_bytes (filter (\<lambda>c. c \<noteq> CHR 0x00) n) maxToolNameBytes"
  let ?all = "sort (remdups (filter (\<lambda>n. n \<noteq> []) (map ?cut names)))"
  have c: "clamp_tool_names names = take 32 ?all" by (simp add: clamp_tool_names_def maxToolNames_def)
  have n: "n \<noteq> [] \<and> length n \<le> 64 \<and> CHR 0x00 \<notin> set n" if "n \<in> set (clamp_tool_names names)" for n
  proof -
    from that obtain m where m: "n = ?cut m" "n \<noteq> []" unfolding c by (auto dest!: in_set_takeD)
    then have "length n \<le> 64" using cut_bytes_length [of "filter (\<lambda>c. c \<noteq> CHR 0x00) m" 64] by (simp add: maxToolNameBytes_def)
    moreover have "set n \<subseteq> set (filter (\<lambda>c. c \<noteq> CHR 0x00) m)"
      unfolding m(1) cut_bytes_def by (auto dest: in_set_takeD)
    ultimately show ?thesis using m by auto
  qed
  have s: "sorted (clamp_tool_names names)" "distinct (clamp_tool_names names)" "length (clamp_tool_names names) \<le> 32"
    unfolding c by (simp_all add: sorted_wrt_take distinct_take)
  have "?cut n = n" if "n \<in> set (clamp_tool_names names)" for n
  proof -
    from n [OF that] have "filter (\<lambda>c. c \<noteq> CHR 0x00) n = n" by (intro filter_True) auto
    with n [OF that] show ?thesis by (simp add: cut_bytes_def maxToolNameBytes_def)
  qed
  then have "map ?cut (clamp_tool_names names) = clamp_tool_names names" by (rule map_idI)
  moreover have "filter (\<lambda>n. n \<noteq> []) (clamp_tool_names names) = clamp_tool_names names"
    using n by (intro filter_True) auto
  ultimately have "clamp_tool_names (clamp_tool_names names) = take 32 (sort (remdups (clamp_tool_names names)))"
    by (simp add: clamp_tool_names_def [of "clamp_tool_names names"] maxToolNames_def)
  also have "\<dots> = clamp_tool_names names"
    using s by (simp add: distinct_remdups_id sorted_sort_id)
  finally show ?thesis using s n by (auto simp: list_all_iff)
qed

end
