(* ===== verification/Metadata.thy ===== *)
theory Metadata
  imports Json
begin

text \<open>
  Document metadata and the filters on it (\<open>internal/store/metadata.go\<close>, ADR-025): the
  validation of a document's metadata with the size PostgreSQL will print it at, the
  filter grammar, and the containment conditions a filter compiles to. Both read a parsed
  JSON value; \<open>len\<close> is the length of the text it was parsed from. A string that comes out
  of the JSON decoder is valid UTF-8, so its rendered length is counted byte by byte.
\<close>

definition maxMetadataKeys :: nat where "maxMetadataKeys = 32"
definition maxMetadataBytes :: nat where "maxMetadataBytes = 8192"
definition maxMetadataStringBytes :: nat where "maxMetadataStringBytes = 256"
definition maxMetadataArrayLen :: nat where "maxMetadataArrayLen = 100"
definition maxMetadataNumberLen :: nat where "maxMetadataNumberLen = 64"
definition maxMetadataExponent :: int where "maxMetadataExponent = 308"
definition maxMetadataInputBytes :: nat where "maxMetadataInputBytes = 65536"

section \<open>Objects and scalars\<close>

definition key_char :: "char \<Rightarrow> bool" where
  "key_char c \<longleftrightarrow>
     (let n = of_char c :: nat in
      (65 \<le> n \<and> n \<le> 90) \<or> (97 \<le> n \<and> n \<le> 122) \<or> (48 \<le> n \<and> n \<le> 57)) \<or> c \<in> set ''_.-''"

definition metadata_key :: "bytes \<Rightarrow> bool" where
  "metadata_key k \<longleftrightarrow> k \<noteq> [] \<and> length k \<le> 64 \<and> list_all key_char k"

definition invalidf :: "bytes \<Rightarrow> bytes" where
  "invalidf msg = ''invalid metadata: '' @ msg"

text \<open>The start of a message about a key, which has the allowed shape by then.\<close>

definition about :: "bytes \<Rightarrow> bytes \<Rightarrow> bytes \<Rightarrow> bytes" where
  "about what key msg = invalidf (what @ '' \"'' @ key @ ''\": '' @ msg)"

definition decode_object :: "nat \<Rightarrow> bytes \<Rightarrow> json \<Rightarrow> bytes + (bytes \<times> json) list" where
  "decode_object len what j =
     (if len > maxMetadataInputBytes then Inl (invalidf (what @ '' is too large''))
      else case j of
        JObj ms \<Rightarrow> (if distinct (map fst ms) then Inr ms else Inl (invalidf (what @ '' repeats a key'')))
      | _ \<Rightarrow> Inl (invalidf (what @ '' must be a JSON object'')))"

text \<open>\<open>strconv.Atoi\<close> of an exponent fails when it leaves 64 bits, far above the bound it is compared with.\<close>

definition check_number :: "bytes \<Rightarrow> bytes option" where
  "check_number s =
     (if length s > maxMetadataNumberLen then Some ''a number is at most 64 characters''
      else if \<bar>np_exp (number_parts s)\<bar> > maxMetadataExponent
      then Some ''a number's exponent must be between -308 and 308''
      else if float_literal s = None then Some ''a number must be finite''
      else None)"

definition scalar :: "bytes \<Rightarrow> bytes \<Rightarrow> json \<Rightarrow> bytes + json" where
  "scalar what key j =
     (case j of
        JStr s \<Rightarrow>
          (if length s > maxMetadataStringBytes then Inl (about what key ''a string value is at most 256 bytes'')
           else if CHR 0x00 \<in> set s then Inl (about what key ''a string value must be valid text without NUL'')
           else Inr (JStr s))
      | JBool b \<Rightarrow> Inr (JBool b)
      | JNum s \<Rightarrow> (case check_number s of Some e \<Rightarrow> Inl (about what key e) | None \<Rightarrow> Inr (JNum s))
      | JNull \<Rightarrow> Inl (about what key ''null is not allowed'')
      | _ \<Rightarrow> Inl (about what key ''nested objects and arrays are not allowed here''))"

section \<open>The size PostgreSQL prints\<close>

text \<open>\<open>numericText\<close>: the number in plain decimal notation, as \<open>numeric_out\<close> prints it.\<close>

definition zeros :: "nat \<Rightarrow> bytes" where "zeros n = replicate n CHR ''0''"

definition numeric_text :: "bytes \<Rightarrow> bytes" where
  "numeric_text s =
     (let p = number_parts s;
          ds = np_whole p @ np_frac p;
          point = int (length (np_whole p)) + np_exp p;
          (int_part, frac_part) =
            (if point \<ge> int (length ds) then (ds @ zeros (nat (point - int (length ds))), [])
             else if point > 0 then (take (nat point) ds, drop (nat point) ds)
             else ([], zeros (nat (- point)) @ ds));
          int_part = dropWhile (\<lambda>c. c = CHR ''0'') int_part;
          int_part = (if int_part = [] then ''0'' else int_part);
          out = (if frac_part \<noteq> [] then int_part @ ''.'' @ frac_part else int_part)
      in (if np_neg p \<and> list_ex (\<lambda>c. c \<noteq> CHR ''0'') ds then CHR ''-'' # out else out))"

definition rendered_char_len :: "char \<Rightarrow> nat" where
  "rendered_char_len c =
     (if c \<in> {CHR 0x22, CHR 0x5C, CHR 0x08, CHR 0x0C, CHR 0x0A, CHR 0x0D, CHR 0x09} then 2
      else if (of_char c :: nat) < 32 then 6 else 1)"

fun rendered_scalar_len :: "json \<Rightarrow> nat" where
  "rendered_scalar_len (JStr s) = 2 + sum_list (map rendered_char_len s)"
| "rendered_scalar_len (JBool b) = (if b then 4 else 5)"
| "rendered_scalar_len (JNum s) = length (numeric_text s)"
| "rendered_scalar_len _ = 0"

section \<open>Validation\<close>

definition too_big :: "nat \<Rightarrow> bool" where
  "too_big len \<longleftrightarrow> len > maxMetadataBytes"

definition too_big_error :: bytes where
  "too_big_error = invalidf ''metadata is larger than 8192 bytes (as stored: a number is kept in full decimal form, so 1e308 is 309 bytes)''"

text \<open>The elements of one array; \<open>len\<close> runs along, and \<open>sep\<close> says a separator is due.\<close>

fun check_elems :: "bytes \<Rightarrow> bool \<Rightarrow> nat \<Rightarrow> json list \<Rightarrow> bytes + (json list \<times> nat)" where
  "check_elems key sep len [] = Inr ([], len)"
| "check_elems key sep len (e # es) =
     (case scalar ''metadata'' key e of
        Inl err \<Rightarrow> Inl err
      | Inr c \<Rightarrow>
          (let len = len + (if sep then 2 else 0) + rendered_scalar_len c in
           if too_big len then Inl too_big_error
           else case check_elems key True len es of
             Inl err \<Rightarrow> Inl err
           | Inr (cs, len') \<Rightarrow> Inr (c # cs, len')))"

fun check_members :: "bool \<Rightarrow> nat \<Rightarrow> (bytes \<times> json) list \<Rightarrow> bytes + ((bytes \<times> json) list \<times> nat)" where
  "check_members sep len [] = Inr ([], len)"
| "check_members sep len ((key, v) # ms) =
     (if \<not> metadata_key key then Inl (invalidf ''metadata key must match ^[A-Za-z0-9_.-]{1,64}$'')
      else
        (let len = len + (if sep then 2 else 0) + (length key + 2) + 2;
             rest = (\<lambda>c len. case check_members True len ms of
                       Inl err \<Rightarrow> Inl err
                     | Inr (cs, len') \<Rightarrow> Inr ((key, c) # cs, len')) in
         case v of
           JArr es \<Rightarrow>
             (if length es > maxMetadataArrayLen
              then Inl (about ''metadata'' key ''an array holds at most 100 values'')
              else case check_elems key False (len + 2) es of
                Inl err \<Rightarrow> Inl err
              | Inr (cs, len') \<Rightarrow> rest (JArr cs) len')
         | _ \<Rightarrow>
             (case scalar ''metadata'' key v of
                Inl err \<Rightarrow> Inl err
              | Inr c \<Rightarrow>
                  (if too_big (len + rendered_scalar_len c) then Inl too_big_error
                   else rest c (len + rendered_scalar_len c)))))"

definition validate_metadata :: "nat \<Rightarrow> json \<Rightarrow> bytes + json" where
  "validate_metadata len j =
     (case decode_object len ''metadata'' j of
        Inl err \<Rightarrow> Inl err
      | Inr ms \<Rightarrow>
          (if length ms > maxMetadataKeys then Inl (invalidf ''metadata has more than 32 keys'')
           else case check_members False 2 (sort_key fst ms) of
             Inl err \<Rightarrow> Inl err
           | Inr (out, n) \<Rightarrow> (if too_big n then Inl too_big_error else Inr (JObj out))))"

definition metadata_keys :: "nat \<Rightarrow> json \<Rightarrow> bytes list" where
  "metadata_keys len j =
     (case decode_object len ''metadata'' j of Inl err \<Rightarrow> [] | Inr ms \<Rightarrow> sort (map fst ms))"

section \<open>Filters\<close>

record filter_cond =
  fc_key :: bytes
  fc_vals :: "json list"

fun scalars :: "bytes \<Rightarrow> bytes \<Rightarrow> json list \<Rightarrow> bytes + json list" where
  "scalars what key [] = Inr []"
| "scalars what key (e # es) =
     (case scalar what key e of
        Inl err \<Rightarrow> Inl err
      | Inr c \<Rightarrow> (case scalars what key es of Inl err \<Rightarrow> Inl err | Inr cs \<Rightarrow> Inr (c # cs)))"

definition parse_in :: "nat \<Rightarrow> bytes \<Rightarrow> json \<Rightarrow> bytes + json list" where
  "parse_in len key j =
     (case decode_object len ''filter'' j of
        Inl err \<Rightarrow> Inl err
      | Inr ops \<Rightarrow>
          (case ops of
             [(op, v)] \<Rightarrow>
               (if op \<noteq> ''in'' then Inl (about ''filter'' key ''the only operator is {\"in\": [...]}'')
                else case v of
                  JArr es \<Rightarrow>
                    (if length es < 1 \<or> length es > maxMetadataArrayLen
                     then Inl (about ''filter'' key ''\"in\" takes between 1 and 100 values'')
                     else scalars ''filter'' key es)
                | _ \<Rightarrow> Inl (about ''filter'' key ''\"in\" takes an array''))
           | _ \<Rightarrow> Inl (about ''filter'' key ''the only operator is {\"in\": [...]}'')))"

definition parse_cond :: "nat \<Rightarrow> bytes \<Rightarrow> json \<Rightarrow> bytes + filter_cond" where
  "parse_cond len key j =
     (if \<not> metadata_key key then Inl (invalidf ''filter key must match ^[A-Za-z0-9_.-]{1,64}$'')
      else case j of
        JObj ms \<Rightarrow>
          (case parse_in len key j of
             Inl err \<Rightarrow> Inl err
           | Inr cs \<Rightarrow> Inr \<lparr>fc_key = key, fc_vals = cs\<rparr>)
      | JArr es \<Rightarrow> Inl (about ''filter'' key ''use {\"in\": [...]} to match one of several values'')
      | _ \<Rightarrow>
          (case scalar ''filter'' key j of
             Inl err \<Rightarrow> Inl err
           | Inr c \<Rightarrow> Inr \<lparr>fc_key = key, fc_vals = [c]\<rparr>))"

fun parse_conds :: "nat \<Rightarrow> (bytes \<times> json) list \<Rightarrow> bytes + filter_cond list" where
  "parse_conds len [] = Inr []"
| "parse_conds len ((key, j) # ms) =
     (case parse_cond len key j of
        Inl err \<Rightarrow> Inl err
      | Inr c \<Rightarrow> (case parse_conds len ms of Inl err \<Rightarrow> Inl err | Inr cs \<Rightarrow> Inr (c # cs)))"

text \<open>A filter is its list of conditions; a nil one is the empty list.\<close>

definition parse_metadata_filter :: "nat \<Rightarrow> json \<Rightarrow> bytes + filter_cond list" where
  "parse_metadata_filter len j =
     (case decode_object len ''filter'' j of
        Inl err \<Rightarrow> Inl err
      | Inr ms \<Rightarrow>
          (if length ms > maxMetadataKeys then Inl (invalidf ''filter has more than 32 keys'')
           else parse_conds len ms))"

definition filter_empty :: "filter_cond list \<Rightarrow> bool" where
  "filter_empty f \<longleftrightarrow> f = []"

definition filter_keys :: "filter_cond list \<Rightarrow> bytes list" where
  "filter_keys f = sort (map fc_key f)"

text \<open>The documents one condition asks containment of, and the SQL with its bind parameters.\<close>

definition wanted_docs :: "filter_cond \<Rightarrow> json list" where
  "wanted_docs c = concat (map (\<lambda>v. [JObj [(fc_key c, v)], JObj [(fc_key c, JArr [v])]]) (fc_vals c))"

definition predicate :: "bytes \<Rightarrow> nat \<Rightarrow> filter_cond list \<Rightarrow> bytes \<times> json list list" where
  "predicate alias first f =
     (join '' AND ''
        (map (\<lambda>i. alias @ ''.metadata @> ANY($'' @ format_int (int (first + i)) @ ''::text[]::jsonb[])'') [0..<length f]),
      map wanted_docs f)"

definition document_set :: "bytes \<Rightarrow> nat \<Rightarrow> filter_cond list \<Rightarrow> bytes" where
  "document_set store_param first f =
     ''SELECT fd.id FROM documents fd WHERE fd.rag_store_id = '' @ store_param @ '' AND '' @ fst (predicate ''fd'' first f)"

section \<open>Facts about printed numbers\<close>

text \<open>A JSON number: at least one digit before the point, and only digits.\<close>

definition digit :: "char \<Rightarrow> bool" where
  "digit c \<longleftrightarrow> CHR ''0'' \<le> c \<and> c \<le> CHR ''9''"

definition json_number :: "bytes \<Rightarrow> bool" where
  "json_number s \<longleftrightarrow>
     (let p = number_parts s in np_whole p \<noteq> [] \<and> list_all digit (np_whole p) \<and> list_all digit (np_frac p))"

lemma digits_value_append: "digits_value (xs @ ys) = digits_value xs * 10 ^ length ys + digits_value ys"
proof (induction ys rule: rev_induct)
  case (snoc y ys)
  have "digits_value (zs @ [y]) = 10 * digits_value zs + (of_char y - 48)" for zs
    by (simp add: digits_value_def)
  from this [of "xs @ ys"] this [of ys] snoc show ?case by simp
qed (simp add: digits_value_def)

lemma digits_value_zeros [simp]: "digits_value (zeros n) = 0"
proof (induction n)
  case (Suc n)
  have "zeros (Suc n) = zeros n @ [CHR ''0'']" by (simp add: zeros_def replicate_append_same)
  with Suc show ?case by (simp add: digits_value_append) (simp add: digits_value_def)
qed (simp add: zeros_def digits_value_def)

lemma digits_value_strip:
  "digits_value (dropWhile (\<lambda>c. c = CHR ''0'') xs @ ys) = digits_value (xs @ ys)"
proof (induction xs)
  case (Cons x xs)
  have "digits_value (CHR ''0'' # zs) = digits_value zs" for zs by (simp add: digits_value_def)
  with Cons show ?case by simp
qed simp

lemma digits_value_all_zero: "\<not> list_ex (\<lambda>c. c \<noteq> CHR ''0'') ds \<Longrightarrow> digits_value ds = 0"
proof -
  assume "\<not> list_ex (\<lambda>c. c \<noteq> CHR ''0'') ds"
  then have "ds = zeros (length ds)"
    by (induction ds) (auto simp: zeros_def)
  then show ?thesis by (metis digits_value_zeros)
qed

lemma digit_plain: "digit c \<Longrightarrow> c \<notin> set ''eE.-+''"
  by (auto simp: digit_def less_eq_char_def)

lemma number_parts_plain:
  assumes w: "w \<noteq> []" "list_all digit w" and f: "list_all digit f"
  shows "number_parts ((if neg then ''-'' else []) @ w @ (if f = [] then [] else CHR ''.'' # f)) =
         \<lparr>np_neg = neg, np_whole = w, np_frac = f, np_exp = 0\<rparr>"
proof -
  let ?u = "w @ (if f = [] then [] else CHR ''.'' # f)"
  have plain: "c \<notin> set ''eE''" if "c \<in> set ?u" for c
    using that digit_plain [of c] w f by (auto simp: list_all_iff split: if_splits)
  then have mantissa: "takeWhile (\<lambda>c. c \<notin> set ''eE'') ?u = ?u" by (simp add: takeWhile_eq_all_conv)
  have "c \<noteq> CHR ''.''" if "c \<in> set w" for c
    using that digit_plain [of c] w by (auto simp: list_all_iff)
  then have whole: "takeWhile (\<lambda>c. c \<noteq> CHR ''.'') ?u = w" by (simp add: takeWhile_append2)
  have "hd w \<noteq> CHR ''-''" using w digit_plain [of "hd w"] by (auto simp: list_all_iff)
  then have minus: "\<not> has_prefix ?u ''-''" using w by (auto simp: has_prefix_iff append_eq_Cons_conv)
  show ?thesis
  proof (cases neg)
    case True
    then show ?thesis using mantissa whole
      by (simp add: number_parts_def has_prefix_iff digits_value_def Let_def del: set_simps takeWhile_eq_all_conv)
  next
    case False
    then show ?thesis using mantissa whole minus
      by (simp add: number_parts_def digits_value_def Let_def has_prefix_iff del: set_simps takeWhile_eq_all_conv)
  qed
qed

text \<open>The digits before and after the point of the printed number.\<close>

definition placed :: "bytes \<Rightarrow> int \<Rightarrow> bytes \<times> bytes" where
  "placed ds point =
     (if point \<ge> int (length ds) then (ds @ zeros (nat (point - int (length ds))), [])
      else if point > 0 then (take (nat point) ds, drop (nat point) ds)
      else ([], zeros (nat (- point)) @ ds))"

lemma length_zeros [simp]: "length (zeros n) = n"
  by (simp add: zeros_def)

lemma placed_value:
  assumes "placed ds point = (w, f)"
  shows "of_nat (digits_value (w @ f)) * (10 :: rat) powi (- int (length f)) =
         of_nat (digits_value ds) * 10 powi (point - int (length ds))"
proof -
  consider (right) "point \<ge> int (length ds)" | (inside) "0 < point" "point < int (length ds)" | (left) "point \<le> 0" "point < int (length ds)"
    by linarith
  then show ?thesis
  proof cases
    case right
    define n where "n = nat (point - int (length ds))"
    with right have "point - int (length ds) = int n" by simp
    with right assms show ?thesis
      by (auto simp: placed_def digits_value_append simp flip: n_def)
  next
    case inside
    with assms show ?thesis by (auto simp: placed_def of_nat_diff)
  next
    case left
    with assms show ?thesis by (auto simp: placed_def digits_value_append add.commute)
  qed
qed

lemma placed_digits:
  "list_all digit ds \<Longrightarrow> placed ds point = (w, f) \<Longrightarrow> list_all digit w \<and> list_all digit f"
  by (auto simp: placed_def zeros_def list_all_iff digit_def split: if_splits dest: in_set_takeD in_set_dropD)

definition strip_zeros :: "bytes \<Rightarrow> bytes" where
  "strip_zeros w = (let v = dropWhile (\<lambda>c. c = CHR ''0'') w in if v = [] then ''0'' else v)"

lemma strip_zeros:
  assumes "list_all digit w"
  shows "strip_zeros w \<noteq> []" "list_all digit (strip_zeros w)"
    "digits_value (strip_zeros w @ f) = digits_value (w @ f)"
proof -
  show "strip_zeros w \<noteq> []" by (simp add: strip_zeros_def Let_def)
  show "list_all digit (strip_zeros w)"
    using assms by (auto simp: strip_zeros_def list_all_iff digit_def Let_def dest: set_dropWhileD)
  show "digits_value (strip_zeros w @ f) = digits_value (w @ f)"
  proof (cases "dropWhile (\<lambda>c. c = CHR ''0'') w = []")
    case True
    then have "strip_zeros w @ f = CHR ''0'' # f" by (simp add: strip_zeros_def)
    moreover have "digits_value (CHR ''0'' # f) = digits_value f" by (simp add: digits_value_def)
    ultimately show ?thesis using digits_value_strip [of w f] True by simp
  next
    case False
    then have "strip_zeros w = dropWhile (\<lambda>c. c = CHR ''0'') w" by (simp only: strip_zeros_def Let_def if_False)
    then show ?thesis by (simp only: digits_value_strip)
  qed
qed

lemma numeric_text_placed:
  assumes "placed (np_whole (number_parts s) @ np_frac (number_parts s))
             (int (length (np_whole (number_parts s))) + np_exp (number_parts s)) = (w, f)"
  shows "numeric_text s =
    (if np_neg (number_parts s) \<and> list_ex (\<lambda>c. c \<noteq> CHR ''0'') (np_whole (number_parts s) @ np_frac (number_parts s))
     then ''-'' else []) @ strip_zeros w @ (if f = [] then [] else CHR ''.'' # f)"
  using assms by (simp add: numeric_text_def placed_def Let_def strip_zeros_def)

lemma numeric_text_parts:
  assumes "json_number s"
  obtains w f neg where
    "placed (np_whole (number_parts s) @ np_frac (number_parts s))
       (int (length (np_whole (number_parts s))) + np_exp (number_parts s)) = (w, f)"
    "list_all digit w" "list_all digit f"
    "neg = (np_neg (number_parts s) \<and> list_ex (\<lambda>c. c \<noteq> CHR ''0'') (np_whole (number_parts s) @ np_frac (number_parts s)))"
    "number_parts (numeric_text s) = \<lparr>np_neg = neg, np_whole = strip_zeros w, np_frac = f, np_exp = 0\<rparr>"
proof -
  let ?p = "number_parts s"
  let ?ds = "np_whole ?p @ np_frac ?p"
  obtain w f where wf: "placed ?ds (int (length (np_whole ?p)) + np_exp ?p) = (w, f)" by force
  from assms have "list_all digit ?ds" by (simp add: json_number_def Let_def)
  with wf have d: "list_all digit w" "list_all digit f" using placed_digits by blast+
  show thesis
    by (rule that [OF wf d refl])
      (simp add: numeric_text_placed [OF wf] number_parts_plain [OF strip_zeros(1,2) [OF d(1)] d(2)] del: set_simps if_split)
qed

lemma decimal_value_numeric_text:
  assumes "json_number s"
  shows "decimal_value (numeric_text s) = decimal_value s"
proof -
  let ?p = "number_parts s"
  obtain w f neg where
    wf: "placed (np_whole ?p @ np_frac ?p) (int (length (np_whole ?p)) + np_exp ?p) = (w, f)"
    and d: "list_all digit w"
    and neg: "neg = (np_neg ?p \<and> list_ex (\<lambda>c. c \<noteq> CHR ''0'') (np_whole ?p @ np_frac ?p))"
    and parts: "number_parts (numeric_text s) = \<lparr>np_neg = neg, np_whole = strip_zeros w, np_frac = f, np_exp = 0\<rparr>"
    using numeric_text_parts [OF assms] by metis
  have *: "int (length (np_whole ?p)) + np_exp ?p - int (length (np_whole ?p @ np_frac ?p)) =
           np_exp ?p - int (length (np_frac ?p))" by simp
  show ?thesis
    using placed_value [OF wf] digits_value_all_zero [of "np_whole ?p @ np_frac ?p"]
    unfolding decimal_value_def parts Let_def neg * strip_zeros(3) [OF d]
    by (auto simp: strip_zeros(3) [OF d])
qed

lemma json_number_numeric_text: "json_number s \<Longrightarrow> json_number (numeric_text s)"
  by (erule numeric_text_parts) (simp add: json_number_def strip_zeros)

text \<open>
  The text PostgreSQL prints for a \<open>jsonb\<close> value: \<open>", "\<close> and \<open>": "\<close> between the parts, the
  shortest escapes in strings, numbers in full. It orders the members of an object in its
  own way, which does not change the length.
\<close>

definition pg_char :: "char \<Rightarrow> bytes" where
  "pg_char c =
     (if c = CHR 0x22 then [CHR 0x5C, CHR 0x22]
      else if c = CHR 0x5C then [CHR 0x5C, CHR 0x5C]
      else if c = CHR 0x08 then [CHR 0x5C, CHR ''b'']
      else if c = CHR 0x0C then [CHR 0x5C, CHR ''f'']
      else if c = CHR 0x0A then [CHR 0x5C, CHR ''n'']
      else if c = CHR 0x0D then [CHR 0x5C, CHR ''r'']
      else if c = CHR 0x09 then [CHR 0x5C, CHR ''t'']
      else if (of_char c :: nat) < 32
      then CHR 0x5C # ''u00'' @ [''0123456789abcdef'' ! (of_char c div 16), ''0123456789abcdef'' ! (of_char c mod 16)]
      else [c])"

definition pg_string :: "bytes \<Rightarrow> bytes" where
  "pg_string s = CHR 0x22 # concat (map pg_char s) @ [CHR 0x22]"

fun pg_text :: "json \<Rightarrow> bytes" where
  "pg_text JNull = ''null''"
| "pg_text (JBool b) = (if b then ''true'' else ''false'')"
| "pg_text (JNum s) = numeric_text s"
| "pg_text (JStr s) = pg_string s"
| "pg_text (JArr es) = ''['' @ join '', '' (map pg_text es) @ '']''"
| "pg_text (JObj ms) = ''{'' @ join '', '' (map (\<lambda>(k, v). pg_string k @ '': '' @ pg_text v) ms) @ ''}''"

definition metadata_scalar :: "json \<Rightarrow> bool" where
  "metadata_scalar j \<longleftrightarrow>
     (case j of
        JStr s \<Rightarrow> length s \<le> maxMetadataStringBytes \<and> CHR 0x00 \<notin> set s
      | JBool b \<Rightarrow> True
      | JNum s \<Rightarrow> check_number s = None
      | _ \<Rightarrow> False)"

definition metadata_value :: "json \<Rightarrow> bool" where
  "metadata_value j \<longleftrightarrow>
     (case j of
        JArr es \<Rightarrow> length es \<le> maxMetadataArrayLen \<and> list_all metadata_scalar es
      | _ \<Rightarrow> metadata_scalar j)"

lemma scalar_iff: "scalar what key j = Inr c \<longleftrightarrow> c = j \<and> metadata_scalar j"
  by (auto simp: scalar_def metadata_scalar_def split: json.splits option.splits)

lemma length_pg_char: "length (pg_char c) = rendered_char_len c"
  by (simp add: pg_char_def rendered_char_len_def)

lemma length_pg_string: "length (pg_string s) = 2 + sum_list (map rendered_char_len s)"
  by (simp add: pg_string_def length_concat length_pg_char comp_def)

lemma length_pg_scalar: "metadata_scalar j \<Longrightarrow> rendered_scalar_len j = length (pg_text j)"
  by (cases j) (simp_all add: metadata_scalar_def length_pg_string)

lemma key_char_plain: "key_char c \<Longrightarrow> rendered_char_len c = 1"
proof -
  assume k: "key_char c"
  have "\<not> list_ex key_char [CHR 0x22, CHR 0x5C, CHR 0x08, CHR 0x0C, CHR 0x0A, CHR 0x0D, CHR 0x09]"
    by code_simp
  with k have "c \<notin> set [CHR 0x22, CHR 0x5C, CHR 0x08, CHR 0x0C, CHR 0x0A, CHR 0x0D, CHR 0x09]"
    by (metis list_ex_iff)
  moreover have "\<not> (of_char c :: nat) < 32"
  proof
    assume "(of_char c :: nat) < 32"
    with k have "c \<in> set ''_.-''" by (auto simp: key_char_def Let_def)
    moreover have "list_all (\<lambda>c. \<not> (of_char c :: nat) < 32) ''_.-''" by code_simp
    ultimately show False using \<open>of_char c < 32\<close> by (metis list_all_iff)
  qed
  ultimately show ?thesis by (simp only: rendered_char_len_def list.set if_False)
qed

lemma length_pg_key: "metadata_key k \<Longrightarrow> length (pg_string k) = length k + 2"
proof -
  assume "metadata_key k"
  then have "map rendered_char_len k = replicate (length k) 1"
    by (simp add: metadata_key_def list_all_iff key_char_plain map_eq_conv flip: map_replicate_const)
  then show ?thesis by (simp add: length_pg_string sum_list_replicate)
qed

lemma length_join_Cons:
  "length (join s (x # xs)) = length x + sum_list (map (\<lambda>y. length s + length y) xs)"
  by (induction xs arbitrary: x) simp_all

text \<open>The running size, as a sum: each part after the first has its separator.\<close>

definition parts_len :: "bool \<Rightarrow> bytes list \<Rightarrow> nat" where
  "parts_len sep ps = sum_list (map length ps) + 2 * (length ps - (if sep then 0 else 1))"

lemma parts_len_Cons: "parts_len sep (p # ps) = (if sep then 2 else 0) + length p + parts_len True ps"
  by (simp add: parts_len_def)

lemma parts_len_Nil [simp]: "parts_len sep [] = 0"
  by (simp add: parts_len_def)

lemma length_join_parts: "length (join '', '' ps) = parts_len False ps"
proof (cases ps)
  case (Cons q qs)
  have "sum_list (map (\<lambda>y. length '', '' + length y) qs) = parts_len True qs"
    by (induction qs) (simp_all add: parts_len_Cons)
  with Cons show ?thesis by (simp only: length_join_Cons parts_len_Cons if_False)
qed simp

lemma check_elems_Inr:
  "check_elems key sep len es = Inr (cs, n) \<Longrightarrow>
   cs = es \<and> list_all metadata_scalar es \<and> n = len + parts_len sep (map pg_text es)"
  by (induction key sep len es arbitrary: cs n rule: check_elems.induct)
    (auto simp: scalar_iff Let_def parts_len_Cons length_pg_scalar split: sum.splits if_splits)

lemma check_elems_ok:
  "list_all metadata_scalar es \<Longrightarrow> len + parts_len sep (map pg_text es) \<le> maxMetadataBytes \<Longrightarrow>
   check_elems key sep len es = Inr (es, len + parts_len sep (map pg_text es))"
proof (induction es arbitrary: sep len)
  case (Cons e es)
  let ?len = "len + (if sep then 2 else 0) + length (pg_text e)"
  from Cons.prems have e: "scalar ''metadata'' key e = Inr e" "rendered_scalar_len e = length (pg_text e)"
    by (simp_all add: scalar_iff length_pg_scalar)
  have n: "len + parts_len sep (map pg_text (e # es)) = ?len + parts_len True (map pg_text es)"
    by (simp add: parts_len_Cons)
  with Cons.prems have "check_elems key True ?len es = Inr (es, ?len + parts_len True (map pg_text es))"
    by (intro Cons.IH) simp_all
  moreover have "\<not> too_big ?len" using Cons.prems(2) n by (simp add: too_big_def)
  ultimately show ?case by (simp only: check_elems.simps e n Let_def sum.case prod.case if_False)
qed simp

abbreviation pg_member :: "bytes \<times> json \<Rightarrow> bytes" where
  "pg_member \<equiv> (\<lambda>(k, v). pg_string k @ '': '' @ pg_text v)"

definition metadata_member :: "bytes \<times> json \<Rightarrow> bool" where
  "metadata_member m \<longleftrightarrow> metadata_key (fst m) \<and> metadata_value (snd m)"

lemma length_pg_array: "length (pg_text (JArr es)) = 2 + parts_len False (map pg_text es)"
  by (simp add: length_join_parts)

lemma length_pg_object: "length (pg_text (JObj ms)) = 2 + parts_len False (map pg_member ms)"
  by (simp add: length_join_parts)

lemma check_members_scalar:
  assumes "\<forall>es. v \<noteq> JArr es" and n: "n = len + (if sep then 2 else 0) + (length key + 2) + 2 + length (pg_text v)"
  shows "check_members sep len ((key, v) # ms) =
    (if \<not> metadata_key key then Inl (invalidf ''metadata key must match ^[A-Za-z0-9_.-]{1,64}$'')
     else case scalar ''metadata'' key v of
       Inl err \<Rightarrow> Inl err
     | Inr c \<Rightarrow>
         (if n > maxMetadataBytes then Inl too_big_error
          else case check_members True n ms of
            Inl err \<Rightarrow> Inl err
          | Inr (cs, n') \<Rightarrow> Inr ((key, v) # cs, n')))"
proof (cases "scalar ''metadata'' key v")
  case (Inl err)
  with assms(1) show ?thesis
    by (cases v) (simp_all only: check_members.simps Let_def json.case sum.case simp_thms json.inject)
next
  case (Inr c)
  then have "scalar ''metadata'' key v = Inr v" "rendered_scalar_len v = length (pg_text v)"
    by (auto simp: scalar_iff length_pg_scalar)
  with assms(1) show ?thesis unfolding n
    by (cases v) (simp_all only: check_members.simps Let_def json.case too_big_def sum.case simp_thms json.inject)
qed

lemma check_members_Inr:
  "check_members sep len ms = Inr (cs, n) \<Longrightarrow>
   cs = ms \<and> list_all metadata_member ms \<and> n = len + parts_len sep (map pg_member ms)"
proof (induction ms arbitrary: sep len cs n)
  case (Cons m ms)
  obtain key v where m: "m = (key, v)" by force
  let ?len = "len + (if sep then 2 else 0) + (length key + 2) + 2"
  obtain cs' where rest: "check_members True (?len + length (pg_text v)) ms = Inr (cs', n)"
    and v: "cs = (key, v) # cs'" "metadata_key key" "metadata_value v"
  proof (cases "\<exists>es. v = JArr es")
    case True
    then obtain es where JArr: "v = JArr es" by blast
    with Cons.prems m obtain es' n' cs' where
      *: "metadata_key key" "length es \<le> maxMetadataArrayLen"
        "check_elems key False (?len + 2) es = Inr (es', n')"
        "check_members True n' ms = Inr (cs', n)" "cs = (key, JArr es') # cs'"
      by (auto simp: Let_def split: sum.splits if_splits)
    with check_elems_Inr [OF *(3)] JArr show thesis
      by (intro that [of cs']) (auto simp: metadata_value_def length_join_parts)
  next
    case False
    then have nonarray: "\<forall>es. v \<noteq> JArr es" by blast
    from Cons.prems obtain cs' where
      "metadata_key key" "metadata_scalar v" "cs = (key, v) # cs'"
      "check_members True (?len + length (pg_text v)) ms = Inr (cs', n)"
      unfolding m check_members_scalar [OF nonarray refl]
      by (auto simp: scalar_iff simp del: pg_text.simps split: sum.splits if_split_asm)
    with nonarray show thesis by (intro that [of cs']) (auto simp: metadata_value_def split: json.splits)
  qed
  from Cons.IH [OF rest] v show ?case
    by (auto simp: m metadata_member_def parts_len_Cons length_pg_key)
qed simp

lemma check_members_ok:
  "list_all metadata_member ms \<Longrightarrow> len + parts_len sep (map pg_member ms) \<le> maxMetadataBytes \<Longrightarrow>
   check_members sep len ms = Inr (ms, len + parts_len sep (map pg_member ms))"
proof (induction ms arbitrary: sep len)
  case (Cons m ms)
  obtain key v where m: "m = (key, v)" by force
  let ?len = "len + (if sep then 2 else 0) + (length key + 2) + 2"
  let ?n = "?len + length (pg_text v)"
  from Cons.prems m have k: "metadata_key key" and v: "metadata_value v"
    by (simp_all add: metadata_member_def)
  have n: "len + parts_len sep (map pg_member (m # ms)) = ?n + parts_len True (map pg_member ms)"
    by (simp add: m parts_len_Cons length_pg_key [OF k])
  with Cons.prems have rest: "check_members True ?n ms = Inr (ms, ?n + parts_len True (map pg_member ms))"
    by (intro Cons.IH) simp_all
  from Cons.prems(2) n have small: "?n \<le> maxMetadataBytes" by linarith
  show ?case
  proof (cases "\<exists>es. v = JArr es")
    case True
    then obtain es where JArr: "v = JArr es" by blast
    then have "?len + 2 + parts_len False (map pg_text es) = ?n" by (simp add: length_join_parts)
    with check_elems_ok [of es "?len + 2" False key] v JArr small
    have "check_elems key False (?len + 2) es = Inr (es, ?n)" by (simp add: metadata_value_def)
    with v rest k show ?thesis unfolding n unfolding m
      by (simp add: JArr metadata_value_def Let_def)
  next
    case False
    with v have "scalar ''metadata'' key v = Inr v" by (auto simp: scalar_iff metadata_value_def split: json.splits)
    with check_members_scalar [OF _ refl, of v sep len key ms] False rest small k show ?thesis
      unfolding n unfolding m by simp
  qed
qed simp

lemma validate_metadata_iff:
  "validate_metadata len j = Inr m \<longleftrightarrow>
   len \<le> maxMetadataInputBytes \<and>
   (\<exists>ms. j = JObj ms \<and> m = JObj (sort_key fst ms) \<and> distinct (map fst ms) \<and>
      length ms \<le> maxMetadataKeys \<and> list_all metadata_member ms \<and>
      length (pg_text m) \<le> maxMetadataBytes)"
proof (cases "\<exists>ms. j = JObj ms \<and> len \<le> maxMetadataInputBytes \<and> distinct (map fst ms) \<and> length ms \<le> maxMetadataKeys")
  case True
  then obtain ms where j: "j = JObj ms" "len \<le> maxMetadataInputBytes" "distinct (map fst ms)"
    "length ms \<le> maxMetadataKeys" by blast
  let ?ms = "sort_key fst ms"
  have all: "list_all metadata_member ?ms = list_all metadata_member ms"
    by (simp add: list_all_iff)
  have dec: "decode_object len ''metadata'' j = Inr ms" using j by (simp add: decode_object_def)
  have "validate_metadata len j = Inr m \<longleftrightarrow>
    m = JObj ?ms \<and> list_all metadata_member ?ms \<and> 2 + parts_len False (map pg_member ?ms) \<le> maxMetadataBytes"
  proof
    assume "validate_metadata len j = Inr m"
    then obtain out n where *: "check_members False 2 ?ms = Inr (out, n)" "\<not> too_big n" "m = JObj out"
      using j(4) by (auto simp: validate_metadata_def dec split: sum.splits if_splits)
    from check_members_Inr [OF *(1)] *(2,3)
    show "m = JObj ?ms \<and> list_all metadata_member ?ms \<and> 2 + parts_len False (map pg_member ?ms) \<le> maxMetadataBytes"
      by (simp add: too_big_def)
  next
    assume *: "m = JObj ?ms \<and> list_all metadata_member ?ms \<and> 2 + parts_len False (map pg_member ?ms) \<le> maxMetadataBytes"
    with check_members_ok [of ?ms 2 False] j(4) show "validate_metadata len j = Inr m"
      by (simp add: validate_metadata_def dec too_big_def)
  qed
  with j all show ?thesis by (auto simp only: length_pg_object json.inject)
next
  case False
  then have "validate_metadata len j \<noteq> Inr m"
    by (auto simp: validate_metadata_def decode_object_def split: json.splits if_splits)
  with False show ?thesis by blast
qed

section \<open>Containment\<close>

text \<open>
  What the compiled filter relies on of PostgreSQL's \<open>jsonb\<close> containment: \<open>contains\<close> is
  \<open>@>\<close> at the top level and \<open>inside\<close> the same below a key, where an array does not contain
  a bare value. Numbers are equal when their values are.
\<close>

definition same_scalar :: "json \<Rightarrow> json \<Rightarrow> bool" where
  "same_scalar a b \<longleftrightarrow>
     (case (a, b) of
        (JNum x, JNum y) \<Rightarrow> decimal_value x = decimal_value y
      | _ \<Rightarrow> a = b)"

locale jsonb =
  fixes contains inside :: "json \<Rightarrow> json \<Rightarrow> bool"
  assumes contains_member:
      "distinct (map fst ms) \<Longrightarrow> contains (JObj ms) (JObj [(k, v)]) \<longleftrightarrow> (\<exists>w. map_of ms k = Some w \<and> inside w v)"
    and inside_scalar: "metadata_scalar a \<Longrightarrow> metadata_scalar b \<Longrightarrow> inside a b \<longleftrightarrow> same_scalar a b"
    and inside_array: "inside (JArr xs) (JArr [v]) \<longleftrightarrow> (\<exists>x\<in>set xs. inside x v)"
    and array_not_inside_scalar: "metadata_scalar v \<Longrightarrow> \<not> inside (JArr xs) v"
    and scalar_not_inside_array: "metadata_scalar a \<Longrightarrow> \<not> inside a (JArr ys)"

text \<open>The documented meaning: a value of the key, or one of the elements of an array there, is one of the wanted values.\<close>

definition values_at :: "(bytes \<times> json) list \<Rightarrow> bytes \<Rightarrow> json list" where
  "values_at doc k = (case map_of doc k of None \<Rightarrow> [] | Some (JArr es) \<Rightarrow> es | Some w \<Rightarrow> [w])"

definition wanted :: "json \<Rightarrow> json list" where
  "wanted v = (case v of JObj [(op, JArr vs)] \<Rightarrow> vs | _ \<Rightarrow> [v])"

definition filter_means :: "(bytes \<times> json) list \<Rightarrow> (bytes \<times> json) list \<Rightarrow> bool" where
  "filter_means fs doc \<longleftrightarrow>
     list_all (\<lambda>(k, v). list_ex (\<lambda>x. list_ex (same_scalar x) (wanted v)) (values_at doc k)) fs"

lemma scalars_Inr: "scalars what key es = Inr cs \<Longrightarrow> cs = es \<and> list_all metadata_scalar es"
  by (induction what key es arbitrary: cs rule: scalars.induct) (auto simp: scalar_iff split: sum.splits)

lemma parse_cond_Inr:
  assumes "parse_cond len key v = Inr c"
  shows "c = \<lparr>fc_key = key, fc_vals = wanted v\<rparr> \<and> metadata_key key \<and> wanted v \<noteq> [] \<and>
    list_all metadata_scalar (wanted v)"
proof (cases "\<exists>ms. v = JObj ms")
  case True
  then obtain ms where v: "v = JObj ms" by blast
  with assms obtain cs where in_op: "parse_in len key v = Inr cs" and c: "c = \<lparr>fc_key = key, fc_vals = cs\<rparr>" "metadata_key key"
    by (auto simp: parse_cond_def split: sum.splits if_splits)
  from in_op v obtain op es where "ms = [(op, JArr es)]" "scalars ''filter'' key es = Inr cs" "es \<noteq> []"
    by (auto simp: parse_in_def decode_object_def split: if_splits list.splits json.splits prod.splits)
  with c v scalars_Inr show ?thesis by (fastforce simp: wanted_def)
next
  case False
  with assms show ?thesis
    by (auto simp: parse_cond_def scalar_iff wanted_def split: json.splits sum.splits if_splits)
qed

lemma parse_conds_Inr:
  "parse_conds len ms = Inr f \<Longrightarrow>
   f = map (\<lambda>(k, v). \<lparr>fc_key = k, fc_vals = wanted v\<rparr>) ms \<and>
   list_all (\<lambda>(k, v). metadata_key k \<and> wanted v \<noteq> [] \<and> list_all metadata_scalar (wanted v)) ms"
proof (induction ms arbitrary: f)
  case (Cons m ms)
  obtain k v where m: "m = (k, v)" by force
  with Cons.prems obtain c cs where "parse_cond len k v = Inr c" "parse_conds len ms = Inr cs" "f = c # cs"
    by (auto split: sum.splits)
  with parse_cond_Inr Cons.IH m show ?case by fastforce
qed simp

lemma parse_metadata_filter_Inr:
  assumes "parse_metadata_filter len j = Inr f"
  obtains ms where "j = JObj ms" "distinct (map fst ms)" "length ms \<le> maxMetadataKeys"
    "f = map (\<lambda>(k, v). \<lparr>fc_key = k, fc_vals = wanted v\<rparr>) ms"
    "list_all (\<lambda>(k, v). metadata_key k \<and> wanted v \<noteq> [] \<and> list_all metadata_scalar (wanted v)) ms"
  using assms parse_conds_Inr
  by (auto simp: parse_metadata_filter_def decode_object_def split: sum.splits if_splits json.splits)

context jsonb
begin

lemma contains_either:
  assumes "distinct (map fst doc)" "list_all metadata_member doc" "metadata_scalar v"
  shows "contains (JObj doc) (JObj [(k, v)]) \<or> contains (JObj doc) (JObj [(k, JArr [v])]) \<longleftrightarrow>
    (\<exists>x\<in>set (values_at doc k). same_scalar x v)"
proof (cases "map_of doc k")
  case None
  with assms(1) show ?thesis by (simp add: contains_member values_at_def)
next
  case (Some w)
  then have "metadata_value w"
    using assms(2) map_of_SomeD [OF Some] by (auto simp: list_all_iff metadata_member_def)
  show ?thesis
  proof (cases "\<exists>es. w = JArr es")
    case True
    then obtain es where w: "w = JArr es" by blast
    with \<open>metadata_value w\<close> have "metadata_scalar e" if "e \<in> set es" for e
      using that by (simp add: metadata_value_def list_all_iff)
    with w Some assms(1,3) show ?thesis
      by (auto simp: contains_member values_at_def inside_array array_not_inside_scalar inside_scalar)
  next
    case False
    with \<open>metadata_value w\<close> have "metadata_scalar w" by (auto simp: metadata_value_def split: json.splits)
    moreover from False Some have "values_at doc k = [w]" by (auto simp: values_at_def split: json.splits)
    ultimately show ?thesis using Some assms(1,3)
      by (simp add: contains_member inside_scalar scalar_not_inside_array)
  qed
qed

lemma wanted_docs_meaning:
  assumes "distinct (map fst doc)" "list_all metadata_member doc" "list_all metadata_scalar (fc_vals c)"
  shows "list_ex (contains (JObj doc)) (wanted_docs c) \<longleftrightarrow>
    (\<exists>x\<in>set (values_at doc (fc_key c)). \<exists>v\<in>set (fc_vals c). same_scalar x v)"
proof -
  have "list_ex (contains (JObj doc)) (wanted_docs c) \<longleftrightarrow>
    (\<exists>v\<in>set (fc_vals c). contains (JObj doc) (JObj [(fc_key c, v)]) \<or> contains (JObj doc) (JObj [(fc_key c, JArr [v])]))"
    by (auto simp: wanted_docs_def list_ex_iff)
  also have "\<dots> \<longleftrightarrow> (\<exists>v\<in>set (fc_vals c). \<exists>x\<in>set (values_at doc (fc_key c)). same_scalar x v)"
    using assms by (intro bex_cong refl contains_either) (simp_all add: list_all_iff)
  finally show ?thesis by blast
qed

lemma filter_meaning:
  assumes "distinct (map fst doc)" "list_all metadata_member doc" "parse_metadata_filter len (JObj fs) = Inr f"
  shows "list_all (list_ex (contains (JObj doc))) (snd (predicate alias first f)) \<longleftrightarrow> filter_means fs doc"
proof -
  from assms(3) obtain
    "f = map (\<lambda>(k, v). \<lparr>fc_key = k, fc_vals = wanted v\<rparr>) fs"
    and w: "list_all (\<lambda>(k, v). metadata_key k \<and> wanted v \<noteq> [] \<and> list_all metadata_scalar (wanted v)) fs"
    by (rule parse_metadata_filter_Inr) auto
  then have "list_all (list_ex (contains (JObj doc))) (snd (predicate alias first f)) \<longleftrightarrow>
    (\<forall>(k, v)\<in>set fs. list_ex (contains (JObj doc)) (wanted_docs \<lparr>fc_key = k, fc_vals = wanted v\<rparr>))"
    by (auto simp: predicate_def list_all_iff)
  also have "\<dots> \<longleftrightarrow> filter_means fs doc"
  proof -
    have "list_ex (contains (JObj doc)) (wanted_docs \<lparr>fc_key = k, fc_vals = wanted v\<rparr>) \<longleftrightarrow>
      list_ex (\<lambda>x. list_ex (same_scalar x) (wanted v)) (values_at doc k)" if "(k, v) \<in> set fs" for k v
    proof -
      from w that have "list_all metadata_scalar (fc_vals \<lparr>fc_key = k, fc_vals = wanted v\<rparr>)"
        by (auto simp: list_all_iff)
      from wanted_docs_meaning [OF assms(1,2) this] show ?thesis
        by (simp only: list_ex_iff filter_cond.simps)
    qed
    then show ?thesis unfolding filter_means_def list_all_iff by (intro ball_cong refl) auto
  qed
  finally show ?thesis .
qed

end

text \<open>Containment with these laws, as PostgreSQL's documentation describes it.\<close>

fun jsonb_within :: "json \<Rightarrow> json \<Rightarrow> bool" where
  "jsonb_within (JObj ms) (JObj ws) =
     list_all (\<lambda>(k, v). case map_of ms k of None \<Rightarrow> False | Some w \<Rightarrow> jsonb_within w v) ws"
| "jsonb_within (JArr xs) (JArr ys) = list_all (\<lambda>y. list_ex (\<lambda>x. jsonb_within x y) xs) ys"
| "jsonb_within (JObj ms) b = False"
| "jsonb_within (JArr xs) b = False"
| "jsonb_within a b = same_scalar a b"

definition jsonb_contains :: "json \<Rightarrow> json \<Rightarrow> bool" where
  "jsonb_contains a b \<longleftrightarrow>
     (case (a, b) of
        (JArr xs, JArr ys) \<Rightarrow> jsonb_within a b
      | (JArr xs, JObj ws) \<Rightarrow> False
      | (JArr xs, _) \<Rightarrow> list_ex (\<lambda>x. jsonb_within x b) xs
      | _ \<Rightarrow> jsonb_within a b)"

interpretation postgres: jsonb jsonb_contains jsonb_within
proof unfold_locales
  fix ms :: "(bytes \<times> json) list" and k v
  assume "distinct (map fst ms)"
  show "jsonb_contains (JObj ms) (JObj [(k, v)]) \<longleftrightarrow> (\<exists>w. map_of ms k = Some w \<and> jsonb_within w v)"
    by (simp add: jsonb_contains_def split: option.split)
next
  fix a b assume "metadata_scalar a" "metadata_scalar b"
  then show "jsonb_within a b \<longleftrightarrow> same_scalar a b" by (cases a; cases b) (simp_all add: metadata_scalar_def)
next
  fix xs v show "jsonb_within (JArr xs) (JArr [v]) \<longleftrightarrow> (\<exists>x\<in>set xs. jsonb_within x v)"
    by (simp add: list_ex_iff)
next
  fix v xs assume "metadata_scalar v"
  then show "\<not> jsonb_within (JArr xs) v" by (cases v) (simp_all add: metadata_scalar_def)
next
  fix a ys assume "metadata_scalar a"
  then show "\<not> jsonb_within a (JArr ys)" by (cases a) (simp_all add: metadata_scalar_def same_scalar_def)
qed

text \<open>Small inputs, for evaluation: the size guard is a large number.\<close>

lemma decode_object_small:
  "len \<le> 60000 \<Longrightarrow> distinct (map fst ms) \<Longrightarrow> decode_object len what (JObj ms) = Inr ms"
  by (simp add: decode_object_def maxMetadataInputBytes_def)

lemma sample_metadata:
  "validate_metadata 40 (JObj [(''b'', JBool False), (''a'', JArr [JStr ''x'', JBool True])]) =
   Inr (JObj [(''a'', JArr [JStr ''x'', JBool True]), (''b'', JBool False)])"
proof -
  have "check_members False 2 (sort_key fst [(''b'', JBool False), (''a'', JArr [JStr ''x'', JBool True])]) =
    Inr ([(''a'', JArr [JStr ''x'', JBool True]), (''b'', JBool False)], 30)" by code_simp
  then show ?thesis
    by (simp add: validate_metadata_def decode_object_small maxMetadataKeys_def too_big_def maxMetadataBytes_def)
qed

lemma sample_filter:
  "parse_metadata_filter 50 (JObj [(''a'', JObj [(''in'', JArr [JStr ''c'', JStr ''x''])]), (''b'', JBool False)]) =
   Inr [\<lparr>fc_key = ''a'', fc_vals = [JStr ''c'', JStr ''x'']\<rparr>, \<lparr>fc_key = ''b'', fc_vals = [JBool False]\<rparr>]"
proof -
  have "metadata_key ''a''" "metadata_key ''b''"
    "scalars ''filter'' ''a'' [JStr ''c'', JStr ''x''] = Inr [JStr ''c'', JStr ''x'']" by code_simp+
  then show ?thesis
    by (simp add: parse_metadata_filter_def decode_object_small maxMetadataKeys_def parse_cond_def parse_in_def
        maxMetadataArrayLen_def scalar_def)
qed

section \<open>Properties\<close>

text \<open>C34: Metadata is accepted exactly when it has the documented shape: a JSON object of at
  most 32 distinct well-formed keys, each with a string of at most 256 bytes without NUL,
  a bounded finite number, a boolean or an array of at most 100 of those, the text
  PostgreSQL prints for it being at most 8192 bytes. What is stored is the same object with
  its members in the order of their keys.\<close>

theorem validation_is_the_documented_check:
  "validate_metadata len j = Inr m \<longleftrightarrow>
   len \<le> maxMetadataInputBytes \<and>
   (\<exists>ms. j = JObj ms \<and> m = JObj (sort_key fst ms) \<and> distinct (map fst ms) \<and>
      length ms \<le> maxMetadataKeys \<and> list_all metadata_member ms \<and>
      length (pg_text m) \<le> maxMetadataBytes)"
  by (rule validate_metadata_iff)

text \<open>Stored metadata sent back as it was returned is accepted and unchanged, and its keys are those submitted.\<close>

theorem stored_metadata_revalidates:
  assumes "validate_metadata len j = Inr m" "len' \<le> maxMetadataInputBytes"
  shows "validate_metadata len' m = Inr m \<and> metadata_keys len' m = metadata_keys len j"
proof -
  from assms(1) obtain ms where ms: "j = JObj ms" "m = JObj (sort_key fst ms)" "distinct (map fst ms)"
    "length ms \<le> maxMetadataKeys" "list_all metadata_member ms" "length (pg_text m) \<le> maxMetadataBytes"
    "len \<le> maxMetadataInputBytes"
    unfolding validate_metadata_iff by blast
  let ?ms = "sort_key fst ms"
  have "sort_key fst ?ms = ?ms" by (intro sort_key_id_if_sorted) simp
  moreover have "list_all metadata_member ?ms" using ms(5) by (simp add: list_all_iff)
  ultimately have "validate_metadata len' m = Inr m"
    unfolding validate_metadata_iff using ms(2,4,6) assms(2) distinct_sort_key [OF ms(3)]
    by (intro conjI exI [of _ ?ms]) simp_all
  moreover have "sort (map fst ?ms) = sort (map fst ms)"
    by (intro properties_for_sort) simp_all
  ultimately show ?thesis
    using ms assms(2) distinct_sort_key [OF ms(3)] by (simp add: metadata_keys_def decode_object_def)
qed

lemma stored_metadata_revalidates_witness:
  "validate_metadata 38 (JObj [(''a'', JArr [JStr ''x'', JBool True]), (''b'', JBool False)]) =
     Inr (JObj [(''a'', JArr [JStr ''x'', JBool True]), (''b'', JBool False)])"
proof -
  have "38 \<le> maxMetadataInputBytes" by (simp add: maxMetadataInputBytes_def)
  from stored_metadata_revalidates [OF sample_metadata this] show ?thesis ..
qed

text \<open>A number printed in full has the value it was written with, and no exponent.\<close>

theorem printed_number_keeps_its_value:
  assumes "json_number s"
  shows "decimal_value (numeric_text s) = decimal_value s \<and> np_exp (number_parts (numeric_text s)) = 0"
  using decimal_value_numeric_text [OF assms] numeric_text_parts [OF assms]
  by (metis number_parts.select_convs(4))

lemma printed_number_keeps_its_value_witness:
  "numeric_text ''-0.5e4'' = ''-5000'' \<and> decimal_value (numeric_text ''-0.5e4'') = decimal_value ''-0.5e4''"
proof -
  have "json_number ''-0.5e4''" by code_simp
  from printed_number_keeps_its_value [OF this] have "decimal_value (numeric_text ''-0.5e4'') = decimal_value ''-0.5e4''" ..
  moreover have "numeric_text ''-0.5e4'' = ''-5000''" by code_simp
  ultimately show ?thesis by blast
qed

text \<open>C35: A filter lets a document through exactly when each of its keys has one of the
  wanted values in the document, or an array holding one: the containment conditions it
  compiles to say no more and no less.\<close>

theorem filter_selects_what_it_means:
  assumes "jsonb contains inside"
    and "validate_metadata len j = Inr (JObj doc)"
    and "parse_metadata_filter n (JObj fs) = Inr f"
  shows "list_all (list_ex (contains (JObj doc))) (snd (predicate alias first f)) \<longleftrightarrow> filter_means fs doc"
proof -
  from assms(2) obtain ms where "doc = sort_key fst ms" "distinct (map fst ms)" "list_all metadata_member ms"
    unfolding validate_metadata_iff by blast
  then have "distinct (map fst doc)" "list_all metadata_member doc"
    by (simp_all add: distinct_sort_key list_all_iff)
  then show ?thesis by (rule jsonb.filter_meaning [OF assms(1) _ _ assms(3)])
qed

lemma filter_selects_what_it_means_witness:
  "list_all (list_ex (jsonb_contains (JObj [(''a'', JArr [JStr ''x'', JBool True]), (''b'', JBool False)])))
     (snd (predicate ''fd'' 2
       [\<lparr>fc_key = ''a'', fc_vals = [JStr ''c'', JStr ''x'']\<rparr>, \<lparr>fc_key = ''b'', fc_vals = [JBool False]\<rparr>]))"
proof -
  have "filter_means [(''a'', JObj [(''in'', JArr [JStr ''c'', JStr ''x''])]), (''b'', JBool False)]
    [(''a'', JArr [JStr ''x'', JBool True]), (''b'', JBool False)]" by code_simp
  then show ?thesis
    by (rule filter_selects_what_it_means [OF postgres.jsonb_axioms sample_metadata sample_filter, THEN iffD2])
qed

end
