(* ===== verification/Runes.thy ===== *)
theory Runes
  imports GoStrings
begin

text \<open>
  Text as a list of runes, for the code that converts strings to \<open>[]rune\<close> or walks them
  with \<open>range\<close>: white space, \<open>TrimSpace\<close>, \<open>Fields\<close>, and UTF-8. Decoding follows Go: a byte
  that starts no valid sequence is U+FFFD and one byte is consumed.
\<close>

type_synonym ustring = "rune list"

text \<open>A text given by its ASCII characters.\<close>

definition ascii :: "bytes \<Rightarrow> ustring" where "ascii s = map of_char s"

section \<open>White space\<close>

definition space_rune :: "rune \<Rightarrow> bool" where
  "space_rune r \<longleftrightarrow>
     (if r < 0x100 then (9 \<le> r \<and> r \<le> 13) \<or> r = 0x20 \<or> r = 0x85 \<or> r = 0xA0
      else r = 0x1680 \<or> (0x2000 \<le> r \<and> r \<le> 0x200A) \<or> r = 0x2028 \<or> r = 0x2029 \<or> r = 0x202F \<or> r = 0x205F \<or> r = 0x3000)"

definition trim_end :: "('a \<Rightarrow> bool) \<Rightarrow> 'a list \<Rightarrow> 'a list" where
  "trim_end P s = rev (dropWhile P (rev s))"

definition trim :: "ustring \<Rightarrow> ustring" where
  "trim s = trim_end space_rune (dropWhile space_rune s)"

text \<open>\<open>strings.Fields\<close> and \<open>FieldsFunc\<close>: the maximal runs without a separator.\<close>

fun pieces :: "('a \<Rightarrow> bool) \<Rightarrow> 'a list \<Rightarrow> 'a list list" where
  "pieces P [] = [[]]"
| "pieces P (c # s) =
     (if P c then [] # pieces P s
      else (case pieces P s of [] \<Rightarrow> [[c]] | w # ws \<Rightarrow> (c # w) # ws))"

definition fields_by :: "('a \<Rightarrow> bool) \<Rightarrow> 'a list \<Rightarrow> 'a list list" where
  "fields_by P s = filter (\<lambda>w. w \<noteq> []) (pieces P s)"

lemma length_trim_end: "length (trim_end P s) \<le> length s"
  by (simp add: trim_end_def) (metis length_dropWhile_le length_rev)

lemma length_trim: "length (trim s) \<le> length s"
  using length_trim_end [of space_rune "dropWhile space_rune s"] length_dropWhile_le [of space_rune s]
  by (simp add: trim_def)

lemma trim_end_snoc: "trim_end P (s @ [c]) = (if P c then trim_end P s else s @ [c])"
  by (simp add: trim_end_def)

lemma trim_end_append: "s \<noteq> [] \<Longrightarrow> \<not> P (last s) \<Longrightarrow> trim_end P (t @ s) = t @ s"
  by (cases s rule: rev_cases) (simp_all add: trim_end_snoc flip: append_assoc)

lemma trim_end_fixed: "trim_end P (trim_end P s) = trim_end P s"
  by (simp add: trim_end_def)

lemma trim_decomp: "\<exists>u v. s = u @ trim s @ v"
proof -
  have "s = takeWhile space_rune s @ dropWhile space_rune s" by simp
  moreover have "dropWhile space_rune s = trim s @ rev (takeWhile space_rune (rev (dropWhile space_rune s)))"
    unfolding trim_def trim_end_def by (metis rev_append rev_rev_ident takeWhile_dropWhile_id)
  ultimately show ?thesis by metis
qed

lemma trim_ends: "trim s \<noteq> [] \<Longrightarrow> \<not> space_rune (hd (trim s)) \<and> \<not> space_rune (last (trim s))"
proof -
  let ?d = "dropWhile space_rune s"
  assume ne: "trim s \<noteq> []"
  obtain v where d: "?d = trim s @ v"
    unfolding trim_def trim_end_def by (metis rev_append rev_rev_ident takeWhile_dropWhile_id)
  with ne have "?d \<noteq> []" by auto
  then have "\<not> space_rune (hd ?d)" using hd_dropWhile by blast
  moreover from d ne have "hd ?d = hd (trim s)" by simp
  moreover have "\<not> space_rune (last (trim s))"
    using ne unfolding trim_def trim_end_def by (metis hd_dropWhile last_rev rev_is_Nil_conv)
  ultimately show ?thesis by simp
qed

lemma trim_fixed: "s = [] \<or> \<not> space_rune (hd s) \<and> \<not> space_rune (last s) \<Longrightarrow> trim s = s"
proof -
  assume s: "s = [] \<or> \<not> space_rune (hd s) \<and> \<not> space_rune (last s)"
  then have "dropWhile space_rune s = s" by (cases s) auto
  with s show ?thesis using trim_end_append [of s space_rune "[]"]
    by (cases "s = []") (simp_all add: trim_def trim_end_def)
qed

lemma trim_idem [simp]: "trim (trim s) = trim s"
  using trim_ends trim_fixed by blast

text \<open>What does not begin or end with white space survives trimming of anything around it.\<close>

lemma trim_keeps:
  assumes "m \<noteq> []" "\<not> space_rune (hd m)" "\<not> space_rune (last m)"
  shows "\<exists>u' v'. trim (u @ m @ v) = u' @ m @ v'"
proof -
  have "\<exists>u'. dropWhile space_rune (u @ m @ v) = u' @ m @ v"
  proof (induction u)
    case Nil
    with assms(1,2) show ?case by (cases m) auto
  next
    case (Cons c u)
    then show ?case by (cases "space_rune c") (auto intro: exI [of _ "c # u"])
  qed
  then obtain u' where u: "dropWhile space_rune (u @ m @ v) = u' @ m @ v" ..
  have "\<exists>v'. trim_end space_rune (u' @ m @ v) = u' @ m @ v'"
  proof (induction v rule: rev_induct)
    case Nil
    show ?case using trim_end_append [of m space_rune u'] assms by auto
  next
    case (snoc c v)
    have "trim_end space_rune (u' @ m @ v @ [c]) =
        (if space_rune c then trim_end space_rune (u' @ m @ v) else u' @ m @ v @ [c])"
      using trim_end_snoc [of space_rune "u' @ m @ v" c] by simp
    then show ?case using snoc
      by (cases "space_rune c") (metis (no_types))+
  qed
  with u show ?thesis by (auto simp: trim_def)
qed

section \<open>Fields\<close>

lemma pieces_clean: "w \<in> set (pieces P s) \<Longrightarrow> list_all (\<lambda>c. \<not> P c) w"
  by (induction P s arbitrary: w rule: pieces.induct) (auto split: if_splits list.splits)

lemma fields_by_clean: "w \<in> set (fields_by P s) \<Longrightarrow> w \<noteq> [] \<and> list_all (\<lambda>c. \<not> P c) w"
  using pieces_clean by (auto simp: fields_by_def)

section \<open>UTF-8\<close>

definition rune_error :: rune where "rune_error = 0xFFFD"

definition valid_rune :: "rune \<Rightarrow> bool" where
  "valid_rune r \<longleftrightarrow> r < 0xD800 \<or> (0xE000 \<le> r \<and> r \<le> 0x10FFFF)"

text \<open>\<open>utf8.RuneLen\<close> and \<open>utf8.AppendRune\<close>, on code points.\<close>

definition rune_len :: "rune \<Rightarrow> nat" where
  "rune_len r = (if r < 0x80 then 1 else if r < 0x800 then 2 else if r < 0x10000 then 3 else 4)"

definition cont :: "nat \<Rightarrow> char" where "cont n = char_of (0x80 + n mod 0x40)"

definition encode_rune :: "rune \<Rightarrow> bytes" where
  "encode_rune r =
     (let r = (if valid_rune r then r else rune_error) in
      if r < 0x80 then [char_of r]
      else if r < 0x800 then [char_of (0xC0 + r div 0x40), cont r]
      else if r < 0x10000 then [char_of (0xE0 + r div 0x1000), cont (r div 0x40), cont r]
      else [char_of (0xF0 + r div 0x40000), cont (r div 0x1000), cont (r div 0x40), cont r])"

definition encode :: "ustring \<Rightarrow> bytes" where "encode rs = concat (map encode_rune rs)"

abbreviation byte :: "char \<Rightarrow> nat" where "byte c \<equiv> of_char c"

definition is_cont :: "char \<Rightarrow> bool" where "is_cont c \<longleftrightarrow> 0x80 \<le> byte c \<and> byte c < 0xC0"

text \<open>The first rune and the number of bytes it takes.\<close>

fun decode_rune :: "bytes \<Rightarrow> rune \<times> nat" where
  "decode_rune [] = (rune_error, 0)"
| "decode_rune (a # s) =
     (let x = byte a in
      if x < 0x80 then (x, 1)
      else if 0xC2 \<le> x \<and> x < 0xE0 then
        (case s of
           b # _ \<Rightarrow> if is_cont b then ((x - 0xC0) * 0x40 + (byte b - 0x80), 2) else (rune_error, 1)
         | _ \<Rightarrow> (rune_error, 1))
      else if 0xE0 \<le> x \<and> x < 0xF0 then
        (case s of
           b # c # _ \<Rightarrow>
             (let r = (x - 0xE0) * 0x1000 + (byte b - 0x80) * 0x40 + (byte c - 0x80) in
              if is_cont b \<and> is_cont c \<and> 0x800 \<le> r \<and> valid_rune r then (r, 3) else (rune_error, 1))
         | _ \<Rightarrow> (rune_error, 1))
      else if 0xF0 \<le> x \<and> x < 0xF5 then
        (case s of
           b # c # d # _ \<Rightarrow>
             (let r = (x - 0xF0) * 0x40000 + (byte b - 0x80) * 0x1000 + (byte c - 0x80) * 0x40 + (byte d - 0x80) in
              if is_cont b \<and> is_cont c \<and> is_cont d \<and> 0x10000 \<le> r \<and> valid_rune r then (r, 4)
              else (rune_error, 1))
         | _ \<Rightarrow> (rune_error, 1))
      else (rune_error, 1))"

lemma decode_rune_pos: "s \<noteq> [] \<Longrightarrow> 0 < snd (decode_rune s)"
  by (cases s) (auto simp: Let_def split: list.splits)

function runes :: "bytes \<Rightarrow> ustring" where
  "runes s = (if s = [] then [] else (let (r, n) = decode_rune s in r # runes (drop n s)))"
  by auto
termination
proof (relation "measure length")
  fix s :: bytes and x r n
  assume *: "s \<noteq> []" "x = decode_rune s" "(r, n) = x"
  then have "0 < n" using decode_rune_pos [of s] by (metis snd_conv)
  with *(1) show "(drop n s, s) \<in> measure length" by simp
qed simp

declare runes.simps [simp del]

definition rune_count :: "bytes \<Rightarrow> nat" where "rune_count s = length (runes s)"

lemma runes_Nil [simp]: "runes [] = []"
  by (simp add: runes.simps)

lemma runes_Cons: "s \<noteq> [] \<Longrightarrow> runes s = fst (decode_rune s) # runes (drop (snd (decode_rune s)) s)"
  by (simp add: runes.simps [of s] case_prod_beta Let_def)

text \<open>Decoding what was encoded: every valid code point comes back.\<close>

lemma byte_char: "n < 256 \<Longrightarrow> byte (char_of n) = n"
  by simp

lemma byte_cont: "byte (cont n) = 0x80 + n mod 0x40"
  unfolding cont_def by (rule byte_char) (use mod_less_divisor [of 64 n] in linarith)

lemma is_cont_cont [simp]: "is_cont (cont n)"
  using mod_less_divisor [of 64 n] by (simp add: is_cont_def byte_cont)

lemma split_twice: "r div 0x1000 * 0x1000 + (r div 0x40) mod 0x40 * 0x40 + r mod 0x40 = (r :: nat)"
proof -
  have "r div 64 div 64 = r div 0x1000" by (simp flip: div_mult2_eq)
  then have "r div 0x1000 * 64 + (r div 64) mod 64 = r div 64" by (metis div_mult_mod_eq)
  then have "(r div 0x1000 * 64 + (r div 64) mod 64) * 64 + r mod 64 = r" by (metis div_mult_mod_eq)
  then show ?thesis by (simp add: distrib_right)
qed

lemma split_thrice:
  "r div 0x40000 * 0x40000 + (r div 0x1000) mod 0x40 * 0x1000 + (r div 0x40) mod 0x40 * 0x40 + r mod 0x40 = (r :: nat)"
proof -
  have "r div 0x1000 div 64 = r div 0x40000" by (simp flip: div_mult2_eq)
  then have "r div 0x40000 * 64 + (r div 0x1000) mod 64 = r div 0x1000" by (metis div_mult_mod_eq)
  then have "(r div 0x40000 * 64 + (r div 0x1000) mod 64) * 0x1000 + (r div 0x40) mod 0x40 * 0x40 + r mod 0x40 = r"
    by (metis split_twice)
  then show ?thesis by (simp add: distrib_right)
qed

lemma decode_encode_rune:
  assumes "valid_rune r"
  shows "decode_rune (encode_rune r @ s) = (r, length (encode_rune r))"
proof -
  have max: "r \<le> 0x10FFFF" using assms by (auto simp: valid_rune_def)
  consider "r < 0x80" | "0x80 \<le> r" "r < 0x800" | "0x800 \<le> r" "r < 0x10000" | "0x10000 \<le> r" by linarith
  then show ?thesis
  proof cases
    case 1
    with assms show ?thesis by (simp add: encode_rune_def byte_char)
  next
    case 2
    then have x: "2 \<le> r div 64" "r div 64 < 32" by auto
    then have b: "byte (char_of (0xC0 + r div 64)) = 0xC0 + r div 64" by (intro byte_char) simp
    from assms 2 have e: "encode_rune r = [char_of (0xC0 + r div 64), cont r]" by (simp add: encode_rune_def)
    show ?thesis unfolding e append.simps decode_rune.simps Let_def b
      using x div_mult_mod_eq [of r 64] by (simp add: byte_cont)
  next
    case 3
    then have x: "r div 0x1000 < 16" by auto
    then have b: "byte (char_of (0xE0 + r div 0x1000)) = 0xE0 + r div 0x1000" by (intro byte_char) simp
    from assms 3 have e: "encode_rune r = [char_of (0xE0 + r div 0x1000), cont (r div 0x40), cont r]"
      by (simp add: encode_rune_def)
    have "r div 0x1000 * 0x1000 + (r div 0x40) mod 0x40 * 0x40 + r mod 0x40 = r"
      by (rule split_twice)
    then show ?thesis unfolding e append.simps decode_rune.simps Let_def b
      using x 3 assms by (simp add: byte_cont)
  next
    case 4
    with max have x: "r div 0x40000 < 5" by auto
    then have b: "byte (char_of (0xF0 + r div 0x40000)) = 0xF0 + r div 0x40000" by (intro byte_char) simp
    from assms 4 have e: "encode_rune r = [char_of (0xF0 + r div 0x40000), cont (r div 0x1000), cont (r div 0x40), cont r]"
      by (simp add: encode_rune_def)
    have "r div 0x40000 * 0x40000 + (r div 0x1000) mod 0x40 * 0x1000 + (r div 0x40) mod 0x40 * 0x40 + r mod 0x40 = r"
      by (rule split_thrice)
    then show ?thesis unfolding e append.simps decode_rune.simps Let_def b
      using x 4 assms by (simp add: byte_cont)
  qed
qed

lemma encode_rune_nonempty [simp]: "encode_rune r \<noteq> []"
  by (simp add: encode_rune_def Let_def)

lemma runes_encode: "list_all valid_rune rs \<Longrightarrow> runes (encode rs) = rs"
proof (induction rs)
  case (Cons r rs)
  have "encode (r # rs) = encode_rune r @ encode rs" by (simp add: encode_def)
  moreover from this have "encode (r # rs) \<noteq> []" by simp
  ultimately show ?case using Cons decode_encode_rune [of r "encode rs"] by (simp add: runes_Cons)
qed (simp add: encode_def)

lemma length_encode: "list_all valid_rune rs \<Longrightarrow> length (encode rs) = sum_list (map rune_len rs)"
  by (induction rs) (auto simp: encode_def encode_rune_def rune_len_def Let_def)

end
