(* ===== verification/Chunk.thy ===== *)
theory Chunk
  imports Runes Float64
begin

text \<open>
  How a document becomes the chunks that are embedded (\<open>internal/rag/chunk.go\<close>): paragraphs,
  the windows of an oversized paragraph, and the packing of both into chunks with an
  overlap. Text is a list of runes. The loop over the windows is a partial function: that
  it returns, for every size and overlap a caller can ask for, is a property below. The
  closure \<open>flush\<close> and the variables it captures are a record.
\<close>

section \<open>The windows of one paragraph\<close>

definition newline :: rune where "newline = 10"
definition blank :: rune where "blank = 32"

definition sentence_end :: "rune \<Rightarrow> bool" where
  "sentence_end c \<longleftrightarrow> c = 46 \<or> c = 33 \<or> c = 63 \<or> c = newline"

text \<open>The last position above \<open>m\<close> and at most \<open>i\<close> right behind a rune with the property.\<close>

fun last_break :: "(rune \<Rightarrow> bool) \<Rightarrow> ustring \<Rightarrow> nat \<Rightarrow> nat \<Rightarrow> nat option" where
  "last_break P r m 0 = None"
| "last_break P r m (Suc i) =
     (if Suc i \<le> m then None else if P (r ! i) then Some (Suc i) else last_break P r m i)"

definition cut_at :: "ustring \<Rightarrow> nat \<Rightarrow> nat \<Rightarrow> nat" where
  "cut_at r width stop =
     (let m = stop - width div 5;
          cut = (case last_break sentence_end r m stop of Some i \<Rightarrow> i | None \<Rightarrow> stop)
      in if cut = stop
         then (case last_break (\<lambda>c. c = blank) r m stop of Some i \<Rightarrow> i | None \<Rightarrow> stop)
         else cut)"

partial_function (option) windows :: "ustring \<Rightarrow> nat \<Rightarrow> nat \<Rightarrow> nat \<Rightarrow> (nat \<times> nat) list option" where
  "windows r width overlap start =
     (if start \<ge> length r then Some []
      else if start + width \<ge> length r then Some [(start, length r)]
      else
        (let cut = cut_at r width (start + width);
             next = (if cut - overlap \<le> start then cut else cut - overlap)
         in Option.bind (windows r width overlap next) (\<lambda>ws. Some ((start, cut) # ws))))"

declare windows.simps [code]

definition slide :: "ustring \<Rightarrow> nat \<Rightarrow> nat \<Rightarrow> ustring list option" where
  "slide r width overlap =
     map_option (map (\<lambda>(s, c). trim (drop s (take c r)))) (windows r width overlap 0)"

section \<open>Paragraphs\<close>

record block =
  b_text :: ustring
  b_section :: bytes
  b_page :: int

record piece =
  u_text :: ustring
  u_section :: bytes
  u_page :: int

text \<open>\<open>strings.Split\<close> at blank lines.\<close>

fun split_paragraphs :: "ustring \<Rightarrow> ustring list" where
  "split_paragraphs [] = [[]]"
| "split_paragraphs [c] = [[c]]"
| "split_paragraphs (c # d # s) =
     (if c = newline \<and> d = newline then [] # split_paragraphs s
      else (case split_paragraphs (d # s) of [] \<Rightarrow> [[c]] | p # ps \<Rightarrow> (c # p) # ps))"

fun paragraph_units :: "nat \<Rightarrow> nat \<Rightarrow> block \<Rightarrow> ustring list \<Rightarrow> piece list option" where
  "paragraph_units width overlap b [] = Some []"
| "paragraph_units width overlap b (p # ps) =
     (let p = trim p;
          unit = (\<lambda>t. \<lparr>u_text = t, u_section = b_section b, u_page = b_page b\<rparr>);
          units = (if p = [] then Some []
                   else if length p \<le> width then Some [unit p]
                   else map_option (map unit) (slide p width overlap))
      in Option.bind units (\<lambda>us. Option.bind (paragraph_units width overlap b ps) (\<lambda>vs. Some (us @ vs))))"

fun block_units :: "nat \<Rightarrow> nat \<Rightarrow> block list \<Rightarrow> piece list option" where
  "block_units width overlap [] = Some []"
| "block_units width overlap (b # bs) =
     Option.bind (paragraph_units width overlap b (split_paragraphs (trim (b_text b))))
       (\<lambda>us. Option.bind (block_units width overlap bs) (\<lambda>vs. Some (us @ vs)))"

section \<open>Packing\<close>

record chunk =
  ch_index :: nat
  ch_content :: ustring
  ch_section :: bytes
  ch_page :: int

record packer =
  pk_out :: "chunk list"
  pk_cur :: ustring
  pk_section :: bytes
  pk_page :: int
  pk_only_overlap :: bool

definition no_packer :: packer where
  "no_packer = \<lparr>pk_out = [], pk_cur = [], pk_section = [], pk_page = 0, pk_only_overlap = False\<rparr>"

definition emit :: "packer \<Rightarrow> chunk list" where
  "emit k = pk_out k @
     [\<lparr>ch_index = length (pk_out k), ch_content = trim (pk_cur k), ch_section = pk_section k, ch_page = pk_page k\<rparr>]"

text \<open>The tail a chunk leaves for the next one, from a word boundary when there is one.\<close>

definition overlap_tail :: "nat \<Rightarrow> ustring \<Rightarrow> ustring" where
  "overlap_tail overlap cur =
     (let tail = drop (length cur - overlap) cur in
      case index_of tail [blank] of
        Some i \<Rightarrow> if i + 1 < length tail then drop (i + 1) tail else tail
      | None \<Rightarrow> tail)"

definition flush :: "nat \<Rightarrow> bool \<Rightarrow> packer \<Rightarrow> packer" where
  "flush overlap keep k =
     (if pk_cur k = [] then k
      else
        (let only = keep \<and> overlap > 0 \<and> length (pk_cur k) > overlap in
         k\<lparr>pk_out := emit k, pk_only_overlap := only,
           pk_cur := (if only then overlap_tail overlap (pk_cur k) else [])\<rparr>))"

definition add_unit :: "nat \<Rightarrow> nat \<Rightarrow> piece \<Rightarrow> packer \<Rightarrow> packer" where
  "add_unit width overlap u k =
     (let k = (if pk_cur k \<noteq> [] \<and> (u_section u \<noteq> pk_section k \<or> u_page u \<noteq> pk_page k)
               then (if pk_only_overlap k then k\<lparr>pk_cur := []\<rparr> else flush overlap False k)
               else k);
          k = (if pk_cur k \<noteq> [] \<and> length (pk_cur k) + 2 + length (u_text u) > width
               then flush overlap True k else k);
          k = (if pk_cur k = [] then k\<lparr>pk_section := u_section u, pk_page := u_page u\<rparr> else k);
          k = (if pk_cur k \<noteq> [] then k\<lparr>pk_cur := pk_cur k @ [newline, newline]\<rparr> else k);
          k = k\<lparr>pk_cur := pk_cur k @ u_text u, pk_only_overlap := False\<rparr>
      in if length (pk_cur k) \<ge> width then flush overlap True k else k)"

definition finish :: "packer \<Rightarrow> chunk list" where
  "finish k =
     (let c = trim (pk_cur k);
          final = (if pk_out k = [] then [] else ch_content (last (pk_out k)))
      in if c \<noteq> [] \<and> \<not> has_suffix final c then emit k else pk_out k)"

definition chunk_size :: "int \<Rightarrow> nat" where
  "chunk_size width = (if width \<le> 0 then 1000 else nat width)"

definition chunk_overlap :: "int \<Rightarrow> int \<Rightarrow> nat" where
  "chunk_overlap width overlap =
     (let n = chunk_size width; v = nat overlap in if v \<ge> n then n div 4 else v)"

definition split_blocks :: "block list \<Rightarrow> int \<Rightarrow> int \<Rightarrow> chunk list option" where
  "split_blocks bs width overlap =
     (let n = chunk_size width; v = chunk_overlap width overlap in
      map_option (\<lambda>us. finish (fold (add_unit n v) us no_packer)) (block_units n v bs))"

definition split_text :: "ustring \<Rightarrow> int \<Rightarrow> int \<Rightarrow> chunk list option" where
  "split_text s width overlap =
     (let s = trim s in
      if s = [] then Some [] else split_blocks [\<lparr>b_text = s, b_section = [], b_page = 0\<rparr>] width overlap)"

section \<open>Token estimates\<close>

definition chars_per_token :: "bytes \<Rightarrow> f64" where
  "chars_per_token language = (if language = ''tr'' then Fin (7 / 2) else Fin 4)"

definition estimate_tokens :: "ustring \<Rightarrow> bytes \<Rightarrow> int" where
  "estimate_tokens s language =
     (case f_div (f_of_int (int (length s))) (chars_per_token language) of Fin x \<Rightarrow> \<lceil>x\<rceil> | _ \<Rightarrow> 0)"

section \<open>Facts about windows\<close>

lemma last_break_Some: "last_break P r m i = Some j \<Longrightarrow> m < j \<and> j \<le> i \<and> P (r ! (j - 1))"
  by (induction P r m i rule: last_break.induct) (auto split: if_splits)

lemma cut_at_bounds: "stop - width div 5 \<le> cut_at r width stop \<and> cut_at r width stop \<le> stop"
  by (auto simp: cut_at_def Let_def split: option.split dest!: last_break_Some)

text \<open>
  The windows of a paragraph of length \<open>n\<close> from position \<open>s\<close> on: each starts at or before the
  end of the one before and behind its start, is at most \<open>w\<close> wide and at least four fifths
  of that, shares at most \<open>v\<close> runes with the next one, and the last one ends the paragraph.
\<close>

fun tiles :: "nat \<Rightarrow> nat \<Rightarrow> nat \<Rightarrow> nat \<Rightarrow> (nat \<times> nat) list \<Rightarrow> bool" where
  "tiles w v n s [] = False"
| "tiles w v n s [(a, c)] \<longleftrightarrow> a = s \<and> c = n \<and> s < n \<and> n \<le> s + w"
| "tiles w v n s ((a, c) # (b, d) # ws) \<longleftrightarrow>
     a = s \<and> c < n \<and> c \<le> s + w \<and> s + w \<le> c + w div 5 \<and> s < b \<and> b \<le> c \<and> c \<le> b + v
     \<and> tiles w v n b ((b, d) # ws)"

lemma tiles_nonempty: "tiles w v n s ws \<Longrightarrow> \<exists>c ws'. ws = (s, c) # ws'"
  by (cases "(w, v, n, s, ws)" rule: tiles.cases) auto

lemma windows_tile:
  "0 < width \<Longrightarrow> start < length r \<Longrightarrow>
   \<exists>ws. windows r width overlap start = Some ws \<and> tiles width overlap (length r) start ws"
proof (induction "length r - start" arbitrary: start rule: less_induct)
  case less
  show ?case
  proof (cases "start + width \<ge> length r")
    case True
    with less.prems show ?thesis by (simp add: windows.simps [of r width overlap start])
  next
    case False
    let ?cut = "cut_at r width (start + width)"
    let ?next = "if ?cut - overlap \<le> start then ?cut else ?cut - overlap"
    have "width div 5 < width" using less.prems(1) by simp
    with cut_at_bounds [of "start + width" width r]
    have cut: "start < ?cut" "?cut \<le> start + width" "start + width \<le> ?cut + width div 5" by auto
    then have n: "start < ?next" "?next \<le> ?cut" "?next < length r" "?cut \<le> ?next + overlap" using False by auto
    then obtain ws where ws: "windows r width overlap ?next = Some ws" "tiles width overlap (length r) ?next ws"
      using less.hyps [of ?next] less.prems by (auto simp: diff_less_mono2)
    then obtain c ws' where "ws = (?next, c) # ws'" using tiles_nonempty by metis
    with ws cut n False less.prems show ?thesis
      by (simp add: windows.simps [of r width overlap start] Let_def)
  qed
qed

text \<open>
  What splitting owes to the text: \<open>paragraphs\<close> are the trimmed paragraphs of the blocks that
  have text; \<open>cut_into\<close> says that \<open>qs\<close> is a paragraph that fits, whole, or windows that tile it.
\<close>

definition paragraphs :: "block list \<Rightarrow> (block \<times> ustring) list" where
  "paragraphs bs =
     concat (map (\<lambda>b. map (Pair b) (filter (\<lambda>p. p \<noteq> []) (map trim (split_paragraphs (trim (b_text b)))))) bs)"

definition cut_into :: "nat \<Rightarrow> nat \<Rightarrow> ustring \<Rightarrow> ustring list \<Rightarrow> bool" where
  "cut_into width overlap p qs \<longleftrightarrow>
     (if length p \<le> width then qs = [p]
      else \<exists>ws. tiles width overlap (length p) 0 ws \<and> qs = map (\<lambda>(s, c). trim (drop s (take c p))) ws)"

definition unit_of :: "block \<Rightarrow> ustring \<Rightarrow> piece" where
  "unit_of b t = \<lparr>u_text = t, u_section = b_section b, u_page = b_page b\<rparr>"

definition units_of :: "(block \<times> ustring) list \<Rightarrow> ustring list list \<Rightarrow> piece list" where
  "units_of ps qss = concat (map2 (\<lambda>(b, p) qs. map (unit_of b) qs) ps qss)"

lemma slide_cut:
  assumes "0 < width" "width < length r"
  shows "\<exists>qs. slide r width overlap = Some qs \<and> cut_into width overlap r qs"
proof -
  obtain ws where "windows r width overlap 0 = Some ws" "tiles width overlap (length r) 0 ws"
    using windows_tile [OF assms(1), of 0 r overlap] assms(2) by fastforce
  with assms(2) show ?thesis by (auto simp: slide_def cut_into_def)
qed

lemma cut_into_fits:
  assumes "cut_into width overlap p qs" "trim p = p"
  shows "list_all (\<lambda>q. length q \<le> width \<and> trim q = q) qs"
proof (cases "length p \<le> width")
  case True
  with assms show ?thesis by (simp add: cut_into_def)
next
  case False
  with assms(1) obtain ws where ws: "tiles width overlap (length p) 0 ws"
    and qs: "qs = map (\<lambda>(s, c). trim (drop s (take c p))) ws" by (auto simp: cut_into_def)
  have "length (drop a (take c p)) \<le> width" if "tiles width overlap (length p) s ws" "(a, c) \<in> set ws" for a c s ws
    using that by (induction width overlap "length p" s ws rule: tiles.induct) auto
  then have "length (trim (drop a (take c p))) \<le> width" if "(a, c) \<in> set ws" for a c
    using that ws length_trim [of "drop a (take c p)"] le_trans by blast
  then show ?thesis unfolding qs by (auto simp: list_all_iff)
qed

text \<open>The paragraphs of a text, a blank line between them, are the text.\<close>

lemma split_paragraphs_join: "join [newline, newline] (split_paragraphs s) = s \<and> split_paragraphs s \<noteq> []"
proof (induction s rule: split_paragraphs.induct)
  case (3 c d s)
  show ?case
  proof (cases "c = newline \<and> d = newline")
    case True
    with 3 show ?thesis by (cases "split_paragraphs s") auto
  next
    case False
    with 3 obtain p ps where "split_paragraphs (d # s) = p # ps" "join [newline, newline] (p # ps) = d # s"
      by (cases "split_paragraphs (d # s)") auto
    with False show ?thesis by (cases ps) auto
  qed
qed simp_all

section \<open>Facts about packing\<close>

definition unit_ok :: "nat \<Rightarrow> piece \<Rightarrow> bool" where
  "unit_ok width u \<longleftrightarrow> length (u_text u) \<le> width \<and> trim (u_text u) = u_text u"

lemma units_of_simps [simp]:
  "units_of [] [] = []"
  "units_of ((b, p) # ps) (qs # qss) = map (unit_of b) qs @ units_of ps qss"
  by (simp_all add: units_of_def)

lemma units_of_append:
  "length ps = length qss \<Longrightarrow> units_of (ps @ ps') (qss @ qss') = units_of ps qss @ units_of ps' qss'"
  by (simp add: units_of_def)

lemma paragraph_units_cut:
  assumes "0 < width"
  shows "\<exists>qss. paragraph_units width overlap b ps = Some (units_of (map (Pair b) (filter (\<lambda>p. p \<noteq> []) (map trim ps))) qss)
    \<and> list_all2 (cut_into width overlap) (filter (\<lambda>p. p \<noteq> []) (map trim ps)) qss"
proof (induction ps)
  case Nil
  show ?case by (intro exI [of _ "[]"]) simp
next
  case (Cons p ps)
  then obtain qss where qss: "paragraph_units width overlap b ps = Some (units_of (map (Pair b) (filter (\<lambda>p. p \<noteq> []) (map trim ps))) qss)"
    "list_all2 (cut_into width overlap) (filter (\<lambda>p. p \<noteq> []) (map trim ps)) qss" by blast
  consider "trim p = []" | "trim p \<noteq> []" "length (trim p) \<le> width" | "trim p \<noteq> []" "width < length (trim p)" by linarith
  then show ?case
  proof cases
    case 2
    then have "cut_into width overlap (trim p) [trim p]" by (simp add: cut_into_def)
    with 2 qss show ?thesis by (intro exI [of _ "[trim p] # qss"]) (simp add: Let_def unit_of_def)
  next
    case 3
    obtain qs where "slide (trim p) width overlap = Some qs" "cut_into width overlap (trim p) qs"
      using slide_cut [OF assms 3(2)] by blast
    with 3 qss show ?thesis
      by (intro exI [of _ "qs # qss"]) (simp add: Let_def unit_of_def [abs_def])
  next
    case 1
    with qss show ?thesis by (intro exI [of _ qss]) (simp add: Let_def)
  qed
qed

lemma block_units_cut:
  assumes "0 < width"
  shows "\<exists>qss. block_units width overlap bs = Some (units_of (paragraphs bs) qss)
    \<and> list_all2 (cut_into width overlap) (map snd (paragraphs bs)) qss"
proof (induction bs)
  case Nil
  show ?case by (intro exI [of _ "[]"]) (simp add: paragraphs_def)
next
  case (Cons b bs)
  let ?ps = "filter (\<lambda>p. p \<noteq> []) (map trim (split_paragraphs (trim (b_text b))))"
  have ps: "paragraphs (b # bs) = map (Pair b) ?ps @ paragraphs bs" by (simp add: paragraphs_def)
  obtain qss where "block_units width overlap bs = Some (units_of (paragraphs bs) qss)"
    "list_all2 (cut_into width overlap) (map snd (paragraphs bs)) qss" using Cons by blast
  moreover obtain pss where pss: "paragraph_units width overlap b (split_paragraphs (trim (b_text b)))
        = Some (units_of (map (Pair b) ?ps) pss)" "list_all2 (cut_into width overlap) ?ps pss"
    using paragraph_units_cut [OF assms] by blast
  moreover have "length (map (Pair b) ?ps) = length pss" using pss(2) list_all2_lengthD by force
  moreover have "map snd (map (Pair b) ?ps) = ?ps" by (simp add: comp_def)
  ultimately show ?case
    unfolding ps map_append by (intro exI [of _ "pss @ qss"]) (simp add: units_of_append list_all2_appendI)
qed

lemma units_of_ok:
  assumes "list_all2 (cut_into width overlap) (map snd ps) qss" "list_all (\<lambda>(b, p). trim p = p) ps"
  shows "list_all (unit_ok width) (units_of ps qss)"
  using assms
proof (induction ps arbitrary: qss)
  case (Cons bp ps)
  then obtain b p qs qss' where eq: "bp = (b, p)" "qss = qs # qss'" "cut_into width overlap p qs" "trim p = p"
    by (cases bp; cases qss) auto
  with cut_into_fits [of width overlap p qs] Cons show ?case by (auto simp: unit_ok_def unit_of_def list_all_iff)
qed simp

lemma paragraphs_trimmed: "list_all (\<lambda>(b, p). trim p = p) (paragraphs bs)"
  by (auto simp: paragraphs_def list_all_iff)

lemma block_units_total:
  assumes "0 < width"
  obtains qss where "block_units width overlap bs = Some (units_of (paragraphs bs) qss)"
    "list_all2 (cut_into width overlap) (map snd (paragraphs bs)) qss"
    "list_all (unit_ok width) (units_of (paragraphs bs) qss)"
  using block_units_cut [OF assms, of overlap bs] units_of_ok [OF _ paragraphs_trimmed] by blast

lemma chunk_size_pos [simp]: "0 < chunk_size width"
  by (simp add: chunk_size_def)

lemma chunk_overlap_less: "chunk_overlap width overlap < chunk_size width"
  using chunk_size_pos [of width] by (auto simp: chunk_overlap_def Let_def intro: div_less_dividend)

lemma length_overlap_tail: "length (overlap_tail overlap cur) \<le> overlap"
  by (auto simp: overlap_tail_def Let_def split: option.split)

text \<open>A unit is in a chunk of its own section and page; an empty one has nothing to lose.\<close>

definition covered :: "chunk list \<Rightarrow> piece \<Rightarrow> bool" where
  "covered cs u \<longleftrightarrow>
     u_text u = [] \<or>
     list_ex (\<lambda>c. sublist (u_text u) (ch_content c) \<and> ch_section c = u_section u \<and> ch_page c = u_page u) cs"

definition pending :: "packer \<Rightarrow> piece \<Rightarrow> bool" where
  "pending k u \<longleftrightarrow>
     \<not> pk_only_overlap k \<and> sublist (u_text u) (pk_cur k) \<and> pk_section k = u_section u \<and> pk_page k = u_page u"

definition chunks_ok :: "nat \<Rightarrow> chunk list \<Rightarrow> bool" where
  "chunks_ok limit cs \<longleftrightarrow>
     map ch_index cs = [0..<length cs] \<and> list_all (\<lambda>c. length (ch_content c) \<le> limit) cs"

text \<open>The text of units one behind the other, a blank line between them.\<close>

definition laid_out :: "piece list \<Rightarrow> ustring" where
  "laid_out us = fold (\<lambda>u t. if t = [] then u_text u else t @ [newline, newline] @ u_text u) us []"

text \<open>
  The units so far: the first of them are in chunks, and the text being packed ends with the
  others, in order.
\<close>

definition kept :: "piece list \<Rightarrow> packer \<Rightarrow> bool" where
  "kept us k \<longleftrightarrow>
     list_all (\<lambda>u. covered (pk_out k) u \<or> pending k u) us
     \<and> (\<exists>xs ys. us = xs @ ys \<and> list_all (covered (pk_out k)) xs \<and> has_suffix (pk_cur k) (laid_out ys))"

definition packed :: "nat \<Rightarrow> nat \<Rightarrow> piece list \<Rightarrow> packer \<Rightarrow> bool" where
  "packed width overlap us k \<longleftrightarrow>
     length (pk_cur k) < width \<and> chunks_ok (width + overlap + 2) (pk_out k) \<and> kept us k"

lemma laid_out_simps [simp]:
  "laid_out [] = []"
  "laid_out (us @ [u]) = (if laid_out us = [] then u_text u else laid_out us @ [newline, newline] @ u_text u)"
  by (simp_all add: laid_out_def)

lemma sublist_trim:
  assumes "trim t = t" "t \<noteq> []" "sublist t s"
  shows "sublist t (trim s)"
proof -
  from assms(3) obtain u v where s: "s = u @ t @ v" by (auto simp: sublist_def)
  from assms(1,2) trim_ends [of t] obtain u' v' where "trim s = u' @ t @ v'"
    unfolding s using trim_keeps [of t u v] by auto
  then show ?thesis by (auto simp: sublist_def)
qed

lemma covered_append: "covered cs u \<Longrightarrow> covered (cs @ ds) u"
  by (auto simp: covered_def)

lemma pending_emit: "pending k u \<Longrightarrow> unit_ok width u \<Longrightarrow> covered (emit k) u"
  using sublist_trim [of "u_text u" "pk_cur k"] by (auto simp: pending_def unit_ok_def covered_def emit_def)

lemma chunks_ok_emit:
  "chunks_ok n (pk_out k) \<Longrightarrow> length (pk_cur k) \<le> n \<Longrightarrow> chunks_ok n (emit k)"
  using length_trim [of "pk_cur k"] by (simp add: chunks_ok_def emit_def)

lemma flush_covers:
  assumes "kept us k" "list_all (unit_ok width) us" "pk_cur k \<noteq> []"
  shows "list_all (covered (pk_out (flush overlap b k))) us"
proof -
  have out: "pk_out (flush overlap b k) = emit k" using assms(3) by (simp add: flush_def Let_def)
  have "covered (emit k) u" if "u \<in> set us" for u
  proof (cases "covered (pk_out k) u")
    case True
    then show ?thesis unfolding emit_def by (rule covered_append)
  next
    case False
    with assms(1,2) that show ?thesis by (intro pending_emit [of k u width]) (auto simp: kept_def list_all_iff)
  qed
  then show ?thesis by (simp add: out list_all_iff)
qed

lemma flush_out:
  "chunks_ok n (pk_out k) \<Longrightarrow> length (pk_cur k) \<le> n \<Longrightarrow> chunks_ok n (pk_out (flush overlap b k))"
  by (simp add: flush_def Let_def chunks_ok_emit)

lemma flush_cur:
  "length (pk_cur (flush overlap b k)) \<le> overlap"
  by (simp add: flush_def Let_def length_overlap_tail)

lemma flush_same_place [simp]:
  "pk_section (flush overlap b k) = pk_section k" "pk_page (flush overlap b k) = pk_page k"
  by (simp_all add: flush_def Let_def)

lemma covered_kept: "list_all (covered (pk_out k)) us \<Longrightarrow> kept us k"
  unfolding kept_def by (intro conjI exI [of _ us] exI [of _ "[]"]) (auto simp: list_all_iff has_suffix_iff)

lemma cleared_kept: "kept us k \<Longrightarrow> pk_only_overlap k \<Longrightarrow> kept us (k\<lparr>pk_cur := []\<rparr>)"
  by (rule covered_kept) (auto simp: kept_def pending_def list_all_iff)

lemma kept_snoc:
  assumes "kept us k" "pk_out l = pk_out k" "pk_cur l = pk_cur k @ [newline, newline] @ u_text u \<or> pk_cur k = [] \<and> pk_cur l = u_text u"
    and "list_all (\<lambda>u. covered (pk_out l) u \<or> pending l u) (us @ [u])"
  shows "kept (us @ [u]) l"
proof -
  from assms(1) obtain xs ys where "us = xs @ ys" "list_all (covered (pk_out k)) xs" "has_suffix (pk_cur k) (laid_out ys)"
    by (auto simp: kept_def)
  with assms(2-4) show ?thesis
    unfolding kept_def by (intro conjI exI [of _ xs] exI [of _ "ys @ [u]"]) (auto simp: has_suffix_iff)
qed

text \<open>What a unit is appended to: nothing, or text of its own section and page.\<close>

definition ready :: "nat \<Rightarrow> nat \<Rightarrow> piece \<Rightarrow> packer \<Rightarrow> bool" where
  "ready width overlap u k \<longleftrightarrow>
     pk_cur k = [] \<or> pk_section k = u_section u \<and> pk_page k = u_page u
       \<and> length (pk_cur k) + length (u_text u) \<le> width + overlap"

lemma append_unit:
  assumes "kept us k" "list_all (unit_ok width) us" "unit_ok width u" "ready width overlap u k"
    and "k' = (if pk_cur k = [] then k\<lparr>pk_section := u_section u, pk_page := u_page u\<rparr> else k)"
    and "k'' = (if pk_cur k' \<noteq> [] then k'\<lparr>pk_cur := pk_cur k' @ [newline, newline]\<rparr> else k')"
    and "l = k''\<lparr>pk_cur := pk_cur k'' @ u_text u, pk_only_overlap := False\<rparr>"
  shows "kept (us @ [u]) l \<and> pk_out l = pk_out k \<and> length (pk_cur l) \<le> width + overlap + 2"
proof (cases "pk_cur k = []")
  case True
  then have "list_all (\<lambda>u. covered (pk_out l) u \<or> pending l u) (us @ [u])" "pk_out l = pk_out k" "pk_cur l = u_text u"
    using assms(1) by (auto simp: kept_def assms(5-7) pending_def covered_def list_all_iff)
  with True assms(1) have "kept (us @ [u]) l" by (intro kept_snoc [of us k]) auto
  with True assms(3) show ?thesis by (simp add: assms(5-7) unit_ok_def)
next
  case False
  then have cur: "pk_cur l = pk_cur k @ [newline, newline] @ u_text u"
    and rest: "pk_out l = pk_out k" "\<not> pk_only_overlap l" "pk_section l = pk_section k" "pk_page l = pk_page k"
    by (simp_all add: assms(5-7))
  have "sublist (u_text u) (pk_cur l)" unfolding cur by (metis append.assoc sublist_append_leftI)
  moreover have "sublist t (pk_cur l)" if "sublist t (pk_cur k)" for t
    unfolding cur using that sublist_append_rightI sublist_order.order_trans by blast
  ultimately have "list_all (\<lambda>u. covered (pk_out l) u \<or> pending l u) (us @ [u])"
    using False assms(1,4) by (auto simp: kept_def pending_def rest list_all_iff ready_def)
  then have "kept (us @ [u]) l" using assms(1) rest(1) cur by (intro kept_snoc [of us k]) auto
  with False assms(4) show ?thesis by (simp add: assms(5-7) ready_def)
qed

lemma add_unit_packed:
  assumes "packed width overlap us k" "list_all (unit_ok width) us" "unit_ok width u" "overlap < width"
  shows "packed width overlap (us @ [u]) (add_unit width overlap u k)"
proof -
  let ?n = "width + overlap + 2"
  define k1 where "k1 = (if pk_cur k \<noteq> [] \<and> (u_section u \<noteq> pk_section k \<or> u_page u \<noteq> pk_page k)
    then (if pk_only_overlap k then k\<lparr>pk_cur := []\<rparr> else flush overlap False k) else k)"
  define k2 where "k2 = (if pk_cur k1 \<noteq> [] \<and> length (pk_cur k1) + 2 + length (u_text u) > width
    then flush overlap True k1 else k1)"
  define k3 where "k3 = (if pk_cur k2 = [] then k2\<lparr>pk_section := u_section u, pk_page := u_page u\<rparr> else k2)"
  define k4 where "k4 = (if pk_cur k3 \<noteq> [] then k3\<lparr>pk_cur := pk_cur k3 @ [newline, newline]\<rparr> else k3)"
  define k5 where "k5 = k4\<lparr>pk_cur := pk_cur k4 @ u_text u, pk_only_overlap := False\<rparr>"
  have add: "add_unit width overlap u k = (if length (pk_cur k5) \<ge> width then flush overlap True k5 else k5)"
    unfolding add_unit_def Let_def k5_def k4_def k3_def k2_def k1_def by (rule refl)
  from assms(1) have k: "length (pk_cur k) < width" "chunks_ok ?n (pk_out k)" "kept us k"
    by (simp_all add: packed_def)
  have empty: "pk_cur (flush overlap False k) = []" by (simp add: flush_def Let_def)
  have k1: "length (pk_cur k1) < width" "chunks_ok ?n (pk_out k1)" "kept us k1"
    "pk_cur k1 = [] \<or> pk_section k1 = u_section u \<and> pk_page k1 = u_page u"
    using k empty flush_covers [OF k(3) assms(2)] covered_kept cleared_kept [OF k(3)] flush_out [OF k(2)]
    by (auto simp: k1_def)
  have k2: "chunks_ok ?n (pk_out k2)" "kept us k2" "ready width overlap u k2"
    using k1 flush_covers [OF k1(3) assms(2)] covered_kept flush_out [OF k1(2)] flush_cur [of overlap True k1] assms(3)
    by (auto simp: k2_def ready_def unit_ok_def)
  note k5 = append_unit [OF k2(2) assms(2,3) k2(3) k3_def k4_def k5_def]
  have units: "list_all (unit_ok width) (us @ [u])" using assms(2,3) by simp
  show ?thesis
  proof (cases "length (pk_cur k5) \<ge> width")
    case True
    with assms(4) have "pk_cur k5 \<noteq> []" by auto
    with k5 k2(1) units True show ?thesis
      using covered_kept [OF flush_covers [of "us @ [u]" k5 width overlap True]] flush_cur [of overlap True k5] assms(4)
        flush_out [of ?n k5 overlap True]
      by (simp add: add packed_def)
  next
    case False
    have out: "pk_out k5 = pk_out k2" and "kept (us @ [u]) k5" using k5 by blast+
    with k2(1) False show ?thesis unfolding packed_def by (simp add: add out)
  qed
qed

lemma fold_packed:
  assumes "overlap < width"
  shows "list_all (unit_ok width) vs \<Longrightarrow> list_all (unit_ok width) us \<Longrightarrow> packed width overlap vs k \<Longrightarrow>
    packed width overlap (vs @ us) (fold (add_unit width overlap) us k)"
proof (induction us arbitrary: vs k)
  case (Cons u us)
  from Cons.prems have "packed width overlap (vs @ [u]) (add_unit width overlap u k)" "list_all (unit_ok width) (vs @ [u])"
    using add_unit_packed [OF _ _ _ assms] by auto
  with Cons.IH [of "vs @ [u]" "add_unit width overlap u k"] Cons.prems show ?case by simp
qed simp

lemma suffix_trim_end: "has_suffix s t \<Longrightarrow> has_suffix (trim_end P s) (trim_end P t)"
proof -
  assume "has_suffix s t"
  then obtain u where s: "s = u @ t" by (auto simp: has_suffix_iff)
  show ?thesis
  proof (cases "list_all P t")
    case True
    then have "trim_end P t = []" by (simp add: trim_end_def dropWhile_eq_Nil_conv list_all_iff)
    then show ?thesis by (simp add: has_suffix_iff)
  next
    case False
    then obtain x where "x \<in> set (rev t)" "\<not> P x" by (auto simp: list_all_iff)
    then show ?thesis by (simp add: s trim_end_def has_suffix_iff dropWhile_append1)
  qed
qed

lemma suffix_dropWhile: "has_suffix s t \<Longrightarrow> has_suffix (dropWhile P s) (dropWhile P t)"
proof -
  assume "has_suffix s t"
  then obtain u where "s = u @ t" by (auto simp: has_suffix_iff)
  moreover have "t = takeWhile P t @ dropWhile P t" by simp
  ultimately show ?thesis
    unfolding has_suffix_iff by (metis append.assoc append_Nil dropWhile_append1 dropWhile_append2 takeWhile_dropWhile_id)
qed

lemma suffix_trim: "has_suffix s t \<Longrightarrow> has_suffix (trim s) (trim t)"
  by (simp add: trim_def suffix_trim_end suffix_dropWhile)

lemma finish_ok: "packed width overlap us k \<Longrightarrow> chunks_ok (width + overlap + 2) (finish k)"
  using chunks_ok_emit by (auto simp: finish_def Let_def packed_def)

text \<open>What is not in a chunk at the end is, as it was laid out, how the last chunk ends.\<close>

lemma finish_covers:
  assumes "packed width overlap us k" "list_all (unit_ok width) us"
  shows "\<exists>xs ys. us = xs @ ys \<and> list_all (covered (finish k)) xs
    \<and> (if finish k = [] then trim (laid_out ys) = [] else has_suffix (ch_content (last (finish k))) (trim (laid_out ys)))"
proof -
  from assms(1) obtain xs ys where us: "us = xs @ ys" "list_all (covered (pk_out k)) xs"
    and suf: "has_suffix (pk_cur k) (laid_out ys)"
    and all: "list_all (\<lambda>u. covered (pk_out k) u \<or> pending k u) us" by (auto simp: packed_def kept_def)
  show ?thesis
  proof (cases "trim (pk_cur k) = [] \<or> has_suffix (if pk_out k = [] then [] else ch_content (last (pk_out k))) (trim (pk_cur k))")
    case True
    then have fin: "finish k = pk_out k" by (auto simp: finish_def Let_def)
    from suffix_trim [OF suf] True us show ?thesis
      unfolding fin by (intro exI [of _ xs] exI [of _ ys]) (auto simp: has_suffix_iff)
  next
    case False
    then have fin: "finish k = emit k" by (auto simp: finish_def Let_def)
    have "covered (emit k) u" if "u \<in> set us" for u
      using that all assms(2) pending_emit [of k u width] covered_append [of "pk_out k" u]
      by (auto simp: list_all_iff emit_def)
    then show ?thesis
      unfolding fin by (intro exI [of _ us] exI [of _ "[]"])
        (auto simp: list_all_iff has_suffix_iff trim_def trim_end_def)
  qed
qed

section \<open>Properties\<close>

text \<open>The document of two sections whose last paragraph repeats the end of the one before.\<close>

definition two_sections :: "block list" where
  "two_sections =
     [\<lparr>b_text = ascii ''alpha beta gamma.'', b_section = ''A'', b_page = 1\<rparr>,
      \<lparr>b_text = ascii ''gamma.'', b_section = ''B'', b_page = 2\<rparr>]"

definition long_paragraph :: "block list" where
  "long_paragraph = [\<lparr>b_text = ascii ''aaaaabbbbbccccc ddddd'', b_section = [], b_page = 0\<rparr>]"

text \<open>The windows of a paragraph are found after finitely many steps, cover it without a
  gap, move forward, are at most the size and at least four fifths of it wide but for the
  last, and share at most the overlap.\<close>

theorem windows_cover_the_paragraph:
  assumes "0 < width" "start < length r"
  shows "\<exists>ws. windows r width overlap start = Some ws \<and> tiles width overlap (length r) start ws"
  using windows_tile [OF assms] .

lemma windows_cover_the_paragraph_witness:
  "\<exists>ws. windows (ascii ''One of it. Two is.'') 10 2 0 = Some ws \<and> tiles 10 2 18 0 ws"
  proof -
  have "length (ascii ''One of it. Two is.'') = 18" by (simp add: ascii_def)
  with windows_cover_the_paragraph [of 10 0 "ascii ''One of it. Two is.''" 2] show ?thesis by simp
qed

text \<open>C39: Splitting a document ends whatever size and overlap are asked for, and loses no text.
  The blocks are read as paragraphs that, put together with blank lines, are their text;
  each trimmed paragraph with text is a unit if it fits, and else windows that tile it are.
  The chunks are numbered in order and exceed the size by at most the overlap and a
  paragraph break. The units, in their order, are in chunks of their own section and page,
  but for the last ones when, put together, they are how the last chunk already ends.\<close>

theorem splitting_ends_and_loses_no_text:
  "\<exists>cs qss stored repeated.
     split_blocks bs width overlap = Some cs
     \<and> map ch_index cs = [0..<length cs]
     \<and> list_all (\<lambda>c. length (ch_content c) \<le> chunk_size width + chunk_overlap width overlap + 2) cs
     \<and> list_all (\<lambda>b. join [newline, newline] (split_paragraphs (trim (b_text b))) = trim (b_text b)) bs
     \<and> list_all2 (cut_into (chunk_size width) (chunk_overlap width overlap)) (map snd (paragraphs bs)) qss
     \<and> units_of (paragraphs bs) qss = stored @ repeated
     \<and> list_all (covered cs) stored
     \<and> (if cs = [] then trim (laid_out repeated) = []
        else has_suffix (ch_content (last cs)) (trim (laid_out repeated)))"
proof -
  let ?n = "chunk_size width" and ?v = "chunk_overlap width overlap"
  obtain qss where us: "block_units ?n ?v bs = Some (units_of (paragraphs bs) qss)"
    and cut: "list_all2 (cut_into ?n ?v) (map snd (paragraphs bs)) qss"
    and ok: "list_all (unit_ok ?n) (units_of (paragraphs bs) qss)"
    using block_units_total [OF chunk_size_pos] by blast
  let ?us = "units_of (paragraphs bs) qss"
  let ?k = "fold (add_unit ?n ?v) ?us no_packer"
  have "packed ?n ?v [] no_packer"
    by (simp add: packed_def no_packer_def chunks_ok_def kept_def has_suffix_iff)
  from fold_packed [OF chunk_overlap_less _ ok this] have packed: "packed ?n ?v ?us ?k" by simp
  have split: "split_blocks bs width overlap = Some (finish ?k)" using us by (simp add: split_blocks_def Let_def)
  have "map ch_index (finish ?k) = [0..<length (finish ?k)]"
    "list_all (\<lambda>c. length (ch_content c) \<le> ?n + ?v + 2) (finish ?k)"
    using finish_ok [OF packed] by (simp_all add: chunks_ok_def)
  moreover have "list_all (\<lambda>b. join [newline, newline] (split_paragraphs (trim (b_text b))) = trim (b_text b)) bs"
    by (simp add: split_paragraphs_join list_all_iff)
  ultimately show ?thesis
    using finish_covers [OF packed ok] split cut by blast
qed

text \<open>A section at the end of a document is not indexed under its own name when its text is
  how the chunk before it ends: the test meant for a left-over overlap also drops new text.\<close>

theorem last_section_not_indexed:
  "map_option (map ch_section) (split_blocks two_sections 20 4) = Some [''A'']
   \<and> map_option (map u_section) (block_units 20 4 two_sections) = Some [''A'', ''B'']"
  by code_simp

text \<open>Chunks that repeat nothing but the end of the chunk before them are stored between the
  windows of a long paragraph, although such a chunk is suppressed at the end of a document.\<close>

theorem overlap_alone_is_stored:
  "map_option (map ch_content) (split_blocks long_paragraph 10 3) =
     Some [ascii ''aaaaabbbbb'', ascii ''bbb'', ascii ''bbbccccc'', ascii ''ccc'' @ [newline, newline] @ ascii ''cc ddddd'']"
  by code_simp

text \<open>A window that ends with a sentence is cut before the last word of the sentence.\<close>

theorem sentence_at_window_end_is_cut:
  "windows (ascii ''one two three at it. five six'') 20 0 0 = Some [(0, 17), (17, 29)]
   \<and> take 20 (ascii ''one two three at it. five six'') = ascii ''one two three at it.''"
  by code_simp

end
