(* ===== verification/Policy.thy ===== *)
theory Policy
  imports Chat Types Runes
begin

text \<open>
  Whether a chat request retrieves at all (\<open>internal/rag/policy.go\<close>, ADR-024): the order of the
  reasons to skip, and the small-talk matcher, which looks for a way to write the whole
  message as known phrases. Go's Unicode tables are a parameter: the tests and the lower
  case of a rune. Text is a list of runes, and its length in bytes is the one of its UTF-8.
\<close>

section \<open>Folding a message\<close>

record unicode =
  is_mark :: "rune \<Rightarrow> bool"
  is_letter :: "rune \<Rightarrow> bool"
  is_digit :: "rune \<Rightarrow> bool"
  is_control :: "rune \<Rightarrow> bool"
  to_lower :: "rune \<Rightarrow> rune"

abbreviation s_cedilla :: rune where "s_cedilla \<equiv> 0x15F"
abbreviation c_cedilla :: rune where "c_cedilla \<equiv> 0xE7"
abbreviation g_breve :: rune where "g_breve \<equiv> 0x11F"
abbreviation o_umlaut :: rune where "o_umlaut \<equiv> 0xF6"
abbreviation u_umlaut :: rune where "u_umlaut \<equiv> 0xFC"
abbreviation i_dotless :: rune where "i_dotless \<equiv> 0x131"

definition fold_turkish_rune :: "unicode \<Rightarrow> rune \<Rightarrow> rune" where
  "fold_turkish_rune u r =
     (if r = 0x130 \<or> r = 0x49 \<or> r = i_dotless then 0x69
      else if r = s_cedilla \<or> r = 0x15E then 0x73
      else if r = c_cedilla \<or> r = 0xC7 then 0x63
      else if r = g_breve \<or> r = 0x11E then 0x67
      else if r = o_umlaut \<or> r = 0xD6 then 0x6F
      else if r = u_umlaut \<or> r = 0xDC \<or> r = 0xFB \<or> r = 0xDB then 0x75
      else if r = 0xE2 \<or> r = 0xC2 then 0x61
      else if r = 0xEE \<or> r = 0xCE then 0x69
      else to_lower u r)"

text \<open>The loop of \<open>foldSmallTalk\<close>; the flag says that the last thing written was a separator.\<close>

fun fold_loop :: "unicode \<Rightarrow> bool \<Rightarrow> ustring \<Rightarrow> ustring" where
  "fold_loop u space [] = []"
| "fold_loop u space (r # rs) =
     (if is_mark u r then fold_loop u space rs
      else if is_letter u r \<or> is_digit u r then fold_turkish_rune u r # fold_loop u False rs
      else if \<not> space then 0x20 # fold_loop u True rs
      else fold_loop u space rs)"

definition fold_small_talk :: "unicode \<Rightarrow> ustring \<Rightarrow> ustring" where
  "fold_small_talk u s =
     (let t = fold_loop u True s in if has_suffix t [0x20] then butlast t else t)"

fun squeeze_loop :: "unicode \<Rightarrow> rune \<Rightarrow> ustring \<Rightarrow> ustring" where
  "squeeze_loop u prev [] = []"
| "squeeze_loop u prev (r # rs) =
     (if r = prev \<and> is_letter u r then squeeze_loop u prev rs else r # squeeze_loop u r rs)"

definition squeeze_runs :: "unicode \<Rightarrow> ustring \<Rightarrow> ustring" where
  "squeeze_runs u s = squeeze_loop u 0 s"

section \<open>The phrases\<close>

definition maxSmallTalkBytes :: nat where "maxSmallTalkBytes = 64"
definition maxSmallTalkWords :: nat where "maxSmallTalkWords = 6"
definition maxPhraseWords :: nat where "maxPhraseWords = 4"

definition RAGSkipPolicyOff where "RAGSkipPolicyOff = ''policy_off''"
definition RAGSkipClientOff where "RAGSkipClientOff = ''client_off''"
definition RAGSkipToolTurn where "RAGSkipToolTurn = ''tool_turn''"
definition RAGSkipGreeting where "RAGSkipGreeting = ''greeting''"
definition RAGSkipAck where "RAGSkipAck = ''ack''"

definition greeting_phrases :: "ustring list" where
  "greeting_phrases =
     [ascii ''merhaba'', ascii ''merhabalar'', ascii ''mrb'', ascii ''selam'', ascii ''selamlar'',
      ascii ''slm'', ascii ''selamun aleyk'' @ [u_umlaut] @ ascii ''m'',
      ascii ''g'' @ [u_umlaut] @ ascii ''nayd'' @ [i_dotless] @ ascii ''n'',
      ascii ''t'' @ [u_umlaut] @ ascii ''nayd'' @ [i_dotless] @ ascii ''n'',
      ascii ''iyi g'' @ [u_umlaut] @ ascii ''nler'', ascii ''iyi ak'' @ [s_cedilla] @ ascii ''amlar'',
      ascii ''iyi geceler'', ascii ''iyi sabahlar'',
      ascii ''hay'' @ [i_dotless] @ ascii ''rl'' @ [i_dotless] @ ascii '' g'' @ [u_umlaut] @ ascii ''nler'',
      ascii ''ho'' @ [s_cedilla] @ ascii '' geldin'', ascii ''ho'' @ [s_cedilla] @ ascii ''geldin'',
      ascii ''ho'' @ [s_cedilla] @ ascii '' geldiniz'', ascii ''ho'' @ [s_cedilla] @ ascii ''geldiniz'',
      ascii ''ho'' @ [s_cedilla] @ ascii '' bulduk'',
      ascii ''nas'' @ [i_dotless] @ ascii ''ls'' @ [i_dotless] @ ascii ''n'',
      ascii ''nas'' @ [i_dotless] @ ascii ''ls'' @ [i_dotless] @ ascii ''n'' @ [i_dotless] @ ascii ''z'',
      ascii ''naber'', ascii ''ne haber'', ascii ''nas'' @ [i_dotless] @ ascii ''l gidiyor'',
      ascii ''g'' @ [o_umlaut] @ ascii ''r'' @ [u_umlaut] @ [s_cedilla] @ [u_umlaut] @ ascii ''r'' @ [u_umlaut] @ ascii ''z'',
      ascii ''g'' @ [o_umlaut] @ ascii ''r'' @ [u_umlaut] @ [s_cedilla] @ ascii ''mek '' @ [u_umlaut] @ ascii ''zere'',
      ascii ''ho'' @ [s_cedilla] @ [c_cedilla] @ ascii ''a kal'',
      ascii ''ho'' @ [s_cedilla] @ [c_cedilla] @ ascii ''akal'',
      ascii ''g'' @ [u_umlaut] @ ascii ''le g'' @ [u_umlaut] @ ascii ''le'', ascii ''kendine iyi bak'',
      ascii ''te'' @ [s_cedilla] @ ascii ''ekk'' @ [u_umlaut] @ ascii ''rler'',
      ascii ''te'' @ [s_cedilla] @ ascii ''ekk'' @ [u_umlaut] @ ascii ''r ederim'',
      ascii ''te'' @ [s_cedilla] @ ascii ''ekk'' @ [u_umlaut] @ ascii ''r ederiz'',
      [c_cedilla] @ ascii ''ok te'' @ [s_cedilla] @ ascii ''ekk'' @ [u_umlaut] @ ascii ''rler'',
      [c_cedilla] @ ascii ''ok te'' @ [s_cedilla] @ ascii ''ekk'' @ [u_umlaut] @ ascii ''r ederim'',
      ascii ''sa'' @ [g_breve] @ ascii '' ol'', ascii ''sa'' @ [g_breve] @ ascii ''ol'',
      ascii ''sa'' @ [g_breve] @ ascii '' olun'', ascii ''sa'' @ [g_breve] @ ascii ''olun'',
      [c_cedilla] @ ascii ''ok sa'' @ [g_breve] @ ascii '' ol'',
      [c_cedilla] @ ascii ''ok sa'' @ [g_breve] @ ascii ''ol'', ascii ''eyvallah'',
      ascii ''t'' @ [s_cedilla] @ ascii ''k'', ascii ''mersi'',
      ascii ''eline sa'' @ [g_breve] @ ascii ''l'' @ [i_dotless] @ ascii ''k'', ascii ''hello'',
      ascii ''hi'', ascii ''hey'', ascii ''hiya'', ascii ''yo'', ascii ''howdy'', ascii ''hello there'',
      ascii ''hi there'', ascii ''hey there'', ascii ''greetings'', ascii ''good morning'',
      ascii ''good afternoon'', ascii ''good evening'', ascii ''good night'', ascii ''good day'',
      ascii ''how are you'', ascii ''how are you doing'', ascii ''how is it going'', ascii ''hows it going'',
      ascii ''what's up'', ascii ''whats up'', ascii ''sup'', ascii ''bye'', ascii ''goodbye'',
      ascii ''good bye'', ascii ''see you'', ascii ''see ya'', ascii ''take care'', ascii ''thanks'',
      ascii ''thank you'', ascii ''thx'', ascii ''ty'', ascii ''thanks a lot'', ascii ''thank you so much'',
      ascii ''thanks so much'', ascii ''thank you very much'', ascii ''many thanks'', ascii ''cheers'',
      ascii ''much appreciated'', ascii ''appreciated'']"

definition ack_phrases :: "ustring list" where
  "ack_phrases =
     [ascii ''ok'', ascii ''okay'', ascii ''okey'', ascii ''oke'', ascii ''tamam'',
      ascii ''tamamd'' @ [i_dotless] @ ascii ''r'', ascii ''tmm'', ascii ''evet'',
      ascii ''hay'' @ [i_dotless] @ ascii ''r'', ascii ''olur'', ascii ''peki'',
      ascii ''anlad'' @ [i_dotless] @ ascii ''m'',
      ascii ''anla'' @ [s_cedilla] @ [i_dotless] @ ascii ''ld'' @ [i_dotless],
      ascii ''anla'' @ [s_cedilla] @ ascii ''t'' @ [i_dotless] @ ascii ''k'',
      ascii ''g'' @ [u_umlaut] @ ascii ''zel'', ascii ''harika'', ascii ''s'' @ [u_umlaut] @ ascii ''per'',
      ascii ''m'' @ [u_umlaut] @ ascii ''kemmel'', ascii ''yes'', ascii ''no'', ascii ''yeah'',
      ascii ''yep'', ascii ''yup'', ascii ''nope'', ascii ''sure'', ascii ''got it'', ascii ''alright'',
      ascii ''all right'', ascii ''fine'', ascii ''cool'', ascii ''great'', ascii ''nice'',
      ascii ''perfect'', ascii ''understood'', ascii ''i see'', ascii ''makes sense'', ascii ''noted'']"

text \<open>\<open>buildPhrases\<close>: a later phrase overwrites an earlier one with the same key.\<close>

definition phrase_key :: "unicode \<Rightarrow> ustring \<Rightarrow> ustring" where
  "phrase_key u p = squeeze_runs u (fold_small_talk u p)"

definition small_talk_phrases :: "unicode \<Rightarrow> (ustring \<times> bytes) list" where
  "small_talk_phrases u =
     fold (\<lambda>p m. AList.update (phrase_key u p) RAGSkipAck m) ack_phrases
       (fold (\<lambda>p m. AList.update (phrase_key u p) RAGSkipGreeting m) greeting_phrases [])"

section \<open>The matcher\<close>

text \<open>
  The two tables of the matcher: which prefixes of the words are covered by phrases, and
  which by phrases one of which is a greeting. \<open>kind\<close> looks a phrase up.
\<close>

type_synonym reach_state = "bool list \<times> bool list"

definition try_phrase :: "(ustring \<Rightarrow> bytes option) \<Rightarrow> ustring list \<Rightarrow> nat \<Rightarrow> nat \<Rightarrow> reach_state \<Rightarrow> reach_state" where
  "try_phrase kind ws i l st =
     (if i + l > length ws then st
      else (case kind (join [0x20] (take l (drop i ws))) of
              None \<Rightarrow> st
            | Some k \<Rightarrow>
                (case st of (reach, greet) \<Rightarrow>
                   (reach[i + l := True],
                    greet[i + l := greet ! (i + l) \<or> greet ! i \<or> k = RAGSkipGreeting]))))"

definition reach_from :: "(ustring \<Rightarrow> bytes option) \<Rightarrow> ustring list \<Rightarrow> nat \<Rightarrow> reach_state \<Rightarrow> reach_state" where
  "reach_from kind ws i st =
     (if \<not> fst st ! i then st else fold (try_phrase kind ws i) [1..<Suc maxPhraseWords] st)"

definition cover :: "(ustring \<Rightarrow> bytes option) \<Rightarrow> ustring list \<Rightarrow> reach_state" where
  "cover kind ws =
     fold (reach_from kind ws) [0..<length ws]
       (True # replicate (length ws) False, replicate (Suc (length ws)) False)"

definition small_talk_kind :: "unicode \<Rightarrow> ustring \<Rightarrow> bytes" where
  "small_talk_kind u s =
     (let ws = fields_by space_rune (squeeze_runs u s) in
      if ws = [] \<or> length ws > maxSmallTalkWords then []
      else
        (case cover (map_of (small_talk_phrases u)) ws of (reach, greet) \<Rightarrow>
           if \<not> reach ! length ws then []
           else if greet ! length ws then RAGSkipGreeting
           else RAGSkipAck))"

fun last_user_message :: "message list \<Rightarrow> message option" where
  "last_user_message [] = None"
| "last_user_message (m # ms) =
     (case last_user_message ms of
        Some x \<Rightarrow> Some x
      | None \<Rightarrow> if m_role m = ''user'' then Some m else None)"

definition classify_turn :: "unicode \<Rightarrow> message list \<Rightarrow> bytes" where
  "classify_turn u msgs =
     (case last_user_message msgs of
        None \<Rightarrow> []
      | Some m \<Rightarrow>
          (let t = fold_small_talk u (runes (message_text m)) in
           if t = [] \<or> sum_list (map rune_len t) > maxSmallTalkBytes then []
           else small_talk_kind u t))"

definition skip_reason :: "unicode \<Rightarrow> bytes \<Rightarrow> bool \<Rightarrow> bool \<Rightarrow> message list \<Rightarrow> bytes" where
  "skip_reason u policy client_off condense msgs =
     (if policy = RetrievalPolicyOff then RAGSkipPolicyOff
      else if client_off then RAGSkipClientOff
      else if msgs \<noteq> [] \<and> m_role (last msgs) = ''tool'' then RAGSkipToolTurn
      else if policy = RetrievalPolicyAuto
      then (let reason = classify_turn u msgs in
            if reason \<noteq> RAGSkipAck \<or> \<not> condense then reason else [])
      else [])"

section \<open>Facts about the matcher\<close>

text \<open>A way to write words as known phrases.\<close>

definition known_phrase :: "(ustring \<Rightarrow> bytes option) \<Rightarrow> ustring list \<Rightarrow> bool" where
  "known_phrase kind p \<longleftrightarrow> 1 \<le> length p \<and> length p \<le> maxPhraseWords \<and> kind (join [0x20] p) \<noteq> None"

definition phrased :: "(ustring \<Rightarrow> bytes option) \<Rightarrow> ustring list \<Rightarrow> ustring list list \<Rightarrow> bool" where
  "phrased kind ws ps \<longleftrightarrow> concat ps = ws \<and> list_all (known_phrase kind) ps"

definition greeting_phrase :: "(ustring \<Rightarrow> bytes option) \<Rightarrow> ustring list \<Rightarrow> bool" where
  "greeting_phrase kind p \<longleftrightarrow> kind (join [0x20] p) = Some RAGSkipGreeting"

definition between :: "'a list \<Rightarrow> nat \<Rightarrow> nat \<Rightarrow> 'a list" where
  "between ws i j = take (j - i) (drop i ws)"

lemma take_between: "i \<le> j \<Longrightarrow> take i ws @ between ws i j = take j ws"
  by (metis add_diff_inverse_nat between_def not_less take_add)

lemma phrased_step:
  assumes "j \<le> length ws"
  shows "(\<exists>ps. phrased kind (take j ws) ps \<and> (g \<longrightarrow> list_ex (greeting_phrase kind) ps)) \<longleftrightarrow>
    \<not> g \<and> j = 0 \<or>
    (\<exists>i<j. known_phrase kind (between ws i j) \<and>
       (\<exists>ps. phrased kind (take i ws) ps \<and>
          (g \<longrightarrow> list_ex (greeting_phrase kind) ps \<or> greeting_phrase kind (between ws i j))))"
proof
  assume "\<exists>ps. phrased kind (take j ws) ps \<and> (g \<longrightarrow> list_ex (greeting_phrase kind) ps)"
  then obtain ps where ps: "phrased kind (take j ws) ps" "g \<longrightarrow> list_ex (greeting_phrase kind) ps" by blast
  show "\<not> g \<and> j = 0 \<or>
    (\<exists>i<j. known_phrase kind (between ws i j) \<and>
       (\<exists>ps. phrased kind (take i ws) ps \<and>
          (g \<longrightarrow> list_ex (greeting_phrase kind) ps \<or> greeting_phrase kind (between ws i j))))"
  proof (cases ps rule: rev_cases)
    case Nil
    with ps assms show ?thesis by (auto simp: phrased_def)
  next
    case (snoc qs p)
    let ?i = "j - length p"
    from ps(1) snoc have c: "concat qs @ p = take j ws" and k: "known_phrase kind p" "list_all (known_phrase kind) qs"
      by (auto simp: phrased_def)
    from arg_cong [OF c, of length] assms have len: "length (concat qs) + length p = j" by simp
    with k(1) have i: "?i < j" "length (concat qs) = ?i" by (auto simp: known_phrase_def)
    from c i have "concat qs = take ?i ws" by (metis append_eq_conv_conj min.absorb1 less_imp_le take_take)
    moreover from this c take_between [of ?i j ws] i have "p = between ws ?i j" by (metis less_imp_le same_append_eq)
    ultimately show ?thesis using i(1) k ps(2) snoc
      by (intro disjI2 exI [of _ ?i]) (auto simp: phrased_def)
  qed
next
  assume "\<not> g \<and> j = 0 \<or>
    (\<exists>i<j. known_phrase kind (between ws i j) \<and>
       (\<exists>ps. phrased kind (take i ws) ps \<and>
          (g \<longrightarrow> list_ex (greeting_phrase kind) ps \<or> greeting_phrase kind (between ws i j))))"
  then show "\<exists>ps. phrased kind (take j ws) ps \<and> (g \<longrightarrow> list_ex (greeting_phrase kind) ps)"
  proof
    assume "\<not> g \<and> j = 0"
    then show ?thesis by (intro exI [of _ "[]"]) (simp add: phrased_def)
  next
    assume "\<exists>i<j. known_phrase kind (between ws i j) \<and>
       (\<exists>ps. phrased kind (take i ws) ps \<and>
          (g \<longrightarrow> list_ex (greeting_phrase kind) ps \<or> greeting_phrase kind (between ws i j)))"
    then obtain i ps where "i < j" "known_phrase kind (between ws i j)" "phrased kind (take i ws) ps"
      "g \<longrightarrow> list_ex (greeting_phrase kind) ps \<or> greeting_phrase kind (between ws i j)" by blast
    with take_between [of i j ws] show ?thesis
      by (intro exI [of _ "ps @ [between ws i j]"]) (auto simp: phrased_def)
  qed
qed

text \<open>What the loops compute, table entry by table entry.\<close>

definition covered_to :: "(ustring \<Rightarrow> bytes option) \<Rightarrow> ustring list \<Rightarrow> nat \<Rightarrow> bool" where
  "covered_to kind ws j \<longleftrightarrow> (\<exists>ps. phrased kind (take j ws) ps)"

definition greeted_to :: "(ustring \<Rightarrow> bytes option) \<Rightarrow> ustring list \<Rightarrow> nat \<Rightarrow> bool" where
  "greeted_to kind ws j \<longleftrightarrow> (\<exists>ps. phrased kind (take j ws) ps \<and> list_ex (greeting_phrase kind) ps)"

lemma covered_to_step:
  "j \<le> length ws \<Longrightarrow> covered_to kind ws j \<longleftrightarrow>
     j = 0 \<or> (\<exists>i<j. known_phrase kind (between ws i j) \<and> covered_to kind ws i)"
  using phrased_step [of j ws kind False] by (simp add: covered_to_def)

lemma greeted_to_step:
  "j \<le> length ws \<Longrightarrow> greeted_to kind ws j \<longleftrightarrow>
     (\<exists>i<j. known_phrase kind (between ws i j) \<and> covered_to kind ws i
        \<and> (greeted_to kind ws i \<or> greeting_phrase kind (between ws i j)))"
  using phrased_step [of j ws kind True] unfolding covered_to_def greeted_to_def by blast

definition phrase_at :: "(ustring \<Rightarrow> bytes option) \<Rightarrow> ustring list \<Rightarrow> nat \<Rightarrow> nat \<Rightarrow> bool" where
  "phrase_at kind ws i j \<longleftrightarrow> i < j \<and> kind (join [0x20] (between ws i j)) \<noteq> None"

lemma fold_try_phrase:
  assumes "list_all (\<lambda>l. 1 \<le> l) ls" "length r = Suc (length ws)" "length g = Suc (length ws)" "i \<le> length ws"
  shows "\<exists>r' g'. fold (try_phrase kind ws i) ls (r, g) = (r', g')
    \<and> length r' = Suc (length ws) \<and> length g' = Suc (length ws)
    \<and> (\<forall>j\<le>length ws. (r' ! j \<longleftrightarrow> r ! j \<or> phrase_at kind ws i j \<and> j - i \<in> set ls)
        \<and> (g' ! j \<longleftrightarrow> g ! j \<or> phrase_at kind ws i j \<and> j - i \<in> set ls \<and> (g ! i \<or> greeting_phrase kind (between ws i j))))"
  using assms
proof (induction ls arbitrary: r g)
  case Nil
  then show ?case by auto
next
  case (Cons l ls)
  obtain r1 g1 where st: "try_phrase kind ws i l (r, g) = (r1, g1)" by force
  have one: "length r1 = Suc (length ws) \<and> length g1 = Suc (length ws)
    \<and> (\<forall>j\<le>length ws. (r1 ! j \<longleftrightarrow> r ! j \<or> phrase_at kind ws i j \<and> j - i = l)
        \<and> (g1 ! j \<longleftrightarrow> g ! j \<or> phrase_at kind ws i j \<and> j - i = l \<and> (g ! i \<or> greeting_phrase kind (between ws i j))))"
    using st Cons.prems
    by (auto simp: try_phrase_def phrase_at_def greeting_phrase_def between_def nth_list_update split: if_splits option.splits)
  have "\<not> phrase_at kind ws i i" by (simp add: phrase_at_def)
  with one Cons.prems(4) have gi: "g1 ! i \<longleftrightarrow> g ! i" by auto
  from Cons.IH [of r1 g1] one Cons.prems obtain r' g' where
    "fold (try_phrase kind ws i) ls (r1, g1) = (r', g')" "length r' = Suc (length ws)" "length g' = Suc (length ws)"
    "\<forall>j\<le>length ws. (r' ! j \<longleftrightarrow> r1 ! j \<or> phrase_at kind ws i j \<and> j - i \<in> set ls)
        \<and> (g' ! j \<longleftrightarrow> g1 ! j \<or> phrase_at kind ws i j \<and> j - i \<in> set ls \<and> (g1 ! i \<or> greeting_phrase kind (between ws i j)))"
    by auto
  with st one gi show ?case by (intro exI [of _ r'] exI [of _ g']) auto
qed

lemma known_phrase_at:
  "j \<le> length ws \<Longrightarrow> known_phrase kind (between ws i j) \<longleftrightarrow> phrase_at kind ws i j \<and> j - i \<in> set [1..<Suc maxPhraseWords]"
  by (auto simp: known_phrase_def phrase_at_def between_def)

text \<open>After the first \<open>m\<close> words have been extended, an entry says what can be reached from them.\<close>

definition reached_from :: "(ustring \<Rightarrow> bytes option) \<Rightarrow> ustring list \<Rightarrow> nat \<Rightarrow> reach_state \<Rightarrow> bool" where
  "reached_from kind ws m st \<longleftrightarrow>
     length (fst st) = Suc (length ws) \<and> length (snd st) = Suc (length ws)
     \<and> (\<forall>j\<le>length ws.
          (fst st ! j \<longleftrightarrow> j = 0 \<or> (\<exists>i<m. i < j \<and> known_phrase kind (between ws i j) \<and> covered_to kind ws i))
        \<and> (snd st ! j \<longleftrightarrow> (\<exists>i<m. i < j \<and> known_phrase kind (between ws i j) \<and> covered_to kind ws i
              \<and> (greeted_to kind ws i \<or> greeting_phrase kind (between ws i j)))))"

lemma reached_from_final:
  assumes "reached_from kind ws m st" "j \<le> m" "j \<le> length ws"
  shows "(fst st ! j \<longleftrightarrow> covered_to kind ws j) \<and> (snd st ! j \<longleftrightarrow> greeted_to kind ws j)"
proof -
  have *: "i < j \<Longrightarrow> i < m" for i using assms(2) by simp
  have "fst st ! j \<longleftrightarrow> j = 0 \<or> (\<exists>i<j. known_phrase kind (between ws i j) \<and> covered_to kind ws i)"
    using assms(1,3) * unfolding reached_from_def by blast
  moreover have "snd st ! j \<longleftrightarrow> (\<exists>i<j. known_phrase kind (between ws i j) \<and> covered_to kind ws i
              \<and> (greeted_to kind ws i \<or> greeting_phrase kind (between ws i j)))"
    using assms(1,3) * unfolding reached_from_def by blast
  ultimately show ?thesis using covered_to_step greeted_to_step assms(3) by blast
qed

lemma reach_from_step:
  assumes "reached_from kind ws m st" "m < length ws"
  shows "reached_from kind ws (Suc m) (reach_from kind ws m st)"
proof -
  obtain r g where st: "st = (r, g)" by force
  have len: "length r = Suc (length ws)" "length g = Suc (length ws)" using assms(1) by (simp_all add: reached_from_def st)
  have fin: "(r ! m \<longleftrightarrow> covered_to kind ws m) \<and> (g ! m \<longleftrightarrow> greeted_to kind ws m)"
    using reached_from_final [OF assms(1), of m] assms(2) by (simp add: st)
  show ?thesis
  proof (cases "r ! m")
    case False
    with assms fin show ?thesis by (auto simp: reached_from_def reach_from_def st less_Suc_eq)
  next
    case True
    have "list_all (\<lambda>l. 1 \<le> l) [1..<Suc maxPhraseWords]" by (auto simp: list_all_iff)
    from fold_try_phrase [OF this len, of m kind] assms(2) obtain r' g' where f:
      "fold (try_phrase kind ws m) [1..<Suc maxPhraseWords] (r, g) = (r', g')"
      "length r' = Suc (length ws)" "length g' = Suc (length ws)"
      "\<forall>j\<le>length ws. (r' ! j \<longleftrightarrow> r ! j \<or> phrase_at kind ws m j \<and> j - m \<in> set [1..<Suc maxPhraseWords])
        \<and> (g' ! j \<longleftrightarrow> g ! j \<or> phrase_at kind ws m j \<and> j - m \<in> set [1..<Suc maxPhraseWords] \<and> (g ! m \<or> greeting_phrase kind (between ws m j)))"
      by auto
    have less: "known_phrase kind (between ws m j) \<Longrightarrow> j \<le> length ws \<Longrightarrow> m < j" for j
      using known_phrase_at phrase_at_def by blast
    have "reach_from kind ws m st = (r', g')" using True f(1) by (simp add: reach_from_def st)
    moreover have "(r' ! j \<longleftrightarrow> j = 0 \<or> (\<exists>i<Suc m. i < j \<and> known_phrase kind (between ws i j) \<and> covered_to kind ws i))
        \<and> (g' ! j \<longleftrightarrow> (\<exists>i<Suc m. i < j \<and> known_phrase kind (between ws i j) \<and> covered_to kind ws i
              \<and> (greeted_to kind ws i \<or> greeting_phrase kind (between ws i j))))" if j: "j \<le> length ws" for j
    proof -
      from assms(1) j have old: "r ! j \<longleftrightarrow> j = 0 \<or> (\<exists>i<m. i < j \<and> known_phrase kind (between ws i j) \<and> covered_to kind ws i)"
        "g ! j \<longleftrightarrow> (\<exists>i<m. i < j \<and> known_phrase kind (between ws i j) \<and> covered_to kind ws i
              \<and> (greeted_to kind ws i \<or> greeting_phrase kind (between ws i j)))"
        by (auto simp: reached_from_def st)
      have new: "r' ! j \<longleftrightarrow> r ! j \<or> known_phrase kind (between ws m j)"
        "g' ! j \<longleftrightarrow> g ! j \<or> known_phrase kind (between ws m j) \<and> (g ! m \<or> greeting_phrase kind (between ws m j))"
        using f(4) j known_phrase_at [OF j] by auto
      show ?thesis unfolding new old using less [OF _ j] fin True by (auto simp: less_Suc_eq)
    qed
    ultimately show ?thesis using f(2,3) by (simp add: reached_from_def)
  qed
qed

lemma cover_spec:
  "(fst (cover kind ws) ! length ws \<longleftrightarrow> (\<exists>ps. phrased kind ws ps))
   \<and> (snd (cover kind ws) ! length ws \<longleftrightarrow> (\<exists>ps. phrased kind ws ps \<and> list_ex (greeting_phrase kind) ps))"
proof -
  have "m \<le> length ws \<Longrightarrow> reached_from kind ws m
    (fold (reach_from kind ws) [0..<m] (True # replicate (length ws) False, replicate (Suc (length ws)) False))" for m
  proof (induction m)
    case 0
    show ?case by (auto simp: reached_from_def nth_Cons' simp del: replicate_Suc)
  next
    case (Suc m)
    then show ?case using reach_from_step by simp
  qed
  from reached_from_final [OF this [OF order_refl] order_refl order_refl]
  show ?thesis by (simp add: cover_def covered_to_def greeted_to_def)
qed

section \<open>Properties\<close>

text \<open>C40: A message is small talk exactly when it has at most six words and can be written as
  known phrases of at most four words each, end to end; it is a greeting when one such
  way uses a greeting, and a bare confirmation otherwise. One word no phrase covers makes
  it a question.\<close>

theorem small_talk_is_made_of_phrases:
  "small_talk_kind u s =
     (let ws = fields_by space_rune (squeeze_runs u s);
          kind = map_of (small_talk_phrases u) in
      if ws \<noteq> [] \<and> length ws \<le> maxSmallTalkWords \<and> (\<exists>ps. phrased kind ws ps)
      then (if \<exists>ps. phrased kind ws ps \<and> list_ex (greeting_phrase kind) ps then RAGSkipGreeting
            else RAGSkipAck)
      else [])"
proof -
  define ws where "ws = fields_by space_rune (squeeze_runs u s)"
  define kind where "kind = map_of (small_talk_phrases u)"
  obtain reach greet where c: "cover kind ws = (reach, greet)" by force
  have "reach ! length ws \<longleftrightarrow> (\<exists>ps. phrased kind ws ps)"
    "greet ! length ws \<longleftrightarrow> (\<exists>ps. phrased kind ws ps \<and> list_ex (greeting_phrase kind) ps)"
    using cover_spec [of kind ws] by (simp_all add: c)
  then show ?thesis unfolding small_talk_kind_def Let_def ws_def [symmetric] kind_def [symmetric] c by auto
qed

text \<open>Retrieval runs unless the project's policy is off, the client turned it off, the turn
  returns a tool result, or the policy is automatic and the last user message is small
  talk; a bare confirmation is retrieved for under a condensed query. The answer is always
  one of the five documented reasons or none.\<close>

theorem retrieval_skipped_for_a_reason:
  "skip_reason u policy client_off condense msgs \<in>
     {[], RAGSkipPolicyOff, RAGSkipClientOff, RAGSkipToolTurn, RAGSkipGreeting, RAGSkipAck}
   \<and> (skip_reason u policy client_off condense msgs = [] \<longleftrightarrow>
       policy \<noteq> RetrievalPolicyOff \<and> \<not> client_off \<and> \<not> (msgs \<noteq> [] \<and> m_role (last msgs) = ''tool'')
       \<and> \<not> (policy = RetrievalPolicyAuto \<and> classify_turn u msgs \<noteq> []
            \<and> \<not> (classify_turn u msgs = RAGSkipAck \<and> condense)))"
proof -
  have kinds: "small_talk_kind u s \<in> {[], RAGSkipGreeting, RAGSkipAck}" for s
    by (simp add: small_talk_kind_def Let_def split: prod.split)
  have "classify_turn u msgs \<in> {[], RAGSkipGreeting, RAGSkipAck}"
    using kinds by (simp add: classify_turn_def Let_def split: option.split)
  moreover have "RAGSkipPolicyOff \<noteq> []" "RAGSkipClientOff \<noteq> []" "RAGSkipToolTurn \<noteq> []" "RAGSkipAck \<noteq> []"
    by (simp_all add: RAGSkipPolicyOff_def RAGSkipClientOff_def RAGSkipToolTurn_def RAGSkipAck_def)
  ultimately show ?thesis unfolding skip_reason_def Let_def by auto
qed

end
