(* ===== verification/Prepare.thy ===== *)
theory Prepare
  imports Condense Metadata Accounting Store Tools Identity
begin

text \<open>
  The chat request between its decoding and the upstream call (\<open>internal/gateway/gateway.go\<close>):
  the \<open>ragmux\<close> object of a request, the tool policy, the decision to retrieve, the search and
  where its block goes, the headers and the \<open>ragmux\<close> field of the answer. The retriever is
  a parameter: what it finds for a store, a query and a filter, what that cost, and how it
  moves a world of its own; so are the chat call that condenses a query and the printing of
  a score. A retriever that writes its calls into its world (\<open>logged\<close>) shows what was asked.
\<close>

section \<open>The ragmux object\<close>

record ragmux_request =
  rx_include_context :: bool
  rx_inline_sources :: bool
  rx_retrieval_off :: bool
  rx_filter :: "filter_cond list"
  rx_warnings :: "bytes list"
  rx_tool_turn :: bool

definition no_ragmux :: ragmux_request where
  "no_ragmux = \<lparr>rx_include_context = False, rx_inline_sources = False, rx_retrieval_off = False,
     rx_filter = [], rx_warnings = [], rx_tool_turn = False\<rparr>"

definition ragmux_project_settings :: "bytes list" where
  "ragmux_project_settings = [''context_placement'', ''retrieval_policy'', ''query_strategy'',
     ''history_turns_for_query'', ''query_model_connection_id'', ''top_k'', ''system_prompt'', ''rag_store_id'']"

definition key_name_char :: "char \<Rightarrow> bool" where
  "key_name_char c \<longleftrightarrow> (97 \<le> (of_char c :: nat) \<and> (of_char c :: nat) \<le> 122) \<or> c = CHR ''_''"

definition ragmux_key_name :: "bytes \<Rightarrow> bool" where
  "ragmux_key_name k \<longleftrightarrow> k \<noteq> [] \<and> length k \<le> 32 \<and> list_all key_name_char k"

definition maxRagmuxWarnings :: nat where "maxRagmuxWarnings = 8"

definition warn :: "bytes \<Rightarrow> ragmux_request \<Rightarrow> ragmux_request" where
  "warn msg o' = o'\<lparr>rx_warnings := rx_warnings o' @ [msg]\<rparr>"

definition read_include_context :: "(bytes \<times> json) list \<Rightarrow> ragmux_request \<Rightarrow> ragmux_request" where
  "read_include_context fs o' =
     (case map_of fs ''include_context'' of
        None \<Rightarrow> o'
      | Some v \<Rightarrow>
          (case unmarshal dec_bool False (Some v) of
             Some b \<Rightarrow> o'\<lparr>rx_include_context := b\<rparr>
           | None \<Rightarrow> warn ''ragmux.include_context must be a boolean; ignored'' o'))"

definition read_retrieval :: "(bytes \<times> json) list \<Rightarrow> ragmux_request \<Rightarrow> ragmux_request" where
  "read_retrieval fs o' =
     (case map_of fs ''retrieval'' of
        None \<Rightarrow> o'
      | Some v \<Rightarrow>
          (if unmarshal dec_string [] (Some v) = Some ''off'' then o'\<lparr>rx_retrieval_off := True\<rparr>
           else warn ''ragmux.retrieval accepts only the value off; ignored'' o'))"

definition read_sources :: "(bytes \<times> json) list \<Rightarrow> ragmux_request \<Rightarrow> ragmux_request" where
  "read_sources fs o' =
     (case map_of fs ''sources'' of
        None \<Rightarrow> o'
      | Some v \<Rightarrow>
          (if unmarshal dec_string [] (Some v) = Some ''inline'' then o'\<lparr>rx_inline_sources := True\<rparr>
           else warn ''ragmux.sources accepts only the value inline; ignored'' o'))"

text \<open>A filter error is reported without the sentinel's text in front.\<close>

definition trim_prefix :: "bytes \<Rightarrow> bytes \<Rightarrow> bytes" where
  "trim_prefix s p = (if has_prefix s p then drop (length p) s else s)"

definition read_filter :: "nat \<Rightarrow> (bytes \<times> json) list \<Rightarrow> ragmux_request \<Rightarrow> bytes + ragmux_request" where
  "read_filter len fs o' =
     (case map_of fs ''filter'' of
        None \<Rightarrow> Inr o'
      | Some v \<Rightarrow>
          (case parse_metadata_filter len v of
             Inl err \<Rightarrow> Inl (''ragmux.filter: '' @ trim_prefix err ''invalid metadata: '')
           | Inr f \<Rightarrow> Inr (o'\<lparr>rx_filter := f\<rparr>)))"

definition understood :: "bytes list" where
  "understood = [''include_context'', ''retrieval'', ''sources'', ''filter'']"

definition unknown_warning :: "bytes \<Rightarrow> bytes" where
  "unknown_warning k =
     (if k \<in> set ragmux_project_settings
      then ''ragmux.'' @ k @ '' is a project setting and cannot be set by a request; ignored''
      else if ragmux_key_name k then ''unknown ragmux field '' @ k @ ''; ignored''
      else ''unknown ragmux field; ignored'')"

text \<open>\<open>len\<close> is the length of the text of the filter, which its parser bounds.\<close>

definition parse_ragmux :: "nat \<Rightarrow> (bytes \<times> json) list \<Rightarrow> bytes + ragmux_request" where
  "parse_ragmux len extra =
     (case map_of extra ''ragmux'' of
        None \<Rightarrow> Inr no_ragmux
      | Some (JObj ms) \<Rightarrow>
          (let fs = obj_map ms;
               o' = read_sources fs (read_retrieval fs (read_include_context fs no_ragmux)) in
           case read_filter len fs o' of
             Inl err \<Rightarrow> Inl err
           | Inr o' \<Rightarrow>
               Inr (fold (\<lambda>k. warn (unknown_warning k)) (sort (filter (\<lambda>k. k \<notin> set understood) (map fst fs))) o'))
      | Some _ \<Rightarrow> Inl ''ragmux must be a JSON object'')"

section \<open>Warnings\<close>

definition warn_text_escape :: "bytes \<Rightarrow> bytes" where
  "warn_text_escape s =
     concat (map (\<lambda>c. if c = CHR 0x5C \<or> c = CHR 0x22 then [CHR 0x5C, c] else [c]) s)"

definition add_warnings :: "bytes list \<Rightarrow> bytes list" where
  "add_warnings texts = map (\<lambda>t. ''299 ragmux '' @ [CHR 0x22] @ warn_text_escape t @ [CHR 0x22]) texts"

definition add_ragmux_warnings :: "bytes list \<Rightarrow> bytes list" where
  "add_ragmux_warnings texts =
     (let n = length texts in
      add_warnings
        (if n > maxRagmuxWarnings
         then take (maxRagmuxWarnings - 1) texts
              @ [format_int (int n - int maxRagmuxWarnings + 1) @ '' more ragmux warnings omitted'']
         else texts))"

section \<open>Decoding\<close>

definition invalid_request :: "bytes \<Rightarrow> http_error" where
  "invalid_request msg = write_error 400 ''invalid_request_error'' msg"

text \<open>\<open>decodeChat\<close> of a body that was read; \<open>None\<close> is text that is not JSON, the decoder's message left out.\<close>

definition decode_chat :: "nat \<Rightarrow> json option \<Rightarrow> http_error + (chat_request \<times> ragmux_request)" where
  "decode_chat len body =
     (case Option.bind body unmarshal_request of
        None \<Rightarrow> Inl (invalid_request ''malformed JSON body: '')
      | Some req \<Rightarrow>
          (if cr_messages req = [] then Inl (invalid_request ''messages is required'')
           else case parse_ragmux len (cr_extra req) of
             Inl err \<Rightarrow> Inl (write_error_code 400 ''invalid_request_error'' ''invalid_ragmux'' err)
           | Inr opts \<Rightarrow> Inr (req\<lparr>cr_extra := AList.delete ''ragmux'' (cr_extra req)\<rparr>, opts)))"

text \<open>\<open>applyToolPolicy\<close>: the governed request, the warnings in front of the others, and how many were denied.\<close>

definition apply_tool_policy ::
  "project \<Rightarrow> chat_request \<Rightarrow> ragmux_request \<Rightarrow> tool_error + (chat_request \<times> ragmux_request \<times> nat)" where
  "apply_tool_policy p req opts =
     (case govern_tools (policy_of p) req of
        Inl e \<Rightarrow> Inl e
      | Inr (v, req) \<Rightarrow>
          (if tv_denied v = [] \<and> tv_warnings v = [] then Inr (req, opts, 0)
           else Inr (req, opts\<lparr>rx_warnings := tv_warnings v @ rx_warnings opts\<rparr>, length (tv_denied v))))"

section \<open>Sources\<close>

record rag_source =
  so_document_id :: int
  so_filename :: bytes
  so_section :: bytes
  so_page :: int
  so_score :: f64

definition rag_sources :: "search_hit list \<Rightarrow> rag_source list" where
  "rag_sources hits =
     map (\<lambda>h. \<lparr>so_document_id = sh_document_id h, so_filename = sh_filename h, so_section = sh_section h,
                so_page = sh_page h, so_score = sh_score h\<rparr>) hits"

definition hex_digit :: "nat \<Rightarrow> char" where "hex_digit d = ''0123456789abcdef'' ! d"

definition unicode_escape :: "nat \<Rightarrow> bytes" where
  "unicode_escape r =
     [CHR 0x5C, CHR ''u'', hex_digit (r div 0x1000 mod 16), hex_digit (r div 0x100 mod 16), hex_digit (r div 16 mod 16), hex_digit (r mod 16)]"

text \<open>\<open>json.Marshal\<close> of a string, with its HTML escapes; bytes that are not UTF-8 become U+FFFD.\<close>

definition json_rune :: "rune \<Rightarrow> bytes" where
  "json_rune r =
     (if r = 0x22 \<or> r = 0x5C then [CHR 0x5C, char_of r]
      else if r = 8 then [CHR 0x5C, CHR ''b'']
      else if r = 12 then [CHR 0x5C, CHR ''f'']
      else if r = 10 then [CHR 0x5C, CHR ''n'']
      else if r = 13 then [CHR 0x5C, CHR ''r'']
      else if r = 9 then [CHR 0x5C, CHR ''t'']
      else if r < 32 \<or> r = 0x3C \<or> r = 0x3E \<or> r = 0x26 then unicode_escape r
      else if r < 128 then [char_of r]
      else if r = 0x2028 \<or> r = 0x2029 then unicode_escape r
      else encode_rune r)"

definition json_string :: "bytes \<Rightarrow> bytes" where
  "json_string s = [CHR 0x22] @ concat (map json_rune (runes s)) @ [CHR 0x22]"

definition marshal_source :: "(f64 \<Rightarrow> bytes) \<Rightarrow> rag_source \<Rightarrow> bytes" where
  "marshal_source float s =
     ''{'' @ json_string ''document_id'' @ '':'' @ format_int (so_document_id s)
     @ '','' @ json_string ''filename'' @ '':'' @ json_string (so_filename s)
     @ '','' @ json_string ''section'' @ '':'' @ json_string (so_section s)
     @ '','' @ json_string ''page'' @ '':'' @ format_int (so_page s)
     @ '','' @ json_string ''score'' @ '':'' @ float (so_score s) @ ''}''"

definition marshal_sources :: "(f64 \<Rightarrow> bytes) \<Rightarrow> rag_source list \<Rightarrow> bytes" where
  "marshal_sources float ss = ''['' @ join '','' (map (marshal_source float) ss) @ '']''"

text \<open>\<open>asciiJSON\<close>: runes outside ASCII as one or two UTF-16 escapes.\<close>

definition ascii_rune :: "rune \<Rightarrow> bytes" where
  "ascii_rune r =
     (if r < 0x80 then [char_of r]
      else if r > 0xFFFF
      then (let q = r - 0x10000 in unicode_escape (0xD800 + q div 0x400) @ unicode_escape (0xDC00 + q mod 0x400))
      else unicode_escape r)"

definition ascii_json :: "bytes \<Rightarrow> bytes" where
  "ascii_json b = concat (map ascii_rune (runes b))"

definition maxSourcesHeaderBytes :: nat where "maxSourcesHeaderBytes = 2048"

text \<open>A score that is infinite or not a number has no JSON, and the list is then left empty.\<close>

definition finite_scores :: "rag_source list \<Rightarrow> bool" where
  "finite_scores ss \<longleftrightarrow> list_all (\<lambda>s. case so_score s of Fin x \<Rightarrow> True | _ \<Rightarrow> False) ss"

fun sources_header_from :: "(f64 \<Rightarrow> bytes) \<Rightarrow> rag_source list \<Rightarrow> nat \<Rightarrow> bytes" where
  "sources_header_from float ss 0 = ''[]''"
| "sources_header_from float ss (Suc n) =
     (if \<not> finite_scores (take (Suc n) ss) then ''[]''
      else (let v = ascii_json (marshal_sources float (take (Suc n) ss)) in
            if length v \<le> maxSourcesHeaderBytes then v else sources_header_from float ss n))"

definition sources_header :: "(f64 \<Rightarrow> bytes) \<Rightarrow> rag_source list \<Rightarrow> bytes" where
  "sources_header float ss = sources_header_from float ss (length ss)"

section \<open>The ragmux field of an answer\<close>

definition source_json :: "(f64 \<Rightarrow> bytes) \<Rightarrow> rag_source \<Rightarrow> json" where
  "source_json float s =
     JObj [(''document_id'', JNum (format_int (so_document_id s))), (''filename'', JStr (so_filename s)),
           (''section'', JStr (so_section s)), (''page'', JNum (format_int (so_page s))),
           (''score'', JNum (float (so_score s)))]"

definition inline_field :: "(f64 \<Rightarrow> bytes) \<Rightarrow> ragmux_request \<Rightarrow> rag_source list \<Rightarrow> bytes \<Rightarrow> json option" where
  "inline_field float o' ss block =
     (if \<not> rx_include_context o' \<and> \<not> rx_inline_sources o' then None
      else Some (marshal_map
        ([(''sources'', JArr (map (source_json float) ss))]
         @ (if rx_include_context o' then [(''context'', JStr block)] else []))))"

definition with_ragmux_field :: "(bytes \<times> json) list \<Rightarrow> json \<Rightarrow> json" where
  "with_ragmux_field resp extra = marshal_map (AList.update ''ragmux'' extra (obj_map resp))"

definition with_ragmux_chunk :: "bytes \<Rightarrow> bytes \<Rightarrow> bytes" where
  "with_ragmux_chunk chunk extra =
     (if chunk = [] \<or> last chunk \<noteq> CHR ''}'' then chunk
      else butlast chunk @ '','' @ [CHR 0x22] @ ''ragmux'' @ [CHR 0x22] @ '':'' @ extra @ ''}'')"

section \<open>The context of a request\<close>

definition rag_active :: "project \<Rightarrow> bool" where
  "rag_active p \<longleftrightarrow> p_rag_store_id p \<noteq> None \<and> p_retrieval_policy p \<noteq> RetrievalPolicyOff"

definition inject_retrieved :: "message list \<Rightarrow> bytes \<Rightarrow> bytes \<Rightarrow> message list" where
  "inject_retrieved msgs block placement =
     (if placement = ContextPlacementBeforeLastUser then inject_before_last_user msgs block
      else inject_retrieved_context msgs block)"

text \<open>
  What the gateway asks: the retriever, which may be missing, answers with hits and the
  charges of its rerank, or fails, and moves its world \<open>'s\<close>; \<open>ce_chat\<close> answers the side call
  that condenses and \<open>ce_condense_charge\<close> prices it.
\<close>

type_synonym 's retriever =
  "rag_store \<Rightarrow> bytes \<Rightarrow> filter_cond list \<Rightarrow> 's \<Rightarrow> (search_hit list \<times> side_charge list) option \<times> 's"

record context_env =
  ce_unicode :: unicode
  ce_store :: store
  ce_adapter :: bool
  ce_chat :: "bytes \<Rightarrow> chat_answer"
  ce_condense_charge :: "bytes \<Rightarrow> side_charge"
  ce_float :: "f64 \<Rightarrow> bytes"

record chat_prep =
  pr_messages :: "message list"
  pr_rag_active :: bool
  pr_opts :: ragmux_request
  pr_rag_used :: bool
  pr_rag_hits :: int
  pr_skip_reason :: bytes
  pr_sources :: "rag_source list"
  pr_context_block :: bytes
  pr_context_language :: bytes
  pr_headers :: "(bytes \<times> bytes) list"
  pr_charges :: "side_charge list"

definition no_store_warnings :: "project \<Rightarrow> ragmux_request \<Rightarrow> ragmux_request" where
  "no_store_warnings p o' =
     (if p_rag_store_id p \<noteq> None then o'
      else
        (let o' = (if rx_inline_sources o'
                   then warn ''ragmux.sources has no effect: this project has no RAG store; the list is empty'' o'
                   else if rx_include_context o'
                   then warn ''ragmux.include_context has no effect: this project has no RAG store; the sources and the context are empty'' o'
                   else o')
         in if filter_empty (rx_filter o') then o'
            else warn ''ragmux.filter has no effect: this project has no RAG store'' o'))"

definition context_skip_reason :: "context_env \<Rightarrow> project \<Rightarrow> ragmux_request \<Rightarrow> message list \<Rightarrow> bytes" where
  "context_skip_reason e p o' msgs =
     (let reason = skip_reason (ce_unicode e) (p_retrieval_policy p) (rx_retrieval_off o')
                     (p_query_strategy p = QueryStrategyCondense) msgs in
      if rx_tool_turn o' \<and> (reason = [] \<or> reason = RAGSkipGreeting \<or> reason = RAGSkipAck)
      then RAGSkipToolTurn else reason)"

definition search_context ::
  "context_env \<Rightarrow> 's retriever \<Rightarrow> project \<Rightarrow> rag_store \<Rightarrow> chat_prep \<Rightarrow> 's \<Rightarrow> chat_prep \<times> 's" where
  "search_context e search p rs pr s =
     (let msgs = pr_messages pr;
          q = last_user_query msgs;
          c = (if p_query_strategy p = QueryStrategyCondense
               then condense_query (ce_unicode e) p (ce_adapter e) (ce_chat e) msgs q
               else \<lparr>cq_query = q, cq_prompt = None, cq_outcome = None\<rparr>);
          charges = (case cq_prompt c of
                       Some prompt \<Rightarrow> add_side_charge (pr_charges pr) (ce_condense_charge e prompt)
                     | None \<Rightarrow> pr_charges pr);
          pr = pr\<lparr>pr_charges := charges\<rparr>;
          (res, s) = search rs (cq_query c) (rx_filter (pr_opts pr)) s
      in case res of
           None \<Rightarrow> (pr\<lparr>pr_headers := pr_headers pr @ [(''x-ragmux-rag-hits'', ''0'')]\<rparr>, s)
         | Some (hits, spent) \<Rightarrow>
             (let pr = pr\<lparr>pr_charges := fold (\<lambda>ch cs. add_side_charge cs ch) spent charges\<rparr>;
                  pr = (if hits = [] then pr
                        else
                          (let block = format_context hits in
                           pr\<lparr>pr_context_block := block, pr_context_language := rs_language rs,
                              pr_messages := inject_retrieved msgs block (p_context_placement p),
                              pr_rag_used := True, pr_rag_hits := int (length hits),
                              pr_sources := rag_sources hits,
                              pr_headers := pr_headers pr @ [(''x-ragmux-rag-sources'', sources_header (ce_float e) (rag_sources hits))]\<rparr>))
              in (pr\<lparr>pr_headers := pr_headers pr @ [(''x-ragmux-rag-hits'', format_int (int (length hits)))]\<rparr>, s)))"

definition prepare_context ::
  "context_env \<Rightarrow> 's retriever option \<Rightarrow> project \<Rightarrow> ragmux_request \<Rightarrow> message list \<Rightarrow> 's \<Rightarrow> chat_prep \<times> 's" where
  "prepare_context e retriever p opts msgs s =
     (let opts = no_store_warnings p opts;
          msgs = (if p_system_prompt p \<noteq> [] then inject_context msgs (p_system_prompt p) else msgs);
          pr = \<lparr>pr_messages = msgs, pr_rag_active = rag_active p, pr_opts = opts, pr_rag_used = False,
                pr_rag_hits = 0, pr_skip_reason = [], pr_sources = [], pr_context_block = [],
                pr_context_language = [], pr_headers = [], pr_charges = []\<rparr>
      in case (p_rag_store_id p, retriever) of
           (Some store_id, Some search) \<Rightarrow>
             (let reason = context_skip_reason e p opts msgs in
              if reason \<noteq> [] then
                (pr\<lparr>pr_skip_reason := reason,
                    pr_opts := (if filter_empty (rx_filter opts) then opts
                                else warn (''ragmux.filter has no effect: retrieval was skipped for this request ('' @ reason @ '')'') opts),
                    pr_headers := [(''x-ragmux-rag-skip'', reason), (''x-ragmux-rag-hits'', ''0'')]\<rparr>, s)
              else case get_rag_store (ce_store e) store_id of
                Inl err \<Rightarrow> (pr, s)
              | Inr rs \<Rightarrow> search_context e search p rs pr s)
         | _ \<Rightarrow> (pr, s))"

text \<open>\<open>prepareChat\<close>: the warnings of the adapter first, then those of the object.\<close>

definition prepare_chat ::
  "context_env \<Rightarrow> 's retriever option \<Rightarrow> project \<Rightarrow> bytes list \<Rightarrow> ragmux_request \<Rightarrow> message list \<Rightarrow> 's
     \<Rightarrow> (chat_prep \<times> bytes list) \<times> 's" where
  "prepare_chat e retriever p adapter_warnings opts msgs s =
     (let (pr, s) = prepare_context e retriever p opts msgs s in
      ((pr, add_warnings adapter_warnings @ add_ragmux_warnings (rx_warnings (pr_opts pr))), s))"

section \<open>Facts\<close>

lemma warn_filter [simp]: "rx_filter (warn m o') = rx_filter o'" "rx_retrieval_off (warn m o') = rx_retrieval_off o'"
  "rx_tool_turn (warn m o') = rx_tool_turn o'"
  by (simp_all add: warn_def)

lemma no_store_warnings_filter [simp]:
  "rx_filter (no_store_warnings p o') = rx_filter o'"
  "rx_retrieval_off (no_store_warnings p o') = rx_retrieval_off o'"
  "rx_tool_turn (no_store_warnings p o') = rx_tool_turn o'"
  by (simp_all add: no_store_warnings_def Let_def)

text \<open>The messages before retrieval, and the query a search of them asks.\<close>

definition prompted :: "project \<Rightarrow> message list \<Rightarrow> message list" where
  "prompted p msgs = (if p_system_prompt p \<noteq> [] then inject_context msgs (p_system_prompt p) else msgs)"

definition search_query :: "context_env \<Rightarrow> project \<Rightarrow> message list \<Rightarrow> bytes" where
  "search_query e p msgs =
     (let q = last_user_query msgs in
      if p_query_strategy p = QueryStrategyCondense
      then cq_query (condense_query (ce_unicode e) p (ce_adapter e) (ce_chat e) msgs q) else q)"

text \<open>
  What a search makes of a request: the retriever is asked once, for the store, the query
  and the filter of the request.
\<close>

definition searched ::
  "context_env \<Rightarrow> 's retriever \<Rightarrow> project \<Rightarrow> message list \<Rightarrow> rag_store \<Rightarrow> filter_cond list \<Rightarrow> 's
     \<Rightarrow> search_hit list \<times> 's" where
  "searched e search p msgs rs f s =
     (let (res, s) = search rs (search_query e p msgs) f s in
      (case res of None \<Rightarrow> [] | Some (hits, _) \<Rightarrow> hits, s))"

text \<open>The part of a prepared request that is about retrieval: the hits \<open>found\<close> decide it.\<close>

definition holds_hits :: "project \<Rightarrow> message list \<Rightarrow> search_hit list \<Rightarrow> chat_prep \<Rightarrow> bool" where
  "holds_hits p base found r \<longleftrightarrow>
     pr_rag_used r = (found \<noteq> []) \<and> pr_rag_hits r = int (length found) \<and> pr_sources r = rag_sources found
     \<and> pr_context_block r = (if found = [] then [] else format_context found)
     \<and> pr_messages r = (if found = [] then base
          else inject_retrieved base (format_context found) (p_context_placement p))"

lemma search_context_facts:
  assumes "holds_hits p msgs [] pr"
  shows "holds_hits p msgs (fst (searched e search p msgs rs (rx_filter (pr_opts pr)) s)) (fst (search_context e search p rs pr s))"
    and "snd (search_context e search p rs pr s) = snd (searched e search p msgs rs (rx_filter (pr_opts pr)) s)"
  using assms unfolding search_context_def searched_def Let_def search_query_def holds_hits_def
  by (auto simp: rag_sources_def split: option.split prod.split)

lemma context_skip_reason_opts:
  "context_skip_reason e p o' msgs = [] \<longleftrightarrow>
     \<not> rx_retrieval_off o' \<and> \<not> rx_tool_turn o' \<and> context_skip_reason e p no_ragmux msgs = []"
proof -
  have ne: "RAGSkipToolTurn \<noteq> []" "RAGSkipClientOff \<noteq> []" "RAGSkipPolicyOff \<noteq> []"
    by (simp_all add: RAGSkipToolTurn_def RAGSkipPolicyOff_def RAGSkipClientOff_def)
  then show ?thesis
    by (cases "rx_retrieval_off o'"; cases "rx_tool_turn o'")
      (simp_all add: context_skip_reason_def no_ragmux_def Let_def skip_reason_def)
qed

lemma context_skip_reason_active:
  assumes "context_skip_reason e p o' msgs = []"
  shows "p_retrieval_policy p \<noteq> RetrievalPolicyOff"
  using assms by (auto simp: context_skip_reason_def Let_def skip_reason_def RAGSkipToolTurn_def RAGSkipPolicyOff_def split: if_splits)

text \<open>The store a request may search: the project's, when its settings and the request want it.\<close>

definition store_to_search :: "context_env \<Rightarrow> project \<Rightarrow> ragmux_request \<Rightarrow> message list \<Rightarrow> rag_store option" where
  "store_to_search e p opts msgs =
     (case p_rag_store_id p of
        None \<Rightarrow> None
      | Some store_id \<Rightarrow>
          (if context_skip_reason e p opts (prompted p msgs) \<noteq> [] then None
           else case get_rag_store (ce_store e) store_id of Inl err \<Rightarrow> None | Inr rs \<Rightarrow> Some rs))"

lemma context_skip_reason_warnings [simp]:
  "context_skip_reason e p (no_store_warnings p o') msgs = context_skip_reason e p o' msgs"
  by (simp add: context_skip_reason_def)

lemma prepare_context_facts:
  "holds_hits p (prompted p msgs)
     (case store_to_search e p opts msgs of
        None \<Rightarrow> [] | Some rs \<Rightarrow> fst (searched e search p (prompted p msgs) rs (rx_filter opts) s))
     (fst (prepare_context e (Some search) p opts msgs s))"
  "snd (prepare_context e (Some search) p opts msgs s) =
     (case store_to_search e p opts msgs of
        None \<Rightarrow> s | Some rs \<Rightarrow> snd (searched e search p (prompted p msgs) rs (rx_filter opts) s))"
proof -
  define pr where "pr = \<lparr>pr_messages = prompted p msgs, pr_rag_active = rag_active p, pr_opts = no_store_warnings p opts,
      pr_rag_used = False, pr_rag_hits = 0, pr_skip_reason = [], pr_sources = [], pr_context_block = [],
      pr_context_language = [], pr_headers = [], pr_charges = []\<rparr>"
  note unfold = prepare_context_def Let_def prompted_def [symmetric] pr_def [symmetric]
  have pr: "holds_hits p (prompted p msgs) [] pr" "rx_filter (pr_opts pr) = rx_filter opts"
    by (simp_all add: pr_def holds_hits_def rag_sources_def)
  note found = search_context_facts [OF pr(1), of e search _ s, unfolded pr(2)]
  consider "p_rag_store_id p = None" | i where "p_rag_store_id p = Some i" "context_skip_reason e p opts (prompted p msgs) \<noteq> []"
    | i err where "p_rag_store_id p = Some i" "context_skip_reason e p opts (prompted p msgs) = []" "get_rag_store (ce_store e) i = Inl err"
    | i rs where "p_rag_store_id p = Some i" "context_skip_reason e p opts (prompted p msgs) = []" "get_rag_store (ce_store e) i = Inr rs"
    by (metis option.exhaust sum.exhaust)
  then show "holds_hits p (prompted p msgs)
     (case store_to_search e p opts msgs of
        None \<Rightarrow> [] | Some rs \<Rightarrow> fst (searched e search p (prompted p msgs) rs (rx_filter opts) s))
     (fst (prepare_context e (Some search) p opts msgs s))"
   and "snd (prepare_context e (Some search) p opts msgs s) =
     (case store_to_search e p opts msgs of
        None \<Rightarrow> s | Some rs \<Rightarrow> snd (searched e search p (prompted p msgs) rs (rx_filter opts) s))"
    unfolding unfold store_to_search_def using pr(1) found
    by (cases; simp add: holds_hits_def)+
qed

section \<open>Properties\<close>

lemma unicode_escape_ascii: "list_all (\<lambda>c. (of_char c :: nat) < 128) (unicode_escape r)"
proof -
  have "list_all (\<lambda>c. (of_char c :: nat) < 128) ''0123456789abcdef''" by code_simp
  then have "(of_char (hex_digit d) :: nat) < 128" if "d < 16" for d
    using that by (auto simp: hex_digit_def list_all_length)
  then show ?thesis by (simp add: unicode_escape_def)
qed

lemma ascii_json_ascii: "list_all (\<lambda>c. (of_char c :: nat) < 128) (ascii_json b)"
proof -
  have "list_all (\<lambda>c. (of_char c :: nat) < 128) (ascii_rune r)" for r
    using unicode_escape_ascii by (simp add: ascii_rune_def Let_def)
  then show ?thesis by (auto simp: ascii_json_def list_all_iff)
qed

lemma sources_header_from_spec:
  assumes "finite_scores ss" "n \<le> length ss"
  shows "\<exists>k\<le>n. sources_header_from float ss n = (if k = 0 then ''[]'' else ascii_json (marshal_sources float (take k ss)))
    \<and> length (sources_header_from float ss n) \<le> maxSourcesHeaderBytes
    \<and> (k = n \<or> length (ascii_json (marshal_sources float (take (Suc k) ss))) > maxSourcesHeaderBytes)"
  using assms(2)
proof (induction n)
  case 0
  show ?case by (simp add: maxSourcesHeaderBytes_def)
next
  case (Suc n)
  have fin: "finite_scores (take (Suc n) ss)"
    using assms(1) by (auto simp: finite_scores_def list_all_iff dest: in_set_takeD)
  show ?case
  proof (cases "length (ascii_json (marshal_sources float (take (Suc n) ss))) \<le> maxSourcesHeaderBytes")
    case True
    with fin show ?thesis by (intro exI [of _ "Suc n"]) (simp add: Let_def)
  next
    case False
    have "n \<le> length ss" using Suc.prems by simp
    from Suc.IH [OF this] obtain k where "k \<le> n"
      "sources_header_from float ss n = (if k = 0 then ''[]'' else ascii_json (marshal_sources float (take k ss)))"
      "length (sources_header_from float ss n) \<le> maxSourcesHeaderBytes"
      "k = n \<or> length (ascii_json (marshal_sources float (take (Suc k) ss))) > maxSourcesHeaderBytes" by blast
    with False fin show ?thesis by (intro exI [of _ k]) (auto simp: Let_def)
  qed
qed

text \<open>
  The calls a request makes: a retriever that finds what \<open>finds\<close> says and writes every call
  it gets into its world, started on the empty log. What the client asks is read off the
  JSON of its \<open>ragmux\<close> object.
\<close>

definition logged ::
  "(rag_store \<Rightarrow> bytes \<Rightarrow> filter_cond list \<Rightarrow> (search_hit list \<times> side_charge list) option)
     \<Rightarrow> (rag_store \<times> bytes \<times> filter_cond list) list retriever" where
  "logged finds rs q f calls = (finds rs q f, calls @ [(rs, q, f)])"

definition retrieval_calls ::
  "context_env \<Rightarrow> (rag_store \<Rightarrow> bytes \<Rightarrow> filter_cond list \<Rightarrow> (search_hit list \<times> side_charge list) option)
     \<Rightarrow> project \<Rightarrow> ragmux_request \<Rightarrow> message list \<Rightarrow> (rag_store \<times> bytes \<times> filter_cond list) list" where
  "retrieval_calls e finds p opts msgs = snd (prepare_context e (Some (logged finds)) p opts msgs [])"

definition asked :: "(bytes \<times> json) list \<Rightarrow> bytes \<Rightarrow> json option" where
  "asked extra k = (case map_of extra ''ragmux'' of Some (JObj ms) \<Rightarrow> map_of (obj_map ms) k | _ \<Rightarrow> None)"

lemma retrieval_calls_eq:
  "retrieval_calls e finds p opts msgs =
     (case store_to_search e p opts msgs of
        None \<Rightarrow> [] | Some rs \<Rightarrow> [(rs, search_query e p (prompted p msgs), rx_filter opts)])"
  by (simp add: retrieval_calls_def prepare_context_facts(2) searched_def logged_def Let_def split: option.split)

lemma fold_warn_filter [simp]:
  "rx_filter (fold (\<lambda>k. warn (g k)) ks o') = rx_filter o'"
  "rx_retrieval_off (fold (\<lambda>k. warn (g k)) ks o') = rx_retrieval_off o'"
  by (induction ks arbitrary: o') simp_all

lemma parse_ragmux_asked:
  assumes "parse_ragmux len extra = Inr opts"
  shows "rx_retrieval_off opts =
      (case asked extra ''retrieval'' of None \<Rightarrow> False | Some v \<Rightarrow> unmarshal dec_string [] (Some v) = Some ''off'')"
    and "Inr (rx_filter opts) = (case asked extra ''filter'' of None \<Rightarrow> Inr [] | Some v \<Rightarrow> parse_metadata_filter len v)"
proof -
  have base: "rx_retrieval_off no_ragmux = False" "rx_filter no_ragmux = []" by (simp_all add: no_ragmux_def)
  have inc: "rx_retrieval_off (read_include_context fs o') = rx_retrieval_off o'"
    "rx_filter (read_include_context fs o') = rx_filter o'" for fs o'
    by (simp_all add: read_include_context_def split: option.split)
  have src: "rx_retrieval_off (read_sources fs o') = rx_retrieval_off o'"
    "rx_filter (read_sources fs o') = rx_filter o'" for fs o'
    by (simp_all add: read_sources_def split: option.split)
  have ret: "rx_filter (read_retrieval fs o') = rx_filter o'" for fs o'
    by (simp add: read_retrieval_def split: option.split)
  have off: "rx_retrieval_off (read_retrieval fs (read_include_context fs no_ragmux)) =
      (case map_of fs ''retrieval'' of None \<Rightarrow> False | Some v \<Rightarrow> unmarshal dec_string [] (Some v) = Some ''off'')" for fs
    by (simp add: read_retrieval_def inc base split: option.split)
  have filt: "rx_retrieval_off o'' = rx_retrieval_off o' \<and>
      Inr (rx_filter o'') = (case map_of fs ''filter'' of None \<Rightarrow> Inr (rx_filter o') | Some v \<Rightarrow> parse_metadata_filter len v)"
    if "read_filter len fs o' = Inr o''" for fs o' o''
    using that by (auto simp: read_filter_def split: option.splits sum.splits)
  show "rx_retrieval_off opts =
      (case asked extra ''retrieval'' of None \<Rightarrow> False | Some v \<Rightarrow> unmarshal dec_string [] (Some v) = Some ''off'')"
    and "Inr (rx_filter opts) = (case asked extra ''filter'' of None \<Rightarrow> Inr [] | Some v \<Rightarrow> parse_metadata_filter len v)"
    using assms
    by (auto simp: parse_ragmux_def asked_def Let_def base src ret inc off dest!: filt split: option.splits json.splits sum.splits)
qed

text \<open>C37: A client can narrow the retrieval of its project and nothing else: the calls its request
  makes of the retriever are those the same request makes without its \<open>ragmux\<close> object, with
  the filter it asked for put on them, and none when it asked for \<open>retrieval\<close> \<open>off\<close> or the
  turn is a tool turn. And a request without a \<open>ragmux\<close> object makes at most one call, only
  where the project has a store and a policy that is not off, on that store, for the query
  of the conversation, unfiltered.\<close>

theorem client_can_only_narrow_retrieval:
  "(case parse_ragmux len extra of
      Inl _ \<Rightarrow> True
    | Inr opts \<Rightarrow>
     (let off = (case asked extra ''retrieval'' of
              None \<Rightarrow> False | Some v \<Rightarrow> unmarshal dec_string [] (Some v) = Some ''off'');
            plain = retrieval_calls e finds p no_ragmux msgs
          in (\<exists>f. (case asked extra ''filter'' of None \<Rightarrow> Inr [] | Some v \<Rightarrow> parse_metadata_filter len v) = Inr f
                \<and> retrieval_calls e finds p (opts\<lparr>rx_tool_turn := tool_turn, rx_warnings := ws\<rparr>) msgs =
                    (if off \<or> tool_turn then [] else map (\<lambda>(rs, q, _). (rs, q, f)) plain))
             \<and> (case plain of
                  [] \<Rightarrow> True
                | [(rs, q, f)] \<Rightarrow> rag_active p \<and> get_rag_store (ce_store e) (the (p_rag_store_id p)) = Inr rs
                    \<and> q = search_query e p (prompted p msgs) \<and> f = []
                | _ \<Rightarrow> False)))"
proof (cases "parse_ragmux len extra")
  case (Inr opts)
  note asked = parse_ragmux_asked [OF Inr]
  have "store_to_search e p (opts\<lparr>rx_tool_turn := tool_turn, rx_warnings := ws\<rparr>) msgs =
      (if rx_retrieval_off opts \<or> tool_turn then None else store_to_search e p no_ragmux msgs)"
    using context_skip_reason_opts [of e p "opts\<lparr>rx_tool_turn := tool_turn, rx_warnings := ws\<rparr>" "prompted p msgs"]
    by (auto simp: store_to_search_def split: option.split)
  moreover have "rag_active p \<and> get_rag_store (ce_store e) (the (p_rag_store_id p)) = Inr rs"
    if "store_to_search e p no_ragmux msgs = Some rs" for rs
    using that context_skip_reason_active [of e p no_ragmux "prompted p msgs"]
    by (auto simp: store_to_search_def rag_active_def split: option.splits if_splits sum.splits)
  ultimately show ?thesis
    unfolding Inr sum.case Let_def asked(2) [symmetric] asked(1) [symmetric] retrieval_calls_eq
    by (simp add: no_ragmux_def split: option.split)
qed simp


text \<open>However many warnings a request earns, it gets at most eight headers, the first ones as
  they are and the last standing for those left out.\<close>

theorem warning_headers_bounded:
  "length (add_ragmux_warnings texts) = min (length texts) maxRagmuxWarnings
   \<and> take (maxRagmuxWarnings - 1) (add_ragmux_warnings texts) = take (maxRagmuxWarnings - 1) (add_warnings texts)"
  by (auto simp: add_ragmux_warnings_def add_warnings_def Let_def maxRagmuxWarnings_def take_map)

text \<open>The sources header is ASCII, at most 2048 bytes and a complete list: of all sources, or of as
  many from the front as fit.\<close>

theorem sources_header_fits:
  assumes "finite_scores ss"
  shows "list_all (\<lambda>c. (of_char c :: nat) < 128) (sources_header float ss)
    \<and> length (sources_header float ss) \<le> maxSourcesHeaderBytes
    \<and> (\<exists>k\<le>length ss. sources_header float ss = (if k = 0 then ''[]'' else ascii_json (marshal_sources float (take k ss)))
         \<and> (k = length ss \<or> length (ascii_json (marshal_sources float (take (Suc k) ss))) > maxSourcesHeaderBytes))"
proof -
  obtain k where k: "k \<le> length ss"
    "sources_header float ss = (if k = 0 then ''[]'' else ascii_json (marshal_sources float (take k ss)))"
    "length (sources_header float ss) \<le> maxSourcesHeaderBytes"
    "k = length ss \<or> length (ascii_json (marshal_sources float (take (Suc k) ss))) > maxSourcesHeaderBytes"
    using sources_header_from_spec [OF assms order_refl, of float] unfolding sources_header_def by blast
  have "list_all (\<lambda>c. (of_char c :: nat) < 128) ''[]''" by code_simp
  with k(2) have "list_all (\<lambda>c. (of_char c :: nat) < 128) (sources_header float ss)"
    by (simp add: ascii_json_ascii)
  with k show ?thesis by blast
qed

lemma sources_header_fits_witness:
  "length (sources_header (\<lambda>x. ''0.5'') [\<lparr>so_document_id = 7, so_filename = ''a.md'', so_section = [], so_page = 0, so_score = Fin (1 / 2)\<rparr>]) \<le> 2048"
proof -
  have "finite_scores [\<lparr>so_document_id = 7, so_filename = ''a.md'', so_section = [], so_page = 0, so_score = Fin (1 / 2)\<rparr>]"
    by (simp add: finite_scores_def)
  from sources_header_fits [OF this] show ?thesis by (simp add: maxSourcesHeaderBytes_def)
qed

end
