(* ===== verification/Netguard.thy ===== *)
theory Netguard
  imports GoStrings
begin

unbundle bit_operations_syntax

text \<open>
  \<open>internal/netguard/netguard.go\<close>: which addresses the gateway may dial for a provider, how
  a host name is resolved and dialled, and which redirects are followed. An address is
  \<open>net.IP\<close>, a list of octets of any length; \<open>None\<close> is the nil address. The resolver, the
  reading of an address literal, the dialler and the state of the context are an
  environment, so the theorems hold whatever they answer. Host names are ASCII.
\<close>

section \<open>Addresses\<close>

type_synonym octet = "8 word"
type_synonym ip = "octet list"

definition v4_in_v6_prefix :: ip where
  "v4_in_v6_prefix = replicate 10 0 @ [0xFF, 0xFF]"

text \<open>\<open>IP.To4\<close>.\<close>

definition to4 :: "ip \<Rightarrow> ip option" where
  "to4 a =
     (if length a = 4 then Some a
      else if length a = 16 \<and> take 12 a = v4_in_v6_prefix then Some (drop 12 a)
      else None)"

text \<open>\<open>IP.Equal\<close>: an IPv4 address equals its IPv6 form.\<close>

definition ip_equal :: "ip \<Rightarrow> ip \<Rightarrow> bool" where
  "ip_equal a b =
     (if length a = length b then a = b
      else if length a = 4 \<and> length b = 16 then take 12 b = v4_in_v6_prefix \<and> a = drop 12 b
      else if length a = 16 \<and> length b = 4 then take 12 a = v4_in_v6_prefix \<and> drop 12 a = b
      else False)"

definition ipv4zero :: ip where "ipv4zero = v4_in_v6_prefix @ [0, 0, 0, 0]"
definition ipv6unspecified :: ip where "ipv6unspecified = replicate 16 0"
definition ipv6loopback :: ip where "ipv6loopback = replicate 15 0 @ [1]"

text \<open>The predicates of \<open>net.IP\<close> the code asks, as the standard library defines them.\<close>

definition is_unspecified :: "ip \<Rightarrow> bool" where
  "is_unspecified a \<longleftrightarrow> ip_equal a ipv4zero \<or> ip_equal a ipv6unspecified"

definition is_loopback :: "ip \<Rightarrow> bool" where
  "is_loopback a = (case to4 a of Some v \<Rightarrow> v ! 0 = 127 | None \<Rightarrow> ip_equal a ipv6loopback)"

definition is_private :: "ip \<Rightarrow> bool" where
  "is_private a =
     (case to4 a of
        Some v \<Rightarrow> v ! 0 = 10 \<or> v ! 0 = 172 \<and> v ! 1 AND 0xF0 = 16 \<or> v ! 0 = 192 \<and> v ! 1 = 168
      | None \<Rightarrow> length a = 16 \<and> a ! 0 AND 0xFE = 0xFC)"

definition is_multicast :: "ip \<Rightarrow> bool" where
  "is_multicast a =
     (case to4 a of Some v \<Rightarrow> v ! 0 AND 0xF0 = 0xE0 | None \<Rightarrow> length a = 16 \<and> a ! 0 = 0xFF)"

definition is_interface_local_multicast :: "ip \<Rightarrow> bool" where
  "is_interface_local_multicast a \<longleftrightarrow> length a = 16 \<and> a ! 0 = 0xFF \<and> a ! 1 AND 0x0F = 1"

definition is_link_local_multicast :: "ip \<Rightarrow> bool" where
  "is_link_local_multicast a =
     (case to4 a of
        Some v \<Rightarrow> v ! 0 = 224 \<and> v ! 1 = 0 \<and> v ! 2 = 0
      | None \<Rightarrow> length a = 16 \<and> a ! 0 = 0xFF \<and> a ! 1 AND 0x0F = 2)"

definition is_link_local_unicast :: "ip \<Rightarrow> bool" where
  "is_link_local_unicast a =
     (case to4 a of
        Some v \<Rightarrow> v ! 0 = 169 \<and> v ! 1 = 254
      | None \<Rightarrow> length a = 16 \<and> a ! 0 = 0xFE \<and> a ! 1 AND 0xC0 = 0x80)"

section \<open>Networks\<close>

text \<open>A network: its number and the length of its mask, \<open>net.CIDRMask\<close> octet by octet.\<close>

type_synonym network = "ip \<times> nat"

fun cidr_mask :: "nat \<Rightarrow> nat \<Rightarrow> ip" where
  "cidr_mask n 0 = []"
| "cidr_mask n (Suc l) =
     (if n \<ge> 8 then 0xFF # cidr_mask (n - 8) l else NOT (drop_bit n 0xFF) # cidr_mask 0 l)"

text \<open>\<open>IPNet.Contains\<close>.\<close>

definition contains :: "network \<Rightarrow> ip \<Rightarrow> bool" where
  "contains net a =
     (let a = (case to4 a of Some v \<Rightarrow> v | None \<Rightarrow> a);
          m = cidr_mask (snd net) (length (fst net)) in
      length a = length (fst net)
      \<and> list_all (\<lambda>(n, m, x). n AND m = x AND m) (zip (fst net) (zip m a)))"

definition disallowed_nets :: "network list" where
  "disallowed_nets =
     [([0, 0, 0, 0], 8),
      ([10, 0, 0, 0], 8),
      ([100, 64, 0, 0], 10),
      ([127, 0, 0, 0], 8),
      ([169, 254, 0, 0], 16),
      ([172, 16, 0, 0], 12),
      ([192, 0, 0, 0], 24),
      ([192, 168, 0, 0], 16),
      ([198, 18, 0, 0], 15),
      ([224, 0, 0, 0], 4),
      ([240, 0, 0, 0], 4),
      (replicate 16 0, 128),
      (replicate 15 0 @ [1], 128),
      ([0x00, 0x64, 0xFF, 0x9B] @ replicate 12 0, 96),
      (0xFC # replicate 15 0, 7),
      ([0xFE, 0x80] @ replicate 14 0, 10),
      (0xFF # replicate 15 0, 8)]"

definition is_disallowed_ip :: "ip option \<Rightarrow> bool" where
  "is_disallowed_ip addr =
     (case addr of
        None \<Rightarrow> True
      | Some a \<Rightarrow>
          (let a = (case to4 a of Some v \<Rightarrow> v | None \<Rightarrow> a) in
           if is_unspecified a \<or> is_loopback a \<or> is_link_local_unicast a \<or> is_link_local_multicast a
              \<or> is_interface_local_multicast a \<or> is_multicast a \<or> is_private a
           then True
           else list_ex (\<lambda>net. contains net a) disallowed_nets))"

section \<open>Resolving and dialling\<close>

datatype dial_error =
    AddressError
  | LookupError
  | Disallowed bytes
  | DialFailed

text \<open>What is dialled: an address literal with the port, or the address as it was given.\<close>

datatype target = Literal ip bytes | Named bytes

record net_env =
  ne_split :: "bytes \<Rightarrow> (bytes \<times> bytes) option"
  ne_parse_ip :: "bytes \<Rightarrow> ip option"
  ne_lookup :: "bytes \<Rightarrow> ip option list option"
  ne_dial :: "target \<Rightarrow> bool"
  ne_cancelled :: "nat \<Rightarrow> bool"

definition trim_dot :: "bytes \<Rightarrow> bytes" where
  "trim_dot s = (if has_suffix s ''.'' then butlast s else s)"

definition trim_brackets :: "bytes \<Rightarrow> bytes" where
  "trim_brackets s =
     rev (dropWhile (\<lambda>c. c \<in> set ''[]'') (rev (dropWhile (\<lambda>c. c \<in> set ''[]'') s)))"

definition host_allowed :: "bytes \<Rightarrow> bool \<Rightarrow> bytes set \<Rightarrow> bool" where
  "host_allowed host allow_private allow_hosts \<longleftrightarrow> allow_private \<or> lower (trim_dot host) \<in> allow_hosts"

definition resolve :: "net_env \<Rightarrow> bytes \<Rightarrow> dial_error + ip option list" where
  "resolve e host =
     (case ne_parse_ip e (trim_brackets host) of
        Some a \<Rightarrow> if is_disallowed_ip (Some a) then Inl (Disallowed host) else Inr [Some a]
      | None \<Rightarrow>
          (case ne_lookup e host of
             None \<Rightarrow> Inl LookupError
           | Some addrs \<Rightarrow>
               (let ips = filter (\<lambda>a. \<not> is_disallowed_ip a) addrs in
                if ips = [] then Inl (Disallowed host) else Inr ips)))"

text \<open>
  The loop over the addresses: what was dialled, and whether one answered. It stops after
  a failure when the context is done.
\<close>

fun dial_loop :: "net_env \<Rightarrow> bytes \<Rightarrow> ip option list \<Rightarrow> nat \<Rightarrow> target list \<times> (dial_error + target)" where
  "dial_loop e port [] k = ([], Inl DialFailed)"
| "dial_loop e port (a # as) k =
     (let t = Literal (case a of Some x \<Rightarrow> x | None \<Rightarrow> []) port in
      if ne_dial e t then ([t], Inr t)
      else if ne_cancelled e k then ([t], Inl DialFailed)
      else (let (ts, r) = dial_loop e port as (Suc k) in (t # ts, r)))"

definition safe_dial :: "net_env \<Rightarrow> bool \<Rightarrow> bytes set \<Rightarrow> bytes \<Rightarrow> target list \<times> (dial_error + target)" where
  "safe_dial e allow_private allow_hosts addr =
     (case ne_split e addr of
        None \<Rightarrow> ([], Inl AddressError)
      | Some (host, port) \<Rightarrow>
          (if host_allowed host allow_private allow_hosts
           then ([Named addr], if ne_dial e (Named addr) then Inr (Named addr) else Inl DialFailed)
           else (case resolve e host of
                   Inl err \<Rightarrow> ([], Inl err)
                 | Inr ips \<Rightarrow> dial_loop e port ips 0)))"

definition check_host :: "net_env \<Rightarrow> bytes \<Rightarrow> bool \<Rightarrow> bytes set \<Rightarrow> dial_error option" where
  "check_host e host allow_private allow_hosts =
     (if host_allowed host allow_private allow_hosts then None
      else (case resolve e host of
              Inl (Disallowed h) \<Rightarrow> Some (Disallowed h)
            | _ \<Rightarrow> None))"

definition host_is_private :: "net_env \<Rightarrow> bytes \<Rightarrow> dial_error + bool" where
  "host_is_private e host =
     (let host = trim_dot (lower host) in
      if host = ''localhost'' \<or> has_suffix host ''.localhost'' then Inr True
      else
        (case ne_parse_ip e (trim_brackets host) of
           Some a \<Rightarrow> Inr (is_disallowed_ip (Some a))
         | None \<Rightarrow>
             (case resolve e host of
                Inl (Disallowed h) \<Rightarrow> Inr True
              | Inl err \<Rightarrow> Inl err
              | Inr ips \<Rightarrow> Inr False)))"

definition parse_allowlist :: "bytes \<Rightarrow> bytes set" where
  "parse_allowlist s =
     set (filter (\<lambda>h. h \<noteq> []) (map (\<lambda>h. trim_dot (lower (trim_space h))) (split_char CHR '','' s)))"

section \<open>Redirects\<close>

record url =
  u_scheme :: bytes
  u_host :: bytes

datatype redirect_error = TooManyRedirects | UnsupportedScheme bytes | HostDiffers | Downgrade

definition equal_fold :: "bytes \<Rightarrow> bytes \<Rightarrow> bool" where
  "equal_fold s t \<longleftrightarrow> lower s = lower t"

text \<open>\<open>via\<close> are the requests made so far, the original one first.\<close>

definition check_redirect :: "nat \<Rightarrow> url \<Rightarrow> url list \<Rightarrow> redirect_error option" where
  "check_redirect max_hops req via =
     (if length via > max_hops then Some TooManyRedirects
      else if u_scheme req \<noteq> ''http'' \<and> u_scheme req \<noteq> ''https'' then Some (UnsupportedScheme (u_scheme req))
      else if via = [] then None
      else if \<not> equal_fold (u_host req) (u_host (hd via)) then Some HostDiffers
      else if equal_fold (u_scheme (last via)) ''https'' \<and> \<not> equal_fold (u_scheme req) ''https'' then Some Downgrade
      else None)"

text \<open>The client asks before each redirect and stops at the first refusal; the requests made.\<close>

fun follow :: "nat \<Rightarrow> url list \<Rightarrow> url list \<Rightarrow> url list" where
  "follow max_hops via [] = via"
| "follow max_hops via (req # reqs) =
     (if check_redirect max_hops req via = None then follow max_hops (via @ [req]) reqs else via)"

section \<open>A network is the addresses that share its leading bits\<close>

text \<open>The number an address stands for, most significant octet first.\<close>

fun ip_value :: "ip \<Rightarrow> nat" where
  "ip_value [] = 0"
| "ip_value (x # xs) = unat x * 2 ^ (8 * length xs) + ip_value xs"

definition in_network :: "network \<Rightarrow> ip \<Rightarrow> bool" where
  "in_network net a \<longleftrightarrow>
     length a = length (fst net)
     \<and> ip_value a div 2 ^ (8 * length a - snd net) = ip_value (fst net) div 2 ^ (8 * length a - snd net)"

fun leading_bits :: "nat \<Rightarrow> ip \<Rightarrow> ip \<Rightarrow> bool" where
  "leading_bits n (x # xs) (y # ys) \<longleftrightarrow>
     (if n \<ge> 8 then x = y \<and> leading_bits (n - 8) xs ys
      else drop_bit (8 - n) x = drop_bit (8 - n) y \<and> leading_bits 0 xs ys)"
| "leading_bits n _ _ \<longleftrightarrow> True"

lemma ip_value_less: "ip_value a < 2 ^ (8 * length a)"
proof (induction a)
  case (Cons x xs)
  have "unat x < 2 ^ LENGTH(8)" by (rule unsigned_less)
  then have "unat x + 1 \<le> (2 ^ 8 :: nat)" by simp
  then have "(unat x + 1) * 2 ^ (8 * length xs) \<le> 2 ^ 8 * (2 ^ (8 * length xs) :: nat)"
    by (rule mult_le_mono1)
  moreover have "2 ^ (8 * length (x # xs)) = 2 ^ 8 * (2 ^ (8 * length xs) :: nat)"
    by (simp add: power_add)
  ultimately have "unat x * 2 ^ (8 * length xs) + 2 ^ (8 * length xs) \<le> 2 ^ (8 * length (x # xs))"
    by (simp only: distrib_right mult_1)
  with Cons show ?case unfolding ip_value.simps by linarith
qed simp

lemma and_high_bits:
  fixes x y :: octet
  shows "x AND NOT (drop_bit n 0xFF) = y AND NOT (drop_bit n 0xFF) \<longleftrightarrow> drop_bit (8 - n) x = drop_bit (8 - n) y"
proof -
  have ff: "(0xFF :: octet) = mask 8" by (simp add: mask_eq_exp_minus_1)
  have m: "bit (NOT (drop_bit n 0xFF) :: octet) i \<longleftrightarrow> i < 8 \<and> 8 - n \<le> i" for i
    by (auto simp: bit_not_iff_eq bit_drop_bit_eq ff bit_mask_iff)
  show ?thesis
    unfolding bit_eq_iff bit_and_iff bit_drop_bit_eq m comp_def
  proof (intro iffI allI)
    fix i assume "\<forall>i. possible_bit TYPE(octet) i \<longrightarrow> (bit x i \<and> i < 8 \<and> 8 - n \<le> i) = (bit y i \<and> i < 8 \<and> 8 - n \<le> i)"
    from this [rule_format, of "8 - n + i"]
    have "8 - n + i < 8 \<Longrightarrow> bit x (8 - n + i) = bit y (8 - n + i)" by (simp add: possible_bit_word)
    moreover have "\<not> bit x (8 - n + i) \<and> \<not> bit y (8 - n + i)" if "\<not> 8 - n + i < 8"
      using that bit_imp_le_length [of x "8 - n + i"] bit_imp_le_length [of y "8 - n + i"] by auto
    ultimately show "possible_bit TYPE(octet) i \<longrightarrow> bit x (8 - n + i) = bit y (8 - n + i)" by blast
  next
    fix i assume a: "\<forall>i. possible_bit TYPE(octet) i \<longrightarrow> bit x (8 - n + i) = bit y (8 - n + i)"
    show "possible_bit TYPE(octet) i \<longrightarrow> (bit x i \<and> i < 8 \<and> 8 - n \<le> i) = (bit y i \<and> i < 8 \<and> 8 - n \<le> i)"
      using a [rule_format, of "i - (8 - n)"] by (auto simp: possible_bit_word)
  qed
qed

lemma masked_leading_bits:
  "length xs = l \<Longrightarrow> length ys = l \<Longrightarrow>
   list_all (\<lambda>(a, m, x). a AND m = x AND m) (zip xs (zip (cidr_mask n l) ys)) \<longleftrightarrow> leading_bits n xs ys"
proof (induction n l arbitrary: xs ys rule: cidr_mask.induct)
  case (2 n l)
  then obtain x xs' y ys' where xs: "xs = x # xs'" "ys = y # ys'" by (cases xs; cases ys) auto
  have full: "a AND 0xFF = (a :: octet)" for a
  proof -
    have "(0xFF :: octet) = - 1" by simp
    then show ?thesis by (simp only: and.right_neutral)
  qed
  show ?case using 2 by (simp add: xs full and_high_bits)
qed simp

lemma div_split:
  fixes u v :: nat
  assumes "v < 2 ^ k"
  shows "j \<le> k \<Longrightarrow> (u * 2 ^ k + v) div 2 ^ j = u * 2 ^ (k - j) + v div 2 ^ j"
    and "k \<le> j \<Longrightarrow> (u * 2 ^ k + v) div 2 ^ j = u div 2 ^ (j - k)"
proof -
  assume "j \<le> k"
  then have "u * 2 ^ k + v = v + (u * 2 ^ (k - j)) * 2 ^ j" by (simp flip: power_add)
  also have "\<dots> div 2 ^ j = u * 2 ^ (k - j) + v div 2 ^ j" by simp
  finally show "(u * 2 ^ k + v) div 2 ^ j = u * 2 ^ (k - j) + v div 2 ^ j" .
next
  assume "k \<le> j"
  then have e: "2 ^ j = (2 ^ k * 2 ^ (j - k) :: nat)" by (simp flip: power_add)
  have "(u * 2 ^ k + v) div 2 ^ j = (u * 2 ^ k + v) div 2 ^ k div 2 ^ (j - k)"
    by (simp only: e div_mult2_eq)
  also have "(u * 2 ^ k + v) div 2 ^ k = u" using assms by simp
  finally show "(u * 2 ^ k + v) div 2 ^ j = u div 2 ^ (j - k)" .
qed

lemma mult_add_eq_iff:
  fixes u v u' v' m :: nat
  assumes "v < m" "v' < m"
  shows "u * m + v = u' * m + v' \<longleftrightarrow> u = u' \<and> v = v'"
proof
  assume "u * m + v = u' * m + v'"
  then have "(u * m + v) div m = (u' * m + v') div m" "(u * m + v) mod m = (u' * m + v') mod m" by simp_all
  with assms show "u = u' \<and> v = v'" by simp
qed simp

lemma leading_bits_value:
  assumes "length xs = length ys" "n \<le> 8 * length xs"
  shows "leading_bits n xs ys \<longleftrightarrow>
    ip_value xs div 2 ^ (8 * length xs - n) = ip_value ys div 2 ^ (8 * length xs - n)"
  using assms
proof (induction n xs ys rule: leading_bits.induct)
  case (1 n x xs y ys)
  let ?k = "8 * length xs" and ?j = "8 * length (x # xs) - n"
  have len: "length ys = length xs" using 1(3) by simp
  have v: "ip_value xs < 2 ^ ?k" "ip_value ys < 2 ^ ?k"
    using ip_value_less [of xs] ip_value_less [of ys] len by simp_all
  show ?case
  proof (cases "n \<ge> 8")
    case True
    then have j: "?j = ?k - (n - 8)" "?j \<le> ?k" using 1(4) by simp_all
    have less: "w div 2 ^ ?j < 2 ^ (?k - ?j)" if "w < 2 ^ ?k" for w :: nat
      using that j(2) by (simp add: less_mult_imp_div_less flip: power_add)
    have "leading_bits (n - 8) xs ys \<longleftrightarrow> ip_value xs div 2 ^ ?j = ip_value ys div 2 ^ ?j"
      unfolding j(1) using 1(1) True 1(4) len by simp
    with True show ?thesis
      unfolding ip_value.simps len div_split(1) [OF v(1) j(2)] div_split(1) [OF v(2) j(2)]
        mult_add_eq_iff [OF less [OF v(1)] less [OF v(2)]]
      by (simp add: word_unat_eq_iff)
  next
    case False
    then have j: "?k \<le> ?j" "?j - ?k = 8 - n" by simp_all
    have zero: "leading_bits 0 xs ys"
      using 1(2) False len v by simp
    have "drop_bit (8 - n) x = drop_bit (8 - n) y \<longleftrightarrow> unat x div 2 ^ (8 - n) = unat y div 2 ^ (8 - n)"
      by (simp only: word_unat_eq_iff unat_drop_bit_eq) (simp only: drop_bit_eq_div)
    with False zero show ?thesis
      unfolding ip_value.simps len div_split(2) [OF v(1) j(1)] div_split(2) [OF v(2) j(1)] j(2) by simp
  qed
qed auto

lemma contains_iff:
  assumes "snd net \<le> 8 * length (fst net)" "to4 a = None \<or> length a = 4"
  shows "contains net a \<longleftrightarrow> in_network net a"
proof -
  have a: "(case to4 a of Some v \<Rightarrow> v | None \<Rightarrow> a) = a"
    using assms(2) by (auto simp: to4_def split: if_splits)
  show ?thesis
  proof (cases "length a = length (fst net)")
    case True
    then show ?thesis
      unfolding contains_def in_network_def a Let_def
      using masked_leading_bits [OF refl, of a "fst net" "snd net"] leading_bits_value [of "fst net" a "snd net"] assms(1)
      by (auto simp: eq_commute)
  qed (simp add: contains_def in_network_def a)
qed

section \<open>The predicates of the standard library add nothing to the list\<close>

definition canonical :: "ip \<Rightarrow> ip" where
  "canonical a = (case to4 a of Some v \<Rightarrow> v | None \<Rightarrow> a)"

lemma canonical_to4: "to4 (canonical a) = None \<or> length (canonical a) = 4"
  by (auto simp: canonical_def to4_def split: if_splits)

lemma length4: "length (a :: ip) = 4 \<longleftrightarrow> (\<exists>b c d e. a = [b, c, d, e])"
  by (auto simp: numeral_eq_Suc length_Suc_conv)

lemma leading_bits_0: "length xs = length ys \<Longrightarrow> leading_bits 0 xs ys"
proof (induction xs ys rule: list_induct2)
  case (Cons x xs y ys)
  have "drop_bit 8 z = 0" for z :: octet
    by (rule bit_eqI) (auto simp: bit_drop_bit_eq dest: bit_imp_le_length)
  with Cons show ?case by simp
qed simp

lemma high_bits_iff:
  fixes x y :: octet
  assumes "m = NOT (drop_bit n 0xFF)"
  shows "x AND m = y AND m \<longleftrightarrow> drop_bit (8 - n) x = drop_bit (8 - n) y"
  unfolding assms by (rule and_high_bits)

lemma contains_leading:
  assumes "length a = length (fst net)" "to4 a = None \<or> length a = 4"
  shows "contains net a \<longleftrightarrow> leading_bits (snd net) (fst net) a"
proof -
  have a: "(case to4 a of Some v \<Rightarrow> v | None \<Rightarrow> a) = a"
    using assms(2) by (auto simp: to4_def split: if_splits)
  show ?thesis unfolding contains_def a Let_def using assms(1) masked_leading_bits [OF refl, of a "fst net"] by simp
qed

lemma nets_all: "list_all (\<lambda>net. snd net \<le> 8 * length (fst net)) disallowed_nets"
  by (simp add: disallowed_nets_def)

text \<open>The networks the predicates ask about, one by one.\<close>

lemma disallowed_v4:
  assumes "(net, n) \<in> set disallowed_nets" "length net = 4" "leading_bits n net [p, q, r, s]"
  shows "list_ex (\<lambda>net. contains net [p, q, r, s]) disallowed_nets"
  unfolding list_ex_iff using assms by (intro bexI [of _ "(net, n)"]) (simp_all add: contains_leading)

lemma disallowed_v6:
  assumes "(net, n) \<in> set disallowed_nets" "length net = 16" "length a = 16" "to4 a = None" "leading_bits n net a"
  shows "list_ex (\<lambda>net. contains net a) disallowed_nets"
  unfolding list_ex_iff using assms by (intro bexI [of _ "(net, n)"]) (simp_all add: contains_leading)

lemmas first_bits =
  high_bits_iff [of "0xF0" 4, simplified] high_bits_iff [of "0xFE" 7, simplified] high_bits_iff [of "0xC0" 2, simplified]

lemma zeros_not_prefix: "replicate 12 (0 :: octet) \<noteq> replicate 10 0 @ [0xFF, 0xFF]"
proof
  assume "replicate 12 (0 :: octet) = replicate 10 0 @ [0xFF, 0xFF]"
  then have "last (replicate 12 (0 :: octet)) = last (replicate 10 0 @ [0xFF, 0xFF])" by (rule arg_cong)
  then show False by simp
qed

lemma v4_predicates_listed:
  assumes "is_unspecified [p, q, r, s] \<or> is_loopback [p, q, r, s] \<or> is_link_local_unicast [p, q, r, s]
      \<or> is_link_local_multicast [p, q, r, s] \<or> is_interface_local_multicast [p, q, r, s]
      \<or> is_multicast [p, q, r, s] \<or> is_private [p, q, r, s]"
  shows "list_ex (\<lambda>net. contains net [p, q, r, s]) disallowed_nets"
proof -
  let ?a = "[p, q, r, s]"
  have to4: "to4 ?a = Some ?a" by (simp add: to4_def)
  have nibble: "x AND 0xF0 = 0xE0 \<longleftrightarrow> drop_bit 4 x = drop_bit 4 0xE0"
    "x AND 0xF0 = 16 \<longleftrightarrow> drop_bit 4 x = drop_bit 4 16" for x :: octet
    using first_bits(1) [of x "0xE0"] first_bits(1) [of x 16] by simp_all
  from assms consider "?a = [0, 0, 0, 0]" | "p = 127" | "p = 169" "q = 254" | "drop_bit 4 p = drop_bit 4 0xE0"
    | "p = 10" | "p = 172" "drop_bit 4 q = drop_bit 4 16" | "p = 192" "q = 168"
    by (auto simp: is_unspecified_def ip_equal_def ipv4zero_def v4_in_v6_prefix_def ipv6unspecified_def
        is_loopback_def is_link_local_unicast_def is_link_local_multicast_def is_interface_local_multicast_def
        is_multicast_def is_private_def to4 nibble zeros_not_prefix)
  then show ?thesis
  proof cases
    case 1 then show ?thesis by (intro disallowed_v4 [of "[0, 0, 0, 0]" 8]) (simp_all add: disallowed_nets_def leading_bits_0)
  next
    case 2 then show ?thesis by (intro disallowed_v4 [of "[127, 0, 0, 0]" 8]) (simp_all add: disallowed_nets_def leading_bits_0)
  next
    case 3 then show ?thesis by (intro disallowed_v4 [of "[169, 254, 0, 0]" 16]) (simp_all add: disallowed_nets_def leading_bits_0)
  next
    case 4 then show ?thesis by (intro disallowed_v4 [of "[224, 0, 0, 0]" 4]) (simp_all add: disallowed_nets_def leading_bits_0)
  next
    case 5 then show ?thesis by (intro disallowed_v4 [of "[10, 0, 0, 0]" 8]) (simp_all add: disallowed_nets_def leading_bits_0)
  next
    case 6 then show ?thesis by (intro disallowed_v4 [of "[172, 16, 0, 0]" 12]) (simp_all add: disallowed_nets_def leading_bits_0)
  next
    case 7 then show ?thesis by (intro disallowed_v4 [of "[192, 168, 0, 0]" 16]) (simp_all add: disallowed_nets_def leading_bits_0)
  qed
qed

lemma leading_16:
  "length a = 16 \<Longrightarrow> \<exists>x y ys. a = x # y # ys \<and> length ys = 14"
  by (auto simp: numeral_eq_Suc length_Suc_conv)

lemma leading_bits_refl: "leading_bits n a a"
proof (induction a arbitrary: n)
  case (Cons x xs) then show ?case by simp
qed simp

lemma v6_predicates_listed:
  assumes "to4 a = None" "length a \<noteq> 4"
    and "is_unspecified a \<or> is_loopback a \<or> is_link_local_unicast a \<or> is_link_local_multicast a
      \<or> is_interface_local_multicast a \<or> is_multicast a \<or> is_private a"
  shows "list_ex (\<lambda>net. contains net a) disallowed_nets"
proof -
  have zero: "to4 ipv4zero \<noteq> None" by (simp add: to4_def ipv4zero_def v4_in_v6_prefix_def)
  from assms zero have len: "length a = 16"
    by (auto simp: is_unspecified_def ip_equal_def ipv4zero_def v4_in_v6_prefix_def ipv6unspecified_def
        is_loopback_def ipv6loopback_def is_link_local_unicast_def is_link_local_multicast_def
        is_interface_local_multicast_def is_multicast_def is_private_def split: if_splits)
  then obtain x y ys where a: "a = x # y # ys" "length ys = 14" using leading_16 by blast
  have bits: "x AND 0xFE = 0xFC \<longleftrightarrow> drop_bit 1 x = drop_bit 1 0xFC" "y AND 0xC0 = 0x80 \<longleftrightarrow> drop_bit 6 y = drop_bit 6 0x80"
    using first_bits(2) [of x "0xFC"] first_bits(3) [of y "0x80"] by simp_all
  have "a \<noteq> ipv4zero" using zero assms(1) by auto
  with assms(3) len consider "a = ipv6unspecified" | "a = ipv6loopback" | "x = 0xFE" "drop_bit 6 y = drop_bit 6 0x80"
    | "x = 0xFF" | "drop_bit 1 x = drop_bit 1 0xFC"
    by (auto simp: is_unspecified_def ip_equal_def ipv4zero_def v4_in_v6_prefix_def ipv6unspecified_def
        is_loopback_def ipv6loopback_def is_link_local_unicast_def is_link_local_multicast_def
        is_interface_local_multicast_def is_multicast_def is_private_def assms(1) [unfolded a(1)] a bits)
  then show ?thesis
  proof cases
    case 1 then show ?thesis using assms(1) len
      by (intro disallowed_v6 [of ipv6unspecified 128]) (simp_all add: disallowed_nets_def ipv6unspecified_def leading_bits_refl)
  next
    case 2 then show ?thesis using assms(1) len
      by (intro disallowed_v6 [of ipv6loopback 128]) (simp_all add: disallowed_nets_def ipv6loopback_def leading_bits_refl)
  next
    case 3 then show ?thesis using assms(1) len a
      by (intro disallowed_v6 [of "[0xFE, 0x80] @ replicate 14 0" 10]) (simp_all add: disallowed_nets_def leading_bits_0)
  next
    case 4 then show ?thesis using assms(1) len a
      by (intro disallowed_v6 [of "0xFF # replicate 15 0" 8]) (simp_all add: disallowed_nets_def leading_bits_0)
  next
    case 5 then show ?thesis using assms(1) len a
      by (intro disallowed_v6 [of "0xFC # replicate 15 0" 7]) (simp_all add: disallowed_nets_def leading_bits_0)
  qed
qed

lemma is_disallowed_contains:
  "is_disallowed_ip (Some a) \<longleftrightarrow> list_ex (\<lambda>net. contains net (canonical a)) disallowed_nets"
proof -
  let ?c = "canonical a"
  have "list_ex (\<lambda>net. contains net ?c) disallowed_nets"
    if "is_unspecified ?c \<or> is_loopback ?c \<or> is_link_local_unicast ?c \<or> is_link_local_multicast ?c
      \<or> is_interface_local_multicast ?c \<or> is_multicast ?c \<or> is_private ?c"
  proof (cases "length ?c = 4")
    case True
    then obtain p q r s where "?c = [p, q, r, s]" using length4 by blast
    with that v4_predicates_listed show ?thesis by simp
  next
    case False
    with canonical_to4 [of a] that show ?thesis by (intro v6_predicates_listed) auto
  qed
  then show ?thesis by (auto simp: is_disallowed_ip_def Let_def canonical_def [symmetric])
qed

section \<open>What is dialled\<close>

definition public_literal :: "target \<Rightarrow> bool" where
  "public_literal t = (case t of Literal a _ \<Rightarrow> \<not> is_disallowed_ip (Some a) | Named _ \<Rightarrow> False)"

lemma resolve_public: "resolve e host = Inr ips \<Longrightarrow> list_all (\<lambda>a. \<not> is_disallowed_ip a) ips \<and> ips \<noteq> []"
  by (auto simp: resolve_def Let_def list_all_iff split: option.splits if_splits)

lemma dial_loop_public:
  "list_all (\<lambda>a. \<not> is_disallowed_ip a) ips \<Longrightarrow>
   list_all public_literal (fst (dial_loop e port ips k)) \<and> length (fst (dial_loop e port ips k)) \<le> length ips
   \<and> (\<forall>t. snd (dial_loop e port ips k) = Inr t \<longrightarrow> ne_dial e t \<and> t = last (fst (dial_loop e port ips k)) \<and> fst (dial_loop e port ips k) \<noteq> [])"
proof (induction e port ips k rule: dial_loop.induct)
  case (2 e port a as k)
  then obtain x where a: "a = Some x" "\<not> is_disallowed_ip (Some x)"
    by (cases a) (simp_all add: is_disallowed_ip_def)
  with 2 show ?case by (auto simp: Let_def public_literal_def split: prod.splits)
qed simp

section \<open>A chain of redirects\<close>

text \<open>The hops made stay on the host of the first and never leave TLS again.\<close>

definition chain_ok :: "nat \<Rightarrow> url list \<Rightarrow> bool" where
  "chain_ok max_hops us \<longleftrightarrow>
     us \<noteq> [] \<and> length us \<le> Suc max_hops
     \<and> list_all (\<lambda>u. equal_fold (u_host u) (u_host (hd us))) us
     \<and> (\<forall>i j. i \<le> j \<and> j < length us \<and> equal_fold (u_scheme (us ! i)) ''https'' \<longrightarrow> equal_fold (u_scheme (us ! j)) ''https'')"

lemma chain_ok_step:
  assumes "chain_ok max_hops us" "check_redirect max_hops req us = None"
  shows "chain_ok max_hops (us @ [req])"
proof -
  from assms have ne: "us \<noteq> []" by (simp add: chain_ok_def)
  have keeps: "equal_fold (u_scheme (last us)) ''https'' \<longrightarrow> equal_fold (u_scheme req) ''https''"
    and host: "equal_fold (u_host req) (u_host (hd us))" and len: "length us \<le> max_hops"
    using assms(2) ne by (auto simp: check_redirect_def split: if_splits)
  have "equal_fold (u_scheme ((us @ [req]) ! j)) ''https''"
    if "i \<le> j" "j < length (us @ [req])" "equal_fold (u_scheme ((us @ [req]) ! i)) ''https''" for i j
  proof (cases "j < length us")
    case True
    with that assms(1) show ?thesis by (auto simp: chain_ok_def nth_append)
  next
    case False
    with that(2) have j: "j = length us" by simp
    show ?thesis
    proof (cases "i = j")
      case False
      with that j have i: "i \<le> length us - 1" "length us - 1 < length us" "i < length us" using ne by auto
      with that(3) have "equal_fold (u_scheme (us ! i)) ''https''" by (simp add: nth_append)
      with i(1,2) have "equal_fold (u_scheme (us ! (length us - 1))) ''https''"
        using assms(1) unfolding chain_ok_def by blast
      with keeps ne j show ?thesis by (simp add: last_conv_nth)
    qed (use that in simp)
  qed
  then show ?thesis using assms(1) ne host len by (auto simp: chain_ok_def list_all_iff)
qed

lemma follow_ok: "chain_ok max_hops via \<Longrightarrow> chain_ok max_hops (follow max_hops via reqs)"
  by (induction max_hops via reqs rule: follow.induct) (simp_all add: chain_ok_step)

section \<open>Properties\<close>

text \<open>C22: An address is refused exactly when, read as IPv4 if it is an IPv4-mapped IPv6 address, it
  is nil or its number shares the leading bits of one of the listed networks: the
  predicates of the standard library that are asked first refuse nothing the list does not.\<close>

theorem refused_addresses_are_the_listed_networks:
  "is_disallowed_ip addr =
     (case addr of None \<Rightarrow> True | Some a \<Rightarrow> list_ex (\<lambda>net. in_network net (canonical a)) disallowed_nets)"
proof (cases addr)
  case (Some a)
  have "contains net (canonical a) = in_network net (canonical a)" if "net \<in> set disallowed_nets" for net
    using nets_all that by (intro contains_iff canonical_to4) (simp add: list_all_iff)
  then show ?thesis by (simp add: Some is_disallowed_contains list_ex_iff)
qed (simp add: is_disallowed_ip_def)

text \<open>C14: Unless the operator allows the host, only address literals outside the refused networks
  are dialled, whatever the resolver answers, each resolved address at most once, and a
  connection is the one made by the last dial; a host refused when it is saved is never
  dialled while the resolver answers the same.\<close>

theorem dialled_addresses_are_public:
  "(let r = safe_dial e allow_private allow_hosts addr in
    case ne_split e addr of
      None \<Rightarrow> r = ([], Inl AddressError)
    | Some (host, port) \<Rightarrow>
        (if host_allowed host allow_private allow_hosts then set (fst r) = {Named addr}
         else list_all public_literal (fst r))
        \<and> (case snd r of Inr t \<Rightarrow> fst r \<noteq> [] \<and> t = last (fst r) \<and> ne_dial e t | Inl _ \<Rightarrow> True)
        \<and> (case check_host e host allow_private allow_hosts of
             Some err \<Rightarrow> r = ([], Inl (Disallowed host)) | None \<Rightarrow> True))"
proof (cases "ne_split e addr")
  case (Some hp)
  obtain host port where hp: "hp = (host, port)" by force
  show ?thesis
  proof (cases "host_allowed host allow_private allow_hosts")
    case True
    then show ?thesis by (simp add: Some hp Let_def safe_dial_def check_host_def)
  next
    case False
    have err: "h = host" if "resolve e host = Inl (Disallowed h)" for h
      using that by (auto simp: resolve_def Let_def split: option.splits if_splits)
    show ?thesis
    proof (cases "resolve e host")
      case (Inl x)
      with False err show ?thesis
        by (cases x) (auto simp: Some hp Let_def safe_dial_def check_host_def)
    next
      case (Inr ips)
      from dial_loop_public [of ips e port 0] resolve_public [OF Inr] False Inr show ?thesis
        by (simp add: Some hp Let_def safe_dial_def check_host_def split: sum.split)
    qed
  qed
qed (simp add: safe_dial_def Let_def)

text \<open>However often an upstream redirects, at most the allowed number of redirects is followed,
  every request goes to the host of the first, and once a hop used https all later ones do.\<close>

theorem redirects_stay_on_host_and_tls:
  "chain_ok max_hops (follow max_hops [first] reqs)"
proof -
  have "chain_ok max_hops [first]" by (simp add: chain_ok_def equal_fold_def)
  then show ?thesis by (rule follow_ok)
qed

end
