(* ===== verification/Sse.thy ===== *)
theory Sse
  imports GoStrings
begin

text \<open>
  \<open>internal/provider/sse.go\<close>: reading a stream of server-sent events, and the frames the
  gateway writes itself (\<open>streamTarget\<close> in \<open>internal/gateway/gateway.go\<close>). The body of a
  response is its bytes and whether reading ended with an error. \<open>bufio.Scanner\<close> with
  \<open>ScanLines\<close> is modelled as the standard library has it: lines end with a line feed, one
  carriage return before it is dropped, a last line without a line feed counts when it is
  not empty, and a line that does not fit the buffer ends the scan with an error.
\<close>

abbreviation lf :: char where "lf \<equiv> CHR 0x0A"
abbreviation cr :: char where "cr \<equiv> CHR 0x0D"

definition maxLine :: nat where "maxLine = 8 * 1024 * 1024"

section \<open>Lines\<close>

definition drop_cr :: "bytes \<Rightarrow> bytes" where
  "drop_cr l = (if l \<noteq> [] \<and> last l = cr then butlast l else l)"

text \<open>The lines of a body, and whether one was too long.\<close>

fun scan_pieces :: "bytes list \<Rightarrow> bytes list \<times> bool" where
  "scan_pieces [] = ([], False)"
| "scan_pieces [l] = (if length l \<ge> maxLine then ([], True) else if l = [] then ([], False) else ([drop_cr l], False))"
| "scan_pieces (l # ls) =
     (if length l \<ge> maxLine then ([], True)
      else (let (xs, e) = scan_pieces ls in (drop_cr l # xs, e)))"

definition scan_lines :: "bytes \<Rightarrow> bytes list \<times> bool" where
  "scan_lines body = scan_pieces (split_char lf body)"

section \<open>Events\<close>

record sse_event =
  ev_event :: bytes
  ev_data :: bytes

datatype stream_end = EndOfStream | LineTooLong | ReadFailed

text \<open>The reader's variables: the event being read, its data lines, and the callback's own state.\<close>

record 's sse_reader =
  sr_event :: bytes
  sr_data :: "bytes list"
  sr_state :: 's

type_synonym 's callback = "'s \<Rightarrow> sse_event \<Rightarrow> 's \<times> bool"

definition flush_event :: "'s callback \<Rightarrow> 's sse_reader \<Rightarrow> 's sse_reader \<times> bool" where
  "flush_event fn r =
     (if sr_data r = [] \<and> sr_event r = [] then (r, True)
      else (let (s, go_on) = fn (sr_state r) \<lparr>ev_event = sr_event r, ev_data = join [lf] (sr_data r)\<rparr>
            in (\<lparr>sr_event = [], sr_data = [], sr_state = s\<rparr>, go_on)))"

text \<open>\<open>strings.Cut\<close> at the first colon, and the value without one leading space.\<close>

definition cut_field :: "bytes \<Rightarrow> bytes \<times> bytes" where
  "cut_field line =
     (let f = takeWhile (\<lambda>c. c \<noteq> CHR '':'') line;
          v = drop (Suc (length f)) line
      in (f, if has_prefix v '' '' then drop 1 v else v))"

definition read_field :: "bytes \<Rightarrow> 's sse_reader \<Rightarrow> 's sse_reader" where
  "read_field line r =
     (let (field, val) = cut_field line in
      if field = ''event'' then r\<lparr>sr_event := val\<rparr>
      else if field = ''data'' then r\<lparr>sr_data := sr_data r @ [val]\<rparr>
      else r)"

text \<open>The loop over the lines; the flag says that the callback stopped it.\<close>

fun read_lines :: "'s callback \<Rightarrow> bytes list \<Rightarrow> 's sse_reader \<Rightarrow> 's sse_reader \<times> bool" where
  "read_lines fn [] r = (r, False)"
| "read_lines fn (line # ls) r =
     (if line = [] then
        (let (r, go_on) = flush_event fn r in if go_on then read_lines fn ls r else (r, True))
      else if has_prefix line '':'' then read_lines fn ls r
      else read_lines fn ls (read_field line r))"

definition read_sse :: "bytes \<Rightarrow> bool \<Rightarrow> 's callback \<Rightarrow> 's \<Rightarrow> 's \<times> stream_end" where
  "read_sse body failed fn s =
     (let (ls, too_long) = scan_lines body;
          (r, stopped) = read_lines fn ls \<lparr>sr_event = [], sr_data = [], sr_state = s\<rparr> in
      if stopped then (sr_state r, EndOfStream)
      else if too_long then (sr_state r, LineTooLong)
      else if failed then (sr_state r, ReadFailed)
      else (sr_state (fst (flush_event fn r)), EndOfStream))"

section \<open>The frames the gateway writes\<close>

definition data_frame :: "bytes \<Rightarrow> bytes" where
  "data_frame b = ''data: '' @ b @ [lf, lf]"

definition done_frame :: bytes where
  "done_frame = ''data: [DONE]'' @ [lf, lf]"

section \<open>Facts\<close>

text \<open>A callback fed a list of events until it stops.\<close>

fun feed :: "'s callback \<Rightarrow> 's \<Rightarrow> sse_event list \<Rightarrow> 's" where
  "feed fn s [] = s"
| "feed fn s (e # es) = (let (s, go_on) = fn s e in if go_on then feed fn s es else s)"

definition data_line :: "bytes \<Rightarrow> bytes" where "data_line l = ''data: '' @ l"
definition event_line :: "bytes \<Rightarrow> bytes" where "event_line l = ''event: '' @ l"

text \<open>An event as a server writes it: its name, if any, and a line for each line of its data.\<close>

definition render_event :: "sse_event \<Rightarrow> bytes list" where
  "render_event e =
     (if ev_event e = [] then [] else [event_line (ev_event e)])
     @ map data_line (split_char lf (ev_data e))"

definition render_events :: "sse_event list \<Rightarrow> bytes" where
  "render_events es = concat (map (\<lambda>l. l @ [lf]) (concat (map (\<lambda>e. render_event e @ [[]]) es)))"

definition plain_event :: "sse_event \<Rightarrow> bool" where
  "plain_event e \<longleftrightarrow> cr \<notin> set (ev_event e) \<and> lf \<notin> set (ev_event e) \<and> cr \<notin> set (ev_data e)
     \<and> length (ev_event e) + 7 < maxLine \<and> length (ev_data e) + 6 < maxLine"

lemma split_lines:
  "list_all (\<lambda>l. lf \<notin> set l) ls \<Longrightarrow> split_char lf (concat (map (\<lambda>l. l @ [lf]) ls)) = ls @ [[]]"
proof (induction ls)
  case (Cons l ls)
  have "split_char lf (l @ lf # s) = l # split_char lf s" if "lf \<notin> set l" for l s :: bytes
    using that by (induction l) (auto split: list.splits)
  with Cons show ?case by simp
qed simp

lemma scan_pieces_ok:
  "list_all (\<lambda>l. length l < maxLine \<and> cr \<notin> set l) ls \<Longrightarrow> scan_pieces (ls @ [[]]) = (ls, False)"
proof (induction ls)
  case (Cons l ls)
  have "drop_cr l = l" using Cons.prems by (auto simp: drop_cr_def dest: last_in_set)
  with Cons show ?case by (cases ls) (auto simp: not_le)
qed (simp add: maxLine_def)

lemma split_char_lengths: "p \<in> set (split_char c s) \<Longrightarrow> length p \<le> length s"
proof (induction s arbitrary: p)
  case (Cons x xs)
  then show ?case by (cases "split_char c xs") (fastforce split: if_splits)+
qed simp

lemma split_char_sub: "p \<in> set (split_char c s) \<Longrightarrow> set p \<subseteq> set s"
proof (induction s arbitrary: p)
  case (Cons x xs)
  then show ?case by (cases "split_char c xs") (fastforce split: if_splits)+
qed simp

lemma read_data_line: "read_lines fn (data_line v # ls) r = read_lines fn ls (r\<lparr>sr_data := sr_data r @ [v]\<rparr>)"
  by (simp add: data_line_def read_field_def cut_field_def has_prefix_def Let_def)

lemma read_event_line: "read_lines fn (event_line v # ls) r = read_lines fn ls (r\<lparr>sr_event := v\<rparr>)"
  by (simp add: event_line_def read_field_def cut_field_def has_prefix_def Let_def)

lemma read_blank: "read_lines fn ([] # ls) r =
    (let (r, go_on) = flush_event fn r in if go_on then read_lines fn ls r else (r, True))"
  by simp

lemma read_data_lines:
  "read_lines fn (map data_line ds @ ls) r = read_lines fn ls (r\<lparr>sr_data := sr_data r @ ds\<rparr>)"
  by (induction ds arbitrary: r) (simp_all add: read_data_line del: read_lines.simps)

lemma read_one_event:
  "read_lines fn (render_event e @ [] # ls) \<lparr>sr_event = [], sr_data = [], sr_state = s\<rparr> =
    (let (s', go_on) = fn s e in
     if go_on then read_lines fn ls \<lparr>sr_event = [], sr_data = [], sr_state = s'\<rparr>
     else (\<lparr>sr_event = [], sr_data = [], sr_state = s'\<rparr>, True))"
proof -
  have "flush_event fn \<lparr>sr_event = ev_event e, sr_data = split_char lf (ev_data e), sr_state = s\<rparr> =
      (let (s', go_on) = fn s e in (\<lparr>sr_event = [], sr_data = [], sr_state = s'\<rparr>, go_on))"
    by (cases e) (simp add: flush_event_def join_split_char)
  then show ?thesis
    by (cases "fn s e"; cases "ev_event e = []")
      (simp_all add: render_event_def read_data_lines read_event_line read_blank del: read_lines.simps)
qed

fun stopped_by :: "'s callback \<Rightarrow> 's \<Rightarrow> sse_event list \<Rightarrow> bool" where
  "stopped_by fn s [] = False"
| "stopped_by fn s (e # es) = (let (s, go_on) = fn s e in if go_on then stopped_by fn s es else True)"

lemma read_rendered:
  "read_lines fn (concat (map (\<lambda>e. render_event e @ [[]]) es)) \<lparr>sr_event = [], sr_data = [], sr_state = s\<rparr>
   = (\<lparr>sr_event = [], sr_data = [], sr_state = feed fn s es\<rparr>, stopped_by fn s es)"
proof (induction es arbitrary: s)
  case (Cons e es)
  then show ?case by (cases "fn s e") (simp add: read_one_event)
qed simp

lemma render_lines_ok:
  assumes "plain_event e" "l \<in> set (render_event e @ [[]])"
  shows "length l < maxLine \<and> cr \<notin> set l \<and> lf \<notin> set l"
proof -
  have data: "length d + 6 < maxLine \<and> cr \<notin> set d \<and> lf \<notin> set d" if "d \<in> set (split_char lf (ev_data e))" for d
    using that assms(1) split_char_lengths [OF that] split_char_sub [OF that] split_char_no_sep [OF that]
    by (auto simp: plain_event_def)
  from assms(2) consider "l = []" | "l = event_line (ev_event e)"
    | d where "d \<in> set (split_char lf (ev_data e))" "l = data_line d"
    by (auto simp: render_event_def split: if_splits)
  then show ?thesis
  proof cases
    case 1 then show ?thesis by (simp add: maxLine_def)
  next
    case 2 then show ?thesis using assms(1) by (simp add: event_line_def plain_event_def)
  next
    case 3 then show ?thesis using data [of d] by (simp add: data_line_def)
  qed
qed

lemma scan_rendered:
  assumes "list_all plain_event es"
  shows "scan_lines (render_events es) = (concat (map (\<lambda>e. render_event e @ [[]]) es), False)"
proof -
  let ?ls = "concat (map (\<lambda>e. render_event e @ [[]]) es)"
  have ok: "length l < maxLine \<and> cr \<notin> set l \<and> lf \<notin> set l" if "l \<in> set ?ls" for l
  proof -
    from that obtain e where "e \<in> set es" "l \<in> set (render_event e @ [[]])"
      by (auto simp: set_concat simp del: set_append)
    with assms show ?thesis by (intro render_lines_ok) (auto simp: list_all_iff)
  qed
  then have "list_all (\<lambda>l. lf \<notin> set l) ?ls" "list_all (\<lambda>l. length l < maxLine \<and> cr \<notin> set l) ?ls"
    unfolding list_all_iff by blast+
  then show ?thesis
    unfolding scan_lines_def render_events_def by (simp only: split_lines scan_pieces_ok)
qed

lemma read_sse_rendered:
  assumes "list_all plain_event es"
  shows "read_sse (render_events es) failed fn s =
    (feed fn s es, if failed \<and> \<not> stopped_by fn s es then ReadFailed else EndOfStream)"
  unfolding read_sse_def scan_rendered [OF assms] read_rendered Let_def prod.case
  by (simp add: flush_event_def)

section \<open>Properties\<close>

text \<open>C32: Reading is the inverse of writing: the callback is given exactly the events of a stream,
  in order, data of several lines included, until it asks to stop, whether or not the
  connection breaks after them.\<close>

theorem reading_inverts_writing:
  assumes "list_all plain_event es"
  shows "fst (read_sse (render_events es) failed fn s) = feed fn s es
    \<and> snd (read_sse (render_events es) failed fn s) =
        (if failed \<and> \<not> stopped_by fn s es then ReadFailed else EndOfStream)"
  by (simp add: read_sse_rendered [OF assms])

lemma reading_inverts_writing_witness:
  "fst (read_sse (render_events [\<lparr>ev_event = ''ping'', ev_data = ''a'' @ [lf] @ ''b''\<rparr>]) True (\<lambda>n e. (n + length (ev_data e), True)) 0) = (3 :: nat)"
proof -
  have "list_all plain_event [\<lparr>ev_event = ''ping'', ev_data = ''a'' @ [lf] @ ''b''\<rparr>]"
    by (simp add: plain_event_def maxLine_def)
  from reading_inverts_writing [OF this, of True "\<lambda>n e. (n + length (ev_data e), True)" "0 :: nat"]
  show ?thesis by simp
qed

text \<open>What the gateway writes for a chunk is read back as one event holding that chunk.\<close>

theorem frame_is_one_event:
  assumes "lf \<notin> set b" "cr \<notin> set b" "length b + 6 < maxLine"
  shows "fst (read_sse (data_frame b @ done_frame) False (\<lambda>es e. (es @ [e], True)) []) =
    [\<lparr>ev_event = [], ev_data = b\<rparr>, \<lparr>ev_event = [], ev_data = ''[DONE]''\<rparr>]"
proof -
  let ?es = "[\<lparr>ev_event = [], ev_data = b\<rparr>, \<lparr>ev_event = [], ev_data = ''[DONE]''\<rparr>]"
  have "split_char lf ''[DONE]'' = [''[DONE]'']" by (rule split_char_single) simp
  then have "data_frame b @ done_frame = render_events ?es"
    using split_char_single [OF assms(1)]
    by (simp add: render_events_def render_event_def data_line_def data_frame_def done_frame_def)
  moreover have "list_all plain_event ?es" using assms by (simp add: plain_event_def maxLine_def)
  ultimately show ?thesis
    by (simp add: read_sse_rendered)
qed

lemma frame_is_one_event_witness:
  "fst (read_sse (data_frame ''{}'' @ done_frame) False (\<lambda>es e. (es @ [e], True)) []) =
    [\<lparr>ev_event = [], ev_data = ''{}''\<rparr>, \<lparr>ev_event = [], ev_data = ''[DONE]''\<rparr>]"
  by (rule frame_is_one_event) (simp_all add: maxLine_def)

end
