(* ===== verification/ToolCalls.thy ===== *)
theory ToolCalls
  imports Chat
begin

text \<open>
  \<open>internal/provider/toolcalls.go\<close>: the tool calls of an upstream answer in OpenAI's shape,
  whole or as a stream of deltas with an index. Random identifiers and the validity of
  JSON text are parameters; \<open>encoding/json\<close> writes the members of a map in the order of
  their names.
\<close>

definition noBlock :: int where "noBlock = -1"

definition call_id :: "bytes \<Rightarrow> bytes \<Rightarrow> bytes" where
  "call_id random i = (if i \<noteq> [] then i else ''call_'' @ random)"

record tool_call =
  tc_id :: bytes
  tc_name :: bytes
  tc_arguments :: bytes
  tc_signature :: bytes

section \<open>One call\<close>

definition wire :: "tool_call \<Rightarrow> (bytes \<times> json) list" where
  "wire c =
     [(''id'', JStr (tc_id c)), (''type'', JStr ''function''),
      (''function'', JObj [(''arguments'', JStr (tc_arguments c)), (''name'', JStr (tc_name c))])]
     @ (if tc_signature c \<noteq> [] then [(toolCallSignatureField, JStr (tc_signature c))] else [])"

definition normalised :: "(bytes \<Rightarrow> bool) \<Rightarrow> bytes \<Rightarrow> tool_call \<Rightarrow> tool_call" where
  "normalised valid random c =
     (let c = c\<lparr>tc_id := call_id random (tc_id c)\<rparr> in
      if tc_arguments c = [] \<or> \<not> valid (tc_arguments c) then c\<lparr>tc_arguments := ''{}''\<rparr> else c)"

text \<open>The finished calls of a response without streaming.\<close>

definition tool_calls_json :: "(bytes \<Rightarrow> bool) \<Rightarrow> (nat \<Rightarrow> bytes) \<Rightarrow> tool_call list \<Rightarrow> raw" where
  "tool_calls_json valid random calls =
     (if calls = [] then None
      else Some (JArr (map (\<lambda>(i, c). marshal_map (wire (normalised valid (random i) c))) (enumerate 0 calls))))"

section \<open>The stream of deltas\<close>

record call_stream =
  ts_index :: "int \<rightharpoonup> nat"
  ts_next :: nat

definition no_calls :: call_stream where
  "no_calls = \<lparr>ts_index = Map.empty, ts_next = 0\<rparr>"

definition assign :: "int \<Rightarrow> call_stream \<Rightarrow> nat \<times> call_stream" where
  "assign block t =
     (let n = ts_next t; t = t\<lparr>ts_next := n + 1\<rparr> in
      (n, if block \<noteq> noBlock then t\<lparr>ts_index := (ts_index t)(block \<mapsto> n)\<rparr> else t))"

definition open_call :: "bytes \<Rightarrow> int \<Rightarrow> bytes \<Rightarrow> bytes \<Rightarrow> call_stream \<Rightarrow> raw \<times> call_stream" where
  "open_call random block i name t =
     (let (n, t) = assign block t in
      (Some (JArr [marshal_map [(''index'', JNum (format_int (int n))), (''id'', JStr (call_id random i)),
         (''type'', JStr ''function''),
         (''function'', JObj [(''arguments'', JStr []), (''name'', JStr name)])]]), t))"

definition call_args :: "int \<Rightarrow> bytes \<Rightarrow> call_stream \<Rightarrow> raw" where
  "call_args block partial t =
     (case ts_index t block of
        None \<Rightarrow> None
      | Some n \<Rightarrow>
          Some (JArr [marshal_map [(''index'', JNum (format_int (int n))),
             (''function'', JObj [(''arguments'', JStr partial)])]]))"

definition whole_call :: "(bytes \<Rightarrow> bool) \<Rightarrow> bytes \<Rightarrow> tool_call \<Rightarrow> call_stream \<Rightarrow> raw \<times> call_stream" where
  "whole_call valid random c t =
     (let w = wire (normalised valid random c); (n, t) = assign noBlock t in
      (Some (JArr [marshal_map (w @ [(''index'', JNum (format_int (int n)))])]), t))"

text \<open>What an adapter reports, and the deltas that go out for it.\<close>

datatype call_event =
    Opened int bytes bytes
  | Fragment int bytes
  | Whole tool_call

fun stream_calls :: "(bytes \<Rightarrow> bool) \<Rightarrow> (nat \<Rightarrow> bytes) \<Rightarrow> call_event list \<Rightarrow> call_stream \<Rightarrow> json list" where
  "stream_calls valid random [] t = []"
| "stream_calls valid random (e # es) t =
     (let (delta, t') =
        (case e of
           Opened block i name \<Rightarrow> open_call (random (ts_next t)) block i name t
         | Fragment block partial \<Rightarrow> (call_args block partial t, t)
         | Whole c \<Rightarrow> whole_call valid (random (ts_next t)) c t)
      in (case delta of None \<Rightarrow> [] | Some j \<Rightarrow> [j]) @ stream_calls valid random es t')"

section \<open>What a client puts together\<close>

text \<open>
  A client of the OpenAI stream keeps a call per index: the first delta of an index brings
  the identifier and the name, and the arguments of all of them are joined.
\<close>

definition member :: "bytes \<Rightarrow> json \<Rightarrow> json option" where
  "member k j = (case j of JObj ms \<Rightarrow> map_of ms k | _ \<Rightarrow> None)"

definition str_member :: "bytes \<Rightarrow> json \<Rightarrow> bytes" where
  "str_member k j = (case member k j of Some (JStr s) \<Rightarrow> s | _ \<Rightarrow> [])"

definition delta_index :: "json \<Rightarrow> nat option" where
  "delta_index j = (case member ''index'' j of Some (JNum s) \<Rightarrow> Some (digits_value s) | _ \<Rightarrow> None)"

definition function_of :: "json \<Rightarrow> json" where
  "function_of j = (case member ''function'' j of Some f \<Rightarrow> f | None \<Rightarrow> JNull)"

record client_call =
  cl_id :: bytes
  cl_name :: bytes
  cl_arguments :: bytes

definition client_delta :: "json \<Rightarrow> client_call list \<Rightarrow> client_call list" where
  "client_delta j cs =
     (case delta_index j of
        None \<Rightarrow> cs
      | Some n \<Rightarrow>
          (let f = function_of j in
           if n < length cs
           then cs[n := (cs ! n)\<lparr>cl_arguments := cl_arguments (cs ! n) @ str_member ''arguments'' f\<rparr>]
           else cs @ [\<lparr>cl_id = str_member ''id'' j, cl_name = str_member ''name'' f,
                      cl_arguments = str_member ''arguments'' f\<rparr>]))"

definition client_deltas :: "json \<Rightarrow> client_call list \<Rightarrow> client_call list" where
  "client_deltas j cs = (case j of JArr js \<Rightarrow> fold client_delta js cs | _ \<Rightarrow> cs)"

text \<open>
  The meaning of the reports: the calls in the order they were reported, a fragment going to
  the latest call of its block and lost when there is none.
\<close>

fun extend_latest :: "int \<Rightarrow> bytes \<Rightarrow> (int option \<times> client_call) list \<Rightarrow> (int option \<times> client_call) list" where
  "extend_latest block partial [] = []"
| "extend_latest block partial (c # cs) =
     (if fst c = Some block
      then (fst c, (snd c)\<lparr>cl_arguments := cl_arguments (snd c) @ partial\<rparr>) # cs
      else c # extend_latest block partial cs)"

fun meant_calls :: "(bytes \<Rightarrow> bool) \<Rightarrow> (nat \<Rightarrow> bytes) \<Rightarrow> call_event list \<Rightarrow> (int option \<times> client_call) list
    \<Rightarrow> (int option \<times> client_call) list" where
  "meant_calls valid random [] cs = cs"
| "meant_calls valid random (e # es) cs =
     meant_calls valid random es
       (case e of
          Opened block i name \<Rightarrow>
            (if block = noBlock then None else Some block,
             \<lparr>cl_id = call_id (random (length cs)) i, cl_name = name, cl_arguments = []\<rparr>) # cs
        | Fragment block partial \<Rightarrow> extend_latest block partial cs
        | Whole c \<Rightarrow>
            (let c = normalised valid (random (length cs)) c in
             (None, \<lparr>cl_id = tc_id c, cl_name = tc_name c, cl_arguments = tc_arguments c\<rparr>) # cs))"

section \<open>The stream simulates the meaning\<close>

text \<open>The calls are kept latest first, so a position from the end is an index.\<close>

fun latest :: "int \<Rightarrow> (int option \<times> client_call) list \<Rightarrow> nat option" where
  "latest block [] = None"
| "latest block (c # cs) = (if fst c = Some block then Some (length cs) else latest block cs)"

definition stream_ok :: "call_stream \<Rightarrow> (int option \<times> client_call) list \<Rightarrow> bool" where
  "stream_ok t cs \<longleftrightarrow>
     ts_next t = length cs \<and> ts_index t = (\<lambda>block. latest block cs)"

lemma latest_less: "latest block cs = Some n \<Longrightarrow> n < length cs"
  by (induction cs) (auto split: if_splits dest: less_SucI)

lemma length_extend [simp]: "length (extend_latest block partial cs) = length cs"
  by (induction cs) auto

lemma latest_extend [simp]: "latest b (extend_latest block partial cs) = latest b cs"
  by (induction cs) auto

lemma tags_extend [simp]:
  "list_all (\<lambda>c. fst c \<noteq> tag) (extend_latest block partial cs) = list_all (\<lambda>c. fst c \<noteq> tag) cs"
  by (induction cs) auto

lemma extend_none: "latest block cs = None \<Longrightarrow> extend_latest block partial cs = cs"
  by (induction cs) (auto split: if_splits)

lemma extend_some:
  "latest block cs = Some n \<Longrightarrow>
   rev (map snd (extend_latest block partial cs)) =
     (rev (map snd cs))[n := (rev (map snd cs) ! n)
        \<lparr>cl_arguments := cl_arguments (rev (map snd cs) ! n) @ partial\<rparr>]"
proof (induction cs)
  case (Cons c cs)
  show ?case
  proof (cases "fst c = Some block")
    case True
    with Cons.prems show ?thesis by (simp add: nth_append list_update_append)
  next
    case False
    with Cons.prems have "latest block cs = Some n" by simp
    with False Cons.IH latest_less [OF this] show ?thesis by (simp add: nth_append list_update_append)
  qed
qed simp

lemma member_marshal:
  "distinct (map fst ms) \<Longrightarrow> member k (marshal_map ms) = map_of ms k"
  by (simp add: member_def marshal_map_def map_of_sort_key_fst)

lemma index_value: "digits_value (format_int (int n)) = n"
  by (simp add: format_int_def digits_value_digits)

lemma member_obj [simp]: "member k (JObj ms) = map_of ms k"
  by (simp add: member_def)

lemma opened_delta:
  "client_deltas (JArr [marshal_map [(''index'', JNum (format_int (int n))), (''id'', JStr i),
         (''type'', JStr ''function''), (''function'', JObj [(''arguments'', JStr []), (''name'', JStr name)])]]) cs =
   (if n < length cs then cs[n := (cs ! n)\<lparr>cl_arguments := cl_arguments (cs ! n)\<rparr>]
    else cs @ [\<lparr>cl_id = i, cl_name = name, cl_arguments = []\<rparr>])"
  by (simp add: client_deltas_def client_delta_def delta_index_def function_of_def str_member_def member_marshal index_value)

lemma fragment_delta:
  "client_deltas (JArr [marshal_map [(''index'', JNum (format_int (int n))),
       (''function'', JObj [(''arguments'', JStr partial)])]]) cs =
   (if n < length cs then cs[n := (cs ! n)\<lparr>cl_arguments := cl_arguments (cs ! n) @ partial\<rparr>]
    else cs @ [\<lparr>cl_id = [], cl_name = [], cl_arguments = partial\<rparr>])"
  by (simp add: client_deltas_def client_delta_def delta_index_def function_of_def str_member_def member_marshal index_value)

lemma whole_delta:
  "client_deltas (JArr [marshal_map (wire c @ [(''index'', JNum (format_int (int n)))])]) cs =
   (if n < length cs then cs[n := (cs ! n)\<lparr>cl_arguments := cl_arguments (cs ! n) @ tc_arguments c\<rparr>]
    else cs @ [\<lparr>cl_id = tc_id c, cl_name = tc_name c, cl_arguments = tc_arguments c\<rparr>])"
  by (simp add: client_deltas_def client_delta_def delta_index_def function_of_def str_member_def member_marshal
      index_value wire_def toolCallSignatureField_def)

lemma stream_step:
  assumes "stream_ok t cs" "list_all (\<lambda>c. fst c \<noteq> Some noBlock) cs"
  shows "fold client_deltas (stream_calls valid random es t) (rev (map snd cs)) =
    rev (map snd (meant_calls valid random es cs))"
  using assms
proof (induction es arbitrary: t cs)
  case (Cons e es)
  have t: "ts_next t = length cs" "ts_index t = (\<lambda>block. latest block cs)"
    using Cons.prems(1) by (simp_all add: stream_ok_def)
  show ?case
  proof (cases e)
    case (Opened block i name)
    define t' where "t' = snd (assign block t)"
    define c where "c = (if block = noBlock then None else Some block,
             \<lparr>cl_id = call_id (random (length cs)) i, cl_name = name, cl_arguments = []\<rparr>)"
    have "stream_ok t' (c # cs)"
      using t Cons.prems(2) by (auto simp: stream_ok_def t'_def assign_def c_def Let_def fun_eq_iff)
    moreover have "list_all (\<lambda>c. fst c \<noteq> Some noBlock) (c # cs)" using Cons.prems(2) by (simp add: c_def)
    ultimately have "fold client_deltas (stream_calls valid random es t') (rev (map snd (c # cs))) =
        rev (map snd (meant_calls valid random es (c # cs)))"
      by (rule Cons.IH)
    then show ?thesis
      by (simp add: Opened open_call_def t t'_def c_def opened_delta assign_def Let_def split: prod.split)
  next
    case (Fragment block partial)
    have ok: "stream_ok t (extend_latest block partial cs)" "list_all (\<lambda>c. fst c \<noteq> Some noBlock) (extend_latest block partial cs)"
      using Cons.prems(1,2)
      by (simp_all add: stream_ok_def)
    have ih: "fold client_deltas (stream_calls valid random es t) (rev (map snd (extend_latest block partial cs))) =
        rev (map snd (meant_calls valid random es (extend_latest block partial cs)))"
      using Cons.IH [OF ok] .
    show ?thesis
    proof (cases "latest block cs")
      case None
      with ih show ?thesis by (simp add: Fragment call_args_def t extend_none)
    next
      case (Some n)
      with ih latest_less [OF Some] show ?thesis
        by (simp add: Fragment call_args_def t fragment_delta extend_some)
    qed
  next
    case (Whole w)
    define t' where "t' = snd (assign noBlock t)"
    define v where "v = normalised valid (random (length cs)) w"
    define c where "c = (None :: int option, \<lparr>cl_id = tc_id v, cl_name = tc_name v, cl_arguments = tc_arguments v\<rparr>)"
    have "stream_ok t' (c # cs)"
      using t by (auto simp: stream_ok_def t'_def assign_def c_def Let_def)
    moreover have "list_all (\<lambda>c. fst c \<noteq> Some noBlock) (c # cs)" using Cons.prems(2) by (simp add: c_def)
    ultimately have "fold client_deltas (stream_calls valid random es t') (rev (map snd (c # cs))) =
        rev (map snd (meant_calls valid random es (c # cs)))"
      by (rule Cons.IH)
    then show ?thesis
      by (simp add: Whole whole_call_def t t'_def c_def v_def [symmetric] whole_delta assign_def Let_def split: prod.split)
  qed
qed simp

section \<open>Properties\<close>

text \<open>C30: A client that joins the deltas by index puts together exactly the calls the upstream
  reported, in order, each with its own name and all its argument fragments, however the
  fragments of several calls are interleaved and whatever blocks they name.\<close>

theorem clients_reassemble_the_calls:
  "fold client_deltas (stream_calls valid random es no_calls) [] =
    rev (map snd (meant_calls valid random es []))"
proof -
  have "stream_ok no_calls []" by (simp add: stream_ok_def no_calls_def fun_eq_iff)
  from stream_step [OF this] show ?thesis by simp
qed

end
