(* ===== verification/Capabilities.thy ===== *)
theory Capabilities
  imports Ranked "HOL-Library.List_Lexorder" "HOL-Library.Char_ord"
begin

text \<open>
  \<open>internal/provider/capabilities.go\<close>: what the adapter of a provider type does and what a
  model accepts. The model table is sorted by the specificity of its patterns and the first
  row that matches replaces all model-level flags.
\<close>

datatype thinking_mode =
    ThinkingUnset
  | ThinkingNone
  | ThinkingBudget
  | ThinkingAdaptive
  | ThinkingLevel
  | ThinkingToggle
  | ThinkingPassthrough

definition ThinkingOffDisabled where "ThinkingOffDisabled = ''disabled''"
definition ThinkingOffBetweenTools where "ThinkingOffBetweenTools = ''between_tools''"
definition ThinkingOffUnsupported where "ThinkingOffUnsupported = ''none''"

record model_flags =
  mf_native_json_schema :: bool
  mf_forced_tool_choice :: bool
  mf_thinking :: thinking_mode
  mf_thinking_off :: bytes
  mf_effort_levels :: "bytes list"
  mf_thinking_prefix_bound :: bool

record capabilities =
  cap_chat :: bool
  cap_streaming :: bool
  cap_embeddings :: bool
  cap_tools :: bool
  cap_tool_streaming :: bool
  cap_vision :: bool
  cap_remote_images :: bool
  cap_prompt_caching :: bool
  cap_cached_token_usage :: bool
  cap_rerank :: bool
  cap_native_json_schema :: bool
  cap_forced_tool_choice :: bool
  cap_thinking :: thinking_mode
  cap_thinking_off :: bytes
  cap_effort_levels :: "bytes list"
  cap_thinking_prefix_bound :: bool

definition no_capabilities :: capabilities where
  "no_capabilities = \<lparr>cap_chat = False, cap_streaming = False, cap_embeddings = False, cap_tools = False,
     cap_tool_streaming = False, cap_vision = False, cap_remote_images = False, cap_prompt_caching = False,
     cap_cached_token_usage = False, cap_rerank = False, cap_native_json_schema = False,
     cap_forced_tool_choice = False, cap_thinking = ThinkingUnset, cap_thinking_off = [],
     cap_effort_levels = [], cap_thinking_prefix_bound = False\<rparr>"

definition apply_to :: "model_flags \<Rightarrow> capabilities \<Rightarrow> capabilities" where
  "apply_to f c =
     c\<lparr>cap_native_json_schema := mf_native_json_schema f, cap_forced_tool_choice := mf_forced_tool_choice f,
       cap_thinking := mf_thinking f, cap_thinking_off := mf_thinking_off f,
       cap_effort_levels := mf_effort_levels f, cap_thinking_prefix_bound := mf_thinking_prefix_bound f\<rparr>"

section \<open>The tables\<close>

definition effortLMH where "effortLMH = [''low'', ''medium'', ''high'']"
definition effortLMHM where "effortLMHM = [''low'', ''medium'', ''high'', ''max'']"
definition effortAll where "effortAll = [''low'', ''medium'', ''high'', ''xhigh'', ''max'']"
definition effortGemini3 where "effortGemini3 = [''low'', ''high'']"
definition effortGeminiMinLMH where "effortGeminiMinLMH = [''minimal'', ''low'', ''medium'', ''high'']"

text \<open>The flags in the order native schema, forced tool choice, thinking, its switch, levels, prefix.\<close>

definition flags :: "bool \<Rightarrow> bool \<Rightarrow> thinking_mode \<Rightarrow> bytes \<Rightarrow> bytes list \<Rightarrow> bool \<Rightarrow> model_flags" where
  "flags native forced thinking off levels bound =
     \<lparr>mf_native_json_schema = native, mf_forced_tool_choice = forced, mf_thinking = thinking,
      mf_thinking_off = off, mf_effort_levels = levels, mf_thinking_prefix_bound = bound\<rparr>"

definition provider_defaults :: "bytes \<Rightarrow> capabilities" where
  "provider_defaults provider =
     (if provider = ''openai'' \<or> provider = ''azure_openai'' then
        apply_to (flags True True ThinkingPassthrough [] [] False)
          (no_capabilities\<lparr>cap_chat := True, cap_streaming := True, cap_embeddings := True, cap_tools := True,
             cap_tool_streaming := True, cap_vision := True, cap_remote_images := True, cap_cached_token_usage := True\<rparr>)
      else if provider = ''deepseek'' then
        apply_to (flags False True ThinkingPassthrough [] [] False)
          (no_capabilities\<lparr>cap_chat := True, cap_streaming := True, cap_tools := True,
             cap_tool_streaming := True, cap_cached_token_usage := True\<rparr>)
      else if provider = ''custom_openai'' then
        apply_to (flags True True ThinkingPassthrough [] [] False)
          (no_capabilities\<lparr>cap_chat := True, cap_streaming := True, cap_embeddings := True, cap_tools := True,
             cap_tool_streaming := True, cap_vision := True, cap_remote_images := True\<rparr>)
      else if provider = ''anthropic'' then
        apply_to (flags True False ThinkingAdaptive ThinkingOffUnsupported effortLMH True)
          (no_capabilities\<lparr>cap_chat := True, cap_streaming := True, cap_tools := True, cap_tool_streaming := True,
             cap_vision := True, cap_remote_images := True, cap_prompt_caching := True, cap_cached_token_usage := True\<rparr>)
      else if provider = ''gemini'' then
        apply_to (flags True True ThinkingLevel [] effortGemini3 False)
          (no_capabilities\<lparr>cap_chat := True, cap_streaming := True, cap_embeddings := True, cap_tools := True,
             cap_vision := True, cap_cached_token_usage := True\<rparr>)
      else if provider = ''ollama'' then
        apply_to (flags True False ThinkingToggle [] [] False)
          (no_capabilities\<lparr>cap_chat := True, cap_streaming := True, cap_embeddings := True, cap_tools := True,
             cap_vision := True\<rparr>)
      else if provider = ''cohere_rerank'' \<or> provider = ''voyage_rerank'' then no_capabilities\<lparr>cap_rerank := True\<rparr>
      else no_capabilities)"

record model_rule =
  mr_provider_type :: bytes
  mr_pattern :: bytes
  mr_flags :: model_flags

definition rule :: "bytes \<Rightarrow> bytes \<Rightarrow> model_flags \<Rightarrow> model_rule" where
  "rule provider pat f = \<lparr>mr_provider_type = provider, mr_pattern = pat, mr_flags = f\<rparr>"

definition model_rows :: "model_rule list" where
  "model_rows =
     [rule ''anthropic'' ''claude-3*'' (flags False True ThinkingNone ThinkingOffDisabled [] False),
      rule ''anthropic'' ''claude-3-7*'' (flags False True ThinkingBudget ThinkingOffDisabled [] False),
      rule ''anthropic'' ''claude-sonnet-4-20*'' (flags False True ThinkingBudget ThinkingOffDisabled [] False),
      rule ''anthropic'' ''claude-sonnet-4-0*'' (flags False True ThinkingBudget ThinkingOffDisabled [] False),
      rule ''anthropic'' ''claude-opus-4-20*'' (flags False True ThinkingBudget ThinkingOffDisabled [] False),
      rule ''anthropic'' ''claude-opus-4-0*'' (flags False True ThinkingBudget ThinkingOffDisabled [] False),
      rule ''anthropic'' ''claude-opus-4-1*'' (flags False True ThinkingBudget ThinkingOffDisabled [] False),
      rule ''anthropic'' ''claude-sonnet-4-5*'' (flags True True ThinkingBudget ThinkingOffDisabled [] False),
      rule ''anthropic'' ''claude-haiku-4-5*'' (flags True True ThinkingBudget ThinkingOffDisabled [] False),
      rule ''anthropic'' ''claude-opus-4-5*'' (flags True True ThinkingBudget ThinkingOffDisabled effortLMH False),
      rule ''anthropic'' ''claude-opus-4-6*'' (flags True True ThinkingAdaptive ThinkingOffDisabled effortLMHM False),
      rule ''anthropic'' ''claude-sonnet-4-6*'' (flags True True ThinkingAdaptive ThinkingOffDisabled effortLMHM False),
      rule ''anthropic'' ''claude-opus-4-7*'' (flags True True ThinkingAdaptive ThinkingOffDisabled effortAll False),
      rule ''anthropic'' ''claude-opus-4-8*'' (flags True True ThinkingAdaptive ThinkingOffDisabled effortAll False),
      rule ''anthropic'' ''claude-opus-5'' (flags True True ThinkingAdaptive ThinkingOffDisabled effortAll False),
      rule ''anthropic'' ''claude-opus-5-20*'' (flags True True ThinkingAdaptive ThinkingOffDisabled effortAll False),
      rule ''anthropic'' ''claude-sonnet-5'' (flags True True ThinkingAdaptive ThinkingOffDisabled effortAll False),
      rule ''anthropic'' ''claude-sonnet-5-20*'' (flags True True ThinkingAdaptive ThinkingOffDisabled effortAll False),
      rule ''anthropic'' ''claude-opus-5-5*'' (flags True False ThinkingAdaptive ThinkingOffUnsupported effortAll True),
      rule ''anthropic'' ''claude-sonnet-5-5*'' (flags True False ThinkingAdaptive ThinkingOffBetweenTools effortAll True),
      rule ''anthropic'' ''claude-haiku-5-5*'' (flags True True ThinkingAdaptive ThinkingOffDisabled effortAll True),
      rule ''anthropic'' ''claude-fable-5'' (flags True True ThinkingAdaptive ThinkingOffUnsupported effortAll False),
      rule ''anthropic'' ''claude-fable-5-20*'' (flags True True ThinkingAdaptive ThinkingOffUnsupported effortAll False),
      rule ''anthropic'' ''claude-mythos-5'' (flags True True ThinkingAdaptive ThinkingOffUnsupported effortAll False),
      rule ''anthropic'' ''claude-mythos-5-20*'' (flags True True ThinkingAdaptive ThinkingOffUnsupported effortAll False),
      rule ''anthropic'' ''claude-fable-5-1*'' (flags True False ThinkingAdaptive ThinkingOffUnsupported effortAll True),
      rule ''anthropic'' ''claude-mythos-5-1*'' (flags True False ThinkingAdaptive ThinkingOffUnsupported effortAll True),
      rule ''anthropic'' ''claude-mythos-preview*'' (flags True True ThinkingAdaptive ThinkingOffUnsupported effortLMHM False),
      rule ''gemini'' ''gemini-1*'' (flags True True ThinkingNone [] [] False),
      rule ''gemini'' ''gemini-2.0*'' (flags True True ThinkingNone [] [] False),
      rule ''gemini'' ''gemini-2.5*'' (flags True True ThinkingBudget [] [] False),
      rule ''gemini'' ''gemini-3-pro*'' (flags True True ThinkingLevel [] effortGemini3 False),
      rule ''gemini'' ''gemini-3-flash*'' (flags True True ThinkingLevel [] effortGeminiMinLMH False),
      rule ''gemini'' ''gemini-3.1-pro*'' (flags True True ThinkingLevel [] effortLMH False),
      rule ''gemini'' ''gemini-3.5-flash-lite*'' (flags True True ThinkingLevel [] effortGeminiMinLMH False),
      rule ''gemini'' ''gemini-3.6-flash*'' (flags True True ThinkingLevel [] effortGeminiMinLMH False),
      rule ''gemini'' ''gemini-3.8-flash*'' (flags True True ThinkingLevel [] effortLMH False),
      rule ''ollama'' ''gpt-oss*'' (flags True False ThinkingLevel [] effortLMH False)]"

section \<open>Lookup\<close>

definition rule_before :: "model_rule \<Rightarrow> model_rule \<Rightarrow> bool" where
  "rule_before a b =
     (let c = compare_patterns (mr_pattern a) (mr_pattern b) in
      if c \<noteq> 0 then c < 0 else mr_pattern a < mr_pattern b)"

definition sorted_rules :: "model_rule list \<Rightarrow> model_rule list" where
  "sorted_rules rules = stable_sort rule_before rules"

definition capabilities_for :: "bytes \<Rightarrow> bytes \<Rightarrow> capabilities" where
  "capabilities_for provider model =
     (let c = provider_defaults provider;
          model = (if provider = ''gemini'' \<and> has_prefix model ''models/'' then drop 7 model else model) in
      if model = [] then c
      else (case find (\<lambda>r. mr_provider_type r = provider \<and> glob_match (mr_pattern r) model) (sorted_rules model_rows) of
              Some r \<Rightarrow> apply_to (mr_flags r) c
            | None \<Rightarrow> c))"

definition supports_embeddings :: "bytes \<Rightarrow> bool" where
  "supports_embeddings provider = cap_embeddings (capabilities_for provider [])"

definition supports_chat :: "bytes \<Rightarrow> bool" where
  "supports_chat provider = cap_chat (capabilities_for provider [])"

definition supports_rerank :: "bytes \<Rightarrow> bool" where
  "supports_rerank provider = cap_rerank (capabilities_for provider [])"

section \<open>Facts\<close>

lemma rule_before_asym: "rule_before a b \<Longrightarrow> \<not> rule_before b a"
  using compare_patterns_swap [of "mr_pattern a" "mr_pattern b"]
  by (auto simp: rule_before_def Let_def split: if_splits)

lemma not_rule_before:
  "\<not> rule_before b a \<longleftrightarrow>
     compare_patterns (mr_pattern a) (mr_pattern b) < 0 \<or>
     compare_patterns (mr_pattern a) (mr_pattern b) = 0 \<and> mr_pattern a \<le> mr_pattern b"
  using compare_patterns_swap [of "mr_pattern a" "mr_pattern b"]
  by (auto simp: rule_before_def Let_def)

lemma rule_before_trans: "\<not> rule_before b a \<Longrightarrow> \<not> rule_before c b \<Longrightarrow> \<not> rule_before c a"
  unfolding not_rule_before compare_patterns_less compare_patterns_zero by (auto simp: prod_eq_iff)

interpretation model_table: ranked_table mr_provider_type mr_pattern rule_before
proof
  show "rule_before a b" if "compare_patterns (mr_pattern a) (mr_pattern b) < 0" for a b
    using that by (simp add: rule_before_def Let_def)
qed (fact rule_before_asym rule_before_trans)+

lemma find_row:
  "find (\<lambda>r. mr_provider_type r = provider \<and> glob_match (mr_pattern r) model) (sorted_rules model_rows) =
     model_table.first_match model_rows provider model"
  by (simp add: sorted_rules_def model_table.first_match_def)

text \<open>The name a model is looked up by.\<close>

definition table_model :: "bytes \<Rightarrow> bytes \<Rightarrow> bytes" where
  "table_model provider model =
     (if provider = ''gemini'' \<and> has_prefix model ''models/'' then drop 7 model else model)"

lemma capabilities_for_cases:
  obtains "capabilities_for provider model = provider_defaults provider"
    | r where "r \<in> set model_rows" "mr_provider_type r = provider"
      "capabilities_for provider model = apply_to (mr_flags r) (provider_defaults provider)"
proof (cases "table_model provider model = [] \<or> model_table.first_match model_rows provider (table_model provider model) = None")
  case True
  then have "capabilities_for provider model = provider_defaults provider"
    by (auto simp: capabilities_for_def Let_def find_row table_model_def [symmetric])
  then show ?thesis by (rule that)
next
  case False
  then obtain r where r: "model_table.first_match model_rows provider (table_model provider model) = Some r" by auto
  with False have "capabilities_for provider model = apply_to (mr_flags r) (provider_defaults provider)"
    by (auto simp: capabilities_for_def Let_def find_row table_model_def [symmetric])
  with model_table.first_match_best(1,2) [OF r] show ?thesis by (intro that(2)) simp_all
qed

text \<open>
  What the table keeps of every row: an Anthropic model takes a schema or a forced tool,
  models of the same mode have levels or none, and levels are listed lowest first.
\<close>

definition row_ok :: "model_rule \<Rightarrow> bool" where
  "row_ok r \<longleftrightarrow>
     (let f = mr_flags r in
      (if mr_provider_type r = ''anthropic''
       then (mf_native_json_schema f \<or> mf_forced_tool_choice f)
         \<and> mf_thinking f \<in> {ThinkingNone, ThinkingBudget, ThinkingAdaptive}
         \<and> (mf_thinking f = ThinkingAdaptive \<longrightarrow> mf_effort_levels f \<noteq> [])
       else True)
      \<and> mf_effort_levels f \<in> {[], effortLMH, effortLMHM, effortAll, effortGemini3, effortGeminiMinLMH})"

lemma model_rows_ok: "list_all row_ok model_rows"
  by code_simp

text \<open>What the Anthropic adapter relies on for any model name.\<close>

definition anthropic_ok :: "capabilities \<Rightarrow> bool" where
  "anthropic_ok c \<longleftrightarrow>
     (cap_native_json_schema c \<or> cap_forced_tool_choice c)
     \<and> cap_thinking c \<in> {ThinkingNone, ThinkingBudget, ThinkingAdaptive}
     \<and> (cap_thinking c = ThinkingAdaptive \<longrightarrow> cap_effort_levels c \<noteq> [])"

lemma anthropic_caps: "anthropic_ok (capabilities_for ''anthropic'' model)"
proof (rule capabilities_for_cases [of "''anthropic''" model])
  assume c: "capabilities_for ''anthropic'' model = provider_defaults ''anthropic''"
  have "anthropic_ok (provider_defaults ''anthropic'')" by code_simp
  then show ?thesis by (simp only: c)
next
  fix r assume r: "r \<in> set model_rows" "mr_provider_type r = ''anthropic''"
    and c: "capabilities_for ''anthropic'' model = apply_to (mr_flags r) (provider_defaults ''anthropic'')"
  have "row_ok r" using model_rows_ok r(1) by (simp only: list_all_iff)
  then show ?thesis unfolding c row_ok_def r(2) Let_def
    by (simp add: anthropic_ok_def apply_to_def)
qed

lemma apply_to_keeps:
  "cap_chat (apply_to f c) = cap_chat c" "cap_embeddings (apply_to f c) = cap_embeddings c"
  "cap_rerank (apply_to f c) = cap_rerank c" "cap_tools (apply_to f c) = cap_tools c"
  by (simp_all add: apply_to_def)

section \<open>Properties\<close>

text \<open>The capabilities of a model are those of its provider type, with the model-level flags
  of the most specific row that matches the name, if there is one: the flags of a less
  specific row never win, and what the adapter does never depends on the model.\<close>

theorem most_specific_model_row_decides:
  "(let rows = filter (\<lambda>r. mr_provider_type r = provider \<and> glob_match (mr_pattern r) (table_model provider model)) model_rows;
        c = capabilities_for provider model in
    if table_model provider model = [] \<or> rows = [] then c = provider_defaults provider
    else (\<exists>r. r \<in> set rows \<and> c = apply_to (mr_flags r) (provider_defaults provider)
            \<and> list_all (\<lambda>r'. compare_patterns (mr_pattern r) (mr_pattern r') \<le> 0) rows))"
proof (cases "model_table.first_match model_rows provider (table_model provider model)")
  case None
  then have "filter (\<lambda>r. mr_provider_type r = provider \<and> glob_match (mr_pattern r) (table_model provider model)) model_rows = []"
    unfolding model_table.first_match_None filter_empty_conv by blast
  with None show ?thesis
    by (simp add: capabilities_for_def Let_def find_row table_model_def [symmetric])
next
  case (Some r)
  note best = model_table.first_match_best(1-3) [OF Some] model_table.first_match_most_specific [OF Some]
  have "filter (\<lambda>r. mr_provider_type r = provider \<and> glob_match (mr_pattern r) (table_model provider model)) model_rows \<noteq> []"
    unfolding filter_empty_conv using best(1-3) by blast
  with Some best show ?thesis
    by (auto simp: capabilities_for_def Let_def find_row table_model_def [symmetric] list_all_iff intro!: exI [of _ r])
qed

end
