(* ===== verification/Effort.thy ===== *)
theory Effort
  imports Capabilities Retry Json
begin

text \<open>
  \<open>internal/provider/effort.go\<close>: what \<open>reasoning_effort\<close> becomes on each provider. A Warning
  is the constructor of its text with the values the text shows; an error is the
  \<open>*provider.Error\<close> of a client's mistake. Token counts are Go's \<open>int\<close>.
\<close>

datatype effort_warning =
    Text bytes
  | ThinkingUnsupported bytes bytes
  | NoSuchEffortSetting bytes bytes
  | NoRoomForThinking int
  | EffortNotSupported bytes bytes
  | CannotSwitchOffUsingLow
  | NoEffortSetting
  | GeminiUsesHigh bytes
  | CannotSwitchOffUsingLevel bytes
  | CannotSwitchOffUsingBudget int

text \<open>A 400 with a code; the message is in the words of the code and not modelled.\<close>

definition client_error :: "bytes \<Rightarrow> provider_error" where
  "client_error code =
     \<lparr>pe_status = 400, pe_type = ''invalid_request_error'', pe_code = code, pe_message = [],
      pe_retry_after = 0, pe_upstream_retry_after = [], pe_upstream_status = 0, pe_not_sent = False,
      pe_retryable = False, pe_upstream_retry_delay = 0, pe_client_input = False, pe_upstream_body = []\<rparr>"

section \<open>Levels\<close>

definition effort_order :: "bytes list" where
  "effort_order = [''none'', ''minimal'', ''low'', ''medium'', ''high'', ''xhigh'', ''max'']"

fun position :: "bytes \<Rightarrow> bytes list \<Rightarrow> int" where
  "position v [] = -1"
| "position v (e # es) = (if e = v then 0 else if position v es < 0 then -1 else 1 + position v es)"

definition effort_rank :: "bytes \<Rightarrow> int" where
  "effort_rank v = position v effort_order"

definition check_effort :: "bytes \<Rightarrow> provider_error option" where
  "check_effort v = (if effort_rank v \<ge> 0 then None else Some (client_error ''invalid_reasoning_effort''))"

text \<open>The first loop: the level itself, or the highest one below it seen so far.\<close>

fun best_below :: "bytes list \<Rightarrow> bytes \<Rightarrow> bytes \<Rightarrow> int \<Rightarrow> bytes \<times> bool" where
  "best_below [] want best best_rank = (best, False)"
| "best_below (l # ls) want best best_rank =
     (if l = want then (l, True)
      else if effort_rank l < effort_rank want \<and> effort_rank l > best_rank
      then best_below ls want l (effort_rank l)
      else best_below ls want best best_rank)"

fun lowest_level :: "bytes list \<Rightarrow> bytes \<Rightarrow> bytes" where
  "lowest_level [] low = low"
| "lowest_level (l # ls) low =
     lowest_level ls (if low = [] \<or> effort_rank l < effort_rank low then l else low)"

definition clamp_effort :: "bytes list \<Rightarrow> bytes \<Rightarrow> bytes \<times> bool" where
  "clamp_effort levels want =
     (let want = (if want = ''minimal'' then ''low'' else want);
          (best, same) = best_below levels want [] (-1) in
      if same then (best, False)
      else if best \<noteq> [] then (best, True)
      else (let low = lowest_level levels [] in (low, low \<noteq> want)))"

section \<open>Anthropic\<close>

definition anthropicMinBudget :: int where "anthropicMinBudget = 1024"
definition anthropicAdaptiveMaxTokens :: int where "anthropicAdaptiveMaxTokens = 16000"
definition defaultMaxTokens :: int where "defaultMaxTokens = 4096"

definition anthropic_budgets :: "bytes \<Rightarrow> int" where
  "anthropic_budgets effort =
     (if effort = ''minimal'' then 1024 else if effort = ''low'' then 2048 else if effort = ''medium'' then 8192
      else if effort = ''high'' then 16384 else if effort = ''xhigh'' then 32768 else if effort = ''max'' then 32768
      else 0)"

record anthropic_thinking =
  at_type :: bytes
  at_budget_tokens :: int

record effort_plan =
  ep_thinking :: "anthropic_thinking option"
  ep_effort :: bytes
  ep_max_tokens :: int
  ep_drop_temperature :: bool
  ep_warnings :: "effort_warning list"

definition add_warning :: "effort_warning \<Rightarrow> effort_plan \<Rightarrow> effort_plan" where
  "add_warning w plan = plan\<lparr>ep_warnings := ep_warnings plan @ [w]\<rparr>"

definition or_default_tokens :: "int \<Rightarrow> int" where
  "or_default_tokens max_tokens = (if max_tokens = 0 then defaultMaxTokens else max_tokens)"

definition drop_thinking :: "int \<Rightarrow> effort_warning \<Rightarrow> effort_plan \<Rightarrow> effort_plan" where
  "drop_thinking max_tokens warning plan =
     add_warning warning
       (plan\<lparr>ep_thinking := None, ep_drop_temperature := False, ep_max_tokens := or_default_tokens max_tokens\<rparr>)"

definition top_effort :: "bytes \<Rightarrow> bool" where
  "top_effort effort \<longleftrightarrow> effort = ''xhigh'' \<or> effort = ''max''"

definition budget_plan :: "effort_plan \<Rightarrow> capabilities \<Rightarrow> bytes \<Rightarrow> int \<Rightarrow> effort_plan" where
  "budget_plan plan caps effort max_tokens =
     (if effort = ''none'' then plan
      else
        (let plan = (if cap_effort_levels caps \<noteq> [] then
                       (let (level, lowered) = clamp_effort (cap_effort_levels caps) effort;
                            plan = plan\<lparr>ep_effort := level\<rparr> in
                        if lowered \<and> top_effort effort then add_warning (NoSuchEffortSetting effort level) plan else plan)
                     else plan);
             budget = anthropic_budgets effort;
             plan = (if max_tokens = 0 then plan\<lparr>ep_max_tokens := budget + defaultMaxTokens\<rparr> else plan);
             budget = (if max_tokens = 0 then budget
                       else if max_tokens \<le> budget then wrap64 (max_tokens - anthropicMinBudget) else budget) in
         if budget < anthropicMinBudget then add_warning (NoRoomForThinking max_tokens) plan
         else plan\<lparr>ep_thinking := Some \<lparr>at_type = ''enabled'', at_budget_tokens = budget\<rparr>, ep_drop_temperature := True\<rparr>))"

text \<open>Thinking switched off where the model can; \<open>None\<close> when it cannot.\<close>

definition switched_off :: "capabilities \<Rightarrow> effort_plan \<Rightarrow> effort_plan option" where
  "switched_off caps plan =
     (if cap_thinking_off caps = ThinkingOffDisabled
      then Some (plan\<lparr>ep_thinking := Some \<lparr>at_type = ''disabled'', at_budget_tokens = 0\<rparr>\<rparr>)
      else if cap_thinking_off caps = ThinkingOffBetweenTools
      then Some (plan\<lparr>ep_thinking := Some \<lparr>at_type = ''between_tools'', at_budget_tokens = 0\<rparr>\<rparr>)
      else None)"

definition adaptive_effort :: "effort_plan \<Rightarrow> capabilities \<Rightarrow> bytes \<Rightarrow> int \<Rightarrow> effort_plan" where
  "adaptive_effort plan caps effort max_tokens =
     (let plan = plan\<lparr>ep_thinking := Some \<lparr>at_type = ''adaptive'', at_budget_tokens = 0\<rparr>, ep_drop_temperature := True\<rparr> in
      if cap_effort_levels caps = [] then add_warning NoEffortSetting plan
      else
        (let (level, lowered) = clamp_effort (cap_effort_levels caps) effort;
             plan = (if lowered \<and> top_effort effort then add_warning (EffortNotSupported effort level) plan else plan);
             plan = plan\<lparr>ep_effort := level\<rparr> in
         if max_tokens = 0 \<and> effort_rank level \<ge> effort_rank ''high''
         then plan\<lparr>ep_max_tokens := anthropicAdaptiveMaxTokens\<rparr> else plan))"

definition adaptive_plan :: "effort_plan \<Rightarrow> capabilities \<Rightarrow> bytes \<Rightarrow> int \<Rightarrow> effort_plan" where
  "adaptive_plan plan caps effort max_tokens =
     (if effort = ''none'' then
        (case switched_off caps plan of
           Some off \<Rightarrow> off
         | None \<Rightarrow> adaptive_effort (add_warning CannotSwitchOffUsingLow plan) caps ''low'' max_tokens)
      else adaptive_effort plan caps effort max_tokens)"

definition plan_effort :: "capabilities \<Rightarrow> bytes \<Rightarrow> bytes \<Rightarrow> bool \<Rightarrow> int \<Rightarrow> provider_error + effort_plan" where
  "plan_effort caps model effort is_set max_tokens =
     (let plan = \<lparr>ep_thinking = None, ep_effort = [], ep_max_tokens = or_default_tokens max_tokens,
                  ep_drop_temperature = False, ep_warnings = []\<rparr> in
      if \<not> is_set then Inr plan
      else
        (case check_effort effort of
           Some err \<Rightarrow> Inl err
         | None \<Rightarrow>
             (case cap_thinking caps of
                ThinkingBudget \<Rightarrow> Inr (budget_plan plan caps effort max_tokens)
              | ThinkingAdaptive \<Rightarrow> Inr (adaptive_plan plan caps effort max_tokens)
              | _ \<Rightarrow> Inr (if effort \<noteq> ''none'' then add_warning (ThinkingUnsupported ''anthropic'' model) plan else plan))))"

section \<open>Gemini\<close>

definition gemini_budgets :: "bytes \<Rightarrow> int option" where
  "gemini_budgets effort =
     (if effort = ''minimal'' then Some 512 else if effort = ''low'' then Some 1024
      else if effort = ''medium'' then Some 8192 else if effort = ''high'' then Some 24576 else None)"

definition gemini_budget_bounds :: "bytes \<Rightarrow> int \<times> int \<times> bool" where
  "gemini_budget_bounds model =
     (let m = (if has_prefix model ''models/'' then drop 7 model else model) in
      if has_prefix m ''gemini-2.5-pro'' then (128, 32768, False)
      else if has_prefix m ''gemini-2.5-flash-lite'' then (512, 24576, True)
      else (0, 24576, True))"

definition gemini_level_order :: "bytes list" where
  "gemini_level_order = [''minimal'', ''low'', ''medium'', ''high'']"

definition gemini_level_rank :: "bytes \<Rightarrow> int" where
  "gemini_level_rank l = position l gemini_level_order"

text \<open>The loop of \<open>geminiPickLevel\<close>: the next level up, the top one, and whether the wanted one was met.\<close>

fun pick_scan :: "bytes list \<Rightarrow> bytes \<Rightarrow> bytes \<Rightarrow> int \<Rightarrow> bytes \<Rightarrow> int \<Rightarrow> bytes \<times> bytes \<times> bool" where
  "pick_scan [] want best best_rank peak peak_rank = (best, peak, False)"
| "pick_scan (l # ls) want best best_rank peak peak_rank =
     (let r = gemini_level_rank l in
      if r < 0 then pick_scan ls want best best_rank peak peak_rank
      else if l = want then (l, l, True)
      else (let (best, best_rank) = (if r > gemini_level_rank want \<and> r < best_rank then (l, r) else (best, best_rank));
                (peak, peak_rank) = (if r > peak_rank then (l, r) else (peak, peak_rank)) in
            pick_scan ls want best best_rank peak peak_rank))"

definition gemini_pick_level :: "bytes list \<Rightarrow> bytes \<Rightarrow> bytes \<times> bool" where
  "gemini_pick_level levels want =
     (let (best, peak, found) = pick_scan levels want [] 99 [] (-1) in
      if found then (best, True)
      else if best \<noteq> [] then (best, False)
      else if peak \<noteq> [] then (peak, False)
      else (want, False))"

record gemini_plan =
  gp_config :: "(bytes \<times> json) list option"
  gp_warnings :: "effort_warning list"

definition plan_gemini_thinking :: "capabilities \<Rightarrow> bytes \<Rightarrow> bytes \<Rightarrow> bool \<Rightarrow> provider_error + gemini_plan" where
  "plan_gemini_thinking caps model effort is_set =
     (if \<not> is_set then Inr \<lparr>gp_config = None, gp_warnings = []\<rparr>
      else
        (case check_effort effort of
           Some err \<Rightarrow> Inl err
         | None \<Rightarrow>
             (case cap_thinking caps of
                ThinkingLevel \<Rightarrow>
                  (let want = (if top_effort effort then ''high'' else effort);
                       ws = (if top_effort effort then [GeminiUsesHigh effort] else []) in
                   if want = ''none'' then
                     (let (level, found) = gemini_pick_level (cap_effort_levels caps) ''minimal'' in
                      Inr \<lparr>gp_config = Some [(''thinkingLevel'', JStr level)],
                           gp_warnings = ws @ (if \<not> found \<or> level \<noteq> ''minimal'' then [CannotSwitchOffUsingLevel level] else [])\<rparr>)
                   else Inr \<lparr>gp_config = Some [(''thinkingLevel'', JStr (fst (gemini_pick_level (cap_effort_levels caps) want))),
                                             (''includeThoughts'', JBool True)], gp_warnings = ws\<rparr>)
              | ThinkingBudget \<Rightarrow>
                  (let (lo, hi, can_disable) = gemini_budget_bounds model in
                   if effort = ''none'' then
                     (if can_disable then Inr \<lparr>gp_config = Some [(''thinkingBudget'', JNum (format_int 0))], gp_warnings = []\<rparr>
                      else Inr \<lparr>gp_config = Some [(''thinkingBudget'', JNum (format_int lo))],
                                gp_warnings = [CannotSwitchOffUsingBudget lo]\<rparr>)
                   else
                     (let budget = (case gemini_budgets effort of Some b \<Rightarrow> b | None \<Rightarrow> hi);
                          budget = (if budget < lo then lo else budget);
                          budget = (if budget > hi then hi else budget) in
                      Inr \<lparr>gp_config = Some [(''thinkingBudget'', JNum (format_int budget)), (''includeThoughts'', JBool True)],
                           gp_warnings = []\<rparr>))
              | _ \<Rightarrow> Inr \<lparr>gp_config = None,
                           gp_warnings = (if effort \<noteq> ''none'' then [ThinkingUnsupported ''gemini'' model] else [])\<rparr>)))"

section \<open>Ollama\<close>

record ollama_plan =
  op_think :: raw
  op_warnings :: "effort_warning list"

definition plan_ollama_think :: "capabilities \<Rightarrow> bytes \<Rightarrow> bytes \<Rightarrow> bool \<Rightarrow> provider_error + ollama_plan" where
  "plan_ollama_think caps model effort is_set =
     (if \<not> is_set then Inr \<lparr>op_think = None, op_warnings = []\<rparr>
      else
        (case check_effort effort of
           Some err \<Rightarrow> Inl err
         | None \<Rightarrow>
             (case cap_thinking caps of
                ThinkingToggle \<Rightarrow> Inr \<lparr>op_think = Some (JBool (effort \<noteq> ''none'')), op_warnings = []\<rparr>
              | ThinkingLevel \<Rightarrow>
                  (if effort = ''none'' then Inr \<lparr>op_think = Some (JBool False), op_warnings = []\<rparr>
                   else
                     (let (level, lowered) = clamp_effort (cap_effort_levels caps) effort in
                      Inr \<lparr>op_think = Some (JStr level),
                           op_warnings = (if lowered \<and> top_effort effort then [EffortNotSupported effort level] else [])\<rparr>))
              | _ \<Rightarrow> Inr \<lparr>op_think = None,
                           op_warnings = (if effort \<noteq> ''none'' then [ThinkingUnsupported ''ollama'' model] else [])\<rparr>)))"

section \<open>Facts\<close>

lemma position_bounds: "-1 \<le> position v es \<and> position v es < int (length es)"
  by (induction es) auto

lemma position_iff: "0 \<le> position v es \<longleftrightarrow> v \<in> set es"
  by (induction es) (auto split: if_splits)

lemma position_inj: "position v es = position w es \<Longrightarrow> 0 \<le> position v es \<Longrightarrow> v = w"
  by (induction es) (auto split: if_splits)

lemma effort_rank_inj: "effort_rank v = effort_rank w \<Longrightarrow> 0 \<le> effort_rank v \<Longrightarrow> v = w"
  unfolding effort_rank_def by (rule position_inj)

text \<open>Without the wanted level in the list, the first loop finds the highest below it.\<close>

lemma best_below_found: "want \<in> set ls \<Longrightarrow> best_below ls want best best_rank = (want, True)"
  by (induction ls want best best_rank rule: best_below.induct) auto

lemma best_below_spec:
  assumes "want \<notin> set ls" "best_below ls want best best_rank = (b, same)"
    and "best \<noteq> [] \<Longrightarrow> best_rank = effort_rank best \<and> effort_rank best < effort_rank want"
    and "best = [] \<Longrightarrow> best_rank = -1"
    and "list_all (\<lambda>l. 0 \<le> effort_rank l) ls"
  shows "\<not> same"
    and "b = [] \<Longrightarrow> best = [] \<and> list_all (\<lambda>l. effort_rank want \<le> effort_rank l) ls"
    and "b \<noteq> [] \<Longrightarrow> (b = best \<or> b \<in> set ls) \<and> effort_rank b < effort_rank want \<and> best_rank \<le> effort_rank b
      \<and> list_all (\<lambda>l. effort_rank l < effort_rank want \<longrightarrow> effort_rank l \<le> effort_rank b) ls"
proof -
  have "\<not> same \<and> (b = [] \<longrightarrow> best = [] \<and> list_all (\<lambda>l. effort_rank want \<le> effort_rank l) ls)
    \<and> (b \<noteq> [] \<longrightarrow> (b = best \<or> b \<in> set ls) \<and> effort_rank b < effort_rank want \<and> best_rank \<le> effort_rank b
      \<and> list_all (\<lambda>l. effort_rank l < effort_rank want \<longrightarrow> effort_rank l \<le> effort_rank b) ls)"
    using assms
  proof (induction ls arbitrary: best best_rank)
    case Nil
    then show ?case by auto
  next
    case (Cons l ls)
    have l: "l \<noteq> want" "0 \<le> effort_rank l" "l \<noteq> []"
    proof -
      show "l \<noteq> want" "0 \<le> effort_rank l" using Cons.prems by auto
      have "effort_rank [] = -1" by code_simp
      with \<open>0 \<le> effort_rank l\<close> show "l \<noteq> []" by auto
    qed
    show ?case
    proof (cases "effort_rank l < effort_rank want \<and> effort_rank l > best_rank")
      case True
      with Cons.prems l have "best_below ls want l (effort_rank l) = (b, same)" by simp
      from Cons.IH [OF _ this] Cons.prems l True show ?thesis by fastforce
    next
      case False
      with Cons.prems l have "best_below ls want best best_rank = (b, same)" by auto
      from Cons.IH [OF _ this] Cons.prems l False show ?thesis by fastforce
    qed
  qed
  then show "\<not> same"
    and "b = [] \<Longrightarrow> best = [] \<and> list_all (\<lambda>l. effort_rank want \<le> effort_rank l) ls"
    and "b \<noteq> [] \<Longrightarrow> (b = best \<or> b \<in> set ls) \<and> effort_rank b < effort_rank want \<and> best_rank \<le> effort_rank b
      \<and> list_all (\<lambda>l. effort_rank l < effort_rank want \<longrightarrow> effort_rank l \<le> effort_rank b) ls"
    by auto
qed

lemma lowest_level_from:
  "low \<noteq> [] \<Longrightarrow> list_all (\<lambda>l. l \<noteq> []) ls \<Longrightarrow>
   lowest_level ls low \<in> insert low (set ls)
   \<and> list_all (\<lambda>l. effort_rank (lowest_level ls low) \<le> effort_rank l) ls
   \<and> effort_rank (lowest_level ls low) \<le> effort_rank low"
proof (induction ls arbitrary: low)
  case (Cons l ls)
  show ?case
  proof (cases "effort_rank l < effort_rank low")
    case True
    with Cons.IH [of l] Cons.prems show ?thesis by auto
  next
    case False
    with Cons.IH [of low] Cons.prems show ?thesis by auto
  qed
qed simp

lemma lowest_level_spec:
  assumes "ls \<noteq> []" "list_all (\<lambda>l. l \<noteq> []) ls"
  shows "lowest_level ls [] \<in> set ls" "list_all (\<lambda>l. effort_rank (lowest_level ls []) \<le> effort_rank l) ls"
  using assms lowest_level_from [of "hd ls" "tl ls"] by (cases ls; auto)+

text \<open>The level that serves a wanted effort, whatever the order of the set.\<close>

lemma clamp_effort_spec:
  fixes levels want
  defines "w \<equiv> if want = ''minimal'' then ''low'' else want"
  assumes levels: "levels \<noteq> []" "list_all (\<lambda>l. 0 \<le> effort_rank l) levels"
  shows "fst (clamp_effort levels want) \<in> set levels"
    and "snd (clamp_effort levels want) \<longleftrightarrow> fst (clamp_effort levels want) \<noteq> w"
    and "effort_rank (fst (clamp_effort levels want)) \<le> effort_rank w \<Longrightarrow>
      list_all (\<lambda>l. effort_rank l \<le> effort_rank w \<longrightarrow> effort_rank l \<le> effort_rank (fst (clamp_effort levels want))) levels"
    and "\<not> effort_rank (fst (clamp_effort levels want)) \<le> effort_rank w \<Longrightarrow>
      list_all (\<lambda>l. effort_rank (fst (clamp_effort levels want)) \<le> effort_rank l) levels"
proof -
  let ?c = "clamp_effort levels want"
  have rank_nil: "effort_rank [] = -1" by code_simp
  have ne: "list_all (\<lambda>l. l \<noteq> []) levels" using levels(2) rank_nil by (auto simp: list_all_iff)
  have "fst ?c \<in> set levels \<and> (snd ?c \<longleftrightarrow> fst ?c \<noteq> w)
    \<and> (if effort_rank (fst ?c) \<le> effort_rank w
       then list_all (\<lambda>l. effort_rank l \<le> effort_rank w \<longrightarrow> effort_rank l \<le> effort_rank (fst ?c)) levels
       else list_all (\<lambda>l. effort_rank (fst ?c) \<le> effort_rank l) levels)"
  proof (cases "w \<in> set levels")
    case True
    then have "?c = (w, False)" by (simp add: clamp_effort_def Let_def best_below_found w_def [symmetric])
    with True show ?thesis by (simp add: list_all_iff)
  next
    case False
    obtain b same where b: "best_below levels w [] (-1) = (b, same)" by force
    have spec: "\<not> same" "b = [] \<Longrightarrow> list_all (\<lambda>l. effort_rank w \<le> effort_rank l) levels"
      "b \<noteq> [] \<Longrightarrow> b \<in> set levels \<and> effort_rank b < effort_rank w
        \<and> list_all (\<lambda>l. effort_rank l < effort_rank w \<longrightarrow> effort_rank l \<le> effort_rank b) levels"
      using best_below_spec [of w levels "[]" "-1" b same] False b levels(2) by auto
    show ?thesis
    proof (cases "b = []")
      case True
      with spec b have c: "?c = (lowest_level levels [], lowest_level levels [] \<noteq> w)"
        by (simp add: clamp_effort_def Let_def w_def [symmetric])
      from lowest_level_spec [OF levels(1) ne] spec(2) [OF True] show ?thesis
        unfolding c by (auto simp: list_all_iff)
    next
      case b_ne: False
      from spec(3) [OF b_ne] have "b \<in> set levels" "effort_rank b < effort_rank w"
        and best: "list_all (\<lambda>l. effort_rank l < effort_rank w \<longrightarrow> effort_rank l \<le> effort_rank b) levels" using b_ne by auto
      moreover have c: "?c = (b, True)" using b spec(1) b_ne by (simp add: clamp_effort_def Let_def w_def [symmetric])
      moreover have "effort_rank l \<noteq> effort_rank w" if "l \<in> set levels" for l
        using that False levels(2) effort_rank_inj [of l w] by (auto simp: list_all_iff)
      ultimately show ?thesis by (force simp: list_all_iff)
    qed
  qed
  then show "fst ?c \<in> set levels" "snd ?c \<longleftrightarrow> fst ?c \<noteq> w"
    and "effort_rank (fst ?c) \<le> effort_rank w \<Longrightarrow>
      list_all (\<lambda>l. effort_rank l \<le> effort_rank w \<longrightarrow> effort_rank l \<le> effort_rank (fst ?c)) levels"
    and "\<not> effort_rank (fst ?c) \<le> effort_rank w \<Longrightarrow> list_all (\<lambda>l. effort_rank (fst ?c) \<le> effort_rank l) levels"
    by (simp_all split: if_splits)
qed

section \<open>Budgets\<close>

lemma anthropic_budget_range:
  "0 \<le> effort_rank effort \<Longrightarrow> effort \<noteq> ''none'' \<Longrightarrow> 1024 \<le> anthropic_budgets effort \<and> anthropic_budgets effort \<le> 32768"
  unfolding effort_rank_def position_iff effort_order_def by (auto simp: anthropic_budgets_def)

text \<open>The budget sits between the least the API takes and the tokens of the answer.\<close>

definition budget_ok :: "effort_plan \<Rightarrow> bool" where
  "budget_ok plan =
     (case ep_thinking plan of
        None \<Rightarrow> \<not> ep_drop_temperature plan
      | Some t \<Rightarrow> (if at_type t = ''enabled''
                  then anthropicMinBudget \<le> at_budget_tokens t \<and> at_budget_tokens t < ep_max_tokens plan \<and> ep_drop_temperature plan
                  else at_budget_tokens t = 0))"

lemma ep_sel_warning [simp]:
  "ep_thinking (add_warning w plan) = ep_thinking plan" "ep_max_tokens (add_warning w plan) = ep_max_tokens plan"
  "ep_effort (add_warning w plan) = ep_effort plan" "ep_drop_temperature (add_warning w plan) = ep_drop_temperature plan"
  by (simp_all add: add_warning_def)

lemma budget_plan_ok:
  assumes "0 \<le> max_tokens" "max_tokens < 2 ^ 63" "0 \<le> effort_rank effort"
    and plan: "ep_thinking plan = None" "\<not> ep_drop_temperature plan" "ep_max_tokens plan = or_default_tokens max_tokens"
  shows "budget_ok (budget_plan plan caps effort max_tokens)"
proof (cases "effort = ''none''")
  case True
  then show ?thesis by (simp add: budget_plan_def budget_ok_def plan)
next
  case False
  from anthropic_budget_range [OF assms(3) False]
  have b: "1024 \<le> anthropic_budgets effort" "anthropic_budgets effort \<le> 32768" by simp_all
  have "wrap64 (max_tokens - 1024) = max_tokens - 1024" using assms(1,2) by (intro wrap64_id) (simp add: int64_def)
  with False b show ?thesis
    by (auto simp: budget_plan_def budget_ok_def plan Let_def anthropicMinBudget_def defaultMaxTokens_def
        or_default_tokens_def assms(1) split: prod.split)
qed

lemma budget_plan_rest:
  assumes "0 \<le> effort_rank effort" "ep_effort plan = []" "ep_max_tokens plan = or_default_tokens max_tokens"
    and "list_all (\<lambda>l. 0 \<le> effort_rank l) (cap_effort_levels caps)"
  shows "ep_effort (budget_plan plan caps effort max_tokens) \<in> insert [] (set (cap_effort_levels caps))"
    and "if max_tokens = 0 then 4096 \<le> ep_max_tokens (budget_plan plan caps effort max_tokens)
      else ep_max_tokens (budget_plan plan caps effort max_tokens) = max_tokens"
proof -
  have clamp: "cap_effort_levels caps \<noteq> [] \<Longrightarrow> fst (clamp_effort (cap_effort_levels caps) effort) \<in> set (cap_effort_levels caps)"
    using clamp_effort_spec(1) assms(4) by blast
  then show "ep_effort (budget_plan plan caps effort max_tokens) \<in> insert [] (set (cap_effort_levels caps))"
    by (cases "clamp_effort (cap_effort_levels caps) effort") (auto simp: budget_plan_def Let_def assms(2))
  show "if max_tokens = 0 then 4096 \<le> ep_max_tokens (budget_plan plan caps effort max_tokens)
      else ep_max_tokens (budget_plan plan caps effort max_tokens) = max_tokens"
    using anthropic_budget_range [OF assms(1)]
    by (cases "clamp_effort (cap_effort_levels caps) effort"; cases "effort = ''none''")
      (auto simp: budget_plan_def Let_def assms(3) or_default_tokens_def defaultMaxTokens_def)
qed

lemma adaptive_effort_facts:
  assumes "0 \<le> effort_rank effort" "ep_effort plan = []" "ep_max_tokens plan = or_default_tokens max_tokens"
    and "list_all (\<lambda>l. 0 \<le> effort_rank l) (cap_effort_levels caps)"
  shows "budget_ok (adaptive_effort plan caps effort max_tokens)"
    and "ep_effort (adaptive_effort plan caps effort max_tokens) \<in> insert [] (set (cap_effort_levels caps))"
    and "if max_tokens = 0 then 4096 \<le> ep_max_tokens (adaptive_effort plan caps effort max_tokens)
      else ep_max_tokens (adaptive_effort plan caps effort max_tokens) = max_tokens"
proof -
  have clamp: "cap_effort_levels caps \<noteq> [] \<Longrightarrow> fst (clamp_effort (cap_effort_levels caps) effort) \<in> set (cap_effort_levels caps)"
    using clamp_effort_spec(1) assms(4) by blast
  obtain l b where c: "clamp_effort (cap_effort_levels caps) effort = (l, b)" by force
  show "budget_ok (adaptive_effort plan caps effort max_tokens)"
    by (auto simp: adaptive_effort_def Let_def c budget_ok_def)
  show "ep_effort (adaptive_effort plan caps effort max_tokens) \<in> insert [] (set (cap_effort_levels caps))"
    using clamp by (auto simp: adaptive_effort_def Let_def c assms(2))
  show "if max_tokens = 0 then 4096 \<le> ep_max_tokens (adaptive_effort plan caps effort max_tokens)
      else ep_max_tokens (adaptive_effort plan caps effort max_tokens) = max_tokens"
    by (auto simp: adaptive_effort_def Let_def c assms(3) or_default_tokens_def defaultMaxTokens_def
        anthropicAdaptiveMaxTokens_def)
qed

lemma adaptive_plan_facts:
  assumes "0 \<le> effort_rank effort" "ep_effort plan = []" "ep_max_tokens plan = or_default_tokens max_tokens"
    and "list_all (\<lambda>l. 0 \<le> effort_rank l) (cap_effort_levels caps)"
    and "ep_thinking plan = None" "\<not> ep_drop_temperature plan"
  shows "budget_ok (adaptive_plan plan caps effort max_tokens)"
    and "ep_effort (adaptive_plan plan caps effort max_tokens) \<in> insert [] (set (cap_effort_levels caps))"
    and "if max_tokens = 0 then 4096 \<le> ep_max_tokens (adaptive_plan plan caps effort max_tokens)
      else ep_max_tokens (adaptive_plan plan caps effort max_tokens) = max_tokens"
proof -
  have low: "0 \<le> effort_rank ''low''" by code_simp
  note facts = adaptive_effort_facts [OF assms(1-4)]
    adaptive_effort_facts [OF low, of "add_warning CannotSwitchOffUsingLow plan" max_tokens caps]
  have off: "budget_ok p \<and> ep_effort p = [] \<and> ep_max_tokens p = or_default_tokens max_tokens"
    if "switched_off caps plan = Some p" for p
    using that assms(2,3,5,6) by (auto simp: switched_off_def budget_ok_def split: if_splits)
  show "budget_ok (adaptive_plan plan caps effort max_tokens)"
    using facts(1,4) off assms(2-4) by (auto simp: adaptive_plan_def split: option.split)
  show "ep_effort (adaptive_plan plan caps effort max_tokens) \<in> insert [] (set (cap_effort_levels caps))"
    using facts(2,5) off assms(2-4) by (auto simp: adaptive_plan_def split: option.split)
  show "if max_tokens = 0 then 4096 \<le> ep_max_tokens (adaptive_plan plan caps effort max_tokens)
      else ep_max_tokens (adaptive_plan plan caps effort max_tokens) = max_tokens"
  proof (cases "effort = ''none''")
    case True
    show ?thesis
    proof (cases "switched_off caps plan")
      case None
      with True facts(6) assms(2-4) show ?thesis by (cases "max_tokens = 0") (simp_all add: adaptive_plan_def)
    next
      case (Some p)
      with True off [OF Some] show ?thesis by (simp add: adaptive_plan_def or_default_tokens_def defaultMaxTokens_def)
    qed
  next
    case False
    with facts(3) show ?thesis by (cases "max_tokens = 0") (simp_all add: adaptive_plan_def)
  qed
qed

lemma table_levels_ranked:
  "list_all (\<lambda>l. 0 \<le> effort_rank l) (cap_effort_levels (capabilities_for provider model))"
proof -
  have rows: "list_all (\<lambda>r. list_all (\<lambda>l. 0 \<le> effort_rank l) (mf_effort_levels (mr_flags r))) model_rows" by code_simp
  have base: "list_all (\<lambda>ls. list_all (\<lambda>l. 0 \<le> effort_rank l) ls) [effortLMH, effortGemini3]" by code_simp
  have "cap_effort_levels (provider_defaults provider) \<in> {[], effortLMH, effortGemini3}"
    by (simp add: provider_defaults_def apply_to_def flags_def no_capabilities_def)
  then have defaults: "list_all (\<lambda>l. 0 \<le> effort_rank l) (cap_effort_levels (provider_defaults provider))"
    using base by auto
  show ?thesis
  proof (rule capabilities_for_cases [of provider model])
    assume "capabilities_for provider model = provider_defaults provider"
    with defaults show ?thesis by simp
  next
    fix r assume "r \<in> set model_rows"
      and c: "capabilities_for provider model = apply_to (mr_flags r) (provider_defaults provider)"
    with rows have "list_all (\<lambda>l. 0 \<le> effort_rank l) (mf_effort_levels (mr_flags r))"
      unfolding list_all_iff by blast
    then show ?thesis unfolding c by (simp add: apply_to_def)
  qed
qed

section \<open>Properties\<close>

text \<open>Whatever effort a client asks an Anthropic model for, what is sent is accepted by the
  documented limits: a thinking budget is at least the least the API takes and below
  \<open>max_tokens\<close>, \<open>max_tokens\<close> is the client's when it sent one and leaves the default room
  otherwise, the temperature is dropped with thinking only, and an effort is one the model
  has.\<close>

theorem thinking_leaves_room_for_the_answer:
  assumes "plan_effort (capabilities_for ''anthropic'' model) model effort is_set max_tokens = Inr plan"
    and "0 \<le> max_tokens" "max_tokens < 2 ^ 63"
  shows "budget_ok plan
    \<and> (if max_tokens = 0 then 4096 \<le> ep_max_tokens plan else ep_max_tokens plan = max_tokens)
    \<and> ep_effort plan \<in> insert [] (set (cap_effort_levels (capabilities_for ''anthropic'' model)))"
proof -
  let ?caps = "capabilities_for ''anthropic'' model"
  let ?base = "\<lparr>ep_thinking = None, ep_effort = [], ep_max_tokens = or_default_tokens max_tokens,
                  ep_drop_temperature = False, ep_warnings = []\<rparr>"
  note levels = table_levels_ranked [of "''anthropic''" model]
  have plain: "budget_ok p \<and> (if max_tokens = 0 then 4096 \<le> ep_max_tokens p else ep_max_tokens p = max_tokens) \<and> ep_effort p = []"
    if "p = ?base \<or> (\<exists>w. p = add_warning w ?base)" for p
    using that by (auto simp: budget_ok_def or_default_tokens_def defaultMaxTokens_def)
  show ?thesis
  proof (cases "is_set \<and> (cap_thinking ?caps = ThinkingBudget \<or> cap_thinking ?caps = ThinkingAdaptive)")
    case False
    then have "plan = ?base \<or> (\<exists>w. plan = add_warning w ?base)"
      using assms(1) by (auto simp: plan_effort_def Let_def split: option.splits thinking_mode.splits if_splits)
    from plain [OF this] show ?thesis by simp
  next
    case True
    with assms(1) have rank: "0 \<le> effort_rank effort"
      by (auto simp: plan_effort_def Let_def check_effort_def split: if_splits)
    from True consider "plan = budget_plan ?base ?caps effort max_tokens" | "plan = adaptive_plan ?base ?caps effort max_tokens"
      using assms(1) rank by (auto simp: plan_effort_def Let_def check_effort_def)
    then show ?thesis
    proof cases
      case 1
      with budget_plan_ok [OF assms(2,3) rank, of ?base ?caps] budget_plan_rest [OF rank _ _ levels, of ?base max_tokens]
      show ?thesis by (cases "max_tokens = 0") simp_all
    next
      case 2
      with adaptive_plan_facts [OF rank _ _ levels, of ?base max_tokens] show ?thesis
        by (cases "max_tokens = 0") simp_all
    qed
  qed
qed

lemma thinking_leaves_room_for_the_answer_witness:
  "\<exists>plan. plan_effort (capabilities_for ''anthropic'' ''claude-sonnet-4-5'') ''claude-sonnet-4-5'' ''high'' True 9000 = Inr plan
     \<and> budget_ok plan \<and> ep_max_tokens plan = 9000"
proof -
  let ?p = "plan_effort (capabilities_for ''anthropic'' ''claude-sonnet-4-5'') ''claude-sonnet-4-5'' ''high'' True 9000"
  have "\<not> effort_rank ''high'' < 0" by code_simp
  then have "\<exists>plan. ?p = Inr plan"
    by (simp add: plan_effort_def check_effort_def Let_def split: thinking_mode.split)
  then obtain plan where plan: "?p = Inr plan" by blast
  from thinking_leaves_room_for_the_answer [OF plan] plan show ?thesis by auto
qed

text \<open>A client that asks for the smallest \<open>max_tokens\<close> an integer holds gets a budget that wrapped around.\<close>

theorem smallest_max_tokens_wraps_the_budget:
  "map_option at_budget_tokens (ep_thinking (budget_plan p (no_capabilities\<lparr>cap_thinking := ThinkingBudget\<rparr>) ''low'' (- (2 ^ 63))))
     = Some (2 ^ 63 - 1024)"
  by (simp add: budget_plan_def no_capabilities_def anthropic_budgets_def anthropicMinBudget_def wrap64_def)

end
