(* ===== verification/Thinking.thy ===== *)
theory Thinking
  imports Chat Effort Accounting
begin

text \<open>
  \<open>internal/provider/thinking.go\<close> and the answer types of \<open>internal/provider/types.go\<close>:
  the blocks of \<open>ragmux_thinking\<close>, what of them is accepted from a client, what is sent back
  to Anthropic, and how the reasoning text of other providers is put into their shape.
\<close>

section \<open>Blocks\<close>

definition thinkingBlockThinking where "thinkingBlockThinking = ''thinking''"
definition thinkingBlockRedacted where "thinkingBlockRedacted = ''redacted_thinking''"

record thinking_block =
  tb_index :: "int option"
  tb_type :: bytes
  tb_thinking :: bytes
  tb_signature :: bytes
  tb_data :: bytes

definition no_block :: thinking_block where
  "no_block = \<lparr>tb_index = None, tb_type = [], tb_thinking = [], tb_signature = [], tb_data = []\<rparr>"

definition marshal_block :: "thinking_block \<Rightarrow> json" where
  "marshal_block b =
     JObj (opt_int ''index'' (tb_index b) @ [(''type'', JStr (tb_type b))] @ opt_str ''thinking'' (tb_thinking b)
       @ opt_str ''signature'' (tb_signature b) @ opt_str ''data'' (tb_data b))"

definition thinking_field :: "thinking_block list \<Rightarrow> raw" where
  "thinking_field bs = (if bs = [] then None else Some (JArr (map marshal_block bs)))"

definition invalid_thinking :: provider_error where
  "invalid_thinking = client_error ''invalid_ragmux_thinking''"

definition thinking_present :: "raw \<Rightarrow> bool" where
  "thinking_present r \<longleftrightarrow> r \<noteq> None \<and> r \<noteq> Some JNull"

text \<open>A string member of a block: its text and whether it is there; \<open>None\<close> when it is no string.\<close>

definition block_str :: "(bytes \<times> json) list \<Rightarrow> bytes \<Rightarrow> (bytes \<times> bool) option" where
  "block_str obj key =
     (case map_of obj key of
        None \<Rightarrow> Some ([], False)
      | Some v \<Rightarrow> (case unmarshal dec_string [] (Some v) of None \<Rightarrow> None | Some s \<Rightarrow> Some (s, True)))"

definition parse_block :: "json \<Rightarrow> thinking_block option" where
  "parse_block e =
     (case e of
        JObj ms \<Rightarrow>
          (let obj = obj_map ms in
           case block_str obj ''type'' of
             None \<Rightarrow> None
           | Some (typ, _) \<Rightarrow>
               (if typ = thinkingBlockThinking then
                  (case block_str obj ''thinking'' of
                     None \<Rightarrow> None
                   | Some (t, _) \<Rightarrow>
                       (case block_str obj ''signature'' of
                          None \<Rightarrow> None
                        | Some (s, _) \<Rightarrow> Some (no_block\<lparr>tb_type := typ, tb_thinking := t, tb_signature := s\<rparr>)))
                else if typ = thinkingBlockRedacted then
                  (case block_str obj ''data'' of
                     None \<Rightarrow> None
                   | Some (d, ok) \<Rightarrow> if \<not> ok \<or> d = [] then None else Some (no_block\<lparr>tb_type := typ, tb_data := d\<rparr>))
                else None))
      | _ \<Rightarrow> None)"

fun parse_blocks :: "json list \<Rightarrow> thinking_block list option" where
  "parse_blocks [] = Some []"
| "parse_blocks (e # es) =
     (case parse_block e of
        None \<Rightarrow> None
      | Some b \<Rightarrow> (case parse_blocks es of None \<Rightarrow> None | Some bs \<Rightarrow> Some (b # bs)))"

definition parse_thinking_blocks :: "raw \<Rightarrow> provider_error + thinking_block list" where
  "parse_thinking_blocks r =
     (if \<not> thinking_present r then Inr []
      else
        (case raw_list r of
           None \<Rightarrow> Inl invalid_thinking
         | Some es \<Rightarrow> (case parse_blocks es of None \<Rightarrow> Inl invalid_thinking | Some bs \<Rightarrow> Inr bs)))"

fun validate_request_thinking :: "message list \<Rightarrow> provider_error option" where
  "validate_request_thinking [] = None"
| "validate_request_thinking (m # ms) =
     (if \<not> thinking_present (m_thinking m) then validate_request_thinking ms
      else if m_role m \<noteq> ''assistant'' then Some invalid_thinking
      else (case parse_thinking_blocks (m_thinking m) of
              Inl err \<Rightarrow> Some err
            | Inr _ \<Rightarrow> validate_request_thinking ms))"

section \<open>What is sent back\<close>

definition replayable :: "thinking_block \<Rightarrow> bool" where
  "replayable b \<longleftrightarrow>
     tb_type b = thinkingBlockThinking \<and> tb_signature b \<noteq> [] \<or> tb_type b = thinkingBlockRedacted \<and> tb_data b \<noteq> []"

definition replayable_thinking :: "thinking_block list \<Rightarrow> thinking_block list" where
  "replayable_thinking bs = filter replayable bs"

definition blocks_of :: "message \<Rightarrow> thinking_block list" where
  "blocks_of m = (case parse_thinking_blocks (m_thinking m) of Inl _ \<Rightarrow> [] | Inr bs \<Rightarrow> bs)"

definition has_replayable_thinking :: "message list \<Rightarrow> bool" where
  "has_replayable_thinking msgs \<longleftrightarrow>
     list_ex (\<lambda>m. m_role m = ''assistant'' \<and> replayable_thinking (blocks_of m) \<noteq> []) msgs"

definition unsigned_thinking_text :: "raw \<Rightarrow> bytes" where
  "unsigned_thinking_text r =
     (case parse_thinking_blocks r of
        Inl _ \<Rightarrow> []
      | Inr bs \<Rightarrow> concat (map tb_thinking (filter (\<lambda>b. tb_type b = thinkingBlockThinking \<and> tb_signature b = []) bs)))"

definition has_reasoning_content :: "message list \<Rightarrow> bool" where
  "has_reasoning_content msgs \<longleftrightarrow>
     list_ex (\<lambda>m. thinking_present (m_reasoning_content m)
       \<and> unmarshal dec_string [] (m_reasoning_content m) \<noteq> Some []) msgs"

section \<open>Answers\<close>

record response_message =
  rm_role :: bytes
  rm_content :: "bytes option"
  rm_tool_calls :: raw
  rm_refusal :: "bytes option"
  rm_annotations :: raw
  rm_reasoning_content :: "bytes option"
  rm_thinking :: "thinking_block list"

record choice =
  co_index :: int
  co_message :: response_message
  co_finish_reason :: "bytes option"
  co_logprobs :: raw

record chat_response =
  re_id :: bytes
  re_model :: bytes
  re_choices :: "choice list"
  re_usage :: "usage option"

record delta =
  de_role :: bytes
  de_content :: "bytes option"
  de_tool_calls :: raw
  de_refusal :: "bytes option"
  de_annotations :: raw
  de_reasoning_content :: "bytes option"
  de_thinking :: "thinking_block list"

record stream_choice =
  sc_index :: int
  sc_delta :: delta
  sc_finish_reason :: "bytes option"
  sc_logprobs :: raw

record stream_chunk =
  sk_id :: bytes
  sk_model :: bytes
  sk_choices :: "stream_choice list"
  sk_usage :: "usage option"

definition no_delta :: delta where
  "no_delta = \<lparr>de_role = [], de_content = None, de_tool_calls = None, de_refusal = None, de_annotations = None,
     de_reasoning_content = None, de_thinking = []\<rparr>"

definition fold_reasoning_content :: "chat_response \<Rightarrow> chat_response" where
  "fold_reasoning_content r =
     r\<lparr>re_choices := map (\<lambda>c.
        (let m = co_message c in
         if rm_thinking m \<noteq> [] \<or> rm_reasoning_content m = None \<or> rm_reasoning_content m = Some [] then c
         else c\<lparr>co_message := m\<lparr>rm_thinking := [no_block\<lparr>tb_type := thinkingBlockThinking,
                  tb_thinking := the (rm_reasoning_content m)\<rparr>]\<rparr>\<rparr>)) (re_choices r)\<rparr>"

definition thinking_blocks_of :: "bytes \<Rightarrow> thinking_block list" where
  "thinking_blocks_of t =
     (if t = [] then [] else [no_block\<lparr>tb_type := thinkingBlockThinking, tb_thinking := t\<rparr>])"

definition thinking_delta_of :: "bytes \<Rightarrow> thinking_block list" where
  "thinking_delta_of t =
     (if t = [] then [] else [no_block\<lparr>tb_index := Some 0, tb_type := thinkingBlockThinking, tb_thinking := t\<rparr>])"

definition fold_reasoning_delta :: "stream_chunk \<Rightarrow> stream_chunk" where
  "fold_reasoning_delta k =
     k\<lparr>sk_choices := map (\<lambda>c.
        (let d = sc_delta c in
         if de_thinking d \<noteq> [] \<or> de_reasoning_content d = None \<or> de_reasoning_content d = Some [] then c
         else c\<lparr>sc_delta := d\<lparr>de_thinking := thinking_delta_of (the (de_reasoning_content d))\<rparr>\<rparr>)) (sk_choices k)\<rparr>"

section \<open>Facts\<close>

text \<open>A whole block as the gateway hands it out: the fields of its type and no index.\<close>

definition whole_block :: "thinking_block \<Rightarrow> bool" where
  "whole_block b \<longleftrightarrow>
     tb_index b = None
     \<and> (if tb_type b = thinkingBlockThinking then tb_data b = []
        else tb_type b = thinkingBlockRedacted \<and> tb_data b \<noteq> [] \<and> tb_thinking b = [] \<and> tb_signature b = [])"

lemma marshalled_member:
  assumes "distinct (map fst ms)"
  shows "map_of (obj_map ms) k = map_of ms k"
  by (simp add: map_of_obj_map map_of_rev_distinct [OF assms])

lemma parse_marshal_block:
  assumes "whole_block b"
  shows "parse_block (marshal_block b) = Some b"
proof -
  let ?ms = "[(''type'', JStr (tb_type b))] @ opt_str ''thinking'' (tb_thinking b)
       @ opt_str ''signature'' (tb_signature b) @ opt_str ''data'' (tb_data b)"
  have i: "tb_index b = None" using assms by (simp add: whole_block_def)
  have m: "marshal_block b = JObj ?ms" by (simp add: marshal_block_def i opt_int_def)
  have d: "distinct (map fst ?ms)" by (simp add: opt_str_def)
  have str: "block_str (obj_map ?ms) ''type'' = Some (tb_type b, True)"
    "block_str (obj_map ?ms) ''thinking'' = Some (tb_thinking b, tb_thinking b \<noteq> [])"
    "block_str (obj_map ?ms) ''signature'' = Some (tb_signature b, tb_signature b \<noteq> [])"
    "block_str (obj_map ?ms) ''data'' = Some (tb_data b, tb_data b \<noteq> [])"
    unfolding block_str_def marshalled_member [OF d] by (simp_all add: opt_str_def unmarshal_def)
  show ?thesis
  proof (cases "tb_type b = thinkingBlockThinking")
    case True
    then have "b = no_block\<lparr>tb_type := tb_type b, tb_thinking := tb_thinking b, tb_signature := tb_signature b\<rparr>"
      using assms by (simp add: whole_block_def no_block_def)
    with True show ?thesis unfolding m parse_block_def json.case Let_def str by simp
  next
    case False
    with assms have r: "tb_type b = thinkingBlockRedacted" "tb_data b \<noteq> []"
      and b: "b = no_block\<lparr>tb_type := tb_type b, tb_data := tb_data b\<rparr>"
      by (simp_all add: whole_block_def no_block_def)
    show ?thesis unfolding m parse_block_def json.case Let_def str using False r b by simp
  qed
qed

lemma parse_marshal_blocks: "list_all whole_block bs \<Longrightarrow> parse_blocks (map marshal_block bs) = Some bs"
  by (induction bs) (simp_all add: parse_marshal_block)

lemma parse_block_whole: "parse_block e = Some b \<Longrightarrow> whole_block b"
  by (auto simp: parse_block_def Let_def whole_block_def no_block_def thinkingBlockThinking_def thinkingBlockRedacted_def
      split: json.splits option.splits if_splits)

lemma parse_blocks_whole: "parse_blocks es = Some bs \<Longrightarrow> list_all whole_block bs"
  by (induction es arbitrary: bs) (auto split: option.splits dest: parse_block_whole)

section \<open>Properties\<close>

text \<open>The thinking a client was given it can send back: blocks written for an answer are read
  from a request as they were, and an assistant message that carries them is accepted.\<close>

theorem thinking_comes_back_unchanged:
  assumes "list_all whole_block bs"
  shows "parse_thinking_blocks (thinking_field bs) = Inr bs
    \<and> validate_request_thinking [no_message\<lparr>m_role := ''assistant'', m_thinking := thinking_field bs\<rparr>] = None"
proof -
  have "parse_thinking_blocks (thinking_field bs) = Inr bs"
    by (simp add: parse_thinking_blocks_def thinking_field_def thinking_present_def raw_list_def
        parse_marshal_blocks [OF assms])
  then show ?thesis by simp
qed

lemma thinking_comes_back_unchanged_witness:
  "parse_thinking_blocks (thinking_field [no_block\<lparr>tb_type := thinkingBlockRedacted, tb_data := ''x''\<rparr>])
    = Inr [no_block\<lparr>tb_type := thinkingBlockRedacted, tb_data := ''x''\<rparr>]"
proof -
  have "list_all whole_block [no_block\<lparr>tb_type := thinkingBlockRedacted, tb_data := ''x''\<rparr>]"
    by (simp add: whole_block_def no_block_def thinkingBlockThinking_def thinkingBlockRedacted_def)
  from thinking_comes_back_unchanged [OF this] show ?thesis by blast
qed

end
