(* ===== verification/AnthropicFormat.thy ===== *)
theory AnthropicFormat
  imports Thinking
begin

text \<open>
  \<open>internal/provider/anthropic_format.go\<close>: how a \<open>response_format\<close> reaches the Messages API,
  as a native schema, a forced tool or an instruction, and how the answer of the forced
  tool is turned back into content, whole or from a stream of fragments. The text of a
  JSON value as it was sent is a parameter.
\<close>

definition ragmuxResponseTool where "ragmuxResponseTool = ''ragmux_response''"

record anthropic_tool =
  an_name :: bytes
  an_description :: bytes
  an_input_schema :: json
  an_cache_control :: raw

datatype format_mode = NoFormat | FormatNative | FormatTool | FormatInstruction

record format_plan =
  fp_mode :: format_mode
  fp_schema :: raw
  fp_wrapped :: bool
  fp_warnings :: "effort_warning list"

definition no_format :: format_plan where
  "no_format = \<lparr>fp_mode = NoFormat, fp_schema = None, fp_wrapped = False, fp_warnings = []\<rparr>"

definition tool_mode :: "format_plan \<Rightarrow> bool" where
  "tool_mode f \<longleftrightarrow> fp_mode f = FormatTool"

section \<open>Schemas\<close>

definition schema_root :: "raw \<Rightarrow> (bytes \<times> json) list option" where
  "schema_root schema = (case schema of Some (JObj ms) \<Rightarrow> Some (obj_map ms) | _ \<Rightarrow> None)"

definition is_object_schema :: "(bytes \<times> json) list \<Rightarrow> bool" where
  "is_object_schema top_level =
     (case map_of top_level ''type'' of
        None \<Rightarrow> map_of top_level ''properties'' \<noteq> None
      | Some t \<Rightarrow> unmarshal dec_string [] (Some t) = Some ''object'')"

definition wrap_schema :: "json \<Rightarrow> json" where
  "wrap_schema schema =
     JObj [(''additionalProperties'', JBool False), (''properties'', JObj [(''value'', schema)]),
       (''required'', JArr [JStr ''value'']), (''type'', JStr ''object'')]"

section \<open>The plan\<close>

record schema_holder =
  sh_schema_raw :: raw

record response_format =
  rf_type :: bytes
  rf_json_schema :: "schema_holder option"

definition schema_holder_field :: "bytes \<Rightarrow> schema_holder decoder" where
  "schema_holder_field k h j = (if names_field k ''schema'' then (h\<lparr>sh_schema_raw := Some j\<rparr>, False) else (h, False))"

definition response_format_field :: "bytes \<Rightarrow> response_format decoder" where
  "response_format_field k r j =
     (if names_field k ''type'' then (let (s, e) = dec_string (rf_type r) j in (r\<lparr>rf_type := s\<rparr>, e))
      else if names_field k ''json_schema'' then
        (let (h, e) = dec_ptr (dec_struct schema_holder_field) \<lparr>sh_schema_raw = None\<rparr> (rf_json_schema r) j in
         (r\<lparr>rf_json_schema := h\<rparr>, e))
      else (r, False))"

definition plan_anthropic_format :: "capabilities \<Rightarrow> chat_request \<Rightarrow> provider_error + format_plan" where
  "plan_anthropic_format caps req =
     (case unmarshal (dec_struct response_format_field) \<lparr>rf_type = [], rf_json_schema = None\<rparr> (cr_response_format req) of
        None \<Rightarrow> Inr no_format
      | Some rf \<Rightarrow>
          (if rf_type rf = ''json_schema'' then
             (let schema = (case rf_json_schema rf of None \<Rightarrow> None | Some h \<Rightarrow> sh_schema_raw h) in
              case schema_root schema of
                None \<Rightarrow> Inl (client_error [])
              | Some top_level \<Rightarrow>
                  (if cap_native_json_schema caps \<or> \<not> cap_forced_tool_choice caps
                   then Inr (no_format\<lparr>fp_mode := FormatNative, fp_schema := schema\<rparr>)
                   else if is_object_schema top_level then Inr (no_format\<lparr>fp_mode := FormatTool, fp_schema := schema\<rparr>)
                   else Inr (no_format\<lparr>fp_mode := FormatTool, fp_wrapped := True,
                               fp_schema := map_option wrap_schema schema\<rparr>)))
           else if rf_type rf = ''json_object'' then
             (if cap_forced_tool_choice caps
              then Inr (no_format\<lparr>fp_mode := FormatTool, fp_schema := Some (JObj [(''type'', JStr ''object'')])\<rparr>)
              else Inr (no_format\<lparr>fp_mode := FormatInstruction,
                          fp_warnings := [Text ''response_format json_object is approximated by an instruction on this model'']\<rparr>))
           else Inr no_format))"

section \<open>The synthetic tool\<close>

definition response_tool :: "format_plan \<Rightarrow> anthropic_tool" where
  "response_tool f =
     \<lparr>an_name = ragmuxResponseTool, an_description = ''Return the final answer as this tool's input.'',
      an_input_schema = (case fp_schema f of Some s \<Rightarrow> s | None \<Rightarrow> JNull), an_cache_control = None\<rparr>"

definition user_tool_clash :: "anthropic_tool list \<Rightarrow> provider_error option" where
  "user_tool_clash tools =
     (if list_ex (\<lambda>t. an_name t = ragmuxResponseTool) tools then Some (client_error []) else None)"

definition choice_type_field :: "bytes \<Rightarrow> bytes decoder" where
  "choice_type_field k s j = (if names_field k ''type'' then dec_string s j else (s, False))"

text \<open>The tools and the tool choice of a request that carries the synthetic tool.\<close>

definition apply_tool_choice :: "format_plan \<Rightarrow> anthropic_tool list \<times> raw \<Rightarrow> anthropic_tool list \<times> raw" where
  "apply_tool_choice f out =
     (let (tools, choice) = out;
          named = (unmarshal (dec_struct choice_type_field) [] choice = Some ''tool'');
          choice = (if tools = [] then Some (JObj [(''type'', JStr ''tool''), (''name'', JStr ragmuxResponseTool)])
                    else if named then choice
                    else Some (JObj [(''type'', JStr ''any''), (''disable_parallel_tool_use'', JBool True)])) in
      (tools @ [response_tool f], choice))"

definition value_field :: "bytes \<Rightarrow> raw decoder" where
  "value_field k r j = (if names_field k ''value'' then (Some j, False) else (r, False))"

definition format_answer :: "(json \<Rightarrow> bytes) \<Rightarrow> format_plan \<Rightarrow> raw \<Rightarrow> bytes" where
  "format_answer show f input =
     (case input of
        None \<Rightarrow> ''{}''
      | Some i \<Rightarrow>
          (if \<not> fp_wrapped f then show i
           else (case unmarshal (dec_struct value_field) None input of
                   Some (Some v) \<Rightarrow> show v
                 | _ \<Rightarrow> show i)))"

section \<open>The answer of a stream\<close>

record format_stream =
  fs_wrapped :: bool
  fs_prefix :: bool
  fs_buf :: bytes
  fs_sent :: bool

definition new_format_stream :: "bool \<Rightarrow> format_stream" where
  "new_format_stream wrapped = \<lparr>fs_wrapped = wrapped, fs_prefix = \<not> wrapped, fs_buf = [], fs_sent = False\<rparr>"

definition json_space :: "char \<Rightarrow> bool" where
  "json_space c \<longleftrightarrow> c = CHR 0x20 \<or> c = CHR 0x09 \<or> c = CHR 0x0D \<or> c = CHR 0x0A"

definition skip_space :: "bytes \<Rightarrow> bytes" where
  "skip_space s = dropWhile json_space s"

text \<open>The loop over the three tokens: what is left behind them, or \<open>None\<close>.\<close>

fun skip_tokens :: "bytes list \<Rightarrow> bytes \<Rightarrow> bytes option" where
  "skip_tokens [] s = Some s"
| "skip_tokens (tok # toks) s =
     (if has_prefix s tok then skip_tokens toks (skip_space (drop (length tok) s)) else None)"

definition opener :: "bytes list" where
  "opener = [''{'', [CHR 0x22] @ ''value'' @ [CHR 0x22], '':'']"

definition wrapper_prefix_len :: "bytes \<Rightarrow> nat option" where
  "wrapper_prefix_len s =
     (case skip_tokens opener (skip_space s) of
        None \<Rightarrow> None
      | Some rest \<Rightarrow> if rest = [] then None else Some (length s - length rest))"

text \<open>Where the text that may belong to the wrapper's end begins.\<close>

definition held_from :: "bytes \<Rightarrow> nat" where
  "held_from buf =
     (let t = rev (dropWhile json_space (rev buf)) in
      if t \<noteq> [] \<and> last t = CHR 0x7D then length t - 1 else length t)"

definition feed_fragment :: "bytes \<Rightarrow> format_stream \<Rightarrow> bytes \<times> format_stream" where
  "feed_fragment frag s =
     (if \<not> fs_wrapped s then (frag, s)
      else
        (let s = s\<lparr>fs_buf := fs_buf s @ frag\<rparr> in
         case (if fs_prefix s then Some 0 else wrapper_prefix_len (fs_buf s)) of
           None \<Rightarrow> ([], s)
         | Some n \<Rightarrow>
             (let buf = drop n (fs_buf s); cut = held_from buf in
              (take cut buf, s\<lparr>fs_buf := drop cut buf, fs_prefix := True\<rparr>))))"

definition format_feed :: "bytes \<Rightarrow> format_stream \<Rightarrow> bytes \<times> format_stream" where
  "format_feed frag s =
     (let (out, s) = feed_fragment frag s in (out, s\<lparr>fs_sent := fs_sent s \<or> out \<noteq> []\<rparr>))"

definition format_flush :: "format_stream \<Rightarrow> bytes \<times> format_stream" where
  "format_flush s =
     (let out = (if \<not> fs_prefix s then fs_buf s else []);
          out = (if out = [] \<and> \<not> fs_sent s then ''{}'' else out) in
      (out, s\<lparr>fs_buf := [], fs_sent := fs_sent s \<or> out \<noteq> []\<rparr>))"

text \<open>The content a client is sent for a block: all its fragments, then its end.\<close>

fun format_feeds :: "bytes list \<Rightarrow> format_stream \<Rightarrow> bytes \<times> format_stream" where
  "format_feeds [] s = ([], s)"
| "format_feeds (f # fs) s =
     (let (out, s) = format_feed f s; (outs, s) = format_feeds fs s in (out @ outs, s))"

definition streamed_answer :: "bool \<Rightarrow> bytes list \<Rightarrow> bytes" where
  "streamed_answer wrapped frags =
     (let (out, s) = format_feeds frags (new_format_stream wrapped) in out @ fst (format_flush s))"

section \<open>The same answer from the whole text\<close>

definition answer_text :: "bool \<Rightarrow> bytes \<Rightarrow> bytes" where
  "answer_text wrapped whole =
     (let t = (if \<not> wrapped then whole
               else (case wrapper_prefix_len whole of
                       None \<Rightarrow> whole
                     | Some n \<Rightarrow> take (held_from (drop n whole)) (drop n whole))) in
      if t = [] then ''{}'' else t)"

lemma skip_space_append: "skip_space s \<noteq> [] \<Longrightarrow> skip_space (s @ t) = skip_space s @ t"
  unfolding skip_space_def by (induction s) auto

lemma skip_tokens_length: "skip_tokens toks s = Some rest \<Longrightarrow> length rest \<le> length s"
proof (induction toks arbitrary: s)
  case (Cons tok toks)
  then have "length rest \<le> length (skip_space (drop (length tok) s))" by (auto split: if_splits)
  also have "\<dots> \<le> length s"
    using length_dropWhile_le [of json_space "drop (length tok) s"] by (simp add: skip_space_def)
  finally show ?case .
qed simp

lemma skip_tokens_append:
  "skip_tokens toks s = Some rest \<Longrightarrow> rest \<noteq> [] \<Longrightarrow> skip_tokens toks (s @ t) = Some (rest @ t)"
proof (induction toks arbitrary: s)
  case (Cons tok toks)
  from Cons.prems(1) obtain v where s: "s = tok @ v" and v: "skip_tokens toks (skip_space v) = Some rest"
    by (auto simp: has_prefix_iff split: if_splits)
  have "skip_space v \<noteq> []"
  proof
    assume "skip_space v = []"
    with v Cons.prems(2) skip_tokens_length [of toks "[]" rest] show False by simp
  qed
  then show ?case using Cons.IH [OF v Cons.prems(2)] by (simp add: s skip_space_append)
qed simp

lemma skip_space_length: "length (skip_space s) \<le> length s"
  by (simp add: skip_space_def length_dropWhile_le)

lemma skip_tokens_suffix: "skip_tokens toks s = Some rest \<Longrightarrow> \<exists>u. s = u @ rest"
proof (induction toks arbitrary: s)
  case (Cons tok toks)
  then obtain v where s: "s = tok @ v" and v: "skip_tokens toks (skip_space v) = Some rest"
    by (auto simp: has_prefix_iff split: if_splits)
  from Cons.IH [OF v] obtain u where "skip_space v = u @ rest" ..
  moreover have "v = takeWhile json_space v @ skip_space v" by (simp add: skip_space_def)
  ultimately show ?case using s by (metis append.assoc)
qed simp

text \<open>Once the opener is complete, more text does not move its end.\<close>

lemma wrapper_prefix_append:
  assumes "wrapper_prefix_len s = Some n"
  shows "wrapper_prefix_len (s @ t) = Some n" "n < length s"
proof -
  from assms obtain rest where r: "skip_tokens opener (skip_space s) = Some rest" "rest \<noteq> []" "n = length s - length rest"
    by (auto simp: wrapper_prefix_len_def split: option.splits if_splits)
  from skip_tokens_length [OF r(1)] r(2) have "skip_space s \<noteq> []" by auto
  then have "skip_space (s @ t) = skip_space s @ t" by (rule skip_space_append)
  with skip_tokens_append [OF r(1,2)] r(2,3) show "wrapper_prefix_len (s @ t) = Some n"
    by (simp add: wrapper_prefix_len_def)
  show "n < length s"
    using r skip_tokens_length [OF r(1)] skip_space_length [of s] by (cases rest) auto
qed

text \<open>What is held back is the white space at the end and one closing brace before it.\<close>

lemma held_from_le: "held_from buf \<le> length buf"
  using length_dropWhile_le [of json_space "rev buf"]
  by (auto simp: held_from_def Let_def intro: order_trans [OF diff_le_self])

lemma trimmed_append:
  "rev (dropWhile P (rev (u @ v))) =
     (if rev (dropWhile P (rev v)) = [] then rev (dropWhile P (rev u)) else u @ rev (dropWhile P (rev v)))"
  by (induction v rule: rev_induct) (auto simp: dropWhile_append)

text \<open>Feeding text in pieces releases what feeding it at once does.\<close>

lemma held_from_append:
  fixes w f
  defines "b \<equiv> drop (held_from w) w"
  shows "held_from (w @ f) = held_from w + held_from (b @ f)"
proof -
  define t where "t = (\<lambda>x. rev (dropWhile json_space (rev x)))"
  have t_app: "t (u @ v) = (if t v = [] then t u else u @ t v)" for u v
    unfolding t_def by (rule trimmed_append)
  have h: "held_from x = (if t x \<noteq> [] \<and> last (t x) = CHR 0x7D then length (t x) - 1 else length (t x))" for x
    by (simp add: held_from_def t_def Let_def)
  obtain r where w: "w = t w @ r" "t r = []"
  proof (rule that)
    have "rev w = takeWhile json_space (rev w) @ dropWhile json_space (rev w)" by simp
    then show "w = t w @ rev (takeWhile json_space (rev w))" unfolding t_def by (metis rev_append rev_rev_ident)
    show "t (rev (takeWhile json_space (rev w))) = []"
      by (simp add: t_def dropWhile_eq_Nil_conv) (auto dest: set_takeWhileD)
  qed
  show ?thesis
  proof (cases "t w \<noteq> [] \<and> last (t w) = CHR 0x7D")
    case True
    define u where "u = butlast (t w)"
    have tw: "t w = u @ [CHR 0x7D]" using True unfolding u_def by (metis append_butlast_last_id)
    have hw: "held_from w = length u" using True tw by (simp add: h)
    have wu: "w = u @ [CHR 0x7D] @ r" using w(1) unfolding tw by simp
    have b: "b = [CHR 0x7D] @ r" using arg_cong [OF wu, of "drop (length u)"] unfolding b_def hw by simp
    have wb: "w = u @ b" using wu unfolding b .
    have tb: "t (b @ f) \<noteq> []"
      unfolding b by (simp add: t_app t_def json_space_def)
    have "t (w @ f) = u @ t (b @ f)" unfolding wb append.assoc using tb t_app [of u "b @ f"] by simp
    then show ?thesis unfolding hw h [of "w @ f"] h [of "b @ f"] using tb by (cases "t (b @ f)") simp_all
  next
    case False
    then have hw: "held_from w = length (t w)" by (auto simp add: h [of w])
    have b: "b = r" using arg_cong [OF w(1), of "drop (length (t w))"] unfolding b_def hw by simp
    show ?thesis
    proof (cases "t (b @ f) = []")
      case True
      then have "t (w @ f) = t w"
        using t_app [of "t w" "r @ f"] t_app [of "t w" r] w b by (metis append.assoc)
      then have "held_from (w @ f) = held_from w" by (simp only: h)
      moreover have "held_from (b @ f) = 0" using True by (simp add: h)
      ultimately show ?thesis by simp
    next
      case nonempty: False
      then have "t (w @ f) = t w @ t (b @ f)"
        using t_app [of "t w" "r @ f"] w(1) b by (metis append.assoc)
      moreover from nonempty have "1 \<le> length (t (b @ f))" by (cases "t (b @ f)") simp_all
      ultimately show ?thesis using nonempty unfolding hw h [of "w @ f"] h [of "b @ f"] by simp
    qed
  qed
qed

text \<open>What the stream has done after the text it was fed.\<close>

definition fed :: "bytes \<Rightarrow> bytes \<Rightarrow> format_stream \<Rightarrow> bool" where
  "fed whole out s \<longleftrightarrow>
     fs_wrapped s \<and> fs_sent s = (out \<noteq> [])
     \<and> (case wrapper_prefix_len whole of
          None \<Rightarrow> \<not> fs_prefix s \<and> fs_buf s = whole \<and> out = []
        | Some n \<Rightarrow> fs_prefix s \<and> out = take (held_from (drop n whole)) (drop n whole)
            \<and> fs_buf s = drop (held_from (drop n whole)) (drop n whole))"

lemma take_past: "length a = k \<Longrightarrow> take (k + n) (a @ b) = a @ take n b"
  by simp

lemma drop_past: "length a = k \<Longrightarrow> drop (k + n) (a @ b) = drop n b"
  by simp

lemma fed_step:
  assumes "fed whole out s"
  shows "fed (whole @ f) (out @ fst (format_feed f s)) (snd (format_feed f s))"
proof (cases "wrapper_prefix_len whole")
  case None
  with assms have s: "fs_wrapped s" "\<not> fs_sent s" "\<not> fs_prefix s" "fs_buf s = whole" "out = []"
    by (simp_all add: fed_def)
  show ?thesis
    by (cases "wrapper_prefix_len (whole @ f)")
      (simp_all add: fed_def format_feed_def feed_fragment_def s Let_def)
next
  case (Some n)
  let ?w = "drop n whole"
  from assms Some have s: "fs_wrapped s" "fs_prefix s" "out = take (held_from ?w) ?w" "fs_buf s = drop (held_from ?w) ?w"
    and sent: "fs_sent s = (out \<noteq> [])" by (simp_all add: fed_def)
  from wrapper_prefix_append [OF Some] have n: "wrapper_prefix_len (whole @ f) = Some n" "n < length whole" by simp_all
  then have d: "drop n (whole @ f) = ?w @ f" by simp
  let ?b = "drop (held_from ?w) ?w @ f"
  have feed: "format_feed f s = (take (held_from ?b) ?b,
      s\<lparr>fs_buf := drop (held_from ?b) ?b, fs_prefix := True, fs_sent := fs_sent s \<or> take (held_from ?b) ?b \<noteq> []\<rparr>)"
    by (simp add: format_feed_def feed_fragment_def s(1,2,4) Let_def)
  have whole: "?w @ f = take (held_from ?w) ?w @ ?b"
    by (simp only: append_assoc [symmetric] append_take_drop_id)
  have len: "length (take (held_from ?w) ?w) = held_from ?w" using held_from_le [of ?w] by simp
  have "take (held_from (?w @ f)) (?w @ f) = take (held_from ?w) ?w @ take (held_from ?b) ?b"
    unfolding held_from_append [of ?w f] by (subst whole, rule take_past [OF len])
  moreover have "drop (held_from (?w @ f)) (?w @ f) = drop (held_from ?b) ?b"
    unfolding held_from_append [of ?w f] by (subst whole, rule drop_past [OF len])
  ultimately show ?thesis
    unfolding fed_def n(1) option.case d feed fst_conv snd_conv using s(1,2) sent by (simp add: s(3))
qed

lemma fed_feeds: "fed whole out s \<Longrightarrow> fed (whole @ concat fs) (out @ fst (format_feeds fs s)) (snd (format_feeds fs s))"
proof (induction fs arbitrary: whole out s)
  case (Cons f fs)
  from Cons.IH [OF fed_step [OF Cons.prems, of f]] show ?case
    by (simp add: Let_def case_prod_beta)
qed simp

lemma unwrapped_feeds:
  "\<not> fs_wrapped s \<Longrightarrow> fs_prefix s \<Longrightarrow>
   fst (format_feeds fs s) = concat fs \<and> fs_prefix (snd (format_feeds fs s))
   \<and> fs_sent (snd (format_feeds fs s)) = (fs_sent s \<or> concat fs \<noteq> [])"
proof (induction fs arbitrary: s)
  case (Cons f fs)
  let ?s = "snd (format_feed f s)"
  have f: "format_feed f s = (f, s\<lparr>fs_sent := fs_sent s \<or> f \<noteq> []\<rparr>)"
    using Cons.prems by (simp add: format_feed_def feed_fragment_def)
  from Cons.IH [of ?s] Cons.prems show ?case by (auto simp: f Let_def split: prod.split)
qed simp

lemma streamed_answer_text: "streamed_answer wrapped frags = answer_text wrapped (concat frags)"
proof (cases wrapped)
  case False
  with unwrapped_feeds [of "new_format_stream False" frags] show ?thesis
    by (auto simp: streamed_answer_def answer_text_def new_format_stream_def format_flush_def Let_def split: prod.split)
next
  case True
  have "fed [] [] (new_format_stream True)"
    by (simp add: fed_def new_format_stream_def wrapper_prefix_len_def skip_space_def opener_def has_prefix_def)
  from fed_feeds [OF this, of frags] True show ?thesis
    by (auto simp: fed_def streamed_answer_def answer_text_def format_flush_def Let_def split: prod.split option.splits)
qed

lemma unwrapped_value:
  assumes v: "v \<noteq> []" "\<not> json_space (hd v)" "\<not> json_space (last v)"
  shows "answer_text True (concat opener @ v @ [CHR 0x7D]) = v"
proof -
  from v have s: "dropWhile json_space (v @ t) = v @ t" for t by (cases v) simp_all
  have c: "\<not> json_space CHR 0x7B" "\<not> json_space CHR 0x22" "\<not> json_space CHR 0x3A"
    by (simp_all add: json_space_def)
  have p: "wrapper_prefix_len (concat opener @ v @ [CHR 0x7D]) = Some (length (concat opener))"
    by (simp add: wrapper_prefix_len_def opener_def has_prefix_def skip_space_def s c)
  have "held_from (v @ [CHR 0x7D]) = length v" by (simp add: held_from_def json_space_def Let_def)
  with v show ?thesis by (simp add: answer_text_def p)
qed

section \<open>Properties\<close>

text \<open>C31: However the upstream cuts the input of the synthetic tool into fragments, the client is
  sent the same content: the text without the wrapper around it, or the bytes as they came
  when they are no wrapper, and never nothing. A wrapped value comes out as it was sent.\<close>

theorem streamed_answer_ignores_the_cuts:
  "streamed_answer wrapped frags = answer_text wrapped (concat frags)
   \<and> answer_text wrapped (concat frags) \<noteq> []
   \<and> (if v \<noteq> [] \<and> \<not> json_space (hd v) \<and> \<not> json_space (last v)
      then streamed_answer True [concat opener @ v @ [CHR 0x7D]] = v else True)"
proof -
  have "answer_text wrapped (concat frags) \<noteq> []" by (simp add: answer_text_def Let_def)
  then show ?thesis unfolding streamed_answer_text using unwrapped_value [of v] by simp
qed

end
