(* ===== verification/ImageSlots.thy ===== *)
theory ImageSlots
  imports Prelude
begin

text \<open>
  \<open>internal/provider/images.go\<close>: the slots that bound the image fetches of the process. Every
  acquirer is a process of a step relation: each region under the mutex is one step, each
  use of the semaphore channel another, and any two may interleave. A wake channel that is
  closed and replaced is a generation number, and a parked acquirer keeps the one it read.
\<close>

definition defaultImageMaxConcurrent where "defaultImageMaxConcurrent = (16::int)"

definition max_concurrent :: "int \<Rightarrow> nat" where
  "max_concurrent cfg = nat (if cfg > 0 then cfg else defaultImageMaxConcurrent)"

definition tenant_share :: "int \<Rightarrow> nat" where
  "tenant_share cfg = (if max_concurrent cfg div 2 > 0 then max_concurrent cfg div 2 else 1)"

datatype acquirer =
    Arriving | Queued | Admitted | GivingUp | Parked nat | Fetching | Drained | Finished | TurnedAway

record ('p, 't) slots =
  sl_sem :: nat
  sl_inflight :: "'t \<rightharpoonup> nat"
  sl_queued :: "'t \<rightharpoonup> nat"
  sl_waiting :: nat
  sl_wake :: nat
  sl_at :: "'p \<Rightarrow> acquirer"

definition entry :: "('t \<rightharpoonup> nat) \<Rightarrow> 't \<Rightarrow> nat" where
  "entry m t = (case m t of None \<Rightarrow> 0 | Some n \<Rightarrow> n)"

definition raise_entry :: "'t \<Rightarrow> ('t \<rightharpoonup> nat) \<Rightarrow> ('t \<rightharpoonup> nat)" where
  "raise_entry t m = m(t \<mapsto> entry m t + 1)"

definition dequeue :: "'t \<Rightarrow> ('t \<rightharpoonup> nat) \<Rightarrow> ('t \<rightharpoonup> nat)" where
  "dequeue t m = (let n = entry m t - 1 in if n > 0 then m(t \<mapsto> n) else m(t := None))"

definition new_slots :: "('p, 't) slots" where
  "new_slots = \<lparr>sl_sem = 0, sl_inflight = Map.empty, sl_queued = Map.empty, sl_waiting = 0, sl_wake = 0,
     sl_at = (\<lambda>p. Arriving)\<rparr>"

definition broadcast :: "('p, 't) slots \<Rightarrow> ('p, 't) slots" where
  "broadcast s = s\<lparr>sl_wake := sl_wake s + 1\<rparr>"

definition wake_if_queue_empty :: "('p, 't) slots \<Rightarrow> ('p, 't) slots" where
  "wake_if_queue_empty s = (if sl_waiting s = 0 then broadcast s else s)"

definition move :: "'p \<Rightarrow> acquirer \<Rightarrow> ('p, 't) slots \<Rightarrow> ('p, 't) slots" where
  "move p a s = s\<lparr>sl_at := (sl_at s)(p := a)\<rparr>"

text \<open>One pass of the loop of \<open>acquire\<close> under the mutex.\<close>

definition acquire_pass :: "int \<Rightarrow> 't \<Rightarrow> 'p \<Rightarrow> ('p, 't) slots \<Rightarrow> ('p, 't) slots" where
  "acquire_pass cfg t p s =
     (if entry (sl_inflight s) t + entry (sl_queued s) t < tenant_share cfg
      then move p Queued (s\<lparr>sl_waiting := sl_waiting s + 1, sl_queued := raise_entry t (sl_queued s)\<rparr>)
      else if sl_waiting s = 0 \<and> sl_sem s < max_concurrent cfg
      then move p Fetching (s\<lparr>sl_sem := sl_sem s + 1, sl_inflight := raise_entry t (sl_inflight s)\<rparr>)
      else move p (Parked (sl_wake s)) s)"

definition enter_slot :: "'t \<Rightarrow> 'p \<Rightarrow> ('p, 't) slots \<Rightarrow> ('p, 't) slots" where
  "enter_slot t p s =
     move p Fetching (wake_if_queue_empty
       (s\<lparr>sl_waiting := sl_waiting s - 1, sl_queued := dequeue t (sl_queued s),
          sl_inflight := raise_entry t (sl_inflight s)\<rparr>))"

definition leave_queue :: "'t \<Rightarrow> 'p \<Rightarrow> ('p, 't) slots \<Rightarrow> ('p, 't) slots" where
  "leave_queue t p s =
     move p TurnedAway (broadcast (s\<lparr>sl_waiting := sl_waiting s - 1, sl_queued := dequeue t (sl_queued s)\<rparr>))"

definition free_slot :: "'t \<Rightarrow> 'p \<Rightarrow> ('p, 't) slots \<Rightarrow> ('p, 't) slots" where
  "free_slot t p s = move p Finished (broadcast (s\<lparr>sl_inflight := dequeue t (sl_inflight s)\<rparr>))"

text \<open>What the process \<open>p\<close> does next; \<open>expires\<close> says that its own wait is what ends first.\<close>

definition slot_step :: "int \<Rightarrow> 't \<Rightarrow> bool \<Rightarrow> 'p \<Rightarrow> ('p, 't) slots \<Rightarrow> ('p, 't) slots option" where
  "slot_step cfg t expires p s =
     (case sl_at s p of
        Arriving \<Rightarrow> if expires then None else Some (acquire_pass cfg t p s)
      | Queued \<Rightarrow>
          if expires then Some (move p GivingUp s)
          else if sl_sem s < max_concurrent cfg then Some (move p Admitted (s\<lparr>sl_sem := sl_sem s + 1\<rparr>))
          else None
      | Admitted \<Rightarrow> if expires then None else Some (enter_slot t p s)
      | GivingUp \<Rightarrow> if expires then None else Some (leave_queue t p s)
      | Parked g \<Rightarrow>
          if expires then Some (move p TurnedAway s)
          else if g \<noteq> sl_wake s then Some (move p Arriving s)
          else None
      | Fetching \<Rightarrow> if expires then None else Some (move p Drained (s\<lparr>sl_sem := sl_sem s - 1\<rparr>))
      | Drained \<Rightarrow> if expires then None else Some (free_slot t p s)
      | Finished \<Rightarrow> None
      | TurnedAway \<Rightarrow> None)"

inductive slots_reach :: "int \<Rightarrow> ('p \<Rightarrow> 't) \<Rightarrow> ('p, 't) slots \<Rightarrow> bool" for cfg tenant where
  none_yet: "slots_reach cfg tenant new_slots"
| one_more: "slots_reach cfg tenant s \<Longrightarrow> slot_step cfg (tenant p) expires p s = Some s' \<Longrightarrow> slots_reach cfg tenant s'"

text \<open>A schedule says who moves next, and whether their wait expires.\<close>

fun run_schedule :: "int \<Rightarrow> ('p \<Rightarrow> 't) \<Rightarrow> ('p \<times> bool) list \<Rightarrow> ('p, 't) slots \<Rightarrow> ('p, 't) slots option" where
  "run_schedule cfg tenant [] s = Some s"
| "run_schedule cfg tenant ((p, expires) # sched) s =
     (case slot_step cfg (tenant p) expires p s of
        None \<Rightarrow> None
      | Some s' \<Rightarrow> run_schedule cfg tenant sched s')"

lemma run_schedule_reaches:
  "slots_reach cfg tenant s \<Longrightarrow> run_schedule cfg tenant sched s = Some s' \<Longrightarrow> slots_reach cfg tenant s'"
proof (induction sched arbitrary: s)
  case (Cons m sched)
  obtain p expires where m: "m = (p, expires)" by (cases m)
  with Cons.prems(2) obtain r where "slot_step cfg (tenant p) expires p s = Some r"
    "run_schedule cfg tenant sched r = Some s'" by (auto split: option.splits)
  with Cons.IH [OF one_more [OF Cons.prems(1)]] show ?case by blast
qed simp

section \<open>Who is where\<close>

definition in_queue :: "acquirer \<Rightarrow> bool" where
  "in_queue a \<longleftrightarrow> a = Queued \<or> a = Admitted \<or> a = GivingUp"

definition has_slot :: "acquirer \<Rightarrow> bool" where
  "has_slot a \<longleftrightarrow> a = Admitted \<or> a = Fetching"

definition in_flight :: "acquirer \<Rightarrow> bool" where
  "in_flight a \<longleftrightarrow> a = Fetching \<or> a = Drained"

definition over :: "('p::finite, 't) slots \<Rightarrow> (acquirer \<Rightarrow> bool) \<Rightarrow> nat" where
  "over s Q = card {p. Q (sl_at s p)}"

definition over_of :: "('p::finite \<Rightarrow> 't) \<Rightarrow> 't \<Rightarrow> ('p, 't) slots \<Rightarrow> (acquirer \<Rightarrow> bool) \<Rightarrow> nat" where
  "over_of tenant t s Q = card {p. tenant p = t \<and> Q (sl_at s p)}"

definition tallies :: "('t \<rightharpoonup> nat) \<Rightarrow> ('t \<Rightarrow> nat) \<Rightarrow> bool" where
  "tallies m c \<longleftrightarrow> m = (\<lambda>t. if c t = 0 then None else Some (c t))"

definition sleeper_ok :: "int \<Rightarrow> ('p::finite \<Rightarrow> 't) \<Rightarrow> ('p, 't) slots \<Rightarrow> 'p \<Rightarrow> bool" where
  "sleeper_ok cfg tenant s p \<longleftrightarrow>
     sl_at s p = Parked (sl_wake s) \<longrightarrow>
       tenant_share cfg \<le> entry (sl_inflight s) (tenant p) + entry (sl_queued s) (tenant p)
       \<and> (0 < sl_waiting s \<or> max_concurrent cfg \<le> sl_sem s \<or> (\<exists>q. sl_at s q = Drained))"

text \<open>The four tallies agree with where the acquirers are.\<close>

definition tallied :: "('p::finite \<Rightarrow> 't) \<Rightarrow> ('p, 't) slots \<Rightarrow> bool" where
  "tallied tenant s \<longleftrightarrow>
     sl_sem s = over s has_slot \<and> sl_waiting s = over s in_queue
     \<and> tallies (sl_queued s) (\<lambda>t. over_of tenant t s in_queue)
     \<and> tallies (sl_inflight s) (\<lambda>t. over_of tenant t s in_flight)"

definition rested :: "int \<Rightarrow> ('p::finite \<Rightarrow> 't) \<Rightarrow> ('p, 't) slots \<Rightarrow> bool" where
  "rested cfg tenant s \<longleftrightarrow>
     (\<forall>p g. sl_at s p = Parked g \<longrightarrow> g \<le> sl_wake s) \<and> (\<forall>p. sleeper_ok cfg tenant s p)"

definition slots_inv :: "int \<Rightarrow> ('p::finite \<Rightarrow> 't) \<Rightarrow> ('p, 't) slots \<Rightarrow> bool" where
  "slots_inv cfg tenant s \<longleftrightarrow>
     tallied tenant s \<and> sl_sem s \<le> max_concurrent cfg
     \<and> rested cfg tenant s"

lemma card_move:
  fixes f :: "'p::finite \<Rightarrow> 'a"
  shows "card {q. R q \<and> Q ((f(p := x)) q)} + (if R p \<and> Q (f p) then 1 else 0)
       = card {q. R q \<and> Q (f q)} + (if R p \<and> Q x then 1 else 0)"
proof -
  have split: "card {q. R q \<and> Q (g q)} = card {q. q \<noteq> p \<and> R q \<and> Q (g q)} + (if R p \<and> Q (g p) then 1 else 0)"
    for g :: "'p \<Rightarrow> 'a"
  proof -
    have "{q. R q \<and> Q (g q)} = {q. q \<noteq> p \<and> R q \<and> Q (g q)} \<union> (if R p \<and> Q (g p) then {p} else {})" by auto
    then show ?thesis by (simp add: card_Un_disjoint)
  qed
  have "{q. q \<noteq> p \<and> R q \<and> Q ((f(p := x)) q)} = {q. q \<noteq> p \<and> R q \<and> Q (f q)}" by auto
  then show ?thesis unfolding split [of "f(p := x)"] split [of f] fun_upd_same by simp
qed

lemma over_move:
  assumes "sl_at s p = a" "sl_at r = sl_at s"
  shows "over (move p b r) Q + (if Q a then 1 else 0) = over s Q + (if Q b then 1 else 0)"
  using card_move [of "\<lambda>q. True" Q "sl_at s" p b] assms by (simp add: over_def move_def)

lemma over_of_move:
  assumes "sl_at s p = a" "sl_at r = sl_at s"
  shows "over_of tenant t (move p b r) Q + (if tenant p = t \<and> Q a then 1 else 0)
       = over_of tenant t s Q + (if tenant p = t \<and> Q b then 1 else 0)"
  using card_move [of "\<lambda>q. tenant q = t" Q "sl_at s" p b] assms by (simp add: over_of_def move_def)

lemma tallies_entry: "tallies m c \<Longrightarrow> entry m t = c t"
  by (simp add: tallies_def entry_def)

definition shift :: "bool \<Rightarrow> bool \<Rightarrow> 't \<Rightarrow> ('t \<rightharpoonup> nat) \<Rightarrow> ('t \<rightharpoonup> nat)" where
  "shift x y t m = (if x = y then m else if y then raise_entry t m else dequeue t m)"

lemma tallies_shift:
  assumes m: "tallies m c"
    and c': "\<And>u. c' u + (if t = u \<and> x then 1 else 0) = c u + (if t = u \<and> y then 1 else 0)"
  shows "tallies (shift x y t m) c'"
  unfolding tallies_def
proof
  fix u
  have mu: "m v = (if c v = 0 then None else Some (c v))" for v using m by (simp add: tallies_def)
  show "shift x y t m u = (if c' u = 0 then None else Some (c' u))"
  proof (cases "u = t")
    case True
    with c' [of t] show ?thesis
      by (cases x; cases y) (auto simp: shift_def raise_entry_def dequeue_def Let_def tallies_entry [OF m] mu)
  next
    case False
    with c' [of u] have "c' u = c u" by simp
    with False show ?thesis by (auto simp: shift_def raise_entry_def dequeue_def Let_def mu)
  qed
qed

lemma tallied_move:
  assumes s: "tallied tenant s" and p: "sl_at s p = a" and r: "sl_at r = sl_at s"
    and sem: "sl_sem r + (if has_slot a then 1 else 0) = sl_sem s + (if has_slot b then 1 else 0)"
    and waiting: "sl_waiting r + (if in_queue a then 1 else 0) = sl_waiting s + (if in_queue b then 1 else 0)"
    and queued: "sl_queued r = shift (in_queue a) (in_queue b) (tenant p) (sl_queued s)"
    and inflight: "sl_inflight r = shift (in_flight a) (in_flight b) (tenant p) (sl_inflight s)"
  shows "tallied tenant (move p b r)"
proof -
  have "over (move p b r) has_slot = sl_sem r" "over (move p b r) in_queue = sl_waiting r"
    using over_move [OF p r, of b has_slot] over_move [OF p r, of b in_queue] sem waiting s
    by (simp_all add: tallied_def)
  moreover have "tallies (sl_queued r) (\<lambda>t. over_of tenant t (move p b r) in_queue)"
    unfolding queued using s by (intro tallies_shift) (auto simp: tallied_def over_of_move [OF p r])
  moreover have "tallies (sl_inflight r) (\<lambda>t. over_of tenant t (move p b r) in_flight)"
    unfolding inflight using s by (intro tallies_shift) (auto simp: tallied_def over_of_move [OF p r])
  ultimately show ?thesis by (simp add: tallied_def move_def)
qed

lemma over_pos: "Q (sl_at s p) \<Longrightarrow> 0 < over s Q"
  by (auto simp: over_def card_gt_0_iff)

text \<open>Every step keeps the tallies and the ceiling.\<close>

lemmas where_it_is = in_queue_def has_slot_def in_flight_def shift_def

lemma tallied_step:
  assumes s: "tallied tenant s" "sl_sem s \<le> max_concurrent cfg"
    and step: "slot_step cfg (tenant p) expires p s = Some s'"
  shows "tallied tenant s' \<and> sl_sem s' \<le> max_concurrent cfg"
proof (cases "sl_at s p")
  case Arriving
  with step have s': "s' = acquire_pass cfg (tenant p) p s" by (simp add: slot_step_def split: if_splits)
  show ?thesis unfolding s' acquire_pass_def
    using s(2) by (auto intro!: tallied_move [OF s(1) Arriving] simp: where_it_is) (simp_all add: move_def)
next
  case Queued
  with step s(2) show ?thesis
    by (auto intro!: tallied_move [OF s(1) Queued] simp: slot_step_def where_it_is split: if_splits) (simp_all add: move_def)
next
  case Admitted
  from over_pos [of in_queue s p] s(1) Admitted have "0 < sl_waiting s" by (simp add: in_queue_def tallied_def)
  with step s(2) Admitted show ?thesis
    by (auto intro!: tallied_move [OF s(1) Admitted]
        simp: slot_step_def enter_slot_def wake_if_queue_empty_def broadcast_def where_it_is split: if_splits)
      (simp_all add: move_def)
next
  case GivingUp
  from over_pos [of in_queue s p] s(1) GivingUp have "0 < sl_waiting s" by (simp add: in_queue_def tallied_def)
  with step s(2) GivingUp show ?thesis
    by (auto intro!: tallied_move [OF s(1) GivingUp]
        simp: slot_step_def leave_queue_def broadcast_def where_it_is split: if_splits) (simp_all add: move_def)
next
  case (Parked g)
  with step s(2) show ?thesis
    by (auto intro!: tallied_move [OF s(1) Parked] simp: slot_step_def where_it_is split: if_splits) (simp_all add: move_def)
next
  case Fetching
  from over_pos [of has_slot s p] s(1) Fetching have "0 < sl_sem s" by (simp add: has_slot_def tallied_def)
  with step s(2) Fetching show ?thesis
    by (auto intro!: tallied_move [OF s(1) Fetching] simp: slot_step_def where_it_is split: if_splits) (simp_all add: move_def)
next
  case Drained
  with step s(2) show ?thesis
    by (auto intro!: tallied_move [OF s(1) Drained]
        simp: slot_step_def free_slot_def broadcast_def where_it_is split: if_splits) (simp_all add: move_def)
qed (use step in \<open>simp_all add: slot_step_def\<close>)

section \<open>Nobody sleeps through a slot\<close>

lemma entry_raise [simp]: "entry (raise_entry t m) u = entry m u + (if u = t then 1 else 0)"
  by (simp add: raise_entry_def entry_def)

lemma entry_dequeue [simp]: "entry (dequeue t m) u = entry m u - (if u = t then 1 else 0)"
  by (simp add: dequeue_def entry_def Let_def split: option.splits)

text \<open>After a broadcast there is nobody left to wake.\<close>

lemma awake_after_broadcast:
  assumes rested: "rested cfg tenant s"
    and r: "sl_at r = sl_at s" "sl_wake r = sl_wake s + 1" and b: "\<And>g. b \<noteq> Parked g"
  shows "rested cfg tenant (move p b r)"
proof -
  have "sl_at (move p b r) q = Parked g \<Longrightarrow> g \<le> sl_wake s" for q g
    using rested b r(1) by (auto simp: rested_def move_def split: if_splits)
  moreover have "sl_wake (move p b r) = sl_wake s + 1" using r(2) by (simp add: move_def)
  ultimately show ?thesis unfolding rested_def sleeper_ok_def by fastforce
qed

text \<open>A step that keeps the generation, and frees nothing a sleeper could take.\<close>

lemma asleep_after_step:
  assumes rested: "rested cfg tenant s"
    and r: "sl_at r = sl_at s" "sl_wake r = sl_wake s" and b: "\<And>g. b \<noteq> Parked g" and a: "sl_at s p \<noteq> Drained"
    and total: "\<And>t. entry (sl_inflight s) t + entry (sl_queued s) t \<le> entry (sl_inflight r) t + entry (sl_queued r) t"
    and busy: "0 < sl_waiting s \<Longrightarrow> 0 < sl_waiting r" "b = Drained \<or> sl_sem s \<le> sl_sem r"
  shows "rested cfg tenant (move p b r)"
proof -
  have m: "sl_at (move p b r) = (sl_at s)(p := b)" "sl_wake (move p b r) = sl_wake s" using r by (simp_all add: move_def)
  have f: "sl_waiting (move p b r) = sl_waiting r" "sl_sem (move p b r) = sl_sem r"
    "sl_inflight (move p b r) = sl_inflight r" "sl_queued (move p b r) = sl_queued r" by (simp_all add: move_def)
  have "sleeper_ok cfg tenant (move p b r) q" for q
    unfolding sleeper_ok_def m f
  proof
    assume asleep: "((sl_at s)(p := b)) q = Parked (sl_wake s)"
    with b have "sl_at s q = Parked (sl_wake s)" by (auto split: if_splits)
    with rested have o: "tenant_share cfg \<le> entry (sl_inflight s) (tenant q) + entry (sl_queued s) (tenant q)"
      "0 < sl_waiting s \<or> max_concurrent cfg \<le> sl_sem s \<or> (\<exists>q. sl_at s q = Drained)"
      by (auto simp: rested_def sleeper_ok_def)
    have "0 < sl_waiting r \<or> max_concurrent cfg \<le> sl_sem r \<or> (\<exists>q. ((sl_at s)(p := b)) q = Drained)"
      using o(2) busy a by (metis fun_upd_apply order_trans)
    with order_trans [OF o(1) total] show
      "tenant_share cfg \<le> entry (sl_inflight r) (tenant q) + entry (sl_queued r) (tenant q)
       \<and> (0 < sl_waiting r \<or> max_concurrent cfg \<le> sl_sem r \<or> (\<exists>q. ((sl_at s)(p := b)) q = Drained))" ..
  qed
  moreover have "sl_at (move p b r) q = Parked g \<Longrightarrow> g \<le> sl_wake (move p b r)" for q g
    using rested b unfolding m rested_def by (auto split: if_splits)
  ultimately show ?thesis unfolding rested_def by blast
qed

lemma slots_inv_step:
  assumes inv: "slots_inv cfg tenant s" and step: "slot_step cfg (tenant p) expires p s = Some s'"
  shows "slots_inv cfg tenant s'"
proof -
  from inv have t: "tallied tenant s" "sl_sem s \<le> max_concurrent cfg"
    and r: "rested cfg tenant s" by (simp_all add: slots_inv_def)
  note still = asleep_after_step [OF r] and woken = awake_after_broadcast [OF r]
  have "rested cfg tenant s'"
  proof (cases "sl_at s p")
    case Arriving
    with step have s': "s' = acquire_pass cfg (tenant p) p s" by (simp add: slot_step_def split: if_splits)
    show ?thesis
    proof (cases "entry (sl_inflight s) (tenant p) + entry (sl_queued s) (tenant p) < tenant_share cfg
        \<or> (sl_waiting s = 0 \<and> sl_sem s < max_concurrent cfg)")
      case True
      then show ?thesis unfolding s' acquire_pass_def using Arriving by (auto intro!: still)
    next
      case False
      then have "s' = move p (Parked (sl_wake s)) s" using False by (auto simp: s' acquire_pass_def)
      with False Arriving r show ?thesis by (auto simp: rested_def sleeper_ok_def move_def)
    qed
  next
    case Queued
    with step show ?thesis by (auto intro!: still simp: slot_step_def split: if_splits)
  next
    case Admitted
    from over_pos [of in_queue s p] t(1) Admitted have q: "0 < over_of tenant (tenant p) s in_queue"
      by (auto simp: in_queue_def over_of_def card_gt_0_iff)
    then have e: "1 \<le> entry (sl_queued s) (tenant p)"
      using t(1) tallies_entry [of "sl_queued s" "\<lambda>t. over_of tenant t s in_queue"] by (simp add: tallied_def)
    from Admitted step have s': "s' = enter_slot (tenant p) p s" by (simp add: slot_step_def split: if_splits)
    show ?thesis
    proof (cases "sl_waiting s - 1 = 0")
      case True
      then show ?thesis unfolding s' enter_slot_def wake_if_queue_empty_def broadcast_def by (auto intro!: woken)
    next
      case False
      with e Admitted show ?thesis unfolding s' enter_slot_def wake_if_queue_empty_def by (auto intro!: still)
    qed
  next
    case (Parked g)
    with step show ?thesis
      by (auto intro!: still simp: slot_step_def split: if_splits)
  next
    case GivingUp
    with step show ?thesis by (auto intro!: woken simp: slot_step_def leave_queue_def broadcast_def split: if_splits)
  next
    case Fetching
    with step show ?thesis by (auto intro!: still simp: slot_step_def split: if_splits)
  next
    case Drained
    with step show ?thesis by (auto intro!: woken simp: slot_step_def free_slot_def broadcast_def split: if_splits)
  qed (use step in \<open>simp_all add: slot_step_def\<close>)
  with tallied_step [OF t step] show ?thesis by (simp add: slots_inv_def)
qed

lemma slots_inv_new: "slots_inv cfg tenant new_slots"
  by (simp add: slots_inv_def rested_def tallied_def new_slots_def over_def over_of_def tallies_def sleeper_ok_def where_it_is)

lemma slots_reach_inv: "slots_reach cfg tenant s \<Longrightarrow> slots_inv cfg tenant s"
  by (induction rule: slots_reach.induct) (auto intro: slots_inv_new slots_inv_step)

section \<open>Runs in which nobody runs out of patience\<close>

definition patient :: "int \<Rightarrow> ('p::finite \<Rightarrow> 't) \<Rightarrow> (('p, 't) slots \<times> ('p, 't) slots) set" where
  "patient cfg tenant = {(s', s). \<exists>p. slot_step cfg (tenant p) False p s = Some s'}"

text \<open>What is left of each acquirer's way, and how often the sleepers may still look.\<close>

fun way_left :: "acquirer \<Rightarrow> nat" where
  "way_left Arriving = 5"
| "way_left (Parked g) = 5"
| "way_left Queued = 4"
| "way_left Admitted = 3"
| "way_left GivingUp = 3"
| "way_left Fetching = 2"
| "way_left Drained = 1"
| "way_left Finished = 0"
| "way_left TurnedAway = 0"

definition looks_left :: "nat \<Rightarrow> acquirer \<Rightarrow> nat" where
  "looks_left wake a = (case a of Arriving \<Rightarrow> 1 | Parked g \<Rightarrow> if g = wake then 0 else 2 | _ \<Rightarrow> 0)"

definition all_way :: "('p::finite, 't) slots \<Rightarrow> nat" where
  "all_way s = (\<Sum>p\<in>UNIV. way_left (sl_at s p))"

definition all_looks :: "('p::finite, 't) slots \<Rightarrow> nat" where
  "all_looks s = (\<Sum>p\<in>UNIV. looks_left (sl_wake s) (sl_at s p))"

lemma sum_move:
  fixes f :: "'p::finite \<Rightarrow> 'a" and w :: "'a \<Rightarrow> nat"
  shows "(\<Sum>q\<in>UNIV. w ((f(p := x)) q)) + w (f p) = (\<Sum>q\<in>UNIV. w (f q)) + w x"
proof -
  have "(\<Sum>q\<in>UNIV. w (g q)) = w (g p) + (\<Sum>q\<in>UNIV - {p}. w (g q))" for g :: "'p \<Rightarrow> 'a"
    by (rule sum.remove) simp_all
  from this [of f] this [of "f(p := x)"] show ?thesis by simp
qed

lemma way_shrinks:
  assumes "sl_at r = sl_at s" "way_left b < way_left (sl_at s p)"
  shows "all_way (move p b r) < all_way s"
  using sum_move [of way_left "sl_at s" p b] assms by (simp add: all_way_def move_def)

lemma looks_shrink:
  assumes "way_left b = way_left (sl_at s p)" "looks_left (sl_wake s) b < looks_left (sl_wake s) (sl_at s p)"
  shows "all_way (move p b s) = all_way s" "all_looks (move p b s) < all_looks s"
  using sum_move [of way_left "sl_at s" p b] sum_move [of "looks_left (sl_wake s)" "sl_at s" p b] assms
  by (simp_all add: all_way_def all_looks_def move_def)

lemma patient_step_shrinks:
  assumes "slot_step cfg (tenant p) False p s = Some s'"
  shows "all_way s' < all_way s \<or> (all_way s' = all_way s \<and> all_looks s' < all_looks s)"
proof (cases "sl_at s p")
  case Arriving
  with assms have s': "s' = acquire_pass cfg (tenant p) p s" by (simp add: slot_step_def)
  have "all_way (move p (Parked (sl_wake s)) s) = all_way s \<and> all_looks (move p (Parked (sl_wake s)) s) < all_looks s"
    using looks_shrink [where b = "Parked (sl_wake s)" and p = p and s = s] Arriving by (simp add: looks_left_def)
  then show ?thesis unfolding s' acquire_pass_def using Arriving by (auto intro!: way_shrinks)
next
  case (Parked g)
  with assms have s': "s' = move p Arriving s" "g \<noteq> sl_wake s" by (simp_all add: slot_step_def split: if_splits)
  then show ?thesis using looks_shrink [where b = Arriving and p = p and s = s] Parked by (simp add: looks_left_def)
qed (use assms in \<open>auto intro!: way_shrinks disjI1
  simp: slot_step_def enter_slot_def wake_if_queue_empty_def broadcast_def leave_queue_def free_slot_def split: if_splits\<close>)

lemma patient_runs_end: "wf (patient cfg tenant)"
proof (rule wf_subset)
  show "wf (inv_image (less_than <*lex*> less_than) (\<lambda>s :: ('a, 'b) slots. (all_way s, all_looks s)))"
    by (intro wf_inv_image wf_lex_prod wf_less_than)
  show "patient cfg tenant \<subseteq> inv_image (less_than <*lex*> less_than) (\<lambda>s. (all_way s, all_looks s))"
    using patient_step_shrinks by (fastforce simp: patient_def)
qed

definition at_rest :: "acquirer \<Rightarrow> bool" where
  "at_rest a \<longleftrightarrow> a = Finished \<or> a = TurnedAway"

lemma max_concurrent_pos: "0 < max_concurrent cfg"
  by (simp add: max_concurrent_def defaultImageMaxConcurrent_def)

lemma over_zero: "(\<And>p. \<not> Q (sl_at s p)) \<Longrightarrow> over s Q = 0"
  by (simp add: over_def)

lemma stuck_is_done:
  assumes inv: "slots_inv cfg tenant s" and stuck: "\<And>p. slot_step cfg (tenant p) False p s = None"
  shows "at_rest (sl_at s p)"
proof -
  have moving: "sl_at s q \<noteq> Arriving \<and> sl_at s q \<noteq> Admitted \<and> sl_at s q \<noteq> GivingUp \<and> sl_at s q \<noteq> Fetching \<and> sl_at s q \<noteq> Drained"
    for q using stuck [of q] by (auto simp: slot_step_def)
  then have "over s has_slot = 0" by (intro over_zero) (simp add: has_slot_def)
  with inv have sem: "sl_sem s = 0" by (simp add: slots_inv_def tallied_def)
  have queued: "sl_at s q \<noteq> Queued" for q
    using stuck [of q] sem max_concurrent_pos by (auto simp: slot_step_def split: if_splits)
  have "over s in_queue = 0" using moving queued by (intro over_zero) (simp add: in_queue_def)
  with inv have waiting: "sl_waiting s = 0" by (simp add: slots_inv_def tallied_def)
  have "sl_at s q \<noteq> Parked g" for q g
  proof
    assume parked: "sl_at s q = Parked g"
    with stuck [of q] have "g = sl_wake s" by (auto simp: slot_step_def split: if_splits)
    with inv parked have "0 < sl_waiting s \<or> max_concurrent cfg \<le> sl_sem s \<or> (\<exists>q. sl_at s q = Drained)"
      by (auto simp: slots_inv_def rested_def sleeper_ok_def)
    with sem waiting moving max_concurrent_pos show False by (metis le_zero_eq less_irrefl)
  qed
  with moving queued show ?thesis by (cases "sl_at s p") (auto simp: at_rest_def)
qed

section \<open>Properties\<close>

text \<open>C24: However the acquirers interleave, no more of them hold a slot at once than the ceiling
  allows, fetching or about to. The counters are exactly the acquirers they count: the
  semaphore those that hold a slot, the queue length those that wait, and for each tenant the
  two maps those of its own that fetch and those that wait, with no entry for a tenant that
  has none. And a tenant that has its share is given more only while nobody entitled queues.\<close>

theorem image_slots_hold_the_ceiling:
  assumes "slots_reach cfg tenant s"
  shows "over s has_slot \<le> max_concurrent cfg
    \<and> sl_sem s = over s has_slot \<and> sl_waiting s = over s in_queue
    \<and> sl_inflight s = (\<lambda>u. if over_of tenant u s in_flight = 0 then None else Some (over_of tenant u s in_flight))
    \<and> sl_queued s = (\<lambda>u. if over_of tenant u s in_queue = 0 then None else Some (over_of tenant u s in_queue))
    \<and> (case slot_step cfg (tenant p) expires p s of
         None \<Rightarrow> True
       | Some s' \<Rightarrow>
           if tenant_share cfg \<le> over_of tenant t s in_flight + over_of tenant t s in_queue
              \<and> over_of tenant t s in_flight + over_of tenant t s in_queue
                < over_of tenant t s' in_flight + over_of tenant t s' in_queue
           then over s in_queue = 0 else True)"
proof -
  note inv = slots_reach_inv [OF assms]
  then have t: "tallied tenant s" "sl_sem s \<le> max_concurrent cfg" by (simp_all add: slots_inv_def)
  have "case slot_step cfg (tenant p) expires p s of None \<Rightarrow> True | Some s' \<Rightarrow>
      if tenant_share cfg \<le> over_of tenant t s in_flight + over_of tenant t s in_queue
         \<and> over_of tenant t s in_flight + over_of tenant t s in_queue
           < over_of tenant t s' in_flight + over_of tenant t s' in_queue
      then over s in_queue = 0 else True"
  proof (cases "slot_step cfg (tenant p) expires p s")
    case (Some s')
    from slots_inv_step [OF inv Some] have t': "tallied tenant s'" by (simp add: slots_inv_def)
    have e: "entry (sl_inflight r) t + entry (sl_queued r) t = over_of tenant t r in_flight + over_of tenant t r in_queue"
      if "tallied tenant r" for r
      using that tallies_entry [of "sl_inflight r" "\<lambda>t. over_of tenant t r in_flight"]
        tallies_entry [of "sl_queued r" "\<lambda>t. over_of tenant t r in_queue"] by (simp add: tallied_def)
    have "entry (sl_inflight s') t + entry (sl_queued s') t \<le> entry (sl_inflight s) t + entry (sl_queued s) t"
      if "tenant_share cfg \<le> entry (sl_inflight s) t + entry (sl_queued s) t" "sl_waiting s \<noteq> 0"
    proof -
      have "0 < entry (sl_queued s) (tenant p)" if "sl_at s p = Admitted"
        using t(1) that tallies_entry [of "sl_queued s" "\<lambda>t. over_of tenant t s in_queue"]
        by (auto simp: tallied_def over_of_def card_gt_0_iff in_queue_def)
      with Some that show ?thesis
        by (cases "t = tenant p"; cases "sl_at s p")
          (auto simp: slot_step_def acquire_pass_def enter_slot_def wake_if_queue_empty_def broadcast_def
             leave_queue_def free_slot_def move_def split: if_splits)
    qed
    then have "sl_waiting s = 0" if "tenant_share cfg \<le> over_of tenant t s in_flight + over_of tenant t s in_queue"
        "over_of tenant t s in_flight + over_of tenant t s in_queue < over_of tenant t s' in_flight + over_of tenant t s' in_queue"
      using that e [OF t(1)] e [OF t'] by fastforce
    with t(1) show ?thesis unfolding Some by (simp add: tallied_def)
  qed simp
  with t show ?thesis unfolding tallied_def tallies_def by (intro conjI) simp_all
qed

text \<open>Two acquirers of one tenant and one slot: the second sleeps, is woken for nothing, sleeps
  again, and takes the slot the first gave back.\<close>

definition two_fetches :: "(bool \<times> bool) list" where
  "two_fetches = map (\<lambda>p. (p, False))
     [True, False, True, True, False, False, True, True, False, False, False, False, False, False]"

definition two_done :: "(bool, unit) slots" where
  "two_done = the (run_schedule 1 (\<lambda>p. ()) two_fetches new_slots)"

lemma two_done_is_done:
  "run_schedule 1 (\<lambda>p. ()) two_fetches new_slots \<noteq> None" "\<forall>p. at_rest (sl_at two_done p)"
proof -
  have "case run_schedule 1 (\<lambda>p. ()) two_fetches new_slots of
      None \<Rightarrow> False | Some s \<Rightarrow> at_rest (sl_at s True) \<and> at_rest (sl_at s False)"
    by code_simp
  then show "run_schedule 1 (\<lambda>p. ()) two_fetches new_slots \<noteq> None" "\<forall>p. at_rest (sl_at two_done p)"
    by (auto simp: two_done_def all_bool_eq split: option.splits)
qed

lemma two_done_reached: "slots_reach 1 (\<lambda>p. ()) two_done"
  using two_done_is_done(1) unfolding two_done_def
  by (auto intro: run_schedule_reaches [OF none_yet])

theorem image_slots_hold_the_ceiling_witness:
  "over two_done has_slot \<le> max_concurrent 1 \<and> sl_sem two_done = over two_done has_slot"
  using image_slots_hold_the_ceiling [OF two_done_reached] by blast

text \<open>C23: No image fetch is forgotten. From any state the acquirers can reach, every run in which
  no wait expires comes to an end, and it can only end once each of them was given a slot and
  gave it back, or had already been turned away: no wake-up is lost, and nobody sleeps beside
  a slot they could have.\<close>

theorem every_image_fetch_gets_its_turn:
  assumes "slots_reach cfg tenant s"
  shows "wf (patient cfg tenant)
    \<and> (if \<forall>p. slot_step cfg (tenant p) False p s = None
       then (\<forall>p. at_rest (sl_at s p)) \<and> sl_sem s = 0 \<and> sl_inflight s = Map.empty else True)"
proof -
  note inv = slots_reach_inv [OF assms]
  have "sl_sem s = 0 \<and> sl_inflight s = Map.empty" if rest: "\<And>p. at_rest (sl_at s p)"
  proof -
    have no: "\<not> has_slot (sl_at s p)" "\<not> in_flight (sl_at s p)" for p
      using rest [of p] by (auto simp: at_rest_def where_it_is)
    then have "over s has_slot = 0" "\<And>t. over_of tenant t s in_flight = 0"
      by (simp_all add: over_zero over_of_def)
    with inv show ?thesis by (simp add: slots_inv_def tallied_def tallies_def)
  qed
  with patient_runs_end stuck_is_done [OF inv] show ?thesis by (auto simp del: split_paired_All)
qed

theorem every_image_fetch_gets_its_turn_witness: "wf (patient 1 (\<lambda>p::bool. ())) \<and> sl_sem two_done = 0"
proof -
  have "slot_step 1 () False p two_done = None" for p
    using spec [OF two_done_is_done(2), of p] unfolding at_rest_def slot_step_def by auto
  with every_image_fetch_gets_its_turn [OF two_done_reached] show ?thesis by simp
qed

end
