(* ===== verification/ImageCache.thy ===== *)
theory ImageCache
  imports Prelude
begin

text \<open>
  \<open>internal/provider/imagecache.go\<close>: the cache of fetched images. The list and the map of
  pointers into it are one list here, most recently used first; that an address occurs in it
  once is part of the invariant. Each operation is one step, as the code holds the mutex.
\<close>

record image_entry =
  ie_url :: bytes
  ie_media_type :: bytes
  ie_data :: bytes
  ie_bytes :: int
  ie_expires :: time

record image_cache =
  ic_order :: "image_entry list"
  ic_max_entries :: int
  ic_max_bytes :: int
  ic_ttl :: duration
  ic_bytes :: int

definition new_image_cache :: "int \<Rightarrow> int \<Rightarrow> duration \<Rightarrow> image_cache" where
  "new_image_cache max_entries max_bytes ttl =
     \<lparr>ic_order = [],
      ic_max_entries = (if max_entries \<le> 0 then 64 else max_entries),
      ic_max_bytes = (if max_bytes \<le> 0 then 64 * 1048576 else max_bytes),
      ic_ttl = (if ttl \<le> 0 then 10 * minute else ttl),
      ic_bytes = 0\<rparr>"

definition lookup_entry :: "bytes \<Rightarrow> image_cache \<Rightarrow> image_entry option" where
  "lookup_entry url c = find (\<lambda>e. ie_url e = url) (ic_order c)"

definition remove_entry :: "image_entry \<Rightarrow> image_cache \<Rightarrow> image_cache" where
  "remove_entry e c =
     c\<lparr>ic_order := filter (\<lambda>x. ie_url x \<noteq> ie_url e) (ic_order c), ic_bytes := ic_bytes c - ie_bytes e\<rparr>"

definition image_get :: "bytes \<Rightarrow> time \<Rightarrow> image_cache \<Rightarrow> (bytes \<times> bytes) option \<times> image_cache" where
  "image_get url now c =
     (case lookup_entry url c of
        None \<Rightarrow> (None, c)
      | Some e \<Rightarrow>
          (if now > ie_expires e then (None, remove_entry e c)
           else (Some (ie_media_type e, ie_data e),
                 c\<lparr>ic_order := e # filter (\<lambda>x. ie_url x \<noteq> ie_url e) (ic_order c)\<rparr>)))"

text \<open>The loop that drops the least recently used entries.\<close>

function shrink :: "image_cache \<Rightarrow> image_cache" where
  "shrink c =
     (if int (length (ic_order c)) > ic_max_entries c \<or> ic_bytes c > ic_max_bytes c
      then (if ic_order c = [] then c else shrink (remove_entry (last (ic_order c)) c))
      else c)"
  by pat_completeness auto
termination
proof (relation "measure (\<lambda>c. length (ic_order c))")
  fix c :: image_cache
  assume "ic_order c \<noteq> []"
  then have "last (ic_order c) \<in> set (ic_order c)" by simp
  then show "(remove_entry (last (ic_order c)) c, c) \<in> measure (\<lambda>c. length (ic_order c))"
    by (auto simp: remove_entry_def intro!: length_filter_less)
qed simp

declare shrink.simps [simp del]

definition image_put :: "bytes \<Rightarrow> bytes \<Rightarrow> bytes \<Rightarrow> time \<Rightarrow> image_cache \<Rightarrow> image_cache" where
  "image_put url media_type data now c =
     (let size = int (length data) in
      if size > ic_max_bytes c then c
      else
        (let c = (case lookup_entry url c of Some e \<Rightarrow> remove_entry e c | None \<Rightarrow> c);
             e = \<lparr>ie_url = url, ie_media_type = media_type, ie_data = data, ie_bytes = size,
                  ie_expires = now + ic_ttl c\<rparr>
         in shrink (c\<lparr>ic_order := e # ic_order c, ic_bytes := ic_bytes c + size\<rparr>)))"

text \<open>What a process does with its cache, in the order of the mutex.\<close>

datatype cache_op = Get bytes time | Put bytes bytes bytes time

fun cache_run :: "cache_op list \<Rightarrow> image_cache \<Rightarrow> image_cache" where
  "cache_run [] c = c"
| "cache_run (Get url now # ops) c = cache_run ops (snd (image_get url now c))"
| "cache_run (Put url mt data now # ops) c = cache_run ops (image_put url mt data now c)"

section \<open>Invariant\<close>

definition cache_inv :: "image_cache \<Rightarrow> bool" where
  "cache_inv c \<longleftrightarrow>
     distinct (map ie_url (ic_order c)) \<and> ic_bytes c = sum_list (map ie_bytes (ic_order c))
     \<and> list_all (\<lambda>e. ie_bytes e = int (length (ie_data e))) (ic_order c)
     \<and> 0 < ic_max_entries c \<and> 0 < ic_max_bytes c \<and> 0 < ic_ttl c"

definition within_limits :: "image_cache \<Rightarrow> bool" where
  "within_limits c \<longleftrightarrow> int (length (ic_order c)) \<le> ic_max_entries c \<and> ic_bytes c \<le> ic_max_bytes c"

lemma lookup_entry_Some: "lookup_entry url c = Some e \<Longrightarrow> e \<in> set (ic_order c) \<and> ie_url e = url"
  by (auto simp: lookup_entry_def find_Some_iff)

lemma sum_without:
  "distinct (map ie_url es) \<Longrightarrow> e \<in> set es \<Longrightarrow>
   sum_list (map ie_bytes (filter (\<lambda>x. ie_url x \<noteq> ie_url e) es)) = sum_list (map ie_bytes es) - ie_bytes e"
proof (induction es)
  case (Cons x es)
  show ?case
  proof (cases "x = e")
    case True
    with Cons.prems(1) have "filter (\<lambda>y. ie_url y \<noteq> ie_url e) es = es" by (simp add: filter_id_conv) (metis image_eqI)
    with True show ?thesis by simp
  next
    case False
    with Cons.prems have "ie_url x \<noteq> ie_url e" by force
    with False Cons show ?thesis by simp
  qed
qed simp

lemma distinct_without: "distinct (map ie_url es) \<Longrightarrow> distinct (map ie_url (filter P es))"
  by (induction es) auto

lemma cache_inv_remove: "cache_inv c \<Longrightarrow> e \<in> set (ic_order c) \<Longrightarrow> cache_inv (remove_entry e c)"
  by (auto simp: cache_inv_def remove_entry_def sum_without distinct_without list_all_iff)

lemma cache_inv_shrink: "cache_inv c \<Longrightarrow> cache_inv (shrink c)"
proof (induction c rule: shrink.induct)
  case (1 c)
  have "ic_order c \<noteq> [] \<Longrightarrow> cache_inv (remove_entry (last (ic_order c)) c)" using 1(2) by (intro cache_inv_remove) simp_all
  with 1 show ?case by (subst shrink.simps) auto
qed

lemma shrink_within: "cache_inv c \<Longrightarrow> within_limits (shrink c)"
proof (induction c rule: shrink.induct)
  case (1 c)
  show ?case
  proof (cases "within_limits c \<or> ic_order c = []")
    case True
    with "1.prems" have "within_limits c" by (auto simp: within_limits_def cache_inv_def)
    then show ?thesis by (subst shrink.simps) (auto simp: within_limits_def)
  next
    case False
    then have more: "int (length (ic_order c)) > ic_max_entries c \<or> ic_bytes c > ic_max_bytes c" "ic_order c \<noteq> []"
      by (auto simp: within_limits_def)
    with "1.IH" [OF more] cache_inv_remove [OF "1.prems", of "last (ic_order c)"] show ?thesis
      by (subst shrink.simps) auto
  qed
qed

lemma shrink_config [simp]:
  "ic_max_entries (shrink c) = ic_max_entries c" "ic_max_bytes (shrink c) = ic_max_bytes c" "ic_ttl (shrink c) = ic_ttl c"
proof (induction c rule: shrink.induct)
  case (1 c)
  { case 1 then show ?case using "1.IH" by (subst shrink.simps) (simp add: remove_entry_def) }
  { case 2 then show ?case using "1.IH" by (subst shrink.simps) (simp add: remove_entry_def) }
  { case 3 then show ?case using "1.IH" by (subst shrink.simps) (simp add: remove_entry_def) }
qed

text \<open>Dropping from the back never drops the front, as long as the front alone fits.\<close>

lemma shrink_keeps_front:
  "cache_inv c \<Longrightarrow> ic_order c = e # es \<Longrightarrow> ie_bytes e \<le> ic_max_bytes c \<Longrightarrow> \<exists>es'. ic_order (shrink c) = e # es' \<and> set es' \<subseteq> set es"
proof (induction c arbitrary: es rule: shrink.induct)
  case (1 c)
  show ?case
  proof (cases "int (length (ic_order c)) > ic_max_entries c \<or> ic_bytes c > ic_max_bytes c")
    case False
    with "1.prems" show ?thesis by (subst shrink.simps) auto
  next
    case True
    have "es \<noteq> []"
    proof
      assume "es = []"
      with "1.prems" True show False by (auto simp: cache_inv_def)
    qed
    let ?r = "remove_entry (last (ic_order c)) c"
    have "last es \<in> set es" using \<open>es \<noteq> []\<close> by simp
    with "1.prems"(1,2) have "ie_url (last es) \<noteq> ie_url e" by (simp add: cache_inv_def) (metis image_eqI)
    then have r: "ic_order ?r = e # filter (\<lambda>x. ie_url x \<noteq> ie_url (last es)) es"
      using "1.prems"(2) \<open>es \<noteq> []\<close> by (simp add: remove_entry_def)
    from "1.prems"(1,2) have inv: "cache_inv ?r" by (intro cache_inv_remove) auto
    have "ic_order c \<noteq> []" "ie_bytes e \<le> ic_max_bytes ?r" using "1.prems"(2,3) by (simp_all add: remove_entry_def)
    from "1.IH" [OF True this(1) inv r this(2)] obtain es' where
      "ic_order (shrink ?r) = e # es'" "set es' \<subseteq> set (filter (\<lambda>x. ie_url x \<noteq> ie_url (last es)) es)"
      by blast
    moreover have "shrink c = shrink ?r" using True \<open>ic_order c \<noteq> []\<close> by (subst shrink.simps) simp
    ultimately show ?thesis by auto
  qed
qed

lemma shrink_subset: "set (ic_order (shrink c)) \<subseteq> set (ic_order c)"
proof (induction c rule: shrink.induct)
  case (1 c)
  then show ?case by (subst shrink.simps) (auto simp: remove_entry_def)
qed

lemma cache_inv_get: "cache_inv c \<Longrightarrow> cache_inv (snd (image_get url now c))"
proof -
  assume inv: "cache_inv c"
  show ?thesis
  proof (cases "lookup_entry url c")
    case (Some e)
    from lookup_entry_Some [OF Some] have e: "e \<in> set (ic_order c)" by simp
    with inv cache_inv_remove [OF inv e] Some show ?thesis
      by (auto simp: image_get_def cache_inv_def sum_without distinct_without list_all_iff)
  qed (use inv in \<open>simp add: image_get_def\<close>)
qed

text \<open>The cache a put shrinks: the new entry in front of what is there of other addresses.\<close>

definition pushed :: "bytes \<Rightarrow> bytes \<Rightarrow> bytes \<Rightarrow> time \<Rightarrow> image_cache \<Rightarrow> image_cache" where
  "pushed url media_type data now c =
     (let r = (case lookup_entry url c of Some e \<Rightarrow> remove_entry e c | None \<Rightarrow> c);
          e = \<lparr>ie_url = url, ie_media_type = media_type, ie_data = data, ie_bytes = int (length data),
               ie_expires = now + ic_ttl c\<rparr>
      in r\<lparr>ic_order := e # ic_order r, ic_bytes := ic_bytes r + int (length data)\<rparr>)"

lemma image_put_pushed:
  "image_put url mt data now c = (if int (length data) > ic_max_bytes c then c else shrink (pushed url mt data now c))"
  by (simp add: image_put_def pushed_def Let_def remove_entry_def split: option.split)

lemma pushed_fields:
  "ic_max_entries (pushed url mt data now c) = ic_max_entries c"
  "ic_max_bytes (pushed url mt data now c) = ic_max_bytes c" "ic_ttl (pushed url mt data now c) = ic_ttl c"
  "\<exists>es. ic_order (pushed url mt data now c) = \<lparr>ie_url = url, ie_media_type = mt, ie_data = data,
      ie_bytes = int (length data), ie_expires = now + ic_ttl c\<rparr> # es
    \<and> set es \<subseteq> {e \<in> set (ic_order c). ie_url e \<noteq> url}"
proof -
  show "\<exists>es. ic_order (pushed url mt data now c) = \<lparr>ie_url = url, ie_media_type = mt, ie_data = data,
      ie_bytes = int (length data), ie_expires = now + ic_ttl c\<rparr> # es
    \<and> set es \<subseteq> {e \<in> set (ic_order c). ie_url e \<noteq> url}"
  proof (cases "lookup_entry url c")
    case None
    then have "ie_url e \<noteq> url" if "e \<in> set (ic_order c)" for e
      using that by (auto simp: lookup_entry_def find_None_iff)
    then show ?thesis by (auto simp: pushed_def None)
  next
    case (Some e)
    with lookup_entry_Some [OF Some] show ?thesis by (auto simp: pushed_def remove_entry_def)
  qed
qed (simp_all add: pushed_def Let_def remove_entry_def split: option.split)

lemma cache_inv_pushed: "cache_inv c \<Longrightarrow> cache_inv (pushed url mt data now c)"
proof -
  assume inv: "cache_inv c"
  let ?c = "case lookup_entry url c of Some e \<Rightarrow> remove_entry e c | None \<Rightarrow> c"
  have "cache_inv ?c"
    using inv by (auto split: option.split intro!: cache_inv_remove dest: lookup_entry_Some)
  moreover have "url \<notin> ie_url ` set (ic_order ?c)"
    using pushed_fields(4) [of url mt data now c] by (auto simp: pushed_def Let_def)
  ultimately show ?thesis by (simp add: pushed_def Let_def cache_inv_def)
qed

lemma cache_inv_put: "cache_inv c \<Longrightarrow> cache_inv (image_put url mt data now c)"
  by (simp add: image_put_pushed cache_inv_shrink cache_inv_pushed)

lemma image_get_limits:
  assumes "cache_inv c" "within_limits c"
  shows "within_limits (snd (image_get url now c))"
proof (cases "lookup_entry url c")
  case (Some e)
  then have e: "e \<in> set (ic_order c)" by (rule lookup_entry_Some [THEN conjunct1])
  let ?es = "filter (\<lambda>x. ie_url x \<noteq> ie_url e) (ic_order c)"
  have "length ?es < length (ic_order c)" using e by (intro length_filter_less) auto
  moreover have "0 \<le> ie_bytes e" using assms(1) e by (auto simp: cache_inv_def list_all_iff)
  ultimately show ?thesis using Some assms(2) by (auto simp: image_get_def within_limits_def remove_entry_def)
qed (use assms in \<open>simp add: image_get_def\<close>)

lemma cache_run_inv: "cache_inv c \<Longrightarrow> within_limits c \<Longrightarrow> cache_inv (cache_run ops c) \<and> within_limits (cache_run ops c)"
proof (induction ops c rule: cache_run.induct)
  case (2 url now ops c)
  then show ?case using cache_inv_get image_get_limits by simp
next
  case (3 url mt data now ops c)
  have "within_limits (image_put url mt data now c)"
    using 3(2,3) by (simp add: image_put_pushed shrink_within cache_inv_pushed)
  with 3 cache_inv_put show ?case by simp
qed simp

section \<open>Every entry is the last image put under its address\<close>

text \<open>The last put of an address that was not too large to be kept.\<close>

fun last_put :: "int \<Rightarrow> bytes \<Rightarrow> cache_op list \<Rightarrow> (bytes \<times> bytes \<times> time) option \<Rightarrow> (bytes \<times> bytes \<times> time) option" where
  "last_put max_bytes url [] known = known"
| "last_put max_bytes url (Get u now # ops) known = last_put max_bytes url ops known"
| "last_put max_bytes url (Put u mt data now # ops) known =
     last_put max_bytes url ops (if u = url \<and> int (length data) \<le> max_bytes then Some (mt, data, now) else known)"

definition entry_of :: "duration \<Rightarrow> image_entry \<Rightarrow> (bytes \<times> bytes \<times> time) option \<Rightarrow> bool" where
  "entry_of ttl e known \<longleftrightarrow>
     (case known of None \<Rightarrow> False | Some (mt, data, t) \<Rightarrow> ie_media_type e = mt \<and> ie_data e = data \<and> ie_expires e = t + ttl)"

lemma entries_are_last_puts:
  "(\<And>e. e \<in> set (ic_order c) \<Longrightarrow> entry_of (ic_ttl c) e (known (ie_url e))) \<Longrightarrow>
   e \<in> set (ic_order (cache_run ops c)) \<Longrightarrow>
   entry_of (ic_ttl c) e (last_put (ic_max_bytes c) (ie_url e) ops (known (ie_url e)))"
proof (induction ops c arbitrary: known rule: cache_run.induct)
  case (2 url now ops c)
  let ?c = "snd (image_get url now c)"
  have sub: "set (ic_order ?c) \<subseteq> set (ic_order c)" "ic_ttl ?c = ic_ttl c" "ic_max_bytes ?c = ic_max_bytes c"
    by (auto simp: image_get_def remove_entry_def dest: lookup_entry_Some split: option.split)
  have "entry_of (ic_ttl ?c) e (known (ie_url e))" if "e \<in> set (ic_order ?c)" for e
    using that sub "2.prems"(1) by auto
  from "2.IH" [OF this] "2.prems"(2) sub show ?case by simp
next
  case (3 url mt data now ops c)
  let ?c = "image_put url mt data now c"
  let ?known = "\<lambda>u. if url = u \<and> int (length data) \<le> ic_max_bytes c then Some (mt, data, now) else known u"
  have config: "ic_ttl ?c = ic_ttl c" "ic_max_bytes ?c = ic_max_bytes c"
    by (simp_all add: image_put_pushed pushed_fields)
  have "entry_of (ic_ttl ?c) e (?known (ie_url e))" if "e \<in> set (ic_order ?c)" for e
  proof (cases "int (length data) > ic_max_bytes c")
    case True
    with that "3.prems"(1) show ?thesis by (simp add: image_put_pushed)
  next
    case False
    obtain es where es: "ic_order (pushed url mt data now c) = \<lparr>ie_url = url, ie_media_type = mt, ie_data = data,
        ie_bytes = int (length data), ie_expires = now + ic_ttl c\<rparr> # es" "set es \<subseteq> {e \<in> set (ic_order c). ie_url e \<noteq> url}"
      using pushed_fields(4) [of url mt data now c] by blast
    from that False have "e \<in> set (ic_order (pushed url mt data now c))"
      using shrink_subset [of "pushed url mt data now c"] by (auto simp: image_put_pushed)
    then consider "e = \<lparr>ie_url = url, ie_media_type = mt, ie_data = data,
        ie_bytes = int (length data), ie_expires = now + ic_ttl c\<rparr>" | "e \<in> set (ic_order c)" "ie_url e \<noteq> url"
      using es by auto
    then show ?thesis
    proof cases
      case 1
      with False show ?thesis by (simp add: entry_of_def config)
    next
      case 2
      with "3.prems"(1) show ?thesis by (simp add: config)
    qed
  qed
  from "3.IH" [OF this] "3.prems"(2) config show ?case by simp
qed simp

section \<open>Properties\<close>

text \<open>Whatever a process gets from and puts into its image cache, the cache never holds more
  entries or bytes than its limits, and what it answers for an address is the last image put
  under it that was not too large to keep, and not past its time to live; an image that fits
  is found as long as nothing else happened and its time has not passed.\<close>

theorem image_cache_is_a_bounded_memory:
  "(let c = cache_run ops (new_image_cache max_entries max_bytes ttl) in
    int (length (ic_order c)) \<le> ic_max_entries c
    \<and> sum_list (map (\<lambda>e. int (length (ie_data e))) (ic_order c)) \<le> ic_max_bytes c
    \<and> (case fst (image_get url now c) of
         None \<Rightarrow> True
       | Some (mt, data) \<Rightarrow>
           (case last_put (ic_max_bytes c) url ops None of
              None \<Rightarrow> False
            | Some (mt', data', t) \<Rightarrow> mt = mt' \<and> data = data' \<and> now \<le> t + ic_ttl c))
    \<and> (if int (length bits) \<le> ic_max_bytes c \<and> now \<le> put_at + ic_ttl c
       then fst (image_get url now (image_put url kind bits put_at c)) = Some (kind, bits) else True))"
proof -
  let ?n = "new_image_cache max_entries max_bytes ttl" and ?c = "cache_run ops (new_image_cache max_entries max_bytes ttl)"
  have "cache_inv ?n" "within_limits ?n"
    by (auto simp: new_image_cache_def cache_inv_def within_limits_def)
  from cache_run_inv [OF this, of ops] have inv: "cache_inv ?c" and lim: "within_limits ?c" by simp_all
  have config: "ic_ttl (cache_run ops c) = ic_ttl c \<and> ic_max_bytes (cache_run ops c) = ic_max_bytes c" for ops c
    by (induction ops c rule: cache_run.induct)
      (auto simp: image_get_def remove_entry_def image_put_pushed pushed_fields split: option.split)
  have bytes: "sum_list (map (\<lambda>e. int (length (ie_data e))) (ic_order ?c)) = ic_bytes ?c"
    using inv by (simp add: cache_inv_def list_all_iff cong: map_cong)
  have hit: "case fst (image_get url now ?c) of None \<Rightarrow> True | Some (mt, data) \<Rightarrow>
      (case last_put (ic_max_bytes ?c) url ops None of None \<Rightarrow> False
       | Some (mt', data', t) \<Rightarrow> mt = mt' \<and> data = data' \<and> now \<le> t + ic_ttl ?c)"
  proof (cases "lookup_entry url ?c")
    case (Some e)
    then have e: "e \<in> set (ic_order ?c)" "ie_url e = url" by (simp_all add: lookup_entry_Some)
    have "ic_order ?n = []" by (simp add: new_image_cache_def)
    then have "entry_of (ic_ttl ?n) e (last_put (ic_max_bytes ?n) (ie_url e) ops None)"
      using e(1) by (intro entries_are_last_puts [where known = "\<lambda>u. None"]) simp_all
    then show ?thesis
      unfolding e(2) conjunct1 [OF config, of ops ?n] conjunct2 [OF config, of ops ?n]
      by (simp add: image_get_def Some entry_of_def split: option.splits prod.splits)
  qed (simp add: image_get_def)
  have "fst (image_get url now (image_put url kind bits put_at ?c)) = Some (kind, bits)"
    if fits: "int (length bits) \<le> ic_max_bytes ?c" "now \<le> put_at + ic_ttl ?c"
  proof -
    let ?e = "\<lparr>ie_url = url, ie_media_type = kind, ie_data = bits, ie_bytes = int (length bits), ie_expires = put_at + ic_ttl ?c\<rparr>"
    obtain es where "ic_order (pushed url kind bits put_at ?c) = ?e # es"
      using pushed_fields(4) [of url kind bits put_at ?c] by blast
    from shrink_keeps_front [OF cache_inv_pushed [OF inv] this] fits(1)
    obtain es' where "ic_order (image_put url kind bits put_at ?c) = ?e # es'"
      by (auto simp: image_put_pushed pushed_fields)
    with fits(2) show ?thesis by (simp add: image_get_def lookup_entry_def)
  qed
  with lim bytes hit show ?thesis by (simp add: Let_def within_limits_def)
qed

end
