(* ===== verification/Http.thy ===== *)
theory Http
  imports Invoke Json
begin

text \<open>
  \<open>internal/provider/http.go\<close>: how a call to an upstream ends. What \<open>net/http\<close> and the
  errors packages find out about a failed call is a record of facts; \<open>http.ParseTime\<close>,
  \<open>http.StatusText\<close>, the JSON parser and the printing of a value that is no string are
  parameters. Spans are left out.
\<close>

section \<open>Configuration\<close>

record conn_config =
  cf_provider_type :: bytes
  cf_base_url :: bytes
  cf_api_key :: bytes
  cf_timeout :: duration
  cf_stream_max_duration :: duration
  cf_stream_max_bytes :: int

definition conn_timeout :: "conn_config \<Rightarrow> duration" where
  "conn_timeout c = (if cf_timeout c > 0 then cf_timeout c else 5 * minute)"

definition stream_max_duration :: "conn_config \<Rightarrow> duration" where
  "stream_max_duration c = (if cf_stream_max_duration c > 0 then cf_stream_max_duration c else 30 * minute)"

definition stream_max_bytes :: "conn_config \<Rightarrow> int" where
  "stream_max_bytes c = (if cf_stream_max_bytes c > 0 then cf_stream_max_bytes c else 256 * 1048576)"

definition base_url :: "conn_config \<Rightarrow> bytes \<Rightarrow> bytes" where
  "base_url c def =
     (if cf_base_url c \<noteq> [] then rev (dropWhile (\<lambda>x. x = CHR ''/'') (rev (cf_base_url c))) else def)"

section \<open>Calls that got no answer\<close>

text \<open>
  What \<open>errors.As\<close> and \<open>errors.Is\<close> find in the error of a call, and its text. The guard's
  and the redirect policy's messages are those of the network guard.
\<close>

record net_failure =
  nf_guard :: "bytes option"
  nf_redirect :: "bytes option"
  nf_timeout :: bool
  nf_tls :: bool
  nf_dropped :: bool
  nf_unreachable :: bool
  nf_text :: bytes

definition mentions :: "bytes \<Rightarrow> bytes \<Rightarrow> bool" where
  "mentions s sub \<longleftrightarrow> index_of s sub \<noteq> None"

definition transport_error :: "net_failure \<Rightarrow> provider_error" where
  "transport_error err =
     (let e = mk_provider_error 502 ''upstream_error'' ''upstream request failed'' in
      case nf_guard err of
        Some msg \<Rightarrow> e\<lparr>pe_message := msg, pe_not_sent := True\<rparr>
      | None \<Rightarrow>
          (case nf_redirect err of
             Some msg \<Rightarrow> e\<lparr>pe_message := msg\<rparr>
           | None \<Rightarrow>
               (if nf_timeout err then mk_provider_error 504 ''timeout'' ''upstream request timed out''
                else if nf_tls err \<or> mentions (nf_text err) ''tls:'' \<or> mentions (nf_text err) ''x509:''
                then e\<lparr>pe_message := ''upstream TLS handshake failed'', pe_not_sent := True, pe_retryable := True\<rparr>
                else if nf_dropped err then e\<lparr>pe_message := ''upstream unreachable''\<rparr>
                else if nf_unreachable err
                then e\<lparr>pe_message := ''upstream unreachable'', pe_not_sent := True, pe_retryable := True\<rparr>
                else if mentions (nf_text err) ''malformed HTTP''
                then e\<lparr>pe_message := ''upstream returned a non-HTTP response''\<rparr>
                else e)))"

text \<open>A context that is done outweighs what the transport says.\<close>

definition lost_call :: "bool \<Rightarrow> net_failure \<Rightarrow> provider_error" where
  "lost_call done err =
     (if done then mk_provider_error 504 ''timeout'' ''upstream request cancelled or timed out''
      else transport_error err)"

section \<open>Answers that report a failure\<close>

record http_lib =
  lib_parse :: "bytes \<Rightarrow> raw"
  lib_sprint :: "json \<Rightarrow> bytes"
  lib_status_text :: "int \<Rightarrow> bytes"
  lib_parse_time :: "bytes \<Rightarrow> time option"

definition maxUpstreamMessage where "maxUpstreamMessage = (512::nat)"
definition statusAnthropicOverloaded where "statusAnthropicOverloaded = (529::int)"
definition maxRetryDelay where "maxRetryDelay = 24 * hour"
definition maxRetryAfter where "maxRetryAfter = (64::nat)"

text \<open>A value of type \<open>any\<close>: everything but a number no float64 can hold.\<close>

fun dec_any :: "json \<Rightarrow> bool" where
  "dec_any (JNum s) = (float_literal s = None)"
| "dec_any (JArr js) = list_ex dec_any js"
| "dec_any (JObj ms) = list_ex (\<lambda>(k, j). dec_any j) ms"
| "dec_any _ = False"

record error_body =
  eb_message :: bytes
  eb_type :: bytes
  eb_code :: raw

definition error_body_field :: "bytes \<Rightarrow> error_body decoder" where
  "error_body_field k b j =
     (if names_field k ''message'' then (let (s, e) = dec_string (eb_message b) j in (b\<lparr>eb_message := s\<rparr>, e))
      else if names_field k ''type'' then (let (s, e) = dec_string (eb_type b) j in (b\<lparr>eb_type := s\<rparr>, e))
      else if names_field k ''code'' then (b\<lparr>eb_code := (if j = JNull then None else Some j)\<rparr>, dec_any j)
      else (b, False))"

definition envelope_field :: "bytes \<Rightarrow> raw decoder" where
  "envelope_field k r j = (if names_field k ''error'' then (Some j, False) else (r, False))"

definition sprint :: "http_lib \<Rightarrow> json \<Rightarrow> bytes" where
  "sprint lib j = (case j of JStr s \<Rightarrow> s | _ \<Rightarrow> lib_sprint lib j)"

text \<open>The message, type and code a body reports, over what was known before.\<close>

definition read_error_body :: "http_lib \<Rightarrow> bytes \<Rightarrow> provider_error \<Rightarrow> provider_error" where
  "read_error_body lib body e =
     (case unmarshal (dec_struct envelope_field) None (lib_parse lib body) of
        Some (Some err) \<Rightarrow>
          (let obj = unmarshal (dec_struct error_body_field) \<lparr>eb_message = [], eb_type = [], eb_code = None\<rparr> (Some err) in
           if (case obj of Some b \<Rightarrow> eb_message b \<noteq> [] | None \<Rightarrow> False)
           then (let b = the obj; e = e\<lparr>pe_message := eb_message b\<rparr>;
                     e = (if eb_type b \<noteq> [] then e\<lparr>pe_type := eb_type b\<rparr> else e) in
                 (case eb_code b of Some c \<Rightarrow> e\<lparr>pe_code := sprint lib c\<rparr> | None \<Rightarrow> e))
           else (case unmarshal dec_string [] (Some err) of
                   Some s \<Rightarrow> if s \<noteq> [] then e\<lparr>pe_message := s\<rparr> else e
                 | None \<Rightarrow> e))
      | _ \<Rightarrow> e)"

definition upstream_error :: "http_lib \<Rightarrow> int \<Rightarrow> bytes \<Rightarrow> bytes list \<Rightarrow> provider_error" where
  "upstream_error lib status body secrets =
     (let msg = trim_space body;
          e = mk_provider_error status ''upstream_error'' (if msg = [] then lib_status_text lib status else msg);
          e = read_error_body lib body e;
          e = e\<lparr>pe_message := take maxUpstreamMessage (redact_with (pe_message e) secrets)\<rparr> in
      if status \<ge> 500 \<and> status \<noteq> 503 \<and> status \<noteq> 504 then e\<lparr>pe_status := 502\<rparr> else e)"

definition is_digits :: "bytes \<Rightarrow> bool" where
  "is_digits s \<longleftrightarrow> list_all (\<lambda>c. CHR ''0'' \<le> c \<and> c \<le> CHR ''9'') s \<and> s \<noteq> []"

definition retry_delay :: "http_lib \<Rightarrow> bytes \<Rightarrow> time \<Rightarrow> duration" where
  "retry_delay lib v now =
     (if v = [] then 0
      else if is_digits v then
        (if length v > 6 then maxRetryDelay else min (int (digits_value v) * second) maxRetryDelay)
      else (case lib_parse_time lib v of None \<Rightarrow> 0 | Some t \<Rightarrow> max (min (t - now) maxRetryDelay) 0))"

definition upstream_retry_after :: "http_lib \<Rightarrow> bytes \<Rightarrow> bytes" where
  "upstream_retry_after lib header =
     (let v = trim_space header in
      if v = [] \<or> length v > maxRetryAfter then []
      else if is_digits v then v
      else (case lib_parse_time lib v of Some t \<Rightarrow> v | None \<Rightarrow> []))"

record http_answer =
  ha_status :: int
  ha_retry_after :: bytes
  ha_body :: bytes
  ha_read_error :: "bytes option"

definition upstream_status_error :: "http_lib \<Rightarrow> conn_config \<Rightarrow> time \<Rightarrow> http_answer \<Rightarrow> bytes \<Rightarrow> provider_error" where
  "upstream_status_error lib cfg now resp body =
     (let e = upstream_error lib (ha_status resp) body [cf_api_key cfg];
          e = (if cf_provider_type cfg = ''anthropic'' \<and> ha_status resp = statusAnthropicOverloaded
               then e\<lparr>pe_status := 503\<rparr> else e);
          after = upstream_retry_after lib (ha_retry_after resp) in
      e\<lparr>pe_upstream_status := ha_status resp,
        pe_retryable := (ha_status resp = 429 \<or> pe_status e = 503),
        pe_upstream_retry_after := after,
        pe_upstream_retry_delay := retry_delay lib after now\<rparr>)"

section \<open>Whole calls\<close>

datatype reply =
    Unsendable bytes
  | NoReply bool net_failure
  | Reply http_answer

definition do_request :: "reply \<Rightarrow> go_error + http_answer" where
  "do_request r =
     (case r of
        Unsendable msg \<Rightarrow> Inl [OtherNode msg]
      | NoReply done err \<Rightarrow> Inl [ProviderNode (lost_call done err)]
      | Reply a \<Rightarrow> Inr a)"

definition success_status :: "int \<Rightarrow> bool" where
  "success_status st \<longleftrightarrow> 200 \<le> st \<and> st < 300"

text \<open>\<open>doJSON\<close>: the answer is read up to 32 MiB and decoded with \<open>dec\<close>.\<close>

definition do_json :: "http_lib \<Rightarrow> conn_config \<Rightarrow> time \<Rightarrow> 'a decoder \<Rightarrow> 'a \<Rightarrow> reply \<Rightarrow> go_error + 'a" where
  "do_json lib cfg now dec zero r =
     (case do_request r of
        Inl err \<Rightarrow> Inl err
      | Inr a \<Rightarrow>
          (let body = take (32 * 1048576) (ha_body a) in
           case ha_read_error a of
             Some msg \<Rightarrow> Inl [ProviderNode (mk_provider_error 502 ''upstream_error''
                 (''read upstream response: '' @ redact_with msg [cf_api_key cfg]))]
           | None \<Rightarrow>
               (if \<not> success_status (ha_status a)
                then Inl [ProviderNode (upstream_status_error lib cfg now a body)]
                else (case unmarshal dec zero (lib_parse lib body) of
                        None \<Rightarrow> Inl [ProviderNode (mk_provider_error 502 ''upstream_error'' ''decode upstream response: '')]
                      | Some x \<Rightarrow> Inr x))))"

section \<open>Streams\<close>

record stream_body =
  sb_remaining :: int
  sb_limit :: int

definition new_stream_body :: "conn_config \<Rightarrow> stream_body" where
  "new_stream_body cfg = \<lparr>sb_remaining = stream_max_bytes cfg, sb_limit = stream_max_bytes cfg\<rparr>"

definition do_stream :: "http_lib \<Rightarrow> conn_config \<Rightarrow> time \<Rightarrow> reply \<Rightarrow> go_error + stream_body" where
  "do_stream lib cfg now r =
     (case do_request r of
        Inl err \<Rightarrow> Inl err
      | Inr a \<Rightarrow>
          (if \<not> success_status (ha_status a)
           then Inl [ProviderNode (upstream_status_error lib cfg now a (take 1048576 (ha_body a)))]
           else Inr (new_stream_body cfg)))"

datatype read_end = More | AtEof | ReadFailure

text \<open>
  One \<open>Read\<close> of a buffer of \<open>want\<close> bytes: \<open>avail\<close> is what the connection would deliver and
  \<open>fin\<close> how it ends; \<open>expired\<close> and \<open>gone\<close> say whether the stream's and the caller's context
  are done.
\<close>

definition stream_read ::
  "nat \<Rightarrow> bytes \<Rightarrow> read_end \<Rightarrow> bool \<Rightarrow> bool \<Rightarrow> stream_body \<Rightarrow> (bytes \<times> (provider_error + read_end)) \<times> stream_body" where
  "stream_read want avail fin expired gone s =
     (if sb_remaining s \<le> 0
      then (([], Inl (mk_provider_error 502 ''upstream_error'' ''upstream stream exceeded the maximum size'')), s)
      else
        (let p = (if int want > sb_remaining s then nat (sb_remaining s) else want);
             got = take p avail;
             s = s\<lparr>sb_remaining := sb_remaining s - int (length got)\<rparr> in
         if fin = ReadFailure \<and> expired \<and> \<not> gone
         then ((got, Inl (mk_provider_error 504 ''timeout'' ''upstream stream exceeded the maximum duration'')), s)
         else ((got, Inr fin), s)))"

text \<open>Every byte a reader was given.\<close>

fun stream_reads :: "(nat \<times> bytes \<times> read_end \<times> bool \<times> bool) list \<Rightarrow> stream_body \<Rightarrow> bytes \<times> stream_body" where
  "stream_reads [] s = ([], s)"
| "stream_reads ((want, avail, fin, expired, gone) # rs) s =
     (let ((got, _), s) = stream_read want avail fin expired gone s; (more, s) = stream_reads rs s in
      (got @ more, s))"

definition stream_reported :: "stream_body \<Rightarrow> int" where
  "stream_reported s = sb_limit s - sb_remaining s"

section \<open>Facts\<close>

lemma key_occurs_in_prefix:
  assumes "p \<in> set key_patterns" "occurs p (take n s)"
  shows "occurs p s"
proof -
  from assms(2) obtain u v where uv: "take n s = u @ v" "match_seq p v \<noteq> None" by (auto simp: occurs_def)
  then have "match_seq p (v @ drop n s) \<noteq> None"
    using key_robust [OF assms(1)] robust_extends by blast
  moreover have "s = u @ v @ drop n s" using uv(1) by (metis append.assoc append_take_drop_id)
  ultimately show ?thesis unfolding occurs_def by blast
qed

definition reported_error :: "http_lib \<Rightarrow> int \<Rightarrow> bytes \<Rightarrow> provider_error" where
  "reported_error lib status body =
     read_error_body lib body (mk_provider_error status ''upstream_error''
       (if trim_space body = [] then lib_status_text lib status else trim_space body))"

lemma reported_error_keeps:
  "pe_status (reported_error lib status body) = status" "pe_client_input (reported_error lib status body) = False"
  "pe_not_sent (reported_error lib status body) = False"
  by (auto simp: reported_error_def read_error_body_def mk_provider_error_def Let_def split: option.split)

lemma upstream_status_error_fields:
  fixes lib cfg now resp body
  defines "e \<equiv> upstream_status_error lib cfg now resp body"
  shows "pe_message e = take maxUpstreamMessage (redact_with (pe_message (reported_error lib (ha_status resp) body)) [cf_api_key cfg])"
    and "pe_status e = (if cf_provider_type cfg = ''anthropic'' \<and> ha_status resp = 529 then 503
           else if ha_status resp \<ge> 500 \<and> ha_status resp \<noteq> 503 \<and> ha_status resp \<noteq> 504 then 502 else ha_status resp)"
    and "pe_type e = pe_type (reported_error lib (ha_status resp) body)"
    and "pe_upstream_status e = ha_status resp"
    and "pe_retryable e = (ha_status resp = 429 \<or> pe_status e = 503)"
    and "pe_upstream_retry_delay e = retry_delay lib (upstream_retry_after lib (ha_retry_after resp)) now"
    and "pe_client_input e = False" and "pe_not_sent e = False"
proof -
  let ?e = "reported_error lib (ha_status resp) body"
  have "upstream_error lib (ha_status resp) body [cf_api_key cfg] =
      (let e = ?e\<lparr>pe_message := take maxUpstreamMessage (redact_with (pe_message ?e) [cf_api_key cfg])\<rparr> in
       if ha_status resp \<ge> 500 \<and> ha_status resp \<noteq> 503 \<and> ha_status resp \<noteq> 504 then e\<lparr>pe_status := 502\<rparr> else e)"
    by (simp add: upstream_error_def reported_error_def Let_def)
  note u = e_def upstream_status_error_def this Let_def statusAnthropicOverloaded_def
  show "pe_message e = take maxUpstreamMessage (redact_with (pe_message ?e) [cf_api_key cfg])"
    "pe_status e = (if cf_provider_type cfg = ''anthropic'' \<and> ha_status resp = 529 then 503
       else if ha_status resp \<ge> 500 \<and> ha_status resp \<noteq> 503 \<and> ha_status resp \<noteq> 504 then 502 else ha_status resp)"
    "pe_type e = pe_type ?e" "pe_upstream_status e = ha_status resp"
    "pe_retryable e = (ha_status resp = 429 \<or> pe_status e = 503)"
    "pe_upstream_retry_delay e = retry_delay lib (upstream_retry_after lib (ha_retry_after resp)) now"
    "pe_client_input e = False" "pe_not_sent e = False"
    unfolding u by (simp_all add: reported_error_keeps)
qed

lemma stream_read_accounts:
  "0 \<le> sb_remaining s \<Longrightarrow>
   (let ((got, r), s') = stream_read want avail fin expired gone s in
    sb_remaining s' = sb_remaining s - int (length got) \<and> 0 \<le> sb_remaining s' \<and> sb_limit s' = sb_limit s)"
  by (auto simp: stream_read_def Let_def)

lemma stream_reads_account:
  "0 \<le> sb_remaining s \<Longrightarrow>
   (let (got, s') = stream_reads rs s in
    sb_remaining s' = sb_remaining s - int (length got) \<and> 0 \<le> sb_remaining s' \<and> sb_limit s' = sb_limit s)"
proof (induction rs arbitrary: s)
  case (Cons r rs)
  obtain want avail fin expired gone where r: "r = (want, avail, fin, expired, gone)" by (cases r)
  obtain got e s1 where s1: "stream_read want avail fin expired gone s = ((got, e), s1)" by (metis surj_pair)
  obtain more s2 where s2: "stream_reads rs s1 = (more, s2)" by (metis surj_pair)
  from stream_read_accounts [OF Cons.prems, of want avail fin expired gone] Cons.IH [of s1]
  show ?case by (simp add: r s1 s2)
qed simp

lemma retry_delay_range: "0 \<le> retry_delay lib v now \<and> retry_delay lib v now \<le> maxRetryDelay"
  by (auto simp: retry_delay_def maxRetryDelay_def split: option.split)

lemma as_single_provider [simp]: "as_provider [ProviderNode e] = Some e" "\<not> as_target_config [ProviderNode e]"
  by (simp_all add: as_target_config_def)

lemma classify_lost:
  "\<not> pe_client_input e \<Longrightarrow> pe_not_sent e \<Longrightarrow>
     classify_attempt [ProviderNode e] = (fallback_class Dial)\<lparr>ac_retry := pe_retryable e\<rparr>"
  "\<not> pe_client_input e \<Longrightarrow> \<not> pe_not_sent e \<Longrightarrow> pe_upstream_status e = 0 \<Longrightarrow> pe_status e = 504 \<Longrightarrow>
     classify_attempt [ProviderNode e] = fallback_class UpTimeout"
  "\<not> pe_client_input e \<Longrightarrow> \<not> pe_not_sent e \<Longrightarrow> pe_upstream_status e = 0 \<Longrightarrow> pe_status e = 502 \<Longrightarrow>
     pe_type e = ''upstream_error'' \<Longrightarrow> classify_attempt [ProviderNode e] = fallback_class ServerError"
  by (simp_all add: classify_attempt_def)

lemma fallback_fields [simp]: "ac_fallback (fallback_class r)" "\<not> ac_retry (fallback_class r)"
  by (simp_all add: fallback_class_def)

lemma classify_lost_call:
  "classify_attempt [ProviderNode (lost_call done err)] =
     (if done then fallback_class UpTimeout
      else case nf_guard err of
        Some msg \<Rightarrow> fallback_class Dial
      | None \<Rightarrow>
          (case nf_redirect err of
             Some msg \<Rightarrow> fallback_class ServerError
           | None \<Rightarrow>
               (if nf_timeout err then fallback_class UpTimeout
                else if nf_tls err \<or> mentions (nf_text err) ''tls:'' \<or> mentions (nf_text err) ''x509:''
                then (fallback_class Dial)\<lparr>ac_retry := True\<rparr>
                else if \<not> nf_dropped err \<and> nf_unreachable err then (fallback_class Dial)\<lparr>ac_retry := True\<rparr>
                else fallback_class ServerError)))"
proof -
  note d = lost_call_def transport_error_def mk_provider_error_def Let_def
  have plain: "(fallback_class Dial)\<lparr>ac_retry := False\<rparr> = fallback_class Dial" by (simp add: fallback_class_def)
  show ?thesis
    by (cases "done"; cases "nf_guard err"; cases "nf_redirect err"; cases "nf_timeout err")
      (simp_all add: d classify_lost plain)
qed

lemma mentions_fixed:
  "mentions ''tls:'' ''tls:''" "\<not> mentions ''malformed HTTP'' ''tls:''" "\<not> mentions ''malformed HTTP'' ''x509:''"
  "mentions ''malformed HTTP'' ''malformed HTTP''" "\<not> mentions [] ''tls:''" "\<not> mentions [] ''x509:''"
  "\<not> mentions [] ''malformed HTTP''" "\<not> mentions ''tls:'' ''malformed HTTP''"
  by code_simp+

lemma same_branches:
  "(A \<or> B) = (A' \<or> B') \<Longrightarrow> (A \<or> B) \<or> C = C' \<Longrightarrow>
   (if T \<or> A \<or> B then x else if D then y else if U then z else if C then w else v)
     = (if T \<or> A' \<or> B' then x else if D then y else if U then z else if C' then w else v)"
  by auto

lemma same_failure:
  assumes "(mentions t ''tls:'' \<or> mentions t ''x509:'') = (mentions (nf_text err) ''tls:'' \<or> mentions (nf_text err) ''x509:'')"
    and "(mentions t ''tls:'' \<or> mentions t ''x509:'') \<or> mentions t ''malformed HTTP'' = mentions (nf_text err) ''malformed HTTP''"
  shows "lost_call done err = lost_call done (err\<lparr>nf_text := t\<rparr>)"
proof -
  let ?e = "err\<lparr>nf_text := t\<rparr>"
  have f: "nf_guard ?e = nf_guard err" "nf_redirect ?e = nf_redirect err" "nf_timeout ?e = nf_timeout err"
    "nf_tls ?e = nf_tls err" "nf_dropped ?e = nf_dropped err" "nf_unreachable ?e = nf_unreachable err" "nf_text ?e = t"
    by simp_all
  show ?thesis
    unfolding lost_call_def transport_error_def f Let_def by (simp only: same_branches [OF assms])
qed

section \<open>Properties\<close>

text \<open>The message of an upstream's error answer that reaches clients and logs is at most 512
  bytes and holds no key of the known shapes, wherever in the body it came from and although
  it is cut after the masking; and of the server errors only 502, 503 and 504 are passed on.\<close>

theorem relayed_message_is_clean:
  "length (pe_message (upstream_status_error lib cfg now resp body)) \<le> 512
   \<and> list_all (\<lambda>p. \<not> occurs p (pe_message (upstream_status_error lib cfg now resp body))) key_patterns
   \<and> (if 500 \<le> ha_status resp then pe_status (upstream_status_error lib cfg now resp body) \<in> {502, 503, 504} else True)"
proof -
  have "\<not> occurs p (take maxUpstreamMessage (redact_with msg [cf_api_key cfg]))" if "p \<in> set key_patterns" for p msg
    using key_occurs_in_prefix [OF that] redacted_is_clean [OF that] unfolding redact_with_def by blast
  then show ?thesis unfolding list_all_iff by (auto simp: upstream_status_error_fields maxUpstreamMessage_def)
qed

text \<open>An upstream's answer leads to the next target exactly for the statuses that are its own
  trouble, and is repeated on the same target only when it was throttled or overloaded and
  asks for no more than two seconds; no other answer is ever sent twice.\<close>

theorem upstream_answers_are_classified:
  "(let st = ha_status resp;
        cl = classify_attempt [ProviderNode (upstream_status_error lib cfg now resp body)];
        delay = retry_delay lib (upstream_retry_after lib (ha_retry_after resp)) now;
        overloaded = (st = 503 \<or> st = 529 \<and> cf_provider_type cfg = ''anthropic'') in
    if success_status st \<or> st \<le> 0 then True
    else ac_fallback cl
           = (st \<ge> 500 \<or> st = 429 \<or> st = 401 \<or> st = 403 \<or> st = 404
              \<or> pe_type (reported_error lib st body) = ''timeout'')
       \<and> ac_retry cl = ((st = 429 \<or> overloaded) \<and> delay \<le> retryMaxDelay)
       \<and> (if ac_retry cl then 0 \<le> ac_retry_after cl \<and> ac_retry_after cl \<le> retryMaxDelay else True))"
proof -
  note f = upstream_status_error_fields
  from retry_delay_range [of lib "upstream_retry_after lib (ha_retry_after resp)" now] show ?thesis
    unfolding Let_def classify_attempt_def
    by (auto simp: f with_retry_after_def fallback_class_def terminal_class_def Let_def)
qed

text \<open>A call that got no answer is repeated only when it cannot have been processed: the
  guard's refusals, redirects, timeouts and dropped connections are never repeated, and the
  raw text of the failure does not reach the caller.\<close>

theorem lost_calls_are_not_repeated:
  "(let cl = classify_attempt [ProviderNode (lost_call done err)] in
    ac_retry cl = (\<not> done \<and> nf_guard err = None \<and> nf_redirect err = None \<and> \<not> nf_timeout err
       \<and> (nf_tls err \<or> mentions (nf_text err) ''tls:'' \<or> mentions (nf_text err) ''x509:''
          \<or> nf_unreachable err \<and> nf_dropped err = False))
    \<and> ac_fallback cl)
   \<and> lost_call done err = lost_call done (err\<lparr>nf_text :=
       (if mentions (nf_text err) ''tls:'' \<or> mentions (nf_text err) ''x509:'' then ''tls:''
        else if mentions (nf_text err) ''malformed HTTP'' then ''malformed HTTP'' else [])\<rparr>)"
proof (rule conjI)
  show "let cl = classify_attempt [ProviderNode (lost_call done err)] in
    ac_retry cl = (\<not> done \<and> nf_guard err = None \<and> nf_redirect err = None \<and> \<not> nf_timeout err
       \<and> (nf_tls err \<or> mentions (nf_text err) ''tls:'' \<or> mentions (nf_text err) ''x509:''
          \<or> nf_unreachable err \<and> nf_dropped err = False))
    \<and> ac_fallback cl"
    unfolding classify_lost_call Let_def by (simp split: option.split)
  show "lost_call done err = lost_call done (err\<lparr>nf_text :=
       (if mentions (nf_text err) ''tls:'' \<or> mentions (nf_text err) ''x509:'' then ''tls:''
        else if mentions (nf_text err) ''malformed HTTP'' then ''malformed HTTP'' else [])\<rparr>)"
    by (rule same_failure; simp only: mentions_fixed if_distribR split: if_split; blast)
qed

text \<open>However a stream is read, no more bytes than the configured maximum come out of it, what it
  reports at its end is what was read, and a stream that has delivered the maximum answers with
  an error from then on.\<close>

theorem stream_is_bounded:
  "(let (got, s) = stream_reads rs (new_stream_body cfg) in
    int (length got) \<le> stream_max_bytes cfg
    \<and> stream_reported s = int (length got)
    \<and> (if int (length got) = stream_max_bytes cfg
       then isl (snd (fst (stream_read want avail fin expired gone s))) else True))"
proof -
  have "0 \<le> sb_remaining (new_stream_body cfg)" "sb_limit (new_stream_body cfg) = sb_remaining (new_stream_body cfg)"
    "sb_remaining (new_stream_body cfg) = stream_max_bytes cfg"
    by (simp_all add: new_stream_body_def stream_max_bytes_def)
  with stream_reads_account [of "new_stream_body cfg" rs] show ?thesis
    by (auto simp: stream_reported_def stream_read_def Let_def split: prod.split)
qed

end
