(* ===== verification/Images.thy ===== *)
theory Images
  imports Http ImageCache ImageSlots Netguard Effort
begin

text \<open>
  \<open>internal/provider/images.go\<close> but for the slots (ImageSlots): the parts of a message, inline
  images, and the download of remote ones. Parsing a URL is a parameter, as are the client
  and what it answers; base64 is the standard library's, modelled here. A set of media types
  is a list.
\<close>

section \<open>Base64 as in \<open>encoding/base64\<close>\<close>

definition b64_alphabet :: bytes where
  "b64_alphabet = ''ABCDEFGHIJKLMNOPQRSTUVWXYZabcdefghijklmnopqrstuvwxyz0123456789+/''"

definition b64_char :: "nat \<Rightarrow> char" where
  "b64_char n = b64_alphabet ! n"

definition b64_value :: "char \<Rightarrow> nat option" where
  "b64_value c = (let i = length (takeWhile (\<lambda>x. x \<noteq> c) b64_alphabet) in if i < 64 then Some i else None)"

fun b64_encode :: "bytes \<Rightarrow> bytes" where
  "b64_encode [] = []"
| "b64_encode [a] =
     (let x = of_char a in [b64_char (x div 4), b64_char (x mod 4 * 16), CHR ''='', CHR ''=''])"
| "b64_encode [a, b] =
     (let x = of_char a; y = of_char b in
      [b64_char (x div 4), b64_char (x mod 4 * 16 + y div 16), b64_char (y mod 16 * 4), CHR ''=''])"
| "b64_encode (a # b # c # rest) =
     (let x = of_char a; y = of_char b; z = of_char c in
      b64_char (x div 4) # b64_char (x mod 4 * 16 + y div 16) # b64_char (y mod 16 * 4 + z div 64)
      # b64_char (z mod 64) # b64_encode rest)"

fun b64_quads :: "bytes \<Rightarrow> bytes option" where
  "b64_quads [] = Some []"
| "b64_quads (a # b # c # d # rest) =
     (case (b64_value a, b64_value b) of
        (Some v, Some w) \<Rightarrow>
          (if c = CHR ''='' then
             (if d = CHR ''='' \<and> rest = [] then Some [char_of (v * 4 + w div 16)] else None)
           else
             (case b64_value c of
                None \<Rightarrow> None
              | Some x \<Rightarrow>
                  (if d = CHR ''='' then
                     (if rest = [] then Some [char_of (v * 4 + w div 16), char_of (w mod 16 * 16 + x div 4)] else None)
                   else
                     (case (b64_value d, b64_quads rest) of
                        (Some y, Some tail) \<Rightarrow>
                          Some (char_of (v * 4 + w div 16) # char_of (w mod 16 * 16 + x div 4) # char_of (x mod 4 * 64 + y) # tail)
                      | _ \<Rightarrow> None))))
      | _ \<Rightarrow> None)"
| "b64_quads _ = None"

text \<open>\<open>DecodeString\<close> passes over line breaks.\<close>

definition b64_decode :: "bytes \<Rightarrow> bytes option" where
  "b64_decode s = b64_quads (filter (\<lambda>c. c \<noteq> CHR 0x0D \<and> c \<noteq> CHR 0x0A) s)"

section \<open>Parts\<close>

record image_ref =
  im_media_type :: bytes
  im_base64 :: bytes
  im_url :: bytes

record part =
  pt_type :: bytes
  pt_text :: bytes
  pt_image :: image_ref
  pt_cache_control :: raw

definition no_image :: image_ref where
  "no_image = \<lparr>im_media_type = [], im_base64 = [], im_url = []\<rparr>"

definition gemini_media_types :: "bytes list" where
  "gemini_media_types = [''image/png'', ''image/jpeg'', ''image/webp'', ''image/heic'', ''image/heif'']"

definition image_media_types_default :: "bytes list" where
  "image_media_types_default = [''image/png'', ''image/jpeg'', ''image/gif'', ''image/webp'']"

definition image_media_types_for :: "bytes \<Rightarrow> bytes list" where
  "image_media_types_for provider_type =
     (if provider_type = ''gemini'' then gemini_media_types else image_media_types_default)"

definition image_error :: provider_error where
  "image_error = client_error []"

text \<open>\<open>strings.Cut\<close> at a character: before, after, and whether it was there.\<close>

definition cut_at :: "char \<Rightarrow> bytes \<Rightarrow> bytes \<times> bytes \<times> bool" where
  "cut_at c s =
     (let before = takeWhile (\<lambda>x. x \<noteq> c) s in (before, drop (length before + 1) s, length before < length s))"

text \<open>
  \<open>strings.ToLower\<close> as far as a name of ASCII letters can come out of it: the Kelvin sign and
  the dotted capital I are the only other characters with an ASCII lower case.
\<close>

function lower_name :: "bytes \<Rightarrow> bytes" where
  "lower_name [] = []"
| "lower_name (c # cs) =
     (if has_prefix (c # cs) [CHR 0xE2, CHR 0x84, CHR 0xAA] then CHR ''k'' # lower_name (drop 2 cs)
      else if has_prefix (c # cs) [CHR 0xC4, CHR 0xB0] then CHR ''i'' # lower_name (drop 1 cs)
      else ascii_lower c # lower_name cs)"
  by pat_completeness auto
termination by (relation "measure length") auto

definition media_type_of :: "bytes \<Rightarrow> bytes" where
  "media_type_of header = lower_name (trim_space (fst (cut_at CHR '';'' header)))"

definition image_data_is_base64 :: "bytes \<Rightarrow> bool" where
  "image_data_is_base64 meta =
     (case cut_at CHR '';'' meta of
        (_, params, ok) \<Rightarrow> ok \<and> list_ex (\<lambda>p. names_field (trim_space p) ''base64'') (split_char CHR '';'' params))"

definition parse_image_url :: "bytes \<Rightarrow> bytes list \<Rightarrow> provider_error + image_ref" where
  "parse_image_url u accepts =
     (if length u < 5 \<or> \<not> equal_fold (take 5 u) ''data:'' then Inr (no_image\<lparr>im_url := u\<rparr>)
      else
        (case cut_at CHR '','' (drop 5 u) of
           (meta, payload, ok) \<Rightarrow>
             (if \<not> ok \<or> \<not> image_data_is_base64 meta then Inl image_error
              else if media_type_of meta \<notin> set accepts then Inl image_error
              else if payload = [] then Inl image_error
              else (case b64_decode payload of
                      None \<Rightarrow> Inl image_error
                    | Some _ \<Rightarrow> Inr (no_image\<lparr>im_media_type := media_type_of meta, im_base64 := payload\<rparr>)))))"

record wire_part =
  wp_type :: bytes
  wp_text :: bytes
  wp_url :: bytes
  wp_cache_control :: raw

definition image_url_field :: "bytes \<Rightarrow> bytes decoder" where
  "image_url_field k s j = (if names_field k ''url'' then dec_string s j else (s, False))"

definition wire_part_field :: "bytes \<Rightarrow> wire_part decoder" where
  "wire_part_field k p j =
     (if names_field k ''type'' then (let (s, e) = dec_string (wp_type p) j in (p\<lparr>wp_type := s\<rparr>, e))
      else if names_field k ''text'' then (let (s, e) = dec_string (wp_text p) j in (p\<lparr>wp_text := s\<rparr>, e))
      else if names_field k ''image_url'' then
        (let (s, e) = dec_struct image_url_field (wp_url p) j in (p\<lparr>wp_url := s\<rparr>, e))
      else if names_field k ''cache_control'' then (p\<lparr>wp_cache_control := Some j\<rparr>, False)
      else (p, False))"

definition no_wire_part :: wire_part where
  "no_wire_part = \<lparr>wp_type = [], wp_text = [], wp_url = [], wp_cache_control = None\<rparr>"

fun parse_parts :: "bytes list \<Rightarrow> wire_part list \<Rightarrow> provider_error + part list" where
  "parse_parts accepts [] = Inr []"
| "parse_parts accepts (p # ps) =
     (if wp_type p = ''text'' \<or> wp_type p = [] then
        (case parse_parts accepts ps of
           Inl err \<Rightarrow> Inl err
         | Inr rest \<Rightarrow> Inr (\<lparr>pt_type = ''text'', pt_text = wp_text p, pt_image = no_image,
                            pt_cache_control = wp_cache_control p\<rparr> # rest))
      else if wp_type p = ''image_url'' \<and> wp_url p \<noteq> [] then
        (case parse_image_url (wp_url p) accepts of
           Inl err \<Rightarrow> Inl err
         | Inr ref \<Rightarrow>
             (case parse_parts accepts ps of
                Inl err \<Rightarrow> Inl err
              | Inr rest \<Rightarrow> Inr (\<lparr>pt_type = ''image_url'', pt_text = [], pt_image = ref,
                                 pt_cache_control = wp_cache_control p\<rparr> # rest)))
      else parse_parts accepts ps)"

definition parse_content :: "raw \<Rightarrow> bytes list \<Rightarrow> provider_error + part list" where
  "parse_content r accepts =
     (case unmarshal dec_string [] r of
        Some s \<Rightarrow> Inr [\<lparr>pt_type = ''text'', pt_text = s, pt_image = no_image, pt_cache_control = None\<rparr>]
      | None \<Rightarrow>
          (case unmarshal (dec_slice (dec_struct wire_part_field) no_wire_part) [] r of
             None \<Rightarrow> Inl image_error
           | Some ps \<Rightarrow> parse_parts accepts ps))"

section \<open>Downloads\<close>

record fetcher =
  fe_max_bytes :: int
  fe_timeout :: duration
  fe_max_per_request :: int

definition fetch_max_bytes :: "fetcher \<Rightarrow> int" where
  "fetch_max_bytes f = (if fe_max_bytes f > 0 then fe_max_bytes f else 8 * 1048576)"

definition fetch_timeout :: "fetcher \<Rightarrow> duration" where
  "fetch_timeout f = (if fe_timeout f > 0 then fe_timeout f else 10 * second)"

definition max_per_request :: "fetcher \<Rightarrow> int" where
  "max_per_request f = (if fe_max_per_request f > 0 then fe_max_per_request f else 8)"

definition image_ceil_seconds :: "duration \<Rightarrow> int" where
  "image_ceil_seconds d =
     (let n = sgn (d + second - 1) * (\<bar>d + second - 1\<bar> div second) in if n > 0 then n else 1)"

text \<open>The wait for a slot is over: the client hung up, or the gateway is full.\<close>

definition queue_error :: "fetcher \<Rightarrow> bool \<Rightarrow> go_error" where
  "queue_error f cancelled =
     (if cancelled then [Canceled]
      else [ProviderNode ((mk_provider_error 429 ''rate_limit_exceeded'' [])
             \<lparr>pe_code := ''image_fetch_saturated'', pe_retry_after := image_ceil_seconds (fetch_timeout f)\<rparr>)])"

definition fetch_error :: "net_failure \<Rightarrow> provider_error" where
  "fetch_error err = (transport_error err)\<lparr>pe_not_sent := False, pe_retryable := False, pe_client_input := True\<rparr>"

record image_answer =
  ia_status :: int
  ia_content_type :: bytes
  ia_cache_control :: bytes
  ia_content_length :: int
  ia_body :: bytes
  ia_read_failure :: "net_failure option"

datatype image_reply = BadTarget | FetchFailed net_failure | Fetched image_answer

text \<open>What a download meets: the parsed address, the client if there is one, whether a slot was had.\<close>

record fetch_world =
  fw_url :: "bytes \<Rightarrow> url option"
  fw_client :: "(bytes \<Rightarrow> image_reply) option"
  fw_slot :: "bytes \<Rightarrow> bool option"
  fw_now :: time
  fw_later :: time

definition fetch_ok :: "fetcher \<Rightarrow> bytes list \<Rightarrow> image_answer \<Rightarrow> provider_error + bytes \<times> bytes" where
  "fetch_ok f accepts resp =
     (let media_type = media_type_of (ia_content_type resp);
          body = take (nat (fetch_max_bytes f + 1)) (ia_body resp) in
      if \<not> success_status (ia_status resp) then Inl image_error
      else if media_type \<notin> set accepts then Inl image_error
      else if ia_content_length resp > fetch_max_bytes f then Inl image_error
      else (case ia_read_failure resp of
              Some err \<Rightarrow> Inl (fetch_error err)
            | None \<Rightarrow>
                (if int (length body) > fetch_max_bytes f then Inl image_error
                 else Inr (media_type, b64_encode body))))"

definition cacheable :: "image_answer \<Rightarrow> bool" where
  "cacheable resp \<longleftrightarrow> \<not> mentions (lower (ia_cache_control resp)) ''no-store''"

definition fetch_image ::
  "fetcher \<Rightarrow> fetch_world \<Rightarrow> bytes list \<Rightarrow> bytes \<Rightarrow> image_cache option \<Rightarrow> (go_error + bytes \<times> bytes) \<times> image_cache option" where
  "fetch_image f w accepts raw_url cache =
     (case fw_url w raw_url of
        None \<Rightarrow> (Inl [ProviderNode image_error], cache)
      | Some u \<Rightarrow>
          (if u_host u = [] \<or> u_scheme u \<noteq> ''http'' \<and> u_scheme u \<noteq> ''https''
           then (Inl [ProviderNode image_error], cache)
           else
             (let (hit, cache) = (case cache of
                    None \<Rightarrow> (None, None)
                  | Some c \<Rightarrow> (let (h, c) = image_get raw_url (fw_now w) c in (h, Some c))) in
              case hit of
                Some (mt, data) \<Rightarrow>
                  (if mt \<notin> set accepts then (Inl [ProviderNode image_error], cache) else (Inr (mt, data), cache))
              | None \<Rightarrow>
                  (case fw_client w of
                     None \<Rightarrow> (Inl [ProviderNode image_error], cache)
                   | Some send \<Rightarrow>
                       (case fw_slot w raw_url of
                          Some cancelled \<Rightarrow> (Inl (queue_error f cancelled), cache)
                        | None \<Rightarrow>
                            (case send raw_url of
                               BadTarget \<Rightarrow> (Inl [ProviderNode image_error], cache)
                             | FetchFailed err \<Rightarrow> (Inl [ProviderNode (fetch_error err)], cache)
                             | Fetched resp \<Rightarrow>
                                 (case fetch_ok f accepts resp of
                                    Inl err \<Rightarrow> (Inl [ProviderNode err], cache)
                                  | Inr (mt, data) \<Rightarrow>
                                      (Inr (mt, data),
                                       (if cacheable resp
                                        then map_option (image_put raw_url mt data (fw_later w)) cache
                                        else cache)))))))))"

section \<open>The budget of one request\<close>

record image_budget =
  bu_fetcher :: "fetcher option"
  bu_accepts :: "bytes list"
  bu_taken :: int

definition new_budget :: "fetcher option \<Rightarrow> bytes \<Rightarrow> image_budget" where
  "new_budget f provider_type =
     \<lparr>bu_fetcher = f, bu_accepts = image_media_types_for provider_type, bu_taken = 0\<rparr>"

text \<open>What it leaves behind: the addresses fetched, the budget and the cache.\<close>

definition inline ::
  "fetch_world \<Rightarrow> image_ref \<Rightarrow> image_budget \<times> image_cache option
     \<Rightarrow> (go_error + image_ref) \<times> bytes list \<times> image_budget \<times> image_cache option" where
  "inline w ref st =
     (let (b, cache) = st in
      case bu_fetcher b of
        None \<Rightarrow> (Inr ref, [], st)
      | Some f \<Rightarrow>
          (if im_url ref = [] then (Inr ref, [], st)
           else if bu_taken b \<ge> max_per_request f then (Inl [ProviderNode image_error], [], st)
           else
             (let b = b\<lparr>bu_taken := bu_taken b + 1\<rparr>;
                  (r, cache) = fetch_image f w (bu_accepts b) (im_url ref) cache in
              case r of
                Inl err \<Rightarrow> (Inl err, [im_url ref], (b, cache))
              | Inr (mt, data) \<Rightarrow>
                  (Inr \<lparr>im_media_type = mt, im_base64 = data, im_url = []\<rparr>, [im_url ref], (b, cache)))))"

text \<open>The images of one request, in order; the first failure ends it.\<close>

fun inline_all ::
  "fetch_world \<Rightarrow> image_ref list \<Rightarrow> image_budget \<times> image_cache option
     \<Rightarrow> (go_error + image_ref list) \<times> bytes list \<times> image_budget \<times> image_cache option" where
  "inline_all w [] st = (Inr [], [], st)"
| "inline_all w (ref # refs) st =
     (case inline w ref st of
        (Inl err, sent, st) \<Rightarrow> (Inl err, sent, st)
      | (Inr r, sent, st) \<Rightarrow>
          (case inline_all w refs st of
             (Inl err, tail, st) \<Rightarrow> (Inl err, sent @ tail, st)
           | (Inr rs, tail, st) \<Rightarrow> (Inr (r # rs), sent @ tail, st)))"

section \<open>Facts\<close>

lemma b64_value_char: "n < 64 \<Longrightarrow> b64_value (b64_char n) = Some n \<and> b64_char n \<noteq> CHR ''='' \<and> b64_char n \<noteq> CHR 0x0D \<and> b64_char n \<noteq> CHR 0x0A"
proof -
  have "list_all (\<lambda>n. b64_value (b64_char n) = Some n \<and> b64_char n \<noteq> CHR ''='' \<and> b64_char n \<noteq> CHR 0x0D \<and> b64_char n \<noteq> CHR 0x0A) [0..<64]"
    by code_simp
  then show "n < 64 \<Longrightarrow> b64_value (b64_char n) = Some n \<and> b64_char n \<noteq> CHR ''='' \<and> b64_char n \<noteq> CHR 0x0D \<and> b64_char n \<noteq> CHR 0x0A"
    by (simp add: list_all_iff)
qed

lemma byte_less: "(of_char c :: nat) < 256"
  by (metis of_char_mod_256 mod_less_divisor zero_less_numeral)

lemma b64_pieces:
  fixes x y z :: nat
  assumes "x < 256" "y < 256" "z < 256"
  shows "x div 4 < 64" "x mod 4 * 16 + y div 16 < 64" "y mod 16 * 4 + z div 64 < 64" "z mod 64 < 64"
    "x div 4 * 4 + (x mod 4 * 16 + y div 16) div 16 = x"
    "(x mod 4 * 16 + y div 16) mod 16 * 16 + (y mod 16 * 4 + z div 64) div 4 = y"
    "(y mod 16 * 4 + z div 64) mod 4 * 64 + z mod 64 = z"
proof -
  have "y div 16 < 16" "z div 64 < 4" using assms by simp_all
  then show "x mod 4 * 16 + y div 16 < 64" "y mod 16 * 4 + z div 64 < 64"
    "x div 4 * 4 + (x mod 4 * 16 + y div 16) div 16 = x"
    "(x mod 4 * 16 + y div 16) mod 16 * 16 + (y mod 16 * 4 + z div 64) div 4 = y"
    "(y mod 16 * 4 + z div 64) mod 4 * 64 + z mod 64 = z"
    using mod_less_divisor [of 4 x] mod_less_divisor [of 16 y] by simp_all
qed (use assms in simp_all)

lemma b64_quads_encode: "b64_quads (b64_encode s) = Some s"
proof (induction s rule: b64_encode.induct)
  case (2 a)
  show ?case
    using b64_pieces [of "of_char a" 0 0] byte_less [of a] by (simp add: Let_def b64_value_char)
next
  case (3 a b)
  have "(of_char b :: nat) div 16 < 16" by (rule less_mult_imp_div_less) (use byte_less [of b] in simp)
  then show ?case
    using b64_pieces [of "of_char a" "of_char b" 0] byte_less [of a] byte_less [of b] by (simp add: Let_def b64_value_char)
next
  case (4 a b c rest)
  have "(of_char b :: nat) div 16 < 16" "(of_char c :: nat) div 64 < 4"
    by (rule less_mult_imp_div_less, use byte_less [of b] byte_less [of c] in simp)+
  then show ?case
    using 4 b64_pieces [of "of_char a" "of_char b" "of_char c"] byte_less [of a] byte_less [of b] byte_less [of c]
    by (simp add: Let_def b64_value_char)
qed simp

lemma b64_encode_no_breaks: "filter (\<lambda>c. c \<noteq> CHR 0x0D \<and> c \<noteq> CHR 0x0A) (b64_encode s) = b64_encode s"
proof (induction s rule: b64_encode.induct)
  case (2 a)
  show ?case
    using b64_pieces [of "of_char a" 0 0] byte_less [of a] by (simp add: Let_def b64_value_char)
next
  case (3 a b)
  show ?case
    using b64_pieces [of "of_char a" "of_char b" 0] byte_less [of a] byte_less [of b] by (simp add: Let_def b64_value_char)
next
  case (4 a b c rest)
  then show ?case
    using b64_pieces [of "of_char a" "of_char b" "of_char c"] byte_less [of a] byte_less [of b] byte_less [of c]
    by (simp add: Let_def b64_value_char)
qed simp

lemma b64_decode_encode: "b64_decode (b64_encode s) = Some s"
  by (simp add: b64_decode_def b64_encode_no_breaks b64_quads_encode)

text \<open>An inline image an adapter may forward.\<close>

definition sendable :: "bytes list \<Rightarrow> image_ref \<Rightarrow> bool" where
  "sendable accepts ref \<longleftrightarrow>
     im_media_type ref \<in> set accepts \<and> im_base64 ref \<noteq> [] \<and> b64_decode (im_base64 ref) \<noteq> None \<and> im_url ref = []"

definition remote :: "image_ref \<Rightarrow> bool" where
  "remote ref \<longleftrightarrow> im_url ref \<noteq> [] \<and> im_base64 ref = []"

lemma parse_image_url_ref:
  "parse_image_url u accepts = Inr ref \<Longrightarrow> u \<noteq> [] \<Longrightarrow> sendable accepts ref \<or> remote ref"
  by (auto simp: parse_image_url_def sendable_def remote_def no_image_def Let_def split: if_splits prod.splits option.splits)

lemma parse_parts_images:
  "parse_parts accepts ps = Inr parts \<Longrightarrow> p \<in> set parts \<Longrightarrow>
   if pt_type p = ''text'' then pt_image p = no_image
   else pt_type p = ''image_url'' \<and> (sendable accepts (pt_image p) \<or> remote (pt_image p))"
proof (induction ps arbitrary: parts)
  case (Cons w ps)
  show ?case
  proof (cases "wp_type w = ''text'' \<or> wp_type w = []")
    case True
    with Cons show ?thesis by (auto split: sum.splits)
  next
    case False
    show ?thesis
    proof (cases "wp_type w = ''image_url'' \<and> wp_url w \<noteq> []")
      case image: True
      with False Cons.prems(1) obtain ref rest where r: "parse_image_url (wp_url w) accepts = Inr ref"
        "parse_parts accepts ps = Inr rest"
        "parts = \<lparr>pt_type = ''image_url'', pt_text = [], pt_image = ref, pt_cache_control = wp_cache_control w\<rparr> # rest"
        by (auto split: sum.splits)
      from parse_image_url_ref [OF r(1)] image have "sendable accepts ref \<or> remote ref" by simp
      with Cons.IH [OF r(2)] Cons.prems(2) r(3) show ?thesis by auto
    next
      case other: False
      with False Cons show ?thesis by simp
    qed
  qed
qed simp

lemma parse_content_images:
  assumes "parse_content r accepts = Inr parts" "p \<in> set parts"
  shows "if pt_type p = ''text'' then pt_image p = no_image
    else pt_type p = ''image_url'' \<and> (sendable accepts (pt_image p) \<or> remote (pt_image p))"
proof (cases "unmarshal dec_string [] r")
  case None
  with assms(1) obtain ps where "parse_parts accepts ps = Inr parts"
    by (auto simp: parse_content_def split: option.splits)
  from parse_parts_images [OF this assms(2)] show ?thesis .
next
  case (Some s)
  with assms show ?thesis by (auto simp: parse_content_def)
qed

lemma parse_content_error:
  assumes "parse_content r accepts = Inl err"
  shows "err = image_error"
proof -
  have url: "parse_image_url u accepts = Inl e \<Longrightarrow> e = image_error" for u e
    by (auto simp: parse_image_url_def split: if_splits prod.splits option.splits)
  have "parse_parts accepts ps = Inl e \<Longrightarrow> e = image_error" for ps e
    by (induction ps) (auto split: if_splits sum.splits dest: url)
  with assms show ?thesis by (auto simp: parse_content_def split: option.splits)
qed

lemma fetch_image_result:
  "fst (fetch_image f w accepts url cache) = Inr (mt, data) \<Longrightarrow> mt \<in> set accepts"
  by (auto simp: fetch_image_def fetch_ok_def Let_def split: option.splits if_splits prod.splits image_reply.splits sum.splits)

lemma inline_counts:
  assumes "inline w ref (b, cache) = (r, sent, (b', cache'))"
  shows "bu_fetcher b' = bu_fetcher b \<and> bu_accepts b' = bu_accepts b \<and> bu_taken b' = bu_taken b + int (length sent)
    \<and> (case bu_fetcher b of None \<Rightarrow> sent = [] | Some f \<Rightarrow> sent = [] \<or> bu_taken b' \<le> max_per_request f)"
  using assms by (auto simp: inline_def Let_def split: option.splits if_splits prod.splits sum.splits)

lemma inline_all_counts:
  "inline_all w refs (b, cache) = (r, sent, (b', cache')) \<Longrightarrow>
   bu_fetcher b' = bu_fetcher b \<and> bu_accepts b' = bu_accepts b \<and> bu_taken b' = bu_taken b + int (length sent)
   \<and> (case bu_fetcher b of None \<Rightarrow> sent = [] | Some f \<Rightarrow> sent = [] \<or> bu_taken b' \<le> max_per_request f)"
proof (induction refs arbitrary: b cache r sent b' cache')
  case (Cons ref refs)
  obtain r1 sent1 b1 cache1 where one: "inline w ref (b, cache) = (r1, sent1, (b1, cache1))" by (metis surj_pair)
  note c1 = inline_counts [OF one]
  show ?case
  proof (cases r1)
    case (Inl err)
    with Cons.prems one c1 show ?thesis by clarsimp
  next
    case (Inr x)
    obtain r2 sent2 b2 cache2 where two: "inline_all w refs (b1, cache1) = (r2, sent2, (b2, cache2))" by (metis surj_pair)
    from Cons.IH [OF two] c1 Cons.prems one Inr two show ?thesis by (auto split: sum.splits option.splits)
  qed
qed (auto split: option.split)

lemma image_errors_terminal:
  "classify_attempt [ProviderNode image_error] = terminal_class"
  "classify_attempt [ProviderNode (fetch_error err)] = terminal_class"
  "classify_attempt (queue_error f c) = terminal_class"
  by (simp_all add: classify_attempt_def image_error_def client_error_def fetch_error_def queue_error_def
      mk_provider_error_def as_target_config_def)

lemma fetch_ok_error: "fetch_ok f accepts resp = Inl e \<Longrightarrow> classify_attempt [ProviderNode e] = terminal_class"
  by (auto simp: fetch_ok_def Let_def image_errors_terminal split: if_splits option.splits)

lemma fetch_image_error: "fst (fetch_image f w accepts url cache) = Inl err \<Longrightarrow> classify_attempt err = terminal_class"
  by (auto simp: fetch_image_def Let_def image_errors_terminal fetch_ok_error
      split: option.splits if_splits prod.splits image_reply.splits sum.splits)

lemma inline_result:
  assumes "inline w ref (b, cache) = (r, sent, st)"
  shows "case r of Inl err \<Rightarrow> classify_attempt err = terminal_class
    | Inr x \<Rightarrow> x = ref \<or> im_media_type x \<in> set (bu_accepts b)"
proof (cases "bu_fetcher b = None \<or> im_url ref = []")
  case True
  with assms show ?thesis by (auto simp: inline_def split: option.splits)
next
  case False
  then obtain f where f: "bu_fetcher b = Some f" "im_url ref \<noteq> []" by auto
  let ?got = "fetch_image f w (bu_accepts b) (im_url ref) cache"
  show ?thesis
  proof (cases "fst ?got")
    case (Inl err)
    with assms f fetch_image_error [OF Inl] show ?thesis
      by (auto simp: inline_def Let_def case_prod_beta image_errors_terminal split: if_splits)
  next
    case (Inr x)
    obtain mt data where x: "x = (mt, data)" by (cases x)
    with assms f Inr fetch_image_result [of f w "bu_accepts b" "im_url ref" cache mt data] show ?thesis
      by (auto simp: inline_def Let_def case_prod_beta image_errors_terminal split: if_splits)
  qed
qed

lemma inline_all_result:
  "inline_all w refs (b, cache) = (r, sent, st) \<Longrightarrow>
   case r of Inl err \<Rightarrow> classify_attempt err = terminal_class
   | Inr rs \<Rightarrow> length rs = length refs
       \<and> list_all (\<lambda>x. x \<in> set refs \<or> im_media_type x \<in> set (bu_accepts b)) rs"
proof (induction refs arbitrary: b cache r sent st)
  case (Cons ref refs)
  obtain r1 sent1 b1 cache1 where one: "inline w ref (b, cache) = (r1, sent1, (b1, cache1))" by (metis surj_pair)
  obtain r2 sent2 st2 where two: "inline_all w refs (b1, cache1) = (r2, sent2, st2)" by (metis surj_pair)
  from inline_result [OF one] inline_counts [OF one] Cons.IH [OF two] Cons.prems one two
  show ?case by (cases r1; cases r2) (auto simp: list_all_iff)
qed simp

section \<open>Properties\<close>

text \<open>Of the parts of a message only texts and images come out, and an image that is inline has a
  listed media type and a payload that is not empty and decodes; a downloaded image has a
  listed media type and its payload decodes to the bytes that were read, at most the limit.\<close>

theorem only_listed_images_are_sent:
  "(case parse_content r accepts of
      Inl err \<Rightarrow> pe_status err = 400
    | Inr parts \<Rightarrow>
        list_all (\<lambda>p. if pt_type p = ''text'' then pt_image p = no_image
                      else pt_type p = ''image_url'' \<and> (sendable accepts (pt_image p) \<or> remote (pt_image p))) parts)
   \<and> (case fetch_ok f accepts resp of
        Inl err \<Rightarrow> True
      | Inr (mt, data) \<Rightarrow>
          mt \<in> set accepts \<and> success_status (ia_status resp)
          \<and> b64_decode data = Some (ia_body resp) \<and> int (length (ia_body resp)) \<le> fetch_max_bytes f)"
proof
  show "case parse_content r accepts of
      Inl err \<Rightarrow> pe_status err = 400
    | Inr parts \<Rightarrow>
        list_all (\<lambda>p. if pt_type p = ''text'' then pt_image p = no_image
                      else pt_type p = ''image_url'' \<and> (sendable accepts (pt_image p) \<or> remote (pt_image p))) parts"
    using parse_content_images [of r accepts] parse_content_error [of r accepts]
    by (auto simp: list_all_iff image_error_def client_error_def split: sum.split)
  have "0 < fetch_max_bytes f" by (simp add: fetch_max_bytes_def)
  then have whole: "int (length (take (nat (fetch_max_bytes f + 1)) body)) \<le> fetch_max_bytes f \<Longrightarrow>
      take (nat (fetch_max_bytes f + 1)) body = body" for body :: bytes
    by (cases "length body \<le> nat (fetch_max_bytes f + 1)") (simp_all add: min_def)
  then show "case fetch_ok f accepts resp of
        Inl err \<Rightarrow> True
      | Inr (mt, data) \<Rightarrow>
          mt \<in> set accepts \<and> success_status (ia_status resp)
          \<and> b64_decode data = Some (ia_body resp) \<and> int (length (ia_body resp)) \<le> fetch_max_bytes f"
    unfolding fetch_ok_def Let_def using whole [of "ia_body resp"]
    by (auto simp: b64_decode_encode split: option.split)
qed

text \<open>One request makes at most as many downloads as its budget allows, whatever it holds, and none
  without a fetcher; and no failure to get an image is taken for a failure of the target: it is
  neither repeated nor does it move the request to another target.\<close>

theorem image_failures_stay_with_the_client:
  "(case inline_all w refs (new_budget fetcher provider, cache) of (r, sent, _) \<Rightarrow>
      int (length sent) \<le> (case fetcher of None \<Rightarrow> 0 | Some f \<Rightarrow> max_per_request f)
      \<and> (case r of
           Inl err \<Rightarrow> classify_attempt err = terminal_class
         | Inr rs \<Rightarrow> length rs = length refs
             \<and> list_all (\<lambda>x. x \<in> set refs \<or> im_media_type x \<in> set (image_media_types_for provider)) rs))"
proof -
  obtain r sent b st where all: "inline_all w refs (new_budget fetcher provider, cache) = (r, sent, (b, st))"
    by (metis surj_pair)
  have "0 < max_per_request f" for f by (simp add: max_per_request_def)
  with inline_all_counts [OF all] inline_all_result [OF all] show ?thesis
    unfolding all by (cases fetcher; cases r) (auto simp: new_budget_def less_imp_le)
qed

end
