(* ===== verification/Anthropic.thy ===== *)
theory Anthropic
  imports AnthropicFormat Images
begin

text \<open>
  The request half of \<open>internal/provider/anthropic.go\<close>: what is decided about thinking and the
  response format of a request, and its translation into the Messages API. Parsing the text of
  tool arguments is a parameter. Images are not fetched for this provider.
\<close>

section \<open>The Messages API\<close>

record an_image =
  ai_type :: bytes
  ai_media_type :: bytes
  ai_data :: bytes
  ai_url :: bytes

record an_content =
  bl_type :: bytes
  bl_text :: bytes
  bl_id :: bytes
  bl_name :: bytes
  bl_input :: raw
  bl_tool_use_id :: bytes
  bl_content :: raw
  bl_is_error :: bool
  bl_source :: "an_image option"
  bl_cache_control :: raw
  bl_thinking :: "bytes option"
  bl_signature :: bytes
  bl_data :: bytes

record an_message =
  am_role :: bytes
  am_content :: "an_content list"

record an_output_config =
  oc_effort :: bytes
  oc_format :: raw

record an_request =
  aq_model :: bytes
  aq_system :: raw
  aq_messages :: "an_message list"
  aq_max_tokens :: int
  aq_temperature :: "f64 option"
  aq_top_p :: "f64 option"
  aq_stop_sequences :: "bytes list"
  aq_stream :: bool
  aq_tools :: "anthropic_tool list"
  aq_tool_choice :: raw
  aq_thinking :: "anthropic_thinking option"
  aq_output_config :: "an_output_config option"

definition no_content :: an_content where
  "no_content = \<lparr>bl_type = [], bl_text = [], bl_id = [], bl_name = [], bl_input = None, bl_tool_use_id = [],
     bl_content = None, bl_is_error = False, bl_source = None, bl_cache_control = None, bl_thinking = None,
     bl_signature = [], bl_data = []\<rparr>"

definition text_block :: "bytes \<Rightarrow> an_content" where
  "text_block t = no_content\<lparr>bl_type := ''text'', bl_text := t\<rparr>"

definition marshal_source :: "an_image \<Rightarrow> json" where
  "marshal_source i =
     JObj ([(''type'', JStr (ai_type i))] @ opt_str ''media_type'' (ai_media_type i)
       @ opt_str ''data'' (ai_data i) @ opt_str ''url'' (ai_url i))"

definition marshal_content :: "an_content \<Rightarrow> json" where
  "marshal_content b =
     JObj ([(''type'', JStr (bl_type b))] @ opt_str ''text'' (bl_text b) @ opt_str ''id'' (bl_id b)
       @ opt_str ''name'' (bl_name b) @ opt_raw ''input'' (bl_input b) @ opt_str ''tool_use_id'' (bl_tool_use_id b)
       @ opt_raw ''content'' (bl_content b) @ opt_true ''is_error'' (bl_is_error b)
       @ (case bl_source b of Some i \<Rightarrow> [(''source'', marshal_source i)] | None \<Rightarrow> [])
       @ opt_raw ''cache_control'' (bl_cache_control b)
       @ (case bl_thinking b of Some t \<Rightarrow> [(''thinking'', JStr t)] | None \<Rightarrow> [])
       @ opt_str ''signature'' (bl_signature b) @ opt_str ''data'' (bl_data b))"

section \<open>Thinking and format\<close>

record thinking_setup =
  su_plan :: effort_plan
  su_strip_history :: bool
  su_drop_top_p :: bool
  su_format :: format_plan
  su_auto_tool_choice :: bool
  su_warnings :: "effort_warning list"

definition warnForcedToolAuto where "warnForcedToolAuto = Text ''tool_choice required or naming a tool is not supported by this model; auto is used''"
definition warnThinkingForcedTool where "warnThinkingForcedTool = Text ''thinking disabled for this request: a forced tool_choice cannot be combined with thinking on this model''"
definition warnThinkingToolRound where "warnThinkingToolRound = Text ''thinking disabled for this request: it continues a tool round without a thinking block''"
definition warnTopPThinking where "warnTopPThinking = Text ''top_p below 0.95 is not supported while thinking is enabled; ignored''"
definition warnThinkingPrefixDropped where "warnThinkingPrefixDropped = Text ''thinking blocks of earlier turns were dropped''"
definition anthropicFormatThinkingWarning where "anthropicFormatThinkingWarning = Text ''thinking disabled for this request: response_format is enforced through a forced tool call''"
definition temperatureDropped where "temperatureDropped = Text ''temperature is not supported while thinking is enabled; ignored''"
definition reasoningContentDropped where "reasoningContentDropped = Text ''reasoning_content is not sent to anthropic''"

text \<open>0.95 as a float64.\<close>

definition anthropicMinThinkingTopP :: f64 where
  "anthropicMinThinkingTopP = fl (95 / 100)"

definition name_field :: "bytes \<Rightarrow> bytes decoder" where
  "name_field k s j = (if names_field k ''name'' then dec_string s j else (s, False))"

definition function_name_field :: "bytes \<Rightarrow> bytes decoder" where
  "function_name_field k s j = (if names_field k ''function'' then dec_struct name_field s j else (s, False))"

text \<open>The name of the function a tool choice that is no string asks for.\<close>

definition chosen_function :: "raw \<Rightarrow> bytes" where
  "chosen_function choice =
     (case unmarshal (dec_struct function_name_field) [] choice of Some s \<Rightarrow> s | None \<Rightarrow> [])"

definition forced_tool_choice :: "chat_request \<Rightarrow> bool" where
  "forced_tool_choice req =
     (if cr_tools req = None \<or> cr_tool_choice req = None then False
      else (case unmarshal dec_string [] (cr_tool_choice req) of
              Some s \<Rightarrow> s = ''required''
            | None \<Rightarrow> chosen_function (cr_tool_choice req) \<noteq> []))"

definition tool_turn_without_thinking :: "message list \<Rightarrow> bool" where
  "tool_turn_without_thinking msgs =
     (if msgs = [] \<or> m_role (last msgs) \<noteq> ''tool'' then False
      else (case find (\<lambda>m. m_role m = ''assistant'') (rev msgs) of
              None \<Rightarrow> False
            | Some m \<Rightarrow>
                (case parse_thinking_blocks (m_thinking m) of
                   Inl _ \<Rightarrow> True
                 | Inr blocks \<Rightarrow> replayable_thinking blocks = [])))"

definition below_min_top_p :: "f64 option \<Rightarrow> bool" where
  "below_min_top_p p = (case p of None \<Rightarrow> False | Some x \<Rightarrow> f_less x anthropicMinThinkingTopP)"

definition thinking_is :: "effort_plan \<Rightarrow> bytes \<Rightarrow> bool" where
  "thinking_is plan t = (case ep_thinking plan of None \<Rightarrow> False | Some x \<Rightarrow> at_type x = t)"

text \<open>Thinking gives way to the forced tool of a response format and, when it is manual, to a forced
  tool choice or a tool round that cannot be continued.\<close>

definition give_way :: "format_plan \<Rightarrow> chat_request \<Rightarrow> effort_plan \<Rightarrow> effort_plan" where
  "give_way format req plan =
     (let n = max_output_tokens req;
          plan = (if tool_mode format \<and> ep_thinking plan \<noteq> None \<and> \<not> thinking_is plan ''disabled''
                  then drop_thinking n anthropicFormatThinkingWarning plan else plan) in
      if thinking_is plan ''enabled'' then
        (if forced_tool_choice req then drop_thinking n warnThinkingForcedTool plan
         else if tool_turn_without_thinking (cr_messages req) then drop_thinking n warnThinkingToolRound plan
         else plan)
      else plan)"

definition setup_thinking :: "(json \<Rightarrow> bytes) \<Rightarrow> bytes \<Rightarrow> chat_request \<Rightarrow> provider_error + thinking_setup" where
  "setup_thinking show model req =
     (case validate_request_thinking (cr_messages req) of
        Some err \<Rightarrow> Inl err
      | None \<Rightarrow>
          (let caps = capabilities_for ''anthropic'' model; (effort, is_set) = reasoning_effort show req;
               max_tokens = max_output_tokens req in
           case plan_effort caps model effort is_set max_tokens of
             Inl err \<Rightarrow> Inl err
           | Inr plan \<Rightarrow>
               (case plan_anthropic_format caps req of
                  Inl err \<Rightarrow> Inl err
                | Inr format \<Rightarrow>
                    (let plan = give_way format req plan;
                         auto = (\<not> cap_forced_tool_choice caps \<and> forced_tool_choice req);
                         warnings = (if auto then [warnForcedToolAuto] else []) @ fp_warnings format;
                         warnings = warnings @ ep_warnings plan;
                         warnings = (if ep_drop_temperature plan \<and> cr_temperature req \<noteq> None
                                     then warnings @ [temperatureDropped] else warnings);
                         drop_top_p = (ep_drop_temperature plan \<and> below_min_top_p (cr_top_p req));
                         warnings = (if drop_top_p then warnings @ [warnTopPThinking] else warnings);
                         strip = (cr_rag_active req \<and> cap_thinking_prefix_bound caps
                                  \<and> has_replayable_thinking (cr_messages req));
                         warnings = (if strip then warnings @ [warnThinkingPrefixDropped] else warnings);
                         warnings = (if has_reasoning_content (cr_messages req)
                                     then warnings @ [reasoningContentDropped] else warnings) in
                     Inr \<lparr>su_plan = plan, su_strip_history = strip, su_drop_top_p = drop_top_p,
                          su_format = format, su_auto_tool_choice = auto, su_warnings = warnings\<rparr>))))"

definition request_warnings :: "(json \<Rightarrow> bytes) \<Rightarrow> bytes \<Rightarrow> chat_request \<Rightarrow> effort_warning list" where
  "request_warnings show model req =
     (case setup_thinking show model req of Inr su \<Rightarrow> su_warnings su | Inl _ \<Rightarrow> [])"

section \<open>Messages\<close>

text \<open>Consecutive messages of one role become one.\<close>

definition append_anthropic :: "an_message list \<Rightarrow> bytes \<Rightarrow> an_content list \<Rightarrow> an_message list" where
  "append_anthropic msgs role parts =
     (if msgs \<noteq> [] \<and> am_role (last msgs) = role
      then butlast msgs @ [(last msgs)\<lparr>am_content := am_content (last msgs) @ parts\<rparr>]
      else msgs @ [\<lparr>am_role = role, am_content = parts\<rparr>])"

definition anthropic_system :: "an_content list \<Rightarrow> json" where
  "anthropic_system blocks =
     (if list_all (\<lambda>b. bl_cache_control b = None) blocks
      then JStr (join [CHR 0x0A, CHR 0x0A] (map bl_text blocks))
      else JArr (map marshal_content blocks))"

definition content_cache_control :: "raw \<Rightarrow> raw" where
  "content_cache_control r =
     (case parse_content r (image_media_types_for ''anthropic'') of
        Inl _ \<Rightarrow> None
      | Inr parts \<Rightarrow> fold (\<lambda>p cc. if pt_cache_control p \<noteq> None then pt_cache_control p else cc) parts None)"

definition part_to_anthropic :: "part \<Rightarrow> an_content list" where
  "part_to_anthropic p =
     (if pt_type p = ''text'' then [(text_block (pt_text p))\<lparr>bl_cache_control := pt_cache_control p\<rparr>]
      else if im_base64 (pt_image p) \<noteq> []
      then [no_content\<lparr>bl_type := ''image'', bl_cache_control := pt_cache_control p,
              bl_source := Some \<lparr>ai_type = ''base64'', ai_media_type = im_media_type (pt_image p),
                                 ai_data = im_base64 (pt_image p), ai_url = []\<rparr>\<rparr>]
      else if im_url (pt_image p) \<noteq> []
      then [no_content\<lparr>bl_type := ''image'', bl_cache_control := pt_cache_control p,
              bl_source := Some \<lparr>ai_type = ''url'', ai_media_type = [], ai_data = [], ai_url = im_url (pt_image p)\<rparr>\<rparr>]
      else [])"

definition parts_to_anthropic :: "bytes list \<Rightarrow> raw \<Rightarrow> provider_error + an_content list" where
  "parts_to_anthropic accepts r =
     (case parse_content r accepts of
        Inl err \<Rightarrow> Inl err
      | Inr parts \<Rightarrow>
          (let out = concat (map part_to_anthropic parts) in Inr (if out = [] then [text_block []] else out)))"

text \<open>The content of a message that starts with a bracket is an array.\<close>

definition is_array :: "raw \<Rightarrow> bool" where
  "is_array r = (case r of Some (JArr _) \<Rightarrow> True | _ \<Rightarrow> False)"

definition tool_result_content :: "bytes list \<Rightarrow> message \<Rightarrow> provider_error + an_content" where
  "tool_result_content accepts m =
     (let block = no_content\<lparr>bl_type := ''tool_result'', bl_tool_use_id := m_tool_call_id m, bl_is_error := m_is_error m\<rparr>;
          plain = (if message_text m \<noteq> [] then block\<lparr>bl_content := Some (JStr (message_text m))\<rparr> else block) in
      if is_array (m_content m) then
        (case parts_to_anthropic accepts (m_content m) of
           Inl err \<Rightarrow> Inl err
         | Inr parts \<Rightarrow>
             (if list_ex (\<lambda>b. bl_type b = ''image'') parts
              then Inr (block\<lparr>bl_content := Some (JArr (map (\<lambda>b. marshal_content (b\<lparr>bl_cache_control := None\<rparr>)) parts))\<rparr>)
              else Inr plain))
      else Inr plain)"

record wire_call =
  wc_id :: bytes
  wc_name :: bytes
  wc_arguments :: bytes

definition call_function_field :: "bytes \<Rightarrow> wire_call decoder" where
  "call_function_field k c j =
     (if names_field k ''name'' then (let (s, e) = dec_string (wc_name c) j in (c\<lparr>wc_name := s\<rparr>, e))
      else if names_field k ''arguments'' then (let (s, e) = dec_string (wc_arguments c) j in (c\<lparr>wc_arguments := s\<rparr>, e))
      else (c, False))"

definition wire_call_field :: "bytes \<Rightarrow> wire_call decoder" where
  "wire_call_field k c j =
     (if names_field k ''id'' then (let (s, e) = dec_string (wc_id c) j in (c\<lparr>wc_id := s\<rparr>, e))
      else if names_field k ''function'' then dec_struct call_function_field c j
      else (c, False))"

definition calls_of :: "raw \<Rightarrow> wire_call list" where
  "calls_of r =
     (case unmarshal (dec_slice (dec_struct wire_call_field) \<lparr>wc_id = [], wc_name = [], wc_arguments = []\<rparr>) [] r of
        Some calls \<Rightarrow> calls
      | None \<Rightarrow> [])"

definition tool_use_block :: "(bytes \<Rightarrow> raw) \<Rightarrow> wire_call \<Rightarrow> an_content" where
  "tool_use_block parse c =
     no_content\<lparr>bl_type := ''tool_use'', bl_id := wc_id c, bl_name := wc_name c,
       bl_input := (case parse (wc_arguments c) of Some j \<Rightarrow> Some j | None \<Rightarrow> Some (JObj []))\<rparr>"

definition replayed_block :: "thinking_block \<Rightarrow> an_content" where
  "replayed_block b =
     no_content\<lparr>bl_type := tb_type b, bl_signature := tb_signature b, bl_data := tb_data b,
       bl_thinking := (if tb_type b = thinkingBlockThinking then Some (tb_thinking b) else None)\<rparr>"

text \<open>The blocks sent back and the turn itself.\<close>

definition assistant_turn :: "(bytes \<Rightarrow> raw) \<Rightarrow> bool \<Rightarrow> message \<Rightarrow> an_content list \<times> an_content list" where
  "assistant_turn parse strip m =
     (if strip then [] else map replayed_block (replayable_thinking (blocks_of m)),
      (if message_text m \<noteq> [] then [text_block (message_text m)] else [])
      @ map (tool_use_block parse) (calls_of (m_tool_calls m)))"

fun translate_messages ::
  "(bytes \<Rightarrow> raw) \<Rightarrow> bytes list \<Rightarrow> bool \<Rightarrow> message list \<Rightarrow> an_content list \<times> an_message list
     \<Rightarrow> provider_error + an_content list \<times> an_message list" where
  "translate_messages parse accepts strip [] out = Inr out"
| "translate_messages parse accepts strip (m # ms) (system, msgs) =
     (if m_role m = ''system'' \<or> m_role m = ''developer'' then
        translate_messages parse accepts strip ms
          (system @ [(text_block (message_text m))\<lparr>bl_cache_control := content_cache_control (m_content m)\<rparr>], msgs)
      else if m_role m = ''user'' then
        (case parts_to_anthropic accepts (m_content m) of
           Inl err \<Rightarrow> Inl err
         | Inr parts \<Rightarrow> translate_messages parse accepts strip ms (system, append_anthropic msgs ''user'' parts))
      else if m_role m = ''assistant'' then
        (let (replayed, turn) = assistant_turn parse strip m in
         translate_messages parse accepts strip ms
           (system, if turn = [] then msgs else append_anthropic msgs ''assistant'' (replayed @ turn)))
      else if m_role m = ''tool'' then
        (case tool_result_content accepts m of
           Inl err \<Rightarrow> Inl err
         | Inr result \<Rightarrow> translate_messages parse accepts strip ms (system, append_anthropic msgs ''user'' [result]))
      else translate_messages parse accepts strip ms (system, msgs))"

section \<open>Tools\<close>

record wire_tool =
  wt_cache_control :: raw
  wt_name :: bytes
  wt_description :: bytes
  wt_parameters :: raw
  wt_inner_cache_control :: raw

definition tool_function_field :: "bytes \<Rightarrow> wire_tool decoder" where
  "tool_function_field k t j =
     (if names_field k ''name'' then (let (s, e) = dec_string (wt_name t) j in (t\<lparr>wt_name := s\<rparr>, e))
      else if names_field k ''description'' then (let (s, e) = dec_string (wt_description t) j in (t\<lparr>wt_description := s\<rparr>, e))
      else if names_field k ''parameters'' then (t\<lparr>wt_parameters := Some j\<rparr>, False)
      else if names_field k ''cache_control'' then (t\<lparr>wt_inner_cache_control := Some j\<rparr>, False)
      else (t, False))"

definition wire_tool_field :: "bytes \<Rightarrow> wire_tool decoder" where
  "wire_tool_field k t j =
     (if names_field k ''type'' then (let (s, e) = dec_string [] j in (t, e))
      else if names_field k ''cache_control'' then (t\<lparr>wt_cache_control := Some j\<rparr>, False)
      else if names_field k ''function'' then dec_struct tool_function_field t j
      else (t, False))"

definition no_wire_tool :: wire_tool where
  "no_wire_tool = \<lparr>wt_cache_control = None, wt_name = [], wt_description = [], wt_parameters = None,
     wt_inner_cache_control = None\<rparr>"

definition tool_to_anthropic :: "wire_tool \<Rightarrow> anthropic_tool" where
  "tool_to_anthropic t =
     \<lparr>an_name = wt_name t, an_description = wt_description t,
      an_input_schema = (case wt_parameters t of
         Some s \<Rightarrow> s | None \<Rightarrow> JObj [(''type'', JStr ''object''), (''properties'', JObj [])]),
      an_cache_control = (if wt_cache_control t = None then wt_inner_cache_control t else wt_cache_control t)\<rparr>"

definition choice_json :: "bytes \<Rightarrow> json" where
  "choice_json t = JObj [(''type'', JStr t)]"

definition translate_tools :: "chat_request \<Rightarrow> bool \<Rightarrow> anthropic_tool list \<times> raw" where
  "translate_tools req auto =
     (if cr_tools req = None then ([], None)
      else
        (let tools = (case unmarshal (dec_slice (dec_struct wire_tool_field) no_wire_tool) [] (cr_tools req) of
               Some ts \<Rightarrow> map tool_to_anthropic ts | None \<Rightarrow> []) in
         if cr_tool_choice req = None then (tools, None)
         else
           (case unmarshal dec_string [] (cr_tool_choice req) of
              Some s \<Rightarrow>
                (if s = ''auto'' then (tools, Some (choice_json ''auto''))
                 else if s = ''required'' then (tools, Some (choice_json (if auto then ''auto'' else ''any'')))
                 else if s = ''none'' then ([], None)
                 else (tools, None))
            | None \<Rightarrow>
                (let name = chosen_function (cr_tool_choice req) in
                 if name \<noteq> [] then
                   (tools, Some (if auto then choice_json ''auto''
                                 else JObj [(''name'', JStr name), (''type'', JStr ''tool'')]))
                 else (tools, None)))))"

definition anthropicJSONInstruction where "anthropicJSONInstruction = ''Respond with a single valid JSON object and nothing else.''"

definition output_config :: "thinking_setup \<Rightarrow> an_output_config option" where
  "output_config su =
     (if fp_mode (su_format su) = FormatNative
      then Some \<lparr>oc_effort = ep_effort (su_plan su), oc_format = fp_schema (su_format su)\<rparr>
      else if ep_effort (su_plan su) \<noteq> [] then Some \<lparr>oc_effort = ep_effort (su_plan su), oc_format = None\<rparr>
      else None)"

definition translate_anthropic ::
  "(json \<Rightarrow> bytes) \<Rightarrow> (bytes \<Rightarrow> raw) \<Rightarrow> bytes \<Rightarrow> bytes \<Rightarrow> chat_request \<Rightarrow> provider_error + an_request" where
  "translate_anthropic show parse provider_type model req =
     (case setup_thinking show model req of
        Inl err \<Rightarrow> Inl err
      | Inr su \<Rightarrow>
          (case translate_messages parse (image_media_types_for provider_type) (su_strip_history su) (cr_messages req) ([], []) of
             Inl err \<Rightarrow> Inl err
           | Inr (system, msgs) \<Rightarrow>
               (let system = (if fp_mode (su_format su) = FormatInstruction
                              then system @ [text_block anthropicJSONInstruction] else system);
                    (tools, choice) = translate_tools req (su_auto_tool_choice su);
                    clash = (if tool_mode (su_format su) then user_tool_clash tools else None);
                    (tools, choice) = (if tool_mode (su_format su)
                                       then apply_tool_choice (su_format su) (tools, choice) else (tools, choice)) in
                case clash of
                  Some err \<Rightarrow> Inl err
                | None \<Rightarrow>
                    (if msgs = [] then Inl (client_error [])
                     else Inr \<lparr>aq_model = model,
                               aq_system = (if system = [] then None else Some (anthropic_system system)),
                               aq_messages = msgs,
                               aq_max_tokens = ep_max_tokens (su_plan su),
                               aq_temperature = (if ep_drop_temperature (su_plan su) then None else cr_temperature req),
                               aq_top_p = (if su_drop_top_p su then None else cr_top_p req),
                               aq_stop_sequences = stop_sequences req, aq_stream = False,
                               aq_tools = tools, aq_tool_choice = choice,
                               aq_thinking = ep_thinking (su_plan su),
                               aq_output_config = output_config su\<rparr>))))"

section \<open>What the Messages API asks of a request\<close>

definition user_block :: "bytes list \<Rightarrow> an_content \<Rightarrow> bool" where
  "user_block accepts b \<longleftrightarrow>
     bl_type b = ''text'' \<or> bl_type b = ''tool_result''
     \<or> bl_type b = ''image''
       \<and> (case bl_source b of
            None \<Rightarrow> False
          | Some i \<Rightarrow>
              (if ai_type i = ''base64''
               then ai_media_type i \<in> set accepts \<and> ai_data i \<noteq> [] \<and> b64_decode (ai_data i) \<noteq> None
               else ai_type i = ''url'' \<and> ai_url i \<noteq> []))"

definition assistant_block :: "an_content \<Rightarrow> bool" where
  "assistant_block b \<longleftrightarrow>
     bl_type b = ''text'' \<and> bl_text b \<noteq> []
     \<or> bl_type b = ''tool_use'' \<and> bl_input b \<noteq> None
     \<or> bl_type b = thinkingBlockThinking \<and> bl_thinking b \<noteq> None \<and> bl_signature b \<noteq> []
     \<or> bl_type b = thinkingBlockRedacted \<and> bl_data b \<noteq> []"

definition turn_ok :: "bytes list \<Rightarrow> an_message \<Rightarrow> bool" where
  "turn_ok accepts m \<longleftrightarrow>
     am_content m \<noteq> []
     \<and> (if am_role m = ''user'' then list_all (user_block accepts) (am_content m)
        else am_role m = ''assistant'' \<and> list_all assistant_block (am_content m))"

definition turns_ok :: "bytes list \<Rightarrow> an_message list \<Rightarrow> bool" where
  "turns_ok accepts msgs \<longleftrightarrow>
     successively (\<lambda>a b. am_role a \<noteq> am_role b) msgs \<and> list_all (turn_ok accepts) msgs"

definition choice_type :: "raw \<Rightarrow> bytes" where
  "choice_type choice = (case unmarshal (dec_struct choice_type_field) [] choice of Some t \<Rightarrow> t | None \<Rightarrow> [])"

definition forces_tool :: "raw \<Rightarrow> bool" where
  "forces_tool choice \<longleftrightarrow> choice_type choice = ''any'' \<or> choice_type choice = ''tool''"

definition thinks :: "an_request \<Rightarrow> bytes \<Rightarrow> bool" where
  "thinks aq t = (case aq_thinking aq of None \<Rightarrow> False | Some x \<Rightarrow> at_type x = t)"

text \<open>
  What thinking asks of the rest of the request: no temperature, no \<open>top_p\<close> below the least
  allowed, and a budget of at least the least and below \<open>max_tokens\<close>. \<open>n\<close> is what the client
  asked for; below \<open>smallMaxTokens\<close>, which no client means, the subtraction of the code wraps.
\<close>

definition smallMaxTokens :: int where "smallMaxTokens = 1024 - 2 ^ 63"

definition thinking_fits :: "int \<Rightarrow> an_request \<Rightarrow> bool" where
  "thinking_fits n aq \<longleftrightarrow>
     (if thinks aq ''enabled'' \<or> thinks aq ''adaptive''
      then aq_temperature aq = None \<and> \<not> below_min_top_p (aq_top_p aq) else True)
     \<and> (case aq_thinking aq of
          None \<Rightarrow> True
        | Some t \<Rightarrow>
            (if at_type t = ''enabled''
             then anthropicMinBudget \<le> at_budget_tokens t
                  \<and> (if smallMaxTokens \<le> n then at_budget_tokens t < aq_max_tokens aq else True)
             else at_budget_tokens t = 0))
     \<and> (if n = 0 then 4096 \<le> aq_max_tokens aq else aq_max_tokens aq = n)"

definition request_ok :: "bytes list \<Rightarrow> capabilities \<Rightarrow> an_request \<Rightarrow> bool" where
  "request_ok accepts caps aq \<longleftrightarrow>
     aq_messages aq \<noteq> [] \<and> turns_ok accepts (aq_messages aq)
     \<and> (if forces_tool (aq_tool_choice aq) then cap_forced_tool_choice caps \<and> \<not> thinks aq ''enabled'' else True)"

lemma append_anthropic_ok:
  assumes "turns_ok accepts msgs" "turn_ok accepts \<lparr>am_role = role, am_content = parts\<rparr>"
  shows "turns_ok accepts (append_anthropic msgs role parts)"
proof (cases "msgs \<noteq> [] \<and> am_role (last msgs) = role")
  case True
  then obtain init x where m: "msgs = init @ [x]" by (cases msgs rule: rev_cases) auto
  with assms True show ?thesis
    by (simp add: turns_ok_def append_anthropic_def successively_append_iff turn_ok_def split: if_splits)
next
  case False
  with assms show ?thesis by (auto simp: turns_ok_def append_anthropic_def successively_append_iff)
qed

lemma append_anthropic_nonempty: "append_anthropic msgs role parts \<noteq> []"
  by (simp add: append_anthropic_def)

lemma part_blocks_ok:
  assumes "if pt_type p = ''text'' then pt_image p = no_image
    else pt_type p = ''image_url'' \<and> (sendable accepts (pt_image p) \<or> remote (pt_image p))"
  shows "list_all (user_block accepts) (part_to_anthropic p)"
  using assms
  by (auto simp: part_to_anthropic_def user_block_def text_block_def sendable_def remote_def split: if_splits)

lemma parts_to_anthropic_ok:
  assumes "parts_to_anthropic accepts r = Inr blocks"
  shows "blocks \<noteq> [] \<and> list_all (user_block accepts) blocks"
proof -
  from assms obtain parts where p: "parse_content r accepts = Inr parts"
    and b: "blocks = (let out = concat (map part_to_anthropic parts) in if out = [] then [text_block []] else out)"
    by (auto simp: parts_to_anthropic_def Let_def split: sum.splits)
  have "list_all (user_block accepts) (concat (map part_to_anthropic parts))"
    using part_blocks_ok [OF parse_content_images [OF p]] by (fastforce simp: list_all_iff)
  moreover have "user_block accepts (text_block [])" by (simp add: user_block_def text_block_def)
  ultimately show ?thesis unfolding b by (auto simp: Let_def)
qed

lemma tool_result_ok: "tool_result_content accepts m = Inr b \<Longrightarrow> user_block accepts b"
  by (auto simp: tool_result_content_def user_block_def Let_def split: if_splits sum.splits)

lemma assistant_turn_ok:
  assumes "assistant_turn parse strip m = (replayed, turn)"
  shows "list_all assistant_block replayed" "list_all assistant_block turn"
proof -
  have "assistant_block (replayed_block b)" if "replayable b" for b
    using that by (auto simp: assistant_block_def replayed_block_def replayable_def)
  then show "list_all assistant_block replayed"
    using assms by (auto simp: assistant_turn_def replayable_thinking_def list_all_iff split: if_splits)
  have "assistant_block (tool_use_block parse c)" "t \<noteq> [] \<Longrightarrow> assistant_block (text_block t)" for c t
    by (auto simp: assistant_block_def tool_use_block_def text_block_def split: option.split)
  then show "list_all assistant_block turn"
    using assms by (auto simp: assistant_turn_def list_all_iff)
qed

lemma translate_messages_ok:
  "turns_ok accepts msgs \<Longrightarrow> translate_messages parse accepts strip ms (system, msgs) = Inr (system', msgs') \<Longrightarrow>
   turns_ok accepts msgs'"
proof (induction ms arbitrary: system msgs)
  case (Cons m ms)
  let ?role = "m_role m"
  consider "?role = ''system'' \<or> ?role = ''developer''" | "?role = ''user''" | "?role = ''assistant''" | "?role = ''tool''"
    | "?role \<noteq> ''system''" "?role \<noteq> ''developer''" "?role \<noteq> ''user''" "?role \<noteq> ''assistant''" "?role \<noteq> ''tool''" by blast
  then show ?case
  proof cases
    case 1
    with Cons show ?thesis by simp
  next
    case 2
    with Cons.prems(2) obtain parts where p: "parts_to_anthropic accepts (m_content m) = Inr parts"
      and t: "translate_messages parse accepts strip ms (system, append_anthropic msgs ''user'' parts) = Inr (system', msgs')"
      by (simp split: sum.splits)
    from parts_to_anthropic_ok [OF p] have "turn_ok accepts \<lparr>am_role = ''user'', am_content = parts\<rparr>"
      by (simp add: turn_ok_def)
    from Cons.IH [OF append_anthropic_ok [OF Cons.prems(1) this] t] show ?thesis .
  next
    case 3
    obtain replayed turn where a: "assistant_turn parse strip m = (replayed, turn)" by (metis surj_pair)
    note ok = assistant_turn_ok [OF a]
    show ?thesis
    proof (cases "turn = []")
      case True
      with 3 a Cons show ?thesis by simp
    next
      case False
      with ok have "turn_ok accepts \<lparr>am_role = ''assistant'', am_content = replayed @ turn\<rparr>" by (simp add: turn_ok_def)
      from Cons.IH [OF append_anthropic_ok [OF Cons.prems(1) this]] 3 a False Cons.prems(2) show ?thesis by simp
    qed
  next
    case 4
    with Cons.prems(2) obtain b where b: "tool_result_content accepts m = Inr b"
      and t: "translate_messages parse accepts strip ms (system, append_anthropic msgs ''user'' [b]) = Inr (system', msgs')"
      by (simp split: sum.splits)
    from tool_result_ok [OF b] have "turn_ok accepts \<lparr>am_role = ''user'', am_content = [b]\<rparr>" by (simp add: turn_ok_def)
    from Cons.IH [OF append_anthropic_ok [OF Cons.prems(1) this] t] show ?thesis .
  next
    case 5
    with Cons show ?thesis by simp
  qed
qed simp

text \<open>What the setup promises about forced tools and thinking.\<close>

lemma setup_parts:
  assumes "setup_thinking show model req = Inr su"
  defines "caps \<equiv> capabilities_for ''anthropic'' model"
  shows "plan_anthropic_format caps req = Inr (su_format su)"
    "su_auto_tool_choice su = (\<not> cap_forced_tool_choice caps \<and> forced_tool_choice req)"
    "\<exists>plan. su_plan su = give_way (su_format su) req plan"
  using assms(1) unfolding setup_thinking_def caps_def [symmetric] Let_def case_prod_beta
  by (clarsimp split: option.splits sum.splits, blast?)+

definition plan_fits :: "int \<Rightarrow> effort_plan \<Rightarrow> bool" where
  "plan_fits n plan \<longleftrightarrow>
     (if thinking_is plan ''enabled'' \<or> thinking_is plan ''adaptive'' then ep_drop_temperature plan else True)
     \<and> (case ep_thinking plan of
          None \<Rightarrow> True
        | Some t \<Rightarrow>
            (if at_type t = ''enabled''
             then anthropicMinBudget \<le> at_budget_tokens t
                  \<and> (if smallMaxTokens \<le> n then at_budget_tokens t < ep_max_tokens plan else True)
             else at_budget_tokens t = 0))
     \<and> (if n = 0 then 4096 \<le> ep_max_tokens plan else ep_max_tokens plan = n)"

lemma drop_thinking_fits: "plan_fits n (drop_thinking n w plan)"
  by (simp add: plan_fits_def thinking_is_def drop_thinking_def or_default_tokens_def defaultMaxTokens_def)

lemma give_way_fits: "plan_fits (max_output_tokens req) plan \<Longrightarrow> plan_fits (max_output_tokens req) (give_way f req plan)"
  by (simp add: give_way_def Let_def drop_thinking_fits)

lemma plain_plan_fits:
  assumes "ep_thinking plan = None" "ep_max_tokens plan = or_default_tokens n"
  shows "plan_fits n plan" "plan_fits n (add_warning w plan)"
  using assms by (simp_all add: plan_fits_def thinking_is_def or_default_tokens_def defaultMaxTokens_def)

lemma budget_plan_fits:
  assumes "0 \<le> effort_rank effort" "ep_thinking plan = None" "ep_max_tokens plan = or_default_tokens n"
  shows "plan_fits n (budget_plan plan caps effort n)"
proof (cases "effort = ''none''")
  case True
  then show ?thesis using plain_plan_fits(1) [OF assms(2,3)] by (simp add: budget_plan_def)
next
  case False
  from anthropic_budget_range [OF assms(1) False]
  have b: "1024 \<le> anthropic_budgets effort" "anthropic_budgets effort \<le> 32768" by simp_all
  have "wrap64 (n - 1024) = n - 1024" if "smallMaxTokens \<le> n" "n \<le> 32768"
    using that by (intro wrap64_id) (simp add: int64_def smallMaxTokens_def)
  with False b show ?thesis
    by (auto simp: budget_plan_def plan_fits_def thinking_is_def assms(2,3) Let_def anthropicMinBudget_def defaultMaxTokens_def
        or_default_tokens_def split: prod.split)
qed

lemma adaptive_effort_fits:
  "ep_max_tokens plan = or_default_tokens n \<Longrightarrow> plan_fits n (adaptive_effort plan caps effort n)"
  by (auto simp: adaptive_effort_def plan_fits_def thinking_is_def Let_def or_default_tokens_def defaultMaxTokens_def
      anthropicAdaptiveMaxTokens_def split: prod.split)

lemma plan_effort_fits:
  assumes "plan_effort caps model effort is_set n = Inr plan"
  shows "plan_fits n plan"
proof -
  let ?base = "\<lparr>ep_thinking = None, ep_effort = [], ep_max_tokens = or_default_tokens n,
                  ep_drop_temperature = False, ep_warnings = []\<rparr>"
  have base: "ep_thinking ?base = None" "ep_max_tokens ?base = or_default_tokens n" by simp_all
  have "plan_fits n off" if "switched_off caps ?base = Some off" for off
    using that by (auto simp: switched_off_def plan_fits_def thinking_is_def or_default_tokens_def defaultMaxTokens_def split: if_splits)
  then have "plan_fits n (adaptive_plan ?base caps effort n)"
    by (simp add: adaptive_plan_def adaptive_effort_fits split: option.split)
  moreover have "plan_fits n (budget_plan ?base caps effort n)" if "check_effort effort = None"
    using that by (intro budget_plan_fits) (auto simp: check_effort_def split: if_splits)
  ultimately show ?thesis
    using assms plain_plan_fits [OF base]
    by (auto simp: plan_effort_def Let_def split: option.splits thinking_mode.splits if_splits)
qed

lemma setup_fits:
  assumes "setup_thinking show model req = Inr su"
  shows "plan_fits (max_output_tokens req) (su_plan su)"
    and "su_drop_top_p su = (ep_drop_temperature (su_plan su) \<and> below_min_top_p (cr_top_p req))"
  using assms give_way_fits plan_effort_fits unfolding setup_thinking_def Let_def case_prod_beta
  by (clarsimp split: option.splits sum.splits, blast?)+

lemma fits_request:
  assumes "plan_fits n plan" "dropped = (ep_drop_temperature plan \<and> below_min_top_p top_p)"
    and aq: "aq_thinking aq = ep_thinking plan" "aq_max_tokens aq = ep_max_tokens plan"
      "aq_temperature aq = (if ep_drop_temperature plan then None else temperature)"
      "aq_top_p aq = (if dropped then None else top_p)"
  shows "thinking_fits n aq"
proof -
  have "thinks aq t = thinking_is plan t" for t by (simp add: thinks_def thinking_is_def aq(1))
  moreover have "\<not> below_min_top_p (aq_top_p aq)" if "ep_drop_temperature plan"
    using that by (simp add: aq(4) assms(2)) (simp add: below_min_top_p_def)
  ultimately show ?thesis
    using assms(1) unfolding thinking_fits_def plan_fits_def aq(1,2,3) by simp
qed

lemma thinking_is_drop [simp]: "\<not> thinking_is (drop_thinking n w plan) t"
  by (simp add: thinking_is_def drop_thinking_def add_warning_def)

lemma setup_facts:
  assumes "setup_thinking show model req = Inr su"
  defines "caps \<equiv> capabilities_for ''anthropic'' model"
  shows "plan_anthropic_format caps req = Inr (su_format su)"
    "su_auto_tool_choice su = (\<not> cap_forced_tool_choice caps \<and> forced_tool_choice req)"
    "thinking_is (su_plan su) ''enabled'' \<Longrightarrow> \<not> forced_tool_choice req"
    "tool_mode (su_format su) \<Longrightarrow> thinking_is (su_plan su) t \<Longrightarrow> thinking_is (su_plan su) ''disabled''"
proof -
  from setup_parts(3) [OF assms(1)] obtain plan where p: "su_plan su = give_way (su_format su) req plan" ..
  define plan' where "plan' = (if tool_mode (su_format su) \<and> ep_thinking plan \<noteq> None \<and> \<not> thinking_is plan ''disabled''
       then drop_thinking (max_output_tokens req) anthropicFormatThinkingWarning plan else plan)"
  have su: "su_plan su = (if thinking_is plan' ''enabled'' then
         (if forced_tool_choice req then drop_thinking (max_output_tokens req) warnThinkingForcedTool plan'
          else if tool_turn_without_thinking (cr_messages req)
          then drop_thinking (max_output_tokens req) warnThinkingToolRound plan'
          else plan')
       else plan')"
    unfolding p give_way_def Let_def plan'_def ..
  show "plan_anthropic_format caps req = Inr (su_format su)"
    "su_auto_tool_choice su = (\<not> cap_forced_tool_choice caps \<and> forced_tool_choice req)"
    unfolding caps_def by (fact setup_parts(1,2) [OF assms(1)])+
  show "thinking_is (su_plan su) ''enabled'' \<Longrightarrow> \<not> forced_tool_choice req"
    unfolding su by (cases "thinking_is plan' ''enabled''"; cases "forced_tool_choice req") simp_all
  assume tool: "tool_mode (su_format su)" and t: "thinking_is (su_plan su) t"
  from t have t': "thinking_is plan' t" "su_plan su = plan'" unfolding su by (simp_all split: if_splits)
  have "thinking_is plan' ''disabled''"
  proof (rule ccontr)
    assume no: "\<not> thinking_is plan' ''disabled''"
    then have "ep_thinking plan' = None" using tool unfolding plan'_def
      by (cases "ep_thinking plan = None \<or> thinking_is plan ''disabled''") (auto simp: drop_thinking_def add_warning_def)
    with t'(1) show False by (simp add: thinking_is_def)
  qed
  then show "thinking_is (su_plan su) ''disabled''" unfolding t'(2) .
qed

lemma setup_error: "setup_thinking show model req = Inl err \<Longrightarrow> pe_status err = 400"
proof -
  have c: "pe_status (client_error code) = 400" for code by (simp add: client_error_def)
  have parse: "parse_thinking_blocks r = Inl e \<Longrightarrow> e = invalid_thinking" for r e
    by (auto simp: parse_thinking_blocks_def split: if_splits option.splits)
  have v: "validate_request_thinking ms = Some e \<Longrightarrow> e = invalid_thinking" for ms e
    by (induction ms) (auto split: if_splits sum.splits dest: parse)
  have e: "plan_effort caps model effort is_set n = Inl e \<Longrightarrow> pe_status e = 400" for caps effort is_set n e
    by (auto simp: plan_effort_def check_effort_def Let_def c split: if_splits option.splits thinking_mode.splits)
  have f: "plan_anthropic_format caps req = Inl e \<Longrightarrow> pe_status e = 400" for caps e
    by (auto simp: plan_anthropic_format_def Let_def c split: if_splits option.splits)
  show "setup_thinking show model req = Inl err \<Longrightarrow> pe_status err = 400"
    by (auto simp: setup_thinking_def Let_def case_prod_beta invalid_thinking_def c dest: v e f split: option.splits sum.splits)
qed

lemma translate_messages_error: "translate_messages parse accepts strip ms out = Inl err \<Longrightarrow> pe_status err = 400"
proof -
  have i: "pe_status image_error = 400" by (simp add: image_error_def client_error_def)
  have p: "parts_to_anthropic accepts r = Inl e \<Longrightarrow> pe_status e = 400" for accepts r e
    by (auto simp: parts_to_anthropic_def Let_def i dest: parse_content_error split: sum.splits)
  have t: "tool_result_content accepts m = Inl e \<Longrightarrow> pe_status e = 400" for accepts m e
    by (auto simp: tool_result_content_def Let_def dest: p split: sum.splits if_splits)
  show "translate_messages parse accepts strip ms out = Inl err \<Longrightarrow> pe_status err = 400"
  proof (induction parse accepts strip ms out rule: translate_messages.induct)
    case (2 parse accepts strip m ms system msgs)
    let ?role = "m_role m"
    consider "?role = ''system'' \<or> ?role = ''developer''" | "?role = ''user''" | "?role = ''assistant''" | "?role = ''tool''"
      | "?role \<noteq> ''system''" "?role \<noteq> ''developer''" "?role \<noteq> ''user''" "?role \<noteq> ''assistant''" "?role \<noteq> ''tool''" by blast
    then show ?case
    proof cases
      case 1
      with "2.IH"(1) "2.prems" show ?thesis by simp
    next
      case r: 2
      then show ?thesis using "2.IH"(2) "2.prems" by (auto dest: p split: sum.splits)
    next
      case r: 3
      then show ?thesis using "2.IH"(3) "2.prems" by (auto simp: Let_def split: prod.splits)
    next
      case r: 4
      then show ?thesis using "2.IH"(4) "2.prems" by (auto dest: t split: sum.splits)
    next
      case r: 5
      then show ?thesis using "2.IH"(5) "2.prems" by simp
    qed
  qed simp
qed

lemma tool_mode_forces:
  assumes "plan_anthropic_format caps req = Inr f" "tool_mode f"
  shows "cap_forced_tool_choice caps"
proof (rule ccontr)
  assume no: "\<not> cap_forced_tool_choice caps"
  have "\<not> tool_mode no_format" "\<not> tool_mode (no_format\<lparr>fp_mode := FormatNative, fp_schema := s\<rparr>)"
    "\<not> tool_mode (no_format\<lparr>fp_mode := FormatInstruction, fp_warnings := w\<rparr>)" for s w
    by (simp_all add: tool_mode_def no_format_def)
  with assms no show False
    unfolding plan_anthropic_format_def by (auto simp: Let_def split: option.splits if_splits)
qed

lemma forces_tool_choice_json:
  "choice_type (Some (choice_json t)) = t"
  "choice_type (Some (JObj [(''name'', JStr name), (''type'', JStr ''tool'')])) = ''tool''"
  "choice_type (Some (JObj [(''type'', JStr ''tool''), (''name'', JStr name)])) = ''tool''"
  "choice_type (Some (JObj [(''type'', JStr t), (''disable_parallel_tool_use'', JBool True)])) = t"
  "choice_type None = []"
proof -
  have n: "\<not> names_field ''name'' ''type''" "\<not> names_field ''disable_parallel_tool_use'' ''type''" by code_simp+
  show "choice_type (Some (choice_json t)) = t"
    "choice_type (Some (JObj [(''name'', JStr name), (''type'', JStr ''tool'')])) = ''tool''"
    "choice_type (Some (JObj [(''type'', JStr ''tool''), (''name'', JStr name)])) = ''tool''"
    "choice_type (Some (JObj [(''type'', JStr t), (''disable_parallel_tool_use'', JBool True)])) = t"
    "choice_type None = []"
    by (simp_all add: choice_type_def choice_json_def unmarshal_def dec_struct_def choice_type_field_def n)
qed

lemma applied_choice:
  "apply_tool_choice f (tools, choice) = (tools', choice') \<Longrightarrow>
   forces_tool choice' \<and> tools' = tools @ [response_tool f]"
  unfolding apply_tool_choice_def Let_def prod.case
  by (auto simp: forces_tool_def forces_tool_choice_json) (simp add: choice_type_def)

lemma translated_choice:
  assumes "translate_tools req auto = (tools, choice)" "forces_tool choice"
  shows "forced_tool_choice req \<and> \<not> auto"
  using assms
  by (auto simp: translate_tools_def forced_tool_choice_def Let_def forces_tool_def forces_tool_choice_json
      split: if_splits option.splits)

section \<open>Properties\<close>


end
