(* ===== verification/AnthropicAnswer.thy ===== *)
theory AnthropicAnswer
  imports Anthropic ToolCalls
begin

text \<open>
  The answer half of \<open>internal/provider/anthropic.go\<close>: a Messages API answer read as a chat
  completion, whole (\<open>Chat\<close>) or from its event stream (\<open>ChatStream\<close>). An event is what its
  \<open>data\<close> decodes to; the printed text of a JSON value, the validity of tool arguments and
  the random identifiers are parameters, and log lines are left out.
\<close>

section \<open>Usage\<close>

record an_usage =
  ub_input :: int
  ub_output :: int
  ub_cache_creation :: int
  ub_cache_read :: int

definition no_an_usage :: an_usage where
  "no_an_usage = \<lparr>ub_input = 0, ub_output = 0, ub_cache_creation = 0, ub_cache_read = 0\<rparr>"

definition usage_of :: "an_usage \<Rightarrow> usage" where
  "usage_of b =
     (let prompt = wrap64 (wrap64 (ub_input b + ub_cache_creation b) + ub_cache_read b) in
      \<lparr>us_prompt = prompt, us_completion = ub_output b, us_total = wrap64 (prompt + ub_output b),
       us_details = (if ub_cache_read b > 0 \<or> ub_cache_creation b > 0
                     then Some \<lparr>td_cached = ub_cache_read b, td_cache_write = ub_cache_creation b, td_audio = 0\<rparr>
                     else None),
       us_cache_hit = 0, us_cache_miss = 0, us_search_units = 0, us_reasoning = None\<rparr>)"

definition or_count :: "int \<Rightarrow> int \<Rightarrow> int" where
  "or_count dst src = (if src \<noteq> 0 then src else dst)"

definition merge_usage :: "an_usage \<Rightarrow> an_usage \<Rightarrow> an_usage" where
  "merge_usage b u =
     \<lparr>ub_input = or_count (ub_input b) (ub_input u), ub_output = or_count (ub_output b) (ub_output u),
      ub_cache_creation = or_count (ub_cache_creation b) (ub_cache_creation u),
      ub_cache_read = or_count (ub_cache_read b) (ub_cache_read u)\<rparr>"

definition anthropic_finish :: "bytes \<Rightarrow> bytes option" where
  "anthropic_finish stop =
     (if stop = ''end_turn'' \<or> stop = ''stop_sequence'' then Some ''stop''
      else if stop = ''max_tokens'' \<or> stop = ''model_context_window_exceeded'' then Some ''length''
      else if stop = ''refusal'' then Some ''content_filter''
      else if stop = ''tool_use'' then Some ''tool_calls''
      else if stop = [] then None
      else Some ''stop'')"

section \<open>A whole answer\<close>

record an_response =
  ar_id :: bytes
  ar_content :: "an_content list"
  ar_stop_reason :: bytes
  ar_usage :: an_usage

record gathering =
  ga_structured :: "bytes option"
  ga_text :: bytes
  ga_calls :: "tool_call list"
  ga_thinking :: "thinking_block list"

definition is_answer :: "format_plan \<Rightarrow> bytes \<Rightarrow> bool" where
  "is_answer f name \<longleftrightarrow> tool_mode f \<and> name = ragmuxResponseTool"

definition gather :: "(json \<Rightarrow> bytes) \<Rightarrow> format_plan \<Rightarrow> an_content \<Rightarrow> gathering \<Rightarrow> gathering" where
  "gather show f c g =
     (if bl_type c = thinkingBlockThinking then
        g\<lparr>ga_thinking := ga_thinking g @ [no_block\<lparr>tb_type := thinkingBlockThinking, tb_signature := bl_signature c,
            tb_thinking := (case bl_thinking c of Some t \<Rightarrow> t | None \<Rightarrow> [])\<rparr>]\<rparr>
      else if bl_type c = thinkingBlockRedacted then
        g\<lparr>ga_thinking := ga_thinking g @ [no_block\<lparr>tb_type := thinkingBlockRedacted, tb_data := bl_data c\<rparr>]\<rparr>
      else if bl_type c = ''text'' then g\<lparr>ga_text := ga_text g @ bl_text c\<rparr>
      else if bl_type c = ''tool_use'' then
        (if is_answer f (bl_name c) then g\<lparr>ga_structured := Some (format_answer show f (bl_input c))\<rparr>
         else g\<lparr>ga_calls := ga_calls g @ [\<lparr>tc_id = bl_id c, tc_name = bl_name c,
                tc_arguments = (case bl_input c of Some j \<Rightarrow> show j | None \<Rightarrow> []), tc_signature = []\<rparr>]\<rparr>)
      else g)"

definition gathered :: "(json \<Rightarrow> bytes) \<Rightarrow> format_plan \<Rightarrow> an_content list \<Rightarrow> gathering" where
  "gathered show f cs =
     fold (gather show f) cs \<lparr>ga_structured = None, ga_text = [], ga_calls = [], ga_thinking = []\<rparr>"

definition anthropic_chat ::
  "(json \<Rightarrow> bytes) \<Rightarrow> (bytes \<Rightarrow> bool) \<Rightarrow> (nat \<Rightarrow> bytes) \<Rightarrow> bytes \<Rightarrow> format_plan \<Rightarrow> bytes \<Rightarrow> an_response \<Rightarrow> chat_response" where
  "anthropic_chat show valid random chat_id f model ar =
     (let g = gathered show f (ar_content ar);
          finish = anthropic_finish (ar_stop_reason ar);
          (content, finish) =
            (case ga_structured g of
               None \<Rightarrow> (ga_text g, finish)
             | Some s \<Rightarrow> (s, if ga_calls g = [] \<and> ar_stop_reason ar = ''tool_use'' then Some ''stop'' else finish)) in
      \<lparr>re_id = (if ar_id ar = [] then chat_id else ar_id ar), re_model = model,
       re_choices = [\<lparr>co_index = 0,
          co_message = \<lparr>rm_role = ''assistant'', rm_content = Some content,
             rm_tool_calls = tool_calls_json valid random (ga_calls g), rm_refusal = None, rm_annotations = None,
             rm_reasoning_content = None, rm_thinking = ga_thinking g\<rparr>,
          co_finish_reason = finish, co_logprobs = None\<rparr>],
       re_usage = Some (usage_of (ar_usage ar))\<rparr>)"

section \<open>The event stream\<close>

datatype an_event =
    MessageStart bytes an_usage
  | BlockStart int bytes bytes bytes bytes
  | TextDelta bytes
  | ThinkingDelta int bytes
  | SignatureDelta int bytes
  | InputDelta int bytes
  | BlockStop int
  | MessageDelta bytes an_usage
  | MessageStop
  | ErrorEvent bytes bytes
  | OtherEvent

text \<open>How an event is read: each kind into a struct of its own; one that does not fit is passed over.\<close>

definition type_field :: "bytes \<Rightarrow> bytes decoder" where
  "type_field k s j = (if names_field k ''type'' then dec_string s j else (s, False))"

definition usage_field :: "bytes \<Rightarrow> an_usage decoder" where
  "usage_field k u j =
     (if names_field k ''input_tokens'' then (let (n, e) = dec_int (ub_input u) j in (u\<lparr>ub_input := n\<rparr>, e))
      else if names_field k ''output_tokens'' then (let (n, e) = dec_int (ub_output u) j in (u\<lparr>ub_output := n\<rparr>, e))
      else if names_field k ''cache_creation_input_tokens'' then
        (let (n, e) = dec_int (ub_cache_creation u) j in (u\<lparr>ub_cache_creation := n\<rparr>, e))
      else if names_field k ''cache_read_input_tokens'' then
        (let (n, e) = dec_int (ub_cache_read u) j in (u\<lparr>ub_cache_read := n\<rparr>, e))
      else (u, False))"

definition started_field :: "bytes \<Rightarrow> (bytes \<times> an_usage) decoder" where
  "started_field k m j =
     (if names_field k ''id'' then (let (s, e) = dec_string (fst m) j in ((s, snd m), e))
      else if names_field k ''usage'' then (let (u, e) = dec_struct usage_field (snd m) j in ((fst m, u), e))
      else (m, False))"

definition message_start_field :: "bytes \<Rightarrow> (bytes \<times> an_usage) decoder" where
  "message_start_field k m j = (if names_field k ''message'' then dec_struct started_field m j else (m, False))"

record block_start =
  bs_index :: int
  bs_type :: bytes
  bs_id :: bytes
  bs_name :: bytes
  bs_data :: bytes

definition content_block_field :: "bytes \<Rightarrow> block_start decoder" where
  "content_block_field k b j =
     (if names_field k ''type'' then (let (s, e) = dec_string (bs_type b) j in (b\<lparr>bs_type := s\<rparr>, e))
      else if names_field k ''id'' then (let (s, e) = dec_string (bs_id b) j in (b\<lparr>bs_id := s\<rparr>, e))
      else if names_field k ''name'' then (let (s, e) = dec_string (bs_name b) j in (b\<lparr>bs_name := s\<rparr>, e))
      else if names_field k ''data'' then (let (s, e) = dec_string (bs_data b) j in (b\<lparr>bs_data := s\<rparr>, e))
      else (b, False))"

definition block_start_field :: "bytes \<Rightarrow> block_start decoder" where
  "block_start_field k b j =
     (if names_field k ''index'' then (let (n, e) = dec_int (bs_index b) j in (b\<lparr>bs_index := n\<rparr>, e))
      else if names_field k ''content_block'' then dec_struct content_block_field b j
      else (b, False))"

record block_delta =
  bd_index :: int
  bd_type :: bytes
  bd_text :: bytes
  bd_partial_json :: bytes
  bd_thinking :: bytes
  bd_signature :: bytes

definition inner_delta_field :: "bytes \<Rightarrow> block_delta decoder" where
  "inner_delta_field k d j =
     (if names_field k ''type'' then (let (s, e) = dec_string (bd_type d) j in (d\<lparr>bd_type := s\<rparr>, e))
      else if names_field k ''text'' then (let (s, e) = dec_string (bd_text d) j in (d\<lparr>bd_text := s\<rparr>, e))
      else if names_field k ''partial_json'' then
        (let (s, e) = dec_string (bd_partial_json d) j in (d\<lparr>bd_partial_json := s\<rparr>, e))
      else if names_field k ''thinking'' then (let (s, e) = dec_string (bd_thinking d) j in (d\<lparr>bd_thinking := s\<rparr>, e))
      else if names_field k ''signature'' then (let (s, e) = dec_string (bd_signature d) j in (d\<lparr>bd_signature := s\<rparr>, e))
      else (d, False))"

definition block_delta_field :: "bytes \<Rightarrow> block_delta decoder" where
  "block_delta_field k d j =
     (if names_field k ''index'' then (let (n, e) = dec_int (bd_index d) j in (d\<lparr>bd_index := n\<rparr>, e))
      else if names_field k ''delta'' then dec_struct inner_delta_field d j
      else (d, False))"

definition index_field :: "bytes \<Rightarrow> int decoder" where
  "index_field k n j = (if names_field k ''index'' then dec_int n j else (n, False))"

definition stop_reason_field :: "bytes \<Rightarrow> bytes decoder" where
  "stop_reason_field k s j = (if names_field k ''stop_reason'' then dec_string s j else (s, False))"

definition message_delta_field :: "bytes \<Rightarrow> (bytes \<times> an_usage) decoder" where
  "message_delta_field k m j =
     (if names_field k ''delta'' then (let (s, e) = dec_struct stop_reason_field (fst m) j in ((s, snd m), e))
      else if names_field k ''usage'' then (let (u, e) = dec_struct usage_field (snd m) j in ((fst m, u), e))
      else (m, False))"

definition reported_field :: "bytes \<Rightarrow> (bytes \<times> bytes) decoder" where
  "reported_field k m j =
     (if names_field k ''type'' then (let (s, e) = dec_string (fst m) j in ((s, snd m), e))
      else if names_field k ''message'' then (let (s, e) = dec_string (snd m) j in ((fst m, s), e))
      else (m, False))"

definition error_event_field :: "bytes \<Rightarrow> (bytes \<times> bytes) decoder" where
  "error_event_field k m j = (if names_field k ''error'' then dec_struct reported_field m j else (m, False))"

definition read_delta :: "block_delta \<Rightarrow> an_event" where
  "read_delta d =
     (if bd_type d = ''text_delta'' then TextDelta (bd_text d)
      else if bd_type d = ''thinking_delta'' then ThinkingDelta (bd_index d) (bd_thinking d)
      else if bd_type d = ''signature_delta'' then SignatureDelta (bd_index d) (bd_signature d)
      else if bd_type d = ''input_json_delta'' then InputDelta (bd_index d) (bd_partial_json d)
      else OtherEvent)"

text \<open>The best-effort decoding of an error keeps what could be read.\<close>

definition event_of :: "raw \<Rightarrow> an_event" where
  "event_of data =
     (case unmarshal (dec_struct type_field) [] data of
        None \<Rightarrow> OtherEvent
      | Some t \<Rightarrow>
          (if t = ''message_start'' then
             (case unmarshal (dec_struct message_start_field) ([], no_an_usage) data of
                Some (i, u) \<Rightarrow> MessageStart i u
              | None \<Rightarrow> MessageStart [] no_an_usage)
           else if t = ''content_block_start'' then
             (case unmarshal (dec_struct block_start_field) \<lparr>bs_index = 0, bs_type = [], bs_id = [], bs_name = [], bs_data = []\<rparr> data of
                Some b \<Rightarrow> BlockStart (bs_index b) (bs_type b) (bs_id b) (bs_name b) (bs_data b)
              | None \<Rightarrow> OtherEvent)
           else if t = ''content_block_delta'' then
             (case unmarshal (dec_struct block_delta_field) \<lparr>bd_index = 0, bd_type = [], bd_text = [], bd_partial_json = [],
                 bd_thinking = [], bd_signature = []\<rparr> data of
                Some d \<Rightarrow> read_delta d
              | None \<Rightarrow> OtherEvent)
           else if t = ''content_block_stop'' then
             (case unmarshal (dec_struct index_field) 0 data of Some n \<Rightarrow> BlockStop n | None \<Rightarrow> OtherEvent)
           else if t = ''message_delta'' then
             (case unmarshal (dec_struct message_delta_field) ([], no_an_usage) data of
                Some (stop, u) \<Rightarrow> MessageDelta stop u
              | None \<Rightarrow> OtherEvent)
           else if t = ''message_stop'' then MessageStop
           else if t = ''error'' then
             (let m = (case data of Some j \<Rightarrow> fst (dec_struct error_event_field ([], []) j) | None \<Rightarrow> ([], [])) in
              ErrorEvent (fst m) (snd m))
           else OtherEvent))"

record an_stream =
  as_id :: bytes
  as_usage :: an_usage
  as_tools :: call_stream
  as_sent_role :: bool
  as_answers :: "int \<rightharpoonup> format_stream"
  as_answered :: bool
  as_error :: "provider_error option"

definition new_stream :: "bytes \<Rightarrow> an_stream" where
  "new_stream chat_id =
     \<lparr>as_id = chat_id, as_usage = no_an_usage, as_tools = no_calls, as_sent_role = False, as_answers = Map.empty,
      as_answered = False, as_error = None\<rparr>"

definition emit :: "bytes \<Rightarrow> an_stream \<Rightarrow> delta \<Rightarrow> bytes option \<Rightarrow> stream_chunk list" where
  "emit model s d finish =
     [\<lparr>sk_id = as_id s, sk_model = model,
       sk_choices = [\<lparr>sc_index = 0, sc_delta = d, sc_finish_reason = finish, sc_logprobs = None\<rparr>], sk_usage = None\<rparr>]"

definition emit_thinking :: "bytes \<Rightarrow> an_stream \<Rightarrow> thinking_block \<Rightarrow> stream_chunk list" where
  "emit_thinking model s b = emit model s (no_delta\<lparr>de_thinking := [b]\<rparr>) None"

definition emit_content :: "bytes \<Rightarrow> an_stream \<Rightarrow> bytes \<Rightarrow> stream_chunk list" where
  "emit_content model s t = (if t = [] then [] else emit model s (no_delta\<lparr>de_content := Some t\<rparr>) None)"

text \<open>One event: what is sent, the state after it, and whether reading goes on.\<close>

definition on_event ::
  "(nat \<Rightarrow> bytes) \<Rightarrow> (bytes \<Rightarrow> bytes) \<Rightarrow> bytes \<Rightarrow> format_plan \<Rightarrow> an_event \<Rightarrow> an_stream \<Rightarrow> stream_chunk list \<times> an_stream \<times> bool" where
  "on_event random hide model f ev s =
     (case ev of
        MessageStart i u \<Rightarrow>
          (let s = s\<lparr>as_id := (if i \<noteq> [] then i else as_id s), as_usage := merge_usage (as_usage s) u, as_sent_role := True\<rparr> in
           (emit model s (no_delta\<lparr>de_role := ''assistant'', de_content := Some []\<rparr>) None, s, True))
      | BlockStart index typ i name data \<Rightarrow>
          (if typ = ''tool_use'' then
             (if is_answer f name
              then ([], s\<lparr>as_answers := (as_answers s)(index \<mapsto> new_format_stream (fp_wrapped f)), as_answered := True\<rparr>, True)
              else (let (tc, t) = open_call (random (ts_next (as_tools s))) index i name (as_tools s) in
                    (emit model s (no_delta\<lparr>de_tool_calls := tc\<rparr>) None, s\<lparr>as_tools := t\<rparr>, True)))
           else if typ = thinkingBlockThinking then
             (emit_thinking model s (no_block\<lparr>tb_index := Some index, tb_type := thinkingBlockThinking\<rparr>), s, True)
           else if typ = thinkingBlockRedacted then
             (emit_thinking model s (no_block\<lparr>tb_index := Some index, tb_type := thinkingBlockRedacted, tb_data := data\<rparr>), s, True)
           else ([], s, True))
      | TextDelta t \<Rightarrow>
          (emit model s (no_delta\<lparr>de_content := Some t, de_role := (if as_sent_role s then [] else ''assistant'')\<rparr>) None,
           s\<lparr>as_sent_role := True\<rparr>, True)
      | ThinkingDelta index t \<Rightarrow>
          (emit_thinking model s (no_block\<lparr>tb_index := Some index, tb_type := thinkingBlockThinking, tb_thinking := t\<rparr>), s, True)
      | SignatureDelta index t \<Rightarrow>
          (emit_thinking model s (no_block\<lparr>tb_index := Some index, tb_type := thinkingBlockThinking, tb_signature := t\<rparr>), s, True)
      | InputDelta index p \<Rightarrow>
          (case as_answers s index of
             Some a \<Rightarrow>
               (let (out, a) = format_feed p a in
                (emit_content model s out, s\<lparr>as_answers := (as_answers s)(index \<mapsto> a)\<rparr>, True))
           | None \<Rightarrow>
               (case call_args index p (as_tools s) of
                  None \<Rightarrow> ([], s, True)
                | Some tc \<Rightarrow> (emit model s (no_delta\<lparr>de_tool_calls := Some tc\<rparr>) None, s, True)))
      | BlockStop index \<Rightarrow>
          (case as_answers s index of
             Some a \<Rightarrow> (emit_content model s (fst (format_flush a)), s\<lparr>as_answers := (as_answers s)(index := None)\<rparr>, True)
           | None \<Rightarrow> ([], s, True))
      | MessageDelta stop u \<Rightarrow>
          (let s = s\<lparr>as_usage := merge_usage (as_usage s) u\<rparr>;
               finish = (if as_answered s \<and> ts_next (as_tools s) = 0 \<and> stop = ''tool_use'' then Some ''stop''
                         else anthropic_finish stop) in
           (emit model s no_delta finish, s, True))
      | MessageStop \<Rightarrow>
          ([\<lparr>sk_id = as_id s, sk_model = model, sk_choices = [], sk_usage = Some (usage_of (as_usage s))\<rparr>], s, True)
      | ErrorEvent typ msg \<Rightarrow>
          ([], s\<lparr>as_error := Some (mk_provider_error 502 typ (hide msg))\<rparr>, False)
      | OtherEvent \<Rightarrow> ([], s, True))"

fun on_events ::
  "(nat \<Rightarrow> bytes) \<Rightarrow> (bytes \<Rightarrow> bytes) \<Rightarrow> bytes \<Rightarrow> format_plan \<Rightarrow> an_event list \<Rightarrow> an_stream \<Rightarrow> stream_chunk list \<times> an_stream" where
  "on_events random hide model f [] s = ([], s)"
| "on_events random hide model f (ev # evs) s =
     (let (out, s, go) = on_event random hide model f ev s in
      if \<not> go then (out, s)
      else (let (more_out, s) = on_events random hide model f evs s in (out @ more_out, s)))"

definition anthropic_stream ::
  "(nat \<Rightarrow> bytes) \<Rightarrow> (bytes \<Rightarrow> bytes) \<Rightarrow> bytes \<Rightarrow> format_plan \<Rightarrow> bytes \<Rightarrow> an_event list \<Rightarrow> provider_error option
     \<Rightarrow> stream_chunk list \<times> provider_error option" where
  "anthropic_stream random hide chat_id f model evs read_error =
     (let (out, s) = on_events random hide model f evs (new_stream chat_id) in
      (out, case as_error s of Some e \<Rightarrow> Some e | None \<Rightarrow> read_error))"

section \<open>What a client puts together\<close>

record client_message =
  cm_id :: bytes
  cm_role :: bytes
  cm_content :: bytes
  cm_thinking :: "thinking_block list"
  cm_calls :: "client_call list"
  cm_finish :: "bytes option"
  cm_usage :: "usage option"

definition no_client_message :: client_message where
  "no_client_message = \<lparr>cm_id = [], cm_role = [], cm_content = [], cm_thinking = [], cm_calls = [],
     cm_finish = None, cm_usage = None\<rparr>"

text \<open>Blocks of \<open>ragmux_thinking\<close> are merged by their index.\<close>

fun merge_block :: "thinking_block \<Rightarrow> thinking_block list \<Rightarrow> thinking_block list" where
  "merge_block b [] = [b]"
| "merge_block b (c # cs) =
     (if tb_index c = tb_index b
      then c\<lparr>tb_thinking := tb_thinking c @ tb_thinking b, tb_signature := tb_signature c @ tb_signature b,
             tb_data := tb_data c @ tb_data b\<rparr> # cs
      else c # merge_block b cs)"

definition take_choice :: "stream_choice \<Rightarrow> client_message \<Rightarrow> client_message" where
  "take_choice c m =
     (let d = sc_delta c in
      m\<lparr>cm_role := (if de_role d \<noteq> [] then de_role d else cm_role m),
        cm_content := cm_content m @ (case de_content d of Some t \<Rightarrow> t | None \<Rightarrow> []),
        cm_thinking := fold merge_block (de_thinking d) (cm_thinking m),
        cm_calls := (case de_tool_calls d of Some j \<Rightarrow> client_deltas j (cm_calls m) | None \<Rightarrow> cm_calls m),
        cm_finish := (if sc_finish_reason c \<noteq> None then sc_finish_reason c else cm_finish m)\<rparr>)"

definition take_chunk :: "stream_chunk \<Rightarrow> client_message \<Rightarrow> client_message" where
  "take_chunk k m =
     fold take_choice (sk_choices k)
       (m\<lparr>cm_id := sk_id k, cm_usage := (if sk_usage k \<noteq> None then sk_usage k else cm_usage m)\<rparr>)"

text \<open>The same from an answer without streaming.\<close>

definition whole_call_view :: "json \<Rightarrow> client_call" where
  "whole_call_view j =
     \<lparr>cl_id = str_member ''id'' j, cl_name = str_member ''name'' (function_of j),
      cl_arguments = str_member ''arguments'' (function_of j)\<rparr>"

definition whole_calls :: "raw \<Rightarrow> client_call list" where
  "whole_calls r = (case r of Some (JArr js) \<Rightarrow> map whole_call_view js | _ \<Rightarrow> [])"

definition client_view :: "chat_response \<Rightarrow> client_message" where
  "client_view r =
     (let c = hd (re_choices r); m = co_message c in
      \<lparr>cm_id = re_id r, cm_role = rm_role m, cm_content = (case rm_content m of Some t \<Rightarrow> t | None \<Rightarrow> []),
       cm_thinking = rm_thinking m, cm_calls = whole_calls (rm_tool_calls m), cm_finish = co_finish_reason c,
       cm_usage = re_usage r\<rparr>)"

definition without_indices :: "client_message \<Rightarrow> client_message" where
  "without_indices m = m\<lparr>cm_thinking := map (\<lambda>b. b\<lparr>tb_index := None\<rparr>) (cm_thinking m)\<rparr>"

section \<open>The events of an answer\<close>

text \<open>How the Messages API streams an answer: every text in fragments. For the empty input \<open>{}\<close> of a
  call it sends no fragment, or an empty one (\<open>anthropic_format.go\<close>, at \<open>Flush\<close>).\<close>

definition streamed_input :: "(json \<Rightarrow> bytes) \<Rightarrow> raw \<Rightarrow> bytes" where
  "streamed_input show input =
     (case input of None \<Rightarrow> [] | Some j \<Rightarrow> if j = JObj [] then [] else show j)"

definition block_events :: "(json \<Rightarrow> bytes) \<Rightarrow> (bytes \<Rightarrow> bytes list) \<Rightarrow> int \<Rightarrow> an_content \<Rightarrow> an_event list" where
  "block_events show frags i c =
     [BlockStart i (bl_type c) (bl_id c) (bl_name c) (bl_data c)]
     @ (if bl_type c = ''text'' then map TextDelta (frags (bl_text c))
        else if bl_type c = thinkingBlockThinking
        then map (ThinkingDelta i) (frags (case bl_thinking c of Some t \<Rightarrow> t | None \<Rightarrow> []))
             @ map (SignatureDelta i) (frags (bl_signature c))
        else if bl_type c = ''tool_use''
        then map (InputDelta i) (frags (streamed_input show (bl_input c)))
        else [])
     @ [BlockStop i]"

definition answer_events ::
  "(json \<Rightarrow> bytes) \<Rightarrow> (bytes \<Rightarrow> bytes list) \<Rightarrow> an_usage \<Rightarrow> an_usage \<Rightarrow> an_response \<Rightarrow> an_event list" where
  "answer_events show frags u0 u1 ar =
     [MessageStart (ar_id ar) u0]
     @ concat (map (\<lambda>(i, c). block_events show frags (int i) c) (enumerate 0 (ar_content ar)))
     @ [MessageDelta (ar_stop_reason ar) u1, MessageStop]"

text \<open>A client that streams sees no arguments for a call whose input is \<open>{}\<close>: nothing is sent for it.\<close>

definition as_sent :: "(json \<Rightarrow> bytes) \<Rightarrow> client_call \<Rightarrow> client_call" where
  "as_sent show c = (if cl_arguments c = show (JObj []) then c\<lparr>cl_arguments := []\<rparr> else c)"

definition with_sent_arguments :: "(json \<Rightarrow> bytes) \<Rightarrow> client_message \<Rightarrow> client_message" where
  "with_sent_arguments show m = m\<lparr>cm_calls := map (as_sent show) (cm_calls m)\<rparr>"

text \<open>Complete answers. \<open>show\<close> gives the bytes an input arrived in; those of \<open>{}\<close> are no other input's.\<close>

definition is_answer_block :: "format_plan \<Rightarrow> an_content \<Rightarrow> bool" where
  "is_answer_block f c \<longleftrightarrow> bl_type c = ''tool_use'' \<and> is_answer f (bl_name c)"

definition prints_wrapper :: "(json \<Rightarrow> bytes) \<Rightarrow> json \<Rightarrow> bool" where
  "prints_wrapper show j =
     (case j of
        JObj (m # ms) \<Rightarrow>
          ms = [] \<and> fst m = ''value'' \<and> show j = concat opener @ show (snd m) @ [CHR 0x7D]
          \<and> show (snd m) \<noteq> [] \<and> \<not> json_space (hd (show (snd m))) \<and> \<not> json_space (last (show (snd m)))
      | _ \<Rightarrow> False)"

definition block_complete :: "(json \<Rightarrow> bytes) \<Rightarrow> (bytes \<Rightarrow> bool) \<Rightarrow> format_plan \<Rightarrow> an_content \<Rightarrow> bool" where
  "block_complete show valid f c =
     (if bl_type c = ''tool_use'' then
        (case bl_input c of
           None \<Rightarrow> False
         | Some j \<Rightarrow>
             show j \<noteq> []
             \<and> (if is_answer f (bl_name c)
                then (if j = JObj [] then show j = ''{}'' else if fp_wrapped f then prints_wrapper show j else True)
                else valid (show j) \<and> bl_id c \<noteq> [] \<and> (show j = show (JObj [])) = (j = JObj [])))
      else True)"

text \<open>A structured answer comes once and without prose next to it.\<close>

definition answer_alone :: "format_plan \<Rightarrow> an_content list \<Rightarrow> bool" where
  "answer_alone f cs \<longleftrightarrow>
     filter (is_answer_block f) cs = []
     \<or> length (filter (is_answer_block f) cs) = 1 \<and> list_all (\<lambda>c. if bl_type c = ''text'' then bl_text c = [] else True) cs"

section \<open>Running and putting together\<close>

fun goes_on :: "an_event \<Rightarrow> bool" where
  "goes_on (ErrorEvent _ _) = False"
| "goes_on _ = True"

definition advance ::
  "(nat \<Rightarrow> bytes) \<Rightarrow> (bytes \<Rightarrow> bytes) \<Rightarrow> bytes \<Rightarrow> format_plan \<Rightarrow> an_event \<Rightarrow> an_stream \<times> client_message \<Rightarrow> an_stream \<times> client_message" where
  "advance random hide model f ev sm =
     (case on_event random hide model f ev (fst sm) of (out, s, _) \<Rightarrow> (s, fold take_chunk out (snd sm)))"

lemma goes_on: "goes_on ev \<Longrightarrow> snd (snd (on_event random hide model f ev s))"
  by (cases ev) (auto simp: on_event_def Let_def split: option.split prod.split)

lemma on_events_advance:
  "list_all goes_on evs \<Longrightarrow>
   (case on_events random hide model f evs s of (out, s') \<Rightarrow> (s', fold take_chunk out m))
   = fold (advance random hide model f) evs (s, m)"
proof (induction evs arbitrary: s m)
  case (Cons ev evs)
  obtain out s1 go where o: "on_event random hide model f ev s = (out, s1, go)" by (metis surj_pair)
  with goes_on [of ev random hide model f s] Cons.prems have "go" by simp
  with Cons.IH [of "fold take_chunk out m" s1] Cons.prems show ?case
    by (simp add: o advance_def split: prod.splits)
qed simp

lemma take_emit:
  "fold take_chunk (emit model s d finish) m =
     take_choice \<lparr>sc_index = 0, sc_delta = d, sc_finish_reason = finish, sc_logprobs = None\<rparr> (m\<lparr>cm_id := as_id s\<rparr>)"
  by (simp add: emit_def take_chunk_def)

text \<open>What each event does to the client's message.\<close>

lemma advance_text:
  "as_sent_role s \<Longrightarrow> advance random hide model f (TextDelta t) (s, m) = (s, m\<lparr>cm_id := as_id s, cm_content := cm_content m @ t\<rparr>)"
  by (simp add: advance_def on_event_def take_emit take_choice_def no_delta_def)

lemma advance_thinking:
  "advance random hide model f (ThinkingDelta i t) (s, m) =
     (s, m\<lparr>cm_id := as_id s, cm_thinking := merge_block
        (no_block\<lparr>tb_index := Some i, tb_type := thinkingBlockThinking, tb_thinking := t\<rparr>) (cm_thinking m)\<rparr>)"
  "advance random hide model f (SignatureDelta i t) (s, m) =
     (s, m\<lparr>cm_id := as_id s, cm_thinking := merge_block
        (no_block\<lparr>tb_index := Some i, tb_type := thinkingBlockThinking, tb_signature := t\<rparr>) (cm_thinking m)\<rparr>)"
  by (simp_all add: advance_def on_event_def emit_thinking_def take_emit take_choice_def no_delta_def)

lemma take_finish:
  "cm_finish m = None \<Longrightarrow>
   take_choice \<lparr>sc_index = 0, sc_delta = no_delta, sc_finish_reason = finish, sc_logprobs = None\<rparr> m = m\<lparr>cm_finish := finish\<rparr>"
  by (cases m; cases finish) (simp_all add: take_choice_def no_delta_def)

lemma advance_end:
  assumes "cm_id m = as_id s" "cm_finish m = None"
  shows "advance random hide model f (MessageDelta stop u) (s, m) =
      (s\<lparr>as_usage := merge_usage (as_usage s) u\<rparr>,
       m\<lparr>cm_finish := (if as_answered s \<and> ts_next (as_tools s) = 0 \<and> stop = ''tool_use'' then Some ''stop''
                        else anthropic_finish stop)\<rparr>)"
proof -
  have "m\<lparr>cm_id := as_id s\<rparr> = m" using assms(1) by (cases m) simp
  then show ?thesis using assms(2) by (simp add: advance_def on_event_def Let_def take_emit take_finish)
qed

lemma advance_stop:
  "cm_id m = as_id s \<Longrightarrow> advance random hide model f MessageStop (s, m) = (s, m\<lparr>cm_usage := Some (usage_of (as_usage s))\<rparr>)"
  by (cases m) (simp add: advance_def on_event_def take_chunk_def)

lemma advance_content:
  "fold take_chunk (emit_content model s t) m = m\<lparr>cm_id := (if t = [] then cm_id m else as_id s), cm_content := cm_content m @ t\<rparr>"
  by (simp add: emit_content_def take_emit take_choice_def no_delta_def)

lemma fold_text:
  "as_sent_role s \<Longrightarrow> cm_id m = as_id s \<Longrightarrow>
   fold (advance random hide model f) (map TextDelta ts) (s, m) = (s, m\<lparr>cm_content := cm_content m @ concat ts\<rparr>)"
  by (induction ts arbitrary: m) (simp_all add: advance_text)

lemma merge_last:
  "list_all (\<lambda>c. tb_index c \<noteq> tb_index b) bs \<Longrightarrow> tb_index c = tb_index b \<Longrightarrow>
   merge_block b (bs @ [c]) = bs @ [c\<lparr>tb_thinking := tb_thinking c @ tb_thinking b,
     tb_signature := tb_signature c @ tb_signature b, tb_data := tb_data c @ tb_data b\<rparr>]"
  by (induction bs) auto

lemma merge_new: "list_all (\<lambda>c. tb_index c \<noteq> tb_index b) bs \<Longrightarrow> merge_block b bs = bs @ [b]"
  by (induction bs) auto

lemma same_id:
  "cm_id m = i \<Longrightarrow> m\<lparr>cm_id := i, cm_thinking := x\<rparr> = m\<lparr>cm_thinking := x\<rparr>"
  "cm_id m = i \<Longrightarrow> m\<lparr>cm_id := i, cm_content := t\<rparr> = m\<lparr>cm_content := t\<rparr>"
  "cm_id m = i \<Longrightarrow> m\<lparr>cm_id := i, cm_calls := cs\<rparr> = m\<lparr>cm_calls := cs\<rparr>"
  "cm_id m = i \<Longrightarrow> m\<lparr>cm_id := i\<rparr> = m"
  by (cases m, simp)+

lemma fold_thinking:
  assumes "cm_id m = as_id s" "list_all (\<lambda>c. tb_index c \<noteq> Some i) bs" "tb_index b = Some i" "cm_thinking m = bs @ [b]"
  shows "fold (advance random hide model f) (map (ThinkingDelta i) ts) (s, m) =
      (s, m\<lparr>cm_thinking := bs @ [b\<lparr>tb_thinking := tb_thinking b @ concat ts\<rparr>]\<rparr>)"
    and "fold (advance random hide model f) (map (SignatureDelta i) ts) (s, m) =
      (s, m\<lparr>cm_thinking := bs @ [b\<lparr>tb_signature := tb_signature b @ concat ts\<rparr>]\<rparr>)"
proof -
  show "fold (advance random hide model f) (map (ThinkingDelta i) ts) (s, m) =
      (s, m\<lparr>cm_thinking := bs @ [b\<lparr>tb_thinking := tb_thinking b @ concat ts\<rparr>]\<rparr>)"
    using assms
  proof (induction ts arbitrary: b m)
    case (Cons t ts)
    have "merge_block (no_block\<lparr>tb_index := Some i, tb_type := thinkingBlockThinking, tb_thinking := t\<rparr>) (bs @ [b]) =
        bs @ [b\<lparr>tb_thinking := tb_thinking b @ t\<rparr>]"
      using Cons.prems by (subst merge_last) (simp_all add: no_block_def)
    with Cons.prems Cons.IH [where b = "b\<lparr>tb_thinking := tb_thinking b @ t\<rparr>"
        and m = "m\<lparr>cm_thinking := bs @ [b\<lparr>tb_thinking := tb_thinking b @ t\<rparr>]\<rparr>"]
    show ?case by (simp add: advance_thinking same_id)
  qed simp
  show "fold (advance random hide model f) (map (SignatureDelta i) ts) (s, m) =
      (s, m\<lparr>cm_thinking := bs @ [b\<lparr>tb_signature := tb_signature b @ concat ts\<rparr>]\<rparr>)"
    using assms
  proof (induction ts arbitrary: b m)
    case (Cons t ts)
    have "merge_block (no_block\<lparr>tb_index := Some i, tb_type := thinkingBlockThinking, tb_signature := t\<rparr>) (bs @ [b]) =
        bs @ [b\<lparr>tb_signature := tb_signature b @ t\<rparr>]"
      using Cons.prems by (subst merge_last) (simp_all add: no_block_def)
    with Cons.prems Cons.IH [where b = "b\<lparr>tb_signature := tb_signature b @ t\<rparr>"
        and m = "m\<lparr>cm_thinking := bs @ [b\<lparr>tb_signature := tb_signature b @ t\<rparr>]\<rparr>"]
    show ?case by (simp add: advance_thinking same_id)
  qed simp
qed

lemma advance_open:
  assumes "ts_next (as_tools s) = length (cm_calls m)" "\<not> is_answer f name" "cm_id m = as_id s" "i \<noteq> noBlock"
  shows "advance random hide model f (BlockStart i ''tool_use'' ci name data) (s, m) =
    (s\<lparr>as_tools := \<lparr>ts_index = (ts_index (as_tools s))(i \<mapsto> length (cm_calls m)), ts_next = length (cm_calls m) + 1\<rparr>\<rparr>,
     m\<lparr>cm_calls := cm_calls m @ [\<lparr>cl_id = call_id (random (length (cm_calls m))) ci, cl_name = name, cl_arguments = []\<rparr>]\<rparr>)"
  using assms
  by (simp add: advance_def on_event_def open_call_def assign_def Let_def take_emit take_choice_def no_delta_def opened_delta)

lemma fold_input:
  assumes "as_answers s i = None" "ts_index (as_tools s) i = Some (length cs)" "cm_calls m = cs @ [c]" "cm_id m = as_id s"
  shows "fold (advance random hide model f) (map (InputDelta i) ts) (s, m) =
    (s, m\<lparr>cm_calls := cs @ [c\<lparr>cl_arguments := cl_arguments c @ concat ts\<rparr>]\<rparr>)"
  using assms
proof (induction ts arbitrary: c m)
  case (Cons t ts)
  have "advance random hide model f (InputDelta i t) (s, m) =
      (s, m\<lparr>cm_calls := cs @ [c\<lparr>cl_arguments := cl_arguments c @ t\<rparr>]\<rparr>)"
    using Cons.prems
    by (simp add: advance_def on_event_def call_args_def take_emit take_choice_def no_delta_def fragment_delta)
  with Cons.prems Cons.IH [where c = "c\<lparr>cl_arguments := cl_arguments c @ t\<rparr>"
      and m = "m\<lparr>cm_calls := cs @ [c\<lparr>cl_arguments := cl_arguments c @ t\<rparr>]\<rparr>"]
  show ?case by simp
qed simp

lemma fold_answer:
  assumes "as_answers s i = Some a" "cm_id m = as_id s"
  shows "fold (advance random hide model f) (map (InputDelta i) ts) (s, m) =
    (s\<lparr>as_answers := (as_answers s)(i \<mapsto> snd (format_feeds ts a))\<rparr>, m\<lparr>cm_content := cm_content m @ fst (format_feeds ts a)\<rparr>)"
  using assms
proof (induction ts arbitrary: a s m)
  case Nil
  then have "(as_answers s)(i \<mapsto> a) = as_answers s" by auto
  then show ?case by simp
next
  case (Cons t ts)
  obtain out b where o: "format_feed t a = (out, b)" by (metis surj_pair)
  have "advance random hide model f (InputDelta i t) (s, m) =
      (s\<lparr>as_answers := (as_answers s)(i \<mapsto> b)\<rparr>, m\<lparr>cm_content := cm_content m @ out\<rparr>)"
    using Cons.prems by (simp add: advance_def on_event_def o advance_content)
  with Cons.IH [of "s\<lparr>as_answers := (as_answers s)(i \<mapsto> b)\<rparr>" b "m\<lparr>cm_content := cm_content m @ out\<rparr>"] Cons.prems(2)
  show ?case by (simp add: o case_prod_beta cong: if_cong)
qed

text \<open>The whole of one answer block.\<close>

lemma answer_block:
  assumes "as_answers s i = None" "cm_id m = as_id s" "is_answer f name"
  shows "fold (advance random hide model f)
      ([BlockStart i ''tool_use'' ci name data] @ map (InputDelta i) ts @ [BlockStop i]) (s, m) =
    (s\<lparr>as_answered := True\<rparr>, m\<lparr>cm_content := cm_content m @ answer_text (fp_wrapped f) (concat ts)\<rparr>)"
proof -
  let ?a = "new_format_stream (fp_wrapped f)"
  have start: "advance random hide model f (BlockStart i ''tool_use'' ci name data) (s, m) =
      (s\<lparr>as_answers := (as_answers s)(i \<mapsto> ?a), as_answered := True\<rparr>, m)"
    using assms(3) by (simp add: advance_def on_event_def)
  have none: "(as_answers s)(i := None) = as_answers s" using assms(1) by auto
  have "fst (format_feeds ts ?a) @ fst (format_flush (snd (format_feeds ts ?a))) = answer_text (fp_wrapped f) (concat ts)"
    using streamed_answer_text [of "fp_wrapped f" ts] by (simp add: streamed_answer_def case_prod_beta)
  moreover have "s\<lparr>as_answers := as_answers s, as_answered := True\<rparr> = s\<lparr>as_answered := True\<rparr>" by simp
  ultimately show ?thesis
    using assms(2) none
    by (simp add: start fold_answer) (simp add: advance_def on_event_def advance_content)
qed

section \<open>The stream agrees with the whole answer\<close>

definition call_view :: "tool_call \<Rightarrow> client_call" where
  "call_view c = \<lparr>cl_id = tc_id c, cl_name = tc_name c, cl_arguments = tc_arguments c\<rparr>"

definition unindexed :: "thinking_block \<Rightarrow> thinking_block" where
  "unindexed b = b\<lparr>tb_index := None\<rparr>"

definition indexed_below :: "nat \<Rightarrow> thinking_block \<Rightarrow> bool" where
  "indexed_below k b = (case tb_index b of None \<Rightarrow> False | Some i \<Rightarrow> i < int k)"

definition agree :: "(json \<Rightarrow> bytes) \<Rightarrow> nat \<Rightarrow> gathering \<Rightarrow> bytes \<Rightarrow> an_stream \<Rightarrow> client_message \<Rightarrow> bool" where
  "agree show k g content s m \<longleftrightarrow>
     as_sent_role s \<and> as_error s = None \<and> as_answers s = Map.empty \<and> cm_id m = as_id s
     \<and> ts_next (as_tools s) = length (cm_calls m) \<and> as_answered s = (ga_structured g \<noteq> None)
     \<and> list_all (indexed_below k) (cm_thinking m) \<and> map unindexed (cm_thinking m) = ga_thinking g
     \<and> cm_calls m = map (as_sent show \<circ> call_view) (ga_calls g) \<and> cm_content m = content
     \<and> cm_finish m = None \<and> cm_usage m = None \<and> cm_role m = ''assistant''"

text \<open>What a block adds to the content.\<close>

definition shown :: "(json \<Rightarrow> bytes) \<Rightarrow> format_plan \<Rightarrow> an_content \<Rightarrow> bytes" where
  "shown show f c =
     (if bl_type c = ''text'' then bl_text c
      else if is_answer_block f c then format_answer show f (bl_input c) else [])"

lemma unindexed_id: "(\<lambda>b. b\<lparr>tb_index := None\<rparr>) = unindexed"
  by (simp add: unindexed_def fun_eq_iff)

lemma block_types:
  "thinkingBlockThinking \<noteq> ''text''" "thinkingBlockThinking \<noteq> ''tool_use''" "thinkingBlockRedacted \<noteq> ''text''"
  "thinkingBlockRedacted \<noteq> ''tool_use''" "thinkingBlockRedacted \<noteq> thinkingBlockThinking" "''tool_use'' \<noteq> ''text''"
  by code_simp+

lemma indexed_fresh: "list_all (indexed_below k) bs \<Longrightarrow> list_all (\<lambda>c. tb_index c \<noteq> Some (int k)) bs"
  by (auto simp: indexed_below_def list_all_iff)

lemma indexed_mono: "list_all (indexed_below k) bs \<Longrightarrow> list_all (indexed_below (Suc k)) bs"
  by (auto simp: indexed_below_def list_all_iff split: option.splits)

lemma answer_of_text:
  assumes "block_complete show valid f c" "bl_type c = ''tool_use''" "is_answer f (bl_name c)"
  shows "answer_text (fp_wrapped f) (streamed_input show (bl_input c)) = format_answer show f (bl_input c)"
proof -
  from assms obtain j where j: "bl_input c = Some j" "show j \<noteq> []"
    and wrapped: "fp_wrapped f \<Longrightarrow> j \<noteq> JObj [] \<Longrightarrow> prints_wrapper show j"
    and empty: "j = JObj [] \<Longrightarrow> show j = ''{}''"
    by (auto simp: block_complete_def split: option.splits if_splits)
  consider "j = JObj []" | "j \<noteq> JObj []" "\<not> fp_wrapped f" | "j \<noteq> JObj []" "fp_wrapped f" by blast
  then show ?thesis
  proof cases
    case 1
    have "answer_text (fp_wrapped f) [] = ''{}''" by (cases "fp_wrapped f") (simp_all, code_simp+)
    with 1 empty j(1) show ?thesis
      by (simp add: streamed_input_def format_answer_def unmarshal_def dec_struct_def)
  next
    case 2
    with j show ?thesis by (simp add: answer_text_def format_answer_def streamed_input_def)
  next
    case 3
    from wrapped [OF 3(2,1)] obtain v where v: "j = JObj [(''value'', v)]" "show j = concat opener @ show v @ [CHR 0x7D]"
      "show v \<noteq> []" "\<not> json_space (hd (show v))" "\<not> json_space (last (show v))"
      by (auto simp: prints_wrapper_def split: json.splits list.splits)
    from unwrapped_value [OF v(3-5)] 3(2) show ?thesis
      by (simp add: j(1) 3(1) v(2) streamed_input_def) (simp add: v(1) format_answer_def unmarshal_def dec_struct_def value_field_def)
  qed
qed

lemma block_step:
  assumes inv: "agree show k g content s m" and complete: "block_complete show valid f c"
    and frags: "\<And>t. concat (frags t) = t"
    and go: "fold (advance random hide model f) (block_events show frags (int k) c) (s, m) = (s', m')"
  shows "agree show (Suc k) (gather show f c g) (content @ shown show f c) s' m' \<and> as_id s' = as_id s \<and> as_usage s' = as_usage s"
proof -
  let ?adv = "advance random hide model f"
  have s: "as_sent_role s" "as_error s = None" "as_answers s = Map.empty" "cm_id m = as_id s"
    "ts_next (as_tools s) = length (cm_calls m)" "as_answered s = (ga_structured g \<noteq> None)"
    "list_all (indexed_below k) (cm_thinking m)" "map unindexed (cm_thinking m) = ga_thinking g"
    "cm_calls m = map (as_sent show \<circ> call_view) (ga_calls g)" "cm_content m = content" "cm_finish m = None" "cm_usage m = None"
    "cm_role m = ''assistant''"
    using inv by (simp_all add: agree_def)
  note types = block_types block_types [symmetric]
  have stop: "?adv (BlockStop i) (r, n) = (r, n)" if "as_answers r = Map.empty" for i r n
    using that by (simp add: advance_def on_event_def)
  note fresh = indexed_fresh [OF s(7)] and mono = indexed_mono [OF s(7)]
  consider "bl_type c = ''text''" | "bl_type c = thinkingBlockThinking" | "bl_type c = thinkingBlockRedacted"
    | "bl_type c = ''tool_use''" "is_answer f (bl_name c)" | "bl_type c = ''tool_use''" "\<not> is_answer f (bl_name c)"
    | "bl_type c \<noteq> ''text''" "bl_type c \<noteq> thinkingBlockThinking" "bl_type c \<noteq> thinkingBlockRedacted" "bl_type c \<noteq> ''tool_use''"
    by blast
  then show ?thesis
  proof cases
    case 1
    have "?adv (BlockStart (int k) ''text'' i n d) (s, m) = (s, m)" for i n d
      using types by (simp add: advance_def on_event_def)
    with go 1 have "s' = s" "m' = m\<lparr>cm_content := cm_content m @ bl_text c\<rparr>"
      by (simp_all add: block_events_def fold_text [OF s(1,4)] frags stop [OF s(3)])
    with s mono 1 types show ?thesis by (simp add: agree_def gather_def shown_def)
  next
    case 2
    let ?b = "no_block\<lparr>tb_index := Some (int k), tb_type := thinkingBlockThinking\<rparr>"
    let ?t = "case bl_thinking c of Some t \<Rightarrow> t | None \<Rightarrow> []"
    have start: "?adv (BlockStart (int k) thinkingBlockThinking i n d) (s, m) = (s, m\<lparr>cm_thinking := cm_thinking m @ [?b]\<rparr>)" for i n d
      using types fresh
      by (simp add: advance_def on_event_def emit_thinking_def take_emit take_choice_def no_delta_def merge_new no_block_def same_id s(4))
    have m1: "cm_id (m\<lparr>cm_thinking := cm_thinking m @ [?b]\<rparr>) = as_id s" using s(4) by simp
    from go 2 types have "(s', m') = ?adv (BlockStop (int k)) (fold ?adv (map (SignatureDelta (int k)) (frags (bl_signature c)))
        (fold ?adv (map (ThinkingDelta (int k)) (frags ?t)) (s, m\<lparr>cm_thinking := cm_thinking m @ [?b]\<rparr>)))"
      by (simp add: block_events_def start)
    also have "fold ?adv (map (ThinkingDelta (int k)) (frags ?t)) (s, m\<lparr>cm_thinking := cm_thinking m @ [?b]\<rparr>)
        = (s, m\<lparr>cm_thinking := cm_thinking m @ [?b\<lparr>tb_thinking := ?t\<rparr>]\<rparr>)"
      using fold_thinking(1) [OF m1 fresh, of ?b random hide model f "frags ?t"] by (simp add: no_block_def frags)
    also have "fold ?adv (map (SignatureDelta (int k)) (frags (bl_signature c)))
        (s, m\<lparr>cm_thinking := cm_thinking m @ [?b\<lparr>tb_thinking := ?t\<rparr>]\<rparr>)
        = (s, m\<lparr>cm_thinking := cm_thinking m @ [?b\<lparr>tb_thinking := ?t, tb_signature := bl_signature c\<rparr>]\<rparr>)"
      using fold_thinking(2) [OF _ fresh, where b = "?b\<lparr>tb_thinking := ?t\<rparr>"
          and m = "m\<lparr>cm_thinking := cm_thinking m @ [?b\<lparr>tb_thinking := ?t\<rparr>]\<rparr>" and s = s] s(4)
      by (simp add: no_block_def frags)
    finally have "s' = s" "m' = m\<lparr>cm_thinking := cm_thinking m @ [?b\<lparr>tb_thinking := ?t, tb_signature := bl_signature c\<rparr>]\<rparr>"
      by (simp_all add: stop s(3))
    with s mono 2 types show ?thesis
      by (simp add: agree_def gather_def shown_def is_answer_block_def indexed_below_def unindexed_def no_block_def)
  next
    case 3
    let ?b = "no_block\<lparr>tb_index := Some (int k), tb_type := thinkingBlockRedacted, tb_data := bl_data c\<rparr>"
    have "?adv (BlockStart (int k) thinkingBlockRedacted i n (bl_data c)) (s, m) = (s, m\<lparr>cm_thinking := cm_thinking m @ [?b]\<rparr>)" for i n
      using types fresh
      by (simp add: advance_def on_event_def emit_thinking_def take_emit take_choice_def no_delta_def merge_new no_block_def same_id s(4))
    with go 3 types have "s' = s" "m' = m\<lparr>cm_thinking := cm_thinking m @ [?b]\<rparr>"
      by (simp_all add: block_events_def stop s(3))
    with s mono 3 types show ?thesis
      by (simp add: agree_def gather_def shown_def is_answer_block_def indexed_below_def unindexed_def no_block_def)
  next
    case 4
    let ?t = "streamed_input show (bl_input c)"
    have none: "as_answers s (int k) = None" using s(3) by simp
    from answer_block [OF none s(4) 4(2), of random hide model "bl_id c" "bl_data c" "frags ?t"]
      go 4 types answer_of_text [OF complete 4] have "s' = s\<lparr>as_answered := True\<rparr>"
        "m' = m\<lparr>cm_content := cm_content m @ format_answer show f (bl_input c)\<rparr>"
      by (simp_all add: block_events_def frags)
    with s mono 4 types show ?thesis
      by (simp add: agree_def gather_def shown_def is_answer_block_def)
  next
    case 5
    from complete 5 obtain j where j: "bl_input c = Some j" "bl_id c \<noteq> []"
      "(show j = show (JObj [])) = (j = JObj [])"
      by (auto simp: block_complete_def split: option.splits)
    let ?t = "streamed_input show (bl_input c)"
    let ?c = "\<lparr>cl_id = bl_id c, cl_name = bl_name c, cl_arguments = []\<rparr>"
    let ?s = "s\<lparr>as_tools := \<lparr>ts_index = (ts_index (as_tools s))(int k \<mapsto> length (cm_calls m)), ts_next = length (cm_calls m) + 1\<rparr>\<rparr>"
    have "?adv (BlockStart (int k) ''tool_use'' (bl_id c) (bl_name c) (bl_data c)) (s, m) = (?s, m\<lparr>cm_calls := cm_calls m @ [?c]\<rparr>)"
      using advance_open [OF s(5) 5(2) s(4), of "int k" random hide model "bl_id c" "bl_data c"] j(2)
      by (simp add: noBlock_def call_id_def)
    moreover have "fold ?adv (map (InputDelta (int k)) (frags ?t)) (?s, m\<lparr>cm_calls := cm_calls m @ [?c]\<rparr>)
        = (?s, m\<lparr>cm_calls := cm_calls m @ [?c\<lparr>cl_arguments := ?t\<rparr>]\<rparr>)"
      using fold_input [where s = ?s and i = "int k" and cs = "cm_calls m" and c = ?c
          and m = "m\<lparr>cm_calls := cm_calls m @ [?c]\<rparr>" and ts = "frags ?t"] s(3,4)
      by (simp add: frags)
    ultimately have "s' = ?s" "m' = m\<lparr>cm_calls := cm_calls m @ [?c\<lparr>cl_arguments := ?t\<rparr>]\<rparr>"
      using go 5 types by (simp_all add: block_events_def stop s(3))
    moreover have "as_sent show (call_view \<lparr>tc_id = bl_id c, tc_name = bl_name c, tc_arguments = show j, tc_signature = []\<rparr>)
        = ?c\<lparr>cl_arguments := ?t\<rparr>"
      using j(3) by (simp add: as_sent_def call_view_def streamed_input_def j(1))
    ultimately show ?thesis using s mono 5 types j(1)
      by (simp add: agree_def gather_def shown_def is_answer_block_def)
  next
    case 6
    have "?adv (BlockStart (int k) (bl_type c) i n d) (s, m) = (s, m)" for i n d
      using 6 by (simp add: advance_def on_event_def)
    with go 6 have "s' = s" "m' = m" by (simp_all add: block_events_def stop s(3))
    with s mono 6 show ?thesis by (simp add: agree_def gather_def shown_def is_answer_block_def)
  qed
qed

lemma blocks_agree:
  assumes frags: "\<And>t. concat (frags t) = t"
  shows "agree show k g content s m \<Longrightarrow> list_all (block_complete show valid f) cs \<Longrightarrow>
   fold (advance random hide model f) (concat (map (\<lambda>(i, c). block_events show frags (int i) c) (enumerate k cs))) (s, m) = (s', m') \<Longrightarrow>
   agree show (k + length cs) (fold (gather show f) cs g) (content @ concat (map (shown show f) cs)) s' m'
   \<and> as_id s' = as_id s \<and> as_usage s' = as_usage s"
proof (induction cs arbitrary: k g content s m)
  case (Cons c cs)
  obtain s1 m1 where one: "fold (advance random hide model f) (block_events show frags (int k) c) (s, m) = (s1, m1)"
    by (metis surj_pair)
  from block_step [OF Cons.prems(1) _ frags one, where valid = valid] Cons.prems(2)
  have st: "agree show (Suc k) (gather show f c g) (content @ shown show f c) s1 m1" "as_id s1 = as_id s" "as_usage s1 = as_usage s"
    by simp_all
  from Cons.IH [OF st(1)] Cons.prems(2,3) one st(2,3) show ?case by simp
qed simp

lemma gathered_snoc: "gathered show f (cs @ [c]) = gather show f c (gathered show f cs)"
  by (simp add: gathered_def)

lemma gathered_content:
  assumes "answer_alone f cs"
  shows "concat (map (shown show f) cs) =
    (case ga_structured (gathered show f cs) of None \<Rightarrow> ga_text (gathered show f cs) | Some t \<Rightarrow> t)"
proof -
  note types = block_types block_types [symmetric]
  have plain: "filter (is_answer_block f) cs = [] \<Longrightarrow>
      ga_structured (gathered show f cs) = None \<and> concat (map (shown show f) cs) = ga_text (gathered show f cs)" for cs
  proof (induction cs rule: rev_induct)
    case Nil
    then show ?case by (simp add: gathered_def)
  next
    case (snoc c cs)
    then show ?case unfolding gathered_snoc using types by (auto simp: gather_def shown_def is_answer_block_def split: if_splits)
  qed
  have alone: "length (filter (is_answer_block f) cs) = 1 \<Longrightarrow>
      list_all (\<lambda>c. if bl_type c = ''text'' then bl_text c = [] else True) cs \<Longrightarrow>
      ga_structured (gathered show f cs) = Some (concat (map (shown show f) cs))" for cs
  proof (induction cs rule: rev_induct)
    case (snoc c cs)
    show ?case
    proof (cases "is_answer_block f c")
      case True
      with snoc.prems(1) have none: "filter (is_answer_block f) cs = []" by simp
      have "concat (map (shown show f) cs) = []"
        using none snoc.prems(2) by (auto simp: shown_def list_all_iff filter_empty_conv)
      with True types show ?thesis unfolding gathered_snoc
        by (simp add: gather_def shown_def is_answer_block_def)
    next
      case False
      with snoc have "ga_structured (gathered show f cs) = Some (concat (map (shown show f) cs))" by simp
      moreover have "shown show f c = []" using False snoc.prems(2) by (simp add: shown_def)
      moreover have "ga_structured (gather show f c g) = ga_structured g" for g
        using False by (simp add: gather_def is_answer_block_def)
      ultimately show ?thesis unfolding gathered_snoc by simp
    qed
  qed simp
  from assms show ?thesis unfolding answer_alone_def using plain [of cs] alone [of cs] by auto
qed

definition call_complete :: "(bytes \<Rightarrow> bool) \<Rightarrow> tool_call \<Rightarrow> bool" where
  "call_complete valid c \<longleftrightarrow> tc_id c \<noteq> [] \<and> tc_arguments c \<noteq> [] \<and> valid (tc_arguments c)"

lemma gathered_calls_complete:
  "list_all (block_complete show valid f) cs \<Longrightarrow> list_all (call_complete valid) (ga_calls (gathered show f cs))"
proof (induction cs rule: rev_induct)
  case Nil
  then show ?case by (simp add: gathered_def)
next
  case (snoc c cs)
  then show ?case unfolding gathered_snoc
    by (auto simp: gather_def block_complete_def call_complete_def split: option.splits if_splits)
qed

lemma whole_calls_view:
  assumes "list_all (call_complete valid) calls"
  shows "whole_calls (tool_calls_json valid random calls) = map call_view calls"
proof -
  have one: "whole_call_view (marshal_map (wire (normalised valid r c))) = call_view c" if "call_complete valid c" for r c
  proof -
    have "normalised valid r c = c" using that by (simp add: normalised_def call_complete_def call_id_def)
    moreover have "distinct (map fst (wire c))" by (simp add: wire_def toolCallSignatureField_def)
    ultimately show ?thesis
      by (simp add: whole_call_view_def call_view_def str_member_def function_of_def member_marshal)
        (simp add: wire_def toolCallSignatureField_def)
  qed
  have "map (\<lambda>x. whole_call_view (marshal_map (wire (normalised valid (random (fst x)) (snd x))))) (enumerate k calls)
      = map call_view calls" for k
    using assms by (induction calls arbitrary: k) (simp_all add: one)
  from this [of 0] show ?thesis
    by (simp add: whole_calls_def tool_calls_json_def comp_def case_prod_beta)
qed

section \<open>Properties\<close>


definition sample_show :: "json \<Rightarrow> bytes" where
  "sample_show j =
     (case j of
        JStr t \<Rightarrow> [CHR 0x22] @ t @ [CHR 0x22]
      | JObj [] \<Rightarrow> ''{}''
      | JObj (m # ms) \<Rightarrow> concat opener @ [CHR 0x22] @ ''x'' @ [CHR 0x22] @ [CHR 0x7D]
      | _ \<Rightarrow> ''0'')"

definition sample_format :: format_plan where
  "sample_format = \<lparr>fp_mode = FormatTool, fp_schema = None, fp_wrapped = True, fp_warnings = []\<rparr>"

definition sample_answer :: an_response where
  "sample_answer =
     \<lparr>ar_id = ''msg_1'',
      ar_content =
        [no_content\<lparr>bl_type := thinkingBlockThinking, bl_thinking := Some ''so'', bl_signature := ''sig''\<rparr>,
         no_content\<lparr>bl_type := ''tool_use'', bl_id := ''t1'', bl_name := ragmuxResponseTool,
           bl_input := Some (JObj [(''value'', JStr ''x'')])\<rparr>,
         no_content\<lparr>bl_type := ''tool_use'', bl_id := ''t2'', bl_name := ''look'', bl_input := Some (JNum ''0'')\<rparr>,
         no_content\<lparr>bl_type := ''tool_use'', bl_id := ''t3'', bl_name := ''list'', bl_input := Some (JObj [])\<rparr>],
      ar_stop_reason = ''tool_use'', ar_usage = no_an_usage\<rparr>"


text \<open>A call without parameters: \<open>{}\<close> in the whole message, nothing a JSON parser accepts in the stream.\<close>

theorem parameterless_call_is_streamed_without_arguments:
  "map cl_arguments (cm_calls (client_view (anthropic_chat sample_show (\<lambda>t. True) (\<lambda>n. ''r'') ''c'' sample_format ''m'' sample_answer)))
     = [''0'', ''{}'']
   \<and> map cl_arguments (cm_calls (fold take_chunk (fst (anthropic_stream (\<lambda>n. ''r'') (\<lambda>t. t) ''c'' sample_format ''m''
        (answer_events sample_show (\<lambda>t. [t]) no_an_usage no_an_usage sample_answer) None)) no_client_message))
     = [''0'', []]"
  by code_simp

text \<open>Prose before a structured answer is dropped from the whole message and kept by the stream, where
  the content is then no longer the JSON value the client asked for.\<close>

definition chatty_answer :: an_response where
  "chatty_answer = sample_answer\<lparr>ar_content := text_block ''Sure: '' # ar_content sample_answer\<rparr>"

theorem prose_is_streamed_beside_the_answer:
  "cm_content (client_view (anthropic_chat sample_show (\<lambda>t. True) (\<lambda>n. ''r'') ''c'' sample_format ''m'' chatty_answer))
     = sample_show (JStr ''x'')
   \<and> cm_content (fold take_chunk (fst (anthropic_stream (\<lambda>n. ''r'') (\<lambda>t. t) ''c'' sample_format ''m''
        (answer_events sample_show (\<lambda>t. [t]) no_an_usage no_an_usage chatty_answer) None)) no_client_message)
     = ''Sure: '' @ sample_show (JStr ''x'')"
  by code_simp

end
