(* ===== verification/Hybrid.thy ===== *)
theory Hybrid
  imports GoStrings
begin

text \<open>
  The search of a store (\<open>internal/store/vector.go\<close>, \<open>search.go\<close>, \<open>search_pgvector.go\<close>,
  \<open>search_pgsearch.go\<close>): the statement that fuses the vector and the lexical candidates, as a
  function on rows, and the fallback from one lexical backend to the other. A distance or a
  text rank is a value of a linear order, as PostgreSQL sorts \<open>float8\<close>. The rows the vector
  index walks over are a parameter: the index is approximate and its order is not trusted.
  \<open>cw_allowed\<close> is the metadata filter's predicate on the document of a row.
\<close>

section \<open>The legs\<close>

record 'd chunk_row =
  cw_id :: int
  cw_distance :: 'd
  cw_text_rank :: "'d option"
  cw_allowed :: bool

text \<open>
  \<open>vc\<close>: the first \<open>n\<close> rows of the scan whose document the filter lets through; \<open>v\<close>:
  \<open>ROW_NUMBER() OVER (ORDER BY distance, chunk_id)\<close> over them.
\<close>

definition nearer :: "('d::linorder) chunk_row \<Rightarrow> 'd chunk_row \<Rightarrow> bool" where
  "nearer a b \<longleftrightarrow> cw_distance a < cw_distance b \<or> cw_distance a = cw_distance b \<and> cw_id a < cw_id b"

definition vector_candidates :: "nat \<Rightarrow> 'd chunk_row list \<Rightarrow> 'd chunk_row list" where
  "vector_candidates n scanned = take n (filter cw_allowed scanned)"

definition vector_leg :: "nat \<Rightarrow> ('d::linorder) chunk_row list \<Rightarrow> int list" where
  "vector_leg n scanned = map cw_id (stable_sort nearer (vector_candidates n scanned))"

definition better_text :: "('d::linorder) chunk_row \<Rightarrow> 'd chunk_row \<Rightarrow> bool" where
  "better_text a b \<longleftrightarrow>
     (case (cw_text_rank a, cw_text_rank b) of
        (Some x, Some y) \<Rightarrow> y < x \<or> x = y \<and> cw_id a < cw_id b
      | _ \<Rightarrow> False)"

definition lexical_leg :: "nat \<Rightarrow> ('d::linorder) chunk_row list \<Rightarrow> int list" where
  "lexical_leg n rows =
     map cw_id (take n (stable_sort better_text (filter (\<lambda>c. cw_allowed c \<and> cw_text_rank c \<noteq> None) rows)))"

text \<open>A rank is a position counted from one, zero for a chunk the leg does not hold.\<close>

fun rank_in :: "int \<Rightarrow> int list \<Rightarrow> nat" where
  "rank_in c [] = 0"
| "rank_in c (x # xs) = (if x = c then 1 else (let r = rank_in c xs in if r = 0 then 0 else r + 1))"

definition rrfK where "rrfK = (60::nat)"

section \<open>Reciprocal rank fusion\<close>

text \<open>\<open>share\<close> is what the server computes for \<open>1.0/(60+rank)\<close>, rounded as \<open>numeric\<close> division is.\<close>

definition leg_share :: "(nat \<Rightarrow> rat) \<Rightarrow> nat \<Rightarrow> rat" where
  "leg_share share r = (if r = 0 then 0 else share (rrfK + r))"

record 'd fused_row =
  fw_id :: int
  fw_distance :: 'd
  fw_score :: rat
  fw_vector_rank :: nat
  fw_text_rank :: nat

definition fuse_row :: "(nat \<Rightarrow> rat) \<Rightarrow> int list \<Rightarrow> int list \<Rightarrow> 'd chunk_row \<Rightarrow> 'd fused_row" where
  "fuse_row share v f c =
     (let vr = rank_in (cw_id c) v; fr = rank_in (cw_id c) f in
      \<lparr>fw_id = cw_id c, fw_distance = cw_distance c, fw_score = leg_share share vr + leg_share share fr,
       fw_vector_rank = vr, fw_text_rank = fr\<rparr>)"

definition ranks_before :: "('d::linorder) fused_row \<Rightarrow> 'd fused_row \<Rightarrow> bool" where
  "ranks_before a b \<longleftrightarrow>
     fw_score a > fw_score b
     \<or> fw_score a = fw_score b \<and> (fw_distance a < fw_distance b \<or> fw_distance a = fw_distance b \<and> fw_id a < fw_id b)"

text \<open>\<open>HybridQuery\<close>: the full outer join of the legs, joined with the rows of the store.\<close>

definition hybrid_query ::
  "(nat \<Rightarrow> rat) \<Rightarrow> nat \<Rightarrow> ('d::linorder) option \<Rightarrow> 'd chunk_row list \<Rightarrow> 'd chunk_row list \<Rightarrow> 'd fused_row list" where
  "hybrid_query share n max_distance scanned rows =
     (let v = vector_leg n scanned; f = lexical_leg n rows;
          m = filter (\<lambda>c. cw_id c \<in> set v \<or> cw_id c \<in> set f) rows;
          m = filter (\<lambda>c. case max_distance of None \<Rightarrow> True | Some d \<Rightarrow> cw_distance c \<le> d) m in
      take n (stable_sort ranks_before (map (fuse_row share v f) m)))"

definition vector_query ::
  "(nat \<Rightarrow> rat) \<Rightarrow> nat \<Rightarrow> ('d::linorder) option \<Rightarrow> 'd chunk_row list \<Rightarrow> 'd fused_row list" where
  "vector_query share n max_distance scanned =
     (let v = vector_leg n scanned in
      map (fuse_row share v [])
        (filter (\<lambda>c. case max_distance of None \<Rightarrow> True | Some d \<Rightarrow> cw_distance c \<le> d)
           (stable_sort nearer (vector_candidates n scanned))))"

section \<open>The lexical query\<close>

definition plain_word :: "bytes \<Rightarrow> bool" where
  "plain_word w \<longleftrightarrow> lower w \<noteq> ''or'' \<and> \<not> has_prefix w ''-''"

definition fts_query :: "bytes \<Rightarrow> bytes" where
  "fts_query q =
     (let q = trim_space q in
      if q = [] \<or> CHR 0x22 \<in> set q then q
      else if list_all plain_word (go_fields q) then join '' or '' (go_fields q) else q)"

section \<open>Which backend answers\<close>

definition BackendPgvector where "BackendPgvector = ''pgvector''"
definition BackendPgSearch where "BackendPgSearch = ''pg_search''"
definition SearchVector where "SearchVector = ''vector''"
definition SearchHybrid where "SearchHybrid = ''hybrid''"

datatype run_failure = StatementRejected | DatabaseFailure

datatype search_failure = UnknownMode | StoreUnread | WrongWidth | RunFailed run_failure

text \<open>
  \<open>en_run\<close> is the answer of the server to the statement of a backend, by the number of the
  attempt; \<open>en_gone\<close> says whether the caller's context is done after it.
\<close>

record 'h search_env =
  en_pg_search :: bool
  en_store :: "(nat \<times> nat) option"
  en_prepared :: bool
  en_run :: "nat \<Rightarrow> bytes \<Rightarrow> run_failure + 'h list"
  en_gone :: bool

definition backend_available :: "'h search_env \<Rightarrow> bytes \<Rightarrow> bool" where
  "backend_available e name \<longleftrightarrow> (if name = BackendPgSearch then en_pg_search e else True)"

definition resolve_backend :: "'h search_env \<Rightarrow> bytes \<Rightarrow> bytes" where
  "resolve_backend e name =
     (let name = (if name = [] then BackendPgvector else name);
          name = (if name = BackendPgvector \<or> name = BackendPgSearch then name else BackendPgvector) in
      if backend_available e name then name else BackendPgvector)"

definition prepare_backend :: "'h search_env \<Rightarrow> bytes \<Rightarrow> bool" where
  "prepare_backend e name \<longleftrightarrow> name = BackendPgvector \<or> en_prepared e"

record 'h search_outcome =
  so_result :: "search_failure + 'h list"
  so_backend :: bytes
  so_runs :: "bytes list"
  so_invalidated :: bool

definition outcome :: "bytes \<Rightarrow> search_failure + 'h list \<Rightarrow> 'h search_outcome" where
  "outcome b r = \<lparr>so_result = r, so_backend = b, so_runs = [], so_invalidated = False\<rparr>"

definition run_result :: "run_failure + 'h list \<Rightarrow> search_failure + 'h list" where
  "run_result r = (case r of Inl x \<Rightarrow> Inl (RunFailed x) | Inr hits \<Rightarrow> Inr hits)"

definition retry_on_pgvector :: "'h search_env \<Rightarrow> bytes \<Rightarrow> bytes \<Rightarrow> run_failure + 'h list \<Rightarrow> bool" where
  "retry_on_pgvector e mode b r \<longleftrightarrow>
     \<not> (mode \<noteq> SearchHybrid \<or> en_gone e \<or> b = BackendPgvector \<or> r \<noteq> Inl StatementRejected)"

definition search_with_backend :: "'h search_env \<Rightarrow> nat \<Rightarrow> bytes \<Rightarrow> bytes \<Rightarrow> 'h search_outcome" where
  "search_with_backend e width mode name =
     (let mode = (if mode = [] then SearchHybrid else mode) in
      if mode \<noteq> SearchVector \<and> mode \<noteq> SearchHybrid then outcome [] (Inl UnknownMode)
      else
        (let b = resolve_backend e name in
         case en_store e of
           None \<Rightarrow> outcome b (Inl StoreUnread)
         | Some (dims, chunks) \<Rightarrow>
             (if dims = 0 \<or> chunks = 0 then outcome b (Inr [])
              else if width \<noteq> dims then outcome b (Inl WrongWidth)
              else
                (let b = (if mode = SearchHybrid \<and> \<not> prepare_backend e b then BackendPgvector else b);
                     r = en_run e 0 b in
                 case r of
                   Inr hits \<Rightarrow> (outcome b (Inr hits))\<lparr>so_runs := [b]\<rparr>
                 | Inl _ \<Rightarrow>
                     (if \<not> retry_on_pgvector e mode b r then (outcome b (run_result r))\<lparr>so_runs := [b]\<rparr>
                      else (outcome BackendPgvector (run_result (en_run e 1 BackendPgvector)))
                             \<lparr>so_runs := [b, BackendPgvector], so_invalidated := True\<rparr>)))))"

section \<open>What holds of a fused search\<close>

lemma rank_in_zero: "rank_in c xs = 0 \<longleftrightarrow> c \<notin> set xs"
  by (induction xs) (auto simp: Let_def)

lemma ranks_before_order:
  "ranks_before x y \<Longrightarrow> \<not> ranks_before y x"
  "\<not> ranks_before y x \<Longrightarrow> \<not> ranks_before z y \<Longrightarrow> \<not> ranks_before z x"
  by (auto simp: ranks_before_def)

lemma nearer_order:
  "nearer x y \<Longrightarrow> \<not> nearer y x"
  "\<not> nearer y x \<Longrightarrow> \<not> nearer z y \<Longrightarrow> \<not> nearer z x"
  by (auto simp: nearer_def)

lemma sorted_ranks: "sorted_wrt (\<lambda>x y. \<not> ranks_before y x) (stable_sort ranks_before xs)"
  by (rule sorted_stable_sort) (erule ranks_before_order(1), erule (1) ranks_before_order(2))

lemma sorted_nearer: "sorted_wrt (\<lambda>x y. \<not> nearer y x) (stable_sort nearer xs)"
  by (rule sorted_stable_sort) (erule nearer_order(1), erule (1) nearer_order(2))

lemma hybrid_sorted: "sorted_wrt (\<lambda>x y. \<not> ranks_before y x) (hybrid_query share n md scanned rows)"
  by (simp add: hybrid_query_def Let_def sorted_wrt_take sorted_ranks)

lemma hybrid_rows:
  assumes "w \<in> set (hybrid_query share n md scanned rows)"
  obtains c where "c \<in> set rows" "w = fuse_row share (vector_leg n scanned) (lexical_leg n rows) c"
    "cw_id c \<in> set (vector_leg n scanned) \<or> cw_id c \<in> set (lexical_leg n rows)"
    "case md of None \<Rightarrow> True | Some d \<Rightarrow> cw_distance c \<le> d"
  using assms by (auto simp: hybrid_query_def Let_def set_stable_sort dest!: in_set_takeD)

lemma fuse_row_simps [simp]:
  "fw_id (fuse_row share v f c) = cw_id c" "fw_distance (fuse_row share v f c) = cw_distance c"
  "fw_vector_rank (fuse_row share v f c) = rank_in (cw_id c) v" "fw_text_rank (fuse_row share v f c) = rank_in (cw_id c) f"
  "fw_score (fuse_row share v f c) = leg_share share (rank_in (cw_id c) v) + leg_share share (rank_in (cw_id c) f)"
  by (simp_all add: fuse_row_def Let_def)

lemma hybrid_distinct:
  assumes "distinct (map cw_id rows)"
  shows "distinct (map fw_id (hybrid_query share n md scanned rows))"
proof -
  have "mset (map fw_id (stable_sort ranks_before (map (fuse_row share v f) cs))) = mset (map cw_id cs)" for v f cs
    by (simp add: mset_stable_sort multiset.map_comp comp_def)
  then have *: "distinct (map fw_id (stable_sort ranks_before (map (fuse_row share v f) cs)))"
    if "distinct (map cw_id cs)" for v f cs
    using that by (metis mset_eq_imp_distinct_iff)
  show ?thesis
    unfolding hybrid_query_def Let_def take_map [symmetric]
    by (intro distinct_take * distinct_map_filter assms)
qed

lemma vector_leg_allowed: "i \<in> set (vector_leg n scanned) \<Longrightarrow> \<exists>c \<in> set scanned. cw_id c = i \<and> cw_allowed c"
  by (auto simp: vector_leg_def vector_candidates_def set_stable_sort dest!: in_set_takeD)

lemma lexical_leg_allowed: "i \<in> set (lexical_leg n rows) \<Longrightarrow> \<exists>c \<in> set rows. cw_id c = i \<and> cw_allowed c"
  by (auto simp: lexical_leg_def set_stable_sort dest!: in_set_takeD)

lemma leg_share_mono:
  assumes "\<And>i j. i < j \<Longrightarrow> share j < share i" "\<And>i. 0 < share i"
    and "r \<noteq> 0 \<and> r \<le> s \<or> s = 0"
  shows "leg_share share s \<le> leg_share share r"
  using assms(3) assms(1) [of "rrfK + r" "rrfK + s"] assms(2) [of "rrfK + r"]
  by (cases "r = s") (auto simp: leg_share_def)

definition rank_le :: "nat \<Rightarrow> nat \<Rightarrow> bool" where
  "rank_le r s \<longleftrightarrow> r \<noteq> 0 \<and> r \<le> s \<or> s = 0"

definition beats_in_both :: "'d fused_row \<Rightarrow> 'd fused_row \<Rightarrow> bool" where
  "beats_in_both a b \<longleftrightarrow>
     rank_le (fw_vector_rank a) (fw_vector_rank b) \<and> rank_le (fw_text_rank a) (fw_text_rank b)
     \<and> (fw_vector_rank a \<noteq> fw_vector_rank b \<or> fw_text_rank a \<noteq> fw_text_rank b)"

lemma leg_share_strict:
  assumes "\<And>i j. i < j \<Longrightarrow> share j < share i" "\<And>i. 0 < share i" and "rank_le r s" "r \<noteq> s"
  shows "leg_share share s < leg_share share r"
  using assms(3,4) assms(1) [of "rrfK + r" "rrfK + s"] assms(2) [of "rrfK + r"]
  by (auto simp: leg_share_def rank_le_def)

text \<open>C27: A hybrid search returns at most the candidates asked for, each chunk once, only chunks of
  the documents the filter lets through and within the distance limit, best score first; and
  no hit is listed behind one it beats in both rankings, a chunk a ranking does not hold
  counting as behind those it holds. Of the index it is assumed that a scan hands over rows of
  the store, in whatever order, and of the server that \<open>1/(60+rank)\<close> is positive and falls
  with the rank.\<close>

theorem hybrid_search_is_fair:
  assumes "distinct (map cw_id rows)"
    and "set scanned \<subseteq> set rows"
    and "\<And>i j. i < j \<Longrightarrow> share j < share i" and "\<And>i. 0 < share i"
  shows "length (hybrid_query share n md scanned rows) \<le> n
    \<and> distinct (map fw_id (hybrid_query share n md scanned rows))
    \<and> list_all (\<lambda>w. list_ex (\<lambda>c. cw_id c = fw_id w \<and> cw_allowed c \<and> cw_distance c = fw_distance w) rows
                \<and> (case md of None \<Rightarrow> True | Some d \<Rightarrow> fw_distance w \<le> d)) (hybrid_query share n md scanned rows)
    \<and> sorted_wrt (\<lambda>a b. fw_score a \<ge> fw_score b \<and> \<not> beats_in_both b a) (hybrid_query share n md scanned rows)"
    (is "?len \<and> ?distinct \<and> ?rows \<and> ?sorted")
proof (intro conjI)
  let ?q = "hybrid_query share n md scanned rows"
  show ?len by (simp add: hybrid_query_def Let_def)
  show ?distinct using assms(1) by (rule hybrid_distinct)
  show ?rows
    unfolding list_all_iff
  proof
    fix w assume "w \<in> set ?q"
    then obtain c where c: "c \<in> set rows" "w = fuse_row share (vector_leg n scanned) (lexical_leg n rows) c"
      "cw_id c \<in> set (vector_leg n scanned) \<or> cw_id c \<in> set (lexical_leg n rows)"
      "case md of None \<Rightarrow> True | Some d \<Rightarrow> cw_distance c \<le> d" by (rule hybrid_rows)
    have "\<exists>c' \<in> set rows. cw_id c' = cw_id c \<and> cw_allowed c'"
      using c(3)
    proof
      assume "cw_id c \<in> set (vector_leg n scanned)"
      from vector_leg_allowed [OF this] assms(2) show ?thesis by blast
    next
      assume "cw_id c \<in> set (lexical_leg n rows)"
      from lexical_leg_allowed [OF this] show ?thesis .
    qed
    then have "cw_allowed c" using assms(1) c(1) by (metis distinct_map inj_onD)
    with c show "list_ex (\<lambda>c. cw_id c = fw_id w \<and> cw_allowed c \<and> cw_distance c = fw_distance w) rows
        \<and> (case md of None \<Rightarrow> True | Some d \<Rightarrow> fw_distance w \<le> d)"
      by (auto simp: list_ex_iff split: option.splits)
  qed
  have "fw_score a < fw_score b" if ab: "a \<in> set ?q" "b \<in> set ?q" "beats_in_both b a" for a b
  proof -
    obtain c where c: "a = fuse_row share (vector_leg n scanned) (lexical_leg n rows) c" using ab(1) by (rule hybrid_rows)
    obtain d where d: "b = fuse_row share (vector_leg n scanned) (lexical_leg n rows) d" using ab(2) by (rule hybrid_rows)
    note le = leg_share_mono [of share, OF assms(3,4)] and lt = leg_share_strict [of share, OF assms(3,4)]
    from ab(3) show ?thesis
      unfolding beats_in_both_def c d rank_le_def [symmetric] fuse_row_simps
      by (metis add_le_less_mono add_less_le_mono le lt rank_le_def)
  qed
  then show ?sorted
    by (intro sorted_wrt_mono_rel [OF _ hybrid_sorted]) (fastforce simp: ranks_before_def)
qed

definition demo_row :: "int \<Rightarrow> int \<Rightarrow> int option \<Rightarrow> int chunk_row" where
  "demo_row i d t = \<lparr>cw_id = i, cw_distance = d, cw_text_rank = t, cw_allowed = True\<rparr>"

definition demo_rows :: "int chunk_row list" where
  "demo_rows = [demo_row 1 5 None, demo_row 2 3 (Some 7), demo_row 3 9 (Some 4)]"

theorem hybrid_search_is_fair_witness:
  "let q = hybrid_query (\<lambda>k. 1 / (of_nat k + 1)) 2 (Some 8) (take 2 demo_rows) demo_rows in
   length q \<le> 2 \<and> distinct (map fw_id q) \<and> sorted_wrt (\<lambda>a b. fw_score a \<ge> fw_score b \<and> \<not> beats_in_both b a) q"
proof -
  have "distinct (map cw_id demo_rows)" by (simp add: demo_rows_def demo_row_def)
  moreover have "set (take 2 demo_rows) \<subseteq> set demo_rows" by (rule set_take_subset)
  moreover have "1 / (of_nat j + 1) < (1 / (of_nat i + 1) :: rat)" if "i < j" for i j :: nat
    using that by (simp add: frac_less2)
  moreover have "(0 :: rat) < 1 / (of_nat i + 1)" for i :: nat by simp
  ultimately show ?thesis
    using hybrid_search_is_fair [of demo_rows "take 2 demo_rows" "\<lambda>k. 1 / (of_nat k + 1)" 2 "Some 8"]
    by (simp only: Let_def)
qed

lemma search_cases:
  obtains (no_run) b r where "search_with_backend e width mode name = outcome b r" "r \<noteq> Inl (RunFailed StatementRejected)"
  | (one_run) b where "search_with_backend e width mode name = (outcome b (run_result (en_run e 0 b)))\<lparr>so_runs := [b]\<rparr>"
      "\<not> retry_on_pgvector e (if mode = [] then SearchHybrid else mode) b (en_run e 0 b)"
      "(if mode = [] then SearchHybrid else mode) \<in> {SearchVector, SearchHybrid}"
  | (two_runs) b where
      "search_with_backend e width mode name =
         (outcome BackendPgvector (run_result (en_run e 1 BackendPgvector)))\<lparr>so_runs := [b, BackendPgvector], so_invalidated := True\<rparr>"
      "retry_on_pgvector e (if mode = [] then SearchHybrid else mode) b (en_run e 0 b)"
      "b \<in> {BackendPgvector, BackendPgSearch}"
proof -
  define m where "m = (if mode = [] then SearchHybrid else mode)"
  define b where "b = (if m = SearchHybrid \<and> \<not> prepare_backend e (resolve_backend e name) then BackendPgvector
                       else resolve_backend e name)"
  have b: "b \<in> {BackendPgvector, BackendPgSearch}"
    by (auto simp: b_def resolve_backend_def Let_def)
  have no: "\<exists>b r. search_with_backend e width mode name = outcome b r \<and> r \<noteq> Inl (RunFailed StatementRejected)"
    if "(m \<noteq> SearchVector \<and> m \<noteq> SearchHybrid) \<or> en_store e = None \<or> fst (the (en_store e)) = 0 \<or> snd (the (en_store e)) = 0
        \<or> width \<noteq> fst (the (en_store e))"
    unfolding search_with_backend_def m_def [symmetric] Let_def using that
    by (cases "en_store e") (auto split: prod.splits)
  show thesis
  proof (cases "(m \<noteq> SearchVector \<and> m \<noteq> SearchHybrid) \<or> en_store e = None \<or> fst (the (en_store e)) = 0
      \<or> snd (the (en_store e)) = 0 \<or> width \<noteq> fst (the (en_store e))")
    case True
    then show thesis using no no_run by blast
  next
    case other: False
    then have *: "search_with_backend e width mode name =
      (case en_run e 0 b of
         Inr hits \<Rightarrow> (outcome b (Inr hits))\<lparr>so_runs := [b]\<rparr>
       | Inl _ \<Rightarrow>
           (if \<not> retry_on_pgvector e m b (en_run e 0 b) then (outcome b (run_result (en_run e 0 b)))\<lparr>so_runs := [b]\<rparr>
            else (outcome BackendPgvector (run_result (en_run e 1 BackendPgvector)))
                   \<lparr>so_runs := [b, BackendPgvector], so_invalidated := True\<rparr>))"
      unfolding search_with_backend_def m_def [symmetric] Let_def b_def [symmetric] by (auto split: prod.splits)
    show thesis
    proof (cases "retry_on_pgvector e m b (en_run e 0 b)")
      case True
      moreover from this have "en_run e 0 b = Inl StatementRejected" by (simp add: retry_on_pgvector_def)
      ultimately show thesis using two_runs [of b] b * by (simp add: m_def)
    next
      case False
      with * have "search_with_backend e width mode name = (outcome b (run_result (en_run e 0 b)))\<lparr>so_runs := [b]\<rparr>"
        by (simp add: run_result_def split: sum.splits)
      moreover have "m \<in> {SearchVector, SearchHybrid}" using other by auto
      ultimately show thesis using False one_run [of b] by (simp add: m_def)
    qed
  qed
qed

lemma outcome_simps [simp]:
  "so_result (outcome b r) = r" "so_backend (outcome b r) = b" "so_runs (outcome b r) = []"
  "so_invalidated (outcome b r) = False"
  by (simp_all add: outcome_def)

lemma backend_names: "BackendPgvector \<noteq> BackendPgSearch" "SearchVector \<noteq> SearchHybrid" "SearchVector \<noteq> []"
  by code_simp+

lemma run_rejected: "run_result r = Inl (RunFailed StatementRejected) \<longleftrightarrow> r = Inl StatementRejected"
  by (simp add: run_result_def split: sum.splits)

text \<open>C28: A search runs at most two statements and the second only on pgvector, after the server
  rejected the hybrid statement of the other backend while the caller was waiting; then that
  backend's index is checked again. The backend reported is the one of the last statement, and
  a rejected statement is an error of the search only where no other backend could answer.\<close>

theorem search_degrades_to_pgvector:
  "let r = search_with_backend e width mode name in
   length (so_runs r) \<le> 2
   \<and> (if so_runs r = [] then True else last (so_runs r) = so_backend r)
   \<and> (if so_invalidated r
      then so_runs r = [BackendPgSearch, BackendPgvector] \<and> en_run e 0 BackendPgSearch = Inl StatementRejected
           \<and> (mode = [] \<or> mode = SearchHybrid) \<and> \<not> en_gone e
      else length (so_runs r) \<le> 1)
   \<and> (if so_result r = Inl (RunFailed StatementRejected)
      then so_backend r = BackendPgvector \<or> en_gone e \<or> mode = SearchVector else True)"
proof (cases rule: search_cases [of e width mode name])
  case (no_run b r)
  then show ?thesis by simp
next
  case (one_run b)
  then show ?thesis using backend_names
    by (auto simp: Let_def run_rejected retry_on_pgvector_def split: if_splits)
next
  case (two_runs b)
  then show ?thesis using backend_names
    by (auto simp: Let_def retry_on_pgvector_def split: if_splits)
qed

end
