(* ===== verification/Embed.thy ===== *)
theory Embed
  imports Http Accounting
begin

text \<open>
  The embedding adapters (\<open>internal/provider/embed.go\<close>). The coordinates of a vector are values of
  any type with its decoder, since nothing here computes with them. That an answer holds one
  vector for every input is the contract a search relies on.
\<close>

type_synonym 'v embedded = "go_error + ('v list list \<times> usage option)"

definition tokens_usage :: "int \<Rightarrow> int \<Rightarrow> usage" where
  "tokens_usage prompt sum_tokens =
     \<lparr>us_prompt = prompt, us_completion = 0, us_total = sum_tokens, us_details = None, us_cache_hit = 0,
      us_cache_miss = 0, us_search_units = 0, us_reasoning = None\<rparr>"

definition count_mismatch :: go_error where
  "count_mismatch = [ProviderNode (mk_provider_error 502 ''upstream_error'' ''embedding count mismatch'')]"

definition index_out_of_range :: go_error where
  "index_out_of_range = [ProviderNode (mk_provider_error 502 ''upstream_error'' ''embedding index out of range'')]"

section \<open>Servers of the OpenAI format\<close>

record 'v embedding_item =
  ei_index :: int
  ei_vector :: "'v list"

record 'v embeddings_response =
  er_data :: "'v embedding_item list"
  er_usage :: "(int \<times> int) option"

definition embeddings_usage :: "'v embeddings_response \<Rightarrow> usage option" where
  "embeddings_usage r =
     (case er_usage r of
        None \<Rightarrow> None
      | Some (prompt, sum_tokens) \<Rightarrow>
          (let prompt = (if prompt \<le> 0 then sum_tokens else prompt) in
           if prompt \<le> 0 then None
           else Some (tokens_usage prompt (if sum_tokens < prompt then prompt else sum_tokens))))"

fun place_vectors :: "'v embedding_item list \<Rightarrow> 'v list list \<Rightarrow> go_error + 'v list list" where
  "place_vectors [] vecs = Inr vecs"
| "place_vectors (d # ds) vecs =
     (if ei_index d < 0 \<or> ei_index d \<ge> int (length vecs) then Inl index_out_of_range
      else place_vectors ds (vecs[nat (ei_index d) := ei_vector d]))"

definition embedding_vectors :: "nat \<Rightarrow> 'v embeddings_response \<Rightarrow> go_error + 'v list list" where
  "embedding_vectors n r =
     (if length (er_data r) \<noteq> n then Inl count_mismatch else place_vectors (er_data r) (replicate n []))"

definition item_field :: "'v decoder \<Rightarrow> 'v \<Rightarrow> bytes \<Rightarrow> 'v embedding_item decoder" where
  "item_field dec zero k d j =
     (if names_field k ''index'' then (let (n, e) = dec_int (ei_index d) j in (d\<lparr>ei_index := n\<rparr>, e))
      else if names_field k ''embedding'' then (let (v, e) = dec_slice dec zero (ei_vector d) j in (d\<lparr>ei_vector := v\<rparr>, e))
      else (d, False))"

definition counts_field :: "bytes \<Rightarrow> (int \<times> int) decoder" where
  "counts_field k c j =
     (if names_field k ''prompt_tokens'' then (let (n, e) = dec_int (fst c) j in ((n, snd c), e))
      else if names_field k ''total_tokens'' then (let (n, e) = dec_int (snd c) j in ((fst c, n), e))
      else (c, False))"

definition embeddings_field :: "'v decoder \<Rightarrow> 'v \<Rightarrow> bytes \<Rightarrow> 'v embeddings_response decoder" where
  "embeddings_field dec zero k r j =
     (if names_field k ''data''
      then (let (ds, e) = dec_slice (dec_struct (item_field dec zero)) \<lparr>ei_index = 0, ei_vector = []\<rparr> (er_data r) j in
            (r\<lparr>er_data := ds\<rparr>, e))
      else if names_field k ''usage''
      then (let (u, e) = dec_ptr (dec_struct counts_field) (0, 0) (er_usage r) j in (r\<lparr>er_usage := u\<rparr>, e))
      else (r, False))"

definition openai_body :: "bytes \<Rightarrow> bytes list \<Rightarrow> json" where
  "openai_body model inputs =
     JObj [(''encoding_format'', JStr ''float''), (''input'', JArr (map JStr inputs)), (''model'', JStr model)]"

definition openai_embed ::
  "http_lib \<Rightarrow> conn_config \<Rightarrow> bytes \<Rightarrow> time \<Rightarrow> 'v decoder \<Rightarrow> 'v \<Rightarrow> (json \<Rightarrow> reply) \<Rightarrow> bytes list \<Rightarrow> 'v embedded" where
  "openai_embed lib cfg model now dec zero post inputs =
     (case do_json lib cfg now (dec_struct (embeddings_field dec zero)) \<lparr>er_data = [], er_usage = None\<rparr>
             (post (openai_body model inputs)) of
        Inl e \<Rightarrow> Inl e
      | Inr r \<Rightarrow>
          (case embedding_vectors (length inputs) r of Inl e \<Rightarrow> Inl e | Inr vecs \<Rightarrow> Inr (vecs, embeddings_usage r)))"

section \<open>Ollama and Gemini\<close>

record 'v ollama_embeddings =
  oe_vectors :: "'v list list"
  oe_prompt_eval_count :: int

definition ollama_embed_field :: "'v decoder \<Rightarrow> 'v \<Rightarrow> bytes \<Rightarrow> 'v ollama_embeddings decoder" where
  "ollama_embed_field dec zero k r j =
     (if names_field k ''embeddings''
      then (let (vs, e) = dec_slice (dec_slice dec zero) [] (oe_vectors r) j in (r\<lparr>oe_vectors := vs\<rparr>, e))
      else if names_field k ''prompt_eval_count''
      then (let (n, e) = dec_int (oe_prompt_eval_count r) j in (r\<lparr>oe_prompt_eval_count := n\<rparr>, e))
      else (r, False))"

definition ollama_body :: "bytes \<Rightarrow> bytes list \<Rightarrow> json" where
  "ollama_body model inputs = JObj [(''input'', JArr (map JStr inputs)), (''model'', JStr model)]"

definition ollama_embed ::
  "http_lib \<Rightarrow> conn_config \<Rightarrow> bytes \<Rightarrow> time \<Rightarrow> 'v decoder \<Rightarrow> 'v \<Rightarrow> (json \<Rightarrow> reply) \<Rightarrow> bytes list \<Rightarrow> 'v embedded" where
  "ollama_embed lib cfg model now dec zero post inputs =
     (case do_json lib cfg now (dec_struct (ollama_embed_field dec zero)) \<lparr>oe_vectors = [], oe_prompt_eval_count = 0\<rparr>
             (post (ollama_body model inputs)) of
        Inl e \<Rightarrow> Inl e
      | Inr r \<Rightarrow>
          (if length (oe_vectors r) \<noteq> length inputs then Inl count_mismatch
           else Inr (oe_vectors r,
             (if oe_prompt_eval_count r > 0 then Some (tokens_usage (oe_prompt_eval_count r) (oe_prompt_eval_count r))
              else None))))"

definition strip_models :: "bytes \<Rightarrow> bytes" where
  "strip_models m = (if has_prefix m ''models/'' then drop 7 m else m)"

definition gemini_body :: "bytes \<Rightarrow> bytes list \<Rightarrow> json" where
  "gemini_body model inputs =
     JObj [(''requests'', JArr (map (\<lambda>i.
       JObj [(''content'', JObj [(''parts'', JArr [JObj [(''text'', JStr i)]])]),
             (''model'', JStr (''models/'' @ strip_models model))]) inputs))]"

definition values_field :: "'v decoder \<Rightarrow> 'v \<Rightarrow> bytes \<Rightarrow> 'v list decoder" where
  "values_field dec zero k v j = (if names_field k ''values'' then dec_slice dec zero v j else (v, False))"

definition gemini_embed_field :: "'v decoder \<Rightarrow> 'v \<Rightarrow> bytes \<Rightarrow> 'v list list decoder" where
  "gemini_embed_field dec zero k vs j =
     (if names_field k ''embeddings'' then dec_slice (dec_struct (values_field dec zero)) [] vs j else (vs, False))"

definition gemini_embed ::
  "http_lib \<Rightarrow> conn_config \<Rightarrow> bytes \<Rightarrow> time \<Rightarrow> 'v decoder \<Rightarrow> 'v \<Rightarrow> (json \<Rightarrow> reply) \<Rightarrow> bytes list \<Rightarrow> 'v embedded" where
  "gemini_embed lib cfg model now dec zero post inputs =
     (case do_json lib cfg now (dec_struct (gemini_embed_field dec zero)) [] (post (gemini_body model inputs)) of
        Inl e \<Rightarrow> Inl e
      | Inr vecs \<Rightarrow> if length vecs \<noteq> length inputs then Inl count_mismatch else Inr (vecs, None))"

section \<open>The contract of an embedder\<close>

locale embedder =
  fixes embed :: "bytes list \<Rightarrow> 'v embedded"
  assumes one_each: "embed inputs = Inr (vecs, u) \<Longrightarrow> length vecs = length inputs"
begin

lemma first_vector: "embed [q] = Inr (vecs, u) \<Longrightarrow> vecs = [hd vecs]"
  using one_each [of "[q]" vecs u] by (cases vecs) auto

end

lemma place_vectors_length: "place_vectors ds vecs = Inr out \<Longrightarrow> length out = length vecs"
  by (induction ds arbitrary: vecs) (auto split: if_splits)

lemma embedding_vectors_length: "embedding_vectors n r = Inr vecs \<Longrightarrow> length vecs = n"
  by (auto simp: embedding_vectors_def dest: place_vectors_length split: if_splits)

interpretation openai: embedder "openai_embed lib cfg model now dec zero post" for lib cfg model now dec zero post
  by unfold_locales (auto simp: openai_embed_def dest: embedding_vectors_length split: sum.splits)

interpretation ollama: embedder "ollama_embed lib cfg model now dec zero post" for lib cfg model now dec zero post
  by unfold_locales (auto simp: ollama_embed_def split: sum.splits if_splits)

interpretation gemini: embedder "gemini_embed lib cfg model now dec zero post" for lib cfg model now dec zero post
  by unfold_locales (auto simp: gemini_embed_def split: sum.splits if_splits)

section \<open>Properties\<close>

lemma place_vectors_in_range:
  "list_all (\<lambda>d. 0 \<le> ei_index d \<and> ei_index d < int (length vecs)) ds \<Longrightarrow>
   place_vectors ds vecs = Inr (fold (\<lambda>d vs. vs[nat (ei_index d) := ei_vector d]) ds vecs)"
  by (induction ds arbitrary: vecs) auto

lemma place_vectors_out_of_range:
  "\<not> list_all (\<lambda>d. 0 \<le> ei_index d \<and> ei_index d < int (length vecs)) ds \<Longrightarrow>
   place_vectors ds vecs = Inl index_out_of_range"
  by (induction ds arbitrary: vecs) auto

lemma fold_update_other:
  "list_all (\<lambda>d. nat (ei_index d) \<noteq> i) ds \<Longrightarrow> fold (\<lambda>d vs. vs[nat (ei_index d) := ei_vector d]) ds vecs ! i = vecs ! i"
  by (induction ds arbitrary: vecs) auto

lemma fold_update_length [simp]:
  "length (fold (\<lambda>d vs. vs[nat (ei_index d) := ei_vector d]) ds vecs) = length vecs"
  by (induction ds arbitrary: vecs) auto

lemma fold_update_item:
  assumes "distinct (map ei_index ds)" "list_all (\<lambda>d. 0 \<le> ei_index d \<and> ei_index d < int (length vecs)) ds" "d \<in> set ds"
  shows "fold (\<lambda>d vs. vs[nat (ei_index d) := ei_vector d]) ds vecs ! nat (ei_index d) = ei_vector d"
  using assms
proof (induction ds arbitrary: vecs)
  case (Cons x ds)
  show ?case
  proof (cases "d = x")
    case True
    have "nat (ei_index y) \<noteq> nat (ei_index x)" if "y \<in> set ds" for y
    proof -
      have "ei_index y \<noteq> ei_index x" "0 \<le> ei_index y" "0 \<le> ei_index x"
        using that Cons.prems(1,2) by (auto simp: list_all_iff) (metis image_eqI)
      then show ?thesis by simp
    qed
    then have "list_all (\<lambda>y. nat (ei_index y) \<noteq> nat (ei_index x)) ds" by (simp add: list_all_iff)
    then show ?thesis using True Cons.prems(2) by (simp add: fold_update_other nth_list_update nat_less_iff)
  next
    case False
    with Cons show ?thesis by simp
  qed
qed simp

text \<open>The vectors of an answer come back in the order of the inputs: an answer of the right length
  whose indices are the positions in any order puts the vector of index \<open>i\<close> at place \<open>i\<close>, and one
  of another length, or with an index that is no position, is refused.\<close>

theorem embeddings_in_input_order:
  "case embedding_vectors n r of
     Inl e \<Rightarrow> \<not> (length (er_data r) = n \<and> list_all (\<lambda>d. 0 \<le> ei_index d \<and> ei_index d < int n) (er_data r))
   | Inr vecs \<Rightarrow>
       length vecs = n \<and> length (er_data r) = n \<and> list_all (\<lambda>d. 0 \<le> ei_index d \<and> ei_index d < int n) (er_data r)
       \<and> (if distinct (map ei_index (er_data r))
          then list_all (\<lambda>d. vecs ! nat (ei_index d) = ei_vector d) (er_data r) else True)"
proof (cases "length (er_data r) = n \<and> list_all (\<lambda>d. 0 \<le> ei_index d \<and> ei_index d < int n) (er_data r)")
  case True
  then have "embedding_vectors n r = Inr (fold (\<lambda>d vs. vs[nat (ei_index d) := ei_vector d]) (er_data r) (replicate n []))"
    by (simp add: embedding_vectors_def place_vectors_in_range)
  with True show ?thesis
    using fold_update_item [of "er_data r" "replicate n []"] by (simp add: list_all_iff)
next
  case False
  then have "\<exists>e. embedding_vectors n r = Inl e"
    by (cases "length (er_data r) = n") (auto simp: embedding_vectors_def place_vectors_out_of_range)
  with False show ?thesis by auto
qed

text \<open>
  An index named twice is not noticed: the count is right, the second vector replaces the first
  and the input left out gets an empty one.
\<close>

theorem repeated_index_leaves_no_vector:
  "embedding_vectors 2 \<lparr>er_data = [\<lparr>ei_index = 0, ei_vector = [1::int]\<rparr>, \<lparr>ei_index = 0, ei_vector = [2]\<rparr>], er_usage = None\<rparr>
   = Inr [[2], []]"
  by (simp add: embedding_vectors_def numeral_2_eq_2)

end
