(* ===== verification/OpenAi.thy ===== *)
theory OpenAi
  imports Thinking Sse Embed
begin

text \<open>
  The adapters of the servers that speak the gateway's own format: \<open>internal/provider/openai.go\<close>
  and \<open>azure.go\<close>. A request is sent with the connection's model and without the gateway's own
  members; an answer is decoded, completed and relayed, whole or chunk by chunk. The text of
  JSON, URL parsing and escaping, the clock and random identifiers are parameters.
\<close>

section \<open>Decoding an answer\<close>

definition details_field :: "bytes \<Rightarrow> token_details decoder" where
  "details_field k d j =
     (if names_field k ''cached_tokens'' then (let (n, e) = dec_int (td_cached d) j in (d\<lparr>td_cached := n\<rparr>, e))
      else if names_field k ''cache_creation_tokens'' then (let (n, e) = dec_int (td_cache_write d) j in (d\<lparr>td_cache_write := n\<rparr>, e))
      else if names_field k ''audio_tokens'' then (let (n, e) = dec_int (td_audio d) j in (d\<lparr>td_audio := n\<rparr>, e))
      else (d, False))"

definition no_details :: token_details where
  "no_details = \<lparr>td_cached = 0, td_cache_write = 0, td_audio = 0\<rparr>"

definition reasoning_field :: "bytes \<Rightarrow> int decoder" where
  "reasoning_field k n j = (if names_field k ''reasoning_tokens'' then dec_int n j else (n, False))"

definition usage_field :: "bytes \<Rightarrow> usage decoder" where
  "usage_field k u j =
     (if names_field k ''prompt_tokens'' then (let (n, e) = dec_int (us_prompt u) j in (u\<lparr>us_prompt := n\<rparr>, e))
      else if names_field k ''completion_tokens'' then (let (n, e) = dec_int (us_completion u) j in (u\<lparr>us_completion := n\<rparr>, e))
      else if names_field k ''total_tokens'' then (let (n, e) = dec_int (us_total u) j in (u\<lparr>us_total := n\<rparr>, e))
      else if names_field k ''prompt_tokens_details''
      then (let (d, e) = dec_ptr (dec_struct details_field) no_details (us_details u) j in (u\<lparr>us_details := d\<rparr>, e))
      else if names_field k ''completion_tokens_details''
      then (let (n, e) = dec_ptr (dec_struct reasoning_field) 0 (us_reasoning u) j in (u\<lparr>us_reasoning := n\<rparr>, e))
      else if names_field k ''prompt_cache_hit_tokens'' then (let (n, e) = dec_int (us_cache_hit u) j in (u\<lparr>us_cache_hit := n\<rparr>, e))
      else if names_field k ''prompt_cache_miss_tokens'' then (let (n, e) = dec_int (us_cache_miss u) j in (u\<lparr>us_cache_miss := n\<rparr>, e))
      else (u, False))"

definition block_field :: "bytes \<Rightarrow> thinking_block decoder" where
  "block_field k b j =
     (if names_field k ''index'' then (let (n, e) = dec_ptr dec_int 0 (tb_index b) j in (b\<lparr>tb_index := n\<rparr>, e))
      else if names_field k ''type'' then (let (s, e) = dec_string (tb_type b) j in (b\<lparr>tb_type := s\<rparr>, e))
      else if names_field k ''thinking'' then (let (s, e) = dec_string (tb_thinking b) j in (b\<lparr>tb_thinking := s\<rparr>, e))
      else if names_field k ''signature'' then (let (s, e) = dec_string (tb_signature b) j in (b\<lparr>tb_signature := s\<rparr>, e))
      else if names_field k ''data'' then (let (s, e) = dec_string (tb_data b) j in (b\<lparr>tb_data := s\<rparr>, e))
      else (b, False))"

definition reply_field :: "bytes \<Rightarrow> response_message decoder" where
  "reply_field k m j =
     (if names_field k ''role'' then (let (s, e) = dec_string (rm_role m) j in (m\<lparr>rm_role := s\<rparr>, e))
      else if names_field k ''content'' then (let (s, e) = dec_ptr dec_string [] (rm_content m) j in (m\<lparr>rm_content := s\<rparr>, e))
      else if names_field k ''tool_calls'' then (m\<lparr>rm_tool_calls := Some j\<rparr>, False)
      else if names_field k ''refusal'' then (let (s, e) = dec_ptr dec_string [] (rm_refusal m) j in (m\<lparr>rm_refusal := s\<rparr>, e))
      else if names_field k ''annotations'' then (m\<lparr>rm_annotations := Some j\<rparr>, False)
      else if names_field k ''reasoning_content''
      then (let (s, e) = dec_ptr dec_string [] (rm_reasoning_content m) j in (m\<lparr>rm_reasoning_content := s\<rparr>, e))
      else if names_field k ''ragmux_thinking''
      then (let (bs, e) = dec_slice (dec_struct block_field) no_block (rm_thinking m) j in (m\<lparr>rm_thinking := bs\<rparr>, e))
      else (m, False))"

definition no_reply :: response_message where
  "no_reply = \<lparr>rm_role = [], rm_content = None, rm_tool_calls = None, rm_refusal = None, rm_annotations = None,
     rm_reasoning_content = None, rm_thinking = []\<rparr>"

definition choice_field :: "bytes \<Rightarrow> choice decoder" where
  "choice_field k c j =
     (if names_field k ''index'' then (let (n, e) = dec_int (co_index c) j in (c\<lparr>co_index := n\<rparr>, e))
      else if names_field k ''message'' then (let (m, e) = dec_struct reply_field (co_message c) j in (c\<lparr>co_message := m\<rparr>, e))
      else if names_field k ''finish_reason''
      then (let (s, e) = dec_ptr dec_string [] (co_finish_reason c) j in (c\<lparr>co_finish_reason := s\<rparr>, e))
      else if names_field k ''logprobs'' then (c\<lparr>co_logprobs := Some j\<rparr>, False)
      else (c, False))"

definition no_choice :: choice where
  "no_choice = \<lparr>co_index = 0, co_message = no_reply, co_finish_reason = None, co_logprobs = None\<rparr>"

text \<open>The members of an answer or a chunk beside those the other adapters fill in.\<close>

record 'a relayed =
  rl_body :: 'a
  rl_object :: bytes
  rl_created :: int
  rl_fingerprint :: bytes

definition relayed_field :: "(bytes \<Rightarrow> 'a decoder) \<Rightarrow> bytes \<Rightarrow> 'a relayed decoder" where
  "relayed_field body k r j =
     (if names_field k ''object'' then (let (s, e) = dec_string (rl_object r) j in (r\<lparr>rl_object := s\<rparr>, e))
      else if names_field k ''created'' then (let (n, e) = dec_int (rl_created r) j in (r\<lparr>rl_created := n\<rparr>, e))
      else if names_field k ''system_fingerprint'' then (let (s, e) = dec_string (rl_fingerprint r) j in (r\<lparr>rl_fingerprint := s\<rparr>, e))
      else (let (b, e) = body k (rl_body r) j in (r\<lparr>rl_body := b\<rparr>, e)))"

definition none_relayed :: "'a \<Rightarrow> 'a relayed" where
  "none_relayed b = \<lparr>rl_body = b, rl_object = [], rl_created = 0, rl_fingerprint = []\<rparr>"

definition no_counts :: usage where "no_counts = tokens_usage 0 0"

definition response_field :: "bytes \<Rightarrow> chat_response decoder" where
  "response_field k r j =
     (if names_field k ''id'' then (let (s, e) = dec_string (re_id r) j in (r\<lparr>re_id := s\<rparr>, e))
      else if names_field k ''model'' then (let (s, e) = dec_string (re_model r) j in (r\<lparr>re_model := s\<rparr>, e))
      else if names_field k ''choices''
      then (let (cs, e) = dec_slice (dec_struct choice_field) no_choice (re_choices r) j in (r\<lparr>re_choices := cs\<rparr>, e))
      else if names_field k ''usage''
      then (let (u, e) = dec_ptr (dec_struct usage_field) no_counts (re_usage r) j in (r\<lparr>re_usage := u\<rparr>, e))
      else (r, False))"

definition no_response :: chat_response where
  "no_response = \<lparr>re_id = [], re_model = [], re_choices = [], re_usage = None\<rparr>"

definition delta_field :: "bytes \<Rightarrow> delta decoder" where
  "delta_field k d j =
     (if names_field k ''role'' then (let (s, e) = dec_string (de_role d) j in (d\<lparr>de_role := s\<rparr>, e))
      else if names_field k ''content'' then (let (s, e) = dec_ptr dec_string [] (de_content d) j in (d\<lparr>de_content := s\<rparr>, e))
      else if names_field k ''tool_calls'' then (d\<lparr>de_tool_calls := Some j\<rparr>, False)
      else if names_field k ''refusal'' then (let (s, e) = dec_ptr dec_string [] (de_refusal d) j in (d\<lparr>de_refusal := s\<rparr>, e))
      else if names_field k ''annotations'' then (d\<lparr>de_annotations := Some j\<rparr>, False)
      else if names_field k ''reasoning_content''
      then (let (s, e) = dec_ptr dec_string [] (de_reasoning_content d) j in (d\<lparr>de_reasoning_content := s\<rparr>, e))
      else if names_field k ''ragmux_thinking''
      then (let (bs, e) = dec_slice (dec_struct block_field) no_block (de_thinking d) j in (d\<lparr>de_thinking := bs\<rparr>, e))
      else (d, False))"

definition stream_choice_field :: "bytes \<Rightarrow> stream_choice decoder" where
  "stream_choice_field k c j =
     (if names_field k ''index'' then (let (n, e) = dec_int (sc_index c) j in (c\<lparr>sc_index := n\<rparr>, e))
      else if names_field k ''delta'' then (let (d, e) = dec_struct delta_field (sc_delta c) j in (c\<lparr>sc_delta := d\<rparr>, e))
      else if names_field k ''finish_reason''
      then (let (s, e) = dec_ptr dec_string [] (sc_finish_reason c) j in (c\<lparr>sc_finish_reason := s\<rparr>, e))
      else if names_field k ''logprobs'' then (c\<lparr>sc_logprobs := Some j\<rparr>, False)
      else (c, False))"

definition chunk_field :: "bytes \<Rightarrow> stream_chunk decoder" where
  "chunk_field k c j =
     (if names_field k ''id'' then (let (s, e) = dec_string (sk_id c) j in (c\<lparr>sk_id := s\<rparr>, e))
      else if names_field k ''model'' then (let (s, e) = dec_string (sk_model c) j in (c\<lparr>sk_model := s\<rparr>, e))
      else if names_field k ''choices''
      then (let (cs, e) = dec_slice (dec_struct stream_choice_field)
                            \<lparr>sc_index = 0, sc_delta = no_delta, sc_finish_reason = None, sc_logprobs = None\<rparr> (sk_choices c) j in
            (c\<lparr>sk_choices := cs\<rparr>, e))
      else if names_field k ''usage''
      then (let (u, e) = dec_ptr (dec_struct usage_field) no_counts (sk_usage c) j in (c\<lparr>sk_usage := u\<rparr>, e))
      else (c, False))"

definition no_chunk :: stream_chunk where
  "no_chunk = \<lparr>sk_id = [], sk_model = [], sk_choices = [], sk_usage = None\<rparr>"

section \<open>Addresses\<close>

definition openAIBase where "openAIBase = ''https://api.openai.com/v1''"
definition deepSeekBase where "deepSeekBase = ''https://api.deepseek.com/v1''"

definition versioned :: "conn_config \<Rightarrow> bytes \<Rightarrow> bytes" where
  "versioned cfg base =
     (if cf_provider_type cfg \<noteq> ''custom_openai'' \<and> \<not> has_suffix base ''/v1'' then base @ ''/v1'' else base)"

definition openai_base :: "conn_config \<Rightarrow> bytes" where
  "openai_base cfg = versioned cfg (base_url cfg (if cf_provider_type cfg = ''deepseek'' then deepSeekBase else openAIBase))"

definition AzureDefaultAPIVersion where "AzureDefaultAPIVersion = ''2024-10-21''"
definition azureAPIVersionParam where "azureAPIVersionParam = ''api-version''"

text \<open>
  \<open>url_parts\<close> is what \<open>net/url\<close> makes of a base URL: the URL printed without query and fragment,
  and its api-version parameter.
\<close>

definition split_azure_base_url :: "(bytes \<Rightarrow> (bytes \<times> bytes) option) \<Rightarrow> bytes \<Rightarrow> (bytes \<times> bytes) option" where
  "split_azure_base_url url_parts r =
     (case url_parts (trim_space r) of
        None \<Rightarrow> None
      | Some (printed, version) \<Rightarrow>
          (let version = (if version = [] then AzureDefaultAPIVersion else version);
               endpoint = rev (dropWhile (\<lambda>c. c = CHR ''/'') (rev printed));
               endpoint = (if has_suffix endpoint ''/openai'' then take (length endpoint - 7) endpoint else endpoint) in
           Some (endpoint, version)))"

record azure_target =
  at_endpoint :: bytes
  at_version :: bytes
  at_deployment :: bytes

definition new_azure_target :: "(bytes \<Rightarrow> (bytes \<times> bytes) option) \<Rightarrow> conn_config \<Rightarrow> bytes \<Rightarrow> azure_target" where
  "new_azure_target url_parts cfg model =
     (let t = \<lparr>at_endpoint = [], at_version = AzureDefaultAPIVersion, at_deployment = model\<rparr> in
      if cf_base_url cfg = [] then t
      else (case split_azure_base_url url_parts (cf_base_url cfg) of
              Some (endpoint, version) \<Rightarrow> t\<lparr>at_endpoint := endpoint, at_version := version\<rparr>
            | None \<Rightarrow> t))"

definition azure_url :: "(bytes \<Rightarrow> bytes) \<Rightarrow> (bytes \<Rightarrow> bytes) \<Rightarrow> azure_target \<Rightarrow> bytes \<Rightarrow> provider_error + bytes" where
  "azure_url path_escape query_escape t op =
     (if at_endpoint t = []
      then Inl (mk_provider_error 502 ''upstream_error'' ''azure_openai connection has no endpoint (base_url)'')
      else if at_deployment t = []
      then Inl (mk_provider_error 502 ''upstream_error'' ''azure_openai connection has no deployment (model_name)'')
      else Inr (at_endpoint t @ ''/openai/deployments/'' @ path_escape (at_deployment t) @ ''/'' @ op
                @ ''?'' @ azureAPIVersionParam @ ''='' @ query_escape (at_version t)))"

section \<open>Requests and whole answers\<close>

definition outgoing :: "bytes \<Rightarrow> bool \<Rightarrow> chat_request \<Rightarrow> chat_request" where
  "outgoing model streaming req =
     req\<lparr>cr_model := model, cr_messages := strip_gateway_extensions (cr_messages req), cr_stream := streaming,
         cr_stream_options := (if streaming then Some (JObj [(''include_usage'', JBool True)]) else None)\<rparr>"

definition complete_answer :: "bytes \<Rightarrow> int \<Rightarrow> chat_response relayed \<Rightarrow> chat_response relayed" where
  "complete_answer chat_id now_unix out =
     (let body = rl_body out;
          body = (if re_id body = [] then body\<lparr>re_id := chat_id\<rparr> else body);
          body = fold_reasoning_content (body\<lparr>re_usage := normalize_usage (re_usage body)\<rparr>) in
      out\<lparr>rl_body := body,
          rl_object := (if rl_object out = [] then ''chat.completion'' else rl_object out),
          rl_created := (if rl_created out = 0 then now_unix else rl_created out)\<rparr>)"

definition openai_chat ::
  "http_lib \<Rightarrow> conn_config \<Rightarrow> time \<Rightarrow> bytes \<Rightarrow> (chat_request \<Rightarrow> reply) \<Rightarrow> bytes \<Rightarrow> int \<Rightarrow> chat_request
     \<Rightarrow> go_error + chat_response relayed" where
  "openai_chat lib cfg now model post chat_id now_unix req =
     (case validate_request_thinking (cr_messages req) of
        Some e \<Rightarrow> Inl [ProviderNode e]
      | None \<Rightarrow>
          (case do_json lib cfg now (dec_struct (relayed_field response_field)) (none_relayed no_response)
                  (post (outgoing model False req)) of
             Inl e \<Rightarrow> Inl e
           | Inr out \<Rightarrow> Inr (complete_answer chat_id now_unix out)))"

definition azure_chat ::
  "(bytes \<Rightarrow> bytes) \<Rightarrow> (bytes \<Rightarrow> bytes) \<Rightarrow> azure_target \<Rightarrow>
   http_lib \<Rightarrow> conn_config \<Rightarrow> time \<Rightarrow> (bytes \<Rightarrow> chat_request \<Rightarrow> reply) \<Rightarrow> bytes \<Rightarrow> int \<Rightarrow> chat_request
     \<Rightarrow> go_error + chat_response relayed" where
  "azure_chat path_escape query_escape t lib cfg now post chat_id now_unix req =
     (case validate_request_thinking (cr_messages req) of
        Some e \<Rightarrow> Inl [ProviderNode e]
      | None \<Rightarrow>
          (case azure_url path_escape query_escape t ''chat/completions'' of
             Inl e \<Rightarrow> Inl [ProviderNode e]
           | Inr endpoint \<Rightarrow>
               (case do_json lib cfg now (dec_struct (relayed_field response_field)) (none_relayed no_response)
                       (post endpoint (outgoing (at_deployment t) False req)) of
                  Inl e \<Rightarrow> Inl e
                | Inr out \<Rightarrow> Inr (complete_answer chat_id now_unix out))))"

section \<open>Streams\<close>

record relay_state =
  ry_chunks :: "stream_chunk relayed list"
  ry_error :: "provider_error option"

definition complete_chunk :: "stream_chunk relayed \<Rightarrow> stream_chunk relayed" where
  "complete_chunk c =
     (let body = rl_body c in
      c\<lparr>rl_body := fold_reasoning_delta (body\<lparr>sk_usage := normalize_usage (sk_usage body)\<rparr>),
        rl_object := (if rl_object c = [] then ''chat.completion.chunk'' else rl_object c)\<rparr>)"

definition read_chunk :: "raw \<Rightarrow> stream_chunk relayed option" where
  "read_chunk data = unmarshal (dec_struct (relayed_field chunk_field)) (none_relayed no_chunk) data"

definition reports_error :: "raw \<Rightarrow> raw" where
  "reports_error data = (case unmarshal (dec_struct envelope_field) None data of Some e \<Rightarrow> e | None \<Rightarrow> None)"

definition relay_chunk :: "stream_chunk relayed \<Rightarrow> relay_state \<Rightarrow> relay_state" where
  "relay_chunk c s = s\<lparr>ry_chunks := ry_chunks s @ [complete_chunk c]\<rparr>"

definition openai_event :: "http_lib \<Rightarrow> relay_state callback" where
  "openai_event lib s ev =
     (let data = trim_space (ev_data ev) in
      if data = [] then (s, True)
      else if data = ''[DONE]'' then (s, False)
      else
        (case read_chunk (lib_parse lib data) of
           None \<Rightarrow>
             (if reports_error (lib_parse lib data) \<noteq> None
              then (s\<lparr>ry_error := Some (upstream_error lib 502 data [])\<rparr>, False)
              else (s, True))
         | Some c \<Rightarrow> (relay_chunk c s, True)))"

definition azure_event :: "http_lib \<Rightarrow> conn_config \<Rightarrow> relay_state callback" where
  "azure_event lib cfg s ev =
     (let data = trim_space (ev_data ev) in
      if data = [] then (s, True)
      else if data = ''[DONE]'' then (s, False)
      else if reports_error (lib_parse lib data) \<notin> {None, Some JNull}
      then (s\<lparr>ry_error := Some (upstream_error lib 502 data [cf_api_key cfg])\<rparr>, False)
      else
        (case read_chunk (lib_parse lib data) of
           None \<Rightarrow> (s, True)
         | Some c \<Rightarrow>
             (if sk_choices (rl_body c) = [] \<and> sk_usage (rl_body c) = None then (s, True)
              else (relay_chunk c s, True))))"

definition relay_stream :: "relay_state callback \<Rightarrow> bytes \<Rightarrow> bool \<Rightarrow> relay_state \<times> stream_end" where
  "relay_stream on_data body failed = read_sse body failed on_data \<lparr>ry_chunks = [], ry_error = None\<rparr>"

section \<open>Azure embeddings\<close>

definition azure_embed ::
  "(bytes \<Rightarrow> bytes) \<Rightarrow> (bytes \<Rightarrow> bytes) \<Rightarrow> azure_target \<Rightarrow>
   http_lib \<Rightarrow> conn_config \<Rightarrow> time \<Rightarrow> 'v decoder \<Rightarrow> 'v \<Rightarrow> (bytes \<Rightarrow> json \<Rightarrow> reply) \<Rightarrow> bytes list \<Rightarrow> 'v embedded" where
  "azure_embed path_escape query_escape t lib cfg now dec zero post inputs =
     (case azure_url path_escape query_escape t ''embeddings'' of
        Inl e \<Rightarrow> Inl [ProviderNode e]
      | Inr endpoint \<Rightarrow>
          (case do_json lib cfg now (dec_struct (embeddings_field dec zero)) \<lparr>er_data = [], er_usage = None\<rparr>
                  (post endpoint (JObj [(''encoding_format'', JStr ''float''), (''input'', JArr (map JStr inputs))])) of
             Inl e \<Rightarrow> Inl e
           | Inr r \<Rightarrow>
               (case embedding_vectors (length inputs) r of Inl e \<Rightarrow> Inl e | Inr vecs \<Rightarrow> Inr (vecs, embeddings_usage r))))"

interpretation azure: embedder "azure_embed path_escape query_escape t lib cfg now dec zero post"
  for path_escape query_escape t lib cfg now dec zero post
  by unfold_locales (auto simp: azure_embed_def dest: embedding_vectors_length split: sum.splits)

section \<open>Properties\<close>

definition signed_call :: "(bytes \<times> json) list \<Rightarrow> bool" where
  "signed_call call \<longleftrightarrow> map_of call toolCallSignatureField \<noteq> None"

definition own_members :: "message \<Rightarrow> bool" where
  "own_members m \<longleftrightarrow>
     m_is_error m \<or> m_thinking m \<noteq> None
     \<or> (case raw_list (m_tool_calls m) of
          None \<Rightarrow> False
        | Some js \<Rightarrow> (case raw_maps js of None \<Rightarrow> False | Some calls \<Rightarrow> list_ex signed_call calls))"

lemma raw_maps_Some: "raw_maps js = Some ms \<Longrightarrow> list_all2 (\<lambda>j m. raw_map (Some j) = Some m) js ms"
  by (induction js arbitrary: ms) (auto split: option.splits)

lemma raw_map_marshalled: "raw_map (Some (marshal_map m)) = Some (obj_map (sort_key fst m))"
  by (simp add: marshal_map_def raw_map_def)

lemma unsigned_Nil [simp]: "\<not> signed_call []"
  by (simp add: signed_call_def)

lemma unsigned_after_delete: "\<not> signed_call (obj_map (sort_key fst (AList.delete toolCallSignatureField m)))"
proof -
  have "toolCallSignatureField \<notin> fst ` set (sort_key fst (AList.delete toolCallSignatureField m))"
    by (auto simp: AList.delete_eq)
  then show ?thesis
    by (simp add: signed_call_def map_of_obj_map map_of_eq_None_iff)
qed

lemma strip_signatures_unsigned:
  "case raw_list (strip_signatures r) of
     None \<Rightarrow> True
   | Some js \<Rightarrow> (case raw_maps js of None \<Rightarrow> True | Some calls \<Rightarrow> list_all (\<lambda>c. \<not> signed_call c) calls)"
proof (cases "\<exists>js ms. raw_list r = Some js \<and> raw_maps js = Some ms \<and> list_ex signed_call ms")
  case True
  then obtain js ms where js: "raw_list r = Some js" "raw_maps js = Some ms" "list_ex signed_call ms" by blast
  let ?strip = "\<lambda>(j, m). if j = JNull then JNull else marshal_map (AList.delete toolCallSignatureField m)"
  have out: "strip_signatures r = Some (JArr (map ?strip (zip js ms)))"
    using js(1,2) js(3) [unfolded signed_call_def] by (simp add: strip_signatures_def)
  have "\<not> signed_call c" if "raw_maps (map ?strip (zip js ms)) = Some calls" "c \<in> set calls" for calls c
  proof -
    from that obtain i where i: "i < length calls" "c = calls ! i" by (metis in_set_conv_nth)
    from list_all2_nthD2 [OF raw_maps_Some [OF that(1)] i(1)] list_all2_lengthD [OF raw_maps_Some [OF that(1)]] i
    have "raw_map (Some (map ?strip (zip js ms) ! i)) = Some c" "i < length (zip js ms)"
      by simp_all
    then show ?thesis
      by (auto simp: raw_map_marshalled unsigned_after_delete raw_map_def [of "Some JNull"]
          simp del: length_zip split: if_splits prod.splits)
  qed
  then show ?thesis by (auto simp: out raw_list_def list_all_iff split: option.splits)
next
  case False
  then have "strip_signatures r = r"
    unfolding strip_signatures_def signed_call_def [symmetric] by (auto split: option.splits)
  with False show ?thesis by (auto simp: list_all_iff list_ex_iff split: option.splits)
qed

text \<open>An OpenAI-compatible or Azure upstream is never sent what is the gateway's own: no error
  flag, no thinking blocks and no signature on a tool call; and it is asked for its own model.\<close>

theorem own_members_stay_here:
  "list_all (\<lambda>m. \<not> own_members m) (cr_messages (outgoing model streaming req))
   \<and> cr_model (outgoing model streaming req) = model
   \<and> map (\<lambda>m. (m_role m, m_content m, m_tool_call_id m)) (cr_messages (outgoing model streaming req))
       = map (\<lambda>m. (m_role m, m_content m, m_tool_call_id m)) (cr_messages req)"
proof -
  have "\<not> own_members (strip_message m)" for m
    using strip_signatures_unsigned [of "m_tool_calls m"]
    by (auto simp: own_members_def strip_message_def list_all_iff list_ex_iff split: option.splits)
  then show ?thesis
    by (simp add: outgoing_def strip_gateway_extensions_def list_all_iff strip_message_def)
qed

definition data_event :: "bytes \<Rightarrow> sse_event" where
  "data_event d = \<lparr>ev_event = [], ev_data = d\<rparr>"

text \<open>
  What an event is to an adapter. A clean one reports no error and does not end the stream;
  it gives a chunk or nothing. The general adapter reads an error only from an event that
  is no chunk; Azure's reads it first.
\<close>

definition clean_event :: "http_lib \<Rightarrow> bytes \<Rightarrow> bool" where
  "clean_event lib d \<longleftrightarrow> trim_space d \<noteq> ''[DONE]'' \<and> reports_error (lib_parse lib (trim_space d)) = None"

definition openai_chunk :: "http_lib \<Rightarrow> bytes \<Rightarrow> stream_chunk relayed option" where
  "openai_chunk lib d =
     (if trim_space d = [] then None else map_option complete_chunk (read_chunk (lib_parse lib (trim_space d))))"

definition says_something :: "stream_chunk relayed \<Rightarrow> bool" where
  "says_something c \<longleftrightarrow> sk_choices (rl_body c) \<noteq> [] \<or> sk_usage (rl_body c) \<noteq> None"

definition azure_chunk :: "http_lib \<Rightarrow> bytes \<Rightarrow> stream_chunk relayed option" where
  "azure_chunk lib d =
     (if trim_space d = [] then None
      else (case read_chunk (lib_parse lib (trim_space d)) of
              None \<Rightarrow> None
            | Some c \<Rightarrow> if says_something c then Some (complete_chunk c) else None))"

definition openai_failure :: "http_lib \<Rightarrow> bytes \<Rightarrow> bool" where
  "openai_failure lib d \<longleftrightarrow>
     trim_space d \<noteq> [] \<and> trim_space d \<noteq> ''[DONE]'' \<and> reports_error (lib_parse lib (trim_space d)) \<noteq> None
     \<and> read_chunk (lib_parse lib (trim_space d)) = None"

definition azure_failure :: "http_lib \<Rightarrow> bytes \<Rightarrow> bool" where
  "azure_failure lib d \<longleftrightarrow>
     trim_space d \<noteq> [] \<and> trim_space d \<noteq> ''[DONE]'' \<and> reports_error (lib_parse lib (trim_space d)) \<notin> {None, Some JNull}"

definition passed_on :: "(bytes \<Rightarrow> stream_chunk relayed option) \<Rightarrow> bytes list \<Rightarrow> stream_chunk relayed list" where
  "passed_on f ds = List.map_filter f ds"

lemma feed_clean:
  assumes cb: "\<And>s d. d \<in> set ds \<Longrightarrow>
      cb s (data_event d) = ((case f d of None \<Rightarrow> s | Some c \<Rightarrow> s\<lparr>ry_chunks := ry_chunks s @ [c]\<rparr>), True)"
  shows "feed cb s (map data_event ds @ es) = feed cb (s\<lparr>ry_chunks := ry_chunks s @ passed_on f ds\<rparr>) es
    \<and> stopped_by cb s (map data_event ds @ es) = stopped_by cb (s\<lparr>ry_chunks := ry_chunks s @ passed_on f ds\<rparr>) es"
  using cb
proof (induction ds arbitrary: s)
  case (Cons d ds)
  have "cb s (data_event d) = ((case f d of None \<Rightarrow> s | Some c \<Rightarrow> s\<lparr>ry_chunks := ry_chunks s @ [c]\<rparr>), True)"
    by (rule Cons.prems) simp
  with Cons.IH Cons.prems show ?case
    by (cases "f d") (simp_all add: passed_on_def List.map_filter_simps)
qed (simp add: passed_on_def List.map_filter_simps)

lemma openai_clean:
  "clean_event lib d \<Longrightarrow> openai_event lib s (data_event d) =
     ((case openai_chunk lib d of None \<Rightarrow> s | Some c \<Rightarrow> s\<lparr>ry_chunks := ry_chunks s @ [c]\<rparr>), True)"
  by (cases "read_chunk (lib_parse lib (trim_space d))")
    (simp_all add: openai_event_def data_event_def clean_event_def openai_chunk_def relay_chunk_def Let_def)

lemma azure_clean:
  "clean_event lib d \<Longrightarrow> azure_event lib cfg s (data_event d) =
     ((case azure_chunk lib d of None \<Rightarrow> s | Some c \<Rightarrow> s\<lparr>ry_chunks := ry_chunks s @ [c]\<rparr>), True)"
  by (cases "read_chunk (lib_parse lib (trim_space d))")
    (simp_all add: azure_event_def data_event_def clean_event_def azure_chunk_def says_something_def relay_chunk_def Let_def)

text \<open>A run of clean events and one that stops the adapter.\<close>

lemma relay_until:
  assumes "\<And>s d. d \<in> set ds \<Longrightarrow>
      cb s (data_event d) = ((case f d of None \<Rightarrow> s | Some c \<Rightarrow> s\<lparr>ry_chunks := ry_chunks s @ [c]\<rparr>), True)"
    and "\<And>s. cb s (data_event d) = (s\<lparr>ry_error := e (ry_error s)\<rparr>, False)"
    and "list_all plain_event (map data_event ds @ data_event d # rest)"
  shows "relay_stream cb (render_events (map data_event ds @ data_event d # rest)) failed
    = (\<lparr>ry_chunks = passed_on f ds, ry_error = e None\<rparr>, EndOfStream)"
  unfolding relay_stream_def
  using feed_clean [of ds cb f "\<lparr>ry_chunks = [], ry_error = None\<rparr>" "data_event d # rest", OF assms(1)] assms(2,3)
  by (simp add: read_sse_rendered)

lemma done_stops:
  "openai_event lib s (data_event ''[DONE]'') = (s\<lparr>ry_error := id (ry_error s)\<rparr>, False)"
  "azure_event lib cfg s (data_event ''[DONE]'') = (s\<lparr>ry_error := id (ry_error s)\<rparr>, False)"
proof -
  have "trim_space ''[DONE]'' = ''[DONE]''" by code_simp
  then show "openai_event lib s (data_event ''[DONE]'') = (s\<lparr>ry_error := id (ry_error s)\<rparr>, False)"
    "azure_event lib cfg s (data_event ''[DONE]'') = (s\<lparr>ry_error := id (ry_error s)\<rparr>, False)"
    by (simp_all add: openai_event_def azure_event_def data_event_def Let_def)
qed

lemma failure_stops:
  "openai_failure lib d \<Longrightarrow> openai_event lib s (data_event d)
     = (s\<lparr>ry_error := (\<lambda>_. Some (upstream_error lib 502 (trim_space d) [])) (ry_error s)\<rparr>, False)"
  "azure_failure lib d \<Longrightarrow> azure_event lib cfg s (data_event d)
     = (s\<lparr>ry_error := (\<lambda>_. Some (upstream_error lib 502 (trim_space d) [cf_api_key cfg])) (ry_error s)\<rparr>, False)"
  by (simp_all add: openai_event_def azure_event_def openai_failure_def azure_failure_def data_event_def Let_def)


definition demo_lib :: http_lib where
  "demo_lib = \<lparr>lib_parse = (\<lambda>_. Some (JObj [])), lib_sprint = (\<lambda>_. []), lib_status_text = (\<lambda>_. []), lib_parse_time = (\<lambda>_. None)\<rparr>"


lemma error_is_no_member:
  "names_field ''error'' ''object'' = False" "names_field ''error'' ''created'' = False"
  "names_field ''error'' ''system_fingerprint'' = False" "names_field ''error'' ''id'' = False"
  "names_field ''error'' ''model'' = False" "names_field ''error'' ''choices'' = False"
  "names_field ''error'' ''usage'' = False"
  by code_simp+

text \<open>
  An error object in a stream decodes as a chunk with nothing in it. Azure's adapter looks for
  the error first and ends the stream with it; the other one relays the empty chunk and goes on.
\<close>

theorem stream_error_is_relayed_as_a_chunk:
  assumes "lib_parse lib (trim_space d) = Some (JObj [(''error'', e)])" and "e \<noteq> JNull"
    and "trim_space d \<noteq> []" "trim_space d \<noteq> ''[DONE]''"
  shows "openai_event lib s (data_event d) = (relay_chunk (none_relayed no_chunk) s, True)
    \<and> ry_error (fst (azure_event lib cfg s (data_event d))) = Some (upstream_error lib 502 (trim_space d) [cf_api_key cfg])
    \<and> snd (azure_event lib cfg s (data_event d)) = False"
proof -
  have "read_chunk (Some (JObj [(''error'', e)])) = Some (none_relayed no_chunk)"
    by (simp add: read_chunk_def unmarshal_def dec_struct_def relayed_field_def chunk_field_def error_is_no_member none_relayed_def)
  moreover have "reports_error (Some (JObj [(''error'', e)])) = Some e"
    by (simp add: reports_error_def unmarshal_def dec_struct_def envelope_field_def)
  ultimately show ?thesis
    using assms by (simp add: openai_event_def azure_event_def data_event_def Let_def)
qed

end
