(* ===== verification/Retriever.thy ===== *)
theory Retriever
  imports Rerank OpenAi Hybrid Store
begin

text \<open>
  A retrieval (\<open>internal/rag/retrieve.go\<close>): the query is embedded, the store searched and the
  candidates reranked. The upstreams and the database are an environment. An index into an
  empty slice of vectors, which would end the process, is an outcome of its own.
\<close>

section \<open>Stores and results\<close>

record search_store = rag_store +
  ss_chunk_count :: int
  ss_search_mode :: bytes
  ss_search_backend :: bytes
  ss_max_distance :: f64
  ss_rerank :: bool
  ss_rerank_candidates :: int
  ss_rerank_backend :: bytes

definition RerankLLM where "RerankLLM = ''llm''"

record search_options =
  op_mode :: bytes
  op_backend :: bytes
  op_max_distance :: f64
  op_candidates :: int
  op_filter :: "filter_cond list"

record retrieval =
  rt_hits :: "search_hit list"
  rt_mode :: bytes
  rt_backend :: bytes
  rt_reranked :: bool
  rt_rerank_backend :: bytes
  rt_rerank_fallback :: bool
  rt_rerank_timed :: bool
  rt_embed_usage :: "usage option"
  rt_filter_matched_nothing :: bool
  rt_rerank_spend :: "rerank_spend option"
  rt_rerank_failure :: "rerank_failure option"

definition new_retrieval :: "bytes \<Rightarrow> bytes \<Rightarrow> retrieval" where
  "new_retrieval mode backend =
     \<lparr>rt_hits = [], rt_mode = mode, rt_backend = backend, rt_reranked = False, rt_rerank_backend = [],
      rt_rerank_fallback = False, rt_rerank_timed = False, rt_embed_usage = None,
      rt_filter_matched_nothing = False, rt_rerank_spend = None, rt_rerank_failure = None\<rparr>"

text \<open>
  A reranker a factory builds: its name and its \<open>Rerank\<close>, which takes the chat model of the
  caller, if there is one, the query, the hits and the number wanted.
\<close>

type_synonym chat_model = "(bytes \<Rightarrow> chat_answer) option"
type_synonym built_reranker = "bytes \<times> (chat_model \<Rightarrow> bytes \<Rightarrow> search_hit list \<Rightarrow> int \<Rightarrow> rerank_outcome)"

record 'v retriever =
  rv_matching :: "filter_cond list \<Rightarrow> go_error + bool"
  rv_connection :: "store_error + model_connection"
  rv_factory :: "model_connection \<Rightarrow> go_error + (bytes list \<Rightarrow> 'v embedded)"
  rv_search :: "bytes \<Rightarrow> 'v list \<Rightarrow> search_options \<Rightarrow> (search_failure + search_hit list) \<times> bytes"
  rv_rerankers :: "rerank_failure + built_reranker option"

datatype retrieval_error =
    FilterError go_error
  | ConnectionError store_error
  | FactoryError go_error
  | EmbedError go_error
  | SearchError search_failure
  | IndexPanic

section \<open>Reranking\<close>

text \<open>\<open>rerank\<close>, with the reason it records of a failure.\<close>

definition rerank_failure_reason :: "rerank_failure option \<Rightarrow> bytes" where
  "rerank_failure_reason f =
     (case f of
        None \<Rightarrow> []
      | Some RerankUnavailable \<Rightarrow> ''unavailable''
      | Some RerankParse \<Rightarrow> ''parse''
      | Some (RerankCall e) \<Rightarrow>
          (if DeadlineExceeded \<in> set e then ''timeout''
           else (case as_provider e of
                   Some pe \<Rightarrow> if pe_type pe = ''timeout'' then ''timeout'' else ''upstream''
                 | None \<Rightarrow> ''upstream'')))"

definition fall_back :: "rerank_failure \<Rightarrow> retrieval \<Rightarrow> retrieval" where
  "fall_back f res = res\<lparr>rt_rerank_fallback := True, rt_rerank_failure := Some f\<rparr>"

definition rerank_hits ::
  "rerank_failure + built_reranker option \<Rightarrow> 'a search_store_scheme \<Rightarrow> bytes \<Rightarrow> search_hit list \<Rightarrow> int \<Rightarrow> chat_model
     \<Rightarrow> retrieval \<Rightarrow> search_hit list \<times> retrieval" where
  "rerank_hits built rs query hits k chat res =
     (let backend = (if ss_rerank_backend rs = [] then RerankLLM else ss_rerank_backend rs);
          res = res\<lparr>rt_rerank_backend := backend, rt_rerank_timed := True\<rparr> in
      if length hits < 2 then (hits, res)
      else
        (case built of
           Inl e \<Rightarrow> (hits, fall_back e res)
         | Inr None \<Rightarrow> (hits, fall_back RerankUnavailable res)
         | Inr (Some (name, rerank)) \<Rightarrow>
             (if name = RerankLLM \<and> chat = None then (hits, fall_back RerankUnavailable res)
              else
                (let r = rerank chat query hits k;
                     res = (if spend_is_zero (ro_spend r) then res else res\<lparr>rt_rerank_spend := Some (ro_spend r)\<rparr>) in
                 (ro_hits r, (case ro_failure r of Some f \<Rightarrow> fall_back f res | None \<Rightarrow> res\<lparr>rt_reranked := True\<rparr>))))))"

section \<open>Searching\<close>

definition effective_k :: "int \<Rightarrow> 'a search_store_scheme \<Rightarrow> int" where
  "effective_k k rs = (let k = (if k \<le> 0 then rs_top_k rs else k) in if k \<le> 0 then 5 else k)"

definition search_candidates :: "int \<Rightarrow> bytes \<Rightarrow> 'a search_store_scheme \<Rightarrow> int" where
  "search_candidates k mode rs =
     (if ss_rerank rs then max k (ss_rerank_candidates rs) else if mode = SearchHybrid then k * 3 else k)"

definition search_mode :: "'a search_store_scheme \<Rightarrow> bytes" where
  "search_mode rs = (if ss_search_mode rs = [] then SearchHybrid else ss_search_mode rs)"

definition search_backend :: "'a search_store_scheme \<Rightarrow> bytes" where
  "search_backend rs = (if ss_search_backend rs = [] then BackendPgvector else ss_search_backend rs)"

text \<open>The search after the early returns.\<close>

definition run_retrieval ::
  "'v retriever \<Rightarrow> 'a search_store_scheme \<Rightarrow> bytes \<Rightarrow> int \<Rightarrow> chat_model \<Rightarrow> filter_cond list \<Rightarrow> retrieval_error + retrieval" where
  "run_retrieval r rs query k chat conds =
     (let mode = search_mode rs; res = new_retrieval mode (search_backend rs) in
      case rv_connection r of
        Inl e \<Rightarrow> Inl (ConnectionError e)
      | Inr conn \<Rightarrow>
          (case rv_factory r conn of
             Inl e \<Rightarrow> Inl (FactoryError e)
           | Inr emb \<Rightarrow>
               (case emb [query] of
                  Inl e \<Rightarrow> Inl (EmbedError e)
                | Inr ([], _) \<Rightarrow> Inl IndexPanic
                | Inr (vec # _, embed_usage) \<Rightarrow>
                    (let k = effective_k k rs in
                     case rv_search r query vec
                            \<lparr>op_mode = mode, op_backend = search_backend rs, op_max_distance = ss_max_distance rs,
                             op_candidates = search_candidates k mode rs, op_filter = conds\<rparr> of
                       (Inl e, _) \<Rightarrow> Inl (SearchError e)
                     | (Inr hits, used) \<Rightarrow>
                         (let res = res\<lparr>rt_backend := used, rt_embed_usage := embed_usage\<rparr>;
                              (hits, res) = (if ss_rerank rs then rerank_hits (rv_rerankers r) rs query hits k chat res
                                             else (hits, res)) in
                          Inr (res\<lparr>rt_hits := take (nat k) hits\<rparr>))))))"

definition search_with_filter ::
  "'v retriever \<Rightarrow> 'a search_store_scheme \<Rightarrow> bytes \<Rightarrow> int \<Rightarrow> chat_model \<Rightarrow> filter_cond list \<Rightarrow> retrieval_error + retrieval" where
  "search_with_filter r rs query k chat conds =
     (let res = new_retrieval (search_mode rs) (search_backend rs) in
      if ss_chunk_count rs = 0 \<or> trim_space query = [] then Inr res
      else if conds = [] then run_retrieval r rs query k chat conds
      else
        (case rv_matching r conds of
           Inl e \<Rightarrow> Inl (FilterError e)
         | Inr False \<Rightarrow> Inr (res\<lparr>rt_filter_matched_nothing := True\<rparr>)
         | Inr True \<Rightarrow> run_retrieval r rs query k chat conds))"

section \<open>What the server wires in\<close>

record server_config =
  sv_upstream_timeout :: duration
  sv_stream_max_duration :: duration
  sv_stream_max_bytes :: int

definition provider_config :: "server_config \<Rightarrow> model_connection \<Rightarrow> conn_config" where
  "provider_config sv c =
     \<lparr>cf_provider_type = c_provider_type c, cf_base_url = c_base_url c, cf_api_key = c_api_key c,
      cf_timeout = sv_upstream_timeout sv, cf_stream_max_duration = sv_stream_max_duration sv,
      cf_stream_max_bytes = sv_stream_max_bytes sv\<rparr>"

text \<open>\<open>NewEmbedder\<close>: \<open>post\<close> sends a body to the address the adapter is built with.\<close>

record 'v embed_lib =
  el_http :: http_lib
  el_now :: time
  el_decoder :: "'v decoder"
  el_zero :: 'v
  el_post :: "model_connection \<Rightarrow> json \<Rightarrow> reply"
  el_post_to :: "bytes \<Rightarrow> json \<Rightarrow> reply"
  el_url_parts :: "bytes \<Rightarrow> (bytes \<times> bytes) option"
  el_path_escape :: "bytes \<Rightarrow> bytes"
  el_query_escape :: "bytes \<Rightarrow> bytes"

definition no_embeddings :: go_error where
  "no_embeddings = [OtherNode ''this provider type does not offer an embeddings API'']"

definition new_embedder :: "'v embed_lib \<Rightarrow> server_config \<Rightarrow> model_connection \<Rightarrow> go_error + (bytes list \<Rightarrow> 'v embedded)" where
  "new_embedder l sv c =
     (let cfg = provider_config sv c; model = c_model_name c; ty = c_provider_type c in
      if ty = ''openai'' \<or> ty = ''custom_openai''
      then Inr (openai_embed (el_http l) cfg model (el_now l) (el_decoder l) (el_zero l) (el_post l c))
      else if ty = ''ollama''
      then Inr (ollama_embed (el_http l) cfg model (el_now l) (el_decoder l) (el_zero l) (el_post l c))
      else if ty = ''gemini''
      then Inr (gemini_embed (el_http l) cfg model (el_now l) (el_decoder l) (el_zero l) (el_post l c))
      else if ty = ''azure_openai''
      then Inr (azure_embed (el_path_escape l) (el_query_escape l) (new_azure_target (el_url_parts l) cfg model)
                  (el_http l) cfg (el_now l) (el_decoder l) (el_zero l) (el_post_to l))
      else Inl no_embeddings)"

definition build_reranker ::
  "(bytes \<Rightarrow> raw) \<Rightarrow> http_lib \<Rightarrow> time \<Rightarrow> (model_connection \<Rightarrow> json \<Rightarrow> reply) \<Rightarrow> server_config
     \<Rightarrow> (int \<Rightarrow> store_error + model_connection) \<Rightarrow> 'a search_store_scheme \<Rightarrow> rerank_failure + built_reranker option" where
  "build_reranker parse lib now post sv connection rs =
     (if ss_rerank_backend rs = [] \<or> ss_rerank_backend rs = RerankLLM then Inr (Some (RerankLLM, llm_rerank parse))
      else
        (case rs_rerank_connection_id rs of
           None \<Rightarrow> Inl RerankUnavailable
         | Some i \<Rightarrow>
             (case connection i of
                Inl e \<Rightarrow> Inl RerankUnavailable
              | Inr conn \<Rightarrow>
                  (case new_reranker lib (provider_config sv conn) (c_model_name conn) now (post conn) of
                     None \<Rightarrow> Inl RerankUnavailable
                   | Some client \<Rightarrow>
                       Inr (Some (ss_rerank_backend rs,
                         \<lambda>chat. api_rerank (Some client) (c_provider_type conn) (c_model_name conn)))))))"

text \<open>The retriever of the running server; what the database answers stays open.\<close>

definition server_retriever ::
  "'v embed_lib \<Rightarrow> server_config \<Rightarrow> (int \<Rightarrow> store_error + model_connection) \<Rightarrow> (filter_cond list \<Rightarrow> go_error + bool)
     \<Rightarrow> (bytes \<Rightarrow> 'v list \<Rightarrow> search_options \<Rightarrow> (search_failure + search_hit list) \<times> bytes)
     \<Rightarrow> 'a search_store_scheme \<Rightarrow> 'v retriever" where
  "server_retriever l sv connection matching search rs =
     \<lparr>rv_matching = matching, rv_connection = connection (rs_embedding_connection_id rs),
      rv_factory = new_embedder l sv, rv_search = search,
      rv_rerankers = build_reranker (lib_parse (el_http l)) (el_http l) (el_now l) (el_post l) sv connection rs\<rparr>"

section \<open>Properties\<close>

definition lawful_reranker :: "rerank_failure + built_reranker option \<Rightarrow> bool" where
  "lawful_reranker built \<longleftrightarrow>
     (case built of Inr (Some (name, f)) \<Rightarrow> \<forall>chat. reranker (f chat) | _ \<Rightarrow> True)"

lemma built_is_lawful: "lawful_reranker (build_reranker parse lib now post sv connection rs)"
  by (auto simp: build_reranker_def lawful_reranker_def llm.reranker_axioms api.reranker_axioms
      split: option.splits sum.splits)

lemma new_embedder_lawful: "new_embedder l sv c = Inr emb \<Longrightarrow> embedder emb"
  by (auto simp: new_embedder_def Let_def openai.embedder_axioms ollama.embedder_axioms gemini.embedder_axioms
      azure.embedder_axioms split: if_splits)

lemma rerank_hits_candidates:
  assumes "lawful_reranker built"
  shows "mset (fst (rerank_hits built rs query hits k chat res)) \<subseteq># mset hits
    \<and> (rt_rerank_fallback (snd (rerank_hits built rs query hits k chat res)) \<and> \<not> rt_rerank_fallback res
        \<longrightarrow> prefix (fst (rerank_hits built rs query hits k chat res)) hits)"
proof (cases "length hits < 2 \<or> (\<nexists>name f. built = Inr (Some (name, f)))")
  case True
  then show ?thesis
    by (auto simp: rerank_hits_def Let_def split: sum.splits option.splits)
next
  case False
  then obtain name f where b: "built = Inr (Some (name, f))" and n: "\<not> length hits < 2" by blast
  have r: "reranker (f chat)" using assms by (simp add: lawful_reranker_def b)
  show ?thesis
    using reranker.only_candidates [OF r, of query hits k] reranker.failure_keeps_order [OF r, of query hits k] n
    by (auto simp: rerank_hits_def Let_def b fall_back_def split: option.splits if_splits)
qed

definition options_of :: "'a search_store_scheme \<Rightarrow> int \<Rightarrow> filter_cond list \<Rightarrow> search_options" where
  "options_of rs k conds =
     \<lparr>op_mode = search_mode rs, op_backend = search_backend rs, op_max_distance = ss_max_distance rs,
      op_candidates = search_candidates (effective_k k rs) (search_mode rs) rs, op_filter = conds\<rparr>"

text \<open>What a retrieval may answer with, given the candidates of the search.\<close>

definition answers_with :: "int \<Rightarrow> search_hit list \<Rightarrow> retrieval \<Rightarrow> bool" where
  "answers_with k hits res \<longleftrightarrow>
     int (length (rt_hits res)) \<le> k \<and> mset (rt_hits res) \<subseteq># mset hits
     \<and> (rt_rerank_fallback res \<longrightarrow> prefix (rt_hits res) hits)"

lemma effective_k_positive: "0 < effective_k k rs"
  by (simp add: effective_k_def Let_def)

lemma enough_candidates: "0 < k \<Longrightarrow> k \<le> search_candidates k mode rs"
  by (simp add: search_candidates_def)

lemma cut_answers_with:
  assumes "mset hits' \<subseteq># mset hits" "rt_rerank_fallback res \<longrightarrow> prefix hits' hits" "0 < k"
  shows "answers_with k hits (res\<lparr>rt_hits := take (nat k) hits'\<rparr>)"
proof -
  have "mset (take (nat k) hits') \<subseteq># mset hits'"
    by (metis append_take_drop_id mset_append mset_subset_eq_add_left)
  with assms show ?thesis
    by (auto simp: answers_with_def intro: subset_mset.order_trans prefix_order.trans [OF take_is_prefix])
qed

lemma run_retrieval_cases:
  assumes "lawful_reranker (rv_rerankers r)"
    and "\<And>c emb. rv_factory r c = Inr emb \<Longrightarrow> embedder emb"
  shows "case run_retrieval r rs query k chat conds of
      Inl e \<Rightarrow> e \<noteq> IndexPanic
    | Inr res \<Rightarrow> \<exists>vec hits. fst (rv_search r query vec (options_of rs k conds)) = Inr hits \<and> answers_with (effective_k k rs) hits res"
proof (cases "rv_connection r")
  case conn: (Inr conn)
  show ?thesis
  proof (cases "rv_factory r conn")
    case factory: (Inr emb)
    show ?thesis
    proof (cases "emb [query]")
      case (Inr vu)
      obtain vecs u where vu: "vu = (vecs, u)" by force
      with Inr have "vecs = [hd vecs]"
        using embedder.first_vector [OF assms(2) [OF factory], of query vecs u] by simp
      then obtain vec where vec: "vecs = [vec]" by blast
      obtain result used where found: "rv_search r query vec (options_of rs k conds) = (result, used)" by force
      note start = run_retrieval_def [of r rs query k chat conds] conn factory Inr vu vec Let_def options_of_def [symmetric] found
      show ?thesis
      proof (cases result)
        case (Inl e)
        then show ?thesis by (simp add: start)
      next
        case hits: (Inr hits)
        let ?res = "(new_retrieval (search_mode rs) (search_backend rs))\<lparr>rt_backend := used, rt_embed_usage := u\<rparr>"
        define out where "out = (if ss_rerank rs then rerank_hits (rv_rerankers r) rs query hits (effective_k k rs) chat ?res
          else (hits, ?res))"
        have "mset (fst out) \<subseteq># mset hits \<and> (rt_rerank_fallback (snd out) \<longrightarrow> prefix (fst out) hits)"
          using rerank_hits_candidates [OF assms(1), of rs query hits "effective_k k rs" chat ?res]
          by (auto simp: out_def new_retrieval_def)
        then have "answers_with (effective_k k rs) hits ((snd out)\<lparr>rt_hits := take (nat (effective_k k rs)) (fst out)\<rparr>)"
          using effective_k_positive [of k rs] by (intro cut_answers_with) auto
        moreover have "run_retrieval r rs query k chat conds =
            Inr ((snd out)\<lparr>rt_hits := take (nat (effective_k k rs)) (fst out)\<rparr>)"
          by (simp add: start hits out_def split: prod.split)
        moreover have "fst (rv_search r query vec (options_of rs k conds)) = Inr hits" by (simp add: found hits)
        ultimately show ?thesis by auto
      qed
    qed (simp add: run_retrieval_def conn factory Let_def)
  qed (simp add: run_retrieval_def conn Let_def)
qed (simp add: run_retrieval_def Let_def)

lemma search_with_filter_cases:
  obtains (failed) e where "search_with_filter r rs query k chat conds = Inl (FilterError e)"
  | (early) res where "search_with_filter r rs query k chat conds = Inr res" "rt_hits res = []"
  | (ran) "search_with_filter r rs query k chat conds = run_retrieval r rs query k chat conds"
proof -
  have "rt_hits (new_retrieval m b) = []" for m b by (simp add: new_retrieval_def)
  then have "(\<exists>e. search_with_filter r rs query k chat conds = Inl (FilterError e))
      \<or> (\<exists>res. search_with_filter r rs query k chat conds = Inr res \<and> rt_hits res = [])
      \<or> search_with_filter r rs query k chat conds = run_retrieval r rs query k chat conds"
    unfolding search_with_filter_def Let_def by (auto split: sum.split bool.split)
  then show thesis using that by blast
qed

text \<open>C26: A retrieval of the running server never takes a vector that is not there, and answers with
  at most the hits asked for, each one of the search and none twice more than it was found;
  when the reranker cannot be used they are the first ones of the search, in its order.\<close>

theorem retrieval_answers_with_candidates:
  "case search_with_filter (server_retriever l sv connection matching search rs) rs query k chat conds of
     Inl e \<Rightarrow> e \<noteq> IndexPanic
   | Inr res \<Rightarrow>
       rt_hits res = []
       \<or> (\<exists>vec hits. fst (search query vec (options_of rs k conds)) = Inr hits
            \<and> int (length (rt_hits res)) \<le> effective_k k rs
            \<and> mset (rt_hits res) \<subseteq># mset hits
            \<and> (if rt_rerank_fallback res then prefix (rt_hits res) hits else True))"
proof -
  let ?r = "server_retriever l sv connection matching search rs"
  have run: "case run_retrieval ?r rs query k chat conds of
      Inl e \<Rightarrow> e \<noteq> IndexPanic
    | Inr res \<Rightarrow> \<exists>vec hits. fst (rv_search ?r query vec (options_of rs k conds)) = Inr hits \<and> answers_with (effective_k k rs) hits res"
    by (rule run_retrieval_cases) (auto simp: server_retriever_def built_is_lawful dest: new_embedder_lawful)
  show ?thesis
  proof (cases rule: search_with_filter_cases [of ?r rs query k chat conds])
    case (failed e)
    then show ?thesis by simp
  next
    case (early res)
    then show ?thesis by simp
  next
    case ran
    show ?thesis
    proof (cases "run_retrieval ?r rs query k chat conds")
      case (Inl e)
      with run show ?thesis by (simp add: ran)
    next
      case (Inr res)
      with run obtain vec hits where "fst (search query vec (options_of rs k conds)) = Inr hits"
        "answers_with (effective_k k rs) hits res"
        by (auto simp: server_retriever_def)
      then show ?thesis unfolding ran Inr sum.case answers_with_def by auto
    qed
  qed
qed

text \<open>A search that can find nothing costs nothing: for an empty store, a blank query or a filter
  no document matches, the answer is settled without the embedder, the search and the
  reranker, with no hits, no usage and no spend.\<close>

theorem pointless_searches_cost_nothing:
  "if ss_chunk_count rs = 0 \<or> trim_space query = [] \<or> (conds \<noteq> [] \<and> rv_matching r conds = Inr False)
   then search_with_filter r rs query k chat conds =
          search_with_filter (r\<lparr>rv_factory := factory, rv_search := search, rv_rerankers := rerankers\<rparr>) rs query k chat conds
        \<and> (case search_with_filter r rs query k chat conds of
             Inl e \<Rightarrow> False
           | Inr res \<Rightarrow> rt_hits res = [] \<and> rt_embed_usage res = None \<and> rt_rerank_spend res = None)
   else True"
  by (auto simp: search_with_filter_def Let_def new_retrieval_def)

end
