(* ===== verification/Language.thy ===== *)
theory Language
  imports Hybrid
begin

text \<open>
  The language of a store (\<open>internal/store/language.go\<close>, and the parts of \<open>ragstores.go\<close> that
  derive from it): the table of languages, what a caller's two settings resolve to, and which
  column and configuration a text search reads. Which configurations the server has is a
  parameter, as are whether that query fails and the lower case of text.
\<close>

section \<open>The table\<close>

definition LanguageSimple where "LanguageSimple = ''simple''"

definition language_configs :: "(bytes \<times> bytes) list" where
  "language_configs =
     [(''ar'', ''arabic''), (''ca'', ''catalan''), (''da'', ''danish''), (''de'', ''german''), (''el'', ''greek''),
      (''en'', ''english''), (''es'', ''spanish''), (''eu'', ''basque''), (''fi'', ''finnish''), (''fr'', ''french''),
      (''ga'', ''irish''), (''hi'', ''hindi''), (''hu'', ''hungarian''), (''hy'', ''armenian''), (''id'', ''indonesian''),
      (''it'', ''italian''), (''lt'', ''lithuanian''), (''ne'', ''nepali''), (''nl'', ''dutch''), (''no'', ''norwegian''),
      (''pt'', ''portuguese''), (''ro'', ''romanian''), (''ru'', ''russian''), (''sr'', ''serbian''), (''sv'', ''swedish''),
      (''ta'', ''tamil''), (''tr'', ''turkish''), (''yi'', ''yiddish'')]"

text \<open>The table turned around: a later entry would replace an earlier one.\<close>

definition config_languages :: "(bytes \<times> bytes) list" where
  "config_languages = map (\<lambda>(code, cfg). (cfg, code)) (rev language_configs)"

definition language_codes :: "bytes list" where
  "language_codes = LanguageSimple # map fst language_configs"

definition language_config :: "bytes \<Rightarrow> bytes option" where
  "language_config language =
     (if language = [] \<or> language = LanguageSimple then Some LanguageSimple else map_of language_configs language)"

definition language_for_config :: "bytes \<Rightarrow> bytes option" where
  "language_for_config cfg = (if cfg = LanguageSimple then Some LanguageSimple else map_of config_languages cfg)"

section \<open>What a caller asks for\<close>

datatype language_error =
    UnknownLanguage | NoServerConfig | ConfigNamesNone | Contradiction | CatalogUnread

text \<open>\<open>server\<close> answers whether \<open>pg_ts_config\<close> holds a name, \<open>None\<close> when the query fails.\<close>

definition check_language :: "(bytes \<Rightarrow> bool option) \<Rightarrow> bytes \<Rightarrow> language_error option" where
  "check_language server language =
     (case language_config language of
        None \<Rightarrow> Some UnknownLanguage
      | Some cfg \<Rightarrow>
          (case server cfg of None \<Rightarrow> Some CatalogUnread | Some found \<Rightarrow> if found then None else Some NoServerConfig))"

definition checked_language :: "(bytes \<Rightarrow> bool option) \<Rightarrow> bytes \<Rightarrow> language_error + bytes option" where
  "checked_language server language =
     (case check_language server language of Some e \<Rightarrow> Inl e | None \<Rightarrow> Inr (Some language))"

text \<open>\<open>ResolveLanguage\<close>; \<open>Inr None\<close> when neither setting was sent.\<close>

definition resolve_language :: "(bytes \<Rightarrow> bytes) \<Rightarrow> (bytes \<Rightarrow> bool option) \<Rightarrow> bytes \<Rightarrow> bytes \<Rightarrow> language_error + bytes option" where
  "resolve_language to_lower server language fts_config =
     (let language = to_lower (trim_space language); fts_config = to_lower (trim_space fts_config) in
      if language = [] \<and> fts_config = [] then Inr None
      else if fts_config = [] then checked_language server language
      else
        (case language_for_config fts_config of
           None \<Rightarrow> Inl ConfigNamesNone
         | Some from_config \<Rightarrow>
             (if language = [] then checked_language server from_config
              else if language \<noteq> from_config then Inl Contradiction
              else checked_language server language)))"

section \<open>What a search reads\<close>

datatype fts_status = FTSNotNeeded | FTSRebuilding | FTSReady

definition derive_language :: "bytes \<Rightarrow> bytes" where
  "derive_language language = (if language = [] then LanguageSimple else language)"

definition derive_fts_config :: "bytes \<Rightarrow> bytes" where
  "derive_fts_config language = (case language_config (derive_language language) of Some cfg \<Rightarrow> cfg | None \<Rightarrow> [])"

definition derive_fts_status :: "bytes \<Rightarrow> bytes option \<Rightarrow> fts_status" where
  "derive_fts_status language applied =
     (if derive_language language = LanguageSimple then FTSNotNeeded
      else if applied = Some (derive_language language) then FTSReady
      else FTSRebuilding)"

definition language_applies_to_search :: "bytes \<Rightarrow> bool" where
  "language_applies_to_search backend \<longleftrightarrow> backend \<noteq> BackendPgSearch"

definition tsvColumn where "tsvColumn = ''tsv''"
definition ftsColumn where "ftsColumn = ''fts''"

definition lexical_plan :: "bytes \<Rightarrow> bytes option \<Rightarrow> bytes \<times> bytes" where
  "lexical_plan language applied =
     (if language \<noteq> [] \<and> language \<noteq> LanguageSimple \<and> applied = Some language
      then (case language_config language of Some cfg \<Rightarrow> (ftsColumn, cfg) | None \<Rightarrow> (tsvColumn, LanguageSimple))
      else (tsvColumn, LanguageSimple))"

section \<open>The warning about the old setting\<close>

text \<open>The language the warning names, if it names one; no warning is \<open>None\<close>.\<close>

definition fts_config_warning :: "(bytes \<Rightarrow> bytes) \<Rightarrow> bytes \<Rightarrow> bytes \<Rightarrow> bytes \<Rightarrow> bytes option option" where
  "fts_config_warning to_lower fts_config language backend =
     (let cfg = to_lower (trim_space fts_config) in
      if cfg = [] \<or> cfg = LanguageSimple \<or> backend = BackendPgSearch then None
      else if language \<noteq> [] \<and> language \<noteq> LanguageSimple then None
      else Some (language_for_config cfg))"

section \<open>Facts about the table\<close>

lemma table_is_one_to_one: "distinct (map fst language_configs)" "distinct (map snd language_configs)"
  by code_simp+

lemma config_languages_of [simp]: "map_of config_languages cfg = Some code \<longleftrightarrow> (code, cfg) \<in> set language_configs"
proof -
  have "distinct (map fst config_languages)"
    using table_is_one_to_one(2) by (simp add: config_languages_def case_prod_unfold comp_def flip: rev_map)
  then show ?thesis by (force simp: config_languages_def)
qed

lemma language_configs_of [simp]: "map_of language_configs code = Some cfg \<longleftrightarrow> (code, cfg) \<in> set language_configs"
  using table_is_one_to_one(1) by simp

lemma simple_is_no_entry:
  "(code, cfg) \<in> set language_configs \<Longrightarrow> code \<noteq> LanguageSimple \<and> cfg \<noteq> LanguageSimple \<and> code \<noteq> [] \<and> cfg \<noteq> []"
  by (auto simp: language_configs_def LanguageSimple_def)

lemma language_config_Some:
  "language_config language = Some cfg \<longleftrightarrow>
     (language = [] \<or> language = LanguageSimple) \<and> cfg = LanguageSimple \<or> (language, cfg) \<in> set language_configs"
  using simple_is_no_entry by (auto simp: language_config_def)

lemma language_for_config_Some:
  "language_for_config cfg = Some language \<longleftrightarrow>
     cfg = LanguageSimple \<and> language = LanguageSimple \<or> (language, cfg) \<in> set language_configs"
  using simple_is_no_entry by (auto simp: language_for_config_def)

lemma checked_language_Inr: "checked_language server l = Inr r \<Longrightarrow> r = Some l"
  by (simp add: checked_language_def split: option.splits)

lemma checked_language_supported:
  "l \<noteq> [] \<Longrightarrow> checked_language server l = Inr r
     \<Longrightarrow> l \<in> set language_codes \<and> (\<exists>cfg. language_config l = Some cfg \<and> server cfg = Some True)"
  by (force simp: checked_language_def check_language_def language_codes_def language_config_Some
      split: option.splits if_splits)

section \<open>Properties\<close>

text \<open>The old setting and the language name each other: what a language maps to maps back to it,
  and a configuration that names a language is the one that language is searched with.\<close>

theorem language_and_config_invert:
  "(language_config language = Some cfg \<and> language \<noteq> []) = (language_for_config cfg = Some language)"
  using simple_is_no_entry by (auto simp: language_config_Some language_for_config_Some LanguageSimple_def)

text \<open>A language that is resolved is one the table and the server have, it is the one the caller's
  settings name when they name the same, and settings that name different ones are refused.\<close>

theorem resolved_language_is_supported:
  "case resolve_language to_lower server language fts_config of
     Inr None \<Rightarrow> to_lower (trim_space language) = [] \<and> to_lower (trim_space fts_config) = []
   | Inr (Some l) \<Rightarrow>
       l \<in> set language_codes \<and> (case language_config l of Some cfg \<Rightarrow> server cfg = Some True | None \<Rightarrow> False)
       \<and> (to_lower (trim_space language) = [] \<or> l = to_lower (trim_space language))
       \<and> (to_lower (trim_space fts_config) = [] \<or> language_for_config (to_lower (trim_space fts_config)) = Some l)
   | Inl e \<Rightarrow> True"
proof -
  have named: "language_for_config cfg = Some l \<Longrightarrow> l \<noteq> []" for cfg l
    using simple_is_no_entry by (auto simp: language_for_config_Some LanguageSimple_def)
  have "l \<noteq> [] \<and> checked_language server l = Inr (Some l)
      \<and> (to_lower (trim_space language) = [] \<or> l = to_lower (trim_space language))
      \<and> (to_lower (trim_space fts_config) = [] \<or> language_for_config (to_lower (trim_space fts_config)) = Some l)"
    if "resolve_language to_lower server language fts_config = Inr (Some l)" for l
    using that named checked_language_Inr
    by (fastforce simp: resolve_language_def Let_def split: if_splits option.splits)
  moreover have "to_lower (trim_space language) = [] \<and> to_lower (trim_space fts_config) = []"
    if "resolve_language to_lower server language fts_config = Inr None"
    using that by (auto simp: resolve_language_def Let_def dest: checked_language_Inr split: if_splits option.splits)
  ultimately show ?thesis
    by (fastforce dest: checked_language_supported split: sum.split option.split)
qed

end
