(* ===== verification/Documents.thy ===== *)
theory Documents
  imports Store
begin

text \<open>
  The documents of the RAG stores and the ingestion queue they are (\<open>internal/store/documents.go\<close>):
  each statement is a function on the rows of the table. PostgreSQL runs a statement atomically,
  so a concurrent history is a sequence of them; \<open>FOR UPDATE SKIP LOCKED\<close> is a parameter that
  says which rows another transaction holds. \<open>now\<close> is the time of the statement's transaction.
\<close>

section \<open>Rows\<close>

datatype doc_status = DocPending | DocProcessing | DocReady | DocFailed

record document =
  d_id :: int
  d_store :: int
  d_filename :: bytes
  d_mime :: bytes
  d_size :: int
  d_content :: bytes
  d_status :: doc_status
  d_error :: bytes
  d_chunk_count :: int
  d_page_count :: "int option"
  d_progress :: int
  d_attempts :: int
  d_claimed_by :: "bytes option"
  d_lease_until :: "time option"
  d_updated_at :: time
  d_hash :: "bytes option"

text \<open>\<open>UPDATE ... WHERE\<close>: the rows after it; \<open>list_ex\<close> of the condition says whether a row was affected.\<close>

definition update_where :: "('r \<Rightarrow> bool) \<Rightarrow> ('r \<Rightarrow> 'r) \<Rightarrow> 'r list \<Rightarrow> 'r list" where
  "update_where P f rows = map (\<lambda>r. if P r then f r else r) rows"

definition find_document :: "document list \<Rightarrow> int \<Rightarrow> document option" where
  "find_document docs i = find (\<lambda>d. d_id d = i) docs"

section \<open>Uploads, reads and deletes\<close>

text \<open>\<open>sum256\<close> is the digest; the identifier is the next one of the table's sequence.\<close>

definition create_document ::
  "(bytes \<Rightarrow> bytes) \<Rightarrow> time \<Rightarrow> int \<Rightarrow> int \<Rightarrow> bytes \<Rightarrow> bytes \<Rightarrow> int \<Rightarrow> bytes \<Rightarrow> document list \<Rightarrow> document list" where
  "create_document sum256 now i rag filename mime size_bytes content docs =
     docs @ [\<lparr>d_id = i, d_store = rag, d_filename = filename, d_mime = mime, d_size = size_bytes, d_content = content,
       d_status = DocPending, d_error = [], d_chunk_count = 0, d_page_count = None, d_progress = 0, d_attempts = 0,
       d_claimed_by = None, d_lease_until = None, d_updated_at = now, d_hash = Some (sum256 content)\<rparr>]"

definition set_content_hash :: "int \<Rightarrow> bytes \<Rightarrow> document list \<Rightarrow> document list" where
  "set_content_hash i h docs = update_where (\<lambda>d. d_id d = i \<and> d_hash d = None) (\<lambda>d. d\<lparr>d_hash := Some h\<rparr>) docs"

definition document_content :: "document list \<Rightarrow> int \<Rightarrow> store_error + bytes" where
  "document_content docs i = (case find_document docs i of None \<Rightarrow> Inl NotFound | Some d \<Rightarrow> Inr (d_content d))"

definition list_documents :: "document list \<Rightarrow> int \<Rightarrow> document list" where
  "list_documents docs rag = sort_key (\<lambda>d. - d_id d) (filter (\<lambda>d. d_store d = rag) docs)"

definition list_documents_by_status :: "document list \<Rightarrow> doc_status list \<Rightarrow> document list" where
  "list_documents_by_status docs statuses = sort_key d_id (filter (\<lambda>d. d_status d \<in> set statuses) docs)"

definition find_duplicate_documents :: "document list \<Rightarrow> document \<Rightarrow> bool \<Rightarrow> nat \<Rightarrow> document list" where
  "find_duplicate_documents docs doc same_filename limit =
     (let h = (case find_document docs (d_id doc) of Some d \<Rightarrow> d_hash d | None \<Rightarrow> None) in
      take limit (sort_key (\<lambda>d. - d_id d)
        (filter (\<lambda>d. d_store d = d_store doc \<and> d_id d \<noteq> d_id doc \<and> d_status d = DocReady \<and> d_chunk_count d > 0
                    \<and> d_hash d \<noteq> None \<and> d_hash d = h \<and> (\<not> same_filename \<or> d_filename d = d_filename doc)) docs)))"

definition count_pending_documents :: "document list \<Rightarrow> nat" where
  "count_pending_documents docs = length (filter (\<lambda>d. d_status d = DocPending) docs)"

definition delete_document :: "int \<Rightarrow> document list \<Rightarrow> store_error option \<times> document list" where
  "delete_document i docs =
     (if list_ex (\<lambda>d. d_id d = i) docs then (None, filter (\<lambda>d. d_id d \<noteq> i) docs) else (Some NotFound, docs))"

section \<open>The queue\<close>

definition status_written :: "time \<Rightarrow> doc_status \<Rightarrow> bytes \<Rightarrow> document \<Rightarrow> document" where
  "status_written now status msg d =
     (let d = d\<lparr>d_status := status, d_error := msg, d_updated_at := now\<rparr> in
      if status = DocPending then d\<lparr>d_attempts := 0, d_claimed_by := None, d_lease_until := None\<rparr> else d)"

definition set_document_status :: "time \<Rightarrow> int \<Rightarrow> doc_status \<Rightarrow> bytes \<Rightarrow> document list \<Rightarrow> document list" where
  "set_document_status now i status msg docs = update_where (\<lambda>d. d_id d = i) (status_written now status msg) docs"

text \<open>\<open>ResetStoreDocuments\<close> (\<open>ragstores.go\<close>).\<close>

definition reset_store_documents :: "time \<Rightarrow> int \<Rightarrow> document list \<Rightarrow> document list" where
  "reset_store_documents now rag docs =
     update_where (\<lambda>d. d_store d = rag) (\<lambda>d. d\<lparr>d_status := DocPending, d_error := [], d_updated_at := now\<rparr>) docs"

definition lease_expired :: "time \<Rightarrow> document \<Rightarrow> bool" where
  "lease_expired now d \<longleftrightarrow> (case d_lease_until d of None \<Rightarrow> True | Some t \<Rightarrow> t < now)"

definition claimable :: "time \<Rightarrow> int \<Rightarrow> document \<Rightarrow> bool" where
  "claimable now max_attempts d \<longleftrightarrow>
     (d_status d = DocPending \<or> d_status d = DocProcessing \<and> lease_expired now d) \<and> d_attempts d < max_attempts"

definition claimed :: "time \<Rightarrow> bytes \<Rightarrow> duration \<Rightarrow> document \<Rightarrow> document" where
  "claimed now owner lease d =
     d\<lparr>d_status := DocProcessing, d_claimed_by := Some owner, d_lease_until := Some (now + lease),
       d_attempts := d_attempts d + 1, d_error := [], d_progress := 0, d_page_count := None, d_updated_at := now\<rparr>"

definition next_claim :: "(int \<Rightarrow> bool) \<Rightarrow> time \<Rightarrow> int \<Rightarrow> document list \<Rightarrow> int option" where
  "next_claim locked now max_attempts docs =
     (case sort (map d_id (filter (\<lambda>d. claimable now max_attempts d \<and> \<not> locked (d_id d)) docs)) of
        [] \<Rightarrow> None
      | i # _ \<Rightarrow> Some i)"

definition claim_document ::
  "(int \<Rightarrow> bool) \<Rightarrow> time \<Rightarrow> bytes \<Rightarrow> duration \<Rightarrow> int \<Rightarrow> document list \<Rightarrow> (store_error + document) \<times> document list" where
  "claim_document locked now owner lease max_attempts docs =
     (case next_claim locked now max_attempts docs of
        None \<Rightarrow> (Inl NotFound, docs)
      | Some i \<Rightarrow>
          (let docs = update_where (\<lambda>d. d_id d = i) (claimed now owner lease) docs in
           (case find_document docs i of None \<Rightarrow> Inl NotFound | Some d \<Rightarrow> Inr d, docs)))"

definition held_by :: "bytes \<Rightarrow> document \<Rightarrow> bool" where
  "held_by owner d \<longleftrightarrow> d_claimed_by d = Some owner \<and> d_status d = DocProcessing"

definition found_or_not :: "bool \<Rightarrow> store_error option" where
  "found_or_not found = (if found then None else Some NotFound)"

definition extend_document_lease ::
  "time \<Rightarrow> int \<Rightarrow> bytes \<Rightarrow> duration \<Rightarrow> document list \<Rightarrow> store_error option \<times> document list" where
  "extend_document_lease now i owner lease docs =
     (let P = (\<lambda>d. d_id d = i \<and> held_by owner d) in
      (found_or_not (list_ex P docs), update_where P (\<lambda>d. d\<lparr>d_lease_until := Some (now + lease)\<rparr>) docs))"

definition clear_document_claim :: "int \<Rightarrow> bytes \<Rightarrow> document list \<Rightarrow> document list" where
  "clear_document_claim i owner docs =
     update_where (\<lambda>d. d_id d = i \<and> d_claimed_by d = Some owner)
       (\<lambda>d. d\<lparr>d_claimed_by := None, d_lease_until := None, d_attempts := 0\<rparr>) docs"

definition release_documents :: "time \<Rightarrow> bytes \<Rightarrow> document list \<Rightarrow> document list" where
  "release_documents now owner docs =
     update_where (held_by owner)
       (\<lambda>d. d\<lparr>d_status := DocPending, d_claimed_by := None, d_lease_until := None,
              d_attempts := max (d_attempts d - 1) 0, d_updated_at := now\<rparr>) docs"

definition gaveUp :: bytes where
  "gaveUp = ''ingestion gave up after the maximum number of attempts (INGEST_MAX_ATTEMPTS)''"

definition fail_exhausted_documents :: "time \<Rightarrow> int \<Rightarrow> document list \<Rightarrow> document list" where
  "fail_exhausted_documents now max_attempts docs =
     update_where (\<lambda>d. d_status d = DocProcessing \<and> d_attempts d \<ge> max_attempts \<and> lease_expired now d)
       (\<lambda>d. d\<lparr>d_status := DocFailed, d_claimed_by := None, d_lease_until := None, d_updated_at := now,
              d_error := (if d_error d = [] then gaveUp else d_error d @ '' ('' @ gaveUp @ '')'')\<rparr>) docs"

text \<open>An empty owner skips the ownership test.\<close>

definition owned :: "bytes \<Rightarrow> int \<Rightarrow> document \<Rightarrow> bool" where
  "owned owner i d \<longleftrightarrow> d_id d = i \<and> (owner = [] \<or> held_by owner d)"

definition written_or_lost :: "bytes \<Rightarrow> int \<Rightarrow> document list \<Rightarrow> store_error option" where
  "written_or_lost owner i docs = (if owner \<noteq> [] \<and> \<not> list_ex (owned owner i) docs then Some NotFound else None)"

definition set_document_progress ::
  "int \<Rightarrow> int \<Rightarrow> int option \<Rightarrow> bytes \<Rightarrow> document list \<Rightarrow> store_error option \<times> document list" where
  "set_document_progress i percent pages owner docs =
     (let percent = max 0 (min 100 percent) in
      (written_or_lost owner i docs,
       update_where (owned owner i)
         (\<lambda>d. let d = d\<lparr>d_progress := percent\<rparr> in
              (case pages of None \<Rightarrow> d | Some n \<Rightarrow> d\<lparr>d_page_count := Some n\<rparr>)) docs))"

text \<open>The write of \<open>ReplaceDocumentChunksFrom\<close> to the row, in the transaction of the chunks.\<close>

definition mark_ready :: "time \<Rightarrow> int \<Rightarrow> int \<Rightarrow> bytes \<Rightarrow> document list \<Rightarrow> store_error option \<times> document list" where
  "mark_ready now i n owner docs =
     (written_or_lost owner i docs,
      update_where (owned owner i)
        (\<lambda>d. d\<lparr>d_status := DocReady, d_error := [], d_chunk_count := n, d_progress := 100, d_updated_at := now\<rparr>) docs)"

section \<open>Facts about statements\<close>

lemma update_where_simps [simp]:
  "length (update_where P f rows) = length rows"
  "update_where P f [] = []"
  "update_where P f (r # rows) = (if P r then f r else r) # update_where P f rows"
  "set (update_where P f rows) = (\<lambda>r. if P r then f r else r) ` set rows"
  by (simp_all add: update_where_def)

lemma update_where_keeps_ids:
  "(\<And>d. d_id (f d) = d_id d) \<Longrightarrow> map d_id (update_where P f docs) = map d_id docs"
  by (induction docs) (simp_all add: update_where_def)

lemma update_where_nothing: "\<not> list_ex P rows \<Longrightarrow> update_where P f rows = rows"
  by (induction rows) (auto simp: update_where_def)

lemma find_update_where:
  "(\<And>d. d_id (f d) = d_id d) \<Longrightarrow>
     find_document (update_where P f docs) i = map_option (\<lambda>d. if P d then f d else d) (find_document docs i)"
  by (induction docs) (auto simp: find_document_def)

lemma find_document_Some: "find_document docs i = Some d \<Longrightarrow> d \<in> set docs \<and> d_id d = i"
  by (induction docs) (auto simp: find_document_def split: if_splits)

lemma find_document_None: "find_document docs i = None \<longleftrightarrow> i \<notin> d_id ` set docs"
  by (induction docs) (auto simp: find_document_def)

lemma held_found: "list_ex (\<lambda>d. d_id d = i \<and> Q d) docs \<Longrightarrow> find_document docs i \<noteq> None"
  by (auto simp: find_document_None list_ex_iff)

lemma sole_row:
  assumes "distinct (map d_id docs)" "find_document docs i = Some d"
  shows "list_ex (\<lambda>e. d_id e = i \<and> Q e) docs \<longleftrightarrow> Q d"
proof -
  have "d \<in> set docs" "d_id d = i" using find_document_Some [OF assms(2)] by simp_all
  then show ?thesis using assms(1) by (auto simp: list_ex_iff distinct_map dest: inj_onD)
qed

lemma find_document_row:
  assumes "distinct (map d_id docs)" "d \<in> set docs"
  shows "find_document docs (d_id d) = Some d"
proof -
  have "find_document docs (d_id d) \<noteq> None" using assms(2) by (simp add: find_document_None)
  then obtain e where e: "find_document docs (d_id d) = Some e" by auto
  then have "e = d" using find_document_Some [OF e] assms by (auto simp: distinct_map dest: inj_onD)
  with e show ?thesis by simp
qed

end
