(* ===== verification/RagStores.thy ===== *)
theory RagStores
  imports Documents Language Json Float64
begin

text \<open>
  The RAG stores, their chunks and the vectors of these: creating and changing a store
  (\<open>internal/store/ragstores.go\<close>), swapping the chunks of a document (\<open>vector.go\<close>), the
  indexes a width can have (\<open>vectorindex.go\<close>) and the rebuild of the text index of a language
  (\<open>ftsrebuild.go\<close>). A transaction that takes the row lock of its store is one step; which of
  its statements the server fails is a parameter. The vectors live with their chunk, as the
  tables are tied by a cascade, and the table they are in is their width.
\<close>

section \<open>The tables\<close>

record rag_row =
  rg_id :: int
  rg_name :: bytes
  rg_connection :: int
  rg_chunk_size :: int
  rg_chunk_overlap :: int
  rg_top_k :: int
  rg_search_mode :: bytes
  rg_search_backend :: bytes
  rg_fts_config :: bytes
  rg_rerank :: bool
  rg_rerank_candidates :: int
  rg_rerank_backend :: bytes
  rg_rerank_connection :: "int option"
  rg_max_distance :: f64
  rg_contextual :: bool
  rg_max_documents :: int
  rg_max_bytes :: int
  rg_dims :: nat
  rg_language :: bytes
  rg_applied :: "bytes option"
  rg_cursor :: int

text \<open>
  \<open>sd_made_by\<close> is no column: it records which connection the caller said the vector came from.
\<close>

record 'v stored_chunk =
  sd_id :: int
  sd_document :: int
  sd_store :: int
  sd_index :: int
  sd_content :: bytes
  sd_tokens :: int
  sd_metadata :: json
  sd_embed_text :: "bytes option"
  sd_fts :: "bytes option"
  sd_embedding :: "'v list"
  sd_made_by :: int

record 'v rag_db =
  rd_stores :: "rag_row list"
  rd_documents :: "document list"
  rd_chunks :: "'v stored_chunk list"
  rd_last_chunk :: int

text \<open>A chunk as the ingester hands it over.\<close>

record 'v new_chunk =
  nc_index :: int
  nc_content :: bytes
  nc_tokens :: int
  nc_metadata :: "json option"
  nc_embed_text :: bytes
  nc_embedding :: "'v list"

definition find_rag :: "'v rag_db \<Rightarrow> int \<Rightarrow> rag_row option" where
  "find_rag db i = find (\<lambda>r. rg_id r = i) (rd_stores db)"

definition chunks_of :: "'v rag_db \<Rightarrow> int \<Rightarrow> 'v stored_chunk list" where
  "chunks_of db i = filter (\<lambda>c. sd_store c = i) (rd_chunks db)"

definition change_rag :: "int \<Rightarrow> (rag_row \<Rightarrow> rag_row) \<Rightarrow> 'v rag_db \<Rightarrow> 'v rag_db" where
  "change_rag i f db = db\<lparr>rd_stores := update_where (\<lambda>r. rg_id r = i) f (rd_stores db)\<rparr>"

section \<open>Which widths have an index\<close>

definition maxVectorDims where "maxVectorDims = (16000::nat)"
definition MaxIndexedVectorDims where "MaxIndexedVectorDims = (2000::nat)"
definition MaxHalfvecIndexedDims where "MaxHalfvecIndexedDims = (4000::nat)"

record halfvec_catalog =
  hc_table :: bool
  hc_index :: bool
  hc_valid :: bool
  hc_in_progress :: bool
  hc_percent :: int
  hc_locked :: bool

datatype halfvec_state = HalfvecNoTable | HalfvecAbsent | HalfvecValid | HalfvecBuilding | HalfvecBroken

definition halfvec_state :: "halfvec_catalog \<Rightarrow> halfvec_state" where
  "halfvec_state c =
     (if \<not> hc_table c then HalfvecNoTable
      else if hc_index c \<and> hc_valid c then HalfvecValid
      else if hc_in_progress c \<or> hc_locked c then HalfvecBuilding
      else if hc_index c then HalfvecBroken
      else HalfvecAbsent)"

definition halfvec_indexable :: "bool \<Rightarrow> nat \<Rightarrow> bool" where
  "halfvec_indexable halfvec dims \<longleftrightarrow> dims > MaxIndexedVectorDims \<and> dims \<le> MaxHalfvecIndexedDims \<and> halfvec"

datatype write_error =
    NoChunks | NoEmbeddings | MixedWidths | StoreGone store_error | ConnectionChanged | WidthMismatch
  | WidthUnsupported | IndexMissing | WidthOutOfRange | NoTextConfig | ClaimGone | StatementFailed
  | InvalidLanguage language_error | HasChunks

definition check_vector_width :: "nat \<Rightarrow> write_error option" where
  "check_vector_width dims = (if dims > MaxHalfvecIndexedDims then Some WidthUnsupported else None)"

definition check_server_width :: "bool \<Rightarrow> nat \<Rightarrow> write_error option" where
  "check_server_width halfvec dims =
     (case check_vector_width dims of
        Some e \<Rightarrow> Some e
      | None \<Rightarrow> if dims > MaxIndexedVectorDims \<and> \<not> halfvec then Some WidthUnsupported else None)"

definition orphan_table :: "'v rag_db \<Rightarrow> nat \<Rightarrow> bool" where
  "orphan_table db dims \<longleftrightarrow>
     \<not> list_ex (\<lambda>c. length (sd_embedding c) = dims) (rd_chunks db) \<and> \<not> list_ex (\<lambda>r. rg_dims r = dims) (rd_stores db)"

text \<open>\<open>catalog\<close> is what the catalog says of the table of a width, \<open>None\<close> when the read fails.\<close>

definition check_bindable :: "bool \<Rightarrow> (nat \<Rightarrow> halfvec_catalog option) \<Rightarrow> 'v rag_db \<Rightarrow> nat \<Rightarrow> write_error option" where
  "check_bindable halfvec catalog db dims =
     (case check_server_width halfvec dims of
        Some e \<Rightarrow> Some e
      | None \<Rightarrow>
          (if \<not> halfvec_indexable halfvec dims then None
           else
             (case catalog dims of
                None \<Rightarrow> Some StatementFailed
              | Some c \<Rightarrow>
                  (case halfvec_state c of
                     HalfvecNoTable \<Rightarrow> None
                   | HalfvecValid \<Rightarrow> None
                   | HalfvecAbsent \<Rightarrow> if orphan_table db dims then None else Some IndexMissing
                   | HalfvecBuilding \<Rightarrow> Some IndexMissing
                   | HalfvecBroken \<Rightarrow> Some IndexMissing))))"

datatype index_state =
    IndexUnbound | IndexHnsw | IndexHalfvec | IndexBuilding int | IndexNone | IndexImpossible

definition vector_index :: "bool \<Rightarrow> (nat \<Rightarrow> halfvec_catalog option) \<Rightarrow> nat \<Rightarrow> index_state option" where
  "vector_index halfvec catalog dims =
     (if dims < 1 then Some IndexUnbound
      else if dims \<le> MaxIndexedVectorDims then Some IndexHnsw
      else if \<not> halfvec_indexable halfvec dims then Some IndexImpossible
      else
        (case catalog dims of
           None \<Rightarrow> None
         | Some c \<Rightarrow>
             (if halfvec_state c = HalfvecValid then Some IndexHalfvec
              else if halfvec_state c = HalfvecBuilding then Some (IndexBuilding (hc_percent c))
              else Some IndexNone)))"

section \<open>Swapping the chunks of a document\<close>

text \<open>Width 0 is a store that is not bound yet; connection 0 skips the test of the connection.\<close>

definition check_store_binding :: "int \<Rightarrow> nat \<Rightarrow> int \<Rightarrow> nat \<Rightarrow> write_error option" where
  "check_store_binding store_conn store_dims want_conn dims =
     (if want_conn \<noteq> 0 \<and> store_conn \<noteq> want_conn then Some ConnectionChanged
      else if store_dims = 0 then check_vector_width dims
      else if store_dims \<noteq> dims then Some WidthMismatch
      else None)"

datatype write_call = ReadStore | EnsureTable | BeginWrite | LockStore | BindStore | DeleteChunks | InsertChunk | InsertVector
  | WriteRow | CommitWrite

record write_env =
  we_halfvec :: bool
  we_catalog :: "nat \<Rightarrow> halfvec_catalog option"
  we_fails :: "write_call \<Rightarrow> bool"
  we_now :: time

definition may_bind :: "write_env \<Rightarrow> 'v rag_db \<Rightarrow> rag_row \<Rightarrow> int \<Rightarrow> nat \<Rightarrow> write_error option" where
  "may_bind e db r conn dims =
     (case check_store_binding (rg_connection r) (rg_dims r) conn dims of
        Some x \<Rightarrow> Some x
      | None \<Rightarrow> if rg_dims r = 0 then check_bindable (we_halfvec e) (we_catalog e) db dims else None)"

text \<open>The tests before the transaction, on the database as it is then.\<close>

definition pre_check :: "write_env \<Rightarrow> 'v rag_db \<Rightarrow> int \<Rightarrow> int \<Rightarrow> 'v new_chunk list \<Rightarrow> write_error option" where
  "pre_check e db rag conn chunks =
     (case chunks of
        [] \<Rightarrow> Some NoChunks
      | c # _ \<Rightarrow>
          (let dims = length (nc_embedding c) in
           if dims = 0 then Some NoEmbeddings
           else if list_ex (\<lambda>c. length (nc_embedding c) \<noteq> dims) chunks then Some MixedWidths
           else if we_fails e ReadStore then Some (StoreGone StoreFailure)
           else
             (case find_rag db rag of
                None \<Rightarrow> Some (StoreGone NotFound)
              | Some r \<Rightarrow>
                  (case may_bind e db r conn dims of
                     Some x \<Rightarrow> Some x
                   | None \<Rightarrow>
                       (if dims > maxVectorDims then Some WidthOutOfRange
                        else if we_fails e EnsureTable then Some StatementFailed
                        else None)))))"

definition chunk_stored :: "int \<Rightarrow> int \<Rightarrow> int \<Rightarrow> bytes option \<Rightarrow> int \<times> 'v new_chunk \<Rightarrow> 'v stored_chunk" where
  "chunk_stored doc rag conn fts =
     (\<lambda>(i, c). \<lparr>sd_id = i, sd_document = doc, sd_store = rag, sd_index = nc_index c, sd_content = nc_content c,
        sd_tokens = nc_tokens c, sd_metadata = (case nc_metadata c of Some j \<Rightarrow> j | None \<Rightarrow> JObj []),
        sd_embed_text = (if nc_embed_text c = [] then None else Some (nc_embed_text c)), sd_fts = fts,
        sd_embedding = nc_embedding c, sd_made_by = conn\<rparr>)"

definition swap_chunks :: "int \<Rightarrow> int \<Rightarrow> int \<Rightarrow> bytes option \<Rightarrow> 'v new_chunk list \<Rightarrow> 'v rag_db \<Rightarrow> 'v rag_db" where
  "swap_chunks doc rag conn fts chunks db =
     db\<lparr>rd_chunks := filter (\<lambda>c. sd_document c \<noteq> doc) (rd_chunks db)
          @ map (chunk_stored doc rag conn fts) (zip (map (\<lambda>k. rd_last_chunk db + int k) [1..<length chunks + 1]) chunks),
        rd_last_chunk := rd_last_chunk db + int (length chunks)\<rparr>"

text \<open>
  The transaction. Every early return rolls it back; the sequence of chunk identifiers, which a
  rollback does not turn back, matters only in that it grows.
\<close>

definition swap_transaction ::
  "write_env \<Rightarrow> int \<Rightarrow> int \<Rightarrow> int \<Rightarrow> 'v new_chunk list \<Rightarrow> nat \<Rightarrow> bytes \<Rightarrow> 'v rag_db \<Rightarrow> write_error option \<times> 'v rag_db" where
  "swap_transaction e doc rag conn chunks dims owner db =
     (if we_fails e BeginWrite \<or> we_fails e LockStore then (Some StatementFailed, db)
      else
        (case find_rag db rag of
           None \<Rightarrow> (Some (StoreGone NotFound), db)
         | Some r \<Rightarrow>
             (case language_config (rg_language r) of
                None \<Rightarrow> (Some NoTextConfig, db)
              | Some cfg \<Rightarrow>
                  (case may_bind e db r conn dims of
                     Some x \<Rightarrow> (Some x, db)
                   | None \<Rightarrow>
                       (let fts = (if rg_language r = LanguageSimple then None else Some cfg);
                            bound = (if rg_dims r = 0 then change_rag rag (\<lambda>r. r\<lparr>rg_dims := dims\<rparr>) db else db);
                            swapped = swap_chunks doc rag conn fts chunks bound;
                            (lost, docs) = mark_ready (we_now e) doc (int (length chunks)) owner (rd_documents db) in
                        if rg_dims r = 0 \<and> we_fails e BindStore \<or> we_fails e DeleteChunks \<or> we_fails e InsertChunk
                           \<or> find_document (rd_documents db) doc = None
                           \<or> we_fails e InsertVector \<or> we_fails e WriteRow then (Some StatementFailed, db)
                        else if lost \<noteq> None then (Some ClaimGone, db)
                        else if we_fails e CommitWrite then (Some StatementFailed, db)
                        else (None, swapped\<lparr>rd_documents := docs\<rparr>))))))"

text \<open>\<open>before\<close> is the database at the time of the tests, \<open>db\<close> at the time of the transaction.\<close>

definition replace_document_chunks_from ::
  "write_env \<Rightarrow> 'v rag_db \<Rightarrow> int \<Rightarrow> int \<Rightarrow> int \<Rightarrow> 'v new_chunk list \<Rightarrow> bytes \<Rightarrow> 'v rag_db \<Rightarrow> write_error option \<times> 'v rag_db" where
  "replace_document_chunks_from e before doc rag conn chunks owner db =
     (case pre_check e before rag conn chunks of
        Some x \<Rightarrow> (Some x, db)
      | None \<Rightarrow> swap_transaction e doc rag conn chunks (length (nc_embedding (hd chunks))) owner db)"

section \<open>Creating and changing a store\<close>

definition apply_rag_defaults :: "rag_row \<Rightarrow> rag_row" where
  "apply_rag_defaults r =
     r\<lparr>rg_search_mode := (if rg_search_mode r = [] then SearchHybrid else rg_search_mode r),
       rg_search_backend := (if rg_search_backend r = [] then BackendPgvector else rg_search_backend r),
       rg_rerank_backend := (if rg_rerank_backend r = [] then ''llm'' else rg_rerank_backend r),
       rg_rerank_candidates := (if rg_rerank_candidates r \<le> 0 then 15 else rg_rerank_candidates r)\<rparr>"

definition config_name :: "bytes \<Rightarrow> bytes" where
  "config_name language = (case language_config language of Some cfg \<Rightarrow> cfg | None \<Rightarrow> [])"

text \<open>\<open>resolved\<close> is what \<open>resolve_language\<close> answers; \<open>single\<close> rounds to the width of the column.\<close>

definition create_rag_store ::
  "(f64 \<Rightarrow> f64) \<Rightarrow> language_error + bytes option \<Rightarrow> int \<Rightarrow> rag_row \<Rightarrow> 'v rag_db \<Rightarrow> write_error option \<times> 'v rag_db" where
  "create_rag_store single resolved i r db =
     (case resolved of
        Inl x \<Rightarrow> (Some (InvalidLanguage x), db)
      | Inr wanted \<Rightarrow>
          (let r = apply_rag_defaults r;
               lang = (case wanted of Some l \<Rightarrow> l | None \<Rightarrow> LanguageSimple);
               row = r\<lparr>rg_id := i, rg_fts_config := config_name lang, rg_max_distance := single (rg_max_distance r),
                       rg_dims := 0, rg_language := lang,
                       rg_applied := (if lang = LanguageSimple then None else Some lang), rg_cursor := 0\<rparr> in
           (None, db\<lparr>rd_stores := rd_stores db @ [row]\<rparr>)))"

definition next_language :: "'v rag_db \<Rightarrow> rag_row \<Rightarrow> bytes option \<Rightarrow> bytes \<times> bytes option \<times> int" where
  "next_language db cur wanted =
     (case wanted of
        Some l \<Rightarrow>
          (if l \<noteq> rg_language cur
           then (l, if l \<noteq> LanguageSimple \<and> chunks_of db (rg_id cur) = [] then Some l else None, 0)
           else (rg_language cur, rg_applied cur, rg_cursor cur))
      | None \<Rightarrow> (rg_language cur, rg_applied cur, rg_cursor cur))"

definition update_rag_store ::
  "(f64 \<Rightarrow> f64) \<Rightarrow> language_error + bytes option \<Rightarrow> bool \<Rightarrow> rag_row \<Rightarrow> 'v rag_db \<Rightarrow> write_error option \<times> 'v rag_db" where
  "update_rag_store single resolved explicit r db =
     (case resolved of
        Inl x \<Rightarrow> (Some (InvalidLanguage x), db)
      | Inr wanted \<Rightarrow>
          (case find_rag db (rg_id r) of
             None \<Rightarrow> (Some (StoreGone NotFound), db)
           | Some cur \<Rightarrow>
               (let (lang, applied, cursor) = next_language db cur wanted;
                    cfg = (if lang \<noteq> rg_language cur \<or> wanted \<noteq> None \<and> explicit then config_name lang else rg_fts_config cur);
                    conn_changed = (rg_connection cur \<noteq> rg_connection r) in
                if conn_changed \<and> chunks_of db (rg_id r) \<noteq> [] then (Some HasChunks, db)
                else
                  (let r = apply_rag_defaults r in
                   (None, change_rag (rg_id r)
                      (\<lambda>_. r\<lparr>rg_fts_config := cfg, rg_max_distance := single (rg_max_distance r),
                             rg_dims := (if conn_changed then 0 else rg_dims cur),
                             rg_language := lang, rg_applied := applied, rg_cursor := cursor\<rparr>) db)))))"

definition delete_rag_store :: "int \<Rightarrow> 'v rag_db \<Rightarrow> store_error option \<times> 'v rag_db" where
  "delete_rag_store i db =
     (if find_rag db i = None then (Some NotFound, db)
      else (None, db\<lparr>rd_stores := filter (\<lambda>r. rg_id r \<noteq> i) (rd_stores db),
                     rd_documents := filter (\<lambda>d. d_store d \<noteq> i) (rd_documents db),
                     rd_chunks := filter (\<lambda>c. sd_store c \<noteq> i) (rd_chunks db)\<rparr>))"

text \<open>A deleted document takes its chunks along.\<close>

definition remove_document :: "int \<Rightarrow> 'v rag_db \<Rightarrow> store_error option \<times> 'v rag_db" where
  "remove_document i db =
     (case delete_document i (rd_documents db) of
        (Some x, _) \<Rightarrow> (Some x, db)
      | (None, docs) \<Rightarrow>
          (None, db\<lparr>rd_documents := docs, rd_chunks := filter (\<lambda>c. sd_document c \<noteq> i) (rd_chunks db)\<rparr>))"

definition store_usage :: "'v rag_db \<Rightarrow> int \<Rightarrow> nat \<times> int" where
  "store_usage db i =
     (let docs = filter (\<lambda>d. d_store d = i) (rd_documents db) in
      (length docs, sum_list (map d_size docs)))"

section \<open>Rebuilding the text index\<close>

definition DefaultFTSRebuildBatch where "DefaultFTSRebuildBatch = (5000::nat)"

record rebuild_result =
  rb_rows :: nat
  rb_done :: bool
  rb_busy :: bool

definition stores_needing_rebuild :: "'v rag_db \<Rightarrow> int list" where
  "stores_needing_rebuild db =
     sort (map rg_id (filter (\<lambda>r. rg_language r \<noteq> LanguageSimple \<and> rg_applied r \<noteq> Some (rg_language r)) (rd_stores db)))"

definition rebuild_batch_ids :: "'v rag_db \<Rightarrow> rag_row \<Rightarrow> nat \<Rightarrow> int list" where
  "rebuild_batch_ids db r n =
     take n (sort (map sd_id (filter (\<lambda>c. sd_id c > rg_cursor r) (chunks_of db (rg_id r)))))"

text \<open>The statements that write: a batch shorter than \<open>n\<close> is the last one.\<close>

definition index_batch :: "nat \<Rightarrow> rag_row \<Rightarrow> bytes \<Rightarrow> 'v rag_db \<Rightarrow> rebuild_result \<times> 'v rag_db" where
  "index_batch n r cfg db =
     (let i = rg_id r; ids = rebuild_batch_ids db r n; max_id = (if ids = [] then 0 else last ids); finished = length ids < n in
      (\<lparr>rb_rows = length ids, rb_done = finished, rb_busy = False\<rparr>,
       change_rag i
         (\<lambda>r. if finished then r\<lparr>rg_applied := Some (rg_language r), rg_cursor := max (rg_cursor r) max_id\<rparr>
              else r\<lparr>rg_cursor := max_id\<rparr>)
         (db\<lparr>rd_chunks := update_where (\<lambda>c. sd_store c = i \<and> sd_id c \<in> set ids) (\<lambda>c. c\<lparr>sd_fts := Some cfg\<rparr>) (rd_chunks db)\<rparr>)))"

text \<open>\<open>busy\<close>: another transaction holds the advisory lock of the store.\<close>

definition rebuild_fts_batch :: "bool \<Rightarrow> int \<Rightarrow> int \<Rightarrow> 'v rag_db \<Rightarrow> (write_error + rebuild_result) \<times> 'v rag_db" where
  "rebuild_fts_batch busy i n db =
     (let n = (if n \<le> 0 then DefaultFTSRebuildBatch else nat n) in
      if busy then (Inr \<lparr>rb_rows = 0, rb_done = False, rb_busy = True\<rparr>, db)
      else
        (case find_rag db i of
           None \<Rightarrow> (Inr \<lparr>rb_rows = 0, rb_done = True, rb_busy = False\<rparr>, db)
         | Some r \<Rightarrow>
             (if rg_language r = LanguageSimple \<or> rg_applied r = Some (rg_language r)
              then (Inr \<lparr>rb_rows = 0, rb_done = True, rb_busy = False\<rparr>, db)
              else
                (case language_config (rg_language r) of
                   None \<Rightarrow> (Inl NoTextConfig, db)
                 | Some cfg \<Rightarrow> (case index_batch n r cfg db of (res, written) \<Rightarrow> (Inr res, written))))))"

section \<open>What every history keeps\<close>

text \<open>
  A history: stores are created and changed by callers whose language is resolved, documents come
  and go, ingesters swap chunks they embedded with a connection, and rebuilds run.
\<close>

inductive rag_step :: "'v rag_db \<Rightarrow> 'v rag_db \<Rightarrow> bool" where
  create: "i \<notin> rg_id ` set (rd_stores db) \<Longrightarrow>
     rag_step db (snd (create_rag_store single (resolve_language to_lower server language cfg) i r db))"
| update: "rag_step db (snd (update_rag_store single (resolve_language to_lower server language cfg) explicit r db))"
| delete: "rag_step db (snd (delete_rag_store i db))"
| documents: "rag_step db (db\<lparr>rd_documents := docs\<rparr>)"
| remove: "rag_step db (snd (remove_document i db))"
| swap: "conn \<noteq> 0 \<Longrightarrow> rag_step db (snd (replace_document_chunks_from e before doc rag conn chunks owner db))"
| rebuild: "rag_step db (snd (rebuild_fts_batch busy i n db))"

definition empty_db :: "'v rag_db" where
  "empty_db = \<lparr>rd_stores = [], rd_documents = [], rd_chunks = [], rd_last_chunk = 0\<rparr>"

inductive rag_reach :: "'v rag_db \<Rightarrow> bool" where
  nothing: "rag_reach empty_db"
| further: "rag_reach db \<Longrightarrow> rag_step db db' \<Longrightarrow> rag_reach db'"

definition chunk_ok :: "rag_row \<Rightarrow> int \<Rightarrow> 'v stored_chunk \<Rightarrow> bool" where
  "chunk_ok r top_id c \<longleftrightarrow>
     sd_embedding c \<noteq> [] \<and> length (sd_embedding c) = rg_dims r \<and> sd_made_by c = rg_connection r
     \<and> 0 < sd_id c \<and> sd_id c \<le> top_id
     \<and> (rg_language r = LanguageSimple \<or> rg_applied r \<noteq> Some (rg_language r) \<and> rg_cursor r < sd_id c
        \<or> sd_fts c = language_config (rg_language r))"

definition rag_ok :: "'v rag_db \<Rightarrow> rag_row \<Rightarrow> bool" where
  "rag_ok db r \<longleftrightarrow>
     rg_language r \<in> set language_codes \<and> 0 \<le> rg_cursor r \<and> rg_cursor r \<le> rd_last_chunk db
     \<and> (\<forall>c \<in> set (rd_chunks db). sd_store c = rg_id r \<longrightarrow> chunk_ok r (rd_last_chunk db) c)"

definition db_ok :: "'v rag_db \<Rightarrow> bool" where
  "db_ok db \<longleftrightarrow> distinct (map rg_id (rd_stores db)) \<and> 0 \<le> rd_last_chunk db
     \<and> (\<forall>c \<in> set (rd_chunks db). sd_store c \<in> rg_id ` set (rd_stores db))
     \<and> (\<forall>r \<in> set (rd_stores db). rag_ok db r)"

lemma resolved_code:
  assumes "resolve_language to_lower server language cfg = Inr (Some l)"
  shows "l \<in> set language_codes"
proof -
  have codes: "language_for_config cfg = Some m \<Longrightarrow> m \<in> set language_codes" "LanguageSimple \<in> set language_codes" for cfg m
    by (force simp: language_for_config_Some language_codes_def)+
  have "checked_language server m = Inr (Some l) \<Longrightarrow> m \<noteq> [] \<Longrightarrow> l \<in> set language_codes" for m
    using checked_language_Inr [of server m "Some l"] checked_language_supported [of m server "Some l"] by simp
  then show ?thesis
    using codes assms by (fastforce simp: resolve_language_def Let_def dest: checked_language_Inr split: if_splits option.splits)
qed

lemma defaults_keep_id [simp]: "rg_id (apply_rag_defaults r) = rg_id r"
  by (simp add: apply_rag_defaults_def)

lemma simple_is_code: "LanguageSimple \<in> set language_codes"
  by (simp add: language_codes_def)

lemma code_has_config: "l \<in> set language_codes \<Longrightarrow> \<exists>cfg. language_config l = Some cfg"
  by (fastforce simp: language_codes_def language_config_Some)

lemma find_rag_Some: "find_rag db i = Some r \<Longrightarrow> r \<in> set (rd_stores db) \<and> rg_id r = i"
  by (auto simp: find_rag_def find_Some_iff)

lemma find_rag_None: "find_rag db i = None \<longleftrightarrow> i \<notin> rg_id ` set (rd_stores db)"
  by (auto simp: find_rag_def find_None_iff)

lemma only_row:
  assumes "db_ok db" "find_rag db i = Some r" "s \<in> set (rd_stores db)" "rg_id s = i"
  shows "s = r"
  using assms find_rag_Some [OF assms(2)] unfolding db_ok_def distinct_map by (auto dest: inj_onD)

text \<open>A row changes on its own, its chunks and the last identifier with it.\<close>

lemma change_keeps_ok:
  assumes ok: "db_ok db" and r: "find_rag db i = Some r" and f: "rg_id (f r) = i"
    and top_id: "rd_last_chunk db \<le> top_id" and row: "rag_ok (db\<lparr>rd_chunks := cs, rd_last_chunk := top_id\<rparr>) (f r)"
    and others: "\<And>c. c \<in> set cs \<Longrightarrow> sd_store c \<noteq> i \<Longrightarrow> c \<in> set (rd_chunks db)"
  shows "db_ok ((change_rag i f db)\<lparr>rd_chunks := cs, rd_last_chunk := top_id\<rparr>)"
proof -
  let ?db = "(change_rag i f db)\<lparr>rd_chunks := cs, rd_last_chunk := top_id\<rparr>"
  have rows: "set (rd_stores ?db) = {s \<in> set (rd_stores db). rg_id s \<noteq> i} \<union> {f r}"
    using only_row [OF ok r] find_rag_Some [OF r] by (auto simp: change_rag_def)
  have "map rg_id (update_where (\<lambda>r. rg_id r = i) f rs) = map rg_id rs" if "\<And>s. s \<in> set rs \<Longrightarrow> rg_id s = i \<Longrightarrow> s = r" for rs
    using that f by (induction rs) auto
  then have ids: "map rg_id (rd_stores ?db) = map rg_id (rd_stores db)"
    using only_row [OF ok r] by (simp add: change_rag_def)
  have other: "rag_ok ?db s" if "s \<in> set (rd_stores db)" "rg_id s \<noteq> i" for s
  proof -
    have "rag_ok db s" using ok that(1) by (simp add: db_ok_def)
    then show ?thesis using that(2) others top_id by (force simp: rag_ok_def chunk_ok_def)
  qed
  have "sd_store c \<in> rg_id ` set (rd_stores db)" if "c \<in> set cs" for c
    using that others ok find_rag_Some [OF r] by (cases "sd_store c = i") (auto simp: db_ok_def intro: image_eqI [of _ _ r])
  moreover have "rg_id ` set (rd_stores ?db) = rg_id ` set (rd_stores db)" using ids by (metis set_map)
  moreover have "rag_ok ?db (f r)" using row by (simp add: rag_ok_def)
  ultimately show ?thesis
    using ok ids top_id other unfolding db_ok_def rows by auto
qed

lemma fewer_chunks_ok:
  assumes "db_ok db" "set cs \<subseteq> set (rd_chunks db)"
  shows "db_ok (db\<lparr>rd_chunks := cs\<rparr>)"
  using assms by (force simp: db_ok_def rag_ok_def)

lemma documents_ok: "db_ok (db\<lparr>rd_documents := docs\<rparr>) = db_ok db"
  by (simp add: db_ok_def rag_ok_def)

lemma create_ok:
  assumes ok: "db_ok db" and i: "i \<notin> rg_id ` set (rd_stores db)"
  shows "db_ok (snd (create_rag_store single (resolve_language to_lower server language cfg) i r db))"
proof (cases "resolve_language to_lower server language cfg")
  case (Inl x)
  then show ?thesis using ok by (simp add: create_rag_store_def)
next
  case (Inr wanted)
  then have "(case wanted of Some l \<Rightarrow> l | None \<Rightarrow> LanguageSimple) \<in> set language_codes"
    using resolved_code simple_is_code by (auto split: option.split)
  moreover have "sd_store c \<noteq> i" if "c \<in> set (rd_chunks db)" for c using ok i that by (auto simp: db_ok_def)
  ultimately show ?thesis
    using Inr ok i by (auto simp: create_rag_store_def Let_def db_ok_def rag_ok_def)
qed

lemma update_ok:
  assumes ok: "db_ok db"
  shows "db_ok (snd (update_rag_store single (resolve_language to_lower server language cfg) explicit r db))"
proof (cases "resolve_language to_lower server language cfg")
  case (Inl x)
  then show ?thesis using ok by (simp add: update_rag_store_def)
next
  case (Inr wanted)
  show ?thesis
  proof (cases "find_rag db (rg_id r)")
    case None
    then show ?thesis using ok Inr by (simp add: update_rag_store_def)
  next
    case (Some cur)
    obtain lang applied cursor where n: "next_language db cur wanted = (lang, applied, cursor)" by (cases "next_language db cur wanted")
    have cur: "cur \<in> set (rd_stores db)" "rg_id cur = rg_id r" "rag_ok db cur"
      using find_rag_Some [OF Some] ok by (auto simp: db_ok_def)
    have lang: "lang \<in> set language_codes"
      using n cur(3) resolved_code [of to_lower server language cfg] Inr
      by (auto simp: next_language_def rag_ok_def split: option.splits if_splits)
    have cursor: "0 \<le> cursor" "cursor \<le> rd_last_chunk db"
      using n cur(3) ok by (auto simp: next_language_def rag_ok_def db_ok_def split: option.splits if_splits)
    show ?thesis
    proof (cases "rg_connection cur \<noteq> rg_connection r \<and> chunks_of db (rg_id r) \<noteq> []")
      case True
      then show ?thesis using ok Inr Some n by (simp add: update_rag_store_def)
    next
      case False
      define row where "row = (apply_rag_defaults r)
        \<lparr>rg_fts_config := (if lang \<noteq> rg_language cur \<or> wanted \<noteq> None \<and> explicit then config_name lang else rg_fts_config cur),
         rg_max_distance := single (rg_max_distance (apply_rag_defaults r)),
         rg_dims := (if rg_connection cur \<noteq> rg_connection r then 0 else rg_dims cur),
         rg_language := lang, rg_applied := applied, rg_cursor := cursor\<rparr>"
      have row: "rg_id row = rg_id r" "rg_language row = lang" "rg_applied row = applied" "rg_cursor row = cursor"
        "rg_connection row = rg_connection r" "rg_dims row = (if rg_connection cur \<noteq> rg_connection r then 0 else rg_dims cur)"
        by (simp_all add: row_def apply_rag_defaults_def)
      have chunk: "chunk_ok row (rd_last_chunk db) c" if c: "c \<in> set (rd_chunks db)" "sd_store c = rg_id r" for c
      proof -
        have some: "chunks_of db (rg_id cur) \<noteq> []" using c cur(2) by (auto simp: chunks_of_def filter_empty_conv)
        then have conn: "rg_connection cur = rg_connection r" using False cur(2) by simp
        have "chunk_ok cur (rd_last_chunk db) c" using cur(2,3) c by (simp add: rag_ok_def)
        then show ?thesis
          using n some conn unfolding chunk_ok_def row
          by (auto simp: next_language_def split: option.splits if_splits)
      qed
      have "db_ok ((change_rag (rg_id r) (\<lambda>_. row) db)\<lparr>rd_chunks := rd_chunks db, rd_last_chunk := rd_last_chunk db\<rparr>)"
        using chunk lang cursor row by (intro change_keeps_ok [OF ok Some]) (auto simp: rag_ok_def)
      moreover have "(change_rag (rg_id r) (\<lambda>_. row) db)\<lparr>rd_chunks := rd_chunks db, rd_last_chunk := rd_last_chunk db\<rparr>
          = change_rag (rg_id r) (\<lambda>_. row) db"
        by (simp add: change_rag_def)
      moreover have "snd (update_rag_store single (Inr wanted) explicit r db) = change_rag (rg_id r) (\<lambda>_. row) db"
        using Some n False unfolding row_def by (auto simp: update_rag_store_def Let_def)
      ultimately show ?thesis using Inr by simp
    qed
  qed
qed


lemma swapped_chunk:
  assumes "c \<in> set (rd_chunks (swap_chunks doc rag conn fts chunks db))" "c \<notin> set (rd_chunks db)"
  obtains k n where "1 \<le> k" "k \<le> length chunks" "n \<in> set chunks"
    "c = chunk_stored doc rag conn fts (rd_last_chunk db + int k, n)"
proof -
  from assms obtain p where p: "p \<in> set (zip (map (\<lambda>k. rd_last_chunk db + int k) [1..<length chunks + 1]) chunks)"
    "c = chunk_stored doc rag conn fts p"
    by (auto simp: swap_chunks_def simp del: upt_Suc)
  obtain i n where i: "p = (i, n)" by (cases p)
  have "i \<in> set (map (\<lambda>k. rd_last_chunk db + int k) [1..<length chunks + 1])" "n \<in> set chunks"
    using p(1) set_zip_leftD set_zip_rightD unfolding i by metis+
  then show thesis using that p(2) i by auto
qed

lemma swap_of_changed: "rd_chunks (swap_chunks doc rag conn fts chunks (change_rag i f db)) = rd_chunks (swap_chunks doc rag conn fts chunks db)"
  by (simp add: swap_chunks_def change_rag_def)

lemma swap_ok:
  assumes ok: "db_ok db" and conn: "conn \<noteq> 0"
  shows "db_ok (snd (replace_document_chunks_from e before doc rag conn chunks owner db))"
proof -
  let ?dims = "length (nc_embedding (hd chunks))"
  obtain x db' where t: "swap_transaction e doc rag conn chunks ?dims owner db = (x, db')"
    by (cases "swap_transaction e doc rag conn chunks ?dims owner db")
  show ?thesis
  proof (cases "pre_check e before rag conn chunks = None \<and> x = None")
    case False
    have "x \<noteq> None \<Longrightarrow> db' = db"
      using t by (auto simp: swap_transaction_def Let_def split: if_splits option.splits prod.splits)
    then show ?thesis using ok False t by (auto simp: replace_document_chunks_from_def split: option.split)
  next
    case True
    have width: "?dims \<noteq> 0" "\<forall>c \<in> set chunks. length (nc_embedding c) = ?dims"
      using True by (auto simp: pre_check_def Let_def list_ex_iff split: list.splits if_splits)
    from True t obtain r cfg docs where r: "find_rag db rag = Some r" "language_config (rg_language r) = Some cfg"
      "may_bind e db r conn ?dims = None"
      and db': "db' = (swap_chunks doc rag conn (if rg_language r = LanguageSimple then None else Some cfg) chunks
          (if rg_dims r = 0 then change_rag rag (\<lambda>r. r\<lparr>rg_dims := ?dims\<rparr>) db else db))\<lparr>rd_documents := docs\<rparr>"
      by (auto simp: swap_transaction_def Let_def split: if_splits option.splits prod.splits)
    define row where "row = (\<lambda>r :: rag_row. if rg_dims r = 0 then r\<lparr>rg_dims := ?dims\<rparr> else r)"
    define cs where "cs = rd_chunks db'"
    define top_id where "top_id = rd_last_chunk db + int (length chunks)"
    define fts where "fts = (if rg_language r = LanguageSimple then None else Some cfg)"
    have cs: "cs = rd_chunks (swap_chunks doc rag conn fts chunks db)"
      by (simp add: cs_def db' swap_of_changed flip: fts_def)
    have r_row: "r \<in> set (rd_stores db)" "rg_id r = rag" "rag_ok db r" using find_rag_Some [OF r(1)] ok by (auto simp: db_ok_def)
    have bound: "rg_connection r = conn" "rg_dims (row r) = ?dims"
      using r(3) conn by (auto simp: may_bind_def check_store_binding_def row_def split: if_splits option.splits)
    have new: "c \<in> set cs \<Longrightarrow> c \<notin> set (rd_chunks db) \<Longrightarrow> sd_store c = rag \<and> chunk_ok (row r) top_id c" for c
    proof -
      assume "c \<in> set cs" "c \<notin> set (rd_chunks db)"
      then obtain k n where "1 \<le> k" "k \<le> length chunks" "n \<in> set chunks"
        "c = chunk_stored doc rag conn fts (rd_last_chunk db + int k, n)"
        unfolding cs by (rule swapped_chunk)
      then show ?thesis
        using width bound r(2) ok
        by (auto simp: chunk_ok_def chunk_stored_def top_id_def db_ok_def row_def fts_def split: if_splits)
    qed
    have old: "c \<in> set (rd_chunks db) \<Longrightarrow> sd_store c = rag \<Longrightarrow> chunk_ok (row r) top_id c" for c
      using r_row by (auto simp: rag_ok_def chunk_ok_def row_def top_id_def)
    have "db_ok ((change_rag rag row db)\<lparr>rd_chunks := cs, rd_last_chunk := top_id\<rparr>)"
    proof (rule change_keeps_ok [OF ok r(1)])
      show "rg_id (row r) = rag" using r_row by (simp add: row_def)
      show "rd_last_chunk db \<le> top_id" by (simp add: top_id_def)
      show "rag_ok (db\<lparr>rd_chunks := cs, rd_last_chunk := top_id\<rparr>) (row r)"
      proof -
        have "chunk_ok (row r) top_id c" if "c \<in> set cs" "sd_store c = rag" for c using old new that by blast
        moreover have "rg_id (row r) = rag" "rg_language (row r) = rg_language r" "rg_cursor (row r) = rg_cursor r"
          using r_row by (simp_all add: row_def)
        moreover have "rg_cursor r \<le> top_id" using r_row by (simp add: rag_ok_def top_id_def)
        ultimately show ?thesis using r_row by (simp add: rag_ok_def)
      qed
      show "c \<in> set (rd_chunks db)" if "c \<in> set cs" "sd_store c \<noteq> rag" for c using that new by blast
    qed
    moreover have "db' = (change_rag rag row db)\<lparr>rd_chunks := cs, rd_last_chunk := top_id, rd_documents := docs\<rparr>"
    proof -
      have "update_where (\<lambda>s. rg_id s = rag) row (rd_stores db)
          = (if rg_dims r = 0 then update_where (\<lambda>s. rg_id s = rag) (\<lambda>r. r\<lparr>rg_dims := ?dims\<rparr>) (rd_stores db) else rd_stores db)"
      proof (cases "rg_dims r = 0")
        case True
        then show ?thesis using only_row [OF ok r(1)] by (auto simp: update_where_def row_def)
      next
        case False
        then show ?thesis using only_row [OF ok r(1)] unfolding update_where_def by (auto simp: row_def intro!: map_idI)
      qed
      then show ?thesis
        unfolding cs_def db' top_id_def by (simp add: swap_chunks_def change_rag_def)
    qed
    ultimately have "db_ok db'" by (simp add: documents_ok)
    then show ?thesis using True t by (simp add: replace_document_chunks_from_def)
  qed
qed

lemma take_sorted_below:
  assumes "sorted xs" "x \<in> set xs" "x \<le> last (take n xs)" "n > 0"
  shows "x \<in> set (take n xs)"
proof -
  have split: "xs = take n xs @ drop n xs" by simp
  have ne: "take n xs \<noteq> []" using assms(2,4) by auto
  show ?thesis
  proof (cases "x \<in> set (drop n xs)")
    case True
    moreover have "\<forall>a \<in> set (take n xs). \<forall>b \<in> set (drop n xs). a \<le> b"
      using assms(1) split by (metis sorted_append)
    ultimately have "last (take n xs) \<le> x" using ne by auto
    then show ?thesis using assms(3) ne by (metis last_in_set order_antisym)
  next
    case False
    then show ?thesis using assms(2) split by (metis UnE set_append)
  qed
qed

lemma rebuild_ok:
  assumes ok: "db_ok db"
  shows "db_ok (snd (rebuild_fts_batch busy i n db))"
proof (cases "busy \<or> find_rag db i = None")
  case True
  then show ?thesis using ok by (auto simp: rebuild_fts_batch_def Let_def split: option.split)
next
  case False
  then obtain r where r: "find_rag db i = Some r" by auto
  have r_row: "r \<in> set (rd_stores db)" "rg_id r = i" "rag_ok db r" using find_rag_Some [OF r] ok by (auto simp: db_ok_def)
  obtain cfg where cfg: "language_config (rg_language r) = Some cfg"
    using code_has_config r_row(3) by (auto simp: rag_ok_def)
  define lim where "lim = (if n \<le> 0 then DefaultFTSRebuildBatch else nat n)"
  have lim: "lim > 0" by (simp add: lim_def DefaultFTSRebuildBatch_def)
  show ?thesis
  proof (cases "rg_language r = LanguageSimple \<or> rg_applied r = Some (rg_language r)")
    case True
    then show ?thesis using ok False r by (simp add: rebuild_fts_batch_def Let_def)
  next
    case todo: False
    define all_ids where "all_ids = sort (map sd_id (filter (\<lambda>c. sd_id c > rg_cursor r) (chunks_of db i)))"
    define ids where "ids = rebuild_batch_ids db r lim"
    have ids: "ids = take lim all_ids" using r_row(2) by (simp add: ids_def all_ids_def rebuild_batch_ids_def)
    define max_id where "max_id = (if ids = [] then 0 else last ids)"
    define finished where "finished = (length ids < lim)"
    define row where "row = (\<lambda>r :: rag_row. if finished then r\<lparr>rg_applied := Some (rg_language r), rg_cursor := max (rg_cursor r) max_id\<rparr>
                                 else r\<lparr>rg_cursor := max_id\<rparr>)"
    define cs where "cs = update_where (\<lambda>c. sd_store c = i \<and> sd_id c \<in> set ids) (\<lambda>c. c\<lparr>sd_fts := Some cfg\<rparr>) (rd_chunks db)"
    have all_below: "x \<le> rd_last_chunk db" if "x \<in> set all_ids" for x
      using that r_row(2,3) by (auto simp: all_ids_def chunks_of_def rag_ok_def chunk_ok_def)
    then have max_id: "max_id \<le> rd_last_chunk db" "0 \<le> max_id"
    proof -
      have "ids \<noteq> [] \<Longrightarrow> last ids \<in> set all_ids" unfolding ids by (meson in_set_takeD last_in_set)
      then show "max_id \<le> rd_last_chunk db" "0 \<le> max_id"
        using all_below ok r_row(3) by (auto simp: max_id_def db_ok_def all_ids_def rag_ok_def)
    qed
    have covered: "sd_id c \<in> set ids"
      if "c \<in> set (rd_chunks db)" "sd_store c = i" "rg_cursor r < sd_id c" "finished \<or> sd_id c \<le> max_id" for c
    proof -
      have mem: "sd_id c \<in> set all_ids" using that by (auto simp: all_ids_def chunks_of_def)
      show ?thesis
      proof (cases finished)
        case True
        then have "ids = all_ids" by (auto simp: finished_def ids)
        then show ?thesis using mem by simp
      next
        case False
        then have "ids \<noteq> []" using lim by (auto simp: finished_def)
        then have "sd_id c \<le> last (take lim all_ids)" using that(4) False by (simp add: max_id_def ids)
        then show ?thesis unfolding ids using mem lim by (intro take_sorted_below) (simp_all add: all_ids_def)
      qed
    qed
    have chunk: "chunk_ok (row r) (rd_last_chunk db) c" if "c \<in> set cs" "sd_store c = i" for c
    proof -
      from that(1) obtain d where e: "d \<in> set (rd_chunks db)"
        "c = (if sd_store d = i \<and> sd_id d \<in> set ids then d\<lparr>sd_fts := Some cfg\<rparr> else d)"
        unfolding cs_def update_where_simps by blast
      then have "sd_store d = i" using that(2) by (simp split: if_splits)
      with e have d: "d \<in> set (rd_chunks db)" "sd_store d = i"
        "c = (if sd_id d \<in> set ids then d\<lparr>sd_fts := Some cfg\<rparr> else d)" by simp_all
      have "chunk_ok r (rd_last_chunk db) d" using r_row(2,3) d by (simp add: rag_ok_def)
      then have d_ok: "sd_embedding d \<noteq> []" "length (sd_embedding d) = rg_dims r" "sd_made_by d = rg_connection r" "0 < sd_id d"
        "sd_id d \<le> rd_last_chunk db" and built: "rg_cursor r < sd_id d \<or> sd_fts d = Some cfg"
        using todo cfg by (auto simp: chunk_ok_def)
      show ?thesis
      proof (cases "sd_id d \<in> set ids")
        case True
        then show ?thesis using d_ok d(3) cfg by (simp add: chunk_ok_def row_def)
      next
        case False
        then have "sd_fts d = Some cfg \<or> \<not> finished \<and> max_id < sd_id d" using built covered [OF d(1,2)] by force
        then show ?thesis using False d_ok d(3) cfg todo by (auto simp: chunk_ok_def row_def)
      qed
    qed
    have "db_ok ((change_rag i row db)\<lparr>rd_chunks := cs, rd_last_chunk := rd_last_chunk db\<rparr>)"
      using r_row max_id chunk
      by (intro change_keeps_ok [OF ok r]) (auto simp: rag_ok_def row_def cs_def split: if_splits)
    moreover have "snd (rebuild_fts_batch busy i n db) = (change_rag i row db)\<lparr>rd_chunks := cs, rd_last_chunk := rd_last_chunk db\<rparr>"
    proof -
      have "\<not> busy" "rg_language r \<noteq> LanguageSimple" "rg_applied r \<noteq> Some (rg_language r)" using False todo by simp_all
      then show ?thesis
        unfolding rebuild_fts_batch_def lim_def [symmetric]
        by (simp only: Let_def r cfg if_False option.case de_Morgan_disj simp_thms index_batch_def r_row(2) prod.case snd_conv
            ids_def [symmetric] max_id_def [symmetric])
          (cases db, simp add: change_rag_def row_def finished_def cs_def)
    qed
    ultimately show ?thesis by simp
  qed
qed

lemma step_ok: "rag_step db db' \<Longrightarrow> db_ok db \<Longrightarrow> db_ok db'"
proof (induction rule: rag_step.induct)
  case (delete db i)
  then show ?case by (force simp: delete_rag_store_def db_ok_def rag_ok_def distinct_map inj_on_def)
next
  case (remove db i)
  then show ?case
    using fewer_chunks_ok [of "db\<lparr>rd_documents := snd (delete_document i (rd_documents db))\<rparr>"
        "filter (\<lambda>c. sd_document c \<noteq> i) (rd_chunks db)"]
    by (auto simp: remove_document_def documents_ok split: prod.split option.split)
qed (simp_all add: create_ok update_ok documents_ok swap_ok rebuild_ok)

lemma reach_ok: "rag_reach db \<Longrightarrow> db_ok db"
proof (induction rule: rag_reach.induct)
  case nothing
  show ?case by (simp add: empty_db_def db_ok_def)
qed (rule step_ok)

section \<open>Properties\<close>

text \<open>C5: Whatever callers, ingesters, rebuilds and deletions do and in whatever order, the vectors of a
  store are all of its width and all from its embedding connection, so a query vector of that
  connection can be compared with each of them.\<close>

theorem store_holds_one_models_vectors:
  assumes "rag_reach db" and "find_rag db i = Some r"
  shows "list_all (\<lambda>c. sd_made_by c = rg_connection r \<and> length (sd_embedding c) = rg_dims r \<and> sd_embedding c \<noteq> []) (chunks_of db i)"
  using reach_ok [OF assms(1)] find_rag_Some [OF assms(2)]
  by (auto simp: db_ok_def rag_ok_def chunk_ok_def chunks_of_def list_all_iff)

text \<open>C6: The column a text search reads was written with the configuration the query is parsed with,
  for every chunk of the store, also while a language changes, is rebuilt and documents come
  in; and where that is not known to be so the search reads the column that is always there.\<close>

theorem search_reads_what_was_indexed:
  assumes "rag_reach db" and "find_rag db i = Some r"
  shows "case lexical_plan (rg_language r) (rg_applied r) of
      (column, cfg) \<Rightarrow>
        (if column = ftsColumn then list_all (\<lambda>c. sd_fts c = Some cfg) (chunks_of db i)
         else column = tsvColumn \<and> cfg = LanguageSimple)"
proof -
  have r: "r \<in> set (rd_stores db)" "rg_id r = i" "rag_ok db r"
    using reach_ok [OF assms(1)] find_rag_Some [OF assms(2)] by (auto simp: db_ok_def)
  have "tsvColumn \<noteq> ftsColumn" by (simp add: tsvColumn_def ftsColumn_def)
  moreover obtain cfg where "language_config (rg_language r) = Some cfg" using r(3) code_has_config by (auto simp: rag_ok_def)
  ultimately show ?thesis
    using r(2,3) by (auto simp: lexical_plan_def rag_ok_def chunk_ok_def chunks_of_def list_all_iff)
qed

definition demo_row :: rag_row where
  "demo_row = \<lparr>rg_id = 1, rg_name = ''docs'', rg_connection = 7, rg_chunk_size = 800, rg_chunk_overlap = 100, rg_top_k = 5,
     rg_search_mode = [], rg_search_backend = [], rg_fts_config = [], rg_rerank = False, rg_rerank_candidates = 0,
     rg_rerank_backend = [], rg_rerank_connection = None, rg_max_distance = Fin 0, rg_contextual = False,
     rg_max_documents = 0, rg_max_bytes = 0, rg_dims = 0, rg_language = [], rg_applied = None, rg_cursor = 0\<rparr>"

definition demo_env :: write_env where
  "demo_env = \<lparr>we_halfvec = True, we_catalog = (\<lambda>_. None), we_fails = (\<lambda>_. False), we_now = 10\<rparr>"

definition demo_chunks :: "int new_chunk list" where
  "demo_chunks = [\<lparr>nc_index = 0, nc_content = ''text'', nc_tokens = 1, nc_metadata = None, nc_embed_text = [], nc_embedding = [1, 2]\<rparr>]"

definition demo_created :: "int rag_db" where
  "demo_created = snd (create_rag_store id (resolve_language id (\<lambda>_. Some True) ''en'' []) 1 demo_row empty_db)"

definition demo_uploaded :: "int rag_db" where
  "demo_uploaded = demo_created\<lparr>rd_documents := create_document id 0 3 1 ''a.txt'' [] 0 [] []\<rparr>"

definition demo_filled :: "int rag_db" where
  "demo_filled = snd (replace_document_chunks_from demo_env demo_uploaded 3 1 7 demo_chunks [] demo_uploaded)"

lemma demo_reached: "rag_reach demo_filled"
proof -
  have "rag_reach demo_created" unfolding demo_created_def
    by (rule rag_reach.further [OF rag_reach.nothing rag_step.create]) (simp add: empty_db_def)
  then have "rag_reach demo_uploaded" unfolding demo_uploaded_def by (rule rag_reach.further [OF _ rag_step.documents])
  then show ?thesis unfolding demo_filled_def by (rule rag_reach.further [OF _ rag_step.swap]) simp
qed

lemma demo_found:
  "case find_rag demo_filled 1 of None \<Rightarrow> False
   | Some r \<Rightarrow> map sd_embedding (chunks_of demo_filled 1) = [[1, 2]] \<and> rg_dims r = 2
       \<and> lexical_plan (rg_language r) (rg_applied r) = (ftsColumn, ''english'')"
  by code_simp

theorem store_holds_one_models_vectors_witness:
  "\<exists>r. find_rag demo_filled 1 = Some r
     \<and> list_all (\<lambda>c. sd_made_by c = rg_connection r \<and> length (sd_embedding c) = rg_dims r \<and> sd_embedding c \<noteq> []) (chunks_of demo_filled 1)
     \<and> chunks_of demo_filled 1 \<noteq> []"
  using store_holds_one_models_vectors [OF demo_reached, of 1] demo_found by (auto split: option.splits)

theorem search_reads_what_was_indexed_witness:
  "list_all (\<lambda>c. sd_fts c = Some ''english'') (chunks_of demo_filled 1) \<and> chunks_of demo_filled 1 \<noteq> []"
  using search_reads_what_was_indexed [OF demo_reached, of 1] demo_found by (auto split: option.splits)

end
