(* ===== verification/Rebuild.thy ===== *)
theory Rebuild
  imports RagStores
begin

text \<open>
  The job that rebuilds the text index of stores whose language changed
  (\<open>internal/maintenance/ftsrebuild.go\<close>). \<open>busy k\<close> says whether another replica holds the lock
  at the \<open>k\<close>-th batch; pauses and the end of the process are left out: a store the job did not
  finish is one it never got to, and the next pass takes it up.
\<close>

text \<open>What is left to rewrite, the bound of the loop.\<close>

definition chunks_left :: "'v rag_db \<Rightarrow> int \<Rightarrow> nat" where
  "chunks_left db i =
     (case find_rag db i of None \<Rightarrow> 0 | Some r \<Rightarrow> length (filter (\<lambda>c. rg_cursor r < sd_id c) (chunks_of db i)))"

lemma find_changed:
  assumes "\<And>r. rg_id (f r) = rg_id r"
  shows "find_rag ((change_rag i f db)\<lparr>rd_chunks := cs\<rparr>) i = map_option f (find_rag db i)"
proof -
  have "find (\<lambda>r. rg_id r = i) (update_where (\<lambda>r. rg_id r = i) f rs) = map_option f (find (\<lambda>r. rg_id r = i) rs)" for rs
    using assms by (induction rs) auto
  then show ?thesis by (simp add: find_rag_def change_rag_def)
qed

lemma batch_cases:
  assumes "rebuild_fts_batch busy i n db = (Inr res, db')"
  obtains (busy) "rb_busy res" "db' = db"
  | (idle) "rb_done res" "db' = db"
      "case find_rag db i of None \<Rightarrow> True | Some r \<Rightarrow> rg_language r = LanguageSimple \<or> rg_applied r = Some (rg_language r)"
  | (wrote) r cfg where "find_rag db i = Some r" "language_config (rg_language r) = Some cfg"
      "index_batch (if n \<le> 0 then DefaultFTSRebuildBatch else nat n) r cfg db = (res, db')"
proof (cases "busy \<or> find_rag db i = None")
  case True
  then show thesis using assms that(1,2) by (auto simp: rebuild_fts_batch_def Let_def split: if_splits)
next
  case False
  then obtain r where r: "find_rag db i = Some r" by auto
  show thesis
  proof (cases "rg_language r = LanguageSimple \<or> rg_applied r = Some (rg_language r)")
    case True
    then have "res = \<lparr>rb_rows = 0, rb_done = True, rb_busy = False\<rparr>" "db' = db"
      using assms False r by (auto simp: rebuild_fts_batch_def Let_def)
    then show thesis using that(2) True r by simp
  next
    case todo: False
    then show thesis
      using assms that(3) [OF r] False r
      by (simp add: rebuild_fts_batch_def Let_def split: option.splits prod.splits)
  qed
qed

text \<open>What a batch leaves of the row and of the chunks beyond a cursor.\<close>

lemma batch_leaves:
  assumes r: "find_rag db i = Some r" and b: "index_batch n r cfg db = (res, db')"
  defines "ids \<equiv> rebuild_batch_ids db r n"
  defines "last_id \<equiv> (if ids = [] then 0 else last ids)"
  shows "find_rag db' i = Some (if rb_done res then r\<lparr>rg_applied := Some (rg_language r), rg_cursor := max (rg_cursor r) last_id\<rparr>
      else r\<lparr>rg_cursor := last_id\<rparr>)" (is ?row)
    and "length (filter (\<lambda>c. x < sd_id c) (chunks_of db' i)) = length (filter (\<lambda>c. x < sd_id c) (chunks_of db i))" (is ?chunks)
    and "rb_done res \<longleftrightarrow> length ids < n"
    and "\<not> rb_busy res"
proof -
  have i: "rg_id r = i" using find_rag_Some [OF r] by simp
  define f where "f = (\<lambda>r :: rag_row. if length ids < n then r\<lparr>rg_applied := Some (rg_language r), rg_cursor := max (rg_cursor r) last_id\<rparr>
      else r\<lparr>rg_cursor := last_id\<rparr>)"
  define written where "written = update_where (\<lambda>c. sd_store c = i \<and> sd_id c \<in> set ids) (\<lambda>c. c\<lparr>sd_fts := Some cfg\<rparr>) (rd_chunks db)"
  have b': "db' = change_rag i f (db\<lparr>rd_chunks := written\<rparr>)" "rb_done res \<longleftrightarrow> length ids < n" "\<not> rb_busy res"
    using b unfolding index_batch_def Let_def i ids_def [symmetric] last_id_def [symmetric] f_def written_def by auto
  then show "rb_done res \<longleftrightarrow> length ids < n" "\<not> rb_busy res" by simp_all
  have "db' = (change_rag i f db)\<lparr>rd_chunks := rd_chunks db'\<rparr>" using b'(1) by (simp add: change_rag_def)
  moreover have "rg_id (f s) = rg_id s" for s by (simp add: f_def)
  ultimately have "find_rag db' i = Some (f r)" using find_changed [of f "rd_chunks db'" i db] r by simp
  then show ?row using b'(2) by (simp add: f_def)
  have "length (filter (\<lambda>c. x < sd_id c) (filter (\<lambda>c. sd_store c = i) (update_where P (\<lambda>c. c\<lparr>sd_fts := Some cfg\<rparr>) cs)))
      = length (filter (\<lambda>c. x < sd_id c) (filter (\<lambda>c. sd_store c = i) cs))" for P and cs :: "'a stored_chunk list"
    by (induction cs) auto
  then show ?chunks using b'(1) by (simp add: chunks_of_def change_rag_def written_def)
qed

lemma fewer_beyond:
  "c \<in> set cs \<Longrightarrow> a < sd_id c \<Longrightarrow> b = sd_id c \<Longrightarrow>
     length (filter (\<lambda>c. b < sd_id c) cs) < length (filter (\<lambda>c. a < sd_id c) cs)"
proof (induction cs)
  case (Cons d cs)
  have "length (filter (\<lambda>c. b < sd_id c) cs) \<le> length (filter (\<lambda>c. a < sd_id c) cs)"
    using Cons.prems(2,3) by (induction cs) auto
  then show ?case using Cons by auto
qed simp

lemma batch_progress:
  assumes b: "rebuild_fts_batch busy i n db = (Inr res, db')" and "\<not> rb_busy res" "\<not> rb_done res"
  shows "chunks_left db' i < chunks_left db i"
  using b
proof (cases rule: batch_cases)
  case (wrote r cfg)
  define lim where "lim = (if n \<le> 0 then DefaultFTSRebuildBatch else nat n)"
  define ids where "ids = rebuild_batch_ids db r lim"
  define left where "left = map sd_id (filter (\<lambda>c. rg_cursor r < sd_id c) (chunks_of db i))"
  note b = batch_leaves [OF wrote(1) wrote(3) [folded lim_def], folded ids_def]
  have i: "rg_id r = i" using find_rag_Some [OF wrote(1)] by simp
  have ids: "ids = take lim (sort left)" using i by (simp add: ids_def left_def rebuild_batch_ids_def)
  have "lim > 0" by (simp add: lim_def DefaultFTSRebuildBatch_def)
  then have ne: "ids \<noteq> []" using b(3) assms(3) by auto
  then have "last ids \<in> set (sort left)" unfolding ids by (meson in_set_takeD last_in_set)
  then obtain c where c: "c \<in> set (chunks_of db i)" "rg_cursor r < sd_id c" "sd_id c = last ids"
    by (auto simp: left_def)
  then show ?thesis
    using fewer_beyond [OF c(1,2)] b(1) b(2) [of "last ids"] ne assms(3) wrote(1) by (simp add: chunks_left_def)
qed (use assms in simp_all)

text \<open>\<open>rebuildStore\<close>.\<close>

function rebuild_store :: "(nat \<Rightarrow> bool) \<Rightarrow> nat \<Rightarrow> int \<Rightarrow> int \<Rightarrow> 'v rag_db \<Rightarrow> 'v rag_db" where
  "rebuild_store busy k n i db =
     (case rebuild_fts_batch (busy k) i n db of
        (Inl e, db') \<Rightarrow> db'
      | (Inr res, db') \<Rightarrow> if rb_busy res \<or> rb_done res then db' else rebuild_store busy (k + 1) n i db')"
  by pat_completeness auto
termination
  by (relation "measure (\<lambda>(busy, k, n, i, db). chunks_left db i)") (auto dest: batch_progress [OF sym])

declare rebuild_store.simps [simp del]

text \<open>\<open>RunOnce\<close>: \<open>busy\<close> is asked by store and batch.\<close>

definition run_once :: "(int \<Rightarrow> nat \<Rightarrow> bool) \<Rightarrow> int \<Rightarrow> 'v rag_db \<Rightarrow> 'v rag_db" where
  "run_once busy n db = fold (\<lambda>i. rebuild_store (busy i) 0 n i) (stores_needing_rebuild db) db"

lemma rebuilt_is_ready:
  assumes "find_rag db i = Some r" and "rg_language r \<in> set language_codes" and "\<And>k. \<not> busy k"
  shows "case find_rag (rebuild_store busy k n i db) i of
      None \<Rightarrow> False
    | Some r' \<Rightarrow>
        derive_fts_status (rg_language r') (rg_applied r') = (if rg_language r = LanguageSimple then FTSNotNeeded else FTSReady)
        \<and> r' = r\<lparr>rg_applied := rg_applied r', rg_cursor := rg_cursor r'\<rparr>"
  using assms
proof (induction busy k n i db arbitrary: r rule: rebuild_store.induct)
  case (1 busy k n i db)
  obtain cfg where cfg: "language_config (rg_language r) = Some cfg" using code_has_config 1(3) by blast
  have lang: "derive_language (rg_language r) = rg_language r"
    using 1(3) simple_is_no_entry by (auto simp: derive_language_def language_codes_def LanguageSimple_def)
  obtain x db' where b: "rebuild_fts_batch (busy k) i n db = (x, db')" by fastforce
  have "\<exists>res. x = Inr res"
    using b 1(2) cfg by (auto simp: rebuild_fts_batch_def Let_def split: if_splits prod.splits)
  then obtain res where b: "rebuild_fts_batch (busy k) i n db = (Inr res, db')" using b by blast
  from b show ?case
  proof (cases rule: batch_cases)
    case busy
    then show ?thesis using b 1(2,4) cfg batch_leaves(4)
      by (fastforce simp: rebuild_fts_batch_def Let_def split: if_splits prod.splits)
  next
    case idle
    then have "rebuild_store busy k n i db = db" using b by (subst rebuild_store.simps) simp
    then show ?thesis using idle(3) 1(2) lang by (auto simp: derive_fts_status_def)
  next
    case (wrote r' cfg')
    define lim where "lim = (if n \<le> 0 then DefaultFTSRebuildBatch else nat n)"
    have r': "r' = r" using wrote(1) 1(2) by simp
    note w = batch_leaves [OF wrote(1) wrote(3) [folded lim_def], unfolded r']
    show ?thesis
    proof (cases "rb_done res")
      case True
      then have "rebuild_store busy k n i db = db'" using b by (subst rebuild_store.simps) simp
      then show ?thesis using w(1) True lang by (simp add: derive_fts_status_def derive_language_def split: if_splits)
    next
      case False
      then have step: "rebuild_store busy k n i db = rebuild_store busy (k + 1) n i db'"
        using b w(4) by (subst rebuild_store.simps) simp
      have more: "\<not> (rb_busy res \<or> rb_done res)" using False w(4) by simp
      define s where "s = r\<lparr>rg_cursor := (if rebuild_batch_ids db r lim = [] then 0 else last (rebuild_batch_ids db r lim))\<rparr>"
      have "find_rag db' i = Some s" using w(1) False by (simp add: s_def)
      moreover have "rg_language s \<in> set language_codes" using 1(3) by (simp add: s_def)
      ultimately have "case find_rag (rebuild_store busy (k + 1) n i db') i of
          None \<Rightarrow> False
        | Some r' \<Rightarrow>
            derive_fts_status (rg_language r') (rg_applied r') = (if rg_language s = LanguageSimple then FTSNotNeeded else FTSReady)
            \<and> r' = s\<lparr>rg_applied := rg_applied r', rg_cursor := rg_cursor r'\<rparr>"
        by (rule 1(1) [OF b [symmetric] refl more _ _ 1(4)])
      then show ?thesis unfolding step by (simp add: s_def split: option.splits)
    qed
  qed
qed

text \<open>What a rebuild may touch: the text column of the store's chunks, and the store's own row.\<close>

definition same_but_index :: "int \<Rightarrow> 'v rag_db \<Rightarrow> 'v rag_db \<Rightarrow> bool" where
  "same_but_index i db db' \<longleftrightarrow>
     map (\<lambda>c. c\<lparr>sd_fts := None\<rparr>) (rd_chunks db') = map (\<lambda>c. c\<lparr>sd_fts := None\<rparr>) (rd_chunks db)
     \<and> filter (\<lambda>c. sd_store c \<noteq> i) (rd_chunks db') = filter (\<lambda>c. sd_store c \<noteq> i) (rd_chunks db)
     \<and> filter (\<lambda>r. rg_id r \<noteq> i) (rd_stores db') = filter (\<lambda>r. rg_id r \<noteq> i) (rd_stores db)
     \<and> rd_documents db' = rd_documents db \<and> rd_last_chunk db' = rd_last_chunk db"

lemma filter_updated_others:
  "(\<And>x. P x \<Longrightarrow> \<not> Q x) \<Longrightarrow> (\<And>x. P x \<Longrightarrow> \<not> Q (f x)) \<Longrightarrow> filter Q (update_where P f xs) = filter Q xs"
  by (induction xs) auto

lemma map_updated: "(\<And>x. g (f x) = g x) \<Longrightarrow> map g (update_where P f xs) = map g xs"
  by (induction xs) auto

lemma index_batch_same: "rg_id r = i \<Longrightarrow> same_but_index i db (snd (index_batch n r cfg db))"
  by (auto simp: same_but_index_def index_batch_def Let_def change_rag_def intro!: map_updated filter_updated_others
      split: if_splits)

lemma batch_same: "same_but_index i db (snd (rebuild_fts_batch busy i n db))"
proof -
  have none: "same_but_index i db db" by (simp add: same_but_index_def)
  show ?thesis
  proof (cases "find_rag db i")
    case None
    with none show ?thesis by (simp add: rebuild_fts_batch_def Let_def)
  next
    case (Some r)
    then have "rg_id r = i" using find_rag_Some by blast
    from index_batch_same [OF this, of db] Some none show ?thesis
      by (simp add: rebuild_fts_batch_def Let_def case_prod_unfold split: option.split)
  qed
qed

lemma rebuild_same: "same_but_index i db (rebuild_store busy k n i db)"
proof (induction busy k n i db rule: rebuild_store.induct)
  case (1 busy k n i db)
  obtain x db' where b: "rebuild_fts_batch (busy k) i n db = (x, db')" by fastforce
  have first: "same_but_index i db db'" using batch_same [of i db "busy k" n] b by simp
  show ?case
  proof (cases "\<exists>res. x = Inr res \<and> \<not> (rb_busy res \<or> rb_done res)")
    case True
    then obtain res where res: "x = Inr res" "\<not> (rb_busy res \<or> rb_done res)" by blast
    have "same_but_index i db' (rebuild_store busy (k + 1) n i db')" by (rule 1 [OF b [unfolded res(1), symmetric] refl res(2)])
    with first res b show ?thesis by (subst rebuild_store.simps) (simp add: same_but_index_def)
  next
    case False
    then have "rebuild_store busy k n i db = db'" using b by (subst rebuild_store.simps) (auto split: sum.split)
    with first show ?thesis by simp
  qed
qed

lemma rebuild_reach: "rag_reach db \<Longrightarrow> rag_reach (rebuild_store busy k n i db)"
proof (induction busy k n i db rule: rebuild_store.induct)
  case (1 busy k n i db)
  obtain x db' where b: "rebuild_fts_batch (busy k) i n db = (x, db')" by fastforce
  have first: "rag_reach db'" using rag_reach.further [OF 1(2) rag_step.rebuild [of db "busy k" i n]] b by simp
  show ?case
  proof (cases "\<exists>res. x = Inr res \<and> \<not> (rb_busy res \<or> rb_done res)")
    case True
    then obtain res where res: "x = Inr res" "\<not> (rb_busy res \<or> rb_done res)" by blast
    have "rag_reach (rebuild_store busy (k + 1) n i db')" by (rule 1(1) [OF b [unfolded res(1), symmetric] refl res(2) first])
    with res b show ?thesis by (subst rebuild_store.simps) simp
  next
    case False
    then have "rebuild_store busy k n i db = db'" using b by (subst rebuild_store.simps) (auto split: sum.split)
    with first show ?thesis by simp
  qed
qed

lemma applied_is_indexed:
  assumes "rag_reach db" and "find_rag db i = Some r" and "rg_language r \<noteq> LanguageSimple" and "rg_applied r = Some (rg_language r)"
  shows "list_all (\<lambda>c. sd_fts c = language_config (rg_language r)) (chunks_of db i)"
proof -
  have r: "rg_id r = i" "rag_ok db r"
    using reach_ok [OF assms(1)] find_rag_Some [OF assms(2)] by (auto simp: db_ok_def)
  then obtain cfg where "language_config (rg_language r) = Some cfg" using code_has_config by (auto simp: rag_ok_def)
  with r assms(3,4) show ?thesis by (auto simp: rag_ok_def chunk_ok_def chunks_of_def list_all_iff)
qed

section \<open>Properties\<close>

text \<open>C10: A rebuild that never finds the store locked by another replica ends, whatever the size of a batch. Then
  the store's language is the one its text index was built for, and every chunk of the store, also one stored
  before the language changed, is indexed with that language's configuration; a store whose language needs no
  index is left alone. Nothing else of the database has changed: no other column of a chunk, no chunk or row of
  another store, no document, and of the store's row only what its index is for and how far it got.\<close>

theorem rebuild_finishes:
  assumes "rag_reach db" and "find_rag db i = Some r"
  shows "(let db' = rebuild_store (\<lambda>_. False) 0 n i db in
    (case find_rag db' i of
      None \<Rightarrow> False
    | Some r' \<Rightarrow>
        derive_fts_status (rg_language r') (rg_applied r') = (if rg_language r = LanguageSimple then FTSNotNeeded else FTSReady)
        \<and> r' = r\<lparr>rg_applied := rg_applied r', rg_cursor := rg_cursor r'\<rparr>)
    \<and> (if rg_language r = LanguageSimple then db' = db
       else list_all (\<lambda>c. sd_fts c = language_config (rg_language r)) (chunks_of db' i))
    \<and> same_but_index i db db')"
proof -
  let ?db = "rebuild_store (\<lambda>_. False) 0 n i db"
  have lang: "rg_language r \<in> set language_codes"
    using reach_ok [OF assms(1)] find_rag_Some [OF assms(2)] by (auto simp: db_ok_def rag_ok_def)
  have row: "case find_rag ?db i of
      None \<Rightarrow> False
    | Some r' \<Rightarrow>
        derive_fts_status (rg_language r') (rg_applied r') = (if rg_language r = LanguageSimple then FTSNotNeeded else FTSReady)
        \<and> r' = r\<lparr>rg_applied := rg_applied r', rg_cursor := rg_cursor r'\<rparr>"
    by (rule rebuilt_is_ready [OF assms(2) lang]) simp
  then obtain r' where r': "find_rag ?db i = Some r'"
    "derive_fts_status (rg_language r') (rg_applied r') = (if rg_language r = LanguageSimple then FTSNotNeeded else FTSReady)"
    "r' = r\<lparr>rg_applied := rg_applied r', rg_cursor := rg_cursor r'\<rparr>" by (auto split: option.splits)
  have same_lang: "rg_language r' = rg_language r" by (subst r'(3)) simp
  have "list_all (\<lambda>c. sd_fts c = language_config (rg_language r)) (chunks_of ?db i)" if "rg_language r \<noteq> LanguageSimple"
  proof -
    have "derive_language (rg_language r) = rg_language r"
      using lang simple_is_no_entry by (auto simp: derive_language_def language_codes_def LanguageSimple_def)
    then have "rg_applied r' = Some (rg_language r')"
      using r'(2) that by (auto simp: derive_fts_status_def same_lang split: if_splits)
    from applied_is_indexed [OF rebuild_reach [OF assms(1)] r'(1) _ this] show ?thesis using that by (simp add: same_lang)
  qed
  moreover have "?db = db" if "rg_language r = LanguageSimple"
    using that assms(2) by (subst rebuild_store.simps) (simp add: rebuild_fts_batch_def)
  ultimately have "if rg_language r = LanguageSimple then ?db = db
       else list_all (\<lambda>c. sd_fts c = language_config (rg_language r)) (chunks_of ?db i)" by simp
  with row rebuild_same [of i db "\<lambda>_. False" 0 n] show ?thesis unfolding Let_def by (intro conjI)
qed

definition demo_renamed :: "int rag_db" where
  "demo_renamed = snd (update_rag_store id (resolve_language id (\<lambda>_. Some True) ''tr'' []) False demo_row demo_filled)"

theorem rebuild_finishes_witness:
  "list_all (\<lambda>c. sd_fts c = Some ''turkish'') (chunks_of (rebuild_store (\<lambda>_. False) 0 1 1 demo_renamed) 1)
   \<and> map sd_fts (chunks_of demo_renamed 1) = [Some ''english'']"
proof -
  have reach: "rag_reach demo_renamed"
    unfolding demo_renamed_def by (rule rag_reach.further [OF demo_reached rag_step.update])
  have "case find_rag demo_renamed 1 of None \<Rightarrow> False | Some r \<Rightarrow> rg_language r = ''tr'' \<and> rg_applied r = None"
    by code_simp
  then obtain r where r: "find_rag demo_renamed 1 = Some r" "rg_language r = ''tr''" by (auto split: option.splits)
  have "''tr'' \<noteq> LanguageSimple" "language_config ''tr'' = Some ''turkish''" by code_simp+
  then have "list_all (\<lambda>c. sd_fts c = Some ''turkish'') (chunks_of (rebuild_store (\<lambda>_. False) 0 1 1 demo_renamed) 1)"
    using rebuild_finishes [OF reach r(1), of 1] r(2) by (simp add: Let_def)
  moreover have "map sd_fts (chunks_of demo_renamed 1) = [Some ''english'']" by code_simp
  ultimately show ?thesis by simp
qed

end
