(* ===== verification/IngestQueue.thy ===== *)
theory IngestQueue
  imports RagStores
begin

text \<open>
  Many replicas working on one ingestion queue (\<open>internal/rag/ingest.go\<close>): uploads and requests
  of the dashboard, dispatchers that claim, workers that renew their lease, report progress,
  store the chunks or fail, and the janitor. Each statement is one operation, so any
  interleaving of the processes is a list of operations. A job is an owner and a document; an
  operation of a worker that has no such job does nothing.
\<close>

section \<open>The processes\<close>

record 'v cluster =
  cl_db :: "'v rag_db"
  cl_now :: time
  cl_jobs :: "(bytes \<times> int) list"
  cl_stored :: "(bytes \<times> int) list"

datatype 'v queue_op =
    Upload int int bytes bytes bytes
  | Reprocess int
  | ReprocessAll int
  | Refuse int bytes
  | Drop int
  | Claim bytes "int list"
  | Beat bytes int
  | Progress bytes int int "int option"
  | StoreChunks bytes int write_env "'v rag_db" int int "'v new_chunk list"
  | ClearClaim bytes int
  | FailJob bytes int bytes
  | Release bytes
  | Exhaust
  | Tick duration

definition with_documents :: "(document list \<Rightarrow> document list) \<Rightarrow> 'v cluster \<Rightarrow> 'v cluster" where
  "with_documents f c = c\<lparr>cl_db := (cl_db c)\<lparr>rd_documents := f (rd_documents (cl_db c))\<rparr>\<rparr>"

text \<open>One turn of the dispatcher: the document claimed becomes a job.\<close>

definition claim_job :: "duration \<Rightarrow> int \<Rightarrow> bytes \<Rightarrow> int list \<Rightarrow> 'v cluster \<Rightarrow> 'v cluster" where
  "claim_job lease max_attempts owner locked c =
     (case claim_document (\<lambda>i. i \<in> set locked) (cl_now c) owner lease max_attempts (rd_documents (cl_db c)) of
        (Inl _, _) \<Rightarrow> c
      | (Inr d, docs) \<Rightarrow> (with_documents (\<lambda>_. docs) c)\<lparr>cl_jobs := cl_jobs c @ [(owner, d_id d)]\<rparr>)"

text \<open>A heartbeat that finds its claim gone ends the job, without a word on the row.\<close>

definition beat_job :: "duration \<Rightarrow> bytes \<Rightarrow> int \<Rightarrow> 'v cluster \<Rightarrow> 'v cluster" where
  "beat_job lease owner i c =
     (case extend_document_lease (cl_now c) i owner lease (rd_documents (cl_db c)) of
        (Some _, _) \<Rightarrow> c\<lparr>cl_jobs := remove1 (owner, i) (cl_jobs c)\<rparr>
      | (None, docs) \<Rightarrow> with_documents (\<lambda>_. docs) c)"

text \<open>
  \<open>ReplaceDocumentChunksFrom\<close> at the end of the pipeline; its failure is the pipeline's, which
  the worker reports with \<open>FailJob\<close>, as it does any other.
\<close>

definition store_job ::
  "bytes \<Rightarrow> int \<Rightarrow> write_env \<Rightarrow> 'v rag_db \<Rightarrow> int \<Rightarrow> int \<Rightarrow> 'v new_chunk list \<Rightarrow> 'v cluster \<Rightarrow> 'v cluster" where
  "store_job owner i e before rag conn chunks c =
     (case replace_document_chunks_from (e\<lparr>we_now := cl_now c\<rparr>) before i rag conn chunks owner (cl_db c) of
        (Some _, _) \<Rightarrow> c
      | (None, db) \<Rightarrow> c\<lparr>cl_db := db, cl_jobs := remove1 (owner, i) (cl_jobs c), cl_stored := cl_stored c @ [(owner, i)]\<rparr>)"

definition apply_op :: "duration \<Rightarrow> int \<Rightarrow> 'v queue_op \<Rightarrow> 'v cluster \<Rightarrow> 'v cluster" where
  "apply_op lease max_attempts x c =
     (case x of
        Upload i rag filename mime content \<Rightarrow>
          (if i \<in> d_id ` set (rd_documents (cl_db c)) then c
           else with_documents (create_document id (cl_now c) i rag filename mime (int (length content)) content) c)
      | Reprocess i \<Rightarrow> with_documents (set_document_status (cl_now c) i DocPending []) c
      | ReprocessAll rag \<Rightarrow> with_documents (reset_store_documents (cl_now c) rag) c
      | Refuse i msg \<Rightarrow> with_documents (set_document_status (cl_now c) i DocFailed msg) c
      | Drop i \<Rightarrow> c\<lparr>cl_db := snd (remove_document i (cl_db c))\<rparr>
      | Claim owner locked \<Rightarrow> claim_job lease max_attempts owner locked c
      | Beat owner i \<Rightarrow> (if (owner, i) \<in> set (cl_jobs c) then beat_job lease owner i c else c)
      | Progress owner i percent pages \<Rightarrow>
          (if (owner, i) \<in> set (cl_jobs c) then with_documents (\<lambda>docs. snd (set_document_progress i percent pages owner docs)) c else c)
      | StoreChunks owner i e before rag conn chunks \<Rightarrow>
          (if (owner, i) \<in> set (cl_jobs c) then store_job owner i e before rag conn chunks c else c)
      | ClearClaim owner i \<Rightarrow>
          (if (owner, i) \<in> set (cl_stored c)
           then (with_documents (clear_document_claim i owner) c)\<lparr>cl_stored := remove1 (owner, i) (cl_stored c)\<rparr> else c)
      | FailJob owner i msg \<Rightarrow>
          (if (owner, i) \<in> set (cl_jobs c)
           then (with_documents (set_document_status (cl_now c) i DocFailed msg) c)\<lparr>cl_jobs := remove1 (owner, i) (cl_jobs c)\<rparr> else c)
      | Release owner \<Rightarrow>
          (with_documents (release_documents (cl_now c) owner) c)\<lparr>cl_jobs := filter (\<lambda>(o', _). o' \<noteq> owner) (cl_jobs c)\<rparr>
      | Exhaust \<Rightarrow> with_documents (fail_exhausted_documents (cl_now c) max_attempts) c
      | Tick t \<Rightarrow> c\<lparr>cl_now := cl_now c + \<bar>t\<bar>\<rparr>)"

definition apply_ops :: "duration \<Rightarrow> int \<Rightarrow> 'v queue_op list \<Rightarrow> 'v cluster \<Rightarrow> 'v cluster" where
  "apply_ops lease max_attempts xs c = fold (apply_op lease max_attempts) xs c"

definition fresh_cluster :: "'v rag_db \<Rightarrow> 'v cluster" where
  "fresh_cluster db = \<lparr>cl_db = db\<lparr>rd_documents := [], rd_chunks := []\<rparr>, cl_now = 0, cl_jobs = [], cl_stored = []\<rparr>"

section \<open>Who may write\<close>

abbreviation documents_of :: "'v cluster \<Rightarrow> document list" where
  "documents_of c \<equiv> rd_documents (cl_db c)"

lemma with_documents_simps [simp]:
  "cl_db (with_documents f c) = (cl_db c)\<lparr>rd_documents := f (rd_documents (cl_db c))\<rparr>"
  "cl_now (with_documents f c) = cl_now c" "cl_jobs (with_documents f c) = cl_jobs c" "cl_stored (with_documents f c) = cl_stored c"
  by (simp_all add: with_documents_def)

lemma keeps_id [simp]:
  "d_id (status_written now status msg d) = d_id d" "d_id (claimed now owner lease d) = d_id d"
  by (simp_all add: status_written_def claimed_def Let_def)

lemma swap_keeps_documents_or_marks:
  assumes "swap_transaction e doc rag conn chunks dims owner db = (x, db')"
  shows "(x \<noteq> None \<and> db' = db)
    \<or> (x = None \<and> written_or_lost owner doc (rd_documents db) = None
       \<and> rd_documents db' = snd (mark_ready (we_now e) doc (int (length chunks)) owner (rd_documents db)))"
proof -
  have m: "fst (mark_ready (we_now e) doc (int (length chunks)) owner (rd_documents db)) = written_or_lost owner doc (rd_documents db)"
    by (simp add: mark_ready_def)
  show ?thesis
    using assms m unfolding swap_transaction_def Let_def
    by (auto simp: swap_chunks_def change_rag_def split: if_splits option.splits prod.splits)
qed

lemma replace_cases:
  assumes "replace_document_chunks_from e before doc rag conn chunks owner db = (x, db')"
  obtains (kept) y where "x = Some y" "db' = db"
  | (wrote) "x = None" "written_or_lost owner doc (rd_documents db) = None"
      "rd_documents db' = snd (mark_ready (we_now e) doc (int (length chunks)) owner (rd_documents db))"
  using assms swap_keeps_documents_or_marks
  by (cases "pre_check e before rag conn chunks") (fastforce simp: replace_document_chunks_from_def)+

lemma replace_documents:
  assumes "replace_document_chunks_from e before doc rag conn chunks owner db = (None, db')"
  shows "rd_documents db' = snd (mark_ready (we_now e) doc (int (length chunks)) owner (rd_documents db))"
  using assms by (cases rule: replace_cases) simp_all

text \<open>
  An operation that by its nature may take a document from the owner that holds it. An empty
  owner skips the ownership test of a statement; no dispatcher has one.
\<close>

definition ends_claim :: "bytes \<Rightarrow> document \<Rightarrow> 'v queue_op \<Rightarrow> bool" where
  "ends_claim owner d x \<longleftrightarrow>
     (case x of
        Reprocess i \<Rightarrow> i = d_id d
      | ReprocessAll rag \<Rightarrow> rag = d_store d
      | Refuse i _ \<Rightarrow> i = d_id d
      | Drop i \<Rightarrow> i = d_id d
      | StoreChunks o' i _ _ _ _ _ \<Rightarrow> (o' = owner \<or> o' = []) \<and> i = d_id d
      | Progress o' i _ _ \<Rightarrow> o' = [] \<and> owner \<noteq> [] \<and> i = d_id d
      | ClearClaim o' i \<Rightarrow> o' = owner \<and> i = d_id d
      | FailJob _ i _ \<Rightarrow> i = d_id d
      | Release o' \<Rightarrow> o' = owner
      | _ \<Rightarrow> False)"

text \<open>What the owner's own heartbeats and progress reports make of the row it holds.\<close>

definition own_change :: "duration \<Rightarrow> bytes \<Rightarrow> time \<Rightarrow> 'v queue_op \<Rightarrow> document \<Rightarrow> document" where
  "own_change lease owner now x d =
     (case x of
        Beat o' i \<Rightarrow> (if o' = owner \<and> i = d_id d then d\<lparr>d_lease_until := Some (now + lease)\<rparr> else d)
      | Progress o' i percent pages \<Rightarrow>
          (if o' = owner \<and> i = d_id d
           then d\<lparr>d_progress := max 0 (min 100 percent),
                  d_page_count := (case pages of None \<Rightarrow> d_page_count d | Some n \<Rightarrow> Some n)\<rparr>
           else d)
      | _ \<Rightarrow> d)"

text \<open>
  The row after a history in which the owner's lease runs at every step and nothing ends the
  claim; \<open>None\<close> when there is a step at which that is not so.
\<close>

fun held_through :: "duration \<Rightarrow> bytes \<Rightarrow> time \<Rightarrow> document \<Rightarrow> 'v queue_op list \<Rightarrow> document option" where
  "held_through lease owner now d [] = Some d"
| "held_through lease owner now d (x # xs) =
     (if lease_expired now d \<or> ends_claim owner d x then None
      else held_through lease owner (case x of Tick t \<Rightarrow> now + \<bar>t\<bar> | _ \<Rightarrow> now) (own_change lease owner now x d) xs)"

lemma find_other_row: "i \<noteq> j \<Longrightarrow> find_document (filter (\<lambda>d. d_id d \<noteq> j) docs) i = find_document docs i"
  by (induction docs) (auto simp: find_document_def)

lemma find_created: "find_document docs i = Some d \<Longrightarrow> find_document (docs @ more_docs) i = Some d"
  by (induction docs) (auto simp: find_document_def)

lemma next_claim_Some:
  assumes "next_claim locked now max_attempts docs = Some i"
  obtains d where "d \<in> set docs" "d_id d = i" "claimable now max_attempts d" "\<not> locked i"
proof -
  let ?ids = "map d_id (filter (\<lambda>d. claimable now max_attempts d \<and> \<not> locked (d_id d)) docs)"
  from assms obtain js where "sort ?ids = i # js" by (auto simp: next_claim_def split: list.splits)
  then have "i \<in> set ?ids" by (metis list.set_intros(1) set_sort)
  then show thesis using that by auto
qed

lemma claim_cases:
  assumes "distinct (map d_id docs)"
  obtains (empty) "claim_document locked now owner lease max_attempts docs = (Inl NotFound, docs)"
      "next_claim locked now max_attempts docs = None"
  | (got) d where "d \<in> set docs" "claimable now max_attempts d" "next_claim locked now max_attempts docs = Some (d_id d)"
      "claim_document locked now owner lease max_attempts docs
        = (Inr (claimed now owner lease d), update_where (\<lambda>e. d_id e = d_id d) (claimed now owner lease) docs)"
proof (cases "next_claim locked now max_attempts docs")
  case None
  then show thesis using empty by (simp add: claim_document_def)
next
  case (Some i)
  obtain d where d: "d \<in> set docs" "d_id d = i" "claimable now max_attempts d" using next_claim_Some [OF Some] by blast
  have "find_document docs i = Some d"
    using find_document_row [OF assms d(1)] d(2) by simp
  then have "find_document (update_where (\<lambda>d. d_id d = i) (claimed now owner lease) docs) i = Some (claimed now owner lease d)"
    using d(2) by (simp add: find_update_where)
  then show thesis using got [of d] d Some by (simp add: claim_document_def)
qed

section \<open>A claim under a lease that runs\<close>

definition chunks_of_document :: "'v cluster \<Rightarrow> int \<Rightarrow> 'v stored_chunk list" where
  "chunks_of_document c i = filter (\<lambda>k. sd_document k = i) (rd_chunks (cl_db c))"

lemma row_after:
  assumes "find_document docs i = Some d" and "\<And>e. d_id (f e) = d_id e"
  shows "find_document (update_where P f docs) i = Some (if P d then f d else d)"
  using assms by (simp add: find_update_where)

lemma claim_keeps_row:
  assumes "distinct (map d_id docs)" "find_document docs i = Some d" "held_by owner d" "\<not> lease_expired now d"
  shows "find_document (snd (claim_document locked now o' lease n docs)) i = Some d"
  using assms(1)
proof (cases rule: claim_cases [of docs locked now o' lease n])
  case (got e)
  have "e \<noteq> d" using got(2) assms(3,4) by (auto simp: claimable_def held_by_def)
  then have "d_id e \<noteq> d_id d"
    using got(1) assms(1) find_document_Some [OF assms(2)] by (auto simp: distinct_map dest: inj_onD)
  then show ?thesis using row_after [OF assms(2)] got(4) by (simp add: claimed_def)
qed (use assms(2) in simp)

lemma own_change_keeps [simp]:
  "d_id (own_change lease owner now x d) = d_id d" "d_store (own_change lease owner now x d) = d_store d"
  "held_by owner (own_change lease owner now x d) = held_by owner d"
  "d_attempts (own_change lease owner now x d) = d_attempts d"
  by (auto simp: own_change_def held_by_def split: queue_op.split)

lemma store_keeps_row:
  assumes "find_document (documents_of c) i = Some d" and "held_by owner d" and "\<not> ((o' = owner \<or> o' = []) \<and> j = i)"
  shows "find_document (documents_of (store_job o' j e before rag conn chunks c)) i = Some d"
proof -
  have i: "d_id d = i" using find_document_Some [OF assms(1)] by simp
  then have "\<not> owned o' j d" using assms(2,3) by (auto simp: owned_def held_by_def)
  then show ?thesis
    using assms(1) row_after [OF assms(1)]
    by (auto simp: store_job_def replace_documents mark_ready_def split: prod.split option.split)
qed

lemma op_on_row:
  assumes "distinct (map d_id (documents_of c))" and "find_document (documents_of c) i = Some d"
    and "held_by owner d" and "\<not> lease_expired (cl_now c) d" and "\<not> ends_claim owner d x" and "(owner, i) \<in> set (cl_jobs c)"
  shows "find_document (documents_of (apply_op lease n x c)) i = Some (own_change lease owner (cl_now c) x d)"
proof -
  have i: "d_id d = i" using find_document_Some [OF assms(2)] by simp
  note row = row_after [OF assms(2)]
  show ?thesis
  proof (cases x)
    case (Drop j)
    then show ?thesis
      using assms(2,5) i find_other_row [of i j "documents_of c"]
      by (auto simp: apply_op_def own_change_def ends_claim_def remove_document_def delete_document_def)
  next
    case (Claim o' locked)
    then show ?thesis
      using claim_keeps_row [OF assms(1-4), of "\<lambda>i. i \<in> set locked" o' lease n] assms(2)
      by (auto simp: apply_op_def own_change_def claim_job_def split: prod.splits sum.splits)
  next
    case (StoreChunks o' j e before rag conn chunks)
    then show ?thesis
      using store_keeps_row [OF assms(2,3), of o' j e before rag conn chunks] assms(2,5) i
      by (auto simp: apply_op_def own_change_def ends_claim_def)
  next
    case (Beat o' j)
    let ?P = "\<lambda>e. d_id e = j \<and> held_by o' e"
    have found: "?P d \<Longrightarrow> list_ex ?P (documents_of c)" using find_document_Some [OF assms(2)] by (auto simp: list_ex_iff)
    have "?P d \<longleftrightarrow> o' = owner \<and> j = i" using assms(3) i by (auto simp: held_by_def)
    then have own: "own_change lease owner (cl_now c) x d = (if ?P d then d\<lparr>d_lease_until := Some (cl_now c + lease)\<rparr> else d)"
      using Beat i by (simp add: own_change_def)
    let ?docs = "update_where ?P (\<lambda>d. d\<lparr>d_lease_until := Some (cl_now c + lease)\<rparr>) (documents_of c)"
    have "documents_of (apply_op lease n x c) \<in> {documents_of c, ?docs}"
      using Beat by (simp add: apply_op_def beat_job_def extend_document_lease_def Let_def found_or_not_def)
    moreover have "documents_of (apply_op lease n x c) = ?docs" if "?P d"
      using that found Beat assms(6) \<open>?P d \<longleftrightarrow> o' = owner \<and> j = i\<close>
      by (simp add: apply_op_def beat_job_def extend_document_lease_def Let_def found_or_not_def)
    moreover have "find_document ?docs i = Some (if ?P d then d\<lparr>d_lease_until := Some (cl_now c + lease)\<rparr> else d)"
      by (rule row) simp
    ultimately show ?thesis
    proof (cases "?P d")
      case False
      then have "find_document D i = Some d" if "D \<in> {documents_of c, ?docs}" for D
        using that False assms(2) \<open>find_document ?docs i = _\<close> by auto
      from this [OF \<open>documents_of (apply_op lease n x c) \<in> _\<close>] show ?thesis
        by (simp only: own False if_False)
    qed (simp only: own if_True)
  next
    case (Progress o' j percent pages)
    have "owned o' j d \<longleftrightarrow> o' = owner \<and> j = i"
      using Progress assms(3,5) i by (auto simp: owned_def held_by_def ends_claim_def)
    let ?d = "d\<lparr>d_progress := max 0 (min 100 percent),
        d_page_count := (case pages of None \<Rightarrow> d_page_count d | Some n \<Rightarrow> Some n)\<rparr>"
    have own: "own_change lease owner (cl_now c) x d = (if owned o' j d then ?d else d)"
      using Progress i \<open>owned o' j d \<longleftrightarrow> _\<close> by (simp add: own_change_def)
    have f: "d_id (let e = e\<lparr>d_progress := p\<rparr> in case pages of None \<Rightarrow> e | Some n \<Rightarrow> e\<lparr>d_page_count := Some n\<rparr>) = d_id e" for e p
      by (simp add: Let_def split: option.split)
    have "find_document (snd (set_document_progress j percent pages o' (documents_of c))) i = Some (if owned o' j d then ?d else d)"
      using row [of "\<lambda>d. let d = d\<lparr>d_progress := max 0 (min 100 percent)\<rparr> in
          case pages of None \<Rightarrow> d | Some n \<Rightarrow> d\<lparr>d_page_count := Some n\<rparr>" "owned o' j", OF f]
      by (simp add: set_document_progress_def Let_def split: option.split)
    moreover have "documents_of (apply_op lease n x c) =
        (if (o', j) \<in> set (cl_jobs c) then snd (set_document_progress j percent pages o' (documents_of c)) else documents_of c)"
      by (simp add: apply_op_def Progress)
    moreover have "(o', j) \<in> set (cl_jobs c)" if "owned o' j d" using that assms(6) \<open>owned o' j d \<longleftrightarrow> _\<close> by simp
    ultimately show ?thesis unfolding own using assms(2) by (cases "(o', j) \<in> set (cl_jobs c)") (simp_all, blast)
  qed (use assms(2-5) i row find_created [OF assms(2)] in
      \<open>auto simp: apply_op_def own_change_def ends_claim_def create_document_def set_document_status_def
        reset_store_documents_def clear_document_claim_def release_documents_def fail_exhausted_documents_def held_by_def\<close>)
qed

lemma remove1_other: "a \<noteq> b \<Longrightarrow> (a \<in> set (remove1 b xs)) = (a \<in> set xs)"
  by (induction xs) auto

lemma op_on_job:
  assumes "find_document (documents_of c) i = Some d" and "held_by owner d" and "\<not> ends_claim owner d x" and "(owner, i) \<in> set (cl_jobs c)"
  shows "(owner, i) \<in> set (cl_jobs (apply_op lease n x c))"
proof (cases x)
  case (Beat o' j)
  have "d \<in> set (documents_of c)" "d_id d = i" using find_document_Some [OF assms(1)] by auto
  then show ?thesis
    using Beat assms(2,4) remove1_other [of "(owner, i)" "(o', j)" "cl_jobs c"]
    by (cases "(o', j) = (owner, i)")
      (auto simp: apply_op_def beat_job_def extend_document_lease_def Let_def found_or_not_def list_ex_iff split: option.split)
next
  case (Claim o' locked)
  then show ?thesis using assms(4) by (auto simp: apply_op_def claim_job_def split: prod.split sum.split)
next
  case (StoreChunks o' j e before rag conn chunks)
  then show ?thesis
    using assms(3,4) find_document_Some [OF assms(1)] remove1_other [of "(owner, i)" "(o', j)" "cl_jobs c"]
    by (cases "(o', j) = (owner, i)") (auto simp: apply_op_def ends_claim_def store_job_def split: prod.split option.split)
next
  case (FailJob o' j msg)
  then show ?thesis
    using assms(3,4) find_document_Some [OF assms(1)] remove1_other [of "(owner, i)" "(o', j)" "cl_jobs c"]
    by (auto simp: apply_op_def ends_claim_def)
qed (use assms(3,4) in \<open>auto simp: apply_op_def ends_claim_def\<close>)

lemma swap_other_chunks:
  assumes "swap_transaction e doc rag conn chunks dims owner db = (None, db')" "doc \<noteq> i"
  shows "filter (\<lambda>k. sd_document k = i) (rd_chunks db') = filter (\<lambda>k. sd_document k = i) (rd_chunks db)"
proof -
  have "filter (\<lambda>k. sd_document k = i) (rd_chunks (swap_chunks doc rag conn fts chunks db'')) = filter (\<lambda>k. sd_document k = i) (rd_chunks db'')"
    for fts db''
    using assms(2) by (auto simp: swap_chunks_def chunk_stored_def filter_map comp_def case_prod_unfold intro!: filter_cong)
  with assms(1) show ?thesis
    by (auto simp: swap_transaction_def Let_def change_rag_def split: if_splits option.splits prod.splits)
qed

lemma write_refused:
  assumes "distinct (map d_id docs)" "find_document docs i = Some d" "held_by owner d" "o' \<noteq> owner" "o' \<noteq> []"
  shows "written_or_lost o' i docs = Some NotFound"
proof -
  have "e = d" if "e \<in> set docs" "d_id e = i" for e
    using find_document_row [OF assms(1) that(1)] that(2) assms(2) by simp
  then have "\<not> list_ex (owned o' i) docs"
    using assms(3,4,5) by (auto simp: list_ex_iff owned_def held_by_def)
  with assms(5) show ?thesis by (simp add: written_or_lost_def)
qed

lemma op_on_chunks:
  assumes "distinct (map d_id (documents_of c))" and "find_document (documents_of c) i = Some d" and "held_by owner d" and "\<not> ends_claim owner d x"
  shows "chunks_of_document (apply_op lease n x c) i = chunks_of_document c i"
proof (cases x)
  case (Drop j)
  then show ?thesis
    using assms(4) find_document_Some [OF assms(2)]
    by (auto simp: apply_op_def ends_claim_def remove_document_def chunks_of_document_def delete_document_def
        split: prod.split option.split intro!: filter_cong)
next
  case (Claim o' locked)
  then show ?thesis by (auto simp: apply_op_def claim_job_def chunks_of_document_def split: prod.split sum.split)
next
  case (Beat o' j)
  then show ?thesis by (auto simp: apply_op_def beat_job_def chunks_of_document_def split: prod.split option.split)
next
  case (StoreChunks o' j e before rag conn chunks)
  show ?thesis
  proof (cases "replace_document_chunks_from (e\<lparr>we_now := cl_now c\<rparr>) before j rag conn chunks o' (cl_db c)")
    case (Pair y db)
    show ?thesis
    proof (cases "j = i \<or> y \<noteq> None")
      case True
      have "y \<noteq> None"
      proof (cases "j = i")
        case j: True
        with StoreChunks assms(4) find_document_Some [OF assms(2)] have "o' \<noteq> owner" "o' \<noteq> []"
          by (auto simp: ends_claim_def)
        from write_refused [OF assms(1-3) this] show ?thesis using j by (cases rule: replace_cases [OF Pair]) auto
      qed (use True in simp)
      with Pair StoreChunks show ?thesis by (auto simp: apply_op_def store_job_def)
    next
      case False
      then have "filter (\<lambda>k. sd_document k = i) (rd_chunks db) = filter (\<lambda>k. sd_document k = i) (rd_chunks (cl_db c))"
        using Pair by (auto simp: replace_document_chunks_from_def split: option.splits intro: swap_other_chunks)
      with False StoreChunks Pair show ?thesis
        by (simp add: apply_op_def store_job_def chunks_of_document_def)
    qed
  qed
qed (auto simp: apply_op_def chunks_of_document_def)

section \<open>What the queue keeps\<close>

definition document_ok :: "int \<Rightarrow> document \<Rightarrow> bool" where
  "document_ok max_attempts d \<longleftrightarrow>
     0 \<le> d_attempts d \<and> d_attempts d \<le> max_attempts \<and> (d_status d = DocPending \<longrightarrow> d_attempts d < max_attempts)"

definition queue_ok :: "int \<Rightarrow> document list \<Rightarrow> bool" where
  "queue_ok max_attempts docs \<longleftrightarrow> distinct (map d_id docs) \<and> list_all (document_ok max_attempts) docs"

lemma queue_ok_update:
  assumes "queue_ok n docs" and "\<And>d. d_id (f d) = d_id d"
    and "\<And>d. d \<in> set docs \<Longrightarrow> P d \<Longrightarrow> document_ok n d \<Longrightarrow> document_ok n (f d)"
  shows "queue_ok n (update_where P f docs)"
  using assms by (auto simp: queue_ok_def update_where_keeps_ids list_all_iff)

lemma queue_ok_filter: "queue_ok n docs \<Longrightarrow> queue_ok n (filter P docs)"
  by (auto simp: queue_ok_def list_all_iff distinct_map_filter)

definition keeps_attempts :: "'v queue_op \<Rightarrow> bool" where
  "keeps_attempts x \<longleftrightarrow> (case x of ReprocessAll _ \<Rightarrow> False | _ \<Rightarrow> True)"

lemma claim_keeps_queue:
  assumes ok: "queue_ok n docs"
  shows "queue_ok n (snd (claim_document locked now owner lease n docs))"
proof -
  have "distinct (map d_id docs)" using ok by (simp add: queue_ok_def)
  then show ?thesis
  proof (cases rule: claim_cases [of docs locked now owner lease n])
    case (got d)
    have sole: "e = d" if "e \<in> set docs" "d_id e = d_id d" for e
      using that got(1) ok by (auto simp: queue_ok_def distinct_map dest: inj_onD)
    then show ?thesis
      unfolding got(4) snd_conv
      using got(2) by (intro queue_ok_update [OF ok]) (auto simp: document_ok_def claimable_def claimed_def dest: sole)
  qed (use ok in simp)
qed

lemma op_keeps_queue:
  assumes n: "0 < n" and x: "keeps_attempts x" and ok: "queue_ok n (documents_of c)"
  shows "queue_ok n (documents_of (apply_op lease n x c))"
proof -
  note simps = apply_op_def keeps_id
  have status: "queue_ok n (set_document_status now i st msg (documents_of c))" for now i st msg
    unfolding set_document_status_def
    using n by (intro queue_ok_update [OF ok]) (auto simp: document_ok_def status_written_def Let_def)
  show ?thesis
  proof (cases x)
    case (Upload i rag filename mime content)
    then show ?thesis using ok n by (auto simp: apply_op_def create_document_def queue_ok_def document_ok_def)
  next
    case (ReprocessAll rag)
    then show ?thesis using x by (simp add: keeps_attempts_def)
  next
    case (Drop i)
    then show ?thesis
      using ok queue_ok_filter [OF ok]
      by (auto simp: apply_op_def remove_document_def delete_document_def split: if_splits)
  next
    case (Claim owner locked)
    then show ?thesis
      using ok claim_keeps_queue [OF ok, of "\<lambda>i. i \<in> set locked" "cl_now c" owner lease]
      by (auto simp: apply_op_def claim_job_def split: prod.splits sum.splits)
  next
    case (Beat owner i)
    have "queue_ok n (update_where P (\<lambda>d. d\<lparr>d_lease_until := t\<rparr>) (documents_of c))" for P t
      by (intro queue_ok_update [OF ok]) (auto simp: document_ok_def)
    then show ?thesis
      using ok Beat by (auto simp: apply_op_def beat_job_def extend_document_lease_def Let_def found_or_not_def split: option.splits if_splits)
  next
    case (Progress owner i percent pages)
    have "queue_ok n (snd (set_document_progress i percent pages owner (documents_of c)))"
      unfolding set_document_progress_def Let_def snd_conv
      by (intro queue_ok_update [OF ok]) (auto simp: document_ok_def split: option.split)
    then show ?thesis using ok Progress by (simp add: apply_op_def)
  next
    case (StoreChunks owner i e before rag conn chunks)
    have "queue_ok n (snd (mark_ready now i m owner (documents_of c)))" for now m
      unfolding mark_ready_def snd_conv by (intro queue_ok_update [OF ok]) (auto simp: document_ok_def)
    moreover obtain y db where y: "replace_document_chunks_from (e\<lparr>we_now := cl_now c\<rparr>) before i rag conn chunks owner (cl_db c) = (y, db)"
      by fastforce
    ultimately show ?thesis
      using ok StoreChunks y by (auto simp: replace_documents apply_op_def store_job_def split: option.splits)
  next
    case (ClearClaim owner i)
    have "queue_ok n (clear_document_claim i owner (documents_of c))"
      unfolding clear_document_claim_def using n by (intro queue_ok_update [OF ok]) (auto simp: document_ok_def)
    then show ?thesis using ok ClearClaim by (simp add: apply_op_def)
  next
    case (Release owner)
    have "queue_ok n (release_documents (cl_now c) owner (documents_of c))"
      unfolding release_documents_def using n by (intro queue_ok_update [OF ok]) (auto simp: document_ok_def)
    then show ?thesis using Release by (simp add: apply_op_def)
  next
    case Exhaust
    have "queue_ok n (fail_exhausted_documents (cl_now c) n (documents_of c))"
      unfolding fail_exhausted_documents_def by (intro queue_ok_update [OF ok]) (auto simp: document_ok_def)
    then show ?thesis using Exhaust by (simp add: apply_op_def)
  qed (use ok status in \<open>simp_all add: apply_op_def\<close>)
qed

lemma ops_keep_queue:
  "0 < n \<Longrightarrow> list_all keeps_attempts xs \<Longrightarrow> queue_ok n (documents_of c) \<Longrightarrow> queue_ok n (documents_of (apply_ops lease n xs c))"
  by (induction xs arbitrary: c) (auto simp: apply_ops_def op_keeps_queue)

text \<open>\<open>claimAll\<close>: as many documents as there are free workers.\<close>

fun claim_all ::
  "(int \<Rightarrow> bool) \<Rightarrow> time \<Rightarrow> bytes \<Rightarrow> duration \<Rightarrow> int \<Rightarrow> nat \<Rightarrow> document list \<Rightarrow> document list \<times> document list" where
  "claim_all locked now owner lease max_attempts 0 docs = ([], docs)"
| "claim_all locked now owner lease max_attempts (Suc n) docs =
     (case claim_document locked now owner lease max_attempts docs of
        (Inl _, docs) \<Rightarrow> ([], docs)
      | (Inr d, docs) \<Rightarrow>
          (let (ds, docs) = claim_all locked now owner lease max_attempts n docs in (d # ds, docs)))"

definition claimable_ids :: "time \<Rightarrow> int \<Rightarrow> document list \<Rightarrow> int list" where
  "claimable_ids now max_attempts docs = sort (map d_id (filter (claimable now max_attempts) docs))"

lemma claimed_leaves_queue:
  assumes "distinct (map d_id docs)" "0 \<le> lease"
  shows "filter (claimable now n) (update_where (\<lambda>e. d_id e = i) (claimed now owner lease) docs)
    = filter (\<lambda>d. d_id d \<noteq> i) (filter (claimable now n) docs)"
  using assms by (induction docs) (auto simp: claimable_def claimed_def lease_expired_def)

lemma claim_all_ids:
  assumes "distinct (map d_id docs)" "0 \<le> lease"
  shows "map d_id (fst (claim_all (\<lambda>_. False) now owner lease n k docs)) = take k (claimable_ids now n docs)"
  using assms(1)
proof (induction k arbitrary: docs)
  case (Suc k)
  have dist: "distinct (claimable_ids now n docs)"
    using Suc.prems by (simp add: claimable_ids_def distinct_map_filter)
  from Suc.prems show ?case
  proof (cases rule: claim_cases [of docs "\<lambda>_. False" now owner lease n])
    case empty
    then show ?thesis by (auto simp: next_claim_def claimable_ids_def split: list.splits)
  next
    case (got d)
    define docs' where "docs' = update_where (\<lambda>e. d_id e = d_id d) (claimed now owner lease) docs"
    obtain js where ids: "claimable_ids now n docs = d_id d # js"
      using got(3) by (auto simp: next_claim_def claimable_ids_def split: list.splits)
    have "claimable_ids now n docs' = filter (\<lambda>i. i \<noteq> d_id d) (claimable_ids now n docs)"
      unfolding claimable_ids_def docs'_def claimed_leaves_queue [OF Suc.prems assms(2)] filter_sort
      by (simp add: filter_map comp_def)
    also have "\<dots> = js" using dist ids by (auto simp: filter_id_conv)
    finally have "take k js = map d_id (fst (claim_all (\<lambda>_. False) now owner lease n k docs'))"
      using Suc.IH [of docs'] Suc.prems by (simp add: docs'_def update_where_keeps_ids)
    then show ?thesis using got(4) ids by (simp add: docs'_def case_prod_unfold Let_def)
  qed
qed simp

section \<open>Properties\<close>

lemma op_keeps_ids:
  "distinct (map d_id (documents_of c)) \<Longrightarrow> distinct (map d_id (documents_of (apply_op lease n x c)))"
proof (cases x)
  case (Drop i)
  then show "distinct (map d_id (documents_of c)) \<Longrightarrow> ?thesis"
    by (auto simp: apply_op_def remove_document_def delete_document_def distinct_map_filter)
next
  case (Claim o' locked)
  then show "distinct (map d_id (documents_of c)) \<Longrightarrow> ?thesis"
    by (auto simp: apply_op_def claim_job_def claim_document_def Let_def update_where_keeps_ids split: prod.splits option.splits sum.splits)
next
  case (StoreChunks o' j e before rag conn chunks)
  then show "distinct (map d_id (documents_of c)) \<Longrightarrow> ?thesis"
    by (auto simp: apply_op_def store_job_def replace_documents mark_ready_def update_where_keeps_ids split: prod.splits option.splits)
qed (auto simp: apply_op_def create_document_def set_document_status_def reset_store_documents_def clear_document_claim_def
    release_documents_def fail_exhausted_documents_def set_document_progress_def beat_job_def extend_document_lease_def
    Let_def update_where_keeps_ids split: option.split)

lemma op_moves_clock: "cl_now (apply_op lease n x c) = (case x of Tick t \<Rightarrow> cl_now c + \<bar>t\<bar> | _ \<Rightarrow> cl_now c)"
  by (auto simp: apply_op_def claim_job_def beat_job_def store_job_def split: queue_op.split prod.split sum.split option.split)


text \<open>C8: However uploads, claims, crashes, restarts and retries of single documents interleave, no document
  is claimed more often than allowed and none gets stuck: a pending one can be claimed, and
  one that is being processed has a lease that runs, can be claimed, or is failed by the
  janitor's next pass.\<close>

theorem queue_never_sticks:
  assumes "0 < max_attempts" and "list_all keeps_attempts xs"
  shows "let c = apply_ops lease max_attempts xs (fresh_cluster db) in
    list_all (\<lambda>d. d_attempts d \<le> max_attempts
      \<and> (case d_status d of
           DocPending \<Rightarrow> claimable (cl_now c) max_attempts d
         | DocProcessing \<Rightarrow>
             \<not> lease_expired (cl_now c) d \<or> claimable (cl_now c) max_attempts d
             \<or> map_option d_status (find_document (fail_exhausted_documents (cl_now c) max_attempts (documents_of c)) (d_id d)) = Some DocFailed
         | _ \<Rightarrow> True)) (documents_of c)"
proof -
  define c where "c = apply_ops lease max_attempts xs (fresh_cluster db)"
  have "queue_ok max_attempts (documents_of (fresh_cluster db))" by (simp add: fresh_cluster_def queue_ok_def)
  then have ok: "queue_ok max_attempts (documents_of c)" unfolding c_def by (rule ops_keep_queue [OF assms])
  have failed: "map_option d_status (find_document (fail_exhausted_documents (cl_now c) max_attempts (documents_of c)) (d_id d)) = Some DocFailed"
    if "d \<in> set (documents_of c)" "d_status d = DocProcessing" "lease_expired (cl_now c) d" "max_attempts \<le> d_attempts d" for d
  proof -
    have "find_document (documents_of c) (d_id d) = Some d"
      using that(1) ok by (simp add: queue_ok_def find_document_row)
    then show ?thesis using that by (simp add: fail_exhausted_documents_def find_update_where)
  qed
  show ?thesis
    using ok failed unfolding c_def [symmetric] Let_def queue_ok_def
    by (auto simp: list_all_iff document_ok_def claimable_def split: doc_status.split) (meson not_less)
qed

text \<open>A dispatcher hands its free workers the oldest documents that can be claimed, each once.\<close>

theorem oldest_are_claimed_first:
  assumes "distinct (map d_id docs)" and "0 \<le> lease"
  shows "map d_id (fst (claim_all (\<lambda>_. False) now owner lease max_attempts workers docs))
    = take workers (claimable_ids now max_attempts docs)"
  by (rule claim_all_ids [OF assms])

section \<open>The properties on a small queue\<close>

definition one_upload :: "int queue_op" where "one_upload = Upload 1 1 ''a.txt'' [] ''text''"

definition demo_queue :: "int queue_op list \<Rightarrow> int cluster" where
  "demo_queue xs = apply_ops 120 2 xs (fresh_cluster demo_created)"

definition rivals :: "int queue_op list" where
  "rivals = [Claim ''b'' [], Tick 100, Beat ''a'' 1, Progress ''b'' 1 99 None, Tick 100,
     StoreChunks ''b'' 1 demo_env demo_created 1 7 demo_chunks, Progress ''a'' 1 40 (Some 7), Exhaust, Release ''b'', ClearClaim ''b'' 1]"


theorem queue_never_sticks_witness:
  "list_all (\<lambda>d. d_attempts d \<le> 2) (documents_of (demo_queue [one_upload, Claim ''a'' [], Tick 121, Claim ''b'' []]))
   \<and> length (documents_of (demo_queue [one_upload, Claim ''a'' [], Tick 121, Claim ''b'' []])) = 1"
proof -
  have "list_all keeps_attempts [one_upload, Claim ''a'' [], Tick 121, Claim ''b'' []]"
    by (simp add: keeps_attempts_def one_upload_def)
  then have "list_all (\<lambda>d. d_attempts d \<le> 2) (documents_of (demo_queue [one_upload, Claim ''a'' [], Tick 121, Claim ''b'' []]))"
    using queue_never_sticks [of 2 "[one_upload, Claim ''a'' [], Tick 121, Claim ''b'' []]" 120 demo_created]
    by (simp add: demo_queue_def Let_def list_all_iff)
  moreover have "length (documents_of (demo_queue [one_upload, Claim ''a'' [], Tick 121, Claim ''b'' []])) = 1" by code_simp
  ultimately show ?thesis by simp
qed

theorem oldest_are_claimed_first_witness:
  "map d_id (fst (claim_all (\<lambda>_. False) 0 ''a'' 120 2 1
      (documents_of (demo_queue [Upload 5 1 [] [] [], Upload 3 1 [] [] [], one_upload])))) = [1]"
proof -
  let ?docs = "documents_of (demo_queue [Upload 5 1 [] [] [], Upload 3 1 [] [] [], one_upload])"
  have "distinct (map d_id ?docs)" "take 1 (claimable_ids 0 2 ?docs) = [1]" by code_simp+
  then show ?thesis using oldest_are_claimed_first [of ?docs 120 0 "''a''" 2 1] by (simp only:)
qed

section \<open>Where the queue departs from what it means to do\<close>

text \<open>A worker whose lease ran out and whose heartbeat has not noticed finds its chunks refused, and
  reports that refusal as a failure of the document: the row of the replica that took over is
  marked failed under it, and that replica's next heartbeat ends its job.\<close>

lemma late_failure_overwrites_the_new_owner:
  "let c = demo_queue [one_upload, Claim ''a'' [], Tick 121, Claim ''b'' [],
             StoreChunks ''a'' 1 demo_env demo_created 1 7 demo_chunks];
       failed = apply_op 120 2 (FailJob ''a'' 1 ''store chunks: not found'') c in
   map (\<lambda>d. (d_status d, d_claimed_by d)) (documents_of c) = [(DocProcessing, Some ''b'')]
   \<and> cl_jobs c = [(''a'', 1), (''b'', 1)]
   \<and> map (\<lambda>d. (d_status d, d_claimed_by d)) (documents_of failed) = [(DocFailed, Some ''b'')]
   \<and> cl_jobs (apply_op 120 2 (Beat ''b'' 1) failed) = []"
  by code_simp

text \<open>Reprocessing all documents of a store does not give the attempts back: one that had used them up
  is pending again but no dispatcher may claim it and no janitor fails it.\<close>

lemma reprocess_all_strands_documents:
  "let docs = documents_of (demo_queue [one_upload, Claim ''a'' [], Tick 121, Claim ''b'' [], Tick 121, Exhaust, ReprocessAll 1]) in
   map d_status docs = [DocPending] \<and> \<not> list_ex (claimable now 2) docs \<and> fail_exhausted_documents now 2 docs = docs"
proof -
  let ?docs = "documents_of (demo_queue [one_upload, Claim ''a'' [], Tick 121, Claim ''b'' [], Tick 121, Exhaust, ReprocessAll 1])"
  have "map d_status ?docs = [DocPending]" "map d_attempts ?docs = [2]" by code_simp+
  then obtain d where "?docs = [d]" "d_status d = DocPending" "d_attempts d = 2" by auto
  then show ?thesis by (simp add: Let_def claimable_def fail_exhausted_documents_def)
qed

end
