(* ===== verification/Parse.thy ===== *)
theory Parse
  imports Chunk
begin

text \<open>
  From an uploaded file to the blocks that are chunked (\<open>internal/rag/parse.go\<close>): plain text,
  Markdown, and the walks over what the library parsers of DOCX, HTML and PDF hand over. Text
  is a list of runes. The tokens of an XML decoder, the tree of an HTML parser and the object
  graph of a PDF reader, which may have any shape and any cycle, are parameters.
\<close>

section \<open>Normal text\<close>

text \<open>\<open>strings.ToValidUTF8\<close>: a run of invalid bytes becomes one U+FFFD.\<close>

function valid_text :: "bool \<Rightarrow> bytes \<Rightarrow> ustring" where
  "valid_text bad s =
     (if s = [] then []
      else
        (let (r, w) = decode_rune s in
         if w = 1 \<and> byte (hd s) \<ge> 0x80 then (if bad then [] else [rune_error]) @ valid_text True (drop 1 s)
         else r # valid_text False (drop (max w 1) s)))"
  by auto
termination
  by (relation "measure (\<lambda>(bad, s). length s)") (auto simp: Let_def)

text \<open>\<open>\\r\\n\<close> and a lone \<open>\\r\<close> are line ends.\<close>

fun line_ends :: "ustring \<Rightarrow> ustring" where
  "line_ends [] = []"
| "line_ends (c # s) =
     (if c = 13 then (case s of [] \<Rightarrow> [10] | d # t \<Rightarrow> if d = 10 then 10 # line_ends t else 10 # line_ends s)
      else c # line_ends s)"

text \<open>\<open>strings.ReplaceAll\<close> of three line ends by two, until none is left.\<close>

fun squeeze :: "ustring \<Rightarrow> ustring" where
  "squeeze (a # b # c # s) = (if a = 10 \<and> b = 10 \<and> c = 10 then 10 # 10 # squeeze s else a # squeeze (b # c # s))"
| "squeeze s = s"

fun triple_break :: "ustring \<Rightarrow> bool" where
  "triple_break (a # b # c # s) \<longleftrightarrow> a = 10 \<and> b = 10 \<and> c = 10 \<or> triple_break (b # c # s)"
| "triple_break s \<longleftrightarrow> False"

lemma squeeze_shorter: "triple_break s \<Longrightarrow> length (squeeze s) < length s"
proof -
  have le: "length (squeeze s) \<le> length s" for s by (induction s rule: squeeze.induct) auto
  show "triple_break s \<Longrightarrow> length (squeeze s) < length s"
    by (induction s rule: squeeze.induct) (auto simp: less_Suc_eq_le le intro: le_SucI)
qed

function single_breaks :: "ustring \<Rightarrow> ustring" where
  "single_breaks s = (if triple_break s then single_breaks (squeeze s) else s)"
  by auto
termination
  by (relation "measure length") (auto simp: squeeze_shorter)

declare valid_text.simps [simp del] single_breaks.simps [simp del]

definition clean_text :: "ustring \<Rightarrow> ustring" where
  "clean_text s = trim (single_breaks (filter (\<lambda>c. c \<noteq> 0) (line_ends s)))"

definition normalize_text :: "bytes \<Rightarrow> ustring" where
  "normalize_text s = clean_text (valid_text False s)"

fun split_lines :: "ustring \<Rightarrow> ustring list" where
  "split_lines [] = [[]]"
| "split_lines (c # s) =
     (if c = 10 then [] # split_lines s else (case split_lines s of [] \<Rightarrow> [[c]] | l # ls \<Rightarrow> (c # l) # ls))"

definition collapse_space :: "ustring \<Rightarrow> ustring" where
  "collapse_space s =
     clean_text (join [10] (filter (\<lambda>l. l \<noteq> []) (map (\<lambda>l. join [32] (fields_by space_rune l)) (split_lines s))))"

section \<open>Blocks and sections\<close>

definition paragraph_blocks :: "ustring \<Rightarrow> bytes \<Rightarrow> int \<Rightarrow> block list" where
  "paragraph_blocks s section_name page =
     map (\<lambda>p. \<lparr>b_text = p, b_section = section_name, b_page = page\<rparr>) (filter (\<lambda>p. p \<noteq> []) (map trim (split_paragraphs s)))"

text \<open>The ten levels of a heading path, zero for the title of the document.\<close>

definition no_sections :: "ustring list" where "no_sections = replicate 10 []"

definition set_section :: "int \<Rightarrow> ustring \<Rightarrow> ustring list \<Rightarrow> ustring list" where
  "set_section level title levels =
     (if level < 0 \<or> level > 9 then levels
      else take (nat level) levels @ [trim title] @ replicate (9 - nat level) [])"

definition section_name :: "ustring list \<Rightarrow> bytes" where
  "section_name levels =
     (let parts = filter (\<lambda>l. l \<noteq> []) levels;
          parts = (if length parts > 2 then drop (length parts - 2) parts else parts) in
      join '' > '' (map encode parts))"

section \<open>Markdown\<close>

definition hash_rune :: rune where "hash_rune = 35"

definition atx_heading :: "ustring \<Rightarrow> (int \<times> ustring) option" where
  "atx_heading line =
     (let level = length (takeWhile (\<lambda>c. c = hash_rune) line); tail = drop level line in
      if level = 0 \<or> level > 6 \<or> tail = [] \<or> hd tail \<noteq> 32 then None
      else
        (let title = trim (trim_end (\<lambda>c. c = hash_rune) (trim tail)) in
         if title = [] then None else Some (int level, title)))"

definition fence_mark :: "ustring \<Rightarrow> bool" where
  "fence_mark s \<longleftrightarrow> has_prefix s [96, 96, 96] \<or> has_prefix s [126, 126, 126]"

record markdown_state =
  mk_out :: "block list"
  mk_sections :: "ustring list"
  mk_para :: "ustring list"
  mk_fence :: bool

definition flush_para :: "markdown_state \<Rightarrow> markdown_state" where
  "flush_para m =
     (let p = trim (join [10] (mk_para m)) in
      m\<lparr>mk_out := (if p \<noteq> [] then mk_out m @ [\<lparr>b_text = p, b_section = section_name (mk_sections m), b_page = 0\<rparr>] else mk_out m),
        mk_para := []\<rparr>)"

definition markdown_line :: "ustring \<Rightarrow> markdown_state \<Rightarrow> markdown_state" where
  "markdown_line line m =
     (let trimmed = trim line; keep = m\<lparr>mk_para := mk_para m @ [line]\<rparr> in
      if fence_mark trimmed then keep\<lparr>mk_fence := \<not> mk_fence m\<rparr>
      else if mk_fence m then keep
      else
        (case atx_heading trimmed of
           Some (level, title) \<Rightarrow> (let m = flush_para m in m\<lparr>mk_sections := set_section level title (mk_sections m)\<rparr>)
         | None \<Rightarrow> if trimmed = [] then flush_para m else keep))"

definition no_markdown :: markdown_state where
  "no_markdown = \<lparr>mk_out = [], mk_sections = no_sections, mk_para = [], mk_fence = False\<rparr>"

definition extract_markdown :: "ustring \<Rightarrow> block list" where
  "extract_markdown s = mk_out (flush_para (fold markdown_line (split_lines s) no_markdown))"

section \<open>DOCX\<close>

text \<open>
  What the decoder hands over, by the local name of an element: \<open>TextRun\<close> is a \<open>t\<close> with the text
  \<open>DecodeElement\<close> reads to its end, \<open>BrokenXml\<close> any error.
\<close>

datatype docx_token = StartElement bytes "(bytes \<times> bytes) list" | TextRun ustring | EndElement bytes | OtherToken | BrokenXml

record docx_state =
  dx_out :: "block list"
  dx_sections :: "ustring list"
  dx_para :: ustring
  dx_style :: bytes
  dx_in_para :: bool
  dx_cells :: "ustring list"
  dx_cell :: ustring
  dx_in_cell :: bool
  dx_depth :: nat
  dx_cell_has_paras :: bool

definition no_docx :: docx_state where
  "no_docx = \<lparr>dx_out = [], dx_sections = no_sections, dx_para = [], dx_style = [], dx_in_para = False, dx_cells = [],
     dx_cell = [], dx_in_cell = False, dx_depth = 0, dx_cell_has_paras = False\<rparr>"

text \<open>\<open>strconv.Atoi\<close> of what follows the word, as \<open>atoi\<close>; \<open>to_lower\<close> is that of the standard library.\<close>

definition docx_heading_level :: "(bytes \<Rightarrow> bytes) \<Rightarrow> (bytes \<Rightarrow> int option) \<Rightarrow> bytes \<Rightarrow> int option" where
  "docx_heading_level to_lower atoi style =
     (let s = to_lower (filter (\<lambda>c. c \<noteq> CHR '' '') style) in
      if s = ''title'' then Some 0
      else if \<not> has_prefix s ''heading'' then None
      else (case atoi (drop 7 s) of None \<Rightarrow> None | Some n \<Rightarrow> if n < 1 \<or> n > 9 then None else Some n))"

definition emit_para :: "(bytes \<Rightarrow> int option) \<Rightarrow> docx_state \<Rightarrow> docx_state" where
  "emit_para heading x =
     (let t = trim (dx_para x) in
      if t = [] then x
      else
        (case heading (dx_style x) of
           Some level \<Rightarrow> x\<lparr>dx_sections := set_section level t (dx_sections x)\<rparr>
         | None \<Rightarrow> x\<lparr>dx_out := dx_out x @ [\<lparr>b_text = t, b_section = section_name (dx_sections x), b_page = 0\<rparr>]\<rparr>))"

definition row_mark :: "rune \<Rightarrow> bool" where "row_mark c \<longleftrightarrow> c = 32 \<or> c = 124"

definition emit_row :: "docx_state \<Rightarrow> docx_state" where
  "emit_row x =
     (let row = trim (join [32, 124, 32] (dx_cells x)) in
      if dx_depth x > 0 \<and> trim_end row_mark (dropWhile row_mark row) \<noteq> []
      then x\<lparr>dx_out := dx_out x @ [\<lparr>b_text = row, b_section = section_name (dx_sections x), b_page = 0\<rparr>]\<rparr>
      else x)"

definition start_element :: "bytes \<Rightarrow> (bytes \<times> bytes) list \<Rightarrow> docx_state \<Rightarrow> docx_state" where
  "start_element name attrs x =
     (if name = ''tbl'' then x\<lparr>dx_depth := dx_depth x + 1\<rparr>
      else if name = ''tr'' then x\<lparr>dx_cells := []\<rparr>
      else if name = ''tc'' then x\<lparr>dx_in_cell := True, dx_cell := [], dx_cell_has_paras := False\<rparr>
      else if name = ''p'' then x\<lparr>dx_in_para := True, dx_para := [], dx_style := []\<rparr>
      else if name = ''pStyle'' then fold (\<lambda>(a, v) x. if a = ''val'' then x\<lparr>dx_style := v\<rparr> else x) attrs x
      else if name = ''tab'' then (if dx_in_para x then x\<lparr>dx_para := dx_para x @ [9]\<rparr> else x)
      else if name = ''br'' \<or> name = ''cr'' then (if dx_in_para x then x\<lparr>dx_para := dx_para x @ [10]\<rparr> else x)
      else x)"

definition end_element :: "(bytes \<Rightarrow> int option) \<Rightarrow> bytes \<Rightarrow> docx_state \<Rightarrow> docx_state" where
  "end_element heading name x =
     (if name = ''p''
      then (let x = x\<lparr>dx_in_para := False\<rparr> in
            if dx_in_cell x
            then x\<lparr>dx_cell := dx_cell x @ (if dx_cell_has_paras x then [32] else []) @ trim (dx_para x), dx_cell_has_paras := True\<rparr>
            else emit_para heading x)
      else if name = ''tc'' then x\<lparr>dx_in_cell := False, dx_cells := dx_cells x @ [trim (dx_cell x)]\<rparr>
      else if name = ''tr'' then emit_row x
      else if name = ''tbl'' then x\<lparr>dx_depth := dx_depth x - 1\<rparr>
      else x)"

fun walk_docx :: "(bytes \<Rightarrow> int option) \<Rightarrow> docx_token list \<Rightarrow> docx_state \<Rightarrow> docx_state option" where
  "walk_docx heading [] x = Some x"
| "walk_docx heading (BrokenXml # ts) x = None"
| "walk_docx heading (OtherToken # ts) x = walk_docx heading ts x"
| "walk_docx heading (StartElement name attrs # ts) x = walk_docx heading ts (start_element name attrs x)"
| "walk_docx heading (TextRun s # ts) x = walk_docx heading ts (if dx_in_para x then x\<lparr>dx_para := dx_para x @ s\<rparr> else x)"
| "walk_docx heading (EndElement name # ts) x = walk_docx heading ts (end_element heading name x)"

text \<open>The archive's entry for \<open>word/document.xml\<close>: the sizes its header declares and what reading it gives.\<close>

definition maxDocxXML where "maxDocxXML = (33554432::int)"
definition maxDocxRatio where "maxDocxRatio = (100::int)"
definition maxExtractedText where "maxExtractedText = (20971520::int)"

record docx_entry =
  de_uncompressed :: int
  de_compressed :: int
  de_content :: "(int \<times> docx_token list) option"

datatype parse_error =
    UnsupportedFile | TooMuchText | DocxUnreadable | DocxTooBig | DocxRatio | DocxMissing | DocxBroken | DocxNoText
  | HtmlBroken | HtmlNoText | PdfUnreadable | PdfPageTooLong | PdfNoText | PdfPanic | Cancelled

record parsed =
  pa_blocks :: "block list"
  pa_title :: ustring
  pa_pages :: int

definition plain_blocks :: "block list \<Rightarrow> parsed" where
  "plain_blocks bs = \<lparr>pa_blocks = bs, pa_title = [], pa_pages = 0\<rparr>"

definition extract_docx :: "(bytes \<Rightarrow> int option) \<Rightarrow> docx_entry option option \<Rightarrow> parse_error + parsed" where
  "extract_docx heading archive =
     (case archive of
        None \<Rightarrow> Inl DocxUnreadable
      | Some None \<Rightarrow> Inl DocxMissing
      | Some (Some f) \<Rightarrow>
          (if de_uncompressed f > maxDocxXML then Inl DocxTooBig
           else if de_uncompressed f > maxDocxRatio * max (de_compressed f) 1 then Inl DocxRatio
           else
             (case de_content f of
                None \<Rightarrow> Inl DocxUnreadable
              | Some (size_read, tokens) \<Rightarrow>
                  (if size_read > maxDocxXML then Inl DocxTooBig
                   else
                     (case walk_docx heading tokens no_docx of
                        None \<Rightarrow> Inl DocxBroken
                      | Some x \<Rightarrow> if dx_out x = [] then Inl DocxNoText else Inr (plain_blocks (dx_out x)))))))"

section \<open>HTML\<close>

datatype html_node = HtmlText ustring | HtmlElement bytes "html_node list" | HtmlOther "html_node list"

definition children :: "html_node \<Rightarrow> html_node list" where
  "children n = (case n of HtmlText _ \<Rightarrow> [] | HtmlElement _ cs \<Rightarrow> cs | HtmlOther cs \<Rightarrow> cs)"

fun node_text :: "html_node \<Rightarrow> ustring" where
  "node_text (HtmlText s) = s"
| "node_text (HtmlElement t cs) = concat (map node_text cs)"
| "node_text (HtmlOther cs) = concat (map node_text cs)"

text \<open>The node itself or the first one below it, in document order.\<close>

fun find_at :: "(bytes \<Rightarrow> bytes) \<Rightarrow> bytes \<Rightarrow> html_node \<Rightarrow> html_node option" where
  "find_at to_lower tag (HtmlText s) = None"
| "find_at to_lower tag (HtmlElement t cs) =
     (if to_lower t = tag then Some (HtmlElement t cs)
      else foldr (\<lambda>c r. case find_at to_lower tag c of Some x \<Rightarrow> Some x | None \<Rightarrow> r) cs None)"
| "find_at to_lower tag (HtmlOther cs) =
     foldr (\<lambda>c r. case find_at to_lower tag c of Some x \<Rightarrow> Some x | None \<Rightarrow> r) cs None"

definition find_element :: "(bytes \<Rightarrow> bytes) \<Rightarrow> html_node \<Rightarrow> bytes \<Rightarrow> html_node option" where
  "find_element to_lower n tag =
     foldr (\<lambda>c r. case find_at to_lower tag c of Some x \<Rightarrow> Some x | None \<Rightarrow> r) (children n) None"

definition htmlSkip :: "bytes list" where
  "htmlSkip = [''script'', ''style'', ''noscript'', ''nav'', ''header'', ''footer'', ''svg'', ''template'', ''head'']"

definition htmlBlockTags :: "bytes list" where
  "htmlBlockTags =
     [''p'', ''li'', ''td'', ''th'', ''pre'', ''blockquote'', ''div'', ''h1'', ''h2'', ''h3'', ''h4'', ''h5'', ''h6'',
      ''section'', ''article'', ''main'', ''tr'', ''ul'', ''ol'', ''table'', ''body'']"

record html_state =
  hm_out :: "block list"
  hm_sections :: "ustring list"
  hm_cur :: ustring
  hm_title :: ustring

definition flush_html :: "html_state \<Rightarrow> html_state" where
  "flush_html h =
     (let t = collapse_space (hm_cur h) in
      h\<lparr>hm_out := (if t \<noteq> [] then hm_out h @ [\<lparr>b_text = t, b_section = section_name (hm_sections h), b_page = 0\<rparr>] else hm_out h),
        hm_cur := []\<rparr>)"

fun walk_html :: "(bytes \<Rightarrow> bytes) \<Rightarrow> html_node \<Rightarrow> html_state \<Rightarrow> html_state" where
  "walk_html to_lower (HtmlText s) h = h\<lparr>hm_cur := hm_cur h @ s\<rparr>"
| "walk_html to_lower (HtmlOther cs) h = fold (walk_html to_lower) cs h"
| "walk_html to_lower (HtmlElement t cs) h =
     (let tag = to_lower t in
      if tag = ''head''
      then (case find_element to_lower (HtmlElement t cs) ''title'' of
              Some n \<Rightarrow> h\<lparr>hm_title := collapse_space (node_text n)\<rparr>
            | None \<Rightarrow> h)
      else if tag = ''title'' \<or> tag \<in> set htmlSkip then h
      else if tag = ''h1'' \<or> tag = ''h2'' \<or> tag = ''h3''
      then (let h = flush_html h in
            h\<lparr>hm_sections := set_section (int (byte (tag ! 1)) - 48) (collapse_space (concat (map node_text cs))) (hm_sections h)\<rparr>)
      else if tag = ''br'' then h\<lparr>hm_cur := hm_cur h @ [10]\<rparr>
      else if tag \<in> set htmlBlockTags then flush_html (fold (walk_html to_lower) cs (flush_html h))
      else fold (walk_html to_lower) cs h)"

definition no_html :: html_state where
  "no_html = \<lparr>hm_out = [], hm_sections = no_sections, hm_cur = [], hm_title = []\<rparr>"

definition extract_html :: "(bytes \<Rightarrow> bytes) \<Rightarrow> html_node option \<Rightarrow> parse_error + parsed" where
  "extract_html to_lower tree =
     (case tree of
        None \<Rightarrow> Inl HtmlBroken
      | Some root_node \<Rightarrow>
          (let h = flush_html (walk_html to_lower root_node no_html) in
           if hm_out h = [] then Inl HtmlNoText
           else Inr \<lparr>pa_blocks = hm_out h, pa_title = hm_title h, pa_pages = 0\<rparr>))"

section \<open>PDF\<close>

definition maxPDFPages where "maxPDFPages = (2000::nat)"
definition maxPDFPageText where "maxPDFPageText = (2097152::int)"
definition maxPDFTreeNodes where "maxPDFTreeNodes = (10000::nat)"
definition maxPDFTreeDepth where "maxPDFTreeDepth = (64::nat)"

datatype page_text = PageText bytes | PageUnread | PagePanic

record 'p pdf_graph =
  pg_root :: 'p
  pg_type :: "'p \<Rightarrow> bytes"
  pg_kids :: "'p \<Rightarrow> 'p list"
  pg_resources :: "'p \<Rightarrow> bool"
  pg_parent :: "'p \<Rightarrow> 'p option"
  pg_text :: "'p \<Rightarrow> page_text"

text \<open>
  The walk over the page tree: \<open>stack\<close> has its top first, and the children are pushed from the
  last one on while the budget lasts.
\<close>

function walk_pages :: "'p pdf_graph \<Rightarrow> ('p \<times> nat) list \<Rightarrow> nat \<Rightarrow> 'p list \<Rightarrow> nat \<Rightarrow> 'p list \<times> nat" where
  "walk_pages g [] budget pages n = (pages, n)"
| "walk_pages g ((v, depth) # stack) budget pages n =
     (if pg_type g v = ''Page''
      then walk_pages g stack budget (if length pages < maxPDFPages then pages @ [v] else pages) (n + 1)
      else if pg_type g v = ''Pages'' \<and> depth < maxPDFTreeDepth
      then (let kids = pg_kids g v; pushed = drop (length kids - budget) kids in
            walk_pages g (map (\<lambda>k. (k, depth + 1)) pushed @ stack) (budget - length pushed) pages n)
      else walk_pages g stack budget pages n)"
  by pat_completeness auto
termination
  by (relation "measure (\<lambda>(g, stack, budget, pages, n). length stack + 2 * budget)") auto

definition pdf_pages :: "'p pdf_graph \<Rightarrow> 'p list \<times> nat" where
  "pdf_pages g = walk_pages g [(pg_root g, 0)] maxPDFTreeNodes [] 0"

fun parent_chain_ends :: "'p pdf_graph \<Rightarrow> nat \<Rightarrow> 'p option \<Rightarrow> bool" where
  "parent_chain_ends g hops None = True"
| "parent_chain_ends g 0 (Some v) = False"
| "parent_chain_ends g (Suc hops) (Some v) = (pg_resources g v \<or> parent_chain_ends g hops (pg_parent g v))"

definition parent_chain_ok :: "'p pdf_graph \<Rightarrow> 'p \<Rightarrow> bool" where
  "parent_chain_ok g v = parent_chain_ends g maxPDFTreeDepth (Some v)"

text \<open>\<open>gone i\<close>: the deadline has passed when page \<open>i\<close> is looked at.\<close>

fun read_pages :: "'p pdf_graph \<Rightarrow> (nat \<Rightarrow> bool) \<Rightarrow> nat \<Rightarrow> 'p list \<Rightarrow> int \<Rightarrow> block list \<Rightarrow> parse_error + block list" where
  "read_pages g gone i [] sum_read out = Inr out"
| "read_pages g gone i (v # vs) sum_read out =
     (if gone i then Inl Cancelled
      else if \<not> parent_chain_ok g v then read_pages g gone (i + 1) vs sum_read out
      else
        (case pg_text g v of
           PagePanic \<Rightarrow> Inl PdfPanic
         | PageUnread \<Rightarrow> read_pages g gone (i + 1) vs sum_read out
         | PageText s \<Rightarrow>
             (if int (length s) > maxPDFPageText then Inl PdfPageTooLong
              else if sum_read + int (length s) > maxExtractedText then Inl TooMuchText
              else read_pages g gone (i + 1) vs (sum_read + int (length s))
                     (out @ paragraph_blocks (normalize_text s) [] (int i + 1)))))"

definition extract_pdf_pages :: "(nat \<Rightarrow> bool) \<Rightarrow> 'p pdf_graph option \<Rightarrow> parse_error + parsed" where
  "extract_pdf_pages gone pdf =
     (case pdf of
        None \<Rightarrow> Inl PdfUnreadable
      | Some g \<Rightarrow>
          (let (pages, n) = pdf_pages g in
           case read_pages g gone 0 pages 0 [] of
             Inl e \<Rightarrow> Inl e
           | Inr bs \<Rightarrow> if bs = [] then Inl PdfNoText else Inr \<lparr>pa_blocks = bs, pa_title = [], pa_pages = int n\<rparr>))"

section \<open>Every format\<close>

definition SupportedExtensions :: "bytes list" where
  "SupportedExtensions = [''.docx'', ''.htm'', ''.html'', ''.markdown'', ''.md'', ''.pdf'', ''.txt'']"

text \<open>\<open>filepath.Ext\<close>: from the last dot of the last path element.\<close>

definition file_ext :: "bytes \<Rightarrow> bytes" where
  "file_ext filename =
     (let r = rev filename; e = takeWhile (\<lambda>c. c \<noteq> CHR ''.'' \<and> c \<noteq> CHR ''/'') r; rest = drop (length e) r in
      if rest \<noteq> [] \<and> hd rest = CHR ''.'' then CHR ''.'' # rev e else [])"

definition is_supported :: "(bytes \<Rightarrow> bytes) \<Rightarrow> bytes \<Rightarrow> bool" where
  "is_supported to_lower filename \<longleftrightarrow> to_lower (file_ext filename) \<in> set SupportedExtensions"

record 'p parsers =
  ps_lower :: "bytes \<Rightarrow> bytes"
  ps_atoi :: "bytes \<Rightarrow> int option"
  ps_zip :: "bytes \<Rightarrow> docx_entry option option"
  ps_html :: "bytes \<Rightarrow> html_node option"
  ps_pdf :: "bytes \<Rightarrow> 'p pdf_graph option"
  ps_gone :: "nat \<Rightarrow> bool"

definition block_bytes :: "block \<Rightarrow> int" where
  "block_bytes b = int (length (encode (b_text b)))"

text \<open>The sum of the texts, the blocks one by one: the test fails at the first block that passes the limit.\<close>

definition within_limit :: "block list \<Rightarrow> bool" where
  "within_limit bs \<longleftrightarrow> sum_list (map block_bytes bs) \<le> maxExtractedText"

definition extract_format :: "'p parsers \<Rightarrow> bytes \<Rightarrow> bytes \<Rightarrow> parse_error + parsed" where
  "extract_format ps filename data =
     (let ext = ps_lower ps (file_ext filename) in
      if ext = ''.pdf'' then extract_pdf_pages (ps_gone ps) (ps_pdf ps data)
      else if ext = ''.txt''
      then (if int (length data) > maxExtractedText then Inl TooMuchText
            else Inr (plain_blocks (paragraph_blocks (normalize_text data) [] 0)))
      else if ext = ''.md'' \<or> ext = ''.markdown''
      then (if int (length data) > maxExtractedText then Inl TooMuchText
            else Inr (plain_blocks (extract_markdown (normalize_text data))))
      else if ext = ''.docx'' then extract_docx (docx_heading_level (ps_lower ps) (ps_atoi ps)) (ps_zip ps data)
      else if ext = ''.html'' \<or> ext = ''.htm'' then extract_html (ps_lower ps) (ps_html ps data)
      else Inl UnsupportedFile)"

definition extract_text :: "'p parsers \<Rightarrow> bytes \<Rightarrow> bytes \<Rightarrow> parse_error + parsed" where
  "extract_text ps filename data =
     (case extract_format ps filename data of
        Inl e \<Rightarrow> Inl e
      | Inr p \<Rightarrow> if within_limit (pa_blocks p) then Inr p else Inl TooMuchText)"

definition join_blocks :: "block list \<Rightarrow> ustring" where
  "join_blocks bs = join [10, 10] (map b_text bs)"

definition sniff_ok :: "(bytes \<Rightarrow> bytes) \<Rightarrow> bytes \<Rightarrow> bytes \<Rightarrow> bool" where
  "sniff_ok to_lower filename data \<longleftrightarrow>
     (if to_lower (file_ext filename) = ''.docx'' then has_prefix data ''PK'' else True)"

section \<open>What comes out\<close>

lemma triple_break_mid: "triple_break (u @ 10 # 10 # 10 # v)"
proof (induction u)
  case Nil
  show ?case by simp
next
  case (Cons a u)
  then show ?case by (cases "u @ 10 # 10 # 10 # v" rule: triple_break.cases) auto
qed

lemma triple_break_iff: "triple_break s \<longleftrightarrow> (\<exists>u v. s = u @ 10 # 10 # 10 # v)"
proof
  show "triple_break s \<Longrightarrow> \<exists>u v. s = u @ 10 # 10 # 10 # v"
  proof (induction s rule: triple_break.induct)
    case (1 a b c s)
    then show ?case
    proof (cases "a = 10 \<and> b = 10 \<and> c = 10")
      case True
      then have "a # b # c # s = [] @ 10 # 10 # 10 # s" by simp
      then show ?thesis by blast
    next
      case False
      with 1 obtain u v where "b # c # s = u @ 10 # 10 # 10 # v" by auto
      then have "a # b # c # s = (a # u) @ 10 # 10 # 10 # v" by simp
      then show ?thesis by blast
    qed
  qed simp_all
qed (auto simp: triple_break_mid)

lemma triple_break_part: "triple_break t \<Longrightarrow> sublist t s \<Longrightarrow> triple_break s"
proof -
  assume "triple_break t" "sublist t s"
  then obtain u v p q where "t = u @ 10 # 10 # 10 # v" "s = p @ t @ q"
    by (auto simp: triple_break_iff sublist_def)
  then have "s = (p @ u) @ 10 # 10 # 10 # (v @ q)" by simp
  then show ?thesis using triple_break_mid by metis
qed

lemma sublist_trimmed: "sublist (trim s) s"
  using trim_decomp [of s] by (auto simp: sublist_def)

lemma single_breaks_none: "\<not> triple_break (single_breaks s)"
  by (induction s rule: single_breaks.induct) (subst single_breaks.simps, simp)

lemma single_breaks_fixed: "\<not> triple_break s \<Longrightarrow> single_breaks s = s"
  by (subst single_breaks.simps) simp

lemma set_squeeze: "set (squeeze s) \<subseteq> set s"
  by (induction s rule: squeeze.induct) auto

lemma set_single_breaks: "set (single_breaks s) \<subseteq> set s"
proof (induction s rule: single_breaks.induct)
  case (1 s)
  then show ?case using set_squeeze [of s] by (subst single_breaks.simps) auto
qed

lemma no_carriage: "13 \<notin> set (line_ends s)"
  by (induction s rule: line_ends.induct) (auto split: list.splits)

lemma line_ends_fixed: "13 \<notin> set s \<Longrightarrow> line_ends s = s"
  by (induction s rule: line_ends.induct) auto

lemma filter_all: "list_all P s \<Longrightarrow> filter P s = s"
  by (induction s) auto

definition clean :: "ustring \<Rightarrow> bool" where
  "clean s \<longleftrightarrow> 13 \<notin> set s \<and> 0 \<notin> set s \<and> \<not> triple_break s \<and> trim s = s"

lemma clean_cleaned: "clean (clean_text s)"
proof -
  let ?f = "filter (\<lambda>c. c \<noteq> 0) (line_ends s)"
  have "13 \<notin> set ?f" "0 \<notin> set ?f" using no_carriage [of s] by auto
  moreover have "set (clean_text s) \<subseteq> set ?f"
    using set_mono_sublist [OF sublist_trimmed [of "single_breaks ?f"]] set_single_breaks [of ?f]
    by (auto simp: clean_text_def)
  moreover have "\<not> triple_break (clean_text s)"
    using triple_break_part [OF _ sublist_trimmed] single_breaks_none unfolding clean_text_def by blast
  ultimately show ?thesis by (auto simp: clean_def clean_text_def)
qed

lemma clean_fixed: "clean s \<Longrightarrow> clean_text s = s"
proof -
  assume c: "clean s"
  then have "list_all (\<lambda>c. c \<noteq> 0) s" unfolding clean_def list_all_iff by metis
  with c show ?thesis
    by (simp add: clean_text_def clean_def line_ends_fixed filter_all single_breaks_fixed)
qed

text \<open>The text of a file is read once and for all: a second pass of the normalisation changes nothing.\<close>

lemma normal_text_is_normal: "clean (normalize_text s) \<and> clean_text (normalize_text s) = normalize_text s"
  by (simp add: normalize_text_def clean_cleaned clean_fixed)

section \<open>Blocks are never blank\<close>

definition full_block :: "block \<Rightarrow> bool" where
  "full_block b \<longleftrightarrow> b_text b \<noteq> [] \<and> trim (b_text b) = b_text b"

lemma paragraph_blocks_full: "list_all full_block (paragraph_blocks s sec page)"
  by (auto simp: paragraph_blocks_def full_block_def list_all_iff)

lemma flush_para_full: "list_all full_block (mk_out m) \<Longrightarrow> list_all full_block (mk_out (flush_para m))"
  by (simp add: flush_para_def Let_def full_block_def)

lemma markdown_line_full: "list_all full_block (mk_out m) \<Longrightarrow> list_all full_block (mk_out (markdown_line line m))"
  using flush_para_full [of m] by (auto simp: markdown_line_def Let_def split: option.splits)

lemma markdown_lines_full: "list_all full_block (mk_out m) \<Longrightarrow> list_all full_block (mk_out (fold markdown_line ls m))"
  by (induction ls arbitrary: m) (simp_all add: markdown_line_full)

lemma extract_markdown_full: "list_all full_block (extract_markdown s)"
  unfolding extract_markdown_def
  by (rule flush_para_full [OF markdown_lines_full]) (simp add: no_markdown_def)

lemma emit_para_full: "list_all full_block (dx_out x) \<Longrightarrow> list_all full_block (dx_out (emit_para heading x))"
  by (auto simp: emit_para_def Let_def full_block_def split: option.splits)

lemma emit_row_full: "list_all full_block (dx_out x) \<Longrightarrow> list_all full_block (dx_out (emit_row x))"
  by (auto simp: emit_row_def Let_def full_block_def trim_end_def)

lemma styles_keep_out: "dx_out (fold (\<lambda>(a, v) x. if a = n then x\<lparr>dx_style := v\<rparr> else x) attrs x) = dx_out x"
  by (induction attrs arbitrary: x) auto

lemma start_element_out: "dx_out (start_element name attrs x) = dx_out x"
  by (simp add: start_element_def styles_keep_out)

lemma end_element_full: "list_all full_block (dx_out x) \<Longrightarrow> list_all full_block (dx_out (end_element heading name x))"
  using emit_para_full [of "x\<lparr>dx_in_para := False\<rparr>" heading] emit_row_full [of x]
  by (simp add: end_element_def Let_def)

lemma walk_docx_full: "walk_docx heading ts x = Some y \<Longrightarrow> list_all full_block (dx_out x) \<Longrightarrow> list_all full_block (dx_out y)"
  by (induction heading ts x rule: walk_docx.induct)
    (simp_all add: start_element_out end_element_full split: if_splits)

lemma flush_html_full: "list_all full_block (hm_out h) \<Longrightarrow> list_all full_block (hm_out (flush_html h))"
  using clean_cleaned by (auto simp: flush_html_def Let_def full_block_def collapse_space_def clean_def)

lemma fold_keeps: "(\<And>x s. x \<in> set xs \<Longrightarrow> P s \<Longrightarrow> P (f x s)) \<Longrightarrow> P s \<Longrightarrow> P (fold f xs s)"
  by (induction xs arbitrary: s) auto

lemma walk_html_full: "list_all full_block (hm_out h) \<Longrightarrow> list_all full_block (hm_out (walk_html to_lower n h))"
proof (induction to_lower n h rule: walk_html.induct)
  case (2 to_lower cs h)
  then show ?case
    by (simp del: fold_simps) (rule fold_keeps [of _ "\<lambda>h. list_all full_block (hm_out h)"]; blast)
next
  case (3 to_lower t cs h)
  have step: "list_all full_block (hm_out g) \<Longrightarrow> list_all full_block (hm_out (fold (walk_html to_lower) cs g))"
    if "\<And>x s. x \<in> set cs \<Longrightarrow> list_all full_block (hm_out s) \<Longrightarrow> list_all full_block (hm_out (walk_html to_lower x s))" for g
    by (rule fold_keeps [of _ "\<lambda>h. list_all full_block (hm_out h)"]; blast intro: that)
  show ?case
    using 3 flush_html_full [of h] by (auto simp: Let_def intro!: step flush_html_full split: option.splits)
qed simp

lemma read_pages_full:
  "read_pages g gone i vs sum_read out = Inr bs \<Longrightarrow> list_all full_block out \<Longrightarrow> list_all full_block bs"
  by (induction g gone i vs sum_read out rule: read_pages.induct)
    (auto simp: paragraph_blocks_full split: if_splits page_text.splits)

lemma extract_format_full: "extract_format ps filename data = Inr p \<Longrightarrow> list_all full_block (pa_blocks p)"
proof -
  have pdf: "extract_pdf_pages gone pdf = Inr p \<Longrightarrow> list_all full_block (pa_blocks p)" for gone pdf
    using read_pages_full
    by (fastforce simp: extract_pdf_pages_def split: option.splits sum.splits prod.splits if_splits)
  have docx: "extract_docx heading a = Inr p \<Longrightarrow> list_all full_block (pa_blocks p)" for heading a
    using walk_docx_full
    by (fastforce simp: extract_docx_def plain_blocks_def no_docx_def split: option.splits prod.splits if_splits)
  have html: "extract_html low tree = Inr p \<Longrightarrow> list_all full_block (pa_blocks p)" for low tree
    using flush_html_full [OF walk_html_full]
    by (fastforce simp: extract_html_def no_html_def Let_def split: option.splits if_splits)
  assume "extract_format ps filename data = Inr p"
  then show ?thesis
    using pdf docx html
    by (auto simp: extract_format_def Let_def plain_blocks_def paragraph_blocks_full extract_markdown_full split: if_splits)
qed

lemma extracted_not_empty:
  assumes "extract_format ps filename data = Inr p" "pa_blocks p = []"
  shows "ps_lower ps (file_ext filename) \<in> {''.txt'', ''.md'', ''.markdown''}"
proof -
  have pdf: "extract_pdf_pages gone pdf \<noteq> Inr p" for gone pdf
    using assms(2) by (auto simp: extract_pdf_pages_def split: option.splits sum.splits prod.splits if_splits)
  have docx: "extract_docx heading a \<noteq> Inr p" for heading a
    using assms(2) by (auto simp: extract_docx_def plain_blocks_def split: option.splits prod.splits if_splits)
  have html: "extract_html low tree \<noteq> Inr p" for low tree
    using assms(2) by (auto simp: extract_html_def Let_def split: option.splits if_splits)
  show ?thesis
    using assms(1) pdf docx html by (auto simp: extract_format_def Let_def split: if_splits)
qed

text \<open>Whatever was uploaded, in whatever format and however the parser libraries answered: when blocks come
  out, their text together is within the limit, no block is blank and none has white space around it, and a
  DOCX, an HTML page or a PDF without any text is an error rather than an empty document.\<close>

theorem extracted_text_is_bounded:
  "case extract_text ps filename data of
     Inl e \<Rightarrow> extract_format ps filename data = Inl e \<or> e = TooMuchText
   | Inr p \<Rightarrow> sum_list (map block_bytes (pa_blocks p)) \<le> 20 * 2 ^ 20 \<and> list_all full_block (pa_blocks p)
       \<and> (if pa_blocks p = [] then ps_lower ps (file_ext filename) \<in> {''.txt'', ''.md'', ''.markdown''} else True)"
proof (cases "extract_format ps filename data")
  case (Inl e)
  then show ?thesis by (simp add: extract_text_def)
next
  case (Inr p)
  have "pa_blocks p = [] \<Longrightarrow> ps_lower ps (file_ext filename) \<in> {''.txt'', ''.md'', ''.markdown''}"
    using Inr extracted_not_empty by blast
  with Inr extract_format_full [OF Inr] show ?thesis
    by (simp add: extract_text_def within_limit_def maxExtractedText_def)
qed

section \<open>No line of a Markdown file is lost\<close>

text \<open>
  Where a line stands, by the lines before it: inside a fence after an odd number of fence
  marks, a heading only outside one, and under the headings so far.
\<close>

definition open_fence :: "ustring list \<Rightarrow> bool" where
  "open_fence before \<longleftrightarrow> odd (length (filter (\<lambda>l. fence_mark (trim l)) before))"

definition heading_at :: "ustring list \<Rightarrow> ustring \<Rightarrow> (int \<times> ustring) option" where
  "heading_at before line =
     (if open_fence before \<or> fence_mark (trim line) then None else atx_heading (trim line))"

definition section_path :: "ustring list \<Rightarrow> ustring list" where
  "section_path ls =
     fold (\<lambda>i levels. case heading_at (take i ls) (ls ! i) of
             Some (level, title) \<Rightarrow> set_section level title levels | None \<Rightarrow> levels) [0..<length ls] no_sections"

definition line_kept :: "ustring \<Rightarrow> bytes \<Rightarrow> block list \<Rightarrow> bool" where
  "line_kept line sec bs \<longleftrightarrow>
     trim line = [] \<or> list_ex (\<lambda>b. sublist (trim line) (b_text b) \<and> b_section b = sec) bs"

definition line_pending :: "ustring \<Rightarrow> bytes \<Rightarrow> markdown_state \<Rightarrow> bool" where
  "line_pending line sec m \<longleftrightarrow>
     line_kept line sec (mk_out m) \<or> line \<in> set (mk_para m) \<and> section_name (mk_sections m) = sec"

lemma line_kept_append: "line_kept line sec bs \<Longrightarrow> line_kept line sec (bs @ cs)"
  by (auto simp: line_kept_def)

lemma section_path_snoc:
  "section_path (ls @ [l]) =
     (case heading_at ls l of Some (level, title) \<Rightarrow> set_section level title (section_path ls) | None \<Rightarrow> section_path ls)"
proof -
  have "fold (\<lambda>i levels. case heading_at (take i (ls @ [l])) ((ls @ [l]) ! i) of
             Some (level, title) \<Rightarrow> set_section level title levels | None \<Rightarrow> levels) [0..<length ls] no_sections
      = section_path ls"
    unfolding section_path_def by (rule fold_cong) (simp_all add: nth_append fun_eq_iff)
  then show ?thesis by (simp add: section_path_def split: option.split)
qed

lemma sublist_around: "sublist l s \<Longrightarrow> sublist l (u @ s @ v)"
  unfolding sublist_def by (metis append.assoc)

lemma sublist_join: "l \<in> set ls \<Longrightarrow> sublist l (join sep ls)"
proof (induction sep ls rule: join.induct)
  case (3 sep x y xs)
  show ?case
  proof (cases "l = x")
    case True
    then show ?thesis by simp
  next
    case False
    with 3 have "sublist l (join sep (y # xs))" by simp
    then show ?thesis using sublist_around [of l _ "x @ sep" "[]"] by simp
  qed
qed auto

lemma flush_keeps: "line_pending line sec m \<Longrightarrow> line_kept line sec (mk_out (flush_para m))"
proof (cases "line_kept line sec (mk_out m)")
  case True
  then show ?thesis using line_kept_append by (auto simp: flush_para_def Let_def)
next
  case False
  assume "line_pending line sec m"
  with False have line: "line \<in> set (mk_para m)" "section_name (mk_sections m) = sec" by (simp_all add: line_pending_def)
  then have part: "sublist (trim line) (join [10] (mk_para m))"
    using sublist_join sublist_trimmed sublist_order.order.trans by blast
  show ?thesis
  proof (cases "trim line = []")
    case True
    then show ?thesis by (simp add: line_kept_def)
  next
    case False
    with part have "sublist (trim line) (trim (join [10] (mk_para m)))" by (intro sublist_trim) simp_all
    with False line(2) show ?thesis by (auto simp: flush_para_def Let_def line_kept_def)
  qed
qed

lemma flush_sections [simp]: "mk_sections (flush_para m) = mk_sections m" "mk_fence (flush_para m) = mk_fence m"
  by (simp_all add: flush_para_def Let_def)

lemma markdown_line_pending: "line_pending line sec m \<Longrightarrow> line_pending line sec (markdown_line l m)"
  using flush_keeps [of line sec m] by (auto simp: markdown_line_def Let_def line_pending_def split: option.splits)

lemma markdown_lines_pending: "line_pending line sec m \<Longrightarrow> line_pending line sec (fold markdown_line ls m)"
  by (induction ls arbitrary: m) (simp_all add: markdown_line_pending)

lemma markdown_state_at:
  "mk_fence (fold markdown_line ls no_markdown) = open_fence ls
   \<and> mk_sections (fold markdown_line ls no_markdown) = section_path ls"
proof (induction ls rule: rev_induct)
  case Nil
  show ?case by (simp add: no_markdown_def open_fence_def section_path_def)
next
  case (snoc l ls)
  then show ?case
    by (simp add: markdown_line_def Let_def open_fence_def heading_at_def section_path_snoc split: option.split)
qed

lemma markdown_line_takes:
  assumes "mk_fence m = open_fence before" "heading_at before line = None" "trim line \<noteq> []"
  shows "line_pending line (section_name (mk_sections m)) (markdown_line line m)"
  using assms by (auto simp: markdown_line_def Let_def line_pending_def heading_at_def split: option.splits if_splits)

lemma every_line_kept:
  assumes "i < length (split_lines s)" "heading_at (take i (split_lines s)) (split_lines s ! i) = None"
  shows "line_kept (split_lines s ! i) (section_name (section_path (take i (split_lines s)))) (extract_markdown s)"
proof (cases "trim (split_lines s ! i) = []")
  case False
  let ?ls = "split_lines s" and ?m = "fold markdown_line (take i (split_lines s)) no_markdown"
  have "line_pending (?ls ! i) (section_name (section_path (take i ?ls))) (markdown_line (?ls ! i) ?m)"
    using markdown_line_takes [OF _ assms(2) False] markdown_state_at [of "take i ?ls"] by metis
  from markdown_lines_pending [OF this, of "drop (Suc i) ?ls"]
  have "line_pending (?ls ! i) (section_name (section_path (take i ?ls))) (fold markdown_line ?ls no_markdown)"
    using id_take_nth_drop [OF assms(1)] by (metis comp_apply fold_append fold_simps(2))
  from flush_keeps [OF this] show ?thesis by (simp add: extract_markdown_def)
qed (simp add: line_kept_def)

text \<open>C12: Every line of a Markdown file that is neither blank nor a heading stands, white space at its ends
  apart, in one of the blocks as it was written, and that block has the section of the headings above the line.
  A line inside a fenced code block is never a heading, so it stands there whatever it looks like, and so do the
  marks of the fence.\<close>

theorem markdown_loses_no_line:
  "list_all (\<lambda>i. let line = split_lines s ! i; before = take i (split_lines s) in
      (case heading_at before line of
         Some _ \<Rightarrow> True
       | None \<Rightarrow> (if trim line = [] then True
                 else list_ex (\<lambda>b. sublist (trim line) (b_text b) \<and> b_section b = section_name (section_path before))
                   (extract_markdown s))))
     [0..<length (split_lines s)]"
proof -
  have "case heading_at (take i (split_lines s)) (split_lines s ! i) of Some _ \<Rightarrow> True
      | None \<Rightarrow> (if trim (split_lines s ! i) = [] then True
          else list_ex (\<lambda>b. sublist (trim (split_lines s ! i)) (b_text b)
                 \<and> b_section b = section_name (section_path (take i (split_lines s)))) (extract_markdown s))"
    if "i < length (split_lines s)" for i
    using every_line_kept [OF that] by (cases "heading_at (take i (split_lines s)) (split_lines s ! i)") (auto simp: line_kept_def)
  then show ?thesis by (simp add: list_all_iff Let_def)
qed

section \<open>A page tree of any shape\<close>

lemma walk_pages_bounds:
  "length pages \<le> maxPDFPages \<Longrightarrow>
   length (fst (walk_pages g stack budget pages n)) \<le> maxPDFPages
   \<and> snd (walk_pages g stack budget pages n) \<le> n + length stack + budget"
  by (induction g stack budget pages n rule: walk_pages.induct) (fastforce simp: Let_def)+

lemma walk_pages_leaves:
  "list_all (\<lambda>v. pg_type g v = ''Page'') pages \<Longrightarrow>
   list_all (\<lambda>v. pg_type g v = ''Page'') (fst (walk_pages g stack budget pages n))"
  by (induction g stack budget pages n rule: walk_pages.induct) (simp_all add: Let_def)

text \<open>Whatever the page tree of a PDF looks like, with cycles, with a node listed any number of times or nested
  to any depth: the walk ends, it visits at most the budget of nodes and the root, it hands over at most two
  thousand of them, and each is a page.\<close>

theorem page_walk_is_bounded:
  "length (fst (pdf_pages g)) \<le> 2000 \<and> snd (pdf_pages g) \<le> 10001
   \<and> list_all (\<lambda>v. pg_type g v = ''Page'') (fst (pdf_pages g))"
  using walk_pages_bounds [of "[]" g "[(pg_root g, 0)]" maxPDFTreeNodes 0]
    walk_pages_leaves [of g "[]" "[(pg_root g, 0)]" maxPDFTreeNodes 0]
  by (simp add: pdf_pages_def maxPDFPages_def maxPDFTreeNodes_def)

end
