(* ===== verification/Ingest.thy ===== *)
theory Ingest
  imports IngestQueue Parse Retriever Inject
begin

text \<open>
  One document through the pipeline (\<open>internal/rag/ingest.go\<close>): it is read, parsed, split, its
  chunks embedded batch by batch, or given the vectors of an identical document, and stored. The
  reads see the database at different moments, so each is a parameter of the run.
\<close>

section \<open>Settings\<close>

definition DefaultMaxChunks where "DefaultMaxChunks = (20000::int)"
definition defaultEmbedBatch where "defaultEmbedBatch = (32::int)"
definition DefaultMaxAttempts where "DefaultMaxAttempts = (5::int)"
definition DefaultMaxPending where "DefaultMaxPending = (1024::int)"

definition or_int :: "int \<Rightarrow> int \<Rightarrow> int" where "or_int v d = (if v \<le> 0 then d else v)"

record ingest_settings =
  is_max_attempts :: int
  is_max_pending :: int
  is_max_chunks :: int
  is_batch :: int

definition with_ingest_defaults :: "ingest_settings \<Rightarrow> ingest_settings" where
  "with_ingest_defaults s =
     \<lparr>is_max_attempts = or_int (is_max_attempts s) DefaultMaxAttempts,
      is_max_pending = or_int (is_max_pending s) DefaultMaxPending,
      is_max_chunks = or_int (is_max_chunks s) DefaultMaxChunks, is_batch = or_int (is_batch s) defaultEmbedBatch\<rparr>"

section \<open>The backlog\<close>

definition backlogTTL where "backlogTTL = (1000000000::duration)"

record backlog =
  bl_at :: "time option"
  bl_count :: int

text \<open>\<open>counted\<close> is what the database answers, when it is asked.\<close>

definition backlog_depth :: "time \<Rightarrow> int option \<Rightarrow> backlog \<Rightarrow> int option \<times> backlog" where
  "backlog_depth now counted b =
     (if (case bl_at b of None \<Rightarrow> False | Some t \<Rightarrow> now - t < backlogTTL) then (Some (bl_count b), b)
      else (case counted of None \<Rightarrow> (None, b) | Some n \<Rightarrow> (Some n, b\<lparr>bl_at := Some now, bl_count := n\<rparr>)))"

text \<open>Whether the upload is refused; \<open>True\<close> for \<open>ErrQueueFull\<close>.\<close>

definition enqueue :: "int \<Rightarrow> time \<Rightarrow> int option \<Rightarrow> backlog \<Rightarrow> bool \<times> backlog" where
  "enqueue max_pending now counted b =
     (case backlog_depth now counted b of
        (None, b) \<Rightarrow> (False, b)
      | (Some n, b) \<Rightarrow> (n > max_pending, b))"

section \<open>What is embedded\<close>

definition contextual_text :: "bytes \<Rightarrow> chunk \<Rightarrow> bytes" where
  "contextual_text filename c =
     filename @ (if ch_section c \<noteq> [] then middle_dot @ ch_section c else []) @ [CHR 0x0A, CHR 0x0A] @ encode (ch_content c)"

text \<open>The keys in the order they are marshalled in.\<close>

definition chunk_metadata :: "bytes \<Rightarrow> chunk \<Rightarrow> json" where
  "chunk_metadata title c =
     JObj ((if ch_page c > 0 then [(''page'', JNum (format_int (ch_page c)))] else [])
           @ (if ch_section c \<noteq> [] then [(''section'', JStr (ch_section c))] else []) @ [(''title'', JStr title)])"

definition fresh_chunk :: "rag_row \<Rightarrow> bytes \<Rightarrow> bytes \<Rightarrow> chunk \<Rightarrow> 'v new_chunk" where
  "fresh_chunk rs filename title c =
     \<lparr>nc_index = int (ch_index c), nc_content = encode (ch_content c),
      nc_tokens = estimate_tokens (ch_content c) (rg_language rs), nc_metadata = Some (chunk_metadata title c),
      nc_embed_text = (if rg_contextual rs then contextual_text filename c else []), nc_embedding = []\<rparr>"

definition embed_input :: "rag_row \<Rightarrow> bytes \<Rightarrow> chunk \<Rightarrow> bytes" where
  "embed_input rs filename c = (if rg_contextual rs then contextual_text filename c else encode (ch_content c))"

definition embed_tokens :: "usage option \<Rightarrow> bytes list \<Rightarrow> bytes \<Rightarrow> int" where
  "embed_tokens u inputs language =
     (if (case u of None \<Rightarrow> False | Some x \<Rightarrow> us_prompt x > 0) then us_prompt (the u)
      else sum_list (map (\<lambda>i. estimate_tokens (runes i) language) inputs))"

section \<open>Batches\<close>

definition progressParsed where "progressParsed = (10::int)"
definition progressChunked where "progressChunked = (20::int)"

datatype pipeline_error =
    StoreUnread store_error | NoConnection store_error | NoEmbedder go_error | NoContent store_error
  | ParseFailed parse_error | SplitEndless | NoTextChunks | TooManyChunks | EmbedFailed nat go_error | EmbedPanic
  | StoreFailed write_error

text \<open>
  What a run did: the content whose missing hash it recorded, the chunks with the vectors they
  have, the tokens counted, the progress that was written with the page count, and the inputs of
  every call of the embedder.
\<close>

record 'v ingest_run =
  ir_hashed :: "bytes list"
  ir_chunks :: "'v new_chunk list"
  ir_tokens :: int
  ir_progress :: "(int \<times> int option) list"
  ir_calls :: "bytes list list"

definition new_run :: "'v ingest_run" where
  "new_run = \<lparr>ir_hashed = [], ir_chunks = [], ir_tokens = 0, ir_progress = [], ir_calls = []\<rparr>"

text \<open>An answer with more vectors than there are chunks left is an index out of range.\<close>

definition set_embeddings :: "nat \<Rightarrow> 'v list list \<Rightarrow> 'v new_chunk list \<Rightarrow> 'v new_chunk list option" where
  "set_embeddings i vecs cs =
     (if i + length vecs > length cs then None
      else Some (take i cs @ map2 (\<lambda>c v. c\<lparr>nc_embedding := v\<rparr>) (drop i cs) vecs @ drop (i + length vecs) cs))"

function embed_batches ::
  "(bytes list \<Rightarrow> 'v embedded) \<Rightarrow> bytes \<Rightarrow> nat \<Rightarrow> bytes list \<Rightarrow> nat \<Rightarrow> 'v ingest_run \<Rightarrow> pipeline_error option \<times> 'v ingest_run" where
  "embed_batches emb language batch inputs i r =
     (if i \<ge> length inputs \<or> batch = 0 then (None, r)
      else
        (let stop = min (i + batch) (length inputs); part = take (stop - i) (drop i inputs);
             r = r\<lparr>ir_calls := ir_calls r @ [part]\<rparr> in
         case emb part of
           Inl x \<Rightarrow> (Some (EmbedFailed (i div batch) x), r)
         | Inr (vecs, u) \<Rightarrow>
             (case set_embeddings i vecs (ir_chunks r) of
                None \<Rightarrow> (Some EmbedPanic, r)
              | Some cs \<Rightarrow>
                  embed_batches emb language batch inputs (i + batch)
                    (r\<lparr>ir_chunks := cs, ir_tokens := ir_tokens r + embed_tokens u part language,
                       ir_progress := ir_progress r
                         @ (if stop < length inputs
                            then [(progressChunked + (100 - progressChunked) * int stop div int (length inputs), None)]
                            else [])\<rparr>))))"
  by auto
termination
  by (relation "measure (\<lambda>(emb, language, batch, inputs, i, r). length inputs - i)") auto

declare embed_batches.simps [simp del]

section \<open>Vectors of an identical document\<close>

record 'v donor_chunk =
  dc_index :: int
  dc_content :: bytes
  dc_embed_text :: bytes
  dc_embedding :: "'v list"

definition document_chunk_vectors :: "'v rag_db \<Rightarrow> int \<Rightarrow> nat \<Rightarrow> 'v donor_chunk list option" where
  "document_chunk_vectors db i dims =
     (if dims < 1 \<or> dims > maxVectorDims then None
      else Some (map (\<lambda>c. \<lparr>dc_index = sd_index c, dc_content = sd_content c,
                     dc_embed_text = (case sd_embed_text c of Some s \<Rightarrow> s | None \<Rightarrow> []), dc_embedding = sd_embedding c\<rparr>)
                 (sort_key sd_index
                   (filter (\<lambda>c. sd_document c = i \<and> length (sd_embedding c) = dims) (rd_chunks db)))))"

definition same_chunk :: "nat \<Rightarrow> 'v donor_chunk \<Rightarrow> 'v new_chunk \<Rightarrow> bool" where
  "same_chunk dims v c \<longleftrightarrow>
     dc_index v = nc_index c \<and> dc_content v = nc_content c \<and> dc_embed_text v = nc_embed_text c
     \<and> length (dc_embedding v) = dims"

definition same_chunks :: "'v donor_chunk list \<Rightarrow> 'v new_chunk list \<Rightarrow> nat \<Rightarrow> bool" where
  "same_chunks vecs cs dims \<longleftrightarrow> list_all2 (same_chunk dims) vecs cs"

definition maxDedupCandidates where "maxDedupCandidates = (3::nat)"

definition borrow :: "'v donor_chunk list \<Rightarrow> 'v new_chunk list \<Rightarrow> 'v new_chunk list" where
  "borrow vecs cs = map2 (\<lambda>c v. c\<lparr>nc_embedding := dc_embedding v\<rparr>) cs vecs"

fun try_donors ::
  "(int \<Rightarrow> nat \<Rightarrow> 'v donor_chunk list option) \<Rightarrow> nat \<Rightarrow> 'v new_chunk list \<Rightarrow> document list \<Rightarrow> 'v new_chunk list option" where
  "try_donors vectors dims cs [] = None"
| "try_donors vectors dims cs (d # ds) =
     (case vectors (d_id d) dims of
        None \<Rightarrow> try_donors vectors dims cs ds
      | Some vecs \<Rightarrow> if same_chunks vecs cs dims then Some (borrow vecs cs) else try_donors vectors dims cs ds)"

record ('v, 'p) ingest_env =
  ie_store :: "store_error + rag_row"
  ie_connection :: "int \<Rightarrow> store_error + model_connection"
  ie_factory :: "model_connection \<Rightarrow> go_error + (bytes list \<Rightarrow> 'v embedded)"
  ie_content :: "store_error + bytes"
  ie_parsers :: "'p parsers"
  ie_donors :: "bool \<Rightarrow> nat \<Rightarrow> document list option"
  ie_vectors :: "int \<Rightarrow> nat \<Rightarrow> 'v donor_chunk list option"

definition reuse_embeddings :: "('v, 'p) ingest_env \<Rightarrow> document \<Rightarrow> rag_row \<Rightarrow> 'v new_chunk list \<Rightarrow> 'v new_chunk list option" where
  "reuse_embeddings e doc rs cs =
     (if d_chunk_count doc \<noteq> 0 \<or> rg_dims rs < 1 then None
      else
        (case ie_donors e (rg_contextual rs) maxDedupCandidates of
           None \<Rightarrow> None
         | Some donors \<Rightarrow> try_donors (ie_vectors e) (rg_dims rs) cs donors))"

section \<open>The pipeline\<close>

definition embed_document ::
  "ingest_settings \<Rightarrow> ('v, 'p) ingest_env \<Rightarrow> document \<Rightarrow> rag_row \<Rightarrow> (bytes list \<Rightarrow> 'v embedded) \<Rightarrow> parsed
   \<Rightarrow> 'v ingest_run \<Rightarrow> pipeline_error option \<times> 'v ingest_run" where
  "embed_document s e doc rs emb p r =
     (let r = r\<lparr>ir_progress := ir_progress r @ [(progressParsed, if pa_pages p > 0 then Some (pa_pages p) else None)]\<rparr> in
      case split_blocks (pa_blocks p) (rg_chunk_size rs) (rg_chunk_overlap rs) of
        None \<Rightarrow> (Some SplitEndless, r)
      | Some ps \<Rightarrow>
          (if ps = [] then (Some NoTextChunks, r)
           else if int (length ps) > is_max_chunks s then (Some TooManyChunks, r)
           else
             (let title = (if pa_title p = [] then d_filename doc else encode (pa_title p));
                  cs = map (fresh_chunk rs (d_filename doc) title) ps;
                  r = r\<lparr>ir_progress := ir_progress r @ [(progressChunked, None)], ir_chunks := cs\<rparr> in
              case reuse_embeddings e doc rs cs of
                Some cs \<Rightarrow> (None, r\<lparr>ir_chunks := cs\<rparr>)
              | None \<Rightarrow>
                  embed_batches emb (rg_language rs) (nat (is_batch s)) (map (embed_input rs (d_filename doc)) ps) 0 r)))"

text \<open>Up to the write; the row of the store is the one that was read first.\<close>

definition prepare_document ::
  "ingest_settings \<Rightarrow> ('v, 'p) ingest_env \<Rightarrow> document \<Rightarrow> pipeline_error option \<times> 'v ingest_run" where
  "prepare_document s e doc =
     (case ie_store e of
        Inl x \<Rightarrow> (Some (StoreUnread x), new_run)
      | Inr rs \<Rightarrow>
          (case ie_connection e (rg_connection rs) of
             Inl x \<Rightarrow> (Some (NoConnection x), new_run)
           | Inr conn \<Rightarrow>
               (case ie_factory e conn of
                  Inl x \<Rightarrow> (Some (NoEmbedder x), new_run)
                | Inr emb \<Rightarrow>
                    (case ie_content e of
                       Inl x \<Rightarrow> (Some (NoContent x), new_run)
                     | Inr data \<Rightarrow>
                         (let r = new_run\<lparr>ir_hashed := (if d_hash doc = None then [data] else [])\<rparr> in
                          case extract_text (ie_parsers e) (d_filename doc) data of
                            Inl x \<Rightarrow> (Some (ParseFailed x), r)
                          | Inr p \<Rightarrow> embed_document s e doc rs emb p r)))))"

text \<open>What a run wrote to the row, in order: the hash, then the progress with the test of the owner.\<close>

definition write_back :: "(bytes \<Rightarrow> bytes) \<Rightarrow> int \<Rightarrow> bytes \<Rightarrow> 'v ingest_run \<Rightarrow> document list \<Rightarrow> document list" where
  "write_back sum256 i owner r docs =
     fold (\<lambda>(percent, pages) docs. snd (set_document_progress i percent pages owner docs)) (ir_progress r)
       (fold (\<lambda>c. set_content_hash i (sum256 c)) (ir_hashed r) docs)"

text \<open>
  \<open>sum256\<close> is the digest, \<open>before\<close> and \<open>db\<close> the database when the write is tested and when its
  transaction runs.
\<close>

definition run_pipeline ::
  "(bytes \<Rightarrow> bytes) \<Rightarrow> ingest_settings \<Rightarrow> ('v, 'p) ingest_env \<Rightarrow> write_env \<Rightarrow> document \<Rightarrow> bytes \<Rightarrow> 'v rag_db \<Rightarrow> 'v rag_db
   \<Rightarrow> (pipeline_error + nat) \<times> 'v rag_db" where
  "run_pipeline sum256 s e w doc owner before db =
     (case prepare_document s e doc of
        (Some x, r) \<Rightarrow> (Inl x, db\<lparr>rd_documents := write_back sum256 (d_id doc) owner r (rd_documents db)\<rparr>)
      | (None, r) \<Rightarrow>
          (let db = db\<lparr>rd_documents := write_back sum256 (d_id doc) owner r (rd_documents db)\<rparr>;
               conn = (case ie_store e of Inr rs \<Rightarrow> rg_connection rs | Inl _ \<Rightarrow> 0) in
           case replace_document_chunks_from w before (d_id doc) (d_store doc) conn (ir_chunks r) owner db of
             (Some x, db) \<Rightarrow> (Inl (StoreFailed x), db)
           | (None, db) \<Rightarrow> (Inr (length (ir_chunks r)), db)))"

text \<open>The message of a failure, cut to what the column holds.\<close>

definition truncate_message :: "bytes \<Rightarrow> nat \<Rightarrow> bytes" where
  "truncate_message s n = (if length s \<le> n then s else take n s)"

section \<open>Every chunk has the vector of its own text\<close>

lemma set_embeddings_length: "set_embeddings i vecs cs = Some ds \<Longrightarrow> length ds = length cs"
  by (auto simp: set_embeddings_def split: if_splits)

lemma set_embeddings_nth:
  assumes "set_embeddings i vecs cs = Some ds" "j < length cs"
  shows "ds ! j = (if i \<le> j \<and> j < i + length vecs then (cs ! j)\<lparr>nc_embedding := vecs ! (j - i)\<rparr> else cs ! j)"
proof -
  from assms(1) have le: "i + length vecs \<le> length cs"
    and ds: "ds = take i cs @ map2 (\<lambda>c v. c\<lparr>nc_embedding := v\<rparr>) (drop i cs) vecs @ drop (i + length vecs) cs"
    by (auto simp: set_embeddings_def split: if_splits)
  show ?thesis
    using le assms(2) by (auto simp: ds nth_append)
qed

definition batch_start :: "nat \<Rightarrow> nat \<Rightarrow> nat" where "batch_start batch j = j div batch * batch"

definition has_own_vector :: "(bytes list \<Rightarrow> 'v embedded) \<Rightarrow> nat \<Rightarrow> bytes list \<Rightarrow> nat \<Rightarrow> 'v list \<Rightarrow> bool" where
  "has_own_vector emb batch inputs j v \<longleftrightarrow>
     (case emb (take batch (drop (batch_start batch j) inputs)) of
        Inl _ \<Rightarrow> False
      | Inr (vecs, u) \<Rightarrow> j - batch_start batch j < length vecs \<and> v = vecs ! (j - batch_start batch j))"

lemma batch_start_at: "0 < batch \<Longrightarrow> batch dvd i \<Longrightarrow> i \<le> j \<Longrightarrow> j < i + batch \<Longrightarrow> batch_start batch j = i"
proof -
  assume a: "0 < batch" "batch dvd i" "i \<le> j" "j < i + batch"
  then obtain k where i: "i = k * batch" by (metis dvd_div_mult_self)
  from a i have "j div batch = k"
    by (intro div_nat_eqI) (simp_all add: algebra_simps)
  then show ?thesis by (simp add: batch_start_def i)
qed

text \<open>One successful batch: what comes out of it.\<close>

definition after_batch ::
  "bytes \<Rightarrow> nat \<Rightarrow> bytes list \<Rightarrow> nat \<Rightarrow> 'v new_chunk list \<Rightarrow> usage option \<Rightarrow> 'v ingest_run \<Rightarrow> 'v ingest_run" where
  "after_batch language batch inputs i cs u r =
     (let part = take batch (drop i inputs); stop = min (i + batch) (length inputs) in
      r\<lparr>ir_calls := ir_calls r @ [part], ir_chunks := cs, ir_tokens := ir_tokens r + embed_tokens u part language,
        ir_progress := ir_progress r
          @ (if stop < length inputs
             then [(progressChunked + (100 - progressChunked) * int stop div int (length inputs), None)] else [])\<rparr>)"

lemma batch_part: "i < n \<Longrightarrow> length xs = n \<Longrightarrow> take (min (i + batch) n - i) (drop i xs) = take batch (drop i xs)"
  by (simp add: min_def)

lemma embed_batches_end: "length inputs \<le> i \<Longrightarrow> embed_batches emb language batch inputs i r = (None, r)"
  by (simp add: embed_batches.simps)

lemma embed_batches_step:
  assumes "i < length inputs" "0 < batch"
  shows "embed_batches emb language batch inputs i r =
    (let part = take batch (drop i inputs) in
     case emb part of
       Inl x \<Rightarrow> (Some (EmbedFailed (i div batch) x), r\<lparr>ir_calls := ir_calls r @ [part]\<rparr>)
     | Inr (vecs, u) \<Rightarrow>
         (case set_embeddings i vecs (ir_chunks r) of
            None \<Rightarrow> (Some EmbedPanic, r\<lparr>ir_calls := ir_calls r @ [part]\<rparr>)
          | Some cs \<Rightarrow> embed_batches emb language batch inputs (i + batch) (after_batch language batch inputs i cs u r)))"
  using assms by (subst embed_batches.simps)
    (simp add: Let_def batch_part after_batch_def split: sum.split prod.split option.split)

lemma after_batch_simps [simp]:
  "ir_chunks (after_batch language batch inputs i cs u r) = cs"
  "ir_hashed (after_batch language batch inputs i cs u r) = ir_hashed r"
  "ir_calls (after_batch language batch inputs i cs u r) = ir_calls r @ [take batch (drop i inputs)]"
  by (simp_all add: after_batch_def Let_def)

lemma embed_batches_vectors:
  assumes "embedder emb" "0 < batch"
  shows "embed_batches emb language batch inputs i r = (None, r') \<Longrightarrow> length (ir_chunks r) = length inputs \<Longrightarrow> batch dvd i \<Longrightarrow>
    length (ir_chunks r') = length inputs
    \<and> (\<forall>j < length inputs. if j < i then ir_chunks r' ! j = ir_chunks r ! j
         else (\<exists>v. ir_chunks r' ! j = (ir_chunks r ! j)\<lparr>nc_embedding := v\<rparr> \<and> has_own_vector emb batch inputs j v))"
proof (induction "length inputs - i" arbitrary: i r rule: less_induct)
  case less
  show ?case
  proof (cases "i < length inputs")
    case False
    with less.prems show ?thesis by (simp add: embed_batches_end)
  next
    case True
    let ?part = "take batch (drop i inputs)"
    from less.prems(1) True assms(2) obtain vecs u cs
      where e: "emb ?part = Inr (vecs, u)" and c: "set_embeddings i vecs (ir_chunks r) = Some cs"
        and run: "embed_batches emb language batch inputs (i + batch) (after_batch language batch inputs i cs u r) = (None, r')"
      by (auto simp: embed_batches_step Let_def split: sum.splits option.splits)
    have len: "length vecs = min batch (length inputs - i)"
      using embedder.one_each [OF assms(1) e] by simp
    have cs: "length cs = length inputs" using set_embeddings_length [OF c] less.prems(2) by simp
    have at: "cs ! j = (if i \<le> j \<and> j < i + batch then (ir_chunks r ! j)\<lparr>nc_embedding := vecs ! (j - i)\<rparr> else ir_chunks r ! j)"
      if "j < length inputs" for j
      using set_embeddings_nth [OF c, of j] that less.prems(2) len by auto
    have own: "has_own_vector emb batch inputs j (vecs ! (j - i))" if "i \<le> j" "j < i + batch" "j < length inputs" for j
      using that e len batch_start_at [OF assms(2) less.prems(3), of j] by (simp add: has_own_vector_def) arith
    have IH: "length (ir_chunks r') = length inputs
      \<and> (\<forall>j < length inputs. if j < i + batch then ir_chunks r' ! j = cs ! j
         else (\<exists>v. ir_chunks r' ! j = (cs ! j)\<lparr>nc_embedding := v\<rparr> \<and> has_own_vector emb batch inputs j v))"
    proof -
      have "length inputs - (i + batch) < length inputs - i" "batch dvd i + batch"
        using True assms(2) less.prems(3) by (simp_all add: dvd_add)
      then show ?thesis using less.hyps [OF _ run, unfolded after_batch_simps] cs by blast
    qed
    have "if j < i then ir_chunks r' ! j = ir_chunks r ! j
         else (\<exists>v. ir_chunks r' ! j = (ir_chunks r ! j)\<lparr>nc_embedding := v\<rparr> \<and> has_own_vector emb batch inputs j v)"
      if "j < length inputs" for j
    proof (cases "j < i + batch")
      case True
      with IH that have "ir_chunks r' ! j = cs ! j" by simp
      with True at [OF that] own [of j] that show ?thesis by auto
    next
      case False
      with IH that at [OF that] show ?thesis by auto
    qed
    with IH show ?thesis by blast
  qed
qed

section \<open>What the embedder is asked\<close>

lemma embed_batches_calls:
  assumes "0 < batch" "batch dvd i"
  shows "\<exists>zs. ir_calls (snd (embed_batches emb language batch inputs i r)) = ir_calls r @ zs
    \<and> prefix (concat zs) (drop i inputs) \<and> list_all (\<lambda>z. z \<noteq> [] \<and> length z \<le> batch) zs
    \<and> (fst (embed_batches emb language batch inputs i r) = None \<longrightarrow> concat zs = drop i inputs)"
  using assms(2)
proof (induction "length inputs - i" arbitrary: i r rule: less_induct)
  case less
  show ?case
  proof (cases "i < length inputs")
    case False
    then show ?thesis by (simp add: embed_batches_end)
  next
    case True
    let ?part = "take batch (drop i inputs)"
    have one: "prefix ?part (drop i inputs)" "?part \<noteq> []" "length ?part \<le> batch"
      using True assms(1) by (auto simp: take_is_prefix)
    have rest: "?part @ drop (i + batch) inputs = drop i inputs"
      by (metis append_take_drop_id drop_drop add.commute)
    show ?thesis
    proof (cases "\<exists>vecs u cs. emb ?part = Inr (vecs, u) \<and> set_embeddings i vecs (ir_chunks r) = Some cs")
      case False
      with True assms(1) have "ir_calls (snd (embed_batches emb language batch inputs i r)) = ir_calls r @ [?part]"
        "fst (embed_batches emb language batch inputs i r) \<noteq> None"
        by (auto simp: embed_batches_step Let_def split: sum.splits option.splits)
      with one show ?thesis by (intro exI [of _ "[?part]"]) (simp only: concat.simps append_Nil2 list.pred_inject simp_thms)
    next
      case ok: True
      then obtain vecs u cs where e: "emb ?part = Inr (vecs, u)" "set_embeddings i vecs (ir_chunks r) = Some cs" by blast
      let ?r = "after_batch language batch inputs i cs u r"
      have run: "embed_batches emb language batch inputs i r = embed_batches emb language batch inputs (i + batch) ?r"
        using True assms(1) e by (simp add: embed_batches_step Let_def)
      have "length inputs - (i + batch) < length inputs - i" "batch dvd i + batch"
        using True assms(1) less.prems by (simp_all add: dvd_add)
      note hyp = less.hyps [OF this, of ?r]
      from hyp obtain zs where zs:
        "ir_calls (snd (embed_batches emb language batch inputs (i + batch) ?r)) = ir_calls ?r @ zs"
        "prefix (concat zs) (drop (i + batch) inputs)" "list_all (\<lambda>z. z \<noteq> [] \<and> length z \<le> batch) zs"
        "fst (embed_batches emb language batch inputs (i + batch) ?r) = None \<longrightarrow> concat zs = drop (i + batch) inputs"
        by (elim exE conjE) (rule that)
      have "prefix (?part @ concat zs) (drop i inputs)" using zs(2) rest by (metis same_prefix_prefix)
      moreover have "ir_calls (snd (embed_batches emb language batch inputs i r)) = ir_calls r @ ?part # zs"
        unfolding run zs(1) by simp
      moreover have "fst (embed_batches emb language batch inputs i r) = None \<Longrightarrow> ?part @ concat zs = drop i inputs"
        using zs(4) rest unfolding run by simp
      ultimately show ?thesis using zs(3) one by (intro exI [of _ "?part # zs"]) (simp only: concat.simps list.pred_inject simp_thms, blast)
    qed
  qed
qed

section \<open>Progress\<close>

definition climbing :: "int \<Rightarrow> 'v ingest_run \<Rightarrow> bool" where
  "climbing p r \<longleftrightarrow> sorted (map fst (ir_progress r)) \<and> list_all (\<lambda>x. 10 \<le> fst x \<and> fst x \<le> p) (ir_progress r)"

lemma climbing_weaken: "climbing p r \<Longrightarrow> p \<le> q \<Longrightarrow> climbing q r"
  by (auto simp: climbing_def list_all_iff)

definition reached :: "nat \<Rightarrow> nat \<Rightarrow> int" where "reached i n = 20 + 80 * int i div int n"

lemma reached_mono: "i \<le> j \<Longrightarrow> reached i n \<le> reached j n"
  by (cases "n = 0") (auto simp: reached_def intro!: zdiv_mono1)

lemma reached_below: "i < n \<Longrightarrow> reached i n \<le> 99"
proof -
  assume "i < n"
  then have "80 * i div n < 80" by (intro less_mult_imp_div_less) simp
  then have "int (80 * i div n) < 80" by linarith
  then have "80 * int i div int n < 80" by (simp add: zdiv_int)
  then show ?thesis by (simp add: reached_def)
qed

lemma after_batch_climbing:
  assumes "climbing (reached i n) r" "n = length inputs" "i < n"
  shows "climbing (min 99 (reached (i + batch) n)) (after_batch language batch inputs i cs u r)"
proof -
  have le: "reached i n \<le> min 99 (reached (i + batch) n)"
    using reached_mono [of i "i + batch" n] reached_below [OF assms(3)] by simp
  have ten: "10 \<le> reached k n" for k using pos_imp_zdiv_nonneg_iff [of "int n" "80 * int k"] by (cases "n = 0") (simp_all add: reached_def)
  show ?thesis
  proof (cases "i + batch < n")
    case True
    then have "ir_progress (after_batch language batch inputs i cs u r) = ir_progress r @ [(reached (i + batch) n, None)]"
      using assms(2) by (simp add: after_batch_def Let_def reached_def progressChunked_def)
    with assms(1) le ten [of "i + batch"] reached_below [OF True] reached_mono [of i "i + batch" n] show ?thesis
      by (auto simp: climbing_def list_all_iff sorted_append)
  next
    case False
    then have "ir_progress (after_batch language batch inputs i cs u r) = ir_progress r"
      using assms(2) by (simp add: after_batch_def Let_def)
    with assms(1) le show ?thesis by (auto simp: climbing_def list_all_iff)
  qed
qed

lemma embed_batches_climbing:
  assumes "0 < batch"
  shows "climbing (min 99 (reached i (length inputs))) r \<Longrightarrow> climbing 99 (snd (embed_batches emb language batch inputs i r))"
proof (induction "length inputs - i" arbitrary: i r rule: less_induct)
  case less
  show ?case
  proof (cases "i < length inputs")
    case False
    with less.prems show ?thesis by (auto simp: embed_batches_end intro: climbing_weaken)
  next
    case True
    have same: "climbing p (r\<lparr>ir_calls := x\<rparr>) = climbing p r" for p x by (simp add: climbing_def)
    have 99: "climbing 99 r" using less.prems by (auto intro: climbing_weaken)
    have at: "climbing (reached i (length inputs)) r" using less.prems by (auto intro: climbing_weaken)
    show ?thesis
      using True assms less.hyps [OF _ after_batch_climbing [OF at refl True]] 99
      by (auto simp: embed_batches_step Let_def same split: sum.split option.split)
  qed
qed

lemma settings_positive: "0 < is_batch (with_ingest_defaults s)" "0 < is_max_chunks (with_ingest_defaults s)"
  by (simp_all add: with_ingest_defaults_def or_int_def defaultEmbedBatch_def DefaultMaxChunks_def)

lemma embed_document_climbing:
  fixes r :: "'v ingest_run"
  assumes "ir_progress r = []" "0 < is_batch s"
  shows "climbing 99 (snd (embed_document s e doc rs emb p r))"
proof -
  have start: "climbing 20 (x\<lparr>ir_progress := [(10, pages), (20, None)], ir_chunks := cs\<rparr>)" for x :: "'v ingest_run" and pages cs
    by (simp add: climbing_def)
  have 20: "min 99 (reached 0 n) = 20" for n by (simp add: reached_def)
  have "climbing 99 (snd (embed_batches emb l (nat (is_batch s)) inputs 0 (x\<lparr>ir_progress := [(10, pages), (20, None)], ir_chunks := cs\<rparr>)))"
    for l inputs pages cs and x :: "'v ingest_run"
    using start assms(2) by (intro embed_batches_climbing) (simp_all add: 20)
  moreover have "climbing 99 (x\<lparr>ir_progress := [(10, pages)]\<rparr>)" "climbing 99 (x\<lparr>ir_progress := [(10, pages), (20, None)], ir_chunks := cs\<rparr>)"
    for x :: "'v ingest_run" and pages cs
    by (simp_all add: climbing_def)
  ultimately show ?thesis
    using assms(1) by (simp add: embed_document_def Let_def progressParsed_def progressChunked_def split: option.split)
qed

lemma prepare_document_parts:
  assumes "\<And>h p emb rs. Q (embed_document s e doc rs emb p (new_run\<lparr>ir_hashed := h\<rparr>))"
    "\<And>x h. Q (Some x, new_run\<lparr>ir_hashed := h\<rparr>)"
  shows "Q (prepare_document s e doc)"
proof -
  have "Q (Some x, new_run)" for x using assms(2) [of x "[]"] by (simp add: new_run_def)
  with assms show ?thesis by (auto simp: prepare_document_def Let_def split: sum.split)
qed

text \<open>The progress a run writes never goes back, starts at ten percent and stays below the hundred that the write
  of the chunks sets, whatever the number of chunks, the size of a batch and the point the run fails at.\<close>

theorem progress_climbs:
  "(let ps = map fst (ir_progress (snd (prepare_document (with_ingest_defaults s) e doc))) in
    sorted ps \<and> list_all (\<lambda>p. 10 \<le> p \<and> p < 100) ps)"
proof -
  have "climbing 99 (snd (prepare_document (with_ingest_defaults s) e doc))"
    by (rule prepare_document_parts [where Q = "\<lambda>x. climbing 99 (snd x)"])
      (simp_all add: embed_document_climbing settings_positive new_run_def, simp add: climbing_def)
  then show ?thesis by (auto simp: climbing_def list_all_iff Let_def)
qed

lemma embed_document_calls:
  fixes r :: "'v ingest_run"
  assumes "ir_calls r = []" "0 < is_batch s" "0 < is_max_chunks s"
  shows "length (concat (ir_calls (snd (embed_document s e doc rs emb p r)))) \<le> nat (is_max_chunks s)
    \<and> list_all (\<lambda>z. z \<noteq> [] \<and> length z \<le> nat (is_batch s)) (ir_calls (snd (embed_document s e doc rs emb p r)))"
proof -
  have "length (concat (ir_calls (snd (embed_batches emb l (nat (is_batch s)) inputs 0 x)))) \<le> length inputs
    \<and> list_all (\<lambda>z. z \<noteq> [] \<and> length z \<le> nat (is_batch s)) (ir_calls (snd (embed_batches emb l (nat (is_batch s)) inputs 0 x)))"
    if "ir_calls x = []" for l inputs and x :: "'v ingest_run"
    using embed_batches_calls [of "nat (is_batch s)" 0 emb l inputs x] assms(2) that
    by (auto dest: prefix_length_le)
  note run = this
  show ?thesis
    using assms by (auto simp: embed_document_def Let_def run split: option.split intro: order.trans [OF conjunct1 [OF run]])
qed

text \<open>C11: A document is embedded at most once and never beyond the limit: all the texts a run sends to the embedding
  model, over all its calls, are no more than the cap on chunks, and no call carries more than a batch or nothing.\<close>

theorem embedding_stays_within_the_cap:
  "(let st = with_ingest_defaults s; calls = ir_calls (snd (prepare_document st e doc)) in
    int (length (concat calls)) \<le> is_max_chunks st
    \<and> list_all (\<lambda>z. z \<noteq> [] \<and> int (length z) \<le> is_batch st) calls)"
proof -
  let ?st = "with_ingest_defaults s"
  have "length (concat (ir_calls (snd (prepare_document ?st e doc)))) \<le> nat (is_max_chunks ?st)
    \<and> list_all (\<lambda>z. z \<noteq> [] \<and> length z \<le> nat (is_batch ?st)) (ir_calls (snd (prepare_document ?st e doc)))"
    by (rule prepare_document_parts [where Q = "\<lambda>x. length (concat (ir_calls (snd x))) \<le> nat (is_max_chunks ?st)
      \<and> list_all (\<lambda>z. z \<noteq> [] \<and> length z \<le> nat (is_batch ?st)) (ir_calls (snd x))"])
      (auto simp: new_run_def settings_positive embed_document_calls)
  then show ?thesis
    using settings_positive [of s] by (auto simp: Let_def list_all_iff nat_le_eq_zle)
qed

section \<open>From the file to the rows\<close>

text \<open>Some donor holds this text at this place with this vector.\<close>

definition donated ::
  "('v, 'p) ingest_env \<Rightarrow> rag_row \<Rightarrow> int \<Rightarrow> bytes \<Rightarrow> bytes \<Rightarrow> 'v list \<Rightarrow> bool" where
  "donated e rs i content embed_text v \<longleftrightarrow>
     (case ie_donors e (rg_contextual rs) maxDedupCandidates of
        None \<Rightarrow> False
      | Some ds \<Rightarrow>
          list_ex (\<lambda>d. case ie_vectors e (d_id d) (rg_dims rs) of
                         None \<Rightarrow> False
                       | Some vs \<Rightarrow>
                           list_ex (\<lambda>k. dc_index k = i \<and> dc_content k = content \<and> dc_embed_text k = embed_text
                             \<and> dc_embedding k = v \<and> length v = rg_dims rs) vs) ds)"

lemma try_donors_some:
  "try_donors vectors dims cs ds = Some out \<Longrightarrow>
   list_ex (\<lambda>d. case vectors (d_id d) dims of None \<Rightarrow> False | Some vs \<Rightarrow> same_chunks vs cs dims \<and> out = borrow vs cs) ds"
  by (induction vectors dims cs ds rule: try_donors.induct) (auto split: option.splits if_splits)

lemma borrow_nth:
  assumes "same_chunks vs cs dims" "j < length cs"
  shows "length (borrow vs cs) = length cs"
    and "borrow vs cs ! j = (cs ! j)\<lparr>nc_embedding := dc_embedding (vs ! j)\<rparr>"
    and "same_chunk dims (vs ! j) (cs ! j) \<and> vs ! j \<in> set vs"
  using assms by (auto simp: same_chunks_def borrow_def list_all2_conv_all_nth)

lemma reused_chunks:
  assumes "reuse_embeddings e doc rs cs = Some out" "j < length cs"
  shows "length out = length cs \<and> (\<exists>v. out ! j = (cs ! j)\<lparr>nc_embedding := v\<rparr>
    \<and> donated e rs (nc_index (cs ! j)) (nc_content (cs ! j)) (nc_embed_text (cs ! j)) v)"
proof -
  from assms(1) obtain ds d vs where d: "ie_donors e (rg_contextual rs) maxDedupCandidates = Some ds" "d \<in> set ds"
    "ie_vectors e (d_id d) (rg_dims rs) = Some vs" and s: "same_chunks vs cs (rg_dims rs)" and out: "out = borrow vs cs"
    by (auto simp: reuse_embeddings_def list_ex_iff dest!: try_donors_some split: if_splits option.splits)
  note at = borrow_nth [OF s assms(2)]
  have "donated e rs (nc_index (cs ! j)) (nc_content (cs ! j)) (nc_embed_text (cs ! j)) (dc_embedding (vs ! j))"
    using d at(3) unfolding donated_def same_chunk_def list_ex_iff
    by (simp only: option.case) (rule bexI [of _ d], force+)
  with at(1,2) out show ?thesis by blast
qed

definition run_title :: "document \<Rightarrow> parsed \<Rightarrow> bytes" where
  "run_title doc p = (if pa_title p = [] then d_filename doc else encode (pa_title p))"

lemma embed_document_chunks:
  assumes run: "embed_document s e doc rs emb p r0 = (None, r)" and emb: "embedder emb" and batch: "0 < is_batch s"
  shows "\<exists>ps. split_blocks (pa_blocks p) (rg_chunk_size rs) (rg_chunk_overlap rs) = Some ps \<and> ps \<noteq> []
    \<and> length (ir_chunks r) = length ps
    \<and> (\<forall>j < length ps. \<exists>v. ir_chunks r ! j = (fresh_chunk rs (d_filename doc) (run_title doc p) (ps ! j))\<lparr>nc_embedding := v\<rparr>
         \<and> (has_own_vector emb (nat (is_batch s)) (map (embed_input rs (d_filename doc)) ps) j v
            \<or> donated e rs (int (ch_index (ps ! j))) (encode (ch_content (ps ! j)))
                (if rg_contextual rs then contextual_text (d_filename doc) (ps ! j) else []) v))"
proof -
  from run obtain ps where ps: "split_blocks (pa_blocks p) (rg_chunk_size rs) (rg_chunk_overlap rs) = Some ps" "ps \<noteq> []"
    by (auto simp: embed_document_def Let_def split: option.splits if_splits)
  define cs where "cs = (map (fresh_chunk rs (d_filename doc) (run_title doc p)) ps :: 'a new_chunk list)"
  define inputs where "inputs = map (embed_input rs (d_filename doc)) ps"
  have len: "length cs = length ps" "length inputs = length ps" by (simp_all add: cs_def inputs_def)
  define r1 where "r1 = r0\<lparr>ir_progress := ir_progress r0 @ [(progressParsed, if pa_pages p > 0 then Some (pa_pages p) else None),
      (progressChunked, None)], ir_chunks := cs\<rparr>"
  have r1: "ir_chunks r1 = cs"
    "(None, r) = (case reuse_embeddings e doc rs cs of
       Some ds \<Rightarrow> (None, r1\<lparr>ir_chunks := ds\<rparr>)
     | None \<Rightarrow> embed_batches emb (rg_language rs) (nat (is_batch s)) inputs 0 r1)"
    using run ps
    by (simp add: r1_def) (use run ps in \<open>simp add: r1_def embed_document_def Let_def inputs_def cs_def run_title_def split: if_splits option.splits\<close>)
  have at: "\<exists>v. ir_chunks r ! j = (cs ! j)\<lparr>nc_embedding := v\<rparr>
      \<and> (has_own_vector emb (nat (is_batch s)) inputs j v \<or> donated e rs (nc_index (cs ! j)) (nc_content (cs ! j)) (nc_embed_text (cs ! j)) v)
      \<and> length (ir_chunks r) = length ps" if "j < length ps" for j
  proof (cases "reuse_embeddings e doc rs cs")
    case None
    with r1 have "embed_batches emb (rg_language rs) (nat (is_batch s)) inputs 0 r1 = (None, r)" by simp
    from embed_batches_vectors [OF emb _ this] batch r1(1) len that show ?thesis by auto
  next
    case (Some ds)
    with r1(2) have "ir_chunks r = ds" by simp
    with reused_chunks [OF Some] len that show ?thesis by auto
  qed
  have "length (ir_chunks r) = length ps" using at [of 0] ps(2) by auto
  moreover have "cs ! j = fresh_chunk rs (d_filename doc) (run_title doc p) (ps ! j)" if "j < length ps" for j
    using that by (simp add: cs_def)
  ultimately show ?thesis
    using ps at by (auto simp: fresh_chunk_def inputs_def)
qed

lemma replaced_rows:
  assumes "replace_document_chunks_from w before i rag conn cs owner db = (None, db')"
  shows "\<exists>fts. filter (\<lambda>k. sd_document k = i) (rd_chunks db')
      = map (chunk_stored i rag conn fts) (zip (map (\<lambda>k. rd_last_chunk db + int k) [1..<length cs + 1]) cs)"
    and "list_ex (\<lambda>d. d_id d = i \<and> d_status d = DocReady \<and> d_chunk_count d = int (length cs) \<and> d_progress d = 100) (rd_documents db')"
proof -
  have same: "filter (\<lambda>k. sd_document k = i) (map (chunk_stored i rag conn fts) zs) = map (chunk_stored i rag conn fts) zs" for fts zs
    by (induction zs) (auto simp: chunk_stored_def split: prod.splits)
  from assms obtain fts r where c: "rd_chunks db' = rd_chunks (swap_chunks i rag conn fts cs db)"
    and d: "rd_documents db' = snd (mark_ready (we_now w) i (int (length cs)) owner (rd_documents db))"
    and f: "find_document (rd_documents db) i \<noteq> None" "fst (mark_ready (we_now w) i (int (length cs)) owner (rd_documents db)) = None"
    by (auto simp: replace_document_chunks_from_def swap_transaction_def Let_def swap_of_changed
        split: option.splits if_splits prod.splits)
  show "\<exists>fts. filter (\<lambda>k. sd_document k = i) (rd_chunks db')
      = map (chunk_stored i rag conn fts) (zip (map (\<lambda>k. rd_last_chunk db + int k) [1..<length cs + 1]) cs)"
    using same by (intro exI [of _ fts]) (simp add: c swap_chunks_def del: upt_Suc)
  have "list_ex (owned owner i) (rd_documents db)"
    using f by (cases "owner = []") (auto simp: mark_ready_def written_or_lost_def find_document_def find_None_iff list_ex_iff owned_def split: if_splits)
  then obtain e where "e \<in> set (rd_documents db)" "owned owner i e" by (auto simp: list_ex_iff)
  then have "e\<lparr>d_status := DocReady, d_error := [], d_chunk_count := int (length cs), d_progress := 100, d_updated_at := we_now w\<rparr>
      \<in> set (rd_documents db')" (is "?e \<in> _")
    unfolding d by (auto simp: mark_ready_def update_where_def intro!: image_eqI [of _ _ e])
  moreover have "d_id ?e = i" using \<open>owned owner i e\<close> by (simp add: owned_def)
  ultimately show "list_ex (\<lambda>d. d_id d = i \<and> d_status d = DocReady \<and> d_chunk_count d = int (length cs) \<and> d_progress d = 100) (rd_documents db')"
    unfolding list_ex_iff by (intro bexI [of _ ?e]) simp_all
qed

text \<open>C9: When an ingestion succeeds, the rows of the document are its chunks, each once and in their order: every piece
  the parsed file was split into is stored whole, under the connection the store had when the run began, with the
  vector the embedding model answered for this very text in its batch, or with that of an identical text of an
  identical document; and the document is ready with their number.\<close>

theorem ingestion_stores_every_chunk:
  assumes "run_pipeline sum256 (with_ingest_defaults s) e w doc owner before db = (Inr n, db')"
    and "ie_store e = Inr rs" and "ie_connection e (rg_connection rs) = Inr conn" and "ie_factory e conn = Inr emb"
    and "embedder emb" and "ie_content e = Inr data" and "extract_text (ie_parsers e) (d_filename doc) data = Inr p"
  shows "case split_blocks (pa_blocks p) (rg_chunk_size rs) (rg_chunk_overlap rs) of
      None \<Rightarrow> False
    | Some ps \<Rightarrow>
        (let stored = filter (\<lambda>k. sd_document k = d_id doc) (rd_chunks db');
             inputs = map (embed_input rs (d_filename doc)) ps; batch = nat (is_batch (with_ingest_defaults s)) in
         n = length ps \<and> ps \<noteq> [] \<and> length stored = n
         \<and> (\<forall>j < n. sd_index (stored ! j) = int (ch_index (ps ! j)) \<and> sd_content (stored ! j) = encode (ch_content (ps ! j))
              \<and> sd_store (stored ! j) = d_store doc \<and> sd_made_by (stored ! j) = rg_connection rs
              \<and> (has_own_vector emb batch inputs j (sd_embedding (stored ! j))
                 \<or> donated e rs (sd_index (stored ! j)) (sd_content (stored ! j))
                     (if rg_contextual rs then contextual_text (d_filename doc) (ps ! j) else []) (sd_embedding (stored ! j))))
         \<and> list_ex (\<lambda>d. d_id d = d_id doc \<and> d_status d = DocReady \<and> d_chunk_count d = int n \<and> d_progress d = 100) (rd_documents db'))"
proof -
  let ?r0 = "new_run\<lparr>ir_hashed := (if d_hash doc = None then [data] else [])\<rparr>"
  let ?st = "with_ingest_defaults s"
  have prep: "prepare_document ?st e doc = embed_document ?st e doc rs emb p ?r0"
    using assms by (simp add: prepare_document_def Let_def)
  obtain r where r: "embed_document ?st e doc rs emb p ?r0 = (None, r)" and n: "n = length (ir_chunks r)"
    and w: "replace_document_chunks_from w before (d_id doc) (d_store doc) (rg_connection rs) (ir_chunks r) owner
      (db\<lparr>rd_documents := write_back sum256 (d_id doc) owner r (rd_documents db)\<rparr>) = (None, db')"
    using assms(1,2) by (auto simp: run_pipeline_def prep Let_def split: prod.splits option.splits)
  from embed_document_chunks [OF r assms(5) settings_positive(1)] obtain ps where
    ps: "split_blocks (pa_blocks p) (rg_chunk_size rs) (rg_chunk_overlap rs) = Some ps" "ps \<noteq> []" "length (ir_chunks r) = length ps"
    and at: "\<And>j. j < length ps \<Longrightarrow> \<exists>v. ir_chunks r ! j = (fresh_chunk rs (d_filename doc) (run_title doc p) (ps ! j))\<lparr>nc_embedding := v\<rparr>
         \<and> (has_own_vector emb (nat (is_batch ?st)) (map (embed_input rs (d_filename doc)) ps) j v
            \<or> donated e rs (int (ch_index (ps ! j))) (encode (ch_content (ps ! j)))
                (if rg_contextual rs then contextual_text (d_filename doc) (ps ! j) else []) v)"
    by blast
  from replaced_rows(1) [OF w] obtain fts where stored:
    "filter (\<lambda>k. sd_document k = d_id doc) (rd_chunks db')
      = map (chunk_stored (d_id doc) (d_store doc) (rg_connection rs) fts)
          (zip (map (\<lambda>k. rd_last_chunk db + int k) [1..<length (ir_chunks r) + 1]) (ir_chunks r))"
    by auto
  have "sd_index (filter (\<lambda>k. sd_document k = d_id doc) (rd_chunks db') ! j) = nc_index (ir_chunks r ! j)
      \<and> sd_content (filter (\<lambda>k. sd_document k = d_id doc) (rd_chunks db') ! j) = nc_content (ir_chunks r ! j)
      \<and> sd_store (filter (\<lambda>k. sd_document k = d_id doc) (rd_chunks db') ! j) = d_store doc
      \<and> sd_made_by (filter (\<lambda>k. sd_document k = d_id doc) (rd_chunks db') ! j) = rg_connection rs
      \<and> sd_embedding (filter (\<lambda>k. sd_document k = d_id doc) (rd_chunks db') ! j) = nc_embedding (ir_chunks r ! j)"
    if "j < length ps" for j
    unfolding stored using that ps(3) by (simp add: chunk_stored_def del: upt_Suc)
  moreover have "length (filter (\<lambda>k. sd_document k = d_id doc) (rd_chunks db')) = length ps"
    unfolding stored using ps(3) by (simp del: upt_Suc)
  ultimately show ?thesis
    using ps n at replaced_rows(2) [OF w] by (auto simp: Let_def fresh_chunk_def dest!: at)
qed

text \<open>A text of two paragraphs in a store that has one chunk for each.\<close>

definition demo_embedder :: "bytes list \<Rightarrow> int embedded" where
  "demo_embedder xs = Inr (map (\<lambda>x. [int (length x), 1]) xs, None)"

definition ingest_connection :: model_connection where
  "ingest_connection = \<lparr>c_id = 7, c_name = [], c_provider_type = ''openai'', c_base_url = [], c_api_key = [], c_api_key_masked = [],
     c_model_name = [], c_private_upstream = False, c_upstream_private = None\<rparr>"

definition demo_store_row :: rag_row where
  "demo_store_row = demo_row\<lparr>rg_chunk_size := 8, rg_chunk_overlap := 0, rg_language := LanguageSimple\<rparr>"

definition demo_file :: bytes where "demo_file = ''one two'' @ [CHR 0x0A, CHR 0x0A] @ ''three''"

definition demo_rows :: "int rag_db" where
  "demo_rows = \<lparr>rd_stores = [demo_store_row], rd_documents = create_document id 0 3 1 ''a.txt'' [] 14 demo_file [],
     rd_chunks = [], rd_last_chunk = 0\<rparr>"

definition demo_document :: document where
  "demo_document = hd (rd_documents demo_rows)"

definition demo_ingest :: "(int, unit) ingest_env" where
  "demo_ingest =
     \<lparr>ie_store = Inr demo_store_row, ie_connection = (\<lambda>_. Inr ingest_connection), ie_factory = (\<lambda>_. Inr demo_embedder),
      ie_content = Inr demo_file,
      ie_parsers = \<lparr>ps_lower = id, ps_atoi = (\<lambda>_. None), ps_zip = (\<lambda>_. None), ps_html = (\<lambda>_. None), ps_pdf = (\<lambda>_. None),
        ps_gone = (\<lambda>_. False)\<rparr>,
      ie_donors = (\<lambda>_ _. None), ie_vectors = (\<lambda>_ _. None)\<rparr>"

definition demo_settings :: ingest_settings where
  "demo_settings = \<lparr>is_max_attempts = 0, is_max_pending = 0, is_max_chunks = 0, is_batch = 0\<rparr>"

definition demo_parsed :: parsed where
  "demo_parsed = plain_blocks [\<lparr>b_text = ascii ''one two'', b_section = [], b_page = 0\<rparr>, \<lparr>b_text = ascii ''three'', b_section = [], b_page = 0\<rparr>]"

definition demo_ingested :: "(pipeline_error + nat) \<times> int rag_db" where
  "demo_ingested =
     run_pipeline id (with_ingest_defaults demo_settings) demo_ingest RagStores.demo_env demo_document [] demo_rows demo_rows"

text \<open>The same function, with the plain case first, for the evaluation of examples.\<close>

lemma encode_rune_code [code]:
  "encode_rune r =
     (if r < 0x80 then [char_of r]
      else if r < 0x800 then [char_of (0xC0 + r div 0x40), cont r]
      else
        (let r = (if valid_rune r then r else rune_error) in
         if r < 0x10000 then [char_of (0xE0 + r div 0x1000), cont (r div 0x40), cont r]
         else [char_of (0xF0 + r div 0x40000), cont (r div 0x1000), cont (r div 0x40), cont r]))"
  by (simp add: encode_rune_def Let_def valid_rune_def rune_error_def)

lemma demo_extracted: "extract_text (ie_parsers demo_ingest) (d_filename demo_document) demo_file = Inr demo_parsed"
  by code_simp

text \<open>The pieces, and a run over them with the estimates of tokens left as they are.\<close>

lemma demo_split:
  "split_blocks (pa_blocks demo_parsed) 8 0 =
     Some [\<lparr>ch_index = 0, ch_content = ascii ''one two'', ch_section = [], ch_page = 0\<rparr>,
           \<lparr>ch_index = 1, ch_content = ascii ''three'', ch_section = [], ch_page = 0\<rparr>]"
  by code_simp

lemma demo_prepared:
  "\<exists>r. prepare_document (with_ingest_defaults demo_settings) demo_ingest demo_document = (None, r)
     \<and> map nc_embedding (ir_chunks r) = [[7, 1], [5, 1]] \<and> ir_hashed r = []"
proof -
  have row: "rg_chunk_size demo_store_row = 8" "rg_chunk_overlap demo_store_row = 0" "rg_contextual demo_store_row = False"
    "rg_dims demo_store_row = 0" and hash: "d_hash demo_document = Some demo_file"
    and st: "is_max_chunks (with_ingest_defaults demo_settings) = 20000" "is_batch (with_ingest_defaults demo_settings) = 32"
    and env: "ie_store demo_ingest = Inr demo_store_row" "ie_content demo_ingest = Inr demo_file"
      "ie_connection demo_ingest i = Inr ingest_connection" "ie_factory demo_ingest c = Inr demo_embedder" for i c
    by (simp_all add: demo_store_row_def demo_row_def demo_document_def demo_rows_def create_document_def demo_ingest_def
        with_ingest_defaults_def demo_settings_def or_int_def DefaultMaxChunks_def defaultEmbedBatch_def)
  have texts: "length (encode (ascii ''one two'')) = 7" "length (encode (ascii ''three'')) = 5" by code_simp+
  show ?thesis
    by (simp add: prepare_document_def env demo_extracted embed_document_def Let_def row demo_split st hash
        reuse_embeddings_def embed_batches.simps demo_embedder_def set_embeddings_def embed_input_def texts fresh_chunk_def new_run_def)
qed

lemma demo_written:
  assumes "map nc_embedding cs = [[7, 1], [5, 1 :: int]]"
  shows "fst (replace_document_chunks_from RagStores.demo_env demo_rows 3 1 7 cs [] (demo_rows\<lparr>rd_documents := docs\<rparr>)) = None
    \<longleftrightarrow> find_document docs 3 \<noteq> None"
proof -
  from assms obtain a b where cs: "cs = [a, b]" "nc_embedding a = [7, 1]" "nc_embedding b = [5, 1]"
    by (auto simp: map_eq_Cons_conv)
  have cfg: "language_config LanguageSimple \<noteq> None" by code_simp
  then show ?thesis
    by (auto simp: replace_document_chunks_from_def pre_check_def cs RagStores.demo_env_def find_rag_def demo_rows_def demo_store_row_def
        demo_row_def may_bind_def check_store_binding_def check_vector_width_def check_bindable_def check_server_width_def
        halfvec_indexable_def MaxHalfvecIndexedDims_def MaxIndexedVectorDims_def maxVectorDims_def swap_transaction_def
        Let_def mark_ready_def written_or_lost_def split: option.splits)
qed

lemma demo_two_chunks: "fst demo_ingested = Inr 2"
proof -
  obtain r where r: "prepare_document (with_ingest_defaults demo_settings) demo_ingest demo_document = (None, r)"
    "map nc_embedding (ir_chunks r) = [[7, 1], [5, 1]]" "ir_hashed r = []"
    using demo_prepared by (elim exE conjE) (rule that)
  have n: "length (ir_chunks r) = 2" using arg_cong [OF r(2), of length] by simp
  have kept: "find_document (update_where (owned [] 3) f docs) 3 \<noteq> None" if "find_document docs 3 \<noteq> None" "\<And>d. d_id (f d) = d_id d"
    for f docs
    using that by (induction docs) (auto simp: find_document_def split: if_splits)
  have step: "find_document (snd (set_document_progress 3 percent pages [] docs)) 3 \<noteq> None"
    if "find_document docs 3 \<noteq> None" for percent pages docs
    unfolding set_document_progress_def Let_def snd_conv by (rule kept [OF that]) (simp split: option.split)
  have "find_document (fold (\<lambda>(percent, pages) docs. snd (set_document_progress 3 percent pages [] docs)) xs docs) 3 \<noteq> None"
    if "find_document docs 3 \<noteq> None" for xs docs
    using that
  proof (induction xs arbitrary: docs)
    case (Cons x xs)
    obtain a b where x: "x = (a, b)" by fastforce
    show ?case unfolding x fold_simps prod.case by (rule Cons.IH [OF step [OF Cons.prems]])
  qed simp
  moreover have "find_document (rd_documents demo_rows) 3 \<noteq> None" "d_id demo_document = 3" "d_store demo_document = 1"
    "ie_store demo_ingest = Inr demo_store_row" "rg_connection demo_store_row = 7"
    by (simp_all add: demo_document_def demo_rows_def create_document_def find_document_def demo_ingest_def demo_store_row_def demo_row_def)
  ultimately show ?thesis
    using demo_written [OF r(2), of "write_back id 3 [] r (rd_documents demo_rows)"] r n
    by (auto simp: demo_ingested_def run_pipeline_def Let_def write_back_def split: prod.splits option.splits)
qed

lemma demo_embedder_lawful: "embedder demo_embedder"
  by unfold_locales (auto simp: demo_embedder_def)

theorem ingestion_stores_every_chunk_witness:
  "length (filter (\<lambda>k. sd_document k = 3) (rd_chunks (snd demo_ingested))) = 2"
proof -
  have "run_pipeline id (with_ingest_defaults demo_settings) demo_ingest RagStores.demo_env demo_document [] demo_rows demo_rows = (Inr 2, snd demo_ingested)"
    using demo_two_chunks by (simp flip: demo_ingested_def) (metis prod.collapse)
  moreover have "ie_store demo_ingest = Inr demo_store_row" "ie_content demo_ingest = Inr demo_file"
    "ie_connection demo_ingest (rg_connection demo_store_row) = Inr ingest_connection"
    "ie_factory demo_ingest ingest_connection = Inr demo_embedder"
    by (simp_all add: demo_ingest_def)
  ultimately have "case split_blocks (pa_blocks demo_parsed) (rg_chunk_size demo_store_row) (rg_chunk_overlap demo_store_row) of
      None \<Rightarrow> False | Some ps \<Rightarrow> length (filter (\<lambda>k. sd_document k = d_id demo_document) (rd_chunks (snd demo_ingested))) = 2"
    using ingestion_stores_every_chunk [OF _ _ _ _ demo_embedder_lawful _ demo_extracted]
    by (fastforce simp only: Let_def split: option.splits)
  then show ?thesis by (simp add: demo_document_def demo_rows_def create_document_def split: option.splits)
qed

end
