(* ===== verification/Spec2Isabelle.thy ===== *)
theory Spec2Isabelle
  imports Glob Types Retry Breaker Store Route Redact Invoke Calendar Usage Limiter Admission
    GoStrings Identity Login Float64 Pricing Accounting Json Chat Tools Metadata
    Runes Chunk Inject Policy Condense Prepare
    Ranked Netguard Sse ToolCalls Capabilities Effort Thinking AnthropicFormat
    ImageSlots ImageCache Http Images Anthropic AnthropicAnswer
    Rerank Hybrid Embed OpenAi Retriever
    Language Documents RagStores Rebuild IngestQueue Parse Ingest
begin

text \<open>
  A verification library for Ragmux, a gateway written in Go that puts API keys, limits,
  prices, routes and retries in front of upstream language models.

  \<^bold>\<open>The program.\<close> A client calls \<open>/v1\<close> with a key. \<open>internal/gateway\<close> runs the request
  through a fixed pipeline: \<open>identify\<close> and \<open>authenticate\<close> resolve the key to a project and a
  subject, \<open>resolveRoute\<close> picks the upstream connections, \<open>checkLimits\<close> asks
  \<open>internal/limits\<close>, \<open>invoke\<close> tries the connections with retries, fallback and circuit
  breakers, and \<open>record\<close> fills the log row, priced by \<open>internal/pricing\<close>. The tables behind
  all of it are read and written by \<open>internal/store\<close>; the dashboard signs in through
  \<open>internal/auth\<close>.

  \<^bold>\<open>Theories and code.\<close>
  \<^item> \<open>Prelude\<close>: lists, strings as bytes, integer wrap-around, the collections of hints.
  \<^item> \<open>GoStrings\<close>: what the code uses of \<open>strings\<close> and \<open>strconv\<close> (trimming, decimal
    numbers, lower case).
  \<^item> \<open>Float64\<close>: binary64 addition, multiplication and rounding, exact on the rationals,
    with infinities and NaN.
  \<^item> \<open>Glob\<close>: \<open>internal/glob\<close>.
  \<^item> \<open>Types\<close>: the rows of \<open>internal/store\<close> as records, with their pure methods.
  \<^item> \<open>Store\<close>: the reads of the request path over lists of rows. A field \<open>st_fault\<close> says
    which query the database fails, so every error branch of a caller is reachable.
  \<^item> \<open>Retry\<close>: \<open>internal/gateway/retry.go\<close>. An error value is the list of the nodes
    \<open>errors.As\<close> would unwrap.
  \<^item> \<open>Breaker\<close>: \<open>internal/gateway/breaker.go\<close>. The table of breakers is a map; every
    method is one atomic step, as the code holds the mutex throughout.
  \<^item> \<open>Route\<close>: \<open>internal/gateway/route.go\<close> and the route steps of the pipeline. The random
    draws are a function of the number of the draw.
  \<^item> \<open>Redact\<close>: \<open>internal/provider/redact.go\<close>. Each regular expression is a list of
    alternatives of pieces, matched leftmost and greedily.
  \<^item> \<open>Invoke\<close>: \<open>Gateway.invoke\<close>. The clock, the client's presence, the upstreams' answers
    and the draws are an environment indexed by a tick that every read advances; the walk
    is written over an interface of breakers.
  \<^item> \<open>Calendar\<close>, \<open>Usage\<close>, \<open>Limiter\<close>: \<open>internal/limits/limits.go\<close> and the counters of
    \<open>internal/store/usage.go\<close>, \<open>keyusage.go\<close> and \<open>sessions.go\<close>. Which store call fails is a
    parameter; a failed statement leaves its table as it was.
  \<^item> \<open>Admission\<close>: the same statements of many concurrent checks, interleaved.
  \<^item> \<open>Identity\<close>: from the headers of a request to its principal and its call.
  \<^item> \<open>Login\<close>: \<open>internal/auth\<close>: throttling, roles and scopes, the session middleware. The login
    and setup handlers of \<open>internal/admin\<close> are two steps each, the limiter's answer and the
    record of the outcome, so that attempts interleave.
  \<^item> \<open>Pricing\<close>: \<open>internal/pricing\<close>.
  \<^item> \<open>Accounting\<close>: token counts, side charges, cost and limit headers of a row.
  \<^item> \<open>Json\<close>: JSON values and what \<open>encoding/json\<close> decodes them to: members matched without
    regard to case, the kinds of Go value, maps. The text of JSON is not modelled.
  \<^item> \<open>Chat\<close>: the request and message types of \<open>internal/provider/types.go\<close>.
  \<^item> \<open>Tools\<close>: \<open>internal/gateway/tools.go\<close>.
  \<^item> \<open>Metadata\<close>: \<open>internal/store/metadata.go\<close>, with the documented meaning of \<open>jsonb\<close>
    containment as the other side of the refinement.
  \<^item> \<open>Runes\<close>: UTF-8 and the rune operations of the standard library.
  \<^item> \<open>Chunk\<close>: \<open>internal/rag/chunk.go\<close>.
  \<^item> \<open>Inject\<close>: the context block of \<open>internal/rag/retrieve.go\<close> and where it is put.
  \<^item> \<open>Policy\<close>: \<open>internal/rag/policy.go\<close>; the Unicode tables are parameters.
  \<^item> \<open>Condense\<close>: \<open>internal/rag/condense.go\<close> and the call the pipeline makes of it.
  \<^item> \<open>Prepare\<close>: from a decoded chat request to the one sent upstream: \<open>parseRagmux\<close>,
    \<open>prepareContext\<close>, \<open>prepareChat\<close> and the headers and fields that report on it. The
    retriever is an argument with a state of its own; the properties run it with one that
    logs, so they speak of the calls made.
  \<^item> \<open>Ranked\<close>: a table whose rows are sorted by how specific their pattern is, as a locale;
    \<open>Pricing\<close> and \<open>Capabilities\<close> interpret it on their own rows.
  \<^item> \<open>Netguard\<close>: \<open>internal/netguard\<close>: addresses as lists of octets, the guarded dialler, the
    allow list and the redirect policy. Name resolution and dialling are an environment.
  \<^item> \<open>Sse\<close>, \<open>ToolCalls\<close>: \<open>internal/provider/sse.go\<close> and \<open>toolcalls.go\<close>.
  \<^item> \<open>Capabilities\<close>, \<open>Effort\<close>: \<open>capabilities.go\<close> with its whole table, and \<open>effort.go\<close>.
  \<^item> \<open>Thinking\<close>: \<open>thinking.go\<close> and the answer types of \<open>types.go\<close>.
  \<^item> \<open>AnthropicFormat\<close>, \<open>Anthropic\<close>, \<open>AnthropicAnswer\<close>: \<open>anthropic_format.go\<close> and
    \<open>anthropic.go\<close>: the request, the answer, and the stream as a fold over its events. The
    events of an answer are as the code's comments describe the Messages API: any cuts, and
    no fragment for an empty input.
  \<^item> \<open>ImageSlots\<close>: \<open>acquire\<close> and \<open>release\<close> of \<open>images.go\<close> as a step relation, one step for
    each section under the mutex, over any number of fetches; \<open>ImageCache\<close>:
    \<open>imagecache.go\<close>; \<open>Images\<close>: the rest of \<open>images.go\<close>.
  \<^item> \<open>Http\<close>: \<open>internal/provider/http.go\<close>: the errors of a call, the retry headers, the bounded
    stream. What \<open>net/http\<close> answers is a parameter.
  \<^item> \<open>Rerank\<close>: \<open>internal/rag/rerank.go\<close> and \<open>internal/provider/rerank.go\<close>: the two rerankers and
    the services behind one, under one contract as a locale.
  \<^item> \<open>Hybrid\<close>: the fused query of \<open>search_pgvector.go\<close> as a function of the rows, and
    \<open>SearchWithBackend\<close> with its fallbacks. The order in which the index scan hands over the
    rows is a parameter; the filter of the vector leg and its limit are not.
  \<^item> \<open>Embed\<close>, \<open>OpenAi\<close>: \<open>embed.go\<close>, \<open>openai.go\<close> and \<open>azure.go\<close>; the embedders share a contract.
  \<^item> \<open>Retriever\<close>: \<open>SearchWithFilter\<close> of \<open>internal/rag/retrieve.go\<close> over the theories before it, and
    what \<open>cmd/ragmux/main.go\<close> builds it from.
  \<^item> \<open>Language\<close>, \<open>RagStores\<close>: \<open>language.go\<close>, \<open>ragstores.go\<close>, the writes of \<open>vector.go\<close>,
    \<open>vectorindex.go\<close> and \<open>ftsrebuild.go\<close> over lists of rows, as a step relation; \<open>Rebuild\<close>:
    \<open>internal/maintenance/ftsrebuild.go\<close>.
  \<^item> \<open>Documents\<close>: \<open>documents.go\<close>, each statement a function on the rows; \<open>IngestQueue\<close>: the
    dispatcher, the workers and the heartbeats of \<open>internal/rag/ingest.go\<close>, of many replicas, as
    sequences of these statements.
  \<^item> \<open>Parse\<close>: \<open>internal/rag/parse.go\<close>. The tokens of an XML decoder, the tree of an HTML parser
    and the object graph of a PDF reader are parameters; \<open>Ingest\<close>: the pipeline of one document.

  \<^bold>\<open>What the lemmas show.\<close> Each theory ends with the properties of its component. Those of
  \<open>Limiter\<close> say that a denial names the first limit exceeded, that a refused check leaves no
  trace, and that an admitted one counts once; \<open>Admission\<close> that no interleaving admits too
  many. Those of \<open>Invoke\<close> and \<open>Breaker\<close> bound the upstream calls and waits of a request and
  describe the life of a breaker. Those of \<open>Identity\<close> and \<open>Login\<close> say who may do what, and
  how many guesses attempts in flight at once can win.
  Those of \<open>Pricing\<close> and \<open>Accounting\<close> say what a request costs and that no figure
  overflows. Those of \<open>Tools\<close> and \<open>Metadata\<close> say what a policy lets through and what a filter
  selects. Those of \<open>Chunk\<close>, \<open>Policy\<close>, \<open>Condense\<close>, \<open>Inject\<close> and \<open>Prepare\<close> follow a document
  and a question to the prompt. Those of \<open>Netguard\<close> say which addresses a call can reach; those
  of \<open>ImageSlots\<close> that fetches respect their ceiling and all come to an end; those of \<open>Http\<close>
  what of an upstream's answer reaches the client and what is repeated. Those of \<open>Anthropic\<close>
  say that the request sent is one the upstream accepts, and those of \<open>AnthropicAnswer\<close>,
  \<open>AnthropicFormat\<close>, \<open>ToolCalls\<close> and \<open>Sse\<close> that a client reading the stream assembles the message
  the other call returns, and where it does not; those of \<open>OpenAi\<close> how a stream is relayed and
  ends. Those of \<open>Rerank\<close>, \<open>Hybrid\<close> and \<open>Retriever\<close> say that a search
  answers with candidates the store and the filter allow, in a fair order, and degrades
  rather than fails. Those of \<open>RagStores\<close> and \<open>Rebuild\<close> say that a store never mixes the
  vectors of two models and that a text search reads what was indexed for it; those of
  \<open>IngestQueue\<close> that a live claim, with its progress and chunks, is kept through any history
  and no document is stuck; those of \<open>Parse\<close> and
  \<open>Ingest\<close> follow a file to the rows of its chunks. Some theorems describe where the code departs from its
  comments or from what it means to do; the manifest lists them as findings.

  \<^bold>\<open>Bounds and termination.\<close> No definition uses fuel: the recursion of the walk is bounded
  by the retry count, the one of the redaction by the text, and the others are structural.
  The windows over a paragraph are a \<open>partial_function\<close>, because a width of zero would never
  end; that they end for every width the code uses is a theorem.
  Integers are unbounded where the code adds small counts; token sums that an upstream
  controls wrap at 64 bits (\<open>wrap64\<close>) as in Go.

  \<^bold>\<open>Not modelled.\<close> HTTP, JSON and SQL text themselves; the chat adapters of
  Gemini and Ollama; encryption and password hashing; the parsers of XML, HTML, PDF and
  archives and the child process a PDF is parsed in; the concurrent build of a vector
  index; the admin handlers; tracing and metrics. The hash of a key, the collation of names and the
  upstreams are parameters. Within one request the breakers are changed by that request
  only: what other requests do in between is covered by the theorems about any sequence of
  breaker events. The contraction of a multiplication and an addition into one rounding,
  which Go permits on some machines, is not modelled.
\<close>

end
